(* ===== verification/Octra_Prelude.thy ===== *)
theory Octra_Prelude
  imports Main "HOL-Library.AList"
begin

text \<open>
  Shared vocabulary of the development: the JavaScript containers the backend uses
  (\<open>Map\<close> and \<open>Set\<close> iterate in insertion order, so they are lists), decimal printing and
  parsing of integers, the small part of the \<open>String\<close> API that the modelled code calls,
  rows of a database table, and reachable states of a transition system together with the
  locale that turns a one-step invariant into an invariant of every reachable state.
  Strings are ASCII character lists; JavaScript's \<open>null\<close> and \<open>undefined\<close> are both
  \<open>None\<close>.
\<close>

named_theorems jsmap_simps "equations of the insertion-ordered map"
named_theorems table_simps "equations of the row tables"

section \<open>JavaScript Map: an association list in insertion order\<close>

type_synonym ('k, 'v) jsmap = "('k \<times> 'v) list"

definition jm_get :: "('k, 'v) jsmap \<Rightarrow> 'k \<Rightarrow> 'v option" where
  "jm_get m k = map_of m k"

definition jm_has :: "('k, 'v) jsmap \<Rightarrow> 'k \<Rightarrow> bool" where
  "jm_has m k = (k \<in> set (map fst m))"

definition jm_set :: "'k \<Rightarrow> 'v \<Rightarrow> ('k, 'v) jsmap \<Rightarrow> ('k, 'v) jsmap" where
  "jm_set k v m = AList.update k v m"

definition jm_delete :: "'k \<Rightarrow> ('k, 'v) jsmap \<Rightarrow> ('k, 'v) jsmap" where
  "jm_delete k m = AList.delete k m"

definition jm_keys :: "('k, 'v) jsmap \<Rightarrow> 'k list" where
  "jm_keys m = map fst m"

definition jm_ok :: "('k, 'v) jsmap \<Rightarrow> bool" where
  "jm_ok m = distinct (map fst m)"

lemma jm_get_set [jsmap_simps, simp]:
  "jm_get (jm_set k v m) k' = (if k' = k then Some v else jm_get m k')"
  by (simp add: jm_get_def jm_set_def update_conv')

lemma jm_get_delete [jsmap_simps, simp]:
  "jm_get (jm_delete k m) k' = (if k' = k then None else jm_get m k')"
  by (simp add: jm_get_def jm_delete_def delete_conv')

lemma jm_get_Nil [jsmap_simps, simp]: "jm_get [] k = None"
  by (simp add: jm_get_def)

lemma jm_has_iff [jsmap_simps]: "jm_has m k \<longleftrightarrow> jm_get m k \<noteq> None"
  by (simp add: jm_has_def jm_get_def map_of_eq_None_iff)

lemma jm_ok_Nil [simp]: "jm_ok []"
  by (simp add: jm_ok_def)

lemma jm_ok_set [simp, intro]: "jm_ok m \<Longrightarrow> jm_ok (jm_set k v m)"
  by (simp add: jm_ok_def jm_set_def distinct_update)

lemma jm_ok_delete [simp, intro]: "jm_ok m \<Longrightarrow> jm_ok (jm_delete k m)"
  by (simp add: jm_ok_def jm_delete_def distinct_delete)

lemma jm_keys_set:
  "jm_keys (jm_set k v m) = (if k \<in> set (jm_keys m) then jm_keys m else jm_keys m @ [k])"
  by (simp add: jm_keys_def jm_set_def update_keys)

lemma jm_keys_delete: "jm_keys (jm_delete k m) = filter (\<lambda>k'. k' \<noteq> k) (jm_keys m)"
  by (induction m) (auto simp: jm_keys_def jm_delete_def)

lemma jm_set_fresh: "k \<notin> set (map fst m) \<Longrightarrow> jm_set k v m = m @ [(k, v)]"
  by (induction m) (auto simp: jm_set_def)

lemma jm_delete_absent: "k \<notin> set (map fst m) \<Longrightarrow> jm_delete k m = m"
  by (induction m) (auto simp: jm_delete_def)

lemma jm_delete_filter: "jm_delete k m = filter (\<lambda>p. fst p \<noteq> k) m"
  by (induction m) (auto simp: jm_delete_def)

lemma delete_id: "k \<notin> fst ` set m \<Longrightarrow> AList.delete k m = m"
  by (induction m) auto

lemma length_jm_delete_present:
  "jm_ok m \<Longrightarrow> jm_has m k \<Longrightarrow> Suc (length (jm_delete k m)) = length m"
proof (induction m)
  case (Cons p m)
  then show ?case
    by (cases "fst p = k") (auto simp: jm_ok_def jm_has_def jm_delete_def delete_id)
qed (simp add: jm_has_def)

lemma length_jm_set:
  "length (jm_set k v m) = (if jm_has m k then length m else Suc (length m))"
  by (induction m) (auto simp: jm_set_def jm_has_def)

lemma jm_get_in_set: "jm_get m k = Some v \<Longrightarrow> (k, v) \<in> set m"
  by (simp add: jm_get_def map_of_SomeD)

lemma jm_ok_get_eq: "jm_ok m \<Longrightarrow> (k, v) \<in> set m \<Longrightarrow> jm_get m k = Some v"
  by (simp add: jm_get_def jm_ok_def)

section \<open>The contract of a keyed store\<close>

text \<open>
  What every client of a keyed store relies on: the usual laws of lookup after insertion and
  deletion, and an invariant that both operations keep. The JavaScript \<open>Map\<close> provides it.
\<close>

locale keyed_store =
  fixes look :: "'m \<Rightarrow> 'k \<Rightarrow> 'v option"
    and put :: "'k \<Rightarrow> 'v \<Rightarrow> 'm \<Rightarrow> 'm"
    and del :: "'k \<Rightarrow> 'm \<Rightarrow> 'm"
    and ok :: "'m \<Rightarrow> bool"
  assumes look_put: "ok m \<Longrightarrow> look (put k v m) k' = (if k' = k then Some v else look m k')"
    and look_del: "ok m \<Longrightarrow> look (del k m) k' = (if k' = k then None else look m k')"
    and ok_put: "ok m \<Longrightarrow> ok (put k v m)"
    and ok_del: "ok m \<Longrightarrow> ok (del k m)"
begin

lemma look_put_same: "ok m \<Longrightarrow> look (put k v m) k = Some v"
  by (simp add: look_put)

lemma look_reinsert: "ok m \<Longrightarrow> look (put k v (del k m)) k' = look (put k v m) k'"
  by (simp add: look_put look_del ok_del)

lemma ok_fold_put: "ok m \<Longrightarrow> ok (fold (\<lambda>(k, v). put k v) kvs m)"
  by (induction kvs arbitrary: m) (auto intro: ok_put)

lemma look_fold_put:
  "ok m \<Longrightarrow> look (fold (\<lambda>(k, v). put k v) kvs m) k' =
     (case map_of (rev kvs) k' of None \<Rightarrow> look m k' | Some v \<Rightarrow> Some v)"
  by (induction kvs arbitrary: m)
    (auto simp: look_put ok_put map_add_def split: option.splits)

end

interpretation js_map: keyed_store jm_get jm_set jm_delete jm_ok
  by unfold_locales auto

section \<open>JavaScript Set: distinct elements in insertion order\<close>

definition js_add :: "'a \<Rightarrow> 'a list \<Rightarrow> 'a list" where
  "js_add x s = (if x \<in> set s then s else s @ [x])"

definition js_set_of :: "'a list \<Rightarrow> 'a list" where
  "js_set_of xs = fold js_add xs []"

lemma set_js_add [simp]: "set (js_add x s) = insert x (set s)"
  by (auto simp: js_add_def)

lemma distinct_js_add [simp, intro]: "distinct s \<Longrightarrow> distinct (js_add x s)"
  by (simp add: js_add_def)

lemma set_fold_js_add [simp]: "set (fold js_add xs s) = set xs \<union> set s"
  by (induction xs arbitrary: s) auto

lemma distinct_fold_js_add [simp, intro]: "distinct s \<Longrightarrow> distinct (fold js_add xs s)"
  by (induction xs arbitrary: s) auto

lemma set_js_set_of [simp]: "set (js_set_of xs) = set xs"
  by (simp add: js_set_of_def)

lemma distinct_js_set_of [simp, intro]: "distinct (js_set_of xs)"
  by (simp add: js_set_of_def)

section \<open>Strings and decimal numbers\<close>

definition digit_char :: "nat \<Rightarrow> char" where
  "digit_char d = char_of (48 + d)"

definition is_digit :: "char \<Rightarrow> bool" where
  "is_digit c = (48 \<le> (of_char c :: nat) \<and> (of_char c :: nat) \<le> 57)"

definition digit_val :: "char \<Rightarrow> nat" where
  "digit_val c = (of_char c :: nat) - 48"

fun dec_nat :: "nat \<Rightarrow> string" where
  "dec_nat n = (if n < 10 then [digit_char n] else dec_nat (n div 10) @ [digit_char (n mod 10)])"

declare dec_nat.simps [simp del]

definition dec_int :: "int \<Rightarrow> string" where
  "dec_int i = (if i < 0 then ''-'' @ dec_nat (nat (- i)) else dec_nat (nat i))"

definition val_digits :: "string \<Rightarrow> nat" where
  "val_digits s = foldl (\<lambda>acc c. acc * 10 + digit_val c) 0 s"

lemma digit_char_props [simp]:
  "d < 10 \<Longrightarrow> is_digit (digit_char d)" "d < 10 \<Longrightarrow> digit_val (digit_char d) = d"
  by (simp_all add: is_digit_def digit_char_def digit_val_def)

lemma dec_nat_digits: "\<forall>c \<in> set (dec_nat n). is_digit c"
proof (induction n rule: dec_nat.induct)
  case (1 n)
  then show ?case by (subst dec_nat.simps) auto
qed

lemma dec_nat_nonempty [simp]: "dec_nat n \<noteq> []"
  by (subst dec_nat.simps) simp

lemma val_digits_append: "val_digits (s @ [c]) = val_digits s * 10 + digit_val c"
  by (simp add: val_digits_def)

lemma val_dec_nat [simp]: "val_digits (dec_nat n) = n"
proof (induction n rule: dec_nat.induct)
  case (1 n)
  show ?case
  proof (cases "n < 10")
    case True
    then show ?thesis by (subst dec_nat.simps) (simp add: val_digits_def)
  next
    case False
    with 1 show ?thesis
      by (subst dec_nat.simps) (simp only: val_digits_append if_False, simp)
  qed
qed

lemma dec_nat_inj: "dec_nat a = dec_nat b \<longleftrightarrow> a = b"
  by (metis val_dec_nat)

text \<open>\<open>String.prototype.split\<close> with a one-character separator: never the empty list.\<close>

fun split_on :: "char \<Rightarrow> string \<Rightarrow> string list" where
  "split_on sep [] = [[]]"
| "split_on sep (c # cs) =
     (if c = sep then [] # split_on sep cs
      else case split_on sep cs of [] \<Rightarrow> [[c]] | p # ps \<Rightarrow> (c # p) # ps)"

fun join_with :: "string \<Rightarrow> string list \<Rightarrow> string" where
  "join_with sep [] = []"
| "join_with sep [x] = x"
| "join_with sep (x # y # ys) = x @ sep @ join_with sep (y # ys)"

lemma split_on_nonempty [simp]: "split_on sep s \<noteq> []"
  by (cases s) (auto split: list.splits)

lemma split_on_none: "sep \<notin> set s \<Longrightarrow> split_on sep s = [s]"
  by (induction s) auto

lemma split_on_append: "sep \<notin> set p \<Longrightarrow> split_on sep (p @ sep # s) = p # split_on sep s"
  by (induction p) auto

lemma split_join:
  "ps \<noteq> [] \<Longrightarrow> \<forall>p \<in> set ps. sep \<notin> set p \<Longrightarrow> split_on sep (join_with [sep] ps) = ps"
  by (induction "[sep]" ps rule: join_with.induct) (auto simp: split_on_none split_on_append)

definition starts_with :: "string \<Rightarrow> string \<Rightarrow> bool" where
  "starts_with p s = (take (length p) s = p)"

definition ends_with :: "string \<Rightarrow> string \<Rightarrow> bool" where
  "ends_with p s = (length p \<le> length s \<and> drop (length s - length p) s = p)"

fun includes_str :: "string \<Rightarrow> string \<Rightarrow> bool" where
  "includes_str p [] = (p = [])"
| "includes_str p (c # cs) = (starts_with p (c # cs) \<or> includes_str p cs)"

definition lower_char :: "char \<Rightarrow> char" where
  "lower_char c = (let n = (of_char c :: nat) in if 65 \<le> n \<and> n \<le> 90 then char_of (n + 32) else c)"

definition to_lower :: "string \<Rightarrow> string" where
  "to_lower s = map lower_char s"

definition is_hex_char :: "char \<Rightarrow> bool" where
  "is_hex_char c = (let n = (of_char c :: nat) in
     (48 \<le> n \<and> n \<le> 57) \<or> (65 \<le> n \<and> n \<le> 70) \<or> (97 \<le> n \<and> n \<le> 102))"

text \<open>\<open>parseInt(s, 10)\<close>: leading white space, a sign, then as many digits as there are;
  \<open>None\<close> is \<open>NaN\<close>.\<close>

definition is_space :: "char \<Rightarrow> bool" where
  "is_space c = ((of_char c :: nat) \<in> {9, 10, 11, 12, 13, 32})"

text \<open>\<open>String.prototype.trim\<close>.\<close>

definition js_trim :: "string \<Rightarrow> string" where
  "js_trim s = rev (dropWhile is_space (rev (dropWhile is_space s)))"

definition parse_sign :: "string \<Rightarrow> int \<times> string" where
  "parse_sign t = (case t of [] \<Rightarrow> (1, [])
     | c # cs \<Rightarrow> if c = CHR ''-'' then (-1, cs) else if c = CHR ''+'' then (1, cs) else (1, t))"

definition parse_int10 :: "string \<Rightarrow> int option" where
  "parse_int10 s = (case parse_sign (dropWhile is_space s) of (sg, u) \<Rightarrow>
     (let ds = takeWhile is_digit u in
      if ds = [] then None else Some (sg * int (val_digits ds))))"

lemma digit_not_space: "is_digit c \<Longrightarrow> \<not> is_space c"
  by (auto simp: is_digit_def is_space_def)

lemma digit_not_sign: "is_digit c \<Longrightarrow> c \<noteq> CHR ''-'' \<and> c \<noteq> CHR ''+''"
  by (auto simp: is_digit_def)

lemma parse_int10_digits:
  assumes "ds \<noteq> []" "\<forall>c \<in> set ds. is_digit c" "rest = [] \<or> \<not> is_digit (hd rest)"
  shows "parse_int10 (ds @ rest) = Some (int (val_digits ds))"
proof -
  obtain c cs where ds: "ds = c # cs" using assms(1) by (cases ds) auto
  have c: "is_digit c" using assms(2) ds by simp
  have tw: "takeWhile is_digit (ds @ rest) = ds"
    using assms(2,3) by (cases rest) (auto simp: takeWhile_append)
  show ?thesis
    using c tw digit_not_space [OF c] digit_not_sign [OF c]
    by (simp add: parse_int10_def parse_sign_def ds)
qed

lemma parse_int10_dec [simp]: "parse_int10 (dec_nat n) = Some (int n)"
  using parse_int10_digits [of "dec_nat n" "[]"] dec_nat_digits by simp

section \<open>Tables: rows with an identifier\<close>

text \<open>A field that an update leaves out keeps its value.\<close>

definition set_if :: "'a option \<Rightarrow> 'a \<Rightarrow> 'a" where
  "set_if v old = (case v of None \<Rightarrow> old | Some x \<Rightarrow> x)"

definition tbl_find :: "('r \<Rightarrow> 'i) \<Rightarrow> 'i \<Rightarrow> 'r list \<Rightarrow> 'r option" where
  "tbl_find key i rows = List.find (\<lambda>r. key r = i) rows"

definition tbl_update :: "('r \<Rightarrow> 'i) \<Rightarrow> 'i \<Rightarrow> ('r \<Rightarrow> 'r) \<Rightarrow> 'r list \<Rightarrow> 'r list" where
  "tbl_update key i f rows = map (\<lambda>r. if key r = i then f r else r) rows"

lemma set_tbl_update [table_simps]:
  "set (tbl_update key i f rows) = (\<lambda>r. if key r = i then f r else r) ` set rows"
  by (simp add: tbl_update_def)

lemma tbl_update_keys [table_simps]:
  "(\<And>r. key (f r) = key r) \<Longrightarrow> map key (tbl_update key i f rows) = map key rows"
  by (simp add: tbl_update_def)

lemma map_tbl_update [table_simps]:
  "(\<And>r. g (f r) = g r) \<Longrightarrow> map g (tbl_update key i f rows) = map g rows"
  by (simp add: tbl_update_def)

lemma tbl_find_update [table_simps]:
  assumes "\<And>r. key (f r) = key r"
  shows "tbl_find key j (tbl_update key i f rows) =
    (if j = i then map_option f (tbl_find key j rows) else tbl_find key j rows)"
  by (induction rows) (auto simp: tbl_find_def tbl_update_def assms)

lemma tbl_find_Some: "tbl_find key i rows = Some r \<Longrightarrow> r \<in> set rows \<and> key r = i"
  by (auto simp: tbl_find_def find_Some_iff)

lemma tbl_find_distinct:
  "distinct (map key rows) \<Longrightarrow> r \<in> set rows \<Longrightarrow> tbl_find key (key r) rows = Some r"
  by (induction rows) (auto simp: tbl_find_def)

section \<open>Reachable states and invariants\<close>

inductive reachable :: "('s \<Rightarrow> bool) \<Rightarrow> ('s \<Rightarrow> 's \<Rightarrow> bool) \<Rightarrow> 's \<Rightarrow> bool"
  for init :: "'s \<Rightarrow> bool" and step :: "'s \<Rightarrow> 's \<Rightarrow> bool" where
  reach_init: "init s \<Longrightarrow> reachable init step s"
| reach_step: "reachable init step s \<Longrightarrow> step s t \<Longrightarrow> reachable init step t"

text \<open>
  The interface of a component that runs as a state machine: a start condition, a step
  relation and an invariant of single steps. Every component with a step relation
  interprets it and gets its invariant for all reachable states.
\<close>

locale invariant_system =
  fixes init :: "'s \<Rightarrow> bool"
    and step :: "'s \<Rightarrow> 's \<Rightarrow> bool"
    and inv :: "'s \<Rightarrow> bool"
  assumes inv_init: "init s \<Longrightarrow> inv s"
    and inv_step: "inv s \<Longrightarrow> step s t \<Longrightarrow> inv t"
begin

lemma reachable_inv: "reachable init step s \<Longrightarrow> inv s"
  by (induction rule: reachable.induct) (auto intro: inv_init inv_step)

lemma steps_inv: "inv s \<Longrightarrow> step\<^sup>*\<^sup>* s t \<Longrightarrow> inv t"
  by (rotate_tac 1, induction rule: rtranclp_induct) (auto intro: inv_step)

end

end
