(* ===== verification/Js_Int32.thy ===== *)
theory Js_Int32
  imports Octra_Prelude "HOL-Library.Word"
begin

unbundle bit_operations_syntax

text \<open>
  The bitwise operators of JavaScript. An operand is converted to a 32-bit integer, the
  operator works on the 32 bits, and the result is read back as a signed number (as an
  unsigned one for the idiom \<open>x >>> 0\<close>). Numbers are \<open>int\<close>; the code only applies these
  operators to integers below $2^{53}$, where a JavaScript number is exact.
\<close>

definition to_i32 :: "int \<Rightarrow> 32 word" where
  "to_i32 n = word_of_int n"

definition js_or :: "int \<Rightarrow> int \<Rightarrow> int" where
  "js_or a b = sint (to_i32 a OR to_i32 b)"

definition js_and :: "int \<Rightarrow> int \<Rightarrow> int" where
  "js_and a b = sint (to_i32 a AND to_i32 b)"

text \<open>The shift count is taken modulo 32.\<close>

definition js_shl :: "int \<Rightarrow> int \<Rightarrow> int" where
  "js_shl a s = sint (push_bit (nat (s mod 32)) (to_i32 a))"

definition js_ushr0 :: "int \<Rightarrow> int" where
  "js_ushr0 a = uint (to_i32 a)"

lemma to_i32_sint [simp]: "to_i32 (sint w) = w"
  by (simp add: to_i32_def)

lemma to_i32_uint [simp]: "to_i32 (uint w) = w"
  by (simp add: to_i32_def)

lemma js_ushr0_range: "0 \<le> js_ushr0 a \<and> js_ushr0 a < 2 ^ 32"
  using uint_lt2p [of "to_i32 a"] by (simp add: js_ushr0_def)

lemma js_or_range: "- (2 ^ 31) \<le> js_or a b \<and> js_or a b < 2 ^ 31"
  using sint_ge [of "to_i32 a OR to_i32 b"] sint_lt [of "to_i32 a OR to_i32 b"]
  by (simp add: js_or_def)

lemma and_high_mask:
  "(w :: 32 word) AND push_bit m (- 1) = push_bit m (drop_bit m w)"
  by (rule bit_eqI) (auto simp: bit_simps)

lemma push_drop_eq_iff:
  "push_bit m (drop_bit m w) = push_bit m (drop_bit m v) \<longleftrightarrow> drop_bit m w = drop_bit m (v :: 32 word)"
proof
  assume eq: "push_bit m (drop_bit m w) = push_bit m (drop_bit m v)"
  show "drop_bit m w = drop_bit m v"
  proof (rule bit_eqI)
    fix n
    have "bit (push_bit m (drop_bit m w)) (n + m) = bit (push_bit m (drop_bit m v)) (n + m)"
      using eq by simp
    then show "bit (drop_bit m w) n = bit (drop_bit m v) n"
      by (auto simp: bit_simps ac_simps dest: bit_imp_le_length)
  qed
qed simp

lemma take_bit_uint32 [simp]: "take_bit 32 (uint (w :: 32 word)) = uint w"
  using uint_lt2p [of w] by (intro take_bit_int_eq_self) auto

lemma high_mask_match:
  "(w :: 32 word) AND push_bit m (- 1) = v AND push_bit m (- 1) \<longleftrightarrow> uint w div 2 ^ m = uint v div 2 ^ m"
  by (simp only: and_high_mask push_drop_eq_iff) (simp add: word_uint_eq_iff unsigned_drop_bit_eq flip: drop_bit_eq_div)

text \<open>Appending eight bits: \<open>(acc << 8) | octet\<close> for an octet below 256.\<close>

lemma uint_shl_or_octet:
  assumes "0 \<le> a" "a < 2 ^ 24" "0 \<le> b" "b < 256"
  shows "uint (push_bit 8 (to_i32 a) OR to_i32 b) = a * 256 + b"
proof -
  have disj: "push_bit 8 (to_i32 a) AND to_i32 b = 0"
  proof (rule bit_eqI)
    fix n :: nat
    show "bit (push_bit 8 (to_i32 a) AND to_i32 b) n = bit 0 n"
    proof (cases "n < 8")
      case True
      then show ?thesis by (simp add: bit_simps)
    next
      case False
      have "b = take_bit 8 b" using assms by (simp add: take_bit_int_eq_self)
      with False have "\<not> bit b n" by (metis bit_take_bit_iff)
      then show ?thesis by (simp add: bit_simps to_i32_def)
    qed
  qed
  have "push_bit 8 (to_i32 a) OR to_i32 b = push_bit 8 (to_i32 a) + to_i32 b"
    using disj by (rule disjunctive_add_eq_or [symmetric])
  also have "\<dots> = word_of_int (a * 256 + b)"
    by (simp add: to_i32_def push_bit_eq_mult)
  finally have "push_bit 8 (to_i32 a) OR to_i32 b = (word_of_int (a * 256 + b) :: 32 word)" .
  moreover have "uint (word_of_int (a * 256 + b) :: 32 word) = a * 256 + b"
    unfolding uint_word_of_int using assms by simp
  ultimately show ?thesis by simp
qed

end
