(* ===== verification/Ssrf_Guard.thy ===== *)
theory Ssrf_Guard
  imports Js_Int32
begin

text \<open>
  \<open>src/webhooks/ssrf-guard.ts\<close>: the check that keeps outbound webhook requests away from
  private addresses. IPv4 range matching works on 32-bit words as in the source; the
  predicates \<open>net.isIPv4\<close> and \<open>net.isIPv6\<close> follow Node's address grammar. The URL parser,
  the DNS resolver and the HTTP client are fields of an environment; a redirect chain runs
  against one environment per hop, because DNS answers may change between hops.
\<close>

section \<open>IPv4 ranges\<close>

definition ipv4ToInt :: "string \<Rightarrow> int" where
  "ipv4ToInt ip = js_ushr0 (foldl (\<lambda>acc octet.
     js_or (js_shl acc 8) (case parse_int10 octet of None \<Rightarrow> 0 | Some n \<Rightarrow> n)) 0 (split_on CHR ''.'' ip))"

record ipv4_range =
  r_base :: int
  r_mask :: int

definition makeRange :: "string \<Rightarrow> ipv4_range" where
  "makeRange cidr = (case split_on CHR ''/'' cidr of
     addr # rest \<Rightarrow>
       (let msk = (case rest of
                     [] \<Rightarrow> 4294967295
                   | bits # _ \<Rightarrow> if bits = [] then 4294967295
                       else js_ushr0 (js_shl (- 1) (32 - (case parse_int10 bits of None \<Rightarrow> 32 | Some n \<Rightarrow> n))))
        in \<lparr>r_base = js_and (ipv4ToInt addr) msk, r_mask = msk\<rparr>)
   | [] \<Rightarrow> \<lparr>r_base = 0, r_mask = 0\<rparr>)"

definition BLOCKED_IPV4_RANGES :: "ipv4_range list" where
  "BLOCKED_IPV4_RANGES = map makeRange
     [''0.0.0.0/8'', ''10.0.0.0/8'', ''100.64.0.0/10'', ''127.0.0.0/8'', ''169.254.0.0/16'',
      ''172.16.0.0/12'', ''192.0.0.0/24'', ''192.168.0.0/16'', ''198.18.0.0/15'',
      ''198.51.100.0/24'', ''203.0.113.0/24'', ''224.0.0.0/4'', ''240.0.0.0/4'',
      ''255.255.255.255/32'']"

definition isBlockedIpv4 :: "string \<Rightarrow> bool" where
  "isBlockedIpv4 ip = (let n = ipv4ToInt ip in
     list_ex (\<lambda>r. js_and n (r_mask r) = r_base r) BLOCKED_IPV4_RANGES)"

section \<open>Node's address grammar\<close>

definition v4_seg :: "string \<Rightarrow> bool" where
  "v4_seg s = (s \<noteq> [] \<and> list_all is_digit s \<and> length s \<le> 3 \<and> val_digits s \<le> 255 \<and>
     (length s > 1 \<longrightarrow> hd s \<noteq> CHR ''0''))"

definition isIPv4 :: "string \<Rightarrow> bool" where
  "isIPv4 s = (let ps = split_on CHR ''.'' s in length ps = 4 \<and> list_all v4_seg ps)"

definition v6_seg :: "string \<Rightarrow> bool" where
  "v6_seg s = (s \<noteq> [] \<and> length s \<le> 4 \<and> list_all is_hex_char s)"

text \<open>Number of 16-bit groups of a colon-separated part, \<open>None\<close> when it is malformed; only
  the last group of the whole address may be a dotted IPv4 address, worth two groups.\<close>

fun v6_groups :: "bool \<Rightarrow> string list \<Rightarrow> nat option" where
  "v6_groups v4_last [] = Some 0"
| "v6_groups v4_last [g] =
     (if v6_seg g then Some 1 else if v4_last \<and> isIPv4 g then Some 2 else None)"
| "v6_groups v4_last (g # gs) =
     (if v6_seg g then map_option Suc (v6_groups v4_last gs) else None)"

fun split_dcolon :: "string \<Rightarrow> (string \<times> string) option" where
  "split_dcolon (c # d # cs) =
     (if c = CHR '':'' \<and> d = CHR '':'' then Some ([], cs)
      else map_option (\<lambda>(l, r). (c # l, r)) (split_dcolon (d # cs)))"
| "split_dcolon _ = None"

definition colon_parts :: "string \<Rightarrow> string list" where
  "colon_parts s = (if s = [] then [] else split_on CHR '':'' s)"

definition zone_char :: "char \<Rightarrow> bool" where
  "zone_char c = (let n = (of_char (lower_char c) :: nat) in
     is_digit c \<or> (97 \<le> n \<and> n \<le> 122) \<or> c \<in> set ''-.:'')"

definition isIPv6 :: "string \<Rightarrow> bool" where
  "isIPv6 s =
     (let addr = takeWhile (\<lambda>c. c \<noteq> CHR ''%'') s; zone = dropWhile (\<lambda>c. c \<noteq> CHR ''%'') s in
      (zone = [] \<or> (tl zone \<noteq> [] \<and> list_all zone_char (tl zone))) \<and>
      (case split_dcolon addr of
         None \<Rightarrow> v6_groups True (colon_parts addr) = Some 8
       | Some (l, r) \<Rightarrow>
           (case (v6_groups False (colon_parts l), v6_groups True (colon_parts r)) of
              (Some a, Some b) \<Rightarrow> a + b \<le> 7
            | _ \<Rightarrow> False)))"

section \<open>Blocked IPv6 addresses\<close>

definition strip_brackets :: "string \<Rightarrow> string" where
  "strip_brackets s =
     (let t = (case s of c # cs \<Rightarrow> if c = CHR ''['' then cs else s | [] \<Rightarrow> [])
      in if t \<noteq> [] \<and> last t = CHR '']'' then butlast t else t)"

text \<open>The first replacement of the source, \<open>/^.*%.*$/\<close>, removes the whole string as soon as it
  contains a percent sign.\<close>

definition normalise6 :: "string \<Rightarrow> string" where
  "normalise6 ip = to_lower (strip_brackets (if CHR ''%'' \<in> set ip then [] else ip))"

definition dotted_digits :: "string \<Rightarrow> bool" where
  "dotted_digits s = (let ps = split_on CHR ''.'' s in
     length ps = 4 \<and> list_all (\<lambda>p. p \<noteq> [] \<and> list_all is_digit p) ps)"

definition link_local_prefix :: "string \<Rightarrow> bool" where
  "link_local_prefix s = (length s \<ge> 5 \<and> take 2 s = ''fe'' \<and> s ! 2 \<in> set ''89ab'' \<and>
     is_hex_char (s ! 3) \<and> s ! 4 = CHR '':'')"

definition unique_local_prefix :: "string \<Rightarrow> bool" where
  "unique_local_prefix s = (length s \<ge> 5 \<and> s ! 0 = CHR ''f'' \<and> s ! 1 \<in> set ''cd'' \<and>
     is_hex_char (s ! 2) \<and> is_hex_char (s ! 3) \<and> s ! 4 = CHR '':'')"

definition isBlockedIpv6 :: "string \<Rightarrow> bool" where
  "isBlockedIpv6 ip =
     (let addr = normalise6 ip in
      if addr = ''::'' \<or> addr = ''::1'' then True
      else if starts_with ''::ffff:'' addr \<and> dotted_digits (drop 7 addr) then isBlockedIpv4 (drop 7 addr)
      else if link_local_prefix addr then True
      else if unique_local_prefix addr then True
      else if addr = ''fd00:ec2::254'' then True
      else if starts_with ''ff'' addr then True
      else False)"

definition isBlockedIp :: "string \<Rightarrow> bool" where
  "isBlockedIp ip =
     (if isIPv4 ip then isBlockedIpv4 ip else if isIPv6 ip then isBlockedIpv6 ip else False)"

section \<open>URL checks\<close>

datatype ssrf_reason =
    BlockedLiteral string
  | InternalName string
  | Unresolved string
  | ResolvesToBlocked string string
  | MalformedUrl string
  | PlainHttp
  | BadProtocol string
  | MissingLocation
  | TooManyRedirects

datatype web_error = SsrfBlockedError ssrf_reason | OtherError string

definition MAX_REDIRECTS :: nat where
  "MAX_REDIRECTS = 5"

fun reason_text :: "ssrf_reason \<Rightarrow> string" where
  "reason_text (BlockedLiteral h) = ''IP address '' @ h @ '' is in a blocked range''"
| "reason_text (InternalName h) = ''Hostname \"'' @ h @ ''\" is reserved for internal use''"
| "reason_text (Unresolved h) = ''Hostname \"'' @ h @ ''\" did not resolve to any IP address''"
| "reason_text (ResolvesToBlocked h ip) = ''Hostname \"'' @ h @ ''\" resolves to blocked IP '' @ ip"
| "reason_text (MalformedUrl u) = ''Malformed URL: '' @ u"
| "reason_text PlainHttp =
     ''Plain HTTP is not permitted for webhook destinations outside dev/local profiles''"
| "reason_text (BadProtocol p) = ''Protocol \"'' @ p @ ''\" is not allowed for webhook destinations''"
| "reason_text MissingLocation = ''Redirect response missing Location header''"
| "reason_text TooManyRedirects = ''Exceeded maximum redirect limit ('' @ dec_nat MAX_REDIRECTS @ '')''"

fun error_message :: "web_error \<Rightarrow> string" where
  "error_message (SsrfBlockedError r) = ''SSRF blocked: '' @ reason_text r"
| "error_message (OtherError m) = m"

record parsed_url =
  u_protocol :: string
  u_hostname :: string

record http_response =
  h_status :: int
  h_location :: string
  h_data :: string

text \<open>What the guard uses of its surroundings: the deployment profile, \<open>new URL(raw)\<close>,
  \<open>new URL(location, base).toString()\<close>, the two DNS queries (\<open>None\<close> when the promise is
  rejected) and one POST (an absent \<open>location\<close> header is the empty string: the code tests it
  for truth).\<close>

record web_env =
  e_profile :: string
  e_parse :: "string \<Rightarrow> parsed_url option"
  e_relative :: "string \<Rightarrow> string \<Rightarrow> string option"
  e_resolve4 :: "string \<Rightarrow> string list option"
  e_resolve6 :: "string \<Rightarrow> string list option"
  e_post :: "string \<Rightarrow> string + http_response"

definition isHttpAllowed :: "web_env \<Rightarrow> bool" where
  "isHttpAllowed e = (to_lower (e_profile e) \<in> {''local'', ''devnet'', ''test''})"

definition resolved_ips :: "web_env \<Rightarrow> string \<Rightarrow> string list" where
  "resolved_ips e h = (case e_resolve4 e h of None \<Rightarrow> [] | Some v \<Rightarrow> v) @
     (case e_resolve6 e h of None \<Rightarrow> [] | Some v \<Rightarrow> v)"

definition assertHostnameResolvesToPublicIp :: "web_env \<Rightarrow> string \<Rightarrow> web_error + unit" where
  "assertHostnameResolvesToPublicIp e h =
     (if isIPv4 h \<or> isIPv6 h then
        (if isBlockedIp h then Inl (SsrfBlockedError (BlockedLiteral h)) else Inr ())
      else if h = ''localhost'' \<or> ends_with ''.local'' h \<or> ends_with ''.internal'' h then
        Inl (SsrfBlockedError (InternalName h))
      else if resolved_ips e h = [] then Inl (SsrfBlockedError (Unresolved h))
      else (case List.find isBlockedIp (resolved_ips e h) of
              Some ip \<Rightarrow> Inl (SsrfBlockedError (ResolvesToBlocked h ip))
            | None \<Rightarrow> Inr ()))"

definition assertSafeUrl :: "web_env \<Rightarrow> string \<Rightarrow> web_error + unit" where
  "assertSafeUrl e raw =
     (case e_parse e raw of
        None \<Rightarrow> Inl (SsrfBlockedError (MalformedUrl raw))
      | Some u \<Rightarrow>
          if u_protocol u = ''http:'' \<and> \<not> isHttpAllowed e then Inl (SsrfBlockedError PlainHttp)
          else if \<not> (u_protocol u = ''https:'') \<and> \<not> (u_protocol u = ''http:'' \<and> isHttpAllowed e) then
            Inl (SsrfBlockedError (BadProtocol (u_protocol u)))
          else assertHostnameResolvesToPublicIp e (u_hostname u))"

section \<open>Posting with redirects\<close>

text \<open>
  The loop of \<open>safePost\<close>: \<open>n\<close> hops are left, \<open>hop\<close> is the loop counter. The first component
  of the result is the log of the POST requests made, as pairs of the hop and the URL.
\<close>

fun safePost_loop :: "(nat \<Rightarrow> web_env) \<Rightarrow> nat \<Rightarrow> nat \<Rightarrow> string
    \<Rightarrow> (nat \<times> string) list \<times> (web_error + http_response)" where
  "safePost_loop env 0 hop url = ([], Inl (SsrfBlockedError TooManyRedirects))"
| "safePost_loop env (Suc n) hop url =
     (case assertSafeUrl (env hop) url of
        Inl err \<Rightarrow> ([], Inl err)
      | Inr _ \<Rightarrow>
          (case e_post (env hop) url of
             Inl err \<Rightarrow> ([(hop, url)], Inl (OtherError err))
           | Inr resp \<Rightarrow>
               if 300 \<le> h_status resp \<and> h_status resp < 400 then
                 (if h_location resp = [] then
                    ([(hop, url)], Inl (SsrfBlockedError MissingLocation))
                  else (case e_relative (env hop) (h_location resp) url of
                          None \<Rightarrow> ([(hop, url)], Inl (OtherError ''Invalid URL''))
                        | Some next \<Rightarrow>
                            (case safePost_loop env n (Suc hop) next of
                               (log, res) \<Rightarrow> ((hop, url) # log, res))))
               else ([(hop, url)], Inr resp)))"

definition safePost :: "(nat \<Rightarrow> web_env) \<Rightarrow> string
    \<Rightarrow> (nat \<times> string) list \<times> (web_error + http_response)" where
  "safePost env url = safePost_loop env (Suc MAX_REDIRECTS) 0 url"

section \<open>What the IPv4 ranges block\<close>

text \<open>Dotted addresses built from four octets, and the 32-bit number they stand for.\<close>

definition dotted :: "nat \<Rightarrow> nat \<Rightarrow> nat \<Rightarrow> nat \<Rightarrow> string" where
  "dotted a b c d = join_with ''.'' [dec_nat a, dec_nat b, dec_nat c, dec_nat d]"

definition quad :: "nat \<Rightarrow> nat \<Rightarrow> nat \<Rightarrow> nat \<Rightarrow> int" where
  "quad a b c d = int a * 2 ^ 24 + int b * 2 ^ 16 + int c * 2 ^ 8 + int d"

lemma dec_nat_no_char: "\<not> is_digit x \<Longrightarrow> x \<notin> set (dec_nat n)"
  using dec_nat_digits by blast

lemma split_dotted: "split_on CHR ''.'' (dotted a b c d) = [dec_nat a, dec_nat b, dec_nat c, dec_nat d]"
  unfolding dotted_def
  by (rule split_join) (auto intro!: dec_nat_no_char simp: is_digit_def)

lemma octet_step: "js_or (js_shl acc 8) (int n) = sint (push_bit 8 (to_i32 acc) OR to_i32 (int n))"
  by (simp add: js_or_def js_shl_def)

lemma octet_step_uint:
  assumes "uint w < 2 ^ 24" "n < 256"
  shows "uint (push_bit 8 (w :: 32 word) OR to_i32 (int n)) = uint w * 256 + int n"
  using uint_shl_or_octet [of "uint w" "int n"] assms by simp

lemma ipv4ToInt_dotted:
  assumes "a < 256" "b < 256" "c < 256" "d < 256"
  shows "ipv4ToInt (dotted a b c d) = quad a b c d"
proof -
  define w1 where "w1 = push_bit 8 (to_i32 0) OR to_i32 (int a)"
  define w2 where "w2 = push_bit 8 w1 OR to_i32 (int b)"
  define w3 where "w3 = push_bit 8 w2 OR to_i32 (int c)"
  define w4 where "w4 = push_bit 8 w3 OR to_i32 (int d)"
  have 1: "uint w1 = int a"
    using uint_shl_or_octet [of 0 "int a"] assms by (simp add: w1_def)
  have 2: "uint w2 = int a * 256 + int b"
    using octet_step_uint [of w1 b] 1 assms by (simp add: w2_def)
  have 3: "uint w3 = (int a * 256 + int b) * 256 + int c"
    using octet_step_uint [of w2 c] 2 assms by (simp add: w3_def)
  have 4: "uint w4 = ((int a * 256 + int b) * 256 + int c) * 256 + int d"
    using octet_step_uint [of w3 d] 3 assms by (simp add: w4_def)
  have "ipv4ToInt (dotted a b c d) = js_ushr0 (sint w4)"
    by (simp add: ipv4ToInt_def split_dotted octet_step w4_def w3_def w2_def w1_def)
  also have "\<dots> = quad a b c d"
    by (simp add: js_ushr0_def 4 quad_def)
  finally show ?thesis .
qed

definition cidr :: "nat \<Rightarrow> nat \<Rightarrow> nat \<Rightarrow> nat \<Rightarrow> nat \<Rightarrow> string" where
  "cidr a b c d k = dotted a b c d @ ''/'' @ dec_nat k"

lemma split_cidr: "split_on CHR ''/'' (cidr a b c d k) = [dotted a b c d, dec_nat k]"
proof -
  have "CHR ''/'' \<notin> set (dotted a b c d)"
    using dec_nat_no_char [of "CHR ''/''"] by (simp add: dotted_def is_digit_def)
  moreover have "CHR ''/'' \<notin> set (dec_nat k)"
    by (rule dec_nat_no_char) (simp add: is_digit_def)
  ultimately show ?thesis
    by (simp add: cidr_def split_on_append split_on_none)
qed

lemma js_shl_minus_one: "m < 32 \<Longrightarrow> to_i32 (js_ushr0 (js_shl (- 1) (int m))) = push_bit m (- 1)"
  by (simp add: js_shl_def js_ushr0_def to_i32_def)

lemma sint_inj32: "sint x = sint y \<longleftrightarrow> x = (y :: 32 word)"
  by (metis word_eq_iff_signed)

lemma makeRange_cidr:
  assumes "0 < k" "k \<le> 32"
  shows "js_and n (r_mask (makeRange (cidr a b c d k))) = r_base (makeRange (cidr a b c d k)) \<longleftrightarrow>
    js_ushr0 n div 2 ^ (32 - k) = js_ushr0 (ipv4ToInt (dotted a b c d)) div 2 ^ (32 - k)"
proof -
  let ?m = "32 - k"
  define msk where "msk = js_ushr0 (js_shl (- 1) (int ?m))"
  have rng: "makeRange (cidr a b c d k) =
      \<lparr>r_base = js_and (ipv4ToInt (dotted a b c d)) msk, r_mask = msk\<rparr>"
    using assms by (simp add: makeRange_def split_cidr msk_def of_nat_diff Let_def)
  have msk: "to_i32 msk = push_bit ?m (- 1)"
    unfolding msk_def by (rule js_shl_minus_one) (use assms in simp)
  show ?thesis
    using high_mask_match [of "to_i32 n" ?m "to_i32 (ipv4ToInt (dotted a b c d))"]
    by (simp add: rng js_and_def msk js_ushr0_def sint_inj32 del: of_nat_diff)
qed

lemma quad_range: "a < 256 \<Longrightarrow> b < 256 \<Longrightarrow> c < 256 \<Longrightarrow> d < 256 \<Longrightarrow> 0 \<le> quad a b c d \<and> quad a b c d < 2 ^ 32"
  by (simp add: quad_def)

lemma js_ushr0_id: "0 \<le> n \<Longrightarrow> n < 2 ^ 32 \<Longrightarrow> js_ushr0 n = n"
  by (simp add: js_ushr0_def to_i32_def uint_word_of_int)

lemma range_hit:
  assumes "0 < k" "k \<le> 32" "a < 256" "b < 256" "c < 256" "d < 256"
    and "a' < 256" "b' < 256" "c' < 256" "d' < 256"
  shows "js_and (ipv4ToInt (dotted a b c d)) (r_mask (makeRange (cidr a' b' c' d' k))) =
      r_base (makeRange (cidr a' b' c' d' k)) \<longleftrightarrow>
    quad a b c d div 2 ^ (32 - k) = quad a' b' c' d' div 2 ^ (32 - k)"
  using assms quad_range [of a b c d] quad_range [of a' b' c' d']
  by (simp add: makeRange_cidr ipv4ToInt_dotted js_ushr0_id del: of_nat_diff)

lemma BLOCKED_cidrs: "BLOCKED_IPV4_RANGES = map makeRange
  [cidr 0 0 0 0 8, cidr 10 0 0 0 8, cidr 100 64 0 0 10, cidr 127 0 0 0 8, cidr 169 254 0 0 16,
   cidr 172 16 0 0 12, cidr 192 0 0 0 24, cidr 192 168 0 0 16, cidr 198 18 0 0 15,
   cidr 198 51 100 0 24, cidr 203 0 113 0 24, cidr 224 0 0 0 4, cidr 240 0 0 0 4,
   cidr 255 255 255 255 32]"
  unfolding BLOCKED_IPV4_RANGES_def
  by (rule arg_cong [where f = "map makeRange"]) code_simp

lemma div_by_split: "N = q * m + r \<Longrightarrow> 0 \<le> r \<Longrightarrow> r < m \<Longrightarrow> N div m = (q :: int)"
  by (simp add: div_add1_eq)

lemma quad_div:
  assumes "a < 256" "b < 256" "c < 256" "d < 256"
  shows "quad a b c d div 2 ^ 24 = int a"
    "quad a b c d div 2 ^ 16 = int a * 256 + int b"
    "quad a b c d div 2 ^ 8 = (int a * 256 + int b) * 256 + int c"
    "quad a b c d div 2 ^ 28 = int (a div 16)"
    "quad a b c d div 2 ^ 22 = int a * 4 + int (b div 64)"
    "quad a b c d div 2 ^ 20 = int a * 16 + int (b div 16)"
    "quad a b c d div 2 ^ 17 = int a * 128 + int (b div 2)"
proof -
  show "quad a b c d div 2 ^ 24 = int a"
    by (rule div_by_split [where r = "int b * 2 ^ 16 + int c * 2 ^ 8 + int d"]) (use assms in \<open>simp_all add: quad_def\<close>)
  show "quad a b c d div 2 ^ 16 = int a * 256 + int b"
    by (rule div_by_split [where r = "int c * 2 ^ 8 + int d"]) (use assms in \<open>simp_all add: quad_def\<close>)
  show "quad a b c d div 2 ^ 8 = (int a * 256 + int b) * 256 + int c"
    by (rule div_by_split [where r = "int d"]) (use assms in \<open>simp_all add: quad_def\<close>)
  have md: "int x = int (x div n) * int n + int (x mod n)" for x n :: nat
    by (metis div_mult_mod_eq of_nat_add of_nat_mult)
  have lt: "a mod 16 < 16" "b mod 64 < 64" "b mod 16 < 16" "b mod 2 < 2" by auto
  show "quad a b c d div 2 ^ 28 = int (a div 16)"
    by (rule div_by_split [where r = "int (a mod 16) * 2 ^ 24 + int b * 2 ^ 16 + int c * 2 ^ 8 + int d"])
      (use assms lt md [of a 16] in \<open>simp_all add: quad_def del: of_nat_mod of_nat_div\<close>)
  show "quad a b c d div 2 ^ 22 = int a * 4 + int (b div 64)"
    by (rule div_by_split [where r = "int (b mod 64) * 2 ^ 16 + int c * 2 ^ 8 + int d"])
      (use assms lt md [of b 64] in \<open>simp_all add: quad_def\<close>)
  show "quad a b c d div 2 ^ 20 = int a * 16 + int (b div 16)"
    by (rule div_by_split [where r = "int (b mod 16) * 2 ^ 16 + int c * 2 ^ 8 + int d"])
      (use assms lt md [of b 16] in \<open>simp_all add: quad_def\<close>)
  show "quad a b c d div 2 ^ 17 = int a * 128 + int (b div 2)"
    by (rule div_by_split [where r = "int (b mod 2) * 2 ^ 16 + int c * 2 ^ 8 + int d"])
      (use assms lt md [of b 2] in \<open>simp_all add: quad_def\<close>)
qed
lemma quad_consts:
  "quad 0 0 0 0 = 0" "quad 10 0 0 0 = 167772160" "quad 100 64 0 0 = 1681915904"
  "quad 127 0 0 0 = 2130706432" "quad 169 254 0 0 = 2851995648" "quad 172 16 0 0 = 2886729728"
  "quad 192 0 0 0 = 3221225472" "quad 192 168 0 0 = 3232235520" "quad 198 18 0 0 = 3323068416"
  "quad 198 51 100 0 = 3325256704" "quad 203 0 113 0 = 3405803776" "quad 224 0 0 0 = 3758096384"
  "quad 240 0 0 0 = 4026531840" "quad 255 255 255 255 = 4294967295"
  by (simp_all add: quad_def)

lemma radix_eq: "r < m \<Longrightarrow> r' < m \<Longrightarrow> a * m + r = a' * m + r' \<longleftrightarrow> a = a' \<and> r = (r' :: nat)"
  by (metis add.commute div_mult_self3 div_less add_left_imp_eq add.right_neutral less_nat_zero_code mod_less mod_mult_self3)

lemma div_eq_iff_bounds: "0 < n \<Longrightarrow> b div n = r \<longleftrightarrow> r * n \<le> b \<and> b < r * n + (n::nat)"
  by (metis div_nat_eqI dividend_less_times_div mult.commute mult_Suc_right times_div_less_eq_dividend add.commute mult_Suc)

abbreviation in_range :: "string \<Rightarrow> string \<Rightarrow> bool" where
  "in_range ip cd \<equiv> js_and (ipv4ToInt ip) (r_mask (makeRange cd)) = r_base (makeRange cd)"

lemma in_range_quad:
  assumes "a < 256" "b < 256" "c < 256" "d < 256"
    and "a' < 256" "b' < 256" "c' < 256" "d' < 256"
    and "0 < k" "k \<le> 32"
    and "quad a b c d div 2 ^ (32 - k) = int p" "quad a' b' c' d' div 2 ^ (32 - k) = int q"
  shows "in_range (dotted a b c d) (cidr a' b' c' d' k) \<longleftrightarrow> p = q"
  using range_hit [OF assms(9,10,1-8)] assms(11,12) by simp

lemma in_range_octets:
  assumes o: "a < 256" "b < 256" "c < 256" "d < 256"
  shows "in_range (dotted a b c d) (cidr 0 0 0 0 8) \<longleftrightarrow> a = 0"
    "in_range (dotted a b c d) (cidr 10 0 0 0 8) \<longleftrightarrow> a = 10"
    "in_range (dotted a b c d) (cidr 127 0 0 0 8) \<longleftrightarrow> a = 127"
    "in_range (dotted a b c d) (cidr 100 64 0 0 10) \<longleftrightarrow> a = 100 \<and> 64 \<le> b \<and> b < 128"
    "in_range (dotted a b c d) (cidr 169 254 0 0 16) \<longleftrightarrow> a = 169 \<and> b = 254"
    "in_range (dotted a b c d) (cidr 172 16 0 0 12) \<longleftrightarrow> a = 172 \<and> 16 \<le> b \<and> b < 32"
    "in_range (dotted a b c d) (cidr 192 0 0 0 24) \<longleftrightarrow> a = 192 \<and> b = 0 \<and> c = 0"
    "in_range (dotted a b c d) (cidr 192 168 0 0 16) \<longleftrightarrow> a = 192 \<and> b = 168"
    "in_range (dotted a b c d) (cidr 198 18 0 0 15) \<longleftrightarrow> a = 198 \<and> (b = 18 \<or> b = 19)"
    "in_range (dotted a b c d) (cidr 198 51 100 0 24) \<longleftrightarrow> a = 198 \<and> b = 51 \<and> c = 100"
    "in_range (dotted a b c d) (cidr 203 0 113 0 24) \<longleftrightarrow> a = 203 \<and> b = 0 \<and> c = 113"
    "in_range (dotted a b c d) (cidr 224 0 0 0 4) \<longleftrightarrow> 224 \<le> a \<and> a < 240"
    "in_range (dotted a b c d) (cidr 240 0 0 0 4) \<longleftrightarrow> 240 \<le> a"
    "in_range (dotted a b c d) (cidr 255 255 255 255 32) \<longleftrightarrow> quad a b c d = 2 ^ 32 - 1"
proof -
  have e0: "a * 4 + b div 64 = 401 \<longleftrightarrow> a = 100 \<and> 64 \<le> b \<and> b < 128"
    using radix_eq [of "b div 64" 4 1 a 100] o by (auto simp: div_eq_iff_bounds)
  have e1: "a * 256 + b = 43518 \<longleftrightarrow> a = 169 \<and> b = 254"
    using radix_eq [of b 256 254 a 169] o by simp
  have e2: "a * 16 + b div 16 = 2753 \<longleftrightarrow> a = 172 \<and> 16 \<le> b \<and> b < 32"
    using radix_eq [of "b div 16" 16 1 a 172] o by (auto simp: div_eq_iff_bounds)
  have e3: "(a * 256 + b) * 256 + c = 12582912 \<longleftrightarrow> a = 192 \<and> b = 0 \<and> c = 0"
    using radix_eq [of c 256 0 "a * 256 + b" "192 * 256"] radix_eq [of b 256 0 a 192] o by simp
  have e4: "a * 256 + b = 49320 \<longleftrightarrow> a = 192 \<and> b = 168"
    using radix_eq [of b 256 168 a 192] o by simp
  have e5: "a * 128 + b div 2 = 25353 \<longleftrightarrow> a = 198 \<and> (b = 18 \<or> b = 19)"
    using radix_eq [of "b div 2" 128 9 a 198] o by (auto simp: div_eq_iff_bounds)
  have e6: "(a * 256 + b) * 256 + c = 12989284 \<longleftrightarrow> a = 198 \<and> b = 51 \<and> c = 100"
    using radix_eq [of c 256 100 "a * 256 + b" "198 * 256 + 51"] radix_eq [of b 256 51 a 198] o by simp
  have e7: "(a * 256 + b) * 256 + c = 13303921 \<longleftrightarrow> a = 203 \<and> b = 0 \<and> c = 113"
    using radix_eq [of c 256 113 "a * 256 + b" "203 * 256"] radix_eq [of b 256 0 a 203] o by simp
  have e8: "a div 16 = 14 \<longleftrightarrow> 224 \<le> a \<and> a < 240"
    by (auto simp: div_eq_iff_bounds)
  have e9: "a div 16 = 15 \<longleftrightarrow> 240 \<le> a"
    using o by (auto simp: div_eq_iff_bounds)
  note iq = in_range_quad [OF o]
  show "in_range (dotted a b c d) (cidr 0 0 0 0 8) \<longleftrightarrow> a = 0"
    by (rule iq) (simp_all add: o quad_consts quad_div(1) [OF o, simplified])
  show "in_range (dotted a b c d) (cidr 10 0 0 0 8) \<longleftrightarrow> a = 10"
    by (rule iq) (simp_all add: o quad_consts quad_div(1) [OF o, simplified])
  show "in_range (dotted a b c d) (cidr 127 0 0 0 8) \<longleftrightarrow> a = 127"
    by (rule iq) (simp_all add: o quad_consts quad_div(1) [OF o, simplified])
  show "in_range (dotted a b c d) (cidr 100 64 0 0 10) \<longleftrightarrow> a = 100 \<and> 64 \<le> b \<and> b < 128"
    unfolding e0 [symmetric]
    by (rule iq) (simp_all add: o quad_consts quad_div(5) [OF o, simplified])
  show "in_range (dotted a b c d) (cidr 169 254 0 0 16) \<longleftrightarrow> a = 169 \<and> b = 254"
    unfolding e1 [symmetric]
    by (rule iq) (simp_all add: o quad_consts quad_div(2) [OF o, simplified])
  show "in_range (dotted a b c d) (cidr 172 16 0 0 12) \<longleftrightarrow> a = 172 \<and> 16 \<le> b \<and> b < 32"
    unfolding e2 [symmetric]
    by (rule iq) (simp_all add: o quad_consts quad_div(6) [OF o, simplified])
  show "in_range (dotted a b c d) (cidr 192 0 0 0 24) \<longleftrightarrow> a = 192 \<and> b = 0 \<and> c = 0"
    unfolding e3 [symmetric]
    by (rule iq) (simp_all add: o quad_consts quad_div(3) [OF o, simplified])
  show "in_range (dotted a b c d) (cidr 192 168 0 0 16) \<longleftrightarrow> a = 192 \<and> b = 168"
    unfolding e4 [symmetric]
    by (rule iq) (simp_all add: o quad_consts quad_div(2) [OF o, simplified])
  show "in_range (dotted a b c d) (cidr 198 18 0 0 15) \<longleftrightarrow> a = 198 \<and> (b = 18 \<or> b = 19)"
    unfolding e5 [symmetric]
    by (rule iq) (simp_all add: o quad_consts quad_div(7) [OF o, simplified])
  show "in_range (dotted a b c d) (cidr 198 51 100 0 24) \<longleftrightarrow> a = 198 \<and> b = 51 \<and> c = 100"
    unfolding e6 [symmetric]
    by (rule iq) (simp_all add: o quad_consts quad_div(3) [OF o, simplified])
  show "in_range (dotted a b c d) (cidr 203 0 113 0 24) \<longleftrightarrow> a = 203 \<and> b = 0 \<and> c = 113"
    unfolding e7 [symmetric]
    by (rule iq) (simp_all add: o quad_consts quad_div(3) [OF o, simplified])
  show "in_range (dotted a b c d) (cidr 224 0 0 0 4) \<longleftrightarrow> 224 \<le> a \<and> a < 240"
    unfolding e8 [symmetric]
    by (rule iq) (simp_all add: o quad_consts quad_div(4) [OF o, simplified])
  show "in_range (dotted a b c d) (cidr 240 0 0 0 4) \<longleftrightarrow> 240 \<le> a"
    unfolding e9 [symmetric]
    by (rule iq) (simp_all add: o quad_consts quad_div(4) [OF o, simplified])
  show "in_range (dotted a b c d) (cidr 255 255 255 255 32) \<longleftrightarrow> quad a b c d = 2 ^ 32 - 1"
    using range_hit [of 32 a b c d 255 255 255 255] o by (simp add: quad_consts)
qed

lemma quad_all_ones: "a < 256 \<Longrightarrow> b < 256 \<Longrightarrow> c < 256 \<Longrightarrow> d < 256 \<Longrightarrow> quad a b c d = 2 ^ 32 - 1 \<Longrightarrow> 240 \<le> a"
  by (simp add: quad_def)

lemma octets_blocked:
  assumes "a < 256" "b < 256" "c < 256" "d < 256"
  shows "isBlockedIpv4 (dotted a b c d) \<longleftrightarrow>
    a = 0 \<or> a = 10 \<or> (a = 100 \<and> 64 \<le> b \<and> b < 128) \<or> a = 127 \<or> (a = 169 \<and> b = 254) \<or>
    (a = 172 \<and> 16 \<le> b \<and> b < 32) \<or> (a = 192 \<and> b = 0 \<and> c = 0) \<or> (a = 192 \<and> b = 168) \<or>
    (a = 198 \<and> (b = 18 \<or> b = 19)) \<or> (a = 198 \<and> b = 51 \<and> c = 100) \<or>
    (a = 203 \<and> b = 0 \<and> c = 113) \<or> 224 \<le> a"
proof -
  have last: "((224 \<le> a \<and> a < 240) \<or> 240 \<le> a \<or> quad a b c d = 4294967295) = (224 \<le> a)"
    using quad_all_ones [OF assms] by (cases "quad a b c d = 4294967295") auto
  show ?thesis
    by (simp add: isBlockedIpv4_def Let_def BLOCKED_cidrs in_range_octets [OF assms] last)
qed

text \<open>A dotted IPv4 address is blocked exactly when its octets lie in one of the reserved
  networks that the range table lists: the bit masks and shifts of the source compute the
  intended intervals, for every address.\<close>

theorem isBlockedIpv4_octets:
  assumes "a < 256" "b < 256" "c < 256" "d < 256"
  shows "isBlockedIpv4 (dotted a b c d) \<longleftrightarrow>
    a = 0 \<or> a = 10 \<or> (a = 100 \<and> 64 \<le> b \<and> b < 128) \<or> a = 127 \<or> (a = 169 \<and> b = 254) \<or>
    (a = 172 \<and> 16 \<le> b \<and> b < 32) \<or> (a = 192 \<and> b = 0 \<and> c = 0) \<or> (a = 192 \<and> b = 168) \<or>
    (a = 198 \<and> (b = 18 \<or> b = 19)) \<or> (a = 198 \<and> b = 51 \<and> c = 100) \<or>
    (a = 203 \<and> b = 0 \<and> c = 113) \<or> 224 \<le> a"
  using assms by (rule octets_blocked)

text \<open>A concrete address for each reserved network, and its neighbour outside it.\<close>

theorem isBlockedIpv4_octets_witness:
  "isBlockedIpv4 (dotted 172 31 255 255) \<and> \<not> isBlockedIpv4 (dotted 172 32 0 0) \<and>
   isBlockedIpv4 (dotted 169 254 169 254) \<and> \<not> isBlockedIpv4 (dotted 8 8 8 8)"
  using isBlockedIpv4_octets [of 172 31 255 255] isBlockedIpv4_octets [of 172 32 0 0]
    isBlockedIpv4_octets [of 169 254 169 254] isBlockedIpv4_octets [of 8 8 8 8]
  by simp

section \<open>What an accepted URL promises\<close>

definition host_ok :: "web_env \<Rightarrow> string \<Rightarrow> bool" where
  "host_ok e h = (if isIPv4 h \<or> isIPv6 h then \<not> isBlockedIp h
     else h \<noteq> ''localhost'' \<and> \<not> ends_with ''.local'' h \<and> \<not> ends_with ''.internal'' h \<and>
       resolved_ips e h \<noteq> [] \<and> list_all (\<lambda>ip. \<not> isBlockedIp ip) (resolved_ips e h))"

lemma find_none_list_all: "List.find P xs = None \<longleftrightarrow> list_all (\<lambda>x. \<not> P x) xs"
  by (auto simp: find_None_iff list_all_iff)

lemma host_check_iff: "assertHostnameResolvesToPublicIp e h = Inr () \<longleftrightarrow> host_ok e h"
proof (cases "List.find isBlockedIp (resolved_ips e h)")
  case None
  moreover from None have "list_all (\<lambda>ip. \<not> isBlockedIp ip) (resolved_ips e h)"
    by (simp add: find_none_list_all)
  ultimately show ?thesis
    by (simp add: assertHostnameResolvesToPublicIp_def host_ok_def)
next
  case (Some ip)
  then have "\<not> list_all (\<lambda>ip. \<not> isBlockedIp ip) (resolved_ips e h)"
    using find_none_list_all [of isBlockedIp "resolved_ips e h"] by simp
  with Some show ?thesis
    by (simp add: assertHostnameResolvesToPublicIp_def host_ok_def)
qed

text \<open>A URL passes the guard exactly when it parses, its protocol is https (or http in a
  development profile), and its host is either a literal address outside the blocked ranges, or
  a name that is not reserved, resolves to at least one address, and resolves to no blocked
  address: every other input is rejected with an error.\<close>

theorem assertSafeUrl_accepts_iff:
  "assertSafeUrl e raw = Inr () \<longleftrightarrow>
    (\<exists>u. e_parse e raw = Some u \<and>
      (u_protocol u = ''https:'' \<or> (u_protocol u = ''http:'' \<and> isHttpAllowed e)) \<and>
      host_ok e (u_hostname u))"
proof (cases "e_parse e raw")
  case None
  then show ?thesis by (simp add: assertSafeUrl_def)
next
  case (Some u)
  then show ?thesis by (auto simp: assertSafeUrl_def host_check_iff)
qed

section \<open>Redirect chains\<close>

text \<open>One hop either ends the loop with at most one request, or goes on from the redirect target.\<close>

lemma safePost_hop:
  assumes "safePost_loop env (Suc n) hop url = (log, res)"
  obtains (refused) err where "log = []" "res = Inl err" "assertSafeUrl (env hop) url = Inl err"
  | (failed) err where "log = [(hop, url)]" "res = Inl err" "assertSafeUrl (env hop) url = Inr ()"
  | (answered) resp where "log = [(hop, url)]" "res = Inr resp" "assertSafeUrl (env hop) url = Inr ()"
      "e_post (env hop) url = Inr resp" "\<not> (300 \<le> h_status resp \<and> h_status resp < 400)"
  | (redirected) target log' where "log = (hop, url) # log'"
      "safePost_loop env n (Suc hop) target = (log', res)" "assertSafeUrl (env hop) url = Inr ()"
proof (cases "assertSafeUrl (env hop) url")
  case (Inl err)
  with assms show ?thesis by (auto intro: refused)
next
  case (Inr x)
  then have ok: "assertSafeUrl (env hop) url = Inr ()" by simp
  show ?thesis
  proof (cases "e_post (env hop) url")
    case (Inl err)
    with assms ok show ?thesis by (auto intro: failed)
  next
    case (Inr resp)
    show ?thesis
    proof (cases "300 \<le> h_status resp \<and> h_status resp < 400")
      case True
      with assms ok Inr show ?thesis
        by (auto split: if_splits option.splits prod.splits intro: failed redirected)
    next
      case False
      with assms ok Inr show ?thesis by (auto intro: answered)
    qed
  qed
qed

lemma safePost_loop_log:
  "safePost_loop env n hop url = (log, res) \<Longrightarrow>
    length log \<le> n \<and> map fst log = [hop..<hop + length log] \<and>
    list_all (\<lambda>(i, u). assertSafeUrl (env i) u = Inr ()) log"
proof (induction n arbitrary: hop url log)
  case (Suc n)
  from Suc.prems show ?case
  proof (cases rule: safePost_hop)
    case (redirected target log')
    with Suc.IH [OF redirected(2)] show ?thesis by (simp add: upt_conv_Cons del: upt_Suc)
  qed (simp_all add: upt_conv_Cons)
qed simp

lemma safePost_loop_result:
  "safePost_loop env n hop url = (log, Inr resp) \<Longrightarrow>
    \<exists>i u. (i, u) \<in> set log \<and> e_post (env i) u = Inr resp \<and>
      \<not> (300 \<le> h_status resp \<and> h_status resp < 400)"
proof (induction n arbitrary: hop url log)
  case (Suc n)
  from Suc.prems show ?case
  proof (cases rule: safePost_hop)
    case (redirected target log')
    with Suc.IH [OF redirected(2)] show ?thesis by auto
  qed auto
qed simp

text \<open>C1: Every request that \<open>safePost\<close> sends goes to a URL that the guard accepted at the moment
  of that hop, whatever the redirects and however the DNS answers change; the hops are numbered
  consecutively and there are at most six of them.\<close>

theorem safePost_only_safe_urls:
  assumes "safePost env url = (log, res)"
  shows "length log \<le> Suc MAX_REDIRECTS \<and> map fst log = [0..<length log] \<and>
    list_all (\<lambda>(i, u). assertSafeUrl (env i) u = Inr ()) log"
  using safePost_loop_log [of env "Suc MAX_REDIRECTS" 0 url log res] assms
  by (simp add: safePost_def)

definition demo_env :: web_env where
  "demo_env = \<lparr>e_profile = ''production'',
     e_parse = (\<lambda>s. Some \<lparr>u_protocol = ''https:'', u_hostname = s\<rparr>),
     e_relative = (\<lambda>loc base. Some loc),
     e_resolve4 = (\<lambda>h. if h = ''a.example'' then Some [''93.184.216.34''] else Some [''10.0.0.7'']),
     e_resolve6 = (\<lambda>h. None),
     e_post = (\<lambda>u. Inr \<lparr>h_status = 302, h_location = ''b.example'', h_data = []\<rparr>)\<rparr>"

text \<open>The first host is public, the host it redirects to is private: one request, then an error.\<close>

lemma demo_ips:
  "isBlockedIp ''10.0.0.7''" "\<not> isBlockedIp ''93.184.216.34''"
proof -
  have "''10.0.0.7'' = dotted 10 0 0 7" "''93.184.216.34'' = dotted 93 184 216 34" by code_simp+
  moreover have "isIPv4 ''10.0.0.7''" "isIPv4 ''93.184.216.34''" by code_simp+
  ultimately show "isBlockedIp ''10.0.0.7''" "\<not> isBlockedIp ''93.184.216.34''"
    unfolding isBlockedIp_def by (simp_all add: octets_blocked)
qed

lemma demo_hosts: "\<not> isIPv4 ''a.example''" "\<not> isIPv6 ''a.example''" "\<not> isIPv4 ''b.example''"
  "\<not> isIPv6 ''b.example''" "\<not> ends_with ''.local'' ''a.example''" "\<not> ends_with ''.internal'' ''a.example''"
  "\<not> ends_with ''.local'' ''b.example''" "\<not> ends_with ''.internal'' ''b.example''"
  by code_simp+

lemma demo_safePost: "safePost (\<lambda>_. demo_env) ''a.example'' =
  ([(0, ''a.example'')], Inl (SsrfBlockedError (ResolvesToBlocked ''b.example'' ''10.0.0.7'')))"
  by (simp add: safePost_def MAX_REDIRECTS_def eval_nat_numeral demo_env_def assertSafeUrl_def resolved_ips_def
      assertHostnameResolvesToPublicIp_def demo_ips demo_hosts)

theorem safePost_only_safe_urls_witness:
  "safePost (\<lambda>_. demo_env) ''a.example'' =
    ([(0, ''a.example'')], Inl (SsrfBlockedError (ResolvesToBlocked ''b.example'' ''10.0.0.7''))) \<and>
   assertSafeUrl demo_env ''a.example'' = Inr ()"
  using demo_safePost safePost_only_safe_urls [OF demo_safePost] by simp

section \<open>Forms of a blocked address that the guard lets through\<close>

text \<open>An IPv6 address that carries a zone identifier is never blocked: the first replacement of
  \<open>isBlockedIpv6\<close> erases the whole string instead of the zone, although the source announces
  that it strips zone identifiers.\<close>

theorem zone_id_never_blocked:
  assumes "CHR ''%'' \<in> set ip"
  shows "\<not> isBlockedIpv6 ip"
proof -
  have "normalise6 ip = []"
    using assms by (simp add: normalise6_def strip_brackets_def to_lower_def)
  then show ?thesis
    by (simp add: isBlockedIpv6_def Let_def starts_with_def link_local_prefix_def unique_local_prefix_def)
qed

theorem zone_id_never_blocked_witness:
  "isIPv6 ''fe80::1%eth0'' \<and> isBlockedIpv6 ''fe80::1'' \<and> \<not> isBlockedIpv6 ''fe80::1%eth0''"
proof -
  have "isIPv6 ''fe80::1%eth0''" "normalise6 ''fe80::1'' = ''fe80::1''" "link_local_prefix ''fe80::1''"
    "\<not> starts_with ''::ffff:'' ''fe80::1''"
    by code_simp+
  then show ?thesis
    using zone_id_never_blocked [of "''fe80::1%eth0''"]
    by (simp add: isBlockedIpv6_def [of "''fe80::1''"] Let_def)
qed

text \<open>The loopback address written as an IPv4-mapped IPv6 address is blocked in dotted form
  and let through in hexadecimal form, which is the form that URL parsers produce.\<close>

theorem hex_mapped_loopback_not_blocked:
  "isBlockedIp ''::ffff:127.0.0.1'' \<and> isIPv6 ''::ffff:7f00:1'' \<and> \<not> isBlockedIp ''::ffff:7f00:1''"
proof -
  have "\<not> isIPv4 ''::ffff:127.0.0.1''" "isIPv6 ''::ffff:127.0.0.1''"
    "normalise6 ''::ffff:127.0.0.1'' = ''::ffff:127.0.0.1''" "''127.0.0.1'' = dotted 127 0 0 1"
    "dotted_digits ''127.0.0.1''" "starts_with ''::ffff:'' ''::ffff:127.0.0.1''"
    by code_simp+
  then have "isBlockedIp ''::ffff:127.0.0.1''"
    by (simp add: isBlockedIp_def isBlockedIpv6_def Let_def octets_blocked)
  moreover have "isIPv6 ''::ffff:7f00:1''" "\<not> isIPv4 ''::ffff:7f00:1''" by code_simp+
  moreover have "normalise6 ''::ffff:7f00:1'' = ''::ffff:7f00:1''" "\<not> dotted_digits ''7f00:1''"
    "\<not> link_local_prefix ''::ffff:7f00:1''" "\<not> unique_local_prefix ''::ffff:7f00:1''"
    "\<not> starts_with ''ff'' ''::ffff:7f00:1''"
    by code_simp+
  ultimately show ?thesis
    by (simp add: isBlockedIp_def isBlockedIpv6_def Let_def)
qed

end
