(* ===== verification/Webhook_Delivery.thy ===== *)
theory Webhook_Delivery
  imports Ssrf_Guard
begin

text \<open>
  \<open>src/webhooks/dispatcher.ts\<close>: durable webhook deliveries. A delivery is a database row that
  moves between \<open>pending\<close> and a final status; a worker claims due rows with a lease, sends one
  request per claim through the SSRF guard, and either finishes the row or schedules the next
  attempt with exponential backoff. Times are milliseconds. The operations follow the source
  function by function; the step relation at the end lets several workers interleave their
  database writes and crash.
\<close>

section \<open>Constants and backoff\<close>

definition MAX_ATTEMPTS :: nat where
  "MAX_ATTEMPTS = 5"

definition LEASE_DURATION_MS :: int where
  "LEASE_DURATION_MS = 60000"

definition backoffMs :: "nat \<Rightarrow> int" where
  "backoffMs attempt = min (10000 * 3 ^ (attempt - 1)) 900000"

section \<open>Rows\<close>

datatype dstatus = Pending | Success | Failed | Cancelled

datatype pstatus = Idle | Processing | Done

record delivery =
  d_id :: nat
  d_sub :: nat
  d_event :: string
  d_attempt :: "nat option"
  d_status :: dstatus
  d_proc :: pstatus
  d_lease :: "int option"
  d_http :: "int option"
  d_body :: "string option"
  d_err :: "string option"
  d_delivered :: "int option"
  d_next :: "int option"
  d_expires :: "int option"

record subscription =
  s_id :: nat
  s_url :: string
  s_secret :: string
  s_contract :: "string option"
  s_eventType :: "string option"
  s_topic :: "string option"
  s_active :: bool
  s_store :: bool
  s_retention :: int

record payload =
  p_id :: string
  p_contract :: string
  p_eventType :: string
  p_topic :: "string option"
  p_decoded :: string
  p_ledger :: int
  p_closeTime :: int
  p_tx :: string

record wh_db =
  deliveries :: "delivery list"
  subs :: "subscription list"
  events :: "payload list"
  next_id :: nat

definition delivery_row :: "nat \<Rightarrow> wh_db \<Rightarrow> delivery option" where
  "delivery_row i db = tbl_find d_id i (deliveries db)"

definition update_delivery :: "nat \<Rightarrow> (delivery \<Rightarrow> delivery) \<Rightarrow> wh_db \<Rightarrow> wh_db" where
  "update_delivery i f db = db\<lparr>deliveries := tbl_update d_id i f (deliveries db)\<rparr>"

section \<open>Selecting the subscriptions of an event\<close>

text \<open>A nullable text column that is absent or empty does not filter.\<close>

definition unset :: "string option \<Rightarrow> bool" where
  "unset x = (x = None \<or> x = Some [])"

definition sub_matches :: "payload \<Rightarrow> subscription \<Rightarrow> bool" where
  "sub_matches ev s =
     (s_active s \<and>
      (p_contract ev = [] \<or> s_contract s = None \<or> s_contract s = Some (p_contract ev)) \<and>
      \<not> (\<not> unset (s_eventType s) \<and> s_eventType s \<noteq> Some (p_eventType ev)) \<and>
      \<not> (\<not> unset (s_topic s) \<and> s_topic s \<noteq> p_topic ev))"

definition matching_subs :: "payload \<Rightarrow> wh_db \<Rightarrow> subscription list" where
  "matching_subs ev db = filter (sub_matches ev) (subs db)"

section \<open>Claiming due rows\<close>

definition lease_free :: "int \<Rightarrow> delivery \<Rightarrow> bool" where
  "lease_free now r = (d_proc r = Idle \<or>
     (d_proc r = Processing \<and> (case d_lease r of None \<Rightarrow> False | Some t \<Rightarrow> t \<le> now)))"

definition claimable :: "int \<Rightarrow> delivery \<Rightarrow> bool" where
  "claimable now r = (d_status r = Pending \<and>
     (case d_next r of None \<Rightarrow> False | Some t \<Rightarrow> t \<le> now) \<and> lease_free now r)"

text \<open>The transaction of \<open>retryPendingDeliveries\<close>: select the due rows, mark them, and read back
  the rows that carry exactly the lease just written, each with its subscription.\<close>

definition with_sub :: "wh_db \<Rightarrow> delivery \<Rightarrow> (delivery \<times> subscription) list" where
  "with_sub db d = (case tbl_find s_id (d_sub d) (subs db) of None \<Rightarrow> [] | Some s \<Rightarrow> [(d, s)])"

definition mark_claimed :: "int \<Rightarrow> nat list \<Rightarrow> delivery \<Rightarrow> delivery" where
  "mark_claimed now ids r =
     (if d_id r \<in> set ids \<and> lease_free now r
      then r\<lparr>d_proc := Processing, d_lease := Some (now + LEASE_DURATION_MS)\<rparr> else r)"

definition read_back :: "int \<Rightarrow> nat list \<Rightarrow> delivery \<Rightarrow> bool" where
  "read_back now ids r = (d_id r \<in> set ids \<and> d_proc r = Processing \<and>
     d_lease r = Some (now + LEASE_DURATION_MS))"

definition claim_select :: "int \<Rightarrow> wh_db \<Rightarrow> nat list" where
  "claim_select now db = map d_id (filter (claimable now) (deliveries db))"

definition claim_mark :: "int \<Rightarrow> nat list \<Rightarrow> wh_db \<Rightarrow> wh_db" where
  "claim_mark now ids db = db\<lparr>deliveries := map (mark_claimed now ids) (deliveries db)\<rparr>"

definition claim_read :: "int \<Rightarrow> nat list \<Rightarrow> wh_db \<Rightarrow> (delivery \<times> subscription) list" where
  "claim_read now ids db = concat (map (with_sub db) (filter (read_back now ids) (deliveries db)))"

definition claim :: "int \<Rightarrow> wh_db \<Rightarrow> wh_db \<times> (delivery \<times> subscription) list" where
  "claim now db =
     (let ids = claim_select now db in
      if ids = [] then (db, [])
      else (let db' = claim_mark now ids db in (db', claim_read now ids db')))"

section \<open>Finishing an attempt\<close>

definition cancel_row :: "delivery \<Rightarrow> delivery" where
  "cancel_row r = r\<lparr>d_status := Cancelled, d_proc := Done, d_lease := None\<rparr>"

definition fail_row :: "string \<Rightarrow> delivery \<Rightarrow> delivery" where
  "fail_row msg r = r\<lparr>d_status := Failed, d_proc := Done, d_lease := None, d_err := Some msg,
     d_next := None\<rparr>"

definition succeed_row :: "int \<Rightarrow> int \<Rightarrow> string option \<Rightarrow> delivery \<Rightarrow> delivery" where
  "succeed_row now status body r = r\<lparr>d_status := Success, d_proc := Done, d_lease := None,
     d_http := Some status, d_body := body, d_delivered := Some now\<rparr>"

text \<open>A column whose new value is \<open>undefined\<close> keeps its old value.\<close>

definition keep :: "'a option \<Rightarrow> 'a option \<Rightarrow> 'a option" where
  "keep new old = (case new of None \<Rightarrow> old | Some v \<Rightarrow> Some v)"

definition scheduleRetryOrFail ::
    "int \<Rightarrow> nat \<Rightarrow> string \<Rightarrow> int option \<Rightarrow> string option \<Rightarrow> delivery \<Rightarrow> delivery" where
  "scheduleRetryOrFail now attempt msg http body r =
     (let nextAttempt = attempt + 1 in
      if nextAttempt > MAX_ATTEMPTS then
        r\<lparr>d_status := Failed, d_proc := Done, d_lease := None, d_err := Some msg,
          d_http := keep http (d_http r), d_body := body, d_next := None\<rparr>
      else
        r\<lparr>d_status := Pending, d_proc := Idle, d_lease := None, d_err := Some msg,
          d_http := keep http (d_http r), d_body := body,
          d_next := Some (now + backoffMs nextAttempt), d_attempt := Some nextAttempt\<rparr>)"

text \<open>\<open>src/webhooks/redaction.ts\<close>, \<open>processResponseBody\<close>: cut, then redact; \<open>red\<close> stands for the
  sequence of regular-expression replacements. An empty body or an empty redaction is kept.\<close>

definition processResponseBody :: "(string \<Rightarrow> string) \<Rightarrow> string \<Rightarrow> nat \<Rightarrow> bool \<Rightarrow> string" where
  "processResponseBody red body maxLength redact =
     (if body = [] then body
      else let cut = take maxLength body in
        if redact then (if red cut = [] then cut else red cut) else cut)"

definition stored_body :: "(string \<Rightarrow> string) \<Rightarrow> bool \<Rightarrow> string \<Rightarrow> string option" where
  "stored_body red store raw = (if store then Some (processResponseBody red raw 500 True) else None)"

text \<open>What \<open>safePost\<close> gave back decides how the attempt ends.\<close>

definition finish_row ::
    "(string \<Rightarrow> string) \<Rightarrow> bool \<Rightarrow> int \<Rightarrow> nat \<Rightarrow> (web_error + http_response) \<Rightarrow> delivery \<Rightarrow> delivery" where
  "finish_row red store now attempt res r =
     (case res of
        Inr resp \<Rightarrow>
          if 200 \<le> h_status resp \<and> h_status resp < 300 then
            succeed_row now (h_status resp) (stored_body red store (h_data resp)) r
          else
            scheduleRetryOrFail now attempt (''HTTP '' @ dec_int (h_status resp))
              (Some (h_status resp)) (stored_body red store (h_data resp)) r
      | Inl (SsrfBlockedError reason) \<Rightarrow> fail_row (error_message (SsrfBlockedError reason)) r
      | Inl (OtherError m) \<Rightarrow> scheduleRetryOrFail now attempt m None (stored_body red store m) r)"

section \<open>One delivery attempt\<close>

text \<open>The surroundings of one call of \<open>deliverOnce\<close>: the clock when the row is written and when
  the response has arrived, the guard's environment for the preflight check and for each hop,
  and the library functions for JSON, HMAC and redaction.\<close>

record wh_env =
  x_now :: int
  x_end :: int
  x_pre :: web_env
  x_hops :: "nat \<Rightarrow> web_env"
  x_json :: "payload \<Rightarrow> nat \<Rightarrow> string"
  x_hmac :: "string \<Rightarrow> string \<Rightarrow> string"
  x_redact :: "string \<Rightarrow> string"

record wh_request =
  q_body :: string
  q_signature :: string
  q_log :: "(nat \<times> string) list"

text \<open>Loading the event of a retried row; \<open>None\<close> is the early return.\<close>

definition load_payload :: "nat \<Rightarrow> wh_db \<Rightarrow> payload option" where
  "load_payload i db = (case delivery_row i db of None \<Rightarrow> None
     | Some row \<Rightarrow> tbl_find p_id (d_event row) (events db))"

definition begin_row :: "nat \<Rightarrow> delivery \<Rightarrow> delivery" where
  "begin_row attempt r = r\<lparr>d_attempt := Some attempt, d_status := Pending, d_next := None\<rparr>"

definition new_row :: "wh_env \<Rightarrow> nat \<Rightarrow> nat \<Rightarrow> string \<Rightarrow> nat \<Rightarrow> int \<Rightarrow> delivery" where
  "new_row e i sub eventId attempt retention =
     \<lparr>d_id = i, d_sub = sub, d_event = eventId, d_attempt = Some attempt, d_status = Pending,
      d_proc = Processing, d_lease = Some (x_now e + LEASE_DURATION_MS), d_http = None,
      d_body = None, d_err = None, d_delivered = None, d_next = None,
      d_expires = Some (x_now e + retention * 24 * 60 * 60 * 1000)\<rparr>"

text \<open>Writing the row before the request: the existing row is updated, which raises when the row
  has been deleted, or a row is created.\<close>

definition begin_delivery ::
    "wh_env \<Rightarrow> nat \<Rightarrow> string \<Rightarrow> nat \<Rightarrow> nat option \<Rightarrow> int \<Rightarrow> wh_db \<Rightarrow> (wh_db \<times> nat) option" where
  "begin_delivery e sub eventId attempt deliveryId retention db =
     (case deliveryId of
        Some i \<Rightarrow> (case delivery_row i db of None \<Rightarrow> None
                   | Some _ \<Rightarrow> Some (update_delivery i (begin_row attempt) db, i))
      | None \<Rightarrow> Some (db\<lparr>deliveries := deliveries db @ [new_row e (next_id db) sub eventId attempt retention],
                   next_id := Suc (next_id db)\<rparr>, next_id db))"

definition deliverOnce ::
    "wh_env \<Rightarrow> nat \<Rightarrow> string \<Rightarrow> string \<Rightarrow> payload option \<Rightarrow> nat \<Rightarrow> nat option \<Rightarrow> bool \<Rightarrow> int
      \<Rightarrow> wh_db \<Rightarrow> wh_db \<times> wh_request option" where
  "deliverOnce e sub url secret event attempt deliveryId store retention db =
     (case (case event of Some p \<Rightarrow> Some p
            | None \<Rightarrow> (case deliveryId of None \<Rightarrow> None | Some i \<Rightarrow> load_payload i db)) of
        None \<Rightarrow> (db, None)
      | Some p \<Rightarrow>
          (case assertSafeUrl (x_pre e) url of
             Inl err \<Rightarrow>
               ((case deliveryId of None \<Rightarrow> db
                 | Some i \<Rightarrow> update_delivery i (fail_row (error_message err)) db), None)
           | Inr _ \<Rightarrow>
               (let body = x_json e p attempt;
                    sig = ''sha256='' @ x_hmac e secret body in
                case begin_delivery e sub (p_id p) attempt deliveryId retention db of
                  None \<Rightarrow> (db, None)
                | Some (db1, i) \<Rightarrow>
                  (case safePost (x_hops e) url of (log, res) \<Rightarrow>
                     (update_delivery i (finish_row (x_redact e) store (x_end e) attempt res) db1,
                      Some \<lparr>q_body = body, q_signature = sig, q_log = log\<rparr>)))))"

text \<open>What \<open>retryPendingDeliveries\<close> does with one claimed row: rows of inactive subscriptions are
  cancelled, the others get one attempt. The row and the subscription are the ones read by
  the claiming transaction.\<close>

definition process_claimed ::
    "wh_env \<Rightarrow> delivery \<times> subscription \<Rightarrow> wh_db \<Rightarrow> wh_db \<times> wh_request option" where
  "process_claimed e ds db =
     (case ds of (d, s) \<Rightarrow>
        if \<not> s_active s then (update_delivery (d_id d) cancel_row db, None)
        else deliverOnce e (d_sub d) (s_url s) (s_secret s) None
               (case d_attempt d of None \<Rightarrow> 1 | Some a \<Rightarrow> a) (Some (d_id d)) (s_store s) (s_retention s) db)"

text \<open>\<open>dispatchWebhooks\<close> and \<open>retryPendingDeliveries\<close> with their jobs run one after the other; job
  \<open>k\<close> meets the surroundings \<open>es k\<close>.\<close>

fun run_jobs :: "('j \<Rightarrow> wh_db \<Rightarrow> wh_db \<times> wh_request option) list \<Rightarrow> 'j list \<Rightarrow> wh_db
    \<Rightarrow> wh_db \<times> wh_request option list" where
  "run_jobs (f # fs) (j # js) db =
     (case f j db of (db1, q) \<Rightarrow> (case run_jobs fs js db1 of (db2, qs) \<Rightarrow> (db2, q # qs)))"
| "run_jobs _ _ db = (db, [])"

definition dispatchWebhooks :: "wh_env list \<Rightarrow> payload \<Rightarrow> wh_db \<Rightarrow> wh_db \<times> wh_request option list" where
  "dispatchWebhooks es ev db =
     run_jobs (map (\<lambda>e s. deliverOnce e (s_id s) (s_url s) (s_secret s) (Some ev) 1 None
                  (s_store s) (s_retention s)) es)
       (matching_subs ev db) db"

definition retryPendingDeliveries :: "wh_env list \<Rightarrow> int \<Rightarrow> wh_db \<Rightarrow> wh_db \<times> wh_request option list" where
  "retryPendingDeliveries es now db =
     (case claim now db of (db1, claimed) \<Rightarrow> run_jobs (map process_claimed es) claimed db1)"

text \<open>\<open>src/api/webhooks.ts\<close>, PATCH \<open>/:id\<close>: switching a subscription on or off; switching it off
  cancels its pending rows.\<close>

definition cancel_pending :: "nat \<Rightarrow> delivery \<Rightarrow> delivery" where
  "cancel_pending sid r = (if d_sub r = sid \<and> d_status r = Pending
     then r\<lparr>d_status := Cancelled, d_proc := Done, d_lease := None, d_next := None\<rparr> else r)"

definition set_active :: "nat \<Rightarrow> bool \<Rightarrow> wh_db \<Rightarrow> wh_db" where
  "set_active sid b db =
     (let db1 = db\<lparr>subs := tbl_update s_id sid (\<lambda>s. s\<lparr>s_active := b\<rparr>) (subs db)\<rparr> in
      if b then db1 else db1\<lparr>deliveries := map (cancel_pending sid) (deliveries db1)\<rparr>)"

text \<open>\<open>src/webhooks/retention.ts\<close>.\<close>

definition expired_row :: "int \<Rightarrow> delivery \<Rightarrow> bool" where
  "expired_row now r = (case d_expires r of None \<Rightarrow> False | Some t \<Rightarrow> t \<le> now)"

definition cleanupExpiredWebhookDeliveries :: "int \<Rightarrow> wh_db \<Rightarrow> wh_db" where
  "cleanupExpiredWebhookDeliveries now db =
     db\<lparr>deliveries := filter (\<lambda>r. \<not> expired_row now r) (deliveries db)\<rparr>"

definition forceCleanupSubscriptionDeliveries :: "nat \<Rightarrow> wh_db \<Rightarrow> wh_db" where
  "forceCleanupSubscriptionDeliveries sid db =
     db\<lparr>deliveries := filter (\<lambda>r. d_sub r \<noteq> sid) (deliveries db)\<rparr>"

end
