(* ===== verification/Webhook_Workers.thy ===== *)
theory Webhook_Workers
  imports Webhook_Delivery
begin

text \<open>
  The delivery queue of \<open>Webhook_Delivery\<close> under concurrency: any number of service replicas,
  each with its jobs in memory, whose database statements interleave, and which may crash
  between two statements. A job is one pending call of \<open>deliverOnce\<close> inside
  \<open>runWithConcurrency\<close>; it has two database writes, before and after its HTTP request.
\<close>

section \<open>Jobs\<close>

datatype job =
    Fresh subscription payload
  | Retry delivery subscription
  | Sending nat nat subscription

text \<open>The first half of a job: everything up to and including the write before the request.\<close>

definition begin_retry :: "wh_env \<Rightarrow> delivery \<Rightarrow> subscription \<Rightarrow> wh_db \<Rightarrow> wh_db \<times> job option" where
  "begin_retry e d s db =
     (if \<not> s_active s then (update_delivery (d_id d) cancel_row db, None)
      else case load_payload (d_id d) db of None \<Rightarrow> (db, None)
      | Some p \<Rightarrow>
          (case assertSafeUrl (x_pre e) (s_url s) of
             Inl err \<Rightarrow> (update_delivery (d_id d) (fail_row (error_message err)) db, None)
           | Inr _ \<Rightarrow>
               (let attempt = (case d_attempt d of None \<Rightarrow> 1 | Some a \<Rightarrow> a) in
                case begin_delivery e (d_sub d) (p_id p) attempt (Some (d_id d)) (s_retention s) db of
                  None \<Rightarrow> (db, None)
                | Some (db1, i) \<Rightarrow> (db1, Some (Sending i attempt s)))))"

definition begin_fresh :: "wh_env \<Rightarrow> subscription \<Rightarrow> payload \<Rightarrow> wh_db \<Rightarrow> wh_db \<times> job option" where
  "begin_fresh e s p db =
     (case assertSafeUrl (x_pre e) (s_url s) of
        Inl err \<Rightarrow> (db, None)
      | Inr _ \<Rightarrow>
          (case begin_delivery e (s_id s) (p_id p) 1 None (s_retention s) db of
             None \<Rightarrow> (db, None)
           | Some (db1, i) \<Rightarrow> (db1, Some (Sending i 1 s))))"

definition finish_job :: "wh_env \<Rightarrow> nat \<Rightarrow> nat \<Rightarrow> subscription \<Rightarrow> wh_db \<Rightarrow> wh_db" where
  "finish_job e i attempt s db =
     update_delivery i
       (finish_row (x_redact e) (s_store s) (x_end e) attempt (snd (safePost (x_hops e) (s_url s)))) db"

text \<open>Run to the end without interference, the two halves are the source's \<open>deliverOnce\<close>.\<close>

lemma begin_finish_retry:
  "fst (process_claimed e (d, s) db) =
     (case begin_retry e d s db of
        (db1, Some (Sending i a s')) \<Rightarrow> finish_job e i a s' db1
      | (db1, _) \<Rightarrow> db1)"
  by (auto simp: process_claimed_def begin_retry_def deliverOnce_def finish_job_def Let_def
      split: option.splits sum.splits prod.splits)

lemma begin_finish_fresh:
  "fst (deliverOnce e (s_id s) (s_url s) (s_secret s) (Some p) 1 None (s_store s) (s_retention s) db) =
     (case begin_fresh e s p db of
        (db1, Some (Sending i a s')) \<Rightarrow> finish_job e i a s' db1
      | (db1, _) \<Rightarrow> db1)"
  by (auto simp: begin_fresh_def deliverOnce_def finish_job_def Let_def
      split: option.splits sum.splits prod.splits)

section \<open>The step relation\<close>

record wh_state =
  w_db :: wh_db
  w_jobs :: "job list"
  w_clock :: int

fun spawn :: "job option \<Rightarrow> job list" where
  "spawn None = []"
| "spawn (Some j) = [j]"

inductive wh_step :: "wh_state \<Rightarrow> wh_state \<Rightarrow> bool" where
  tick: "w_clock st \<le> t \<Longrightarrow> wh_step st (st\<lparr>w_clock := t\<rparr>)"
| dispatch:
    "wh_step st (st\<lparr>w_jobs := w_jobs st @ map (\<lambda>s. Fresh s ev) (matching_subs ev (w_db st))\<rparr>)"
| claim_rows:
    "claim now (w_db st) = (db', ds) \<Longrightarrow>
     wh_step st (st\<lparr>w_db := db', w_jobs := w_jobs st @ map (\<lambda>(d, s). Retry d s) ds\<rparr>)"
| start_fresh:
    "w_jobs st = js @ Fresh s p # ks \<Longrightarrow> begin_fresh e s p (w_db st) = (db', j) \<Longrightarrow>
     wh_step st (st\<lparr>w_db := db', w_jobs := js @ spawn j @ ks\<rparr>)"
| start_retry:
    "w_jobs st = js @ Retry d s # ks \<Longrightarrow> begin_retry e d s (w_db st) = (db', j) \<Longrightarrow>
     wh_step st (st\<lparr>w_db := db', w_jobs := js @ spawn j @ ks\<rparr>)"
| finish:
    "w_jobs st = js @ Sending i a s # ks \<Longrightarrow>
     wh_step st (st\<lparr>w_db := finish_job e i a s (w_db st), w_jobs := js @ ks\<rparr>)"
| crash: "w_jobs st = js @ j # ks \<Longrightarrow> wh_step st (st\<lparr>w_jobs := js @ ks\<rparr>)"
| patch: "wh_step st (st\<lparr>w_db := set_active sid b (w_db st)\<rparr>)"
| cleanup: "wh_step st (st\<lparr>w_db := cleanupExpiredWebhookDeliveries now (w_db st)\<rparr>)"
| force_cleanup: "wh_step st (st\<lparr>w_db := forceCleanupSubscriptionDeliveries sid (w_db st)\<rparr>)"

inductive_cases wh_stepE: "wh_step st st'"

definition wh_init :: "wh_state \<Rightarrow> bool" where
  "wh_init st = (deliveries (w_db st) = [] \<and> w_jobs st = [])"

section \<open>The invariant of rows and jobs\<close>

definition attempt_ok :: "nat \<Rightarrow> bool" where
  "attempt_ok a = (1 \<le> a \<and> a \<le> MAX_ATTEMPTS)"

text \<open>A row carries an attempt number within the limit; a row with a final status is done and holds
  no lease; a lease exists exactly while the row is being processed.\<close>

definition row_ok :: "delivery \<Rightarrow> bool" where
  "row_ok r = ((\<exists>a. d_attempt r = Some a \<and> attempt_ok a) \<and>
     (d_status r \<noteq> Pending \<longrightarrow> d_proc r = Done) \<and>
     (d_proc r = Processing \<longleftrightarrow> d_lease r \<noteq> None))"

fun job_ok :: "job \<Rightarrow> bool" where
  "job_ok (Fresh s p) = True"
| "job_ok (Retry d s) = row_ok d"
| "job_ok (Sending i a s) = attempt_ok a"

definition rows_ok :: "wh_db \<Rightarrow> bool" where
  "rows_ok db = (\<forall>r \<in> set (deliveries db). row_ok r)"

definition ids_ok :: "wh_db \<Rightarrow> bool" where
  "ids_ok db = (distinct (map d_id (deliveries db)) \<and> (\<forall>r \<in> set (deliveries db). d_id r < next_id db))"

definition wh_inv :: "wh_state \<Rightarrow> bool" where
  "wh_inv st = (rows_ok (w_db st) \<and> ids_ok (w_db st) \<and> (\<forall>j \<in> set (w_jobs st). job_ok j))"

lemma attempt_ok_1 [simp]: "attempt_ok (Suc 0)"
  by (simp add: attempt_ok_def MAX_ATTEMPTS_def)

lemma rows_ok_update:
  "rows_ok db \<Longrightarrow> (\<And>r. row_ok r \<Longrightarrow> row_ok (f r)) \<Longrightarrow> rows_ok (update_delivery i f db)"
  by (auto simp: rows_ok_def update_delivery_def tbl_update_def)

lemma row_ok_cancel: "row_ok r \<Longrightarrow> row_ok (cancel_row r)"
  by (auto simp: row_ok_def cancel_row_def)

lemma row_ok_fail: "row_ok r \<Longrightarrow> row_ok (fail_row m r)"
  by (auto simp: row_ok_def fail_row_def)

lemma row_ok_schedule:
  "row_ok r \<Longrightarrow> attempt_ok a \<Longrightarrow> row_ok (scheduleRetryOrFail now a m h b r)"
  by (auto simp: row_ok_def scheduleRetryOrFail_def Let_def attempt_ok_def)

lemma row_ok_succeed: "row_ok r \<Longrightarrow> row_ok (succeed_row now c b r)"
  by (auto simp: row_ok_def succeed_row_def)

lemma row_ok_finish: "row_ok r \<Longrightarrow> attempt_ok a \<Longrightarrow> row_ok (finish_row red st now a res r)"
  by (simp add: finish_row_def row_ok_schedule row_ok_fail row_ok_succeed
      split: sum.splits web_error.splits)

lemma row_ok_begin: "row_ok r \<Longrightarrow> attempt_ok a \<Longrightarrow> row_ok (begin_row a r)"
  by (auto simp: row_ok_def begin_row_def)

lemma row_ok_new: "row_ok (new_row e i sub ev (Suc 0) ret)"
  by (auto simp: row_ok_def new_row_def)

lemma row_ok_mark: "row_ok r \<Longrightarrow> row_ok (mark_claimed now ids r)"
  by (auto simp: row_ok_def mark_claimed_def lease_free_def split: option.splits)

lemma rows_ok_claim:
  assumes "rows_ok db" "claim now db = (db', ds)"
  shows "rows_ok db' \<and> (\<forall>(d, s) \<in> set ds. row_ok d)"
  using assms
  by (auto simp: claim_def Let_def claim_mark_def claim_read_def with_sub_def rows_ok_def row_ok_mark
      split: if_splits option.splits)

lemma rows_ok_begin_retry:
  assumes "rows_ok db" "row_ok d" "begin_retry e d s db = (db', j)"
  shows "rows_ok db' \<and> (\<forall>k \<in> set (spawn j). job_ok k)"
  using assms
  by (auto simp: begin_retry_def begin_delivery_def Let_def row_ok_def [of d]
      split: if_splits option.splits sum.splits
      intro!: rows_ok_update row_ok_cancel row_ok_fail row_ok_begin)

lemma rows_ok_begin_fresh:
  assumes "rows_ok db" "begin_fresh e s p db = (db', j)"
  shows "rows_ok db' \<and> (\<forall>k \<in> set (spawn j). job_ok k)"
  using assms
  by (auto simp: begin_fresh_def begin_delivery_def rows_ok_def row_ok_new split: sum.splits)

lemma rows_ok_set_active: "rows_ok db \<Longrightarrow> rows_ok (set_active sid b db)"
  by (auto simp: set_active_def Let_def rows_ok_def cancel_pending_def row_ok_def)

text \<open>No operation changes the identifier of a row; creating a row takes a fresh one.\<close>

lemma finish_row_id [simp]: "d_id (finish_row red st now a res r) = d_id r"
  by (simp add: finish_row_def succeed_row_def scheduleRetryOrFail_def fail_row_def Let_def
      split: sum.splits web_error.splits)

lemma row_ids [simp]:
  "d_id (cancel_row r) = d_id r" "d_id (fail_row m r) = d_id r" "d_id (begin_row a r) = d_id r"
  "d_id (mark_claimed now ids r) = d_id r" "d_id (cancel_pending sid r) = d_id r"
  by (simp_all add: cancel_row_def fail_row_def begin_row_def mark_claimed_def cancel_pending_def)

lemma ids_ok_map:
  assumes "ids_ok db" "\<And>r. d_id (g r) = d_id r"
  shows "ids_ok (db\<lparr>deliveries := map g (deliveries db)\<rparr>)"
  using assms by (simp add: ids_ok_def comp_def)

lemma ids_ok_update: "ids_ok db \<Longrightarrow> (\<And>r. d_id (f r) = d_id r) \<Longrightarrow> ids_ok (update_delivery i f db)"
  unfolding update_delivery_def tbl_update_def by (rule ids_ok_map) auto

lemma ids_ok_filter: "ids_ok db \<Longrightarrow> ids_ok (db\<lparr>deliveries := filter P (deliveries db)\<rparr>)"
  by (simp add: ids_ok_def distinct_map_filter)

lemma ids_ok_claim: "ids_ok db \<Longrightarrow> claim now db = (db', ds) \<Longrightarrow> ids_ok db'"
  by (auto simp: claim_def Let_def claim_mark_def intro!: ids_ok_map split: if_splits)

lemma ids_ok_begin_retry: "ids_ok db \<Longrightarrow> begin_retry e d s db = (db', j) \<Longrightarrow> ids_ok db'"
  by (auto simp: begin_retry_def begin_delivery_def Let_def
      split: if_splits option.splits sum.splits intro!: ids_ok_update)

lemma ids_ok_begin_fresh: "ids_ok db \<Longrightarrow> begin_fresh e s p db = (db', j) \<Longrightarrow> ids_ok db'"
  by (fastforce simp: begin_fresh_def begin_delivery_def ids_ok_def new_row_def split: sum.splits)

lemma ids_ok_set_active: "ids_ok db \<Longrightarrow> ids_ok (set_active sid b db)"
  by (auto simp: set_active_def Let_def ids_ok_def comp_def)

interpretation workers: invariant_system wh_init wh_step wh_inv
proof
  fix st assume "wh_init st"
  then show "wh_inv st" by (simp add: wh_init_def wh_inv_def rows_ok_def ids_ok_def)
next
  fix st st' assume inv: "wh_inv st" and "wh_step st st'"
  from this(2) show "wh_inv st'"
  proof cases
    case (claim_rows now db' ds)
    then show ?thesis using inv rows_ok_claim [of "w_db st" now db' ds] ids_ok_claim [of "w_db st" now db' ds]
      by (auto simp: wh_inv_def)
  next
    case (start_fresh js s p ks e db' j)
    then show ?thesis using inv rows_ok_begin_fresh [of "w_db st" e s p db' j]
        ids_ok_begin_fresh [of "w_db st" e s p db' j] by (auto simp: wh_inv_def)
  next
    case (start_retry js d s ks e db' j)
    then show ?thesis using inv rows_ok_begin_retry [of "w_db st" d e s db' j]
        ids_ok_begin_retry [of "w_db st" e d s db' j] by (auto simp: wh_inv_def)
  next
    case (finish js i a s ks e)
    then show ?thesis using inv
      by (auto simp: wh_inv_def finish_job_def intro!: rows_ok_update row_ok_finish ids_ok_update)
  next
    case (patch sid b)
    then show ?thesis using inv by (auto simp: wh_inv_def rows_ok_set_active ids_ok_set_active)
  next
    case (cleanup now)
    then show ?thesis using inv
      by (auto simp: wh_inv_def cleanupExpiredWebhookDeliveries_def rows_ok_def intro!: ids_ok_filter)
  next
    case (force_cleanup sid)
    then show ?thesis using inv
      by (auto simp: wh_inv_def forceCleanupSubscriptionDeliveries_def rows_ok_def intro!: ids_ok_filter)
  qed (use inv in \<open>auto simp: wh_inv_def\<close>)
qed


section \<open>Backoff and the outcome of an attempt\<close>

lemma backoff_values:
  "backoffMs 2 = 30000" "backoffMs 3 = 90000" "backoffMs 4 = 270000" "backoffMs 5 = 810000"
  by (simp_all add: backoffMs_def)

lemma backoff_bounds: "10000 \<le> backoffMs a \<and> backoffMs a \<le> 900000"
  by (simp add: backoffMs_def)

lemma backoff_mono: "a \<le> b \<Longrightarrow> backoffMs a \<le> backoffMs b"
  unfolding backoffMs_def by (intro min.mono mult_left_mono power_increasing) auto

text \<open>The four ways an attempt can end.\<close>

definition delivered :: "(web_error + http_response) \<Rightarrow> bool" where
  "delivered res = (case res of Inl _ \<Rightarrow> False | Inr resp \<Rightarrow> 200 \<le> h_status resp \<and> h_status resp < 300)"

definition refused :: "(web_error + http_response) \<Rightarrow> bool" where
  "refused res = (case res of Inl (SsrfBlockedError _) \<Rightarrow> True | _ \<Rightarrow> False)"

definition final :: "dstatus \<Rightarrow> delivery \<Rightarrow> bool" where
  "final st r = (d_status r = st \<and> d_proc r = Done \<and> d_lease r = None \<and> (\<forall>t. \<not> claimable t r))"

lemma finish_schedules:
  assumes "\<not> delivered res" "\<not> refused res"
  obtains m h b where "finish_row red store now a res r = scheduleRetryOrFail now a m h b r"
proof (cases res)
  case (Inl err)
  with assms that show ?thesis by (cases err) (auto simp: finish_row_def refused_def)
next
  case (Inr resp)
  with assms(1) have "finish_row red store now a res r = scheduleRetryOrFail now a
      (''HTTP '' @ dec_int (h_status resp)) (Some (h_status resp)) (stored_body red store (h_data resp)) r"
    by (auto simp: finish_row_def delivered_def)
  then show ?thesis by (rule that)
qed

lemma schedule_last:
  "\<not> a < MAX_ATTEMPTS \<Longrightarrow> final Failed (scheduleRetryOrFail now a m h b r)"
  by (simp add: scheduleRetryOrFail_def final_def claimable_def Let_def)

lemma schedule_next:
  "a < MAX_ATTEMPTS \<Longrightarrow> d_attempt (scheduleRetryOrFail now a m h b r) = Some (Suc a) \<and>
    claimable t (scheduleRetryOrFail now a m h b r) = (now + backoffMs (Suc a) \<le> t)"
  by (simp add: scheduleRetryOrFail_def claimable_def lease_free_def Let_def)

text \<open>How an attempt ends, on every branch: a 2xx answer makes the row a final success; an
  SSRF refusal and a failure of the last attempt make it a final failure; any other failure
  makes it due again, with the next attempt number, from exactly the backoff delay on.\<close>

theorem attempt_outcome:
  "let r' = finish_row red store now a res r in
    if delivered res then final Success r'
    else if refused res \<or> MAX_ATTEMPTS \<le> a then final Failed r'
    else d_attempt r' = Some (Suc a) \<and> (\<forall>t. claimable t r' = (now + backoffMs (Suc a) \<le> t))"
proof -
  consider (ok) resp where "res = Inr resp" "delivered res"
    | (ssrf) reason where "res = Inl (SsrfBlockedError reason)"
    | (bad) "\<not> delivered res" "\<not> refused res"
    by (cases "delivered res"; cases "refused res") (auto simp: delivered_def refused_def split: sum.splits web_error.splits)
  then show ?thesis
  proof cases
    case ok
    then show ?thesis by (simp add: finish_row_def delivered_def succeed_row_def final_def claimable_def)
  next
    case ssrf
    then show ?thesis
      by (simp add: finish_row_def delivered_def refused_def fail_row_def final_def claimable_def)
  next
    case bad
    from finish_schedules [OF bad] obtain m h b
      where eq: "finish_row red store now a res r = scheduleRetryOrFail now a m h b r" .
    show ?thesis
    proof (cases "a < MAX_ATTEMPTS")
      case True
      with schedule_next [OF True] bad show ?thesis by (simp add: eq)
    next
      case False
      with schedule_last [OF False] bad show ?thesis by (simp add: eq)
    qed
  qed
qed

text \<open>C2: In every reachable state, whatever the interleaving of replicas, crashes, deactivations
  and clean-ups, every row has an attempt number between 1 and the limit, a row with a final
  status is done, a lease exists exactly on rows being processed, and no two rows share an
  identifier; every request in flight is one of the permitted attempts.\<close>

theorem queue_rows_well_formed:
  assumes "reachable wh_init wh_step st"
  shows "distinct (map d_id (deliveries (w_db st))) \<and>
    (\<forall>r \<in> set (deliveries (w_db st)).
       (\<exists>a. d_attempt r = Some a \<and> 1 \<le> a \<and> a \<le> MAX_ATTEMPTS) \<and>
       (d_status r \<noteq> Pending \<longrightarrow> d_proc r = Done \<and> d_lease r = None) \<and>
       (d_proc r = Processing \<longleftrightarrow> d_lease r \<noteq> None)) \<and>
    (\<forall>i a s. Sending i a s \<in> set (w_jobs st) \<longrightarrow> 1 \<le> a \<and> a \<le> MAX_ATTEMPTS)"
  using workers.reachable_inv [OF assms]
  by (fastforce simp: wh_inv_def rows_ok_def row_ok_def ids_ok_def attempt_ok_def)

section \<open>A concrete run\<close>

definition demo_sub :: subscription where
  "demo_sub = \<lparr>s_id = 7, s_url = ''a.example'', s_secret = ''k'', s_contract = None,
     s_eventType = None, s_topic = None, s_active = True, s_store = True, s_retention = 90\<rparr>"

definition demo_event :: payload where
  "demo_event = \<lparr>p_id = ''e1'', p_contract = ''C'', p_eventType = ''mint'', p_topic = None,
     p_decoded = [], p_ledger = 1, p_closeTime = 0, p_tx = ''t''\<rparr>"

text \<open>Every hop accepts the host and gets the answer 500.\<close>

definition web500 :: web_env where
  "web500 = demo_env\<lparr>e_post := (\<lambda>u. Inr \<lparr>h_status = 500, h_location = [], h_data = []\<rparr>)\<rparr>"

definition demo_wh_env :: wh_env where
  "demo_wh_env = \<lparr>x_now = 0, x_end = 0, x_pre = web500, x_hops = (\<lambda>_. web500),
     x_json = (\<lambda>p a. []), x_hmac = (\<lambda>k b. []), x_redact = (\<lambda>b. b)\<rparr>"

definition st0 :: wh_state where
  "st0 = \<lparr>w_db = \<lparr>deliveries = [], subs = [demo_sub], events = [demo_event], next_id = 0\<rparr>,
     w_jobs = [], w_clock = 0\<rparr>"

definition st1 :: wh_state where
  "st1 = st0\<lparr>w_jobs := [Fresh demo_sub demo_event]\<rparr>"

definition row1 :: delivery where
  "row1 = new_row demo_wh_env 0 7 ''e1'' 1 90"

definition st2 :: wh_state where
  "st2 = \<lparr>w_db = \<lparr>deliveries = [row1], subs = [demo_sub], events = [demo_event], next_id = 1\<rparr>,
     w_jobs = [Sending 0 1 demo_sub], w_clock = 0\<rparr>"

lemma web500_safe: "assertSafeUrl web500 ''a.example'' = Inr ()"
  by (simp add: web500_def demo_env_def assertSafeUrl_def resolved_ips_def
      assertHostnameResolvesToPublicIp_def demo_ips demo_hosts)

lemma web500_post: "safePost (\<lambda>_. web500) ''a.example'' =
    ([(0, ''a.example'')], Inr \<lparr>h_status = 500, h_location = [], h_data = []\<rparr>)"
  by (simp add: safePost_def MAX_REDIRECTS_def eval_nat_numeral web500_safe, simp add: web500_def)

lemma reach_st0: "reachable wh_init wh_step st0"
  by (rule reach_init) (simp add: wh_init_def st0_def)

lemma reach_st1: "reachable wh_init wh_step st1"
proof (rule reach_step [OF reach_st0])
  have "matching_subs demo_event (w_db st0) = [demo_sub]"
    by (simp add: matching_subs_def st0_def sub_matches_def demo_sub_def unset_def)
  then show "wh_step st0 st1"
    using dispatch [of st0 demo_event] by (simp add: st1_def st0_def)
qed

lemma reach_st2: "reachable wh_init wh_step st2"
proof (rule reach_step [OF reach_st1])
  have "begin_fresh demo_wh_env demo_sub demo_event (w_db st1) = (w_db st2, Some (Sending 0 1 demo_sub))"
    by (simp add: begin_fresh_def demo_wh_env_def web500_safe begin_delivery_def st1_def st2_def st0_def
        row1_def demo_sub_def demo_event_def new_row_def)
  from start_fresh [OF _ this, of "[]" "[]"] show "wh_step st1 st2"
    by (simp add: st1_def st2_def st0_def)
qed

theorem queue_rows_well_formed_witness:
  "row1 \<in> set (deliveries (w_db st2)) \<and> d_attempt row1 = Some 1 \<and>
   d_proc row1 = Processing \<and> d_lease row1 = Some 60000 \<and>
   distinct (map d_id (deliveries (w_db st2)))"
  using queue_rows_well_formed [OF reach_st2]
  by (simp add: st2_def row1_def new_row_def demo_wh_env_def LEASE_DURATION_MS_def)

section \<open>Two replicas claim at the same time\<close>

text \<open>A row that one transaction read back carries its lease; a second transaction whose clock is
  within the lease neither marks nor reads it.\<close>

lemma claim_read_lease:
  "(d, s) \<in> set (claim_read now ids db) \<Longrightarrow>
    d \<in> set (deliveries db) \<and> d_proc d = Processing \<and> d_lease d = Some (now + LEASE_DURATION_MS)"
  by (auto simp: claim_read_def with_sub_def read_back_def split: option.splits)

lemma mark_keeps_leased:
  "d_proc d = Processing \<Longrightarrow> d_lease d = Some t \<Longrightarrow> now < t \<Longrightarrow> mark_claimed now ids d = d"
  by (simp add: mark_claimed_def lease_free_def)

text \<open>Two replicas whose claiming transactions overlap never claim the same row, provided their
  clocks differ and differ by less than the lease: the second one re-checks the lease when it
  marks, and reads back only rows with its own lease.\<close>

theorem overlapping_claims_disjoint:
  assumes "distinct (map d_id (deliveries db))"
    and "db1 = claim_mark nowA idsA db" and "db2 = claim_mark nowB idsB db1"
    and "nowA \<noteq> nowB" and "nowB < nowA + LEASE_DURATION_MS"
    and "(dA, sA) \<in> set (claim_read nowA idsA db1)" and "(dB, sB) \<in> set (claim_read nowB idsB db2)"
  shows "d_id dA \<noteq> d_id dB"
proof
  assume same: "d_id dA = d_id dB"
  note A = claim_read_lease [OF assms(6)] and B = claim_read_lease [OF assms(7)]
  have "distinct (map d_id (deliveries db2))"
    using assms(1) by (simp add: assms(2,3) claim_mark_def comp_def)
  moreover have "mark_claimed nowB idsB dA = dA"
    using A assms(5) by (simp add: mark_keeps_leased)
  then have "dA \<in> set (deliveries db2)"
    using A by (force simp: assms(3) claim_mark_def)
  ultimately have "dA = dB" using B same by (meson distinct_map inj_onD)
  then show False using A B assms(4) by simp
qed

definition due_row :: delivery where
  "due_row = row1\<lparr>d_proc := Idle, d_lease := None, d_next := Some 0\<rparr>"

definition due_db :: wh_db where
  "due_db = \<lparr>deliveries = [due_row], subs = [demo_sub], events = [demo_event], next_id = 1\<rparr>"

lemmas claim_simps = claim_select_def claim_mark_def claim_read_def mark_claimed_def read_back_def
  lease_free_def claimable_def with_sub_def tbl_find_def due_db_def due_row_def row1_def new_row_def
  demo_sub_def LEASE_DURATION_MS_def

text \<open>Two due rows; the first replica selected only row 0, the second, one millisecond later, both:
  it gets row 1.\<close>

definition two_due :: wh_db where
  "two_due = due_db\<lparr>deliveries := [due_row, due_row\<lparr>d_id := 1\<rparr>]\<rparr>"

theorem overlapping_claims_disjoint_witness:
  "map (d_id \<circ> fst) (claim_read 1 [0] (claim_mark 1 [0] two_due)) = [0] \<and>
   map (d_id \<circ> fst) (claim_read 2 [0, 1] (claim_mark 2 [0, 1] (claim_mark 1 [0] two_due))) = [1] \<and>
   d_id due_row \<noteq> d_id (due_row\<lparr>d_id := 1\<rparr>)"
proof -
  let ?dA = "due_row\<lparr>d_proc := Processing, d_lease := Some 60001\<rparr>"
  let ?dB = "due_row\<lparr>d_id := 1, d_proc := Processing, d_lease := Some 60002\<rparr>"
  have A: "(?dA, demo_sub) \<in> set (claim_read 1 [0] (claim_mark 1 [0] two_due))"
    by (simp add: claim_simps two_due_def)
  have B: "(?dB, demo_sub) \<in> set (claim_read 2 [0, 1] (claim_mark 2 [0, 1] (claim_mark 1 [0] two_due)))"
    by (simp add: claim_simps two_due_def)
  have "d_id ?dA \<noteq> d_id ?dB"
    by (rule overlapping_claims_disjoint [OF _ refl refl _ _ A B]) (simp_all add: claim_simps two_due_def)
  then show ?thesis by (simp add: claim_simps two_due_def)
qed

text \<open>With equal clocks the exclusion fails: both replicas select the row, the second one's
  update skips it, but its final read finds a row with exactly its own lease and claims it
  too, although the source says that concurrent replicas cannot pick up the same delivery twice.\<close>

theorem equal_clocks_claim_twice:
  "let idsA = claim_select 0 due_db; idsB = claim_select 0 due_db;
       db1 = claim_mark 0 idsA due_db; gotA = claim_read 0 idsA db1;
       db2 = claim_mark 0 idsB db1; gotB = claim_read 0 idsB db2 in
   map (d_id \<circ> fst) gotA = [0] \<and> map (d_id \<circ> fst) gotB = [0] \<and> db2 = db1"
  by (simp add: claim_simps Let_def)

section \<open>Deliveries that nobody will retry\<close>

fun job_row :: "job \<Rightarrow> nat option" where
  "job_row (Fresh s p) = None"
| "job_row (Retry d s) = Some (d_id d)"
| "job_row (Sending i a s) = Some i"

text \<open>An orphan: no job works on the row, and it has no retry time.\<close>

definition orphan :: "nat \<Rightarrow> wh_state \<Rightarrow> bool" where
  "orphan i st = (i < next_id (w_db st) \<and>
     (\<forall>r \<in> set (deliveries (w_db st)). d_id r = i \<longrightarrow>
        d_next r = None \<and> (d_status r = Pending \<or> d_status r = Cancelled)) \<and>
     (\<forall>j \<in> set (w_jobs st). job_row j \<noteq> Some i))"

definition idle_row :: "nat \<Rightarrow> wh_db \<Rightarrow> bool" where
  "idle_row i db = (i < next_id db \<and> (\<forall>r \<in> set (deliveries db). d_id r = i \<longrightarrow>
        d_next r = None \<and> (d_status r = Pending \<or> d_status r = Cancelled)))"

lemma idle_row_update_other:
  "idle_row i db \<Longrightarrow> i \<noteq> k \<Longrightarrow> (\<And>r. d_id (f r) = d_id r) \<Longrightarrow> idle_row i (update_delivery k f db)"
  by (auto simp: idle_row_def update_delivery_def tbl_update_def)

lemma idle_row_claim:
  assumes "idle_row i db" "claim now db = (db', ds)"
  shows "idle_row i db' \<and> (\<forall>(d, s) \<in> set ds. d_id d \<noteq> i)"
proof -
  have "i \<notin> set (claim_select now db)"
    using assms(1) by (auto simp: idle_row_def claim_select_def claimable_def)
  then show ?thesis using assms
    by (auto simp: claim_def Let_def claim_mark_def claim_read_def with_sub_def read_back_def idle_row_def
        mark_claimed_def split: if_splits option.splits)
qed

lemma idle_row_begin_retry:
  assumes "idle_row i db" "d_id d \<noteq> i" "begin_retry e d s db = (db', j)"
  shows "idle_row i db' \<and> (\<forall>k \<in> set (spawn j). job_row k \<noteq> Some i)"
  using assms
  by (auto simp: begin_retry_def begin_delivery_def Let_def
      split: if_splits option.splits sum.splits intro!: idle_row_update_other)

lemma idle_row_begin_fresh:
  assumes "idle_row i db" "begin_fresh e s p db = (db', j)"
  shows "idle_row i db' \<and> (\<forall>k \<in> set (spawn j). job_row k \<noteq> Some i)"
  using assms by (auto simp: begin_fresh_def begin_delivery_def idle_row_def new_row_def split: sum.splits)

lemma orphan_alt: "orphan i st \<longleftrightarrow> idle_row i (w_db st) \<and> (\<forall>j \<in> set (w_jobs st). job_row j \<noteq> Some i)"
  by (auto simp: orphan_def idle_row_def)

lemma orphan_step: "orphan i st \<Longrightarrow> wh_step st st' \<Longrightarrow> orphan i st'"
proof -
  assume o: "orphan i st" and "wh_step st st'"
  from this(2) show "orphan i st'"
  proof cases
    case (claim_rows now db' ds)
    then show ?thesis using o idle_row_claim [of i "w_db st" now db' ds] by (auto simp: orphan_alt)
  next
    case (start_fresh js s p ks e db' j)
    then show ?thesis using o idle_row_begin_fresh [of i "w_db st" e s p db' j] by (auto simp: orphan_alt)
  next
    case (start_retry js d s ks e db' j)
    then show ?thesis using o idle_row_begin_retry [of i "w_db st" d e s db' j] by (auto simp: orphan_alt)
  next
    case (finish js k a s ks e)
    then show ?thesis using o
      by (auto simp: orphan_alt finish_job_def intro!: idle_row_update_other)
  next
    case (patch sid b)
    then show ?thesis using o
      by (auto simp: orphan_alt idle_row_def set_active_def Let_def cancel_pending_def)
  qed (use o in \<open>auto simp: orphan_alt idle_row_def cleanupExpiredWebhookDeliveries_def
        forceCleanupSubscriptionDeliveries_def\<close>)
qed

interpretation orphans: invariant_system "orphan i" wh_step "orphan i" for i
  by unfold_locales (auto intro: orphan_step)

definition st3 :: wh_state where
  "st3 = st2\<lparr>w_jobs := []\<rparr>"

lemma reach_st3: "reachable wh_init wh_step st3"
  using reach_step [OF reach_st2 crash [of st2 "[]" "Sending 0 1 demo_sub" "[]"]]
  by (simp add: st2_def st3_def)

text \<open>A worker that crashes between the write before its request and the write after it leaves a
  pending row without a retry time. Such a row is never claimed again by any replica, however
  long the lease has expired: in every later state it is still pending without a retry time,
  cancelled, or deleted. The source announces that expired leases are re-claimed.\<close>

theorem crashed_attempt_never_retried:
  assumes "orphan i st" "wh_step\<^sup>*\<^sup>* st st'"
  shows "(\<forall>r \<in> set (deliveries (w_db st')). d_id r = i \<longrightarrow>
      d_next r = None \<and> (d_status r = Pending \<or> d_status r = Cancelled)) \<and>
    (\<forall>now. i \<notin> set (claim_select now (w_db st')))"
  using orphans.steps_inv [OF assms]
  by (auto simp: orphan_def claim_select_def claimable_def)

theorem crashed_attempt_never_retried_witness:
  "reachable wh_init wh_step st3 \<and> map d_status (deliveries (w_db st3)) = [Pending] \<and>
   map d_lease (deliveries (w_db st3)) = [Some 60000] \<and> (\<forall>now. 0 \<notin> set (claim_select now (w_db st3)))"
proof -
  have "orphan 0 st3" by (simp add: orphan_def st3_def st2_def row1_def new_row_def)
  then show ?thesis using crashed_attempt_never_retried [of 0 st3 st3] reach_st3
    by (simp add: st3_def st2_def row1_def new_row_def demo_wh_env_def LEASE_DURATION_MS_def)
qed

section \<open>Leases that run out under a living worker\<close>

text \<open>The run goes on: the first attempt fails with 500, the row is due again after 30 seconds, a
  replica claims it but keeps the job queued; a minute later a second replica claims it too.\<close>

definition row4 :: delivery where
  "row4 = finish_row (\<lambda>b. b) True 0 1 (Inr \<lparr>h_status = 500, h_location = [], h_data = []\<rparr>) row1"

definition row5 :: "int \<Rightarrow> delivery" where
  "row5 t = row4\<lparr>d_proc := Processing, d_lease := Some (t + 60000)\<rparr>"

definition mk_st :: "delivery \<Rightarrow> job list \<Rightarrow> wh_state" where
  "mk_st r js = \<lparr>w_db = \<lparr>deliveries = [r], subs = [demo_sub], events = [demo_event], next_id = 1\<rparr>,
     w_jobs = js, w_clock = 0\<rparr>"

lemmas row_simps = row4_def row5_def finish_row_def scheduleRetryOrFail_def MAX_ATTEMPTS_def backoffMs_def
  keep_def row1_def new_row_def stored_body_def processResponseBody_def demo_wh_env_def LEASE_DURATION_MS_def

lemma reach_st4: "reachable wh_init wh_step (mk_st row4 [])"
proof (rule reach_step [OF reach_st2])
  have "finish_job demo_wh_env 0 1 demo_sub (w_db st2) = w_db (mk_st row4 [])"
    by (simp add: finish_job_def demo_wh_env_def web500_post demo_sub_def st2_def mk_st_def
        update_delivery_def tbl_update_def row4_def) (simp add: row1_def new_row_def)
  with finish [of st2 "[]" 0 1 demo_sub "[]" demo_wh_env] show "wh_step st2 (mk_st row4 [])"
    by (simp add: st2_def mk_st_def)
qed

lemma row4_fields: "d_id row4 = 0" "d_sub row4 = 7" "d_status row4 = Pending" "d_proc row4 = Idle"
  "d_next row4 = Some 30000" "d_attempt row4 = Some 2" "d_event row4 = ''e1''"
  by (simp_all add: row_simps)

lemmas demo_claim_simps = claim_def claim_select_def claim_mark_def claim_read_def mark_claimed_def
  read_back_def lease_free_def claimable_def with_sub_def tbl_find_def mk_st_def row5_def row4_fields
  demo_sub_def LEASE_DURATION_MS_def Let_def

lemma claim_first: "claim 30000 (w_db (mk_st row4 [])) =
    (w_db (mk_st (row5 30000) []), [(row5 30000, demo_sub)])"
  by (simp add: demo_claim_simps)

lemma claim_second: "claim 90000 (w_db (mk_st (row5 30000) js)) =
    (w_db (mk_st (row5 90000) js), [(row5 90000, demo_sub)])"
  by (simp add: demo_claim_simps)

lemma step_claim:
  "claim now (w_db (mk_st r js)) = (w_db (mk_st r' js), ds) \<Longrightarrow>
    wh_step (mk_st r js) (mk_st r' (js @ map (\<lambda>(d, s). Retry d s) ds))"
  using wh_step.claim_rows [of now "mk_st r js" "w_db (mk_st r' js)" ds] by (simp add: mk_st_def)

lemma step_retry:
  "begin_retry e d s (w_db (mk_st r [])) = (w_db (mk_st r' []), Some j) \<Longrightarrow>
    wh_step (mk_st r (js @ Retry d s # ks)) (mk_st r' (js @ j # ks))"
  using wh_step.start_retry [of "mk_st r (js @ Retry d s # ks)" js d s ks e "w_db (mk_st r' [])" "Some j"]
  by (simp add: mk_st_def)

lemma reach_two_claims:
  "reachable wh_init wh_step (mk_st (row5 90000) [Retry (row5 30000) demo_sub, Retry (row5 90000) demo_sub])"
proof -
  have 1: "wh_step (mk_st row4 []) (mk_st (row5 30000) [Retry (row5 30000) demo_sub])"
    using step_claim [OF claim_first] by simp
  have 2: "wh_step (mk_st (row5 30000) [Retry (row5 30000) demo_sub])
      (mk_st (row5 90000) [Retry (row5 30000) demo_sub, Retry (row5 90000) demo_sub])"
    using step_claim [OF claim_second, of "[Retry (row5 30000) demo_sub]"] by simp
  show ?thesis using reach_step [OF reach_step [OF reach_st4 1] 2] .
qed

definition row6 :: delivery where
  "row6 = begin_row 2 (row5 90000)"

lemma begin_demo:
  assumes "r = row5 90000 \<or> r = row6" "d = row5 t"
  shows "begin_retry demo_wh_env d demo_sub (w_db (mk_st r js)) =
    (w_db (mk_st row6 js), Some (Sending 0 2 demo_sub))"
  using assms
  by (auto simp: begin_retry_def demo_wh_env_def web500_safe begin_delivery_def mk_st_def load_payload_def
      delivery_row_def tbl_find_def update_delivery_def tbl_update_def demo_event_def demo_sub_def row6_def
      begin_row_def row5_def row4_fields)

text \<open>A lease that expires while its holder still waits in the concurrency queue is given to a
  second replica, and nothing stops the first one from sending as well: a state is reachable in
  which two workers send the same attempt of the same row.\<close>

theorem lease_expiry_sends_twice:
  "\<exists>st. reachable wh_init wh_step st \<and> w_jobs st = [Sending 0 2 demo_sub, Sending 0 2 demo_sub]"
proof -
  have 1: "wh_step (mk_st (row5 90000) [Retry (row5 30000) demo_sub, Retry (row5 90000) demo_sub])
      (mk_st row6 [Sending 0 2 demo_sub, Retry (row5 90000) demo_sub])"
    using step_retry [OF begin_demo [OF disjI1 [OF refl] refl], of "[]"] by simp
  have 2: "wh_step (mk_st row6 [Sending 0 2 demo_sub, Retry (row5 90000) demo_sub])
      (mk_st row6 [Sending 0 2 demo_sub, Sending 0 2 demo_sub])"
    using step_retry [OF begin_demo [OF disjI2 [OF refl] refl], of "[Sending 0 2 demo_sub]"] by simp
  have "reachable wh_init wh_step (mk_st row6 [Sending 0 2 demo_sub, Sending 0 2 demo_sub])"
    using reach_step [OF reach_step [OF reach_two_claims 1] 2] .
  then show ?thesis by (rule_tac exI, rule_tac conjI, assumption) (simp add: mk_st_def)
qed

section \<open>Requests of one attempt\<close>

text \<open>An attempt sends requests only after the preflight check accepted the subscription's URL,
  every request goes to a URL that the guard accepted for that hop, and its signature is the
  HMAC of its body under the subscription's secret; a refused URL sends nothing, marks the row of
  a retried delivery as failed, and leaves no row at all for a first attempt.\<close>

theorem deliverOnce_guarded:
  "(case deliverOnce e sub url secret event attempt did store ret db of
     (db', Some q) \<Rightarrow> assertSafeUrl (x_pre e) url = Inr () \<and>
        list_all (\<lambda>(h, u). assertSafeUrl (x_hops e h) u = Inr ()) (q_log q) \<and>
        q_signature q = ''sha256='' @ x_hmac e secret (q_body q)
   | (db', None) \<Rightarrow> True) \<and>
   (case assertSafeUrl (x_pre e) url of Inr _ \<Rightarrow> True
    | Inl err \<Rightarrow> snd (deliverOnce e sub url secret event attempt did store ret db) = None \<and>
        fst (deliverOnce e sub url secret event attempt did store ret db) =
          (case did of None \<Rightarrow> db
           | Some i \<Rightarrow> if event = None \<and> load_payload i db = None then db
                       else update_delivery i (fail_row (error_message err)) db))"
proof -
  have log: "list_all (\<lambda>(h, u). assertSafeUrl (x_hops e h) u = Inr ()) log"
    if "safePost (x_hops e) url = (log, res)" for log res
    using safePost_loop_log [of "x_hops e" "Suc MAX_REDIRECTS" 0 url log res] that
    by (simp add: safePost_def)
  show ?thesis
    by (auto simp: deliverOnce_def Let_def log split: option.splits sum.splits prod.splits)
qed

end
