(* ===== verification/Lru_Cache.thy ===== *)
theory Lru_Cache
  imports Octra_Prelude
begin

text \<open>
  \<open>src/cache.ts\<close>: the process-local LRU cache in front of an optional Redis server. The local
  store is a JavaScript \<open>Map\<close> whose insertion order is the recency order. Redis, JSON and the
  clock are parameters of the operations; an asynchronous operation is split where it awaits,
  so that other operations can run in between.
\<close>

section \<open>The local store\<close>

record mem_entry =
  payload :: string
  expiresAt :: "int option"

record cache =
  store :: "(string, mem_entry) jsmap"
  evictions :: nat

text \<open>\<open>Math.max(1, parseInt(text))\<close>, with the hexadecimal prefix that a missing radix allows; \<open>NaN\<close>, here \<open>None\<close>, when the text is no number.\<close>

definition hex_val :: "char \<Rightarrow> nat" where
  "hex_val c = (let n = of_char c in if n \<le> 57 then n - 48 else if n \<le> 70 then n - 55 else n - 87)"

definition parse_int :: "string \<Rightarrow> int option" where
  "parse_int s = (case parse_sign (dropWhile is_space s) of (sg, u) \<Rightarrow>
     if starts_with ''0x'' u \<or> starts_with ''0X'' u then
       (let ds = takeWhile is_hex_char (drop 2 u) in
        if ds = [] then None else Some (sg * int (foldl (\<lambda>acc c. acc * 16 + hex_val c) 0 ds)))
     else parse_int10 s)"

definition max_cache_size :: "string \<Rightarrow> int option" where
  "max_cache_size v = map_option (max 1) (parse_int v)"

text \<open>\<open>size >= MAX_CACHE_SIZE\<close>; a comparison with \<open>NaN\<close> is false.\<close>

definition full :: "int option \<Rightarrow> ('k, 'v) jsmap \<Rightarrow> bool" where
  "full mx m = (case mx of None \<Rightarrow> False | Some n \<Rightarrow> n \<le> int (length m))"

definition lruSet :: "int option \<Rightarrow> string \<Rightarrow> mem_entry \<Rightarrow> cache \<Rightarrow> cache" where
  "lruSet mx key entry c =
     (if jm_has (store c) key then c\<lparr>store := jm_set key entry (jm_delete key (store c))\<rparr>
      else if full mx (store c) then
        (case jm_keys (store c) of
           [] \<Rightarrow> c\<lparr>store := jm_set key entry (store c)\<rparr>
         | oldestKey # _ \<Rightarrow>
             c\<lparr>store := jm_set key entry (jm_delete oldestKey (store c)),
               evictions := Suc (evictions c)\<rparr>)
      else c\<lparr>store := jm_set key entry (store c)\<rparr>)"

definition lruGet :: "string \<Rightarrow> cache \<Rightarrow> cache \<times> mem_entry option" where
  "lruGet key c =
     (case jm_get (store c) key of
        None \<Rightarrow> (c, None)
      | Some entry \<Rightarrow> (c\<lparr>store := jm_set key entry (jm_delete key (store c))\<rparr>, Some entry))"

definition cacheStats :: "cache \<Rightarrow> nat \<times> nat" where
  "cacheStats c = (length (store c), evictions c)"

definition isExpired :: "int \<Rightarrow> mem_entry \<Rightarrow> bool" where
  "isExpired now e = (case expiresAt e of None \<Rightarrow> False | Some t \<Rightarrow> t \<le> now)"

definition buildExpiry :: "int \<Rightarrow> int option \<Rightarrow> int option" where
  "buildExpiry now ttl = (case ttl of None \<Rightarrow> None
     | Some s \<Rightarrow> if s \<le> 0 then None else Some (now + s * 1000))"

definition redactKey :: "string \<Rightarrow> string" where
  "redactKey key =
     (if CHR '':'' \<notin> set key then key else takeWhile (\<lambda>c. c \<noteq> CHR '':'') key @ '':'' @ ''***'')"

definition cacheClear :: "cache \<Rightarrow> cache" where
  "cacheClear c = \<lparr>store = [], evictions = 0\<rparr>"

section \<open>The Redis connection\<close>

record redis_conn =
  redisClient :: bool
  redisAvailable :: bool

text \<open>\<open>connect_ok\<close>: whether connecting succeeds; the result tells whether there is a client.\<close>

definition getRedisClient :: "bool \<Rightarrow> bool \<Rightarrow> redis_conn \<Rightarrow> redis_conn \<times> bool" where
  "getRedisClient use connect_ok r =
     (if \<not> use then (r, False)
      else if redisClient r then (r, True)
      else if connect_ok then (r\<lparr>redisClient := True, redisAvailable := True\<rparr>, True)
      else (r\<lparr>redisAvailable := False\<rparr>, False))"

definition redis_error :: "redis_conn \<Rightarrow> redis_conn" where
  "redis_error r = r\<lparr>redisAvailable := False\<rparr>"

definition cacheClose :: "redis_conn \<Rightarrow> redis_conn" where
  "cacheClose r = (if redisClient r then \<lparr>redisClient = False, redisAvailable = False\<rparr> else r)"

definition isCacheReady :: "bool \<Rightarrow> redis_conn \<Rightarrow> bool" where
  "isCacheReady use r = (\<not> use \<or> redisAvailable r)"

datatype backend = Redis | Memory

definition cacheBackendType :: "bool \<Rightarrow> redis_conn \<Rightarrow> backend" where
  "cacheBackendType use r = (if use \<and> redisAvailable r then Redis else Memory)"

section \<open>The cache operations\<close>

text \<open>\<open>None\<close> of a \<open>string option\<close> answer is the missing key; the outer \<open>Inl\<close> is an exception.
  \<open>parse\<close> is \<open>JSON.parse\<close>, which fails with \<open>None\<close>.\<close>

text \<open>The synchronous part of \<open>cacheGet\<close>: a hit ends the call.\<close>

definition cacheGet_local ::
    "(string \<Rightarrow> 'v option) \<Rightarrow> int \<Rightarrow> string \<Rightarrow> cache \<Rightarrow> cache \<times> 'v option" where
  "cacheGet_local parse now key c =
     (case lruGet key c of
        (c1, None) \<Rightarrow> (c1, None)
      | (c1, Some local) \<Rightarrow>
          if isExpired now local then (c1\<lparr>store := jm_delete key (store c1)\<rparr>, None)
          else (case parse (payload local) of
                  Some v \<Rightarrow> (c1, Some v)
                | None \<Rightarrow> (c1\<lparr>store := jm_delete key (store c1)\<rparr>, None)))"

text \<open>The part after the Redis answers have arrived.\<close>

definition cacheGet_fill ::
    "int option \<Rightarrow> (string \<Rightarrow> 'v option) \<Rightarrow> int \<Rightarrow> (unit + string option) \<Rightarrow> (unit + int) \<Rightarrow> string
      \<Rightarrow> cache \<Rightarrow> cache \<times> 'v option" where
  "cacheGet_fill mx parse now got pttl key c =
     (case got of
        Inl _ \<Rightarrow> (c, None)
      | Inr None \<Rightarrow> (c, None)
      | Inr (Some p) \<Rightarrow>
          if p = [] then (c, None)
          else (case pttl of Inl _ \<Rightarrow> (c, None)
            | Inr ms \<Rightarrow>
               (let ex = (if ms > 0 then Some (now + ms) else None) in
                case parse p of
                  None \<Rightarrow> (c, None)
                | Some v \<Rightarrow> (lruSet mx key \<lparr>payload = p, expiresAt = ex\<rparr> c, Some v))))"

definition cacheGet ::
    "int option \<Rightarrow> (string \<Rightarrow> 'v option) \<Rightarrow> int \<Rightarrow> bool \<Rightarrow> int \<Rightarrow> (unit + string option) \<Rightarrow> (unit + int)
      \<Rightarrow> string \<Rightarrow> cache \<Rightarrow> cache \<times> 'v option" where
  "cacheGet mx parse now client later got pttl key c =
     (case cacheGet_local parse now key c of
        (c1, Some v) \<Rightarrow> (c1, Some v)
      | (c1, None) \<Rightarrow> if \<not> client then (c1, None) else cacheGet_fill mx parse later got pttl key c1)"

text \<open>What \<open>cacheSet\<close> writes to Redis: the key, the payload and the expiry in seconds.\<close>

definition cacheSet ::
    "int option \<Rightarrow> ('v \<Rightarrow> string) \<Rightarrow> int \<Rightarrow> bool \<Rightarrow> string \<Rightarrow> 'v \<Rightarrow> int option \<Rightarrow> cache
      \<Rightarrow> cache \<times> (string \<times> string \<times> int option) option" where
  "cacheSet mx print now client key v ttl c =
     (let p = print v;
          c1 = lruSet mx key \<lparr>payload = p, expiresAt = buildExpiry now ttl\<rparr> c in
      (c1, if \<not> client then None
           else Some (key, p, case ttl of None \<Rightarrow> None | Some s \<Rightarrow> if s > 0 then Some s else None)))"

definition cacheDelete :: "string \<Rightarrow> cache \<Rightarrow> cache" where
  "cacheDelete key c = c\<lparr>store := jm_delete key (store c)\<rparr>"

section \<open>Capacity and order\<close>

definition cache_ok :: "int option \<Rightarrow> cache \<Rightarrow> bool" where
  "cache_ok mx c = (jm_ok (store c) \<and>
     (case mx of None \<Rightarrow> True | Some n \<Rightarrow> 1 \<le> n \<and> int (length (store c)) \<le> n))"

text \<open>Both primitives in one closed form: the key moves to the end; a new key pushes out the first
  entry of a full store.\<close>

lemma jm_set_after_delete: "jm_set k v (jm_delete k m) = filter (\<lambda>p. fst p \<noteq> k) m @ [(k, v)]"
  by (simp add: jm_delete_filter jm_set_fresh image_iff)

lemma delete_head:
  assumes "jm_ok (p # m)" shows "jm_delete (fst p) (p # m) = m"
  using assms by (auto simp: jm_ok_def jm_delete_def delete_id)

lemma lruSet_store:
  assumes "jm_ok (store c)"
  shows "store (lruSet mx k e c) =
    (let rest = filter (\<lambda>p. fst p \<noteq> k) (store c) in
     (if full mx (store c) \<and> length rest = length (store c) then tl rest else rest) @ [(k, e)])"
proof (cases "jm_has (store c) k")
  case True
  then have "length (filter (\<lambda>p. fst p \<noteq> k) (store c)) < length (store c)"
    by (auto simp: jm_has_def intro!: length_filter_less)
  with True show ?thesis by (simp add: lruSet_def jm_set_after_delete Let_def)
next
  case False
  then have k: "k \<notin> fst ` set (store c)" by (simp add: jm_has_def)
  then have id: "filter (\<lambda>p. fst p \<noteq> k) (store c) = store c" by (force intro: filter_True)
  show ?thesis
  proof (cases "store c")
    case Nil
    then show ?thesis by (simp add: lruSet_def jm_has_def jm_keys_def Let_def jm_set_fresh)
  next
    case (Cons p m)
    have "jm_delete (fst p) (store c) = m" using delete_head assms Cons by simp
    with False k id Cons show ?thesis
      by (auto simp: lruSet_def jm_keys_def Let_def jm_set_fresh jm_has_def)
  qed
qed

lemma lruGet_store:
  "lruGet k c = (case jm_get (store c) k of None \<Rightarrow> (c, None)
     | Some e \<Rightarrow> (c\<lparr>store := filter (\<lambda>p. fst p \<noteq> k) (store c) @ [(k, e)]\<rparr>, Some e))"
  by (simp add: lruGet_def jm_set_after_delete split: option.splits)

lemma jm_ok_move: "jm_ok m \<Longrightarrow> jm_ok (filter (\<lambda>p. fst p \<noteq> k) m @ [(k, e)])"
  by (auto simp: jm_ok_def distinct_map_filter)

lemma jm_ok_tl: "jm_ok m \<Longrightarrow> jm_ok (tl m)"
  by (cases m) (auto simp: jm_ok_def)

lemma set_tl_subset: "set (tl xs) \<subseteq> set xs"
  by (cases xs) auto

lemma length_lruSet:
  assumes "jm_ok (store c)"
  shows "length (store (lruSet mx k e c)) =
    (if jm_has (store c) k \<or> (full mx (store c) \<and> store c \<noteq> []) then length (store c)
     else Suc (length (store c)))"
proof (cases "jm_has (store c) k")
  case True
  then have "Suc (length (jm_delete k (store c))) = length (store c)"
    using assms by (simp add: length_jm_delete_present)
  moreover have "\<not> jm_has (jm_delete k (store c)) k"
    by (simp add: jm_has_iff)
  ultimately show ?thesis using True by (simp add: lruSet_def length_jm_set)
next
  case False
  show ?thesis
  proof (cases "store c")
    case (Cons p m)
    have "jm_delete (fst p) (store c) = m" using delete_head assms Cons by simp
    moreover have "\<not> jm_has m k" using False Cons by (simp add: jm_has_def)
    ultimately show ?thesis using False Cons by (simp add: lruSet_def jm_keys_def length_jm_set)
  qed (use False in \<open>simp add: lruSet_def jm_keys_def length_jm_set\<close>)
qed

lemma cache_ok_lruSet: "cache_ok mx c \<Longrightarrow> cache_ok mx (lruSet mx k e c)"
proof -
  assume ok: "cache_ok mx c"
  then have m: "jm_ok (store c)" by (simp add: cache_ok_def)
  have "jm_ok (store (lruSet mx k e c))"
    using m by (auto simp: lruSet_def split: list.split)
  moreover have "int (length (store (lruSet mx k e c))) \<le> n" if "mx = Some n" for n
    using ok that by (auto simp: cache_ok_def length_lruSet [OF m] full_def)
  ultimately show ?thesis using ok by (auto simp: cache_ok_def split: option.splits)
qed

lemma cache_ok_delete: "cache_ok mx c \<Longrightarrow> cache_ok mx (c\<lparr>store := jm_delete k (store c)\<rparr>)"
  by (auto simp: cache_ok_def jm_delete_filter intro: order_trans [OF of_nat_mono [OF length_filter_le]]
      jm_ok_delete [unfolded jm_delete_filter] split: option.splits)

lemma cache_ok_lruGet: "cache_ok mx c \<Longrightarrow> cache_ok mx (fst (lruGet k c))"
proof (cases "jm_get (store c) k")
  case (Some e)
  assume ok: "cache_ok mx c"
  have "jm_has (store c) k" using Some by (simp add: jm_has_iff)
  then have "length (store (fst (lruGet k c))) = length (store c)"
    using ok length_jm_delete_present [of "store c" k]
    by (simp add: Some lruGet_def length_jm_set jm_has_iff cache_ok_def)
  then show ?thesis using ok by (auto simp: cache_ok_def Some lruGet_def split: option.splits)
qed (simp add: lruGet_def)

text \<open>Operations of concurrent requests in any order, with values carried as their text; \<open>cacheGet\<close> is split where it awaits.\<close>

inductive cache_step :: "int option \<Rightarrow> cache \<Rightarrow> cache \<Rightarrow> bool" for mx :: "int option" where
  get_local: "cache_step mx c (fst (cacheGet_local (parse :: string \<Rightarrow> string option) now key c))"
| get_fill: "cache_step mx c (fst (cacheGet_fill mx (parse :: string \<Rightarrow> string option) now got pttl key c))"
| set_key: "cache_step mx c (fst (cacheSet mx (print :: string \<Rightarrow> string) now client key v ttl c))"
| delete_key: "cache_step mx c (cacheDelete key c)"
| clear: "cache_step mx c (cacheClear c)"

definition cache_init :: "int option \<Rightarrow> cache \<Rightarrow> bool" where
  "cache_init mx c = (c = \<lparr>store = [], evictions = 0\<rparr> \<and>
     (case mx of None \<Rightarrow> True | Some n \<Rightarrow> 1 \<le> n))"

lemma cache_ok_get_local: "cache_ok mx c \<Longrightarrow> cache_ok mx (fst (cacheGet_local parse now k c))"
proof -
  assume ok: "cache_ok mx c"
  then have "cache_ok mx (fst (lruGet k c))" by (rule cache_ok_lruGet)
  then show ?thesis
    by (auto simp: cacheGet_local_def cache_ok_delete split: prod.splits option.splits)
qed

lemma cache_ok_fill: "cache_ok mx c \<Longrightarrow> cache_ok mx (fst (cacheGet_fill mx parse now got pttl k c))"
  by (auto simp: cacheGet_fill_def Let_def cache_ok_lruSet split: sum.splits option.splits)

interpretation lru_cache: invariant_system "cache_init mx" "cache_step mx" "cache_ok mx" for mx
proof
  fix c assume "cache_init mx c"
  then show "cache_ok mx c" by (auto simp: cache_init_def cache_ok_def split: option.splits)
next
  fix c c' assume ok: "cache_ok mx c" and "cache_step mx c c'"
  from this(2) show "cache_ok mx c'"
  proof cases
    case clear
    then show ?thesis using ok by (auto simp: cacheClear_def cache_ok_def split: option.splits)
  qed (simp_all add: ok cache_ok_get_local cache_ok_fill cacheSet_def Let_def cache_ok_lruSet
        cacheDelete_def cache_ok_delete)
qed

text \<open>Whatever operations run and however the asynchronous reads interleave, the local store
  never exceeds its configured capacity and never holds two entries for one key.\<close>

theorem cache_never_overflows:
  assumes "reachable (cache_init (Some n)) (cache_step (Some n)) c"
  shows "int (fst (cacheStats c)) \<le> n \<and> distinct (jm_keys (store c))"
  using lru_cache.reachable_inv [OF assms]
  by (simp add: cache_ok_def cacheStats_def jm_ok_def jm_keys_def)

lemma reachable_set:
  "reachable (cache_init mx) (cache_step mx) c \<Longrightarrow>
    reachable (cache_init mx) (cache_step mx) (fst (cacheSet mx (print :: string \<Rightarrow> string) now client k v ttl c))"
  by (erule reach_step) (rule set_key)

definition demo_cache :: cache where
  "demo_cache = fst (cacheSet (Some 1) (\<lambda>v. v) 0 False ''b'' ''2'' None
     (fst (cacheSet (Some 1) (\<lambda>v. v) 0 False ''a'' ''1'' None \<lparr>store = [], evictions = 0\<rparr>)))"

theorem cache_never_overflows_witness:
  "store demo_cache = [(''b'', \<lparr>payload = ''2'', expiresAt = None\<rparr>)] \<and> evictions demo_cache = 1 \<and>
   int (fst (cacheStats demo_cache)) \<le> 1"
proof -
  have "reachable (cache_init (Some 1)) (cache_step (Some 1)) demo_cache"
    unfolding demo_cache_def
    by (intro reachable_set reach_init) (simp add: cache_init_def)
  then show ?thesis using cache_never_overflows [of 1 demo_cache]
    by (simp add: demo_cache_def cacheSet_def Let_def lruSet_def jm_has_def full_def jm_keys_def
        jm_set_def jm_delete_def buildExpiry_def)
qed

section \<open>Least recently used\<close>

text \<open>A history of reads and writes; \<open>touched\<close> collects the keys that were written or found, in
  order.\<close>

datatype access = Read string | Write string mem_entry

fun access_step :: "int option \<Rightarrow> access \<Rightarrow> cache \<times> string list \<Rightarrow> cache \<times> string list" where
  "access_step mx (Read k) (c, ks) =
     (case lruGet k c of (c', None) \<Rightarrow> (c', ks) | (c', Some _) \<Rightarrow> (c', ks @ [k]))"
| "access_step mx (Write k e) (c, ks) = (lruSet mx k e c, ks @ [k])"

definition access_run :: "int option \<Rightarrow> access list \<Rightarrow> cache \<times> string list" where
  "access_run mx as = fold (access_step mx) as (\<lparr>store = [], evictions = 0\<rparr>, [])"

definition last_n :: "nat \<Rightarrow> 'a list \<Rightarrow> 'a list" where
  "last_n n xs = drop (length xs - n) xs"

lemma remdups_snoc: "remdups (xs @ [k]) = filter (\<lambda>x. x \<noteq> k) (remdups xs) @ [k]"
  by (induction xs) auto

lemma last_n_all: "length xs \<le> n \<Longrightarrow> last_n n xs = xs"
  by (simp add: last_n_def)

lemma last_n_append: "length K = n \<Longrightarrow> last_n n (D @ K) = K"
  by (simp add: last_n_def)

lemma filter_absent: "k \<notin> set xs \<Longrightarrow> filter (\<lambda>x. x \<noteq> k) xs = xs"
  by (auto intro: filter_True)

lemma filter_present:
  "k \<in> set xs \<Longrightarrow> distinct xs \<Longrightarrow> Suc (length (filter (\<lambda>x. x \<noteq> k) xs)) = length xs"
  by (induction xs) (auto simp: filter_absent)

text \<open>Touching one more key moves it to the end of the kept part, or pushes the first one out.\<close>

lemma last_n_touch:
  assumes "distinct L" "0 < n"
  shows "last_n n (filter (\<lambda>x. x \<noteq> k) L @ [k]) =
    (let K = last_n n L; rest = filter (\<lambda>x. x \<noteq> k) K in
     (if n \<le> length K \<and> length rest = length K then tl rest else rest) @ [k])"
proof -
  define D where "D = take (length L - n) L"
  define K where "K = last_n n L"
  have L: "L = D @ K" by (simp add: D_def K_def last_n_def)
  have dis: "distinct D" "distinct K" "set D \<inter> set K = {}" using assms(1) L by auto
  have lenK: "length K = min n (length L)" by (simp add: K_def last_n_def)
  have push: "last_n n (D' @ K @ [k]) = tl K @ [k]" if len: "length K = n" for D'
  proof -
    obtain x K' where K: "K = x # K'" using len assms(2) by (cases K) auto
    then show ?thesis using last_n_append [of "K' @ [k]" n "D' @ [x]"] len by simp
  qed
  have short: "D = []" if "length L \<le> n" using that by (simp add: D_def)
  consider (absent) "k \<notin> set K" "n \<le> length K" | (room) "k \<notin> set L" "length K < n" | (present) "k \<in> set K"
  proof -
    have "D = []" if "length K < n" using that lenK by (intro short) simp
    then have "k \<notin> set L" if "length K < n" "k \<notin> set K" using that by (simp add: L)
    then show thesis using absent room present by (cases "k \<in> set K"; cases "n \<le> length K") auto
  qed
  then show ?thesis
  proof cases
    case absent
    then have "filter (\<lambda>x. x \<noteq> k) L @ [k] = filter (\<lambda>x. x \<noteq> k) D @ K @ [k]" by (simp add: L filter_absent)
    then show ?thesis using absent push lenK by (simp add: K_def [symmetric] filter_absent)
  next
    case room
    then have "length L < n" using lenK by simp
    then show ?thesis using room short L
      by (simp add: K_def [symmetric] filter_absent last_n_all)
  next
    case present
    then have "k \<notin> set D" using dis by auto
    then have eq: "filter (\<lambda>x. x \<noteq> k) L @ [k] = D @ (filter (\<lambda>x. x \<noteq> k) K @ [k])"
      by (simp add: L filter_absent)
    have len: "Suc (length (filter (\<lambda>x. x \<noteq> k) K)) = length K" by (rule filter_present [OF present dis(2)])
    have "last_n n (D @ (filter (\<lambda>x. x \<noteq> k) K @ [k])) = filter (\<lambda>x. x \<noteq> k) K @ [k]"
    proof (cases "length L \<le> n")
      case True
      with len lenK short show ?thesis by (simp add: last_n_all)
    next
      case False
      with len lenK show ?thesis by (intro last_n_append) simp
    qed
    with eq len show ?thesis by (simp add: K_def [symmetric] Let_def)
  qed
qed

lemma keys_filter: "map fst (filter (\<lambda>p. fst p \<noteq> k) m) = filter (\<lambda>x. x \<noteq> k) (map fst m)"
  by (induction m) auto

lemma jm_keys_lruSet:
  assumes "jm_ok (store c)"
  shows "jm_keys (store (lruSet (Some (int n)) k e c)) =
    (let K = jm_keys (store c); rest = filter (\<lambda>x. x \<noteq> k) K in
     (if n \<le> length K \<and> length rest = length K then tl rest else rest) @ [k])"
proof -
  have len: "length (filter (\<lambda>p. fst p \<noteq> k) m) = length (filter (\<lambda>x. x \<noteq> k) (map fst m))" for m :: "(string \<times> mem_entry) list"
    by (simp add: keys_filter [symmetric])
  show ?thesis
    by (simp add: lruSet_store [OF assms] Let_def jm_keys_def full_def map_tl keys_filter len)
qed

lemma jm_keys_lruGet:
  assumes "lruGet k c = (c', Some e)"
  shows "k \<in> set (jm_keys (store c)) \<and>
    jm_keys (store c') = filter (\<lambda>x. x \<noteq> k) (jm_keys (store c)) @ [k]"
  using assms
  by (auto simp: lruGet_store jm_keys_def keys_filter split: option.splits dest!: jm_get_in_set intro: rev_image_eqI)

definition lru_inv :: "nat \<Rightarrow> cache \<times> string list \<Rightarrow> bool" where
  "lru_inv n = (\<lambda>(c, ks). cache_ok (Some (int n)) c \<and> jm_keys (store c) = last_n n (remdups ks))"

lemma lru_inv_step:
  assumes "lru_inv n (c, ks)" shows "lru_inv n (access_step (Some (int n)) a (c, ks))"
proof (cases a)
  case (Write k e)
  have n: "0 < n" "jm_ok (store c)" using assms by (auto simp: lru_inv_def cache_ok_def)
  show ?thesis
    using assms n by (simp add: Write lru_inv_def cache_ok_lruSet jm_keys_lruSet remdups_snoc last_n_touch)
next
  case (Read k)
  show ?thesis
  proof (cases "lruGet k c")
    case (Pair c' r)
    show ?thesis
    proof (cases r)
      case None
      with Pair show ?thesis using assms by (auto simp: Read lruGet_store split: option.splits)
    next
      case (Some e)
      have ok: "cache_ok (Some (int n)) c'" using assms Pair cache_ok_lruGet [of "Some (int n)" c k]
        by (simp add: lru_inv_def)
      have n: "0 < n" using assms by (auto simp: lru_inv_def cache_ok_def)
      note K = jm_keys_lruGet [OF Pair [unfolded Some]]
      have "distinct (jm_keys (store c))" using assms unfolding lru_inv_def cache_ok_def jm_ok_def jm_keys_def by blast
      then have "length (filter (\<lambda>x. x \<noteq> k) (jm_keys (store c))) \<noteq> length (jm_keys (store c))"
        using filter_present K by force
      with K n assms ok show ?thesis
        by (auto simp: Read Pair Some lru_inv_def remdups_snoc last_n_touch Let_def)
    qed
  qed
qed

lemma lru_inv_run: "lru_inv n s \<Longrightarrow> lru_inv n (fold (access_step (Some (int n))) as s)"
proof (induction as arbitrary: s)
  case (Cons a as)
  have "lru_inv n (access_step (Some (int n)) a s)" using lru_inv_step Cons.prems by (cases s) simp
  then show ?case using Cons.IH by simp
qed simp

text \<open>C11: Eviction is exactly least-recently-used: after any history of reads and writes the store
  holds, in this order, the last \<open>n\<close> distinct keys that were written or found, ordered by
  their last use.\<close>

theorem lru_keeps_most_recent:
  assumes "0 < n" "access_run (Some (int n)) as = (c, touched)"
  shows "jm_keys (store c) = last_n n (remdups touched)"
proof -
  have "lru_inv n (\<lparr>store = [], evictions = 0\<rparr>, [])"
    using assms(1) by (simp add: lru_inv_def cache_ok_def jm_keys_def last_n_def)
  from lru_inv_run [OF this, of as] assms(2) show ?thesis
    by (simp add: access_run_def lru_inv_def)
qed

theorem lru_keeps_most_recent_witness:
  "(let e = \<lparr>payload = [], expiresAt = None\<rparr>;
        r = access_run (Some 2) [Write ''a'' e, Write ''b'' e, Read ''a'', Write ''c'' e, Read ''b''] in
    jm_keys (store (fst r)) = [''a'', ''c''] \<and> snd r = [''a'', ''b'', ''a'', ''c''])"
proof -
  let ?e = "\<lparr>payload = [], expiresAt = None\<rparr>"
  let ?r = "access_run (Some 2) [Write ''a'' ?e, Write ''b'' ?e, Read ''a'', Write ''c'' ?e, Read ''b'']"
  have t: "snd ?r = [''a'', ''b'', ''a'', ''c'']"
    by (simp add: access_run_def lruSet_def lruGet_def jm_has_def full_def jm_keys_def jm_set_def
        jm_delete_def jm_get_def)
  have "jm_keys (store (fst ?r)) = last_n 2 (remdups (snd ?r))"
    by (rule lru_keeps_most_recent [of 2]) simp_all
  then show ?thesis by (simp add: t Let_def last_n_def)
qed

section \<open>Values and expiry\<close>

lemma get_lruSet: "jm_ok (store c) \<Longrightarrow> jm_get (store (lruSet mx k e c)) k = Some e"
  by (simp add: lruSet_def js_map.look_put_same split: list.split)

text \<open>A value that was just stored is returned by a later local read, until its lifetime ends;
  from then on it is never returned and the read removes the entry. A lifetime of zero or
  less, or none, lasts for ever.\<close>

theorem cacheSet_cacheGet:
  assumes "cache_ok mx c" "parse (print v) = Some v"
  shows "let c1 = fst (cacheSet mx print now client k v ttl c);
             live = (case ttl of None \<Rightarrow> True | Some s \<Rightarrow> s \<le> 0 \<or> later < now + s * 1000) in
    snd (cacheGet_local parse later k c1) = (if live then Some v else None) \<and>
    jm_has (store (fst (cacheGet_local parse later k c1))) k = live"
proof -
  let ?e = "\<lparr>payload = print v, expiresAt = buildExpiry now ttl\<rparr>"
  have g: "jm_get (store (lruSet mx k ?e c)) k = Some ?e"
    using assms(1) by (simp add: get_lruSet cache_ok_def)
  show ?thesis
    using g assms(2)
    by (auto simp: cacheSet_def Let_def cacheGet_local_def lruGet_def isExpired_def buildExpiry_def jm_has_iff
        split: option.splits)
qed

theorem cacheSet_cacheGet_witness:
  "let c1 = fst (cacheSet (Some 5) id 100 False ''k'' ''v'' (Some 2) \<lparr>store = [], evictions = 0\<rparr>) in
   snd (cacheGet_local Some 2099 ''k'' c1) = Some ''v'' \<and> snd (cacheGet_local Some 2100 ''k'' c1) = None"
  using cacheSet_cacheGet [of "Some 5" "\<lparr>store = [], evictions = 0\<rparr>" Some id "''v''" 100 False "''k''" "Some 2" 2099]
    cacheSet_cacheGet [of "Some 5" "\<lparr>store = [], evictions = 0\<rparr>" Some id "''v''" 100 False "''k''" "Some 2" 2100]
  by (simp add: Let_def cache_ok_def)

text \<open>The time to live that Redis reports is mirrored into the local entry only when it is
  positive. When the key expires in Redis between the read of its value and the read of its
  lifetime, Redis answers -2 and the local entry never expires: every later local read returns
  the dead value, which the source says it prevents.\<close>

theorem expired_in_redis_lives_for_ever:
  assumes "cache_ok mx c" "parse p = Some v" "p \<noteq> []" "pttl \<le> 0"
  shows "snd (cacheGet_local parse later k (fst (cacheGet_fill mx parse now (Inr (Some p)) (Inr pttl) k c))) = Some v"
proof -
  have g: "jm_get (store (lruSet mx k \<lparr>payload = p, expiresAt = None\<rparr> c)) k = Some \<lparr>payload = p, expiresAt = None\<rparr>"
    using assms(1) by (simp add: get_lruSet cache_ok_def)
  then show ?thesis
    using assms by (simp add: cacheGet_fill_def cacheGet_local_def lruGet_def isExpired_def)
qed

theorem expired_in_redis_lives_for_ever_witness:
  "snd (cacheGet_local Some 1000000000 ''k''
      (fst (cacheGet_fill (Some 5) Some 0 (Inr (Some ''v'')) (Inr (- 2)) ''k'' \<lparr>store = [], evictions = 0\<rparr>))) = Some ''v''"
  by (rule expired_in_redis_lives_for_ever) (simp_all add: cache_ok_def)

section \<open>Readiness\<close>

inductive redis_step :: "redis_conn \<Rightarrow> redis_conn \<Rightarrow> bool" where
  use_client: "redis_step r (fst (getRedisClient True connect_ok r))"
| error: "redis_step r (redis_error r)"

definition stuck_unready :: "redis_conn \<Rightarrow> bool" where
  "stuck_unready r = (redisClient r \<and> \<not> redisAvailable r)"

interpretation unready: invariant_system stuck_unready redis_step stuck_unready
  by unfold_locales (auto simp: stuck_unready_def getRedisClient_def redis_error_def elim: redis_step.cases)

text \<open>After one error event of a connected Redis client the cache reports itself unready for
  ever, although every later operation still uses the client: the flag is set only where a
  client is created, and none is created while one exists.\<close>

theorem unready_after_error:
  assumes "redisClient r" "redis_step\<^sup>*\<^sup>* (redis_error r) r'"
  shows "\<not> isCacheReady True r' \<and> cacheBackendType True r' = Memory \<and> snd (getRedisClient True ok r')"
proof -
  have "stuck_unready (redis_error r)" using assms(1) by (simp add: stuck_unready_def redis_error_def)
  from unready.steps_inv [OF this assms(2)] show ?thesis
    by (simp add: stuck_unready_def isCacheReady_def cacheBackendType_def getRedisClient_def)
qed

theorem unready_after_error_witness:
  "let r = fst (getRedisClient True True \<lparr>redisClient = False, redisAvailable = False\<rparr>) in
   isCacheReady True r \<and> \<not> isCacheReady True (fst (getRedisClient True True (redis_error r)))"
proof -
  let ?r = "\<lparr>redisClient = True, redisAvailable = True\<rparr>"
  have "redis_step (redis_error ?r) (fst (getRedisClient True True (redis_error ?r)))"
    by (rule use_client)
  then have "redis_step\<^sup>*\<^sup>* (redis_error ?r) (fst (getRedisClient True True (redis_error ?r)))"
    by (rule r_into_rtranclp)
  from unready_after_error [OF _ this] show ?thesis
    by (simp add: getRedisClient_def isCacheReady_def)
qed

end
