(* ===== verification/Ledger_Repair.thy ===== *)
theory Ledger_Repair
  imports Octra_Prelude
begin

text \<open>
  \<open>src/indexer/reconciliation.ts\<close> and \<open>src/indexer/repair.ts\<close>: finding ledgers that the indexer
  missed, reporting them, and refilling them. The database is seen through the sequence
  columns that the queries use. \<open>processLedgerRange\<close> is imported from a module that the
  repository does not contain, so it is a parameter; what it promises is the hypothesis
  \<open>fills_range\<close>.
\<close>

record ledger_db =
  ledgers :: "int list"
  tx_ledgers :: "int list"
  event_ledgers :: "int list"

section \<open>Gaps for the report\<close>

text \<open>The loop of \<open>findLedgerGaps\<close>: \<open>seq\<close> counts up to \<open>maxLedger\<close>, \<open>gapStart\<close> is the open gap.\<close>

function gap_loop :: "int list \<Rightarrow> int \<Rightarrow> int \<Rightarrow> int option \<Rightarrow> (int \<times> int) list" where
  "gap_loop indexed seq maxLedger gapStart =
     (if seq \<le> maxLedger then
        (if seq \<notin> set indexed then
           gap_loop indexed (seq + 1) maxLedger (case gapStart of None \<Rightarrow> Some seq | Some g \<Rightarrow> Some g)
         else (case gapStart of
                 None \<Rightarrow> gap_loop indexed (seq + 1) maxLedger None
               | Some g \<Rightarrow> (g, seq - 1) # gap_loop indexed (seq + 1) maxLedger None))
      else (case gapStart of None \<Rightarrow> [] | Some g \<Rightarrow> [(g, maxLedger)]))"
  by pat_completeness auto
termination
  by (relation "measure (\<lambda>(indexed, seq, maxLedger, gapStart). nat (maxLedger + 1 - seq))") auto

declare gap_loop.simps [simp del]

definition findLedgerGaps :: "ledger_db \<Rightarrow> int \<Rightarrow> int \<Rightarrow> (int \<times> int) list" where
  "findLedgerGaps db minLedger maxLedger =
     (if maxLedger \<le> minLedger then []
      else gap_loop (filter (\<lambda>s. minLedger \<le> s \<and> s \<le> maxLedger) (ledgers db)) minLedger maxLedger None)"

datatype discrepancy =
    HorizonUnreachable
  | Behind int int int
  | GapsFound nat int int int

record reconciliation_report =
  localLedgerCount :: nat
  localTxCount :: nat
  horizonLatestLedger :: int
  localLatestLedger :: int
  ledgerGap :: int
  missingLedgerRanges :: "(int \<times> int) list"
  discrepancies :: "discrepancy list"
  healthy :: bool

definition MAX_ACCEPTABLE_GAP :: int where
  "MAX_ACCEPTABLE_GAP = 100"

definition total_missing :: "(int \<times> int) list \<Rightarrow> int" where
  "total_missing gaps = foldl (\<lambda>sum (s, e). sum + (e - s + 1)) 0 gaps"

definition latest_ledger :: "ledger_db \<Rightarrow> int" where
  "latest_ledger db = (if ledgers db = [] then 0 else Max (set (ledgers db)))"

text \<open>\<open>horizon\<close> is the answer of Horizon; \<open>None\<close> when the request fails. The second component is
  whether an alert is sent.\<close>

definition runReconciliation :: "int option \<Rightarrow> int \<Rightarrow> ledger_db \<Rightarrow> reconciliation_report \<times> bool" where
  "runReconciliation horizon lookback db =
     (let latest = latest_ledger db;
          hl = (case horizon of None \<Rightarrow> 0 | Some h \<Rightarrow> h);
          d1 = (case horizon of None \<Rightarrow> [HorizonUnreachable] | Some _ \<Rightarrow> []);
          gap = (if hl > 0 then hl - latest else 0);
          d2 = (if gap > MAX_ACCEPTABLE_GAP then [Behind gap latest hl] else []);
          start = max 1 (latest - lookback);
          missing = findLedgerGaps db start latest;
          d3 = (if missing \<noteq> [] then [GapsFound (length missing) (total_missing missing) start latest] else []);
          ds = d1 @ d2 @ d3;
          ok = (ds = [])
      in (\<lparr>localLedgerCount = length (ledgers db), localTxCount = length (tx_ledgers db),
           horizonLatestLedger = hl, localLatestLedger = latest, ledgerGap = gap,
           missingLedgerRanges = missing, discrepancies = ds, healthy = ok\<rparr>, \<not> ok))"

section \<open>Repair\<close>

text \<open>The two raw SQL queries.\<close>

definition findMissingSequences :: "ledger_db \<Rightarrow> int \<Rightarrow> int \<Rightarrow> nat \<Rightarrow> int list" where
  "findMissingSequences db minSeq maxSeq limit =
     take limit (filter (\<lambda>s. s \<notin> set (ledgers db)) [minSeq..maxSeq])"

definition findEmptyLedgers :: "ledger_db \<Rightarrow> nat \<Rightarrow> int list" where
  "findEmptyLedgers db limit =
     take limit (filter (\<lambda>s. s \<notin> set (tx_ledgers db) \<and> s \<notin> set (event_ledgers db)) (sort (ledgers db)))"

text \<open>The grouping loop of \<open>backfill\<close>.\<close>

fun group_ranges :: "int \<Rightarrow> int \<Rightarrow> int list \<Rightarrow> (int \<times> int) list" where
  "group_ranges rangeStart prev [] = [(rangeStart, prev)]"
| "group_ranges rangeStart prev (s # ss) =
     (if s = prev + 1 then group_ranges rangeStart s ss
      else (rangeStart, prev) # group_ranges s s ss)"

definition backfill_ranges :: "int list \<Rightarrow> (int \<times> int) list" where
  "backfill_ranges sequences = (case sequences of [] \<Rightarrow> [] | s # ss \<Rightarrow> group_ranges s s ss)"

text \<open>\<open>process a b db\<close> is the database after \<open>processLedgerRange(a, b)\<close>, whether it returned or
  raised: \<open>backfill\<close> logs the error and goes on.\<close>

definition backfill :: "(int \<Rightarrow> int \<Rightarrow> ledger_db \<Rightarrow> ledger_db) \<Rightarrow> int list \<Rightarrow> ledger_db \<Rightarrow> ledger_db" where
  "backfill process sequences db = fold (\<lambda>(s, e). process s e) (backfill_ranges sequences) db"

record sweep_opts =
  dryRun :: bool
  fromSeq :: "int option"
  toSeq :: "int option"

record sweep_config =
  REPAIR_CHUNK :: nat
  MAX_EMPTY_BATCH :: int

definition bound :: "(int set \<Rightarrow> int) \<Rightarrow> ledger_db \<Rightarrow> int option" where
  "bound f db = (if ledgers db = [] then None else Some (f (set (ledgers db))))"

definition or_else :: "'a option \<Rightarrow> 'a option \<Rightarrow> 'a option" where
  "or_else a b = (case a of None \<Rightarrow> b | Some x \<Rightarrow> Some x)"

definition sweep_window :: "sweep_config \<Rightarrow> sweep_opts \<Rightarrow> ledger_db \<Rightarrow> (int \<times> int) option" where
  "sweep_window cfg opts db =
     (case (or_else (fromSeq opts) (bound Min db), or_else (toSeq opts) (bound Max db)) of
        (Some lo, Some hi) \<Rightarrow>
          Some (lo, if toSeq opts \<noteq> None then hi else min hi (lo + MAX_EMPTY_BATCH cfg * 10))
      | _ \<Rightarrow> None)"

definition runRepairSweep ::
    "(int \<Rightarrow> int \<Rightarrow> ledger_db \<Rightarrow> ledger_db) \<Rightarrow> sweep_config \<Rightarrow> sweep_opts \<Rightarrow> ledger_db \<Rightarrow> ledger_db \<times> nat \<times> nat" where
  "runRepairSweep process cfg opts db =
     (case sweep_window cfg opts db of
        None \<Rightarrow> (db, 0, 0)
      | Some (lo, hi) \<Rightarrow>
          (let missing = findMissingSequences db lo hi (REPAIR_CHUNK cfg);
               db1 = (if missing \<noteq> [] \<and> \<not> dryRun opts then backfill process missing db else db);
               empty = findEmptyLedgers db1 (REPAIR_CHUNK cfg);
               db2 = (if empty \<noteq> [] \<and> \<not> dryRun opts then backfill process empty db1 else db1)
           in (db2, length missing, length empty)))"

text \<open>\<open>startRepairLoop\<close> after \<open>n\<close> rounds: no options.\<close>

definition default_opts :: sweep_opts where
  "default_opts = \<lparr>dryRun = False, fromSeq = None, toSeq = None\<rparr>"

fun repair_rounds ::
    "(int \<Rightarrow> int \<Rightarrow> ledger_db \<Rightarrow> ledger_db) \<Rightarrow> sweep_config \<Rightarrow> nat \<Rightarrow> ledger_db \<Rightarrow> ledger_db" where
  "repair_rounds process cfg 0 db = db"
| "repair_rounds process cfg (Suc n) db =
     repair_rounds process cfg n (fst (runRepairSweep process cfg default_opts db))"

section \<open>The gap report is exact\<close>

definition covered :: "(int \<times> int) list \<Rightarrow> int set" where
  "covered rs = (\<Union>(s, e) \<in> set rs. {s..e})"

lemma covered_simps [simp]:
  "covered [] = {}" "covered ((s, e) # rs) = {s..e} \<union> covered rs"
  by (simp_all add: covered_def)

text \<open>Ranges are non-empty, ascending, and separated by at least one indexed ledger.\<close>

fun separated :: "(int \<times> int) list \<Rightarrow> bool" where
  "separated [] = True"
| "separated [(s, e)] = (s \<le> e)"
| "separated ((s, e) # (s', e') # rs) = (s \<le> e \<and> e + 1 < s' \<and> separated ((s', e') # rs))"

definition opened :: "int option \<Rightarrow> int \<Rightarrow> int set" where
  "opened g seq = (case g of None \<Rightarrow> {} | Some g' \<Rightarrow> {g'..<seq})"

definition open_ok :: "int option \<Rightarrow> int \<Rightarrow> bool" where
  "open_ok g seq = (case g of None \<Rightarrow> True | Some g' \<Rightarrow> g' < seq)"

lemma gap_loop_covered:
  "open_ok g seq \<Longrightarrow> seq \<le> hi + 1 \<Longrightarrow>
    covered (gap_loop indexed seq hi g) = opened g seq \<union> {x \<in> {seq..hi}. x \<notin> set indexed}"
proof (induction indexed seq hi g rule: gap_loop.induct)
  case (1 indexed seq hi g)
  have split: "{x \<in> {seq..hi}. x \<notin> set indexed} =
      (if seq \<in> set indexed then {} else {seq}) \<union> {x \<in> {seq + 1..hi}. x \<notin> set indexed}" if "seq \<le> hi"
  proof -
    have "{seq..hi} = insert seq {seq + 1..hi}" using that by auto
    then show ?thesis by auto
  qed
  show ?case
  proof (cases "seq \<le> hi")
    case False
    then have "seq = hi + 1" using "1.prems" by simp
    then show ?thesis
      by (subst gap_loop.simps) (auto simp: opened_def open_ok_def split: option.splits)
  next
    case True
    show ?thesis
    proof (cases "seq \<in> set indexed")
      case in_set: True
      show ?thesis
      proof (cases g)
        case None
        with "1.IH"(2) [OF True] in_set True split [OF True] show ?thesis
          by (subst gap_loop.simps) (simp add: opened_def open_ok_def)
      next
        case (Some g')
        have "covered (gap_loop indexed (seq + 1) hi None) = {x \<in> {seq + 1..hi}. x \<notin> set indexed}"
          using "1.IH"(3) [OF True _ Some] in_set True by (simp add: opened_def open_ok_def)
        moreover have "{g'..seq - 1} = {g'..<seq}" by auto
        ultimately show ?thesis using Some in_set True split [OF True]
          by (subst gap_loop.simps) (simp add: opened_def)
      qed
    next
      case False
      let ?g = "case g of None \<Rightarrow> Some seq | Some g' \<Rightarrow> Some g'"
      have "open_ok ?g (seq + 1)" using "1.prems"(1) by (simp add: open_ok_def split: option.splits)
      then have "covered (gap_loop indexed (seq + 1) hi ?g) =
          opened ?g (seq + 1) \<union> {x \<in> {seq + 1..hi}. x \<notin> set indexed}"
        using "1.IH"(1) [OF True False] True by simp
      moreover have "opened ?g (seq + 1) = insert seq (opened g seq)"
        using "1.prems"(1) by (auto simp: opened_def open_ok_def split: option.splits)
      ultimately show ?thesis using False True
        using split [OF True] by (subst gap_loop.simps) auto
    qed
  qed
qed

definition first_from :: "int \<Rightarrow> (int \<times> int) list \<Rightarrow> bool" where
  "first_from lo rs = (case rs of [] \<Rightarrow> True | (s, e) # _ \<Rightarrow> lo \<le> s)"

lemma separated_Cons:
  "separated ((s, e) # rs) \<longleftrightarrow> s \<le> e \<and> first_from (e + 2) rs \<and> separated rs"
  by (cases rs) (auto simp: first_from_def)

lemma gap_loop_separated:
  "open_ok g seq \<Longrightarrow> seq \<le> hi + 1 \<Longrightarrow>
    separated (gap_loop indexed seq hi g) \<and>
    first_from (case g of None \<Rightarrow> seq | Some g' \<Rightarrow> g') (gap_loop indexed seq hi g)"
proof (induction indexed seq hi g rule: gap_loop.induct)
  case (1 indexed seq hi g)
  have weaken: "first_from lo rs" if "first_from hi' rs" "lo \<le> hi'" for lo hi' rs
    using that by (auto simp: first_from_def split: list.splits)
  show ?case
  proof (cases "seq \<le> hi")
    case False
    with "1.prems" show ?thesis
      by (subst (1 2) gap_loop.simps) (auto simp: open_ok_def first_from_def split: option.splits)
  next
    case True
    show ?thesis
    proof (cases "seq \<in> set indexed")
      case in_set: True
      show ?thesis
      proof (cases g)
        case None
        with "1.IH"(2) [OF True] in_set True show ?thesis
          by (subst (1 2) gap_loop.simps) (auto simp: open_ok_def elim: weaken)
      next
        case (Some g')
        have "separated (gap_loop indexed (seq + 1) hi None) \<and>
            first_from (seq + 1) (gap_loop indexed (seq + 1) hi None)"
          using "1.IH"(3) [OF True _ Some] in_set True by (simp add: open_ok_def)
        with "1.prems"(1) Some in_set True show ?thesis
          by (subst (1 2) gap_loop.simps) (auto simp: separated_Cons open_ok_def first_from_def [of g'] add.commute)
      qed
    next
      case False
      let ?g = "case g of None \<Rightarrow> Some seq | Some g' \<Rightarrow> Some g'"
      have "open_ok ?g (seq + 1)" using "1.prems"(1) by (simp add: open_ok_def split: option.splits)
      then have "separated (gap_loop indexed (seq + 1) hi ?g) \<and>
          first_from (case ?g of None \<Rightarrow> seq + 1 | Some g' \<Rightarrow> g') (gap_loop indexed (seq + 1) hi ?g)"
        using "1.IH"(1) [OF True False] True by simp
      then show ?thesis using False True
        by (subst (1 2) gap_loop.simps) (auto split: option.splits)
    qed
  qed
qed

lemma gaps_exact:
  assumes "minLedger < maxLedger"
  shows "covered (findLedgerGaps db minLedger maxLedger) = {minLedger..maxLedger} - set (ledgers db) \<and>
    separated (findLedgerGaps db minLedger maxLedger)"
proof -
  let ?ix = "filter (\<lambda>s. minLedger \<le> s \<and> s \<le> maxLedger) (ledgers db)"
  have ok: "open_ok None minLedger" and le: "minLedger \<le> maxLedger + 1"
    using assms by (simp_all add: open_ok_def)
  have "findLedgerGaps db minLedger maxLedger = gap_loop ?ix minLedger maxLedger None"
    using assms by (simp add: findLedgerGaps_def)
  moreover have "{x \<in> {minLedger..maxLedger}. x \<notin> set ?ix} = {minLedger..maxLedger} - set (ledgers db)"
    by auto
  ultimately show ?thesis
    using gap_loop_covered [OF ok le, of ?ix] gap_loop_separated [OF ok le, of ?ix]
    by (simp only: opened_def option.case Un_empty_left)
qed

text \<open>C22: The gap report is exact: the reported ranges cover precisely the ledgers of the window that
  are not indexed, each range is non-empty, they ascend, and two of them are separated by an
  indexed ledger, so every range is maximal.\<close>

theorem findLedgerGaps_exact:
  assumes "minLedger < maxLedger"
  shows "covered (findLedgerGaps db minLedger maxLedger) = {minLedger..maxLedger} - set (ledgers db) \<and>
    separated (findLedgerGaps db minLedger maxLedger)"
  using assms by (rule gaps_exact)

definition gap_demo :: ledger_db where
  "gap_demo = \<lparr>ledgers = [1, 2, 5, 9], tx_ledgers = [], event_ledgers = []\<rparr>"

lemma gap_demo_gaps: "findLedgerGaps gap_demo 1 10 = [(3, 4), (6, 8), (10, 10)]"
  by (simp add: findLedgerGaps_def gap_demo_def gap_loop.simps)

theorem findLedgerGaps_exact_witness:
  "findLedgerGaps gap_demo 1 10 = [(3, 4), (6, 8), (10, 10)] \<and>
   covered (findLedgerGaps gap_demo 1 10) = {1..10} - {1, 2, 5, 9}"
  using findLedgerGaps_exact [of 1 10 gap_demo] gap_demo_gaps by (simp add: gap_demo_def)

lemma total_missing_card:
  "separated rs \<Longrightarrow> total_missing rs = int (card (covered rs))"
proof -
  have acc: "foldl (\<lambda>sum (s, e). sum + (e - s + 1)) a rs = a + (\<Sum>(s, e) \<leftarrow> rs. e - s + 1)" for a rs
    by (induction rs arbitrary: a) (auto simp: algebra_simps)
  have above: "first_from lo rs \<Longrightarrow> separated rs \<Longrightarrow> covered rs \<subseteq> {lo..}" for lo rs
  proof (induction rs arbitrary: lo)
    case (Cons r rs)
    then obtain s e where r: "r = (s, e)" "lo \<le> s" "s \<le> e" "first_from (e + 2) rs" "separated rs"
      by (cases r) (auto simp: separated_Cons first_from_def [of lo])
    with Cons.IH [of "e + 2"] show ?case by auto
  qed simp
  have fin: "finite (covered rs)" for rs by (induction rs) auto
  have "separated rs \<Longrightarrow> (\<Sum>(s, e) \<leftarrow> rs. e - s + 1) = int (card (covered rs))"
  proof (induction rs)
    case (Cons r rs)
    then obtain s e where r: "r = (s, e)" "s \<le> e" "first_from (e + 2) rs" "separated rs"
      by (cases r) (auto simp: separated_Cons)
    have "{s..e} \<inter> covered rs = {}" using above [OF r(3,4)] by auto
    then have "card (covered (r # rs)) = card {s..e} + card (covered rs)"
      by (simp add: r card_Un_disjoint fin)
    then show ?case using Cons.IH r by simp
  qed simp
  then show "separated rs \<Longrightarrow> total_missing rs = int (card (covered rs))"
    by (simp add: total_missing_def acc)
qed

lemma latest_ledger_in: "ledgers db \<noteq> [] \<Longrightarrow> latest_ledger db \<in> set (ledgers db)"
  by (simp add: latest_ledger_def)

text \<open>A reconciliation reports healthy, and stays silent, exactly when Horizon answered, the
  indexer is at most 100 ledgers behind it, and no ledger between the start of the lookback
  window and the newest indexed ledger is missing.\<close>

theorem reconciliation_healthy_iff:
  assumes "\<forall>s \<in> set (ledgers db). 1 \<le> s" "0 \<le> lookback"
  shows "let (rep, alerted) = runReconciliation horizon lookback db; latest = latest_ledger db in
    healthy rep = (\<not> alerted) \<and>
    healthy rep = ((\<exists>h. horizon = Some h \<and> (h \<le> 0 \<or> h - latest \<le> 100)) \<and>
      {max 1 (latest - lookback)..latest} \<subseteq> set (ledgers db))"
proof -
  let ?latest = "latest_ledger db" and ?start = "max 1 (latest_ledger db - lookback)"
  have "findLedgerGaps db ?start ?latest = [] \<longleftrightarrow> {?start..?latest} \<subseteq> set (ledgers db)"
  proof (cases "?start < ?latest")
    case True
    note gaps_exact [OF True, of db]
    moreover have "rs = [] \<longleftrightarrow> covered rs = {}" if "separated rs" for rs
      using that by (cases rs) (auto simp: separated_Cons)
    ultimately show ?thesis by auto
  next
    case False
    then have "?latest \<le> ?start" by linarith
    then have "findLedgerGaps db ?start ?latest = []" by (simp only: findLedgerGaps_def if_True)
    moreover have "{?start..?latest} \<subseteq> set (ledgers db)"
    proof (cases "ledgers db = []")
      case True
      then show ?thesis by (simp add: latest_ledger_def)
    next
      case nonempty: False
      then have "1 \<le> ?latest" using assms(1) latest_ledger_in by blast
      with False assms(2) have "{?start..?latest} \<subseteq> {?latest}" by auto
      then show ?thesis using latest_ledger_in [OF nonempty] by auto
    qed
    ultimately show ?thesis by simp
  qed
  then show ?thesis
    by (auto simp: runReconciliation_def Let_def MAX_ACCEPTABLE_GAP_def split: option.splits)
qed

theorem reconciliation_healthy_iff_witness:
  "let (rep, alerted) = runReconciliation (Some 50) 100 gap_demo in
    \<not> healthy rep \<and> alerted \<and> missingLedgerRanges rep = [(3, 4), (6, 8)]"
proof -
  have "latest_ledger gap_demo = 9" by (simp add: latest_ledger_def gap_demo_def)
  moreover have "findLedgerGaps gap_demo 1 9 = [(3, 4), (6, 8)]"
    by (simp add: findLedgerGaps_def gap_demo_def gap_loop.simps)
  moreover have "3 \<in> {1..9::int}" "3 \<notin> set (ledgers gap_demo)" by (simp_all add: gap_demo_def)
  then have "\<not> {1..9} \<subseteq> set (ledgers gap_demo)" by blast
  ultimately show ?thesis
    using reconciliation_healthy_iff [of gap_demo 100 "Some 50"]
    by (simp add: gap_demo_def [THEN arg_cong, of ledgers] Let_def runReconciliation_def MAX_ACCEPTABLE_GAP_def)
qed

section \<open>Backfilling in contiguous ranges\<close>

definition enumerate_ranges :: "(int \<times> int) list \<Rightarrow> int list" where
  "enumerate_ranges rs = concat (map (\<lambda>(s, e). [s..e]) rs)"

lemma upto_snoc: "a \<le> p + 1 \<Longrightarrow> [a..p + 1] = [a..p] @ [p + 1]"
  using upto_rec2 [of a "p + 1"] by simp

lemma group_ranges_enum: "a \<le> p \<Longrightarrow> enumerate_ranges (group_ranges a p ss) = [a..p] @ ss"
  by (induction a p ss rule: group_ranges.induct)
    (auto simp: enumerate_ranges_def upto_snoc)

fun unmergeable :: "(int \<times> int) list \<Rightarrow> bool" where
  "unmergeable ((s, e) # (s', e') # rs) = (s' \<noteq> e + 1 \<and> unmergeable ((s', e') # rs))"
| "unmergeable _ = True"

lemma group_ranges_hd: "\<exists>e rs. group_ranges a p ss = (a, e) # rs"
  by (induction a p ss rule: group_ranges.induct) auto

lemma group_ranges_unmergeable: "unmergeable (group_ranges a p ss)"
proof (induction a p ss rule: group_ranges.induct)
  case (2 a p s ss)
  then show ?case using group_ranges_hd [of s s ss] by auto
qed simp

text \<open>Grouping loses and invents nothing: the ranges handed to \<open>processLedgerRange\<close>, written out
  one after the other, are exactly the given sequences, and no two neighbouring ranges could
  have been one.\<close>

theorem backfill_ranges_exact:
  "enumerate_ranges (backfill_ranges ss) = ss \<and> unmergeable (backfill_ranges ss)"
proof (cases ss)
  case Nil
  then show ?thesis by (simp add: backfill_ranges_def enumerate_ranges_def)
next
  case (Cons a as)
  then show ?thesis
    using group_ranges_enum [of a a as] group_ranges_unmergeable [of a a as] by (simp add: backfill_ranges_def)
qed

section \<open>What the repair loop achieves\<close>

text \<open>The promise of \<open>processLedgerRange\<close>: afterwards the rows of the range exist, the others are as
  before.\<close>

definition fills_range :: "(int \<Rightarrow> int \<Rightarrow> ledger_db \<Rightarrow> ledger_db) \<Rightarrow> bool" where
  "fills_range process =
     (\<forall>a b db. set (ledgers (process a b db)) = set (ledgers db) \<union> {a..b})"

lemma backfill_adds:
  assumes "fills_range process"
  shows "set (ledgers (backfill process ss db)) = set (ledgers db) \<union> set ss"
proof -
  have "set (ledgers (fold (\<lambda>(s, e). process s e) rs db)) = set (ledgers db) \<union> set (enumerate_ranges rs)" for rs
    using assms
    by (induction rs arbitrary: db) (auto simp: fills_range_def enumerate_ranges_def)
  moreover have "enumerate_ranges (backfill_ranges ss) = ss"
    by (cases ss) (simp_all add: backfill_ranges_def group_ranges_enum, simp add: enumerate_ranges_def)
  ultimately show ?thesis by (simp add: backfill_def)
qed

lemma filter_drop_taken: "distinct xs \<Longrightarrow> filter (\<lambda>x. x \<notin> set (take c xs)) xs = drop c xs"
proof (induction xs arbitrary: c)
  case (Cons x xs)
  show ?case
  proof (cases c)
    case 0
    then show ?thesis by simp
  next
    case (Suc d)
    have "filter (\<lambda>y. y \<noteq> x \<and> y \<notin> set (take d xs)) xs = filter (\<lambda>y. y \<notin> set (take d xs)) xs"
      using Cons.prems by (intro filter_cong) auto
    with Cons Suc show ?thesis by (simp add: conj_commute)
  qed
qed simp

definition default_window :: "sweep_config \<Rightarrow> ledger_db \<Rightarrow> int \<times> int" where
  "default_window cfg db = (let lo = Min (set (ledgers db)) in
     (lo, min (Max (set (ledgers db))) (lo + MAX_EMPTY_BATCH cfg * 10)))"

definition window_missing :: "sweep_config \<Rightarrow> ledger_db \<Rightarrow> int list" where
  "window_missing cfg db = (case default_window cfg db of (lo, hi) \<Rightarrow>
     filter (\<lambda>s. s \<notin> set (ledgers db)) [lo..hi])"

text \<open>One sweep adds the first chunk of missing sequences, whatever the empty rows were.\<close>

lemma sweep_adds:
  assumes "fills_range process" "ledgers db \<noteq> []"
  shows "set (ledgers (fst (runRepairSweep process cfg default_opts db))) =
    set (ledgers db) \<union> set (take (REPAIR_CHUNK cfg) (window_missing cfg db))"
proof -
  let ?M = "take (REPAIR_CHUNK cfg) (window_missing cfg db)"
  have win: "sweep_window cfg default_opts db = Some (default_window cfg db)"
    using assms(2)
    by (simp add: sweep_window_def default_opts_def or_else_def bound_def default_window_def Let_def)
  have missing: "findMissingSequences db lo hi (REPAIR_CHUNK cfg) = ?M"
    if "default_window cfg db = (lo, hi)" for lo hi
    using that by (simp add: findMissingSequences_def window_missing_def)
  have live: "\<not> dryRun default_opts" by (simp add: default_opts_def)
  have emp: "set (findEmptyLedgers d c) \<subseteq> set (ledgers d)" for d c
    by (auto simp: findEmptyLedgers_def dest: in_set_takeD)
  have nil: "(if xs \<noteq> [] then backfill process xs d else d) = backfill process xs d" for xs d
    by (cases xs) (simp_all add: backfill_def backfill_ranges_def)
  define d1 where "d1 = backfill process ?M db"
  have "fst (runRepairSweep process cfg default_opts db) =
      backfill process (findEmptyLedgers d1 (REPAIR_CHUNK cfg)) d1"
    by (cases "default_window cfg db")
      (simp only: runRepairSweep_def win missing Let_def live d1_def option.case prod.case nil
        not_False_eq_True conj_absorb simp_thms fst_conv)
  moreover have "set (ledgers d1) = set (ledgers db) \<union> set ?M"
    by (simp add: d1_def backfill_adds [OF assms(1)])
  ultimately show ?thesis
    using emp [of d1 "REPAIR_CHUNK cfg"] by (auto simp: backfill_adds [OF assms(1)])
qed

lemma window_stable:
  assumes "set (ledgers db') = set (ledgers db) \<union> A" "A \<subseteq> set (window_missing cfg db)" "ledgers db \<noteq> []"
  shows "default_window cfg db' = default_window cfg db"
proof -
  let ?S = "set (ledgers db)"
  have in_window: "x \<in> A \<Longrightarrow> Min ?S \<le> x \<and> x \<le> Max ?S" for x
    using assms(2) by (auto simp: window_missing_def default_window_def Let_def)
  have fin: "finite (?S \<union> A)" by (simp flip: assms(1))
  have ne: "?S \<noteq> {}" using assms(3) by simp
  have "Min (?S \<union> A) = Min ?S"
    by (rule Min_eqI) (use fin ne in_window in \<open>auto intro: Min_in\<close>)
  moreover have "Max (?S \<union> A) = Max ?S"
    by (rule Max_eqI) (use fin ne in_window in \<open>auto intro: Max_in\<close>)
  ultimately show ?thesis by (simp add: default_window_def assms(1))
qed

lemma rounds_add:
  assumes "fills_range process"
  shows "ledgers db \<noteq> [] \<Longrightarrow> set (ledgers (repair_rounds process cfg n db)) =
    set (ledgers db) \<union> set (take (n * REPAIR_CHUNK cfg) (window_missing cfg db))"
proof (induction n arbitrary: db)
  case (Suc n)
  let ?c = "REPAIR_CHUNK cfg" and ?M = "window_missing cfg db"
  let ?db = "fst (runRepairSweep process cfg default_opts db)"
  have one: "set (ledgers ?db) = set (ledgers db) \<union> set (take ?c ?M)" by (rule sweep_adds [OF assms Suc.prems])
  then have ne: "ledgers ?db \<noteq> []" using Suc.prems by auto
  have "default_window cfg ?db = default_window cfg db"
    by (rule window_stable [OF one _ Suc.prems]) (auto dest: in_set_takeD)
  then have "window_missing cfg ?db = filter (\<lambda>x. x \<notin> set (take ?c ?M)) ?M"
    by (auto simp: window_missing_def one case_prod_beta intro!: filter_cong)
  also have "\<dots> = drop ?c ?M"
    by (rule filter_drop_taken) (simp add: window_missing_def split: prod.split)
  finally have "set (take (n * ?c) (window_missing cfg ?db)) = set (take (n * ?c) (drop ?c ?M))" by simp
  moreover have "set (take (Suc n * ?c) ?M) = set (take ?c ?M) \<union> set (take (n * ?c) (drop ?c ?M))"
    by (simp add: take_add)
  ultimately show ?case using Suc.IH [OF ne] one by auto
qed simp

text \<open>If \<open>processLedgerRange\<close> keeps its promise, the repair loop fills its window completely: after
  enough rounds the indexed ledgers are the old ones together with every ledger from the
  oldest one up to ten batches further on (or to the newest one), and nothing else.\<close>

theorem repair_loop_fills_window:
  assumes "fills_range process" "ledgers db \<noteq> []"
    and "length (window_missing cfg db) \<le> n * REPAIR_CHUNK cfg"
  shows "set (ledgers (repair_rounds process cfg n db)) = set (ledgers db) \<union>
    {Min (set (ledgers db))..min (Max (set (ledgers db))) (Min (set (ledgers db)) + MAX_EMPTY_BATCH cfg * 10)}"
proof -
  have "take (n * REPAIR_CHUNK cfg) (window_missing cfg db) = window_missing cfg db"
    by (rule take_all [OF assms(3)])
  moreover have "set (window_missing cfg db) = {fst (default_window cfg db)..snd (default_window cfg db)} -
      set (ledgers db)"
    by (auto simp: window_missing_def case_prod_beta)
  ultimately have "set (ledgers (repair_rounds process cfg n db)) =
      set (ledgers db) \<union> {fst (default_window cfg db)..snd (default_window cfg db)}"
    by (simp only: rounds_add [OF assms(1,2)]) blast
  then show ?thesis by (simp only: default_window_def Let_def fst_conv snd_conv)
qed

text \<open>An ideal archive: the range is inserted row by row.\<close>

definition ideal_process :: "int \<Rightarrow> int \<Rightarrow> ledger_db \<Rightarrow> ledger_db" where
  "ideal_process a b db = db\<lparr>ledgers := ledgers db @ filter (\<lambda>s. s \<notin> set (ledgers db)) [a..b]\<rparr>"

lemma ideal_fills: "fills_range ideal_process"
  by (auto simp: fills_range_def ideal_process_def)

definition small_cfg :: sweep_config where
  "small_cfg = \<lparr>REPAIR_CHUNK = 2, MAX_EMPTY_BATCH = 1\<rparr>"

theorem repair_loop_fills_window_witness:
  "set (ledgers (repair_rounds ideal_process small_cfg 3 gap_demo)) = {1..9}"
proof -
  have "[1..9::int] = 1 # [2..9]" by (subst upto_rec1) simp_all
  then have "window_missing small_cfg gap_demo = [3, 4, 6, 7, 8]"
    by (simp add: window_missing_def default_window_def small_cfg_def gap_demo_def Let_def)
  then have "set (ledgers (repair_rounds ideal_process small_cfg 3 gap_demo)) = set (ledgers gap_demo) \<union> {1..9}"
    using repair_loop_fills_window [OF ideal_fills, of gap_demo small_cfg 3]
    by (simp add: small_cfg_def gap_demo_def)
  then show ?thesis by (auto simp: gap_demo_def)
qed

text \<open>A gap more than ten batches above the oldest indexed ledger is never repaired, however long
  the loop runs and however well the archive answers: the window always starts at the oldest
  row, although the command line announces a sweep over the full indexed range.\<close>

theorem far_gap_never_repaired:
  assumes "fills_range process" "ledgers db \<noteq> []"
    and "x \<notin> set (ledgers db)" "Min (set (ledgers db)) + MAX_EMPTY_BATCH cfg * 10 < x"
  shows "x \<notin> set (ledgers (repair_rounds process cfg n db))"
proof -
  have "x \<notin> set (window_missing cfg db)"
    using assms(4) by (simp add: window_missing_def default_window_def Let_def)
  then have "x \<notin> set (take (n * REPAIR_CHUNK cfg) (window_missing cfg db))"
    by (blast dest: in_set_takeD)
  then show ?thesis using assms(3) by (simp only: rounds_add [OF assms(1,2)]) blast
qed

theorem far_gap_never_repaired_witness:
  "15 \<notin> set (ledgers (repair_rounds ideal_process small_cfg 1000 \<lparr>ledgers = [1, 20], tx_ledgers = [], event_ledgers = []\<rparr>))"
  by (rule far_gap_never_repaired [OF ideal_fills]) (simp_all add: small_cfg_def)

end
