(* ===== verification/Dfs_Cycles.thy ===== *)
theory Dfs_Cycles
  imports Octra_Prelude
begin

text \<open>
  The depth-first search that \<open>src/indexer/reentrancy-fortress/call-graph.ts\<close> writes twice, as
  the inner function \<open>dfs\<close> of \<open>findCycles\<close> and of \<open>findContractCycles\<close>: it reports the part of
  the current path that a back edge closes. The recursion runs on fuel, its depth; the number
  of nodes is enough, so the search always returns. It reports nothing exactly when the graph
  has no cycle.
\<close>

section \<open>The search\<close>

record 'n dfs =
  visited :: "'n list"
  recStack :: "'n list"
  path :: "'n list"
  cycles :: "'n list list"

type_synonym 'n adjacency = "('n, 'n list) jsmap"

definition neighbours :: "'n adjacency \<Rightarrow> 'n \<Rightarrow> 'n list" where
  "neighbours adj v = (case jm_get adj v of None \<Rightarrow> [] | Some ws \<Rightarrow> ws)"

definition enter :: "'n \<Rightarrow> 'n dfs \<Rightarrow> 'n dfs" where
  "enter v st = st\<lparr>visited := js_add v (visited st), recStack := js_add v (recStack st),
     path := path st @ [v]\<rparr>"

definition leave :: "'n \<Rightarrow> 'n dfs \<Rightarrow> 'n dfs" where
  "leave v st = st\<lparr>path := butlast (path st), recStack := filter (\<lambda>x. x \<noteq> v) (recStack st)\<rparr>"

text \<open>\<open>path.slice(path.indexOf(neighbor))\<close>\<close>

definition close_cycle :: "'n \<Rightarrow> 'n dfs \<Rightarrow> 'n dfs" where
  "close_cycle w st = st\<lparr>cycles := cycles st @ [dropWhile (\<lambda>x. x \<noteq> w) (path st)]\<rparr>"

fun dfs_visit :: "nat \<Rightarrow> 'n adjacency \<Rightarrow> 'n \<Rightarrow> 'n dfs \<Rightarrow> 'n dfs option"
  and dfs_each :: "nat \<Rightarrow> 'n adjacency \<Rightarrow> 'n list \<Rightarrow> 'n dfs \<Rightarrow> 'n dfs option" where
  "dfs_visit 0 adj v st = None"
| "dfs_visit (Suc n) adj v st = map_option (leave v) (dfs_each n adj (neighbours adj v) (enter v st))"
| "dfs_each n adj [] st = Some st"
| "dfs_each n adj (w # ws) st =
     (if w \<notin> set (visited st) then
        (case dfs_visit n adj w st of None \<Rightarrow> None | Some st' \<Rightarrow> dfs_each n adj ws st')
      else if w \<in> set (recStack st) then dfs_each n adj ws (close_cycle w st)
      else dfs_each n adj ws st)"

fun dfs_roots :: "nat \<Rightarrow> 'n adjacency \<Rightarrow> 'n list \<Rightarrow> 'n dfs \<Rightarrow> 'n dfs option" where
  "dfs_roots n adj [] st = Some st"
| "dfs_roots n adj (v # vs) st =
     (if v \<notin> set (visited st) then
        (case dfs_visit n adj v st of None \<Rightarrow> None | Some st' \<Rightarrow> dfs_roots n adj vs st')
      else dfs_roots n adj vs st)"

definition dfs_start :: "'n dfs" where
  "dfs_start = \<lparr>visited = [], recStack = [], path = [], cycles = []\<rparr>"

definition nodes_of :: "'n adjacency \<Rightarrow> 'n set" where
  "nodes_of adj = set (jm_keys adj) \<union> (\<Union>v \<in> set (jm_keys adj). set (neighbours adj v))"

definition cycles_with_fuel :: "nat \<Rightarrow> 'n adjacency \<Rightarrow> 'n list list option" where
  "cycles_with_fuel n adj = map_option cycles (dfs_roots n adj (jm_keys adj) dfs_start)"

text \<open>Enough fuel: the number of mentioned nodes.\<close>

definition dfs_fuel :: "'n adjacency \<Rightarrow> nat" where
  "dfs_fuel adj = length (jm_keys adj) + length (concat (map snd adj))"

definition cycles_of :: "'n adjacency \<Rightarrow> 'n list list" where
  "cycles_of adj = (case cycles_with_fuel (dfs_fuel adj) adj of None \<Rightarrow> [] | Some cs \<Rightarrow> cs)"

section \<open>The search returns\<close>

lemma visited_update [simp]:
  "visited (leave v st) = visited st" "visited (close_cycle w st) = visited st"
  "set (visited (enter v st)) = insert v (set (visited st))"
  by (simp_all add: leave_def close_cycle_def enter_def)

lemma visit_grows:
  "dfs_visit n adj v st = Some st' \<Longrightarrow> insert v (set (visited st)) \<subseteq> set (visited st')"
  "dfs_each n adj ws st = Some st' \<Longrightarrow> set ws \<union> set (visited st) \<subseteq> set (visited st')"
proof (induction n adj v st and n adj ws st arbitrary: st' and st' rule: dfs_visit_dfs_each.induct)
  case (2 n adj v st)
  then show ?case by fastforce
next
  case (4 n adj w ws st)
  then show ?case by (fastforce split: if_splits option.splits)
qed auto

lemma visit_returns:
  assumes N: "finite N" "\<And>v. v \<in> N \<Longrightarrow> set (neighbours adj v) \<subseteq> N"
  shows "v \<in> N - set (visited st) \<Longrightarrow> card (N - set (visited st)) \<le> n \<Longrightarrow> dfs_visit n adj v st \<noteq> None"
    and "set ws \<subseteq> N \<Longrightarrow> card (N - set (visited st)) \<le> n \<Longrightarrow> dfs_each n adj ws st \<noteq> None"
  using N
proof (induction n adj v st and n adj ws st rule: dfs_visit_dfs_each.induct)
  case (1 adj v st)
  then have "N - set (visited st) \<noteq> {}" "finite (N - set (visited st))" by auto
  then have "card (N - set (visited st)) \<noteq> 0" by simp
  with 1 show ?case by simp
next
  case (2 n adj v st)
  have "N - insert v (set (visited st)) = (N - set (visited st)) - {v}" by auto
  then have "card (N - insert v (set (visited st))) \<le> n"
    using "2.prems" by (simp add: card_Diff_singleton)
  with 2 show ?case by simp
next
  case (4 n adj w ws st)
  show ?case
  proof (cases "w \<in> set (visited st)")
    case True
    with 4 show ?thesis by auto
  next
    case False
    then obtain st1 where st1: "dfs_visit n adj w st = Some st1" using 4 by auto
    have "set (visited st) \<subseteq> set (visited st1)" using visit_grows(1) [OF st1] by auto
    then have "card (N - set (visited st1)) \<le> card (N - set (visited st))"
      using 4 by (intro card_mono) auto
    then show ?thesis using 4 False st1 by auto
  qed
qed auto

lemma roots_return:
  assumes N: "finite N" "\<And>v. v \<in> N \<Longrightarrow> set (neighbours adj v) \<subseteq> N"
  shows "set vs \<subseteq> N \<Longrightarrow> card N \<le> n \<Longrightarrow> \<exists>st'. dfs_roots n adj vs st = Some st' \<and> set vs \<subseteq> set (visited st') \<and>
    set (visited st) \<subseteq> set (visited st')"
proof (induction vs arbitrary: st)
  case (Cons v vs)
  have le: "card (N - set (visited st)) \<le> n" using Cons.prems N(1)
    by (meson Diff_subset card_mono le_trans)
  show ?case
  proof (cases "v \<in> set (visited st)")
    case True
    then show ?thesis using Cons.IH [of st] Cons.prems by auto
  next
    case False
    then obtain st1 where st1: "dfs_visit n adj v st = Some st1"
      using visit_returns(1) [OF N, of v st n] Cons.prems le by auto
    from Cons.IH [of st1] Cons.prems obtain st' where "dfs_roots n adj vs st1 = Some st'"
      "set vs \<subseteq> set (visited st')" "set (visited st1) \<subseteq> set (visited st')" by auto
    then show ?thesis using visit_grows(1) [OF st1] False st1 by auto
  qed
qed simp

lemma neighbours_absent: "v \<notin> set (jm_keys adj) \<Longrightarrow> neighbours adj v = []"
  by (simp add: neighbours_def jm_keys_def jm_get_def map_of_eq_None_iff split: option.splits)
    (simp add: map_of_eq_None_iff [THEN iffD2])

lemma nodes_closed: "v \<in> nodes_of adj \<Longrightarrow> set (neighbours adj v) \<subseteq> nodes_of adj"
  by (cases "v \<in> set (jm_keys adj)") (auto simp: nodes_of_def neighbours_absent)

lemma nodes_finite: "finite (nodes_of adj)"
  by (simp add: nodes_of_def)

lemma nodes_card: "card (nodes_of adj) \<le> dfs_fuel adj"
proof -
  have "nodes_of adj \<subseteq> set (jm_keys adj @ concat (map snd adj))"
  proof
    fix x assume "x \<in> nodes_of adj"
    then consider "x \<in> set (jm_keys adj)" | v where "x \<in> set (neighbours adj v)"
      by (auto simp: nodes_of_def)
    then show "x \<in> set (jm_keys adj @ concat (map snd adj))"
    proof cases
      case 2
      then obtain ws where "jm_get adj v = Some ws" "x \<in> set ws"
        by (cases "jm_get adj v") (auto simp: neighbours_def)
      then have "(v, ws) \<in> set adj" by (simp add: jm_get_in_set)
      with \<open>x \<in> set ws\<close> have "x \<in> set (concat (map snd adj))" by force
      then show ?thesis by simp
    qed simp
  qed
  then have "card (nodes_of adj) \<le> card (set (jm_keys adj @ concat (map snd adj)))"
    by (intro card_mono) auto
  also have "\<dots> \<le> length (jm_keys adj @ concat (map snd adj))" by (rule card_length)
  finally show ?thesis by (simp add: dfs_fuel_def)
qed

lemma search_returns:
  "\<exists>st. dfs_roots (dfs_fuel adj) adj (jm_keys adj) dfs_start = Some st \<and> set (jm_keys adj) \<subseteq> set (visited st)"
  using roots_return [OF nodes_finite nodes_closed, of adj "jm_keys adj" "dfs_fuel adj" dfs_start] nodes_card
  by (auto simp: nodes_of_def)

section \<open>The search is right\<close>

definition edge_rel :: "'n adjacency \<Rightarrow> ('n \<times> 'n) set" where
  "edge_rel adj = {(a, b). b \<in> set (neighbours adj a)}"

definition closed_walk :: "'n adjacency \<Rightarrow> 'n list \<Rightarrow> bool" where
  "closed_walk adj c = (c \<noteq> [] \<and> successively (\<lambda>a b. b \<in> set (neighbours adj a)) c \<and>
     hd c \<in> set (neighbours adj (last c)))"

definition dfs_inv :: "'n adjacency \<Rightarrow> 'n dfs \<Rightarrow> bool" where
  "dfs_inv adj st = (distinct (path st) \<and> set (recStack st) = set (path st) \<and>
     set (path st) \<subseteq> set (visited st) \<and> successively (\<lambda>a b. b \<in> set (neighbours adj a)) (path st) \<and>
     (\<forall>c \<in> set (cycles st). closed_walk adj c \<and> distinct c))"

text \<open>Finished nodes in the order of finishing, latest first: neighbours finish earlier.\<close>

fun finish_order :: "'n adjacency \<Rightarrow> 'n list \<Rightarrow> bool" where
  "finish_order adj [] = True"
| "finish_order adj (v # ord) = (set (neighbours adj v) \<subseteq> set ord \<and> v \<notin> set ord \<and> finish_order adj ord)"

definition finished :: "'n dfs \<Rightarrow> 'n set" where
  "finished st = set (visited st) - set (path st)"

definition ordered :: "'n adjacency \<Rightarrow> 'n dfs \<Rightarrow> bool" where
  "ordered adj st = (\<exists>ord. finish_order adj ord \<and> set ord = finished st)"

lemma dropWhile_successively:
  "successively P xs \<Longrightarrow> successively P (dropWhile Q xs)"
  by (induction xs) (auto simp: successively_Cons)

lemma dropWhile_to:
  "w \<in> set xs \<Longrightarrow> dropWhile (\<lambda>x. x \<noteq> w) xs \<noteq> [] \<and> hd (dropWhile (\<lambda>x. x \<noteq> w) xs) = w \<and>
    last (dropWhile (\<lambda>x. x \<noteq> w) xs) = last xs"
  by (induction xs) auto

lemma inv_enter:
  assumes "dfs_inv adj st" "v \<notin> set (visited st)" "path st \<noteq> [] \<longrightarrow> v \<in> set (neighbours adj (last (path st)))"
  shows "dfs_inv adj (enter v st) \<and> path (enter v st) = path st @ [v] \<and>
    finished (enter v st) = finished st \<and> cycles (enter v st) = cycles st"
  using assms by (auto simp: dfs_inv_def enter_def finished_def successively_append_iff)

lemma inv_leave:
  assumes "dfs_inv adj st" "path st = p @ [v]"
  shows "dfs_inv adj (leave v st) \<and> path (leave v st) = p \<and>
    finished (leave v st) = insert v (finished st) \<and> cycles (leave v st) = cycles st"
  using assms by (auto simp: dfs_inv_def leave_def finished_def successively_append_iff)

lemma inv_close:
  assumes "dfs_inv adj st" "path st \<noteq> []" "w \<in> set (neighbours adj (last (path st)))" "w \<in> set (recStack st)"
  shows "dfs_inv adj (close_cycle w st) \<and> path (close_cycle w st) = path st \<and> cycles (close_cycle w st) \<noteq> []"
  using assms dropWhile_to [of w "path st"]
  by (auto simp: dfs_inv_def close_cycle_def closed_walk_def dropWhile_successively distinct_dropWhile)

lemma visit_correct:
  "dfs_visit n adj v st = Some st' \<Longrightarrow> dfs_inv adj st \<Longrightarrow> v \<notin> set (visited st) \<Longrightarrow>
    path st \<noteq> [] \<longrightarrow> v \<in> set (neighbours adj (last (path st))) \<Longrightarrow>
    dfs_inv adj st' \<and> path st' = path st \<and>
    (cycles st' = [] \<longrightarrow> cycles st = [] \<and> v \<in> finished st' \<and> finished st \<subseteq> finished st' \<and>
      (ordered adj st \<longrightarrow> ordered adj st'))"
  "dfs_each n adj ws st = Some st' \<Longrightarrow> dfs_inv adj st \<Longrightarrow> path st \<noteq> [] \<Longrightarrow>
    set ws \<subseteq> set (neighbours adj (last (path st))) \<Longrightarrow>
    dfs_inv adj st' \<and> path st' = path st \<and>
    (cycles st' = [] \<longrightarrow> cycles st = [] \<and> set ws \<subseteq> finished st' \<and> finished st \<subseteq> finished st' \<and>
      (ordered adj st \<longrightarrow> ordered adj st'))"
proof (induction n adj v st and n adj ws st arbitrary: st' and st' rule: dfs_visit_dfs_each.induct)
  case (2 n adj v st)
  note E = inv_enter [OF "2.prems"(2-4)]
  obtain st1 where st1: "dfs_each n adj (neighbours adj v) (enter v st) = Some st1" "st' = leave v st1"
    using "2.prems"(1) by auto
  have I: "dfs_inv adj st1 \<and> path st1 = path st @ [v] \<and>
    (cycles st1 = [] \<longrightarrow> cycles st = [] \<and> set (neighbours adj v) \<subseteq> finished st1 \<and>
      finished st \<subseteq> finished st1 \<and> (ordered adj st \<longrightarrow> ordered adj st1))"
    using "2.IH" [OF st1(1)] E by (simp add: ordered_def)
  note L = inv_leave [of adj st1 "path st" v]
  have "ordered adj st'" if "cycles st' = []" "ordered adj st"
  proof -
    have "cycles st1 = []" using that(1) I L st1(2) by simp
    with I that(2) obtain ord where ord: "finish_order adj ord" "set ord = finished st1"
      "set (neighbours adj v) \<subseteq> finished st1"
      by (auto simp: ordered_def)
    moreover have "v \<notin> finished st1" using I by (simp add: finished_def)
    ultimately have "finish_order adj (v # ord)" "set (v # ord) = finished st'"
      using I L st1(2) by auto
    then show ?thesis unfolding ordered_def by blast
  qed
  then show ?case using I L st1(2) by auto
next
  case (4 n adj w ws st)
  show ?case
  proof (cases "w \<in> set (visited st)")
    case False
    then obtain st1 where st1: "dfs_visit n adj w st = Some st1" "dfs_each n adj ws st1 = Some st'"
      using "4.prems"(1) by (auto split: option.splits)
    have "dfs_inv adj st1 \<and> path st1 = path st \<and>
      (cycles st1 = [] \<longrightarrow> cycles st = [] \<and> w \<in> finished st1 \<and> finished st \<subseteq> finished st1 \<and>
        (ordered adj st \<longrightarrow> ordered adj st1))"
      using "4.IH"(1) [OF False st1(1)] "4.prems" False by auto
    moreover from this have "dfs_inv adj st' \<and> path st' = path st1 \<and>
      (cycles st' = [] \<longrightarrow> cycles st1 = [] \<and> set ws \<subseteq> finished st' \<and> finished st1 \<subseteq> finished st' \<and>
        (ordered adj st1 \<longrightarrow> ordered adj st'))"
      using "4.IH"(2) [OF False st1(1) st1(2)] "4.prems" by auto
    ultimately show ?thesis by auto
  next
    case seen: True
    show ?thesis
    proof (cases "w \<in> set (recStack st)")
      case True
      have C: "dfs_inv adj (close_cycle w st) \<and> path (close_cycle w st) = path st \<and>
          cycles (close_cycle w st) \<noteq> []"
        using inv_close [OF "4.prems"(2,3) _ True] "4.prems"(4) by auto
      then show ?thesis using "4.IH"(3) [of st'] seen True "4.prems" by auto
    next
      case False
      then have "w \<in> finished st" using seen "4.prems"(2) by (simp add: finished_def dfs_inv_def)
      then show ?thesis using "4.IH"(4) [of st'] seen False "4.prems" by auto
    qed
  qed
qed auto

lemma roots_correct:
  "dfs_roots n adj vs st = Some st' \<Longrightarrow> dfs_inv adj st \<Longrightarrow> path st = [] \<Longrightarrow>
    dfs_inv adj st' \<and> path st' = [] \<and>
    (cycles st' = [] \<longrightarrow> cycles st = [] \<and> (ordered adj st \<longrightarrow> ordered adj st'))"
proof (induction vs arbitrary: st)
  case (Cons v vs)
  show ?case
  proof (cases "v \<in> set (visited st)")
    case True
    with Cons show ?thesis by auto
  next
    case False
    then obtain st1 where "dfs_visit n adj v st = Some st1" "dfs_roots n adj vs st1 = Some st'"
      using Cons.prems(1) by (auto split: option.splits)
    then show ?thesis using Cons.IH [of st1] visit_correct(1) [of n adj v st st1] Cons.prems False by auto
  qed
qed simp

text \<open>A finishing order shows that there is no cycle: along an edge the order goes down.\<close>

lemma finish_order_acyclic:
  assumes "finish_order adj ord" "\<And>a. neighbours adj a \<noteq> [] \<Longrightarrow> a \<in> set ord"
  shows "acyclic (edge_rel adj)"
proof -
  have down: "finish_order adj ord \<Longrightarrow> v \<in> set ord \<Longrightarrow> b \<in> set (neighbours adj v) \<Longrightarrow>
      length (dropWhile (\<lambda>x. x \<noteq> b) ord) < length (dropWhile (\<lambda>x. x \<noteq> v) ord)" for ord v b
  proof (induction ord)
    case (Cons x ord)
    show ?case
    proof (cases "v = x")
      case True
      with Cons.prems have "b \<in> set ord" "b \<noteq> x" by auto
      then show ?thesis using True length_dropWhile_le [of "\<lambda>x. x \<noteq> b" ord] by auto
    next
      case False
      with Cons.prems have v: "v \<in> set ord" "finish_order adj ord" "x \<notin> set ord" by auto
      have "finish_order adj o' \<Longrightarrow> v \<in> set o' \<Longrightarrow> b \<in> set o'" for o'
        using Cons.prems(3) by (induction o') auto
      then have "b \<noteq> x" using v by auto
      then show ?thesis using False Cons.IH [OF v(2,1) Cons.prems(3)] by simp
    qed
  qed simp
  let ?f = "\<lambda>a. length (dropWhile (\<lambda>x. x \<noteq> a) ord)"
  have step: "(a, b) \<in> edge_rel adj \<Longrightarrow> ?f b < ?f a" for a b
    using down [OF assms(1), of a b] assms(2) [of a] by (cases "neighbours adj a = []") (auto simp: edge_rel_def)
  have "(a, b) \<in> (edge_rel adj)\<^sup>+ \<Longrightarrow> ?f b < ?f a" for a b
    by (induction rule: trancl_induct) (auto dest: step)
  then show ?thesis unfolding acyclic_def by blast
qed

lemma closed_walk_cyclic: "closed_walk adj c \<Longrightarrow> \<not> acyclic (edge_rel adj)"
proof -
  assume c: "closed_walk adj c"
  have walk: "successively (\<lambda>a b. b \<in> set (neighbours adj a)) xs \<Longrightarrow> xs \<noteq> [] \<Longrightarrow>
      (hd xs, last xs) \<in> (edge_rel adj)\<^sup>*" for xs
    by (induction xs rule: induct_list012)
      (auto simp: edge_rel_def intro: converse_rtrancl_into_rtrancl)
  have "(hd c, last c) \<in> (edge_rel adj)\<^sup>*" "(last c, hd c) \<in> edge_rel adj"
    using c walk [of c] by (auto simp: closed_walk_def edge_rel_def)
  then have "(hd c, hd c) \<in> (edge_rel adj)\<^sup>+" by (rule rtrancl_into_trancl1)
  then show ?thesis by (auto simp: acyclic_def)
qed

lemma search_result:
  "\<exists>st. set (jm_keys adj) \<subseteq> set (visited st) \<and> cycles_of adj = cycles st \<and>
    dfs_inv adj st \<and> path st = [] \<and> (cycles st = [] \<longrightarrow> ordered adj st)"
proof -
  from search_returns [of adj]
  obtain st where st: "dfs_roots (dfs_fuel adj) adj (jm_keys adj) dfs_start = Some st"
    "set (jm_keys adj) \<subseteq> set (visited st)"
    by (elim exE conjE)
  have eq: "cycles_of adj = cycles st" unfolding cycles_of_def cycles_with_fuel_def st(1) by simp
  have start: "dfs_inv adj dfs_start" "path (dfs_start :: 'a dfs) = []"
    by (simp_all add: dfs_inv_def dfs_start_def)
  have "ordered adj dfs_start"
    unfolding ordered_def by (rule exI [of _ "[]"]) (simp add: finished_def dfs_start_def)
  with roots_correct [OF st(1) start] st(2) eq show ?thesis by (intro exI [of _ st]) blast
qed

lemma cycles_of_sound: "c \<in> set (cycles_of adj) \<Longrightarrow> closed_walk adj c \<and> distinct c"
  using search_result [of adj] by (auto simp: dfs_inv_def)

lemma cycles_of_empty_iff: "cycles_of adj = [] \<longleftrightarrow> acyclic (edge_rel adj)"
proof
  assume empty: "cycles_of adj = []"
  obtain st where st: "set (jm_keys adj) \<subseteq> set (visited st)" "cycles_of adj = cycles st"
    "path st = []" "cycles st = [] \<longrightarrow> ordered adj st"
    using search_result [of adj] by blast
  with empty obtain ord where ord: "finish_order adj ord" "set ord = finished st"
    unfolding ordered_def by auto
  have "a \<in> set ord" if "neighbours adj a \<noteq> []" for a
    using that st(1,3) neighbours_absent [of a adj] by (auto simp: ord(2) finished_def)
  then show "acyclic (edge_rel adj)" by (rule finish_order_acyclic [OF ord(1)])
next
  assume ac: "acyclic (edge_rel adj)"
  show "cycles_of adj = []"
  proof (cases "cycles_of adj")
    case (Cons c cs)
    then have "closed_walk adj c" using cycles_of_sound [of c adj] by simp
    then show ?thesis using closed_walk_cyclic ac by blast
  qed simp
qed

end
