(* ===== verification/Call_Graph.thy ===== *)
theory Call_Graph
  imports Dfs_Cycles
begin

text \<open>
  \<open>src/indexer/reentrancy-fortress/call-graph.ts\<close>: the call graph of a transaction trace, its
  contract-level quotient, cycle search and the mapping of a contract cycle back to calls.
\<close>

section \<open>Traces and graphs\<close>

record trace_call =
  t_contract :: string
  t_function :: string
  t_depth :: int
  t_index :: int
  t_value :: "string option"
  t_reads :: "string list option"
  t_writes :: "string list option"
  t_gas :: "int option"
  t_args :: "string option"

record vertex =
  v_id :: string
  v_tx :: string
  v_contract :: string
  v_function :: string
  v_depth :: int
  v_index :: int
  v_value :: "string option"
  v_reads :: "string list"
  v_writes :: "string list"
  v_time :: int

record edge =
  e_id :: string
  e_tx :: string
  e_from :: string
  e_to :: string
  e_function :: string
  e_value :: "string option"
  e_gas :: "int option"
  e_args :: "string option"
  e_index :: int
  e_time :: int

record call_graph =
  vertices :: "vertex list"
  edges :: "edge list"

definition vtx :: "nat \<Rightarrow> string" where
  "vtx n = ''vtx_'' @ dec_nat n"

definition or_empty :: "string list option \<Rightarrow> string list" where
  "or_empty x = (case x of None \<Rightarrow> [] | Some l \<Rightarrow> l)"

definition mk_vertex :: "string \<Rightarrow> int \<Rightarrow> nat \<Rightarrow> trace_call \<Rightarrow> vertex" where
  "mk_vertex tx time n c =
     \<lparr>v_id = vtx n, v_tx = tx, v_contract = t_contract c, v_function = t_function c,
      v_depth = t_depth c, v_index = t_index c, v_value = t_value c,
      v_reads = or_empty (t_reads c), v_writes = or_empty (t_writes c), v_time = time\<rparr>"

definition mk_edge :: "string \<Rightarrow> int \<Rightarrow> vertex \<Rightarrow> vertex \<Rightarrow> trace_call \<Rightarrow> edge" where
  "mk_edge tx time parent v c =
     \<lparr>e_id = ''edge_'' @ v_id parent @ ''_'' @ v_id v, e_tx = tx, e_from = v_id parent, e_to = v_id v,
      e_function = t_function c, e_value = t_value c, e_gas = t_gas c, e_args = t_args c,
      e_index = t_index c, e_time = time\<rparr>"

text \<open>The loop of \<open>buildCallGraph\<close>; the top of the depth stack is the head of the list.\<close>

record build_state =
  b_vertices :: "vertex list"
  b_edges :: "edge list"
  b_counter :: nat
  b_stack :: "vertex list"

definition build_step :: "string \<Rightarrow> int \<Rightarrow> trace_call \<Rightarrow> build_state \<Rightarrow> build_state" where
  "build_step tx time c b =
     (let v = mk_vertex tx time (b_counter b) c;
          stack = dropWhile (\<lambda>u. v_depth u \<ge> t_depth c) (b_stack b)
      in \<lparr>b_vertices = b_vertices b @ [v],
          b_edges = (case stack of [] \<Rightarrow> b_edges b | parent # _ \<Rightarrow> b_edges b @ [mk_edge tx time parent v c]),
          b_counter = Suc (b_counter b),
          b_stack = v # stack\<rparr>)"

definition build_loop :: "string \<Rightarrow> int \<Rightarrow> trace_call list \<Rightarrow> build_state" where
  "build_loop tx time calls =
     fold (build_step tx time) calls \<lparr>b_vertices = [], b_edges = [], b_counter = 0, b_stack = []\<rparr>"

definition buildCallGraph :: "string \<Rightarrow> trace_call list \<Rightarrow> int \<Rightarrow> call_graph" where
  "buildCallGraph tx calls time =
     (let b = build_loop tx time calls in \<lparr>vertices = b_vertices b, edges = b_edges b\<rparr>)"

section \<open>Graph utilities\<close>

definition getVertex :: "call_graph \<Rightarrow> string \<Rightarrow> vertex option" where
  "getVertex g i = List.find (\<lambda>v. v_id v = i) (vertices g)"

definition push_target :: "edge \<Rightarrow> string adjacency \<Rightarrow> string adjacency" where
  "push_target e adj = jm_set (e_from e) (neighbours adj (e_from e) @ [e_to e]) adj"

definition buildAdjacencyList :: "call_graph \<Rightarrow> string adjacency" where
  "buildAdjacencyList g =
     fold push_target (edges g) (fold (\<lambda>v adj. jm_set (v_id v) [] adj) (vertices g) [])"

definition contract_edge :: "call_graph \<Rightarrow> edge \<Rightarrow> (string \<times> string) option" where
  "contract_edge g e =
     (case (getVertex g (e_from e), getVertex g (e_to e)) of
        (Some f, Some t) \<Rightarrow> if v_contract f \<noteq> v_contract t then Some (v_contract f, v_contract t) else None
      | _ \<Rightarrow> None)"

definition add_neighbour :: "call_graph \<Rightarrow> edge \<Rightarrow> string adjacency \<Rightarrow> string adjacency" where
  "add_neighbour g e adj = (case contract_edge g e of None \<Rightarrow> adj
     | Some (f, t) \<Rightarrow> jm_set f (js_add t (neighbours adj f)) adj)"

definition add_contract :: "vertex \<Rightarrow> string adjacency \<Rightarrow> string adjacency" where
  "add_contract v adj = (if \<not> jm_has adj (v_contract v) then jm_set (v_contract v) [] adj else adj)"

definition buildContractAdjacency :: "call_graph \<Rightarrow> string adjacency" where
  "buildContractAdjacency g = fold (add_neighbour g) (edges g) (fold add_contract (vertices g) [])"

definition findCycles :: "call_graph \<Rightarrow> string list list" where
  "findCycles g = cycles_of (buildAdjacencyList g)"

definition findContractCycles :: "call_graph \<Rightarrow> string list list" where
  "findContractCycles g = cycles_of (buildContractAdjacency g)"

definition hasLoops :: "call_graph \<Rightarrow> bool" where
  "hasLoops g = (length (findContractCycles g) > 0)"

record call_site =
  c_contract :: string
  c_function :: string
  c_index :: int

definition site_of :: "vertex \<Rightarrow> call_site" where
  "site_of v = \<lparr>c_contract = v_contract v, c_function = v_function v, c_index = v_index v\<rparr>"

text \<open>\<open>Array.prototype.sort\<close> is stable.\<close>

definition buildContractSequence :: "call_graph \<Rightarrow> (call_site \<times> string) list" where
  "buildContractSequence g = map (\<lambda>v. (site_of v, v_id v)) (sort_key v_index (vertices g))"

definition buildVertexContractMap :: "call_graph \<Rightarrow> (string, string) jsmap" where
  "buildVertexContractMap g = fold (\<lambda>v m. jm_set (v_id v) (v_contract v) m) (vertices g) []"

definition computeMaxDepth :: "call_graph \<Rightarrow> int" where
  "computeMaxDepth g = foldl (\<lambda>m v. max m (v_depth v)) 0 (vertices g)"

text \<open>The quotient is kept as numerator and denominator; an empty graph has depth zero.\<close>

definition computeAvgDepth :: "call_graph \<Rightarrow> int \<times> nat" where
  "computeAvgDepth g = (if length (vertices g) = 0 then (0, 1)
     else (foldl (\<lambda>s v. s + v_depth v) 0 (vertices g), length (vertices g)))"

definition uniqueContractCount :: "call_graph \<Rightarrow> nat" where
  "uniqueContractCount g = length (js_set_of (map v_contract (vertices g)))"

section \<open>From a contract cycle back to calls\<close>

text \<open>\<open>used\<close> is \<open>usedIndices\<close>. The inner loop takes the first unused occurrence of the contract.\<close>

definition first_unused :: "call_site list \<Rightarrow> nat list \<Rightarrow> string \<Rightarrow> nat option" where
  "first_unused sq used target =
     List.find (\<lambda>i. i \<notin> set used \<and> c_contract (sq ! i) = target) [0..<length sq]"

fun map_targets :: "call_site list \<Rightarrow> string list \<Rightarrow> nat list \<Rightarrow> call_site list \<Rightarrow> nat list \<times> call_site list" where
  "map_targets sq [] used result = (used, result)"
| "map_targets sq (t # ts) used result =
     (case first_unused sq used t of
        None \<Rightarrow> map_targets sq ts used result
      | Some i \<Rightarrow> map_targets sq ts (js_add i used) (result @ [sq ! i]))"

text \<open>The second loop, which fills up to the length of the cycle.\<close>

fun fill_up :: "call_site list \<Rightarrow> string list \<Rightarrow> nat list \<Rightarrow> nat list \<Rightarrow> call_site list \<Rightarrow> call_site list" where
  "fill_up sq cyc [] used result = result"
| "fill_up sq cyc (i # is) used result =
     (if length result < length cyc then
        (if i \<notin> set used \<and> c_contract (sq ! i) \<in> set cyc
         then fill_up sq cyc is (js_add i used) (result @ [sq ! i])
         else fill_up sq cyc is used result)
      else result)"

definition mapContractCycleToVertexPath :: "string list \<Rightarrow> call_graph \<Rightarrow> call_site list" where
  "mapContractCycleToVertexPath cyc g =
     (let sq = map fst (buildContractSequence g) in
      case map_targets sq cyc [] [] of (used, result) \<Rightarrow>
        if length result < length cyc then fill_up sq cyc [0..<length sq] used result else result)"

section \<open>The call tree\<close>

text \<open>The intended parent of call \<open>j\<close>: the latest earlier call that is less deep.\<close>

definition parent_of :: "trace_call list \<Rightarrow> nat \<Rightarrow> nat option" where
  "parent_of calls j = List.find (\<lambda>i. t_depth (calls ! i) < t_depth (calls ! j)) (rev [0..<j])"

definition tree_edges :: "trace_call list \<Rightarrow> (string \<times> string) list" where
  "tree_edges calls =
     concat (map (\<lambda>j. case parent_of calls j of None \<Rightarrow> [] | Some i \<Rightarrow> [(vtx i, vtx j)]) [0..<length calls])"

text \<open>What the depth stack holds after \<open>n\<close> calls: the calls that no later call has closed.\<close>

definition stack_indices :: "trace_call list \<Rightarrow> nat list" where
  "stack_indices calls =
     rev (filter (\<lambda>i. \<forall>k \<in> {i<..<length calls}. t_depth (calls ! i) < t_depth (calls ! k)) [0..<length calls])"

definition build_inv :: "string \<Rightarrow> int \<Rightarrow> trace_call list \<Rightarrow> build_state \<Rightarrow> bool" where
  "build_inv tx time calls b =
     (b_vertices b = map (\<lambda>i. mk_vertex tx time i (calls ! i)) [0..<length calls] \<and>
      b_counter b = length calls \<and>
      b_stack b = map (\<lambda>i. mk_vertex tx time i (calls ! i)) (stack_indices calls) \<and>
      map (\<lambda>e. (e_from e, e_to e)) (b_edges b) = tree_edges calls)"

lemma filter_dropWhile:
  "sorted_wrt (\<lambda>x y. P x \<longrightarrow> P y) xs \<Longrightarrow> filter P xs = dropWhile (\<lambda>x. \<not> P x) xs"
proof (induction xs)
  case (Cons x xs)
  then show ?case by (cases "P x") (auto intro: filter_True)
qed simp

definition open_call :: "trace_call list \<Rightarrow> nat \<Rightarrow> bool" where
  "open_call calls i = (\<forall>k \<in> {i<..<length calls}. t_depth (calls ! i) < t_depth (calls ! k))"

lemma stack_indices_alt: "stack_indices calls = filter (open_call calls) (rev [0..<length calls])"
  unfolding stack_indices_def open_call_def [abs_def] by (simp add: rev_filter)

lemma stack_depths: "sorted_wrt (\<lambda>i j. t_depth (calls ! j) < t_depth (calls ! i)) (stack_indices calls)"
proof -
  have "sorted_wrt (\<lambda>i j. j < i) (rev [0..<n])" for n :: nat
    by (simp add: sorted_wrt_rev)
  then have "sorted_wrt (\<lambda>i j. j < i) (stack_indices calls)"
    unfolding stack_indices_alt by (rule sorted_wrt_filter)
  then show ?thesis
    by (rule sorted_wrt_mono_rel [rotated]) (auto simp: stack_indices_alt open_call_def)
qed

text \<open>What is left of the stack when a call of depth \<open>d\<close> has popped it.\<close>

definition enclosing :: "trace_call list \<Rightarrow> int \<Rightarrow> nat list" where
  "enclosing calls d = dropWhile (\<lambda>i. t_depth (calls ! i) \<ge> d) (stack_indices calls)"

lemma enclosing_filter: "enclosing calls d = filter (\<lambda>i. t_depth (calls ! i) < d) (stack_indices calls)"
  unfolding enclosing_def
  by (subst filter_dropWhile, rule sorted_wrt_mono_rel [OF _ stack_depths]) (auto simp: not_less)

lemma stack_snoc:
  "stack_indices (calls @ [c]) =
    length calls # enclosing calls (t_depth c)"
proof -
  let ?P = "\<lambda>i. t_depth (calls ! i) < t_depth c"
  have "{i<..<Suc n} = insert n {i<..<n}" if "i < n" for i n :: nat using that by auto
  then have "open_call (calls @ [c]) i = (open_call calls i \<and> ?P i)" if "i < length calls" for i
    using that by (auto simp: open_call_def nth_append)
  then have "stack_indices (calls @ [c]) = length calls # filter ?P (stack_indices calls)"
    by (auto simp: stack_indices_alt open_call_def intro!: filter_cong)
  then show ?thesis by (simp add: enclosing_filter)
qed

lemma find_split:
  "List.find P xs = Some x \<Longrightarrow> \<exists>A B. xs = A @ x # B \<and> P x \<and> (\<forall>a \<in> set A. \<not> P a)"
proof (induction xs)
  case (Cons y ys)
  show ?case
  proof (cases "P y")
    case True
    with Cons.prems show ?thesis by (intro exI [of _ "[]"] exI [of _ ys]) auto
  next
    case False
    with Cons obtain A B where "ys = A @ x # B" "P x" "\<forall>a \<in> set A. \<not> P a" by auto
    with False show ?thesis by (intro exI [of _ "y # A"] exI [of _ B]) auto
  qed
qed simp

lemma find_parent:
  "List.find (\<lambda>i. t_depth (calls ! i) < d) (rev [0..<length calls]) =
    (case enclosing calls d of [] \<Rightarrow> None | i # _ \<Rightarrow> Some i)"
proof -
  let ?P = "\<lambda>i. t_depth (calls ! i) < d" and ?R = "rev [0..<length calls]"
  show ?thesis
  proof (cases "List.find ?P ?R")
    case None
    then have "filter ?P (stack_indices calls) = []"
      by (auto simp: stack_indices_alt find_None_iff filter_empty_conv)
    with None show ?thesis by (simp add: enclosing_filter)
  next
    case (Some i)
    then obtain A B where R: "?R = A @ i # B" "?P i" "\<forall>a \<in> set A. \<not> ?P a" using find_split [OF Some] by blast
    have "sorted_wrt (\<lambda>i j. j < i) (A @ i # B)" unfolding R(1) [symmetric] by (simp add: sorted_wrt_rev)
    then have "\<forall>k \<in> set B. k < i" by (simp add: sorted_wrt_append)
    moreover have "k \<in> set A \<union> {i} \<union> set B" if "k < length calls" for k
    proof -
      have "k \<in> set ?R" using that by simp
      then show ?thesis unfolding R(1) by auto
    qed
    ultimately have above: "k \<in> set A" if "k < length calls" "i < k" for k
      using that by fastforce
    have "open_call calls i"
      unfolding open_call_def using above R(2,3) by fastforce
    then have "filter ?P (stack_indices calls) = i # filter ?P (filter (open_call calls) B)"
      using R by (auto simp: stack_indices_alt filter_empty_conv)
    with Some show ?thesis by (simp add: enclosing_filter)
  qed
qed

lemma tree_edges_snoc:
  "tree_edges (calls @ [c]) = tree_edges calls @
    (case enclosing calls (t_depth c) of
       [] \<Rightarrow> [] | i # _ \<Rightarrow> [(vtx i, vtx (length calls))])"
proof -
  have find_cong: "(\<And>x. x \<in> set xs \<Longrightarrow> P x = Q x) \<Longrightarrow> List.find P xs = List.find Q xs"
    for xs :: "nat list" and P Q
    by (induction xs) auto
  have "parent_of (calls @ [c]) j = parent_of calls j" if "j < length calls" for j
    unfolding parent_of_def by (rule find_cong) (use that in \<open>simp add: nth_append\<close>)
  moreover have "parent_of (calls @ [c]) (length calls) =
      List.find (\<lambda>i. t_depth (calls ! i) < t_depth c) (rev [0..<length calls])"
    by (simp add: parent_of_def, rule find_cong) (simp add: nth_append)
  ultimately show ?thesis
    by (cases "enclosing calls (t_depth c)")
      (auto simp: tree_edges_def find_parent intro!: arg_cong [where f = concat])
qed

lemma build_inv_step:
  assumes "build_inv tx time calls b"
  shows "build_inv tx time (calls @ [c]) (build_step tx time c b)"
proof -
  let ?n = "length calls" and ?v = "\<lambda>i. mk_vertex tx time i (calls ! i)"
  have cong: "map (\<lambda>i. mk_vertex tx time i ((calls @ [c]) ! i)) xs = map ?v xs"
    if "set xs \<subseteq> {..<?n}" for xs
    using that by (auto simp: nth_append)
  have sub: "set (enclosing calls d) \<subseteq> {..<?n}" for d
    by (auto simp: stack_indices_alt enclosing_filter)
  have "dropWhile (\<lambda>u. v_depth u \<ge> t_depth c) (map ?v xs) =
      map ?v (dropWhile (\<lambda>i. t_depth (calls ! i) \<ge> t_depth c) xs)" for xs
    by (induction xs) (auto simp: mk_vertex_def)
  then have dw: "dropWhile (\<lambda>u. v_depth u \<ge> t_depth c) (map ?v (stack_indices calls)) =
      map ?v (enclosing calls (t_depth c))" by (simp add: enclosing_def)
  have ids: "v_id (mk_vertex tx time i x) = vtx i" for i x by (simp add: mk_vertex_def)
  have "map (\<lambda>i. mk_vertex tx time i ((calls @ [c]) ! i)) [0..<length (calls @ [c])] =
      map ?v [0..<?n] @ [mk_vertex tx time ?n c]"
    using cong [of "[0..<?n]"] by (simp add: atLeast0LessThan)
  moreover have "map (\<lambda>i. mk_vertex tx time i ((calls @ [c]) ! i)) (stack_indices (calls @ [c])) =
      mk_vertex tx time ?n c # map ?v (enclosing calls (t_depth c))"
    by (simp add: stack_snoc cong [OF sub])
  ultimately show ?thesis
    using assms
    by (cases "enclosing calls (t_depth c)")
      (simp_all add: build_inv_def build_step_def Let_def dw tree_edges_snoc mk_edge_def ids)
qed

lemma build_inv_loop: "build_inv tx time calls (build_loop tx time calls)"
proof (induction calls rule: rev_induct)
  case Nil
  show ?case by (simp add: build_inv_def build_loop_def stack_indices_def tree_edges_def)
next
  case (snoc c calls)
  then show ?case using build_inv_step by (simp add: build_loop_def)
qed

text \<open>C36: The call graph of a trace has one vertex per call, in order, and its edges are exactly those
  of the call tree: the stack finds for every call the latest earlier call of smaller depth,
  and a call without one is a root.\<close>

theorem buildCallGraph_tree:
  "map v_id (vertices (buildCallGraph tx calls time)) = map vtx [0..<length calls] \<and>
   map v_contract (vertices (buildCallGraph tx calls time)) = map t_contract calls \<and>
   map (\<lambda>e. (e_from e, e_to e)) (edges (buildCallGraph tx calls time)) = tree_edges calls"
proof -
  have "map (\<lambda>i. t_contract (calls ! i)) [0..<length calls] = map t_contract calls"
    by (rule nth_equalityI) auto
  then show ?thesis
    using build_inv_loop [of tx time calls]
    by (simp add: buildCallGraph_def Let_def build_inv_def mk_vertex_def comp_def)
qed

section \<open>Cycles\<close>

text \<open>Both adjacency maps relate exactly the pairs that the edges give.\<close>

lemma neighbours_set [simp]:
  "neighbours (jm_set k ns adj) v = (if v = k then ns else neighbours adj v)"
  by (simp add: neighbours_def)

lemma neighbours_empty_lists:
  "\<forall>v. neighbours adj v = [] \<Longrightarrow> \<forall>v. neighbours (fold (\<lambda>x adj. jm_set (f x) [] adj) xs adj) v = []"
  by (induction xs arbitrary: adj) auto

lemma neighbours_Nil [simp]: "neighbours [] v = []"
  by (simp add: neighbours_def)

lemma push_target_edges: "edge_rel (push_target e adj) = insert (e_from e, e_to e) (edge_rel adj)"
  by (auto simp: push_target_def edge_rel_def split: if_splits)

lemma adjacency_edges:
  "edge_rel (buildAdjacencyList g) = set (map (\<lambda>e. (e_from e, e_to e)) (edges g))"
proof -
  have ext: "edge_rel (fold push_target es adj) = edge_rel adj \<union> set (map (\<lambda>e. (e_from e, e_to e)) es)" for es adj
    by (induction es arbitrary: adj) (auto simp: push_target_edges)
  have "edge_rel (fold (\<lambda>v adj. jm_set (v_id v) [] adj) (vertices g) []) = {}"
    using neighbours_empty_lists [of "[]" v_id "vertices g"] by (simp add: edge_rel_def)
  then show ?thesis unfolding buildAdjacencyList_def ext by simp
qed

definition contract_pairs :: "call_graph \<Rightarrow> (string \<times> string) set" where
  "contract_pairs g = {ft. \<exists>e \<in> set (edges g). contract_edge g e = Some ft}"

lemma add_neighbour_edges:
  "edge_rel (add_neighbour g e adj) = set_option (contract_edge g e) \<union> edge_rel adj"
  by (auto simp: add_neighbour_def edge_rel_def split: option.splits if_splits)

lemma contract_adjacency_edges: "edge_rel (buildContractAdjacency g) = contract_pairs g"
proof -
  have ext: "edge_rel (fold (add_neighbour g) es adj) =
      edge_rel adj \<union> {ft. \<exists>e \<in> set es. contract_edge g e = Some ft}" for es adj
    by (induction es arbitrary: adj) (auto simp: add_neighbour_edges)
  have nil: "\<forall>v. neighbours adj v = [] \<Longrightarrow> \<forall>v. neighbours (fold add_contract xs adj) v = []" for xs adj
    by (induction xs arbitrary: adj) (auto simp: add_contract_def)
  have "edge_rel (fold add_contract (vertices g) []) = {}"
    using nil [of "[]" "vertices g"] by (simp add: edge_rel_def)
  then show ?thesis unfolding buildContractAdjacency_def ext contract_pairs_def by simp
qed

text \<open>The loop flag of a call graph is exact: there is a loop exactly when the relation "a call of
  one contract invoked a call of a different contract" has a cycle, and then every reported
  cycle is a closed walk of distinct contracts along that relation. The search returns on every
  graph.\<close>

theorem hasLoops_iff_cyclic:
  "(hasLoops g \<longleftrightarrow> \<not> acyclic (contract_pairs g)) \<and>
   list_all (\<lambda>c. distinct c \<and> successively (\<lambda>a b. (a, b) \<in> contract_pairs g) c \<and>
     (last c, hd c) \<in> contract_pairs g) (findContractCycles g) \<and>
   cycles_with_fuel (dfs_fuel (buildContractAdjacency g)) (buildContractAdjacency g) = Some (findContractCycles g)"
proof -
  let ?adj = "buildContractAdjacency g"
  have "b \<in> set (neighbours ?adj a) \<longleftrightarrow> (a, b) \<in> contract_pairs g" for a b
    using contract_adjacency_edges [of g] by (auto simp: edge_rel_def)
  then have "list_all (\<lambda>c. distinct c \<and> successively (\<lambda>a b. (a, b) \<in> contract_pairs g) c \<and>
     (last c, hd c) \<in> contract_pairs g) (findContractCycles g)"
    using cycles_of_sound [of _ ?adj] by (simp add: findContractCycles_def list_all_iff closed_walk_def)
  moreover have "hasLoops g \<longleftrightarrow> \<not> acyclic (contract_pairs g)"
    using cycles_of_empty_iff [of ?adj] contract_adjacency_edges [of g]
    by (simp add: hasLoops_def findContractCycles_def)
  moreover have "cycles_with_fuel (dfs_fuel ?adj) ?adj = Some (findContractCycles g)"
    using search_returns [of ?adj] by (auto simp: findContractCycles_def cycles_of_def cycles_with_fuel_def)
  ultimately show ?thesis by blast
qed

lemma vtx_inj: "vtx i = vtx j \<longleftrightarrow> i = j"
  by (simp add: vtx_def dec_nat_inj)

lemma parent_less: "parent_of calls j = Some i \<Longrightarrow> i < j"
  using find_split [of _ "rev [0..<j]" i] unfolding parent_of_def
  by (metis atLeastLessThan_iff in_set_conv_decomp set_rev set_upt)

lemma tree_edges_up: "(a, b) \<in> set (tree_edges calls) \<Longrightarrow> \<exists>i j. a = vtx i \<and> b = vtx j \<and> i < j"
  by (auto simp: tree_edges_def split: option.splits) (metis parent_less)

text \<open>The vertex-level cycle search never finds anything on a graph that was built from a trace:
  calls form a tree, whose edges go forward in time.\<close>

theorem findCycles_of_trace_empty: "findCycles (buildCallGraph tx calls time) = []"
proof -
  let ?E = "edge_rel (buildAdjacencyList (buildCallGraph tx calls time))"
  have "map (\<lambda>e. (e_from e, e_to e)) (edges (buildCallGraph tx calls time)) = tree_edges calls"
    using build_inv_loop [of tx time calls] by (simp add: buildCallGraph_def Let_def build_inv_def)
  then have E: "?E = set (tree_edges calls)" by (simp only: adjacency_edges)
  have up: "(a, b) \<in> ?E\<^sup>+ \<Longrightarrow> \<exists>i j. a = vtx i \<and> b = vtx j \<and> i < j" for a b
    unfolding E
    by (induction rule: trancl_induct) (auto dest!: tree_edges_up simp: vtx_inj intro: less_trans)
  have "(x, x) \<notin> ?E\<^sup>+" for x
    using up [of x x] by (auto simp: vtx_inj)
  then have "acyclic ?E" by (simp add: acyclic_def)
  then show ?thesis by (simp add: findCycles_def cycles_of_empty_iff)
qed

section \<open>Cycles without reentrancy, reentrancy without cycles\<close>

definition call :: "string \<Rightarrow> int \<Rightarrow> int \<Rightarrow> trace_call" where
  "call c d i = \<lparr>t_contract = c, t_function = ''f'', t_depth = d, t_index = i, t_value = None,
     t_reads = None, t_writes = None, t_gas = None, t_args = None\<rparr>"

text \<open>The loop flag is a property of the contracts, not of the calls: two independent invocations in
  one transaction, A calling B and later B calling A, raise it although no contract is entered
  while it is running; a contract that calls itself does not raise it.\<close>

theorem hasLoops_not_reentrancy:
  "hasLoops (buildCallGraph ''tx'' [call ''A'' 0 0, call ''B'' 1 1, call ''B'' 0 2, call ''A'' 1 3] 0) \<and>
   \<not> hasLoops (buildCallGraph ''tx'' [call ''A'' 0 0, call ''A'' 1 1] 0)"
  by code_simp

section \<open>Cycles as call paths\<close>

definition first_call :: "call_site list \<Rightarrow> string \<Rightarrow> call_site" where
  "first_call sq t = the (List.find (\<lambda>s. c_contract s = t) sq)"

lemma first_unused_first:
  assumes "\<exists>s \<in> set sq. c_contract s = t" "\<forall>i \<in> set used. c_contract (sq ! i) \<noteq> t"
  obtains i where "first_unused sq used t = Some i" "sq ! i = first_call sq t" "c_contract (sq ! i) = t"
proof -
  have ex: "\<exists>i < length sq. c_contract (sq ! i) = t" using assms(1) by (auto simp: in_set_conv_nth)
  define i where "i = (LEAST i. c_contract (sq ! i) = t)"
  have i: "c_contract (sq ! i) = t" "i < length sq" "\<And>k. k < i \<Longrightarrow> c_contract (sq ! k) \<noteq> t"
    using ex unfolding i_def by (auto intro: LeastI order.strict_trans1 [OF Least_le] dest: not_less_Least)
  have "first_unused sq used t = Some i"
    using i assms(2) by (auto simp: first_unused_def find_Some_iff intro!: exI [of _ i])
  moreover have "List.find (\<lambda>s. c_contract s = t) sq = Some (sq ! i)"
    using i by (auto simp: find_Some_iff)
  ultimately show ?thesis using that i(1) by (simp add: first_call_def)
qed

lemma map_targets_distinct:
  "distinct ts \<Longrightarrow> \<forall>t \<in> set ts. \<exists>s \<in> set sq. c_contract s = t \<Longrightarrow>
    \<forall>i \<in> set used. c_contract (sq ! i) \<notin> set ts \<Longrightarrow>
    snd (map_targets sq ts used result) = result @ map (first_call sq) ts"
proof (induction ts arbitrary: used result)
  case (Cons t ts)
  have "\<exists>s \<in> set sq. c_contract s = t" "\<forall>i \<in> set used. c_contract (sq ! i) \<noteq> t"
    using Cons.prems by auto
  then obtain i where i: "first_unused sq used t = Some i" "sq ! i = first_call sq t" "c_contract (sq ! i) = t"
    by (rule first_unused_first)
  have "snd (map_targets sq ts (js_add i used) (result @ [sq ! i])) =
      (result @ [sq ! i]) @ map (first_call sq) ts"
    using Cons.prems i(3) by (intro Cons.IH) auto
  then show ?case using i by simp
qed simp

lemma getVertex_in: "getVertex g i = Some v \<Longrightarrow> v \<in> set (vertices g)"
  unfolding getVertex_def by (drule find_split) auto

lemma contract_pairs_vertices:
  assumes "(a, b) \<in> contract_pairs g"
  shows "a \<in> v_contract ` set (vertices g)"
proof -
  obtain e where e: "contract_edge g e = Some (a, b)" using assms by (auto simp: contract_pairs_def)
  then obtain f where "getVertex g (e_from e) = Some f" "v_contract f = a"
    by (cases "getVertex g (e_from e)"; cases "getVertex g (e_to e)") (auto simp: contract_edge_def split: if_splits)
  then show ?thesis using getVertex_in by blast
qed

lemma walk_vertices:
  assumes "closed_walk (buildContractAdjacency g) c"
  shows "set c \<subseteq> v_contract ` set (vertices g)"
proof -
  have rel: "b \<in> set (neighbours (buildContractAdjacency g) a) \<longleftrightarrow> (a, b) \<in> contract_pairs g" for a b
    using contract_adjacency_edges [of g] by (auto simp: edge_rel_def)
  have "successively (\<lambda>a b. (a, b) \<in> contract_pairs g) xs \<Longrightarrow> xs \<noteq> [] \<Longrightarrow>
      last xs \<in> v_contract ` set (vertices g) \<Longrightarrow> set xs \<subseteq> v_contract ` set (vertices g)" for xs
    by (induction xs rule: induct_list012) (auto dest: contract_pairs_vertices)
  then show ?thesis
    using assms contract_pairs_vertices [of "last c" "hd c" g] by (simp add: closed_walk_def rel)
qed

text \<open>Every contract cycle that the search reports is mapped back completely: the path has one
  call per contract of the cycle, in the order of the cycle, and each is the first call of that
  contract in the chronological sequence. The second loop, which fills up a short path, is
  never needed.\<close>

theorem reported_cycle_mapped:
  assumes "c \<in> set (findContractCycles g)"
  shows "map c_contract (mapContractCycleToVertexPath c g) = c \<and>
    mapContractCycleToVertexPath c g = map (first_call (map fst (buildContractSequence g))) c"
proof -
  let ?sq = "map fst (buildContractSequence g)"
  have c: "closed_walk (buildContractAdjacency g) c" "distinct c"
    using cycles_of_sound [of c "buildContractAdjacency g"] assms by (simp_all add: findContractCycles_def)
  have "set ?sq = site_of ` set (vertices g)" by (auto simp: buildContractSequence_def)
  then have occ: "\<forall>t \<in> set c. \<exists>s \<in> set ?sq. c_contract s = t"
    using walk_vertices [OF c(1)] by (fastforce simp: site_of_def)
  have path: "snd (map_targets ?sq c [] []) = map (first_call ?sq) c"
    using map_targets_distinct [OF c(2) occ, of "[]" "[]"] by simp
  then have eq: "mapContractCycleToVertexPath c g = map (first_call ?sq) c"
    by (simp add: mapContractCycleToVertexPath_def Let_def case_prod_beta)
  have "c_contract (first_call ?sq t) = t" if "t \<in> set c" for t
    using occ that first_unused_first [of ?sq t "[]"] by force
  then have "map c_contract (map (first_call ?sq) c) = c" by (simp add: map_idI)
  with eq show ?thesis by simp
qed

definition loop_graph :: call_graph where
  "loop_graph = buildCallGraph ''tx'' [call ''A'' 0 0, call ''B'' 1 1, call ''A'' 2 2] 0"

theorem reported_cycle_mapped_witness:
  "findContractCycles loop_graph = [[''A'', ''B'']] \<and>
   map c_contract (mapContractCycleToVertexPath [''A'', ''B''] loop_graph) = [''A'', ''B'']"
proof -
  have cyc: "findContractCycles loop_graph = [[''A'', ''B'']]" by code_simp
  then have "map c_contract (mapContractCycleToVertexPath [''A'', ''B''] loop_graph) = [''A'', ''B'']"
    by (intro conjunct1 [OF reported_cycle_mapped]) simp
  with cyc show ?thesis by blast
qed

end
