(* ===== verification/Leb128.thy ===== *)
theory Leb128
  imports Js_Int32
begin

text \<open>
  Byte buffers and the LEB128 readers of \<open>src/indexer/wasm-decompiler.ts\<close>. A buffer is a list
  of octets, read like a \<open>Uint8Array\<close>: outside its range the element is \<open>undefined\<close>, which the
  bitwise operators take for zero. Offsets are integers, because a length that was read can be
  negative. The encoders are the reference against which the readers are checked.
\<close>

type_synonym bytes = "nat list"

definition octets :: "bytes \<Rightarrow> bool" where
  "octets buf = (\<forall>b \<in> set buf. b < 256)"

definition buf_at :: "bytes \<Rightarrow> int \<Rightarrow> nat option" where
  "buf_at buf i = (if 0 \<le> i \<and> i < int (length buf) then Some (buf ! nat i) else None)"

definition bits_of :: "nat option \<Rightarrow> nat" where
  "bits_of b = (case b of None \<Rightarrow> 0 | Some n \<Rightarrow> n)"

section \<open>The readers\<close>

text \<open>\<open>result |= (byte & 0x7f) << shift\<close>\<close>

definition leb_acc :: "int \<Rightarrow> nat \<Rightarrow> int \<Rightarrow> int" where
  "leb_acc result byte shift = js_or result (js_shl (int (byte mod 128)) shift)"

function uleb_loop :: "bytes \<Rightarrow> int \<Rightarrow> int \<Rightarrow> int \<Rightarrow> int \<Rightarrow> int \<times> int" where
  "uleb_loop buf offset result shift n =
     (if offset + n < int (length buf) then
        (let byte = bits_of (buf_at buf (offset + n));
             result' = leb_acc result byte shift in
         if byte mod 256 < 128 then (result', n + 1)
         else uleb_loop buf offset result' (shift + 7) (n + 1))
      else (result, n))"
  by pat_completeness auto
termination
  by (relation "measure (\<lambda>(buf, offset, result, shift, n). nat (int (length buf) - offset - n))") auto

declare uleb_loop.simps [simp del]

definition readUleb128 :: "bytes \<Rightarrow> int \<Rightarrow> int \<times> int" where
  "readUleb128 buf offset = uleb_loop buf offset 0 0 0"

text \<open>The signed reader has no bound, but stops at the first byte without a continuation bit, and
  the element after the end has none.\<close>

function sleb_loop :: "bytes \<Rightarrow> int \<Rightarrow> int \<Rightarrow> int \<Rightarrow> int \<Rightarrow> int \<times> int" where
  "sleb_loop buf offset result shift n =
     (let byte = bits_of (buf_at buf (offset + n));
          result' = leb_acc result byte shift;
          shift' = shift + 7 in
      if byte mod 256 \<ge> 128 then sleb_loop buf offset result' shift' (n + 1)
      else (if shift' < 32 \<and> byte mod 128 \<ge> 64 then js_or result' (js_shl (- 1) shift') else result', n + 1))"
  by pat_completeness auto
termination
  by (relation "measure (\<lambda>(buf, offset, result, shift, n). nat (int (length buf) - offset - n))")
    (auto simp: bits_of_def buf_at_def split: if_splits)

declare sleb_loop.simps [simp del]

definition readSleb128 :: "bytes \<Rightarrow> int \<Rightarrow> int \<times> int" where
  "readSleb128 buf offset = sleb_loop buf offset 0 0 0"

section \<open>Bounds\<close>

lemma uleb_loop_consumed:
  "uleb_loop buf offset r s n = (v, m) \<Longrightarrow> n \<le> m \<and> (offset + n < int (length buf) \<longrightarrow> n < m) \<and>
    (offset + n \<le> int (length buf) \<longrightarrow> offset + m \<le> int (length buf))"
proof (induction buf offset r s n rule: uleb_loop.induct)
  case (1 buf offset r s n)
  show ?case
  proof (cases "offset + n < int (length buf)")
    case False
    then show ?thesis using "1.prems" by (subst (asm) uleb_loop.simps) auto
  next
    case True
    let ?byte = "bits_of (buf_at buf (offset + n))"
    show ?thesis
    proof (cases "?byte mod 256 < 128")
      case small: True
      then show ?thesis using True "1.prems" by (subst (asm) uleb_loop.simps) (auto simp: Let_def)
    next
      case False
      then have "uleb_loop buf offset (leb_acc r ?byte s) (s + 7) (n + 1) = (v, m)"
        using True "1.prems" by (subst (asm) uleb_loop.simps) (simp add: Let_def)
      from "1.IH" [OF True refl refl False this] True show ?thesis by auto
    qed
  qed
qed

lemma uleb_len_nonneg: "0 \<le> snd (readUleb128 buf offset)"
  using uleb_loop_consumed [of buf offset 0 0 0] by (cases "readUleb128 buf offset") (auto simp: readUleb128_def)

lemma sleb_loop_consumed: "sleb_loop buf offset r s n = (v, m) \<Longrightarrow> n < m"
proof (induction buf offset r s n rule: sleb_loop.induct)
  case (1 buf offset r s n)
  let ?byte = "bits_of (buf_at buf (offset + n))"
  show ?case
  proof (cases "?byte mod 256 \<ge> 128")
    case True
    then have "sleb_loop buf offset (leb_acc r ?byte s) (s + 7) (n + 1) = (v, m)"
      using "1.prems" by (subst (asm) sleb_loop.simps) (simp add: Let_def)
    from "1.IH" [OF refl refl refl True this] show ?thesis by simp
  next
    case False
    then show ?thesis using "1.prems" by (subst (asm) sleb_loop.simps) (auto simp: Let_def)
  qed
qed

lemma sleb_len_pos: "0 < snd (readSleb128 buf offset)"
  using sleb_loop_consumed [of buf offset 0 0 0] by (cases "readSleb128 buf offset") (auto simp: readSleb128_def)

section \<open>Round trips\<close>

lemma sint_i32: "- (2 ^ 31) \<le> n \<Longrightarrow> n < 2 ^ 31 \<Longrightarrow> sint (to_i32 n) = n"
  unfolding to_i32_def int_word_sint by simp

lemma sint_i32_wrap: "2 ^ 31 \<le> n \<Longrightarrow> n < 2 ^ 32 \<Longrightarrow> sint (to_i32 n) = n - 2 ^ 32"
proof -
  assume n: "2 ^ 31 \<le> n" "n < 2 ^ 32"
  have "to_i32 n = to_i32 (n - 2 ^ 32)" by (simp add: to_i32_def)
  then show ?thesis using n sint_i32 [of "n - 2 ^ 32"] by simp
qed

fun encode_uleb :: "nat \<Rightarrow> bytes" where
  "encode_uleb n = (if n < 128 then [n] else (n mod 128 + 128) # encode_uleb (n div 128))"

declare encode_uleb.simps [simp del]

lemma div128_smaller:
  "\<not> ((n div 128 = 0 \<and> nat (n mod 128) < 64) \<or> (n div 128 = - 1 \<and> 64 \<le> nat (n mod 128))) \<Longrightarrow>
    nat (abs (n div 128)) < nat (abs (n :: int))"
proof -
  assume a: "\<not> ((n div 128 = 0 \<and> nat (n mod 128) < 64) \<or> (n div 128 = - 1 \<and> 64 \<le> nat (n mod 128)))"
  then have "n \<noteq> 0" "n \<noteq> - 1" by auto
  then have "abs (n div 128) < abs n" by linarith
  then show ?thesis by simp
qed

function encode_sleb :: "int \<Rightarrow> bytes" where
  "encode_sleb n =
     (let b = nat (n mod 128); r = n div 128 in
      if (r = 0 \<and> b < 64) \<or> (r = - 1 \<and> 64 \<le> b) then [b] else (b + 128) # encode_sleb r)"
  by pat_completeness auto
termination
proof (relation "measure (\<lambda>n. nat (abs n))")
  fix n :: int and b :: nat and r :: int
  assume "b = nat (n mod 128)" "r = n div 128" "\<not> (r = 0 \<and> b < 64 \<or> r = - 1 \<and> 64 \<le> b)"
  then have "nat (abs (n div 128)) < nat (abs n)" using div128_smaller [of n] by simp
  then show "(r, n) \<in> measure (\<lambda>n. nat (abs n))" using \<open>r = n div 128\<close> by simp
qed simp

declare encode_sleb.simps [simp del]

text \<open>One more group of seven bits joins the accumulator, as long as the shift stays below the word.\<close>

definition low_bits :: "nat \<Rightarrow> int \<Rightarrow> int" where
  "low_bits k n = sint (to_i32 (take_bit k n))"

lemma leb_acc_step:
  assumes "k < 32" "int (b mod 128) = take_bit 7 (drop_bit k n)"
  shows "leb_acc (low_bits k n) b (int k) = low_bits (k + 7) n"
proof -
  have "to_i32 (take_bit k n) OR push_bit k (to_i32 (take_bit 7 (drop_bit k n))) = to_i32 (take_bit (k + 7) n)"
    by (rule bit_eqI) (auto simp: to_i32_def bit_simps)
  then show ?thesis using assms
    by (simp add: leb_acc_def low_bits_def js_or_def js_shl_def)
qed

lemma low_bits_0 [simp]: "low_bits 0 n = 0"
  by (simp add: low_bits_def to_i32_def)

lemma low_bits_all: "drop_bit k n = 0 \<Longrightarrow> low_bits k n = sint (to_i32 n)"
proof -
  assume "drop_bit k n = 0"
  then have "take_bit k n = n" by (metis take_bit_int_eq_self_iff drop_bit_eq_div bits_ident add.right_neutral mult_zero_left push_bit_of_0 add.commute add_0)
  then show ?thesis by (simp add: low_bits_def)
qed

lemma buf_at_app: "n = int (length pre) \<Longrightarrow> buf_at (pre @ x # post) n = Some x"
  by (simp add: buf_at_def nth_append)

lemma mod_take: "int m = drop_bit k n \<Longrightarrow> int (m mod 128) = take_bit 7 (drop_bit k n)"
  by (simp add: take_bit_eq_mod of_nat_mod)

lemma div_drop: "int m = drop_bit k n \<Longrightarrow> int (m div 128) = drop_bit (k + 7) n"
  by (simp add: drop_bit_eq_div of_nat_div power_add zdiv_zmult2_eq)

lemma uleb_loop_encode:
  "offset + i = int (length pre) \<Longrightarrow> int m = drop_bit k n \<Longrightarrow> k + 7 * length (encode_uleb m) < 39 \<Longrightarrow>
    uleb_loop (pre @ encode_uleb m @ post) offset (low_bits k n) (int k) i =
      (low_bits (k + 7 * length (encode_uleb m)) n, i + int (length (encode_uleb m)))"
proof (induction m arbitrary: pre k i rule: encode_uleb.induct)
  case (1 m)
  show ?case
  proof (cases "m < 128")
    case True
    then have enc: "encode_uleb m = [m]" by (simp add: encode_uleb.simps)
    have "leb_acc (low_bits k n) m (int k) = low_bits (k + 7) n"
      using "1.prems" enc True mod_take [of m k n] by (intro leb_acc_step) auto
    then show ?thesis using "1.prems" True enc
      by (subst uleb_loop.simps) (simp add: buf_at_app bits_of_def Let_def)
  next
    case False
    let ?b = "m mod 128 + 128" and ?rest = "encode_uleb (m div 128)"
    have enc: "encode_uleb m = ?b # ?rest" using False by (subst encode_uleb.simps) simp
    have ne: "?rest \<noteq> []" by (subst encode_uleb.simps) simp
    then have "k < 32" using "1.prems" enc by (cases ?rest) auto
    then have acc: "leb_acc (low_bits k n) ?b (int k) = low_bits (k + 7) n"
      using mod_take [OF "1.prems"(2)] by (intro leb_acc_step) simp_all
    have "uleb_loop ((pre @ [?b]) @ ?rest @ post) offset (low_bits (k + 7) n) (int (k + 7)) (i + 1) =
        (low_bits (k + 7 + 7 * length ?rest) n, i + 1 + int (length ?rest))"
      using "1.prems" enc div_drop [OF "1.prems"(2)] by (intro "1.IH" [OF False]) auto
    then show ?thesis using "1.prems"(1) enc acc
      by (subst uleb_loop.simps) (simp add: buf_at_app bits_of_def Let_def algebra_simps)
  qed
qed

lemma encode_uleb_length: "0 < j \<Longrightarrow> m < 128 ^ j \<Longrightarrow> length (encode_uleb m) \<le> j"
proof (induction m arbitrary: j rule: encode_uleb.induct)
  case (1 m)
  show ?case
  proof (cases "m < 128")
    case True
    then show ?thesis using "1.prems" by (subst encode_uleb.simps) simp
  next
    case False
    then obtain j' where j: "j = Suc j'" "0 < j'" using "1.prems" by (cases j; cases "j - 1") auto
    have "m div 128 < 128 ^ j'" using "1.prems"(2) j by (simp add: less_mult_imp_div_less mult.commute)
    then show ?thesis using "1.IH" [OF False j(2)] j by (subst encode_uleb.simps) (simp add: False)
  qed
qed

lemma encode_uleb_drop: "int m < 128 ^ length (encode_uleb m)"
proof (induction m rule: encode_uleb.induct)
  case (1 m)
  show ?case
  proof (cases "m < 128")
    case False
    then have "int (m div 128) < 128 ^ length (encode_uleb (m div 128))" by (rule "1.IH")
    then have "int m < 128 * 128 ^ length (encode_uleb (m div 128))" by linarith
    then show ?thesis using False by (subst encode_uleb.simps) simp
  qed (subst encode_uleb.simps, simp)
qed

lemma readUleb128_encode:
  assumes "m < 2 ^ 32"
  shows "readUleb128 (pre @ encode_uleb m @ post) (int (length pre)) =
    (sint (to_i32 (int m)), int (length (encode_uleb m)))"
proof -
  let ?l = "length (encode_uleb m)"
  have "?l \<le> 5" using assms by (intro encode_uleb_length) auto
  moreover have "drop_bit (7 * ?l) (int m) = 0"
  proof -
    have "(128::int) ^ ?l = 2 ^ (7 * ?l)" by (simp add: power_mult)
    then show ?thesis using encode_uleb_drop [of m] by (simp add: drop_bit_eq_div)
  qed
  ultimately show ?thesis
    using uleb_loop_encode [of "int (length pre)" 0 pre m 0 "int m" post]
    by (simp add: readUleb128_def low_bits_all)
qed

text \<open>The signed encoding: after the last byte the remaining bits all equal its bit 6.\<close>

lemma smod_take: "r = drop_bit k n \<Longrightarrow> int (nat (r mod 128)) = take_bit 7 (drop_bit k n)"
  by (simp add: take_bit_eq_mod)

lemma sdiv_drop: "r = drop_bit k n \<Longrightarrow> r div 128 = drop_bit (k + 7) (n :: int)"
  by (simp add: drop_bit_eq_div power_add zdiv_zmult2_eq)

lemma low_bits_extend:
  assumes "k < 32" "drop_bit k n = - 1"
  shows "js_or (low_bits k n) (js_shl (- 1) (int k)) = sint (to_i32 n)"
proof -
  have high: "bit n i" if "k \<le> i" for i
    using that assms(2) by (metis bit_drop_bit_eq bit_minus_1_iff le_add_diff_inverse o_apply possible_bit_int)
  have "to_i32 (take_bit k n) OR push_bit k (to_i32 (- 1)) = to_i32 n"
    using high by (intro bit_eqI) (auto simp: to_i32_def bit_simps)
  then show ?thesis using assms(1) by (simp add: low_bits_def js_or_def js_shl_def)
qed

lemma sleb_loop_encode:
  "offset + i = int (length pre) \<Longrightarrow> r = drop_bit k n \<Longrightarrow> k + 7 * length (encode_sleb r) < 39 \<Longrightarrow>
    - (2 ^ 31) \<le> n \<Longrightarrow> n < 2 ^ 31 \<Longrightarrow>
    sleb_loop (pre @ encode_sleb r @ post) offset (low_bits k n) (int k) i =
      (n, i + int (length (encode_sleb r)))"
proof (induction r arbitrary: pre k i rule: encode_sleb.induct)
  case (1 r)
  let ?b = "nat (r mod 128)" and ?r = "r div 128"
  have b: "?b < 128" by simp
  have n: "sint (to_i32 n) = n"
    using "1.prems"(4,5) by (rule sint_i32)
  show ?case
  proof (cases "(?r = 0 \<and> ?b < 64) \<or> (?r = - 1 \<and> 64 \<le> ?b)")
    case True
    then have enc: "encode_sleb r = [?b]" by (subst encode_sleb.simps) (simp add: Let_def)
    have acc: "leb_acc (low_bits k n) ?b (int k) = low_bits (k + 7) n"
      using "1.prems"(3) enc smod_take [OF "1.prems"(2)] b by (intro leb_acc_step) auto
    have rest: "drop_bit (k + 7) n = ?r" using sdiv_drop [OF "1.prems"(2)] by simp
    have "(if int k + 7 < 32 \<and> 64 \<le> ?b then js_or (low_bits (k + 7) n) (js_shl (- 1) (int k + 7))
        else low_bits (k + 7) n) = n"
    proof (cases "?r = 0")
      case True
      then show ?thesis using rest low_bits_all [of "k + 7" n] n
          \<open>(?r = 0 \<and> ?b < 64) \<or> (?r = - 1 \<and> 64 \<le> ?b)\<close> by auto
    next
      case False
      then have neg: "?r = - 1" "64 \<le> ?b" using True by auto
      show ?thesis
      proof (cases "k + 7 < 32")
        case small: True
        then show ?thesis using low_bits_extend [OF small] rest neg n by simp
      next
        case big: False
        have "to_i32 (take_bit (k + 7) n) = to_i32 n"
          using big by (intro bit_eqI) (auto simp: to_i32_def bit_simps)
        then show ?thesis using big n by (simp add: low_bits_def)
      qed
    qed
    moreover have "sleb_loop (pre @ encode_sleb r @ post) offset (low_bits k n) (int k) i =
        (if int k + 7 < 32 \<and> 64 \<le> ?b then js_or (low_bits (k + 7) n) (js_shl (- 1) (int k + 7))
         else low_bits (k + 7) n, i + 1)"
      using "1.prems"(1) enc acc b by (subst sleb_loop.simps) (simp add: buf_at_app bits_of_def Let_def)
    ultimately show ?thesis by (simp only: enc) simp
  next
    case False
    let ?rest = "encode_sleb ?r"
    have enc: "encode_sleb r = (?b + 128) # ?rest" using False by (subst encode_sleb.simps) (simp add: Let_def)
    have ne: "?rest \<noteq> []" by (subst encode_sleb.simps) (simp add: Let_def)
    then have "k < 32" using "1.prems"(3) enc by (cases ?rest) auto
    then have acc: "leb_acc (low_bits k n) (?b + 128) (int k) = low_bits (k + 7) n"
      using smod_take [OF "1.prems"(2)] b by (intro leb_acc_step) simp_all
    have "sleb_loop ((pre @ [?b + 128]) @ ?rest @ post) offset (low_bits (k + 7) n) (int (k + 7)) (i + 1) =
        (n, i + 1 + int (length ?rest))"
      using "1.prems" enc sdiv_drop [OF "1.prems"(2)] by (intro "1.IH" [OF refl refl False]) auto
    then show ?thesis using "1.prems"(1) enc acc b
      by (subst sleb_loop.simps) (simp add: buf_at_app bits_of_def Let_def algebra_simps)
  qed
qed

lemma encode_sleb_length: "0 < j \<Longrightarrow> - (64 * 128 ^ (j - 1)) \<le> r \<Longrightarrow> r < 64 * 128 ^ (j - 1) \<Longrightarrow> length (encode_sleb r) \<le> j"
proof (induction r arbitrary: j rule: encode_sleb.induct)
  case (1 r)
  let ?b = "nat (r mod 128)" and ?r = "r div 128"
  show ?case
  proof (cases "(?r = 0 \<and> ?b < 64) \<or> (?r = - 1 \<and> 64 \<le> ?b)")
    case True
    then show ?thesis using "1.prems"(1) by (subst encode_sleb.simps) (simp add: Let_def)
  next
    case False
    have "j \<noteq> 1"
    proof
      assume "j = 1"
      then have "- 64 \<le> r" "r < 64" using "1.prems" by auto
      then have "(?r = 0 \<and> r mod 128 < 64) \<or> (?r = - 1 \<and> 64 \<le> r mod 128)" by presburger
      then show False using False by auto
    qed
    then obtain j' where j: "j = Suc (Suc j')" using "1.prems"(1) by (cases j; cases "j - 1") auto
    define X :: int where "X = 64 * 128 ^ j'"
    have "- (128 * X) \<le> r" "r < 128 * X" using "1.prems"(2,3) j by (simp_all add: X_def)
    then have "- X \<le> ?r" "?r < X" by linarith+
    then have "- (64 * 128 ^ j') \<le> ?r" "?r < 64 * 128 ^ j'" by (simp_all add: X_def)
    then have "length (encode_sleb ?r) \<le> Suc j'"
      using "1.IH" [OF refl refl False, of "Suc j'"] by simp
    then show ?thesis using False j by (subst encode_sleb.simps) (simp add: Let_def)
  qed
qed

text \<open>C29: Round trip of both LEB128 readers, anywhere inside a buffer: a signed 32-bit number is read
  back from its signed encoding, an unsigned number below $2^{31}$ from its unsigned one, each
  consuming exactly the encoding; an unsigned number from $2^{31}$ on comes back negative,
  because the accumulator is a 32-bit signed integer.\<close>

theorem leb128_roundtrip:
  assumes "m < 2 ^ 32" "- (2 ^ 31) \<le> n" "n < 2 ^ 31"
  shows "readUleb128 (pre @ encode_uleb m @ post) (int (length pre)) =
      (if m < 2 ^ 31 then int m else int m - 2 ^ 32, int (length (encode_uleb m))) \<and>
    readSleb128 (pre @ encode_sleb n @ post) (int (length pre)) = (n, int (length (encode_sleb n)))"
proof -
  have "sint (to_i32 (int m)) = (if m < 2 ^ 31 then int m else int m - 2 ^ 32)"
    using assms(1) sint_i32 [of "int m"] sint_i32_wrap [of "int m"] by simp
  moreover have "length (encode_sleb n) \<le> 5" using assms(2,3) by (intro encode_sleb_length) simp_all
  then have "readSleb128 (pre @ encode_sleb n @ post) (int (length pre)) = (n, int (length (encode_sleb n)))"
    using sleb_loop_encode [of "int (length pre)" 0 pre n 0 n post] assms(2,3)
    by (simp add: readSleb128_def)
  ultimately show ?thesis using readUleb128_encode [OF assms(1)] by simp
qed

theorem leb128_roundtrip_witness:
  "readUleb128 [7, 229, 142, 38, 9] 1 = (624485, 3) \<and> readSleb128 [7, 128, 127, 9] 1 = (- 128, 2) \<and>
   readUleb128 [255, 255, 255, 255, 15] 0 = (- 1, 5)"
proof -
  have e: "encode_uleb 624485 = [229, 142, 38]" "encode_sleb (- 128) = [128, 127]"
    "encode_uleb 4294967295 = [255, 255, 255, 255, 15]"
    by (simp_all add: encode_uleb.simps encode_sleb.simps Let_def)
  show ?thesis
    using leb128_roundtrip [of 624485 "- 128" "[7]" "[9]"] leb128_roundtrip [of 4294967295 "- 128" "[]" "[]"]
    by (simp add: e)
qed

end
