(* ===== verification/Wasm_Opcodes.thy ===== *)
theory Wasm_Opcodes
  imports Leb128
begin

text \<open>
  The opcode table of \<open>src/indexer/wasm-decompiler.ts\<close>, the rendering of opcode bytes, and
  \<open>skipImmediates\<close>, which the decompiler uses to step over the operands of an instruction.
\<close>

section \<open>Mnemonics\<close>

definition OPCODE_NAMES :: "(nat \<times> string) list" where
  "OPCODE_NAMES =
    [(0x00, ''unreachable''), (0x01, ''nop''), (0x02, ''block''), (0x03, ''loop''),
     (0x04, ''if''), (0x05, ''else''), (0x0B, ''end''), (0x0C, ''br''), (0x0D, ''br_if''),
     (0x0E, ''br_table''), (0x0F, ''return''), (0x10, ''call''), (0x11, ''call_indirect''),
     (0x12, ''return_call''), (0x13, ''return_call_indirect''), (0x1A, ''drop''),
     (0x1B, ''select''), (0x20, ''local.get''), (0x21, ''local.set''), (0x22, ''local.tee''),
     (0x23, ''global.get''), (0x24, ''global.set''), (0x25, ''table.get''),
     (0x26, ''table.set''), (0x28, ''i32.load''), (0x29, ''i64.load''), (0x2A, ''f32.load''),
     (0x2B, ''f64.load''), (0x2C, ''i32.load8_s''), (0x2D, ''i32.load8_u''),
     (0x2E, ''i32.load16_s''), (0x2F, ''i32.load16_u''), (0x30, ''i64.load8_s''),
     (0x31, ''i64.load8_u''), (0x32, ''i64.load16_s''), (0x33, ''i64.load16_u''),
     (0x34, ''i64.load32_s''), (0x35, ''i64.load32_u''), (0x36, ''i32.store''),
     (0x37, ''i64.store''), (0x38, ''f32.store''), (0x39, ''f64.store''),
     (0x3A, ''i32.store8''), (0x3B, ''i32.store16''), (0x3C, ''i64.store8''),
     (0x3D, ''i64.store16''), (0x3E, ''i64.store32''), (0x3F, ''memory.size''),
     (0x40, ''memory.grow''), (0x41, ''i32.const''), (0x42, ''i64.const''),
     (0x43, ''f32.const''), (0x44, ''f64.const''), (0x45, ''i32.eqz''), (0x46, ''i32.eq''),
     (0x47, ''i32.ne''), (0x48, ''i32.lt_s''), (0x49, ''i32.lt_u''), (0x4A, ''i32.gt_s''),
     (0x4B, ''i32.gt_u''), (0x4C, ''i32.le_s''), (0x4D, ''i32.le_u''), (0x4E, ''i32.ge_s''),
     (0x4F, ''i32.ge_u''), (0x50, ''i64.eqz''), (0x51, ''i64.eq''), (0x52, ''i64.ne''),
     (0x53, ''i64.lt_s''), (0x54, ''i64.lt_u''), (0x55, ''i64.gt_s''), (0x56, ''i64.gt_u''),
     (0x57, ''i64.le_s''), (0x58, ''i64.le_u''), (0x59, ''i64.ge_s''), (0x5A, ''i64.ge_u''),
     (0x67, ''i32.clz''), (0x68, ''i32.ctz''), (0x69, ''i32.popcnt''), (0x6A, ''i32.add''),
     (0x6B, ''i32.sub''), (0x6C, ''i32.mul''), (0x6D, ''i32.div_s''), (0x6E, ''i32.div_u''),
     (0x6F, ''i32.rem_s''), (0x70, ''i32.rem_u''), (0x71, ''i32.and''), (0x72, ''i32.or''),
     (0x73, ''i32.xor''), (0x74, ''i32.shl''), (0x75, ''i32.shr_s''), (0x76, ''i32.shr_u''),
     (0x77, ''i32.rotl''), (0x78, ''i32.rotr''), (0x79, ''i64.clz''), (0x7A, ''i64.ctz''),
     (0x7B, ''i64.popcnt''), (0x7C, ''i64.add''), (0x7D, ''i64.sub''), (0x7E, ''i64.mul''),
     (0x7F, ''i64.div_s''), (0x80, ''i64.div_u''), (0x81, ''i64.rem_s''), (0x82, ''i64.rem_u''),
     (0x83, ''i64.and''), (0x84, ''i64.or''), (0x85, ''i64.xor''), (0x86, ''i64.shl''),
     (0x87, ''i64.shr_s''), (0x88, ''i64.shr_u''), (0x89, ''i64.rotl''), (0x8A, ''i64.rotr''),
     (0xA7, ''i32.wrap_i64''), (0xA8, ''i32.trunc_f32_s''), (0xA9, ''i32.trunc_f32_u''),
     (0xAA, ''i32.trunc_f64_s''), (0xAB, ''i32.trunc_f64_u''), (0xAC, ''i64.extend_i32_s''),
     (0xAD, ''i64.extend_i32_u''), (0xAE, ''i64.trunc_f32_s''), (0xAF, ''i64.trunc_f32_u''),
     (0xB0, ''i64.trunc_f64_s''), (0xB1, ''i64.trunc_f64_u''), (0xFC, ''misc'')]"

definition hex_digit :: "nat \<Rightarrow> char" where
  "hex_digit d = (if d < 10 then digit_char d else char_of (87 + d))"

text \<open>\<open>byte.toString(16).padStart(2, '0')\<close> for an octet.\<close>

definition hex2 :: "nat \<Rightarrow> string" where
  "hex2 b = [hex_digit (b div 16), hex_digit (b mod 16)]"

definition mnemonic :: "nat \<Rightarrow> string" where
  "mnemonic b = (case map_of OPCODE_NAMES b of Some s \<Rightarrow> s | None \<Rightarrow> ''0x'' @ hex2 b)"

section \<open>Stepping over immediates\<close>

definition skip1 :: "bytes \<Rightarrow> int \<Rightarrow> int" where
  "skip1 buf offset = offset + snd (readUleb128 buf offset)"

text \<open>The loop over the labels of \<open>br_table\<close>.\<close>

function skip_labels :: "bytes \<Rightarrow> int \<Rightarrow> int \<Rightarrow> int \<Rightarrow> int \<Rightarrow> int" where
  "skip_labels buf end count i o' =
     (if i \<le> count \<and> o' < end then skip_labels buf end count (i + 1) (skip1 buf o') else o')"
  by pat_completeness auto
termination
  by (relation "measure (\<lambda>(buf, end, count, i, o'). nat (count + 1 - i))") auto

declare skip_labels.simps [simp del]

definition skipImmediates :: "nat \<Rightarrow> bytes \<Rightarrow> int \<Rightarrow> int \<Rightarrow> int" where
  "skipImmediates opcode buf offset end =
     (if opcode \<in> {0x02, 0x03, 0x04} then skip1 buf offset
      else if opcode \<in> {0x0c, 0x0d} then skip1 buf offset
      else if opcode = 0x0e then
        (case readUleb128 buf offset of (count, countLen) \<Rightarrow>
           skip_labels buf end count 0 (offset + countLen))
      else if opcode = 0x10 then skip1 buf offset
      else if opcode = 0x11 then skip1 buf (skip1 buf offset)
      else if opcode = 0x12 then skip1 buf offset
      else if opcode = 0x13 then skip1 buf (skip1 buf offset)
      else if opcode \<in> {0x20, 0x21, 0x22, 0x23, 0x24, 0x25, 0x26} then skip1 buf offset
      else if 0x28 \<le> opcode \<and> opcode \<le> 0x3e then skip1 buf (skip1 buf offset)
      else if opcode \<in> {0x3f, 0x40} then offset + 1
      else if opcode \<in> {0x41, 0x42} then skip1 buf offset
      else if opcode = 0x43 then offset + 4
      else if opcode = 0x44 then offset + 8
      else if opcode = 0xfc then skip1 buf offset
      else offset)"

lemma skip1_ge: "offset \<le> skip1 buf offset"
  using uleb_len_nonneg [of buf offset] by (simp add: skip1_def)

lemma skip_labels_ge: "o' \<le> skip_labels buf end count i o'"
proof (induction buf "end" count i o' rule: skip_labels.induct)
  case (1 buf "end" count i o')
  show ?case
  proof (cases "i \<le> count \<and> o' < end")
    case True
    with 1 have "skip1 buf o' \<le> skip_labels buf end count (i + 1) (skip1 buf o')" by simp
    with skip1_ge [of o' buf] True show ?thesis by (subst skip_labels.simps) simp
  next
    case False
    then show ?thesis by (subst skip_labels.simps) auto
  qed
qed

lemma skipImmediates_ge: "offset \<le> skipImmediates opcode buf offset end"
proof -
  have "offset \<le> skip1 buf (skip1 buf offset)"
    using skip1_ge [of offset buf] skip1_ge [of "skip1 buf offset" buf] by linarith
  moreover have "offset \<le> skip_labels buf end count 0 (offset + snd (readUleb128 buf offset))" for count
    using uleb_len_nonneg [of buf offset] skip_labels_ge [of "offset + snd (readUleb128 buf offset)" buf "end" count 0]
    by linarith
  ultimately show ?thesis
    using skip1_ge [of offset buf] by (simp add: skipImmediates_def case_prod_beta)
qed

section \<open>Reference encoding of instructions\<close>

text \<open>Instructions by the shape of their immediates, as the binary format defines them; the blocks
  are those with a one-byte block type. Bulk-memory instructions carry the sub-opcode and
  further operands.\<close>

datatype insn =
    Plain nat
  | Block nat nat
  | Index nat nat
  | Index2 nat nat nat
  | Br_table "nat list" nat
  | Mem_arg nat nat nat
  | Mem_size nat
  | I_const nat int
  | F32_const bytes
  | F64_const bytes

fun insn_opcode :: "insn \<Rightarrow> nat" where
  "insn_opcode (Plain b) = b"
| "insn_opcode (Block b t) = b"
| "insn_opcode (Index b i) = b"
| "insn_opcode (Index2 b i j) = b"
| "insn_opcode (Br_table ls d) = 0x0e"
| "insn_opcode (Mem_arg b a o') = b"
| "insn_opcode (Mem_size b) = b"
| "insn_opcode (I_const b n) = b"
| "insn_opcode (F32_const bs) = 0x43"
| "insn_opcode (F64_const bs) = 0x44"

fun insn_operands :: "insn \<Rightarrow> bytes" where
  "insn_operands (Plain b) = []"
| "insn_operands (Block b t) = [t]"
| "insn_operands (Index b i) = encode_uleb i"
| "insn_operands (Index2 b i j) = encode_uleb i @ encode_uleb j"
| "insn_operands (Br_table ls d) = encode_uleb (length ls) @ concat (map encode_uleb (ls @ [d]))"
| "insn_operands (Mem_arg b a o') = encode_uleb a @ encode_uleb o'"
| "insn_operands (Mem_size b) = [0]"
| "insn_operands (I_const b n) = encode_sleb n"
| "insn_operands (F32_const bs) = bs"
| "insn_operands (F64_const bs) = bs"

definition plain_opcodes :: "nat set" where
  "plain_opcodes = {b. b < 256} - ({0x02, 0x03, 0x04, 0x0c, 0x0d, 0x0e, 0x10, 0x11, 0x12, 0x13, 0xfc} \<union> {0x20..0x26} \<union> {0x28..0x44})"

fun insn_ok :: "insn \<Rightarrow> bool" where
  "insn_ok (Plain b) = (b \<in> plain_opcodes)"
| "insn_ok (Block b t) = (b \<in> {0x02, 0x03, 0x04} \<and> t < 128)"
| "insn_ok (Index b i) = (b \<in> {0x0c, 0x0d, 0x10, 0x12} \<union> {0x20..0x26})"
| "insn_ok (Index2 b i j) = (b \<in> {0x11, 0x13})"
| "insn_ok (Br_table ls d) = (length ls < 2 ^ 31)"
| "insn_ok (Mem_arg b a o') = (b \<in> {0x28..0x3e})"
| "insn_ok (Mem_size b) = (b \<in> {0x3f, 0x40})"
| "insn_ok (I_const b n) = (b \<in> {0x41, 0x42})"
| "insn_ok (F32_const bs) = (length bs = 4)"
| "insn_ok (F64_const bs) = (length bs = 8)"

definition encode_insn :: "insn \<Rightarrow> bytes" where
  "encode_insn x = insn_opcode x # insn_operands x"

text \<open>A LEB128 group: continuation bits on all bytes but the last. The length that either reader
  consumes depends on nothing else.\<close>

definition leb_group :: "bytes \<Rightarrow> bool" where
  "leb_group bs = (bs \<noteq> [] \<and> (\<forall>b \<in> set (butlast bs). 128 \<le> b \<and> b < 256) \<and> last bs < 128)"

lemma encode_uleb_group: "leb_group (encode_uleb n)"
proof (induction n rule: encode_uleb.induct)
  case (1 n)
  have ne: "encode_uleb k \<noteq> []" for k by (subst encode_uleb.simps) simp
  show ?case
  proof (cases "n < 128")
    case True
    then show ?thesis by (subst encode_uleb.simps) (simp add: leb_group_def)
  next
    case False
    with 1 ne show ?thesis by (subst encode_uleb.simps) (auto simp: leb_group_def)
  qed
qed

lemma encode_sleb_group: "leb_group (encode_sleb n)"
proof (induction n rule: encode_sleb.induct)
  case (1 n)
  have ne: "encode_sleb k \<noteq> []" for k by (subst encode_sleb.simps) (simp add: Let_def)
  let ?stop = "(n div 128 = 0 \<and> nat (n mod 128) < 64) \<or> (n div 128 = - 1 \<and> 64 \<le> nat (n mod 128))"
  have "nat (n mod 128) < 128" by simp
  show ?case
  proof (cases ?stop)
    case True
    then show ?thesis by (subst encode_sleb.simps) (auto simp: leb_group_def Let_def)
  next
    case False
    with 1 [OF refl refl] ne \<open>nat (n mod 128) < 128\<close> show ?thesis
      by (subst encode_sleb.simps) (auto simp: leb_group_def Let_def)
  qed
qed

lemma uleb_group_length:
  "leb_group bs \<Longrightarrow> offset + n = int (length pre) \<Longrightarrow>
    snd (uleb_loop (pre @ bs @ post) offset r s n) = n + int (length bs)"
proof (induction bs arbitrary: pre n r s)
  case (Cons b bs)
  have here: "buf_at (pre @ b # bs @ post) (offset + n) = Some b"
    using Cons.prems(2) by (simp add: buf_at_app)
  show ?case
  proof (cases bs)
    case Nil
    with Cons.prems here show ?thesis
      by (subst uleb_loop.simps) (simp add: leb_group_def bits_of_def Let_def)
  next
    case (Cons c cs)
    then have b: "128 \<le> b" "b < 256" "leb_group bs" using Cons.prems(1) by (auto simp: leb_group_def)
    have "snd (uleb_loop ((pre @ [b]) @ bs @ post) offset (leb_acc r b s) (s + 7) (n + 1)) =
        n + 1 + int (length bs)"
      using Cons.prems(2) b(3) by (intro Cons.IH) simp_all
    with here b Cons.prems(2) show ?thesis
      by (subst uleb_loop.simps) (simp add: bits_of_def Let_def)
  qed
qed (simp add: leb_group_def)

lemma skip1_group:
  assumes "leb_group bs" shows "skip1 (pre @ bs @ post) (int (length pre)) = int (length pre) + int (length bs)"
  using uleb_group_length [OF assms, of "int (length pre)" 0 pre post 0 0]
  by (simp add: skip1_def readUleb128_def)

lemma skip1_twice:
  assumes "leb_group xs" "leb_group ys"
  shows "skip1 (pre @ xs @ ys @ post) (skip1 (pre @ xs @ ys @ post) (int (length pre))) =
    int (length pre) + int (length xs) + int (length ys)"
  using skip1_group [OF assms(1), of pre "ys @ post"] skip1_group [OF assms(2), of "pre @ xs" post] by simp

lemma skip_labels_groups:
  "\<forall>g \<in> set gs. leb_group g \<Longrightarrow> int (length gs) = count + 1 - i \<Longrightarrow>
    int (length pre + length (concat gs)) \<le> end \<Longrightarrow>
    skip_labels (pre @ concat gs @ post) end count i (int (length pre)) = int (length pre + length (concat gs))"
proof (induction gs arbitrary: pre i)
  case Nil
  then show ?case by (subst skip_labels.simps) simp
next
  case (Cons g gs)
  have "g \<noteq> []" using Cons.prems(1) by (simp add: leb_group_def)
  then have go: "i \<le> count" "int (length pre) < end" using Cons.prems(2,3) by (cases g; simp)+
  have step: "skip1 (pre @ g @ concat gs @ post) (int (length pre)) = int (length (pre @ g))"
    using skip1_group [of g pre "concat gs @ post"] Cons.prems(1) by simp
  have "skip_labels ((pre @ g) @ concat gs @ post) end count (i + 1) (int (length (pre @ g))) =
      int (length (pre @ g) + length (concat gs))"
    using Cons.prems by (intro Cons.IH) auto
  with go step show ?case by (subst skip_labels.simps) simp
qed

lemma skip_operands:
  assumes "insn_ok x" "int (length pre + length (insn_operands x)) \<le> end"
  shows "skipImmediates (insn_opcode x) (pre @ insn_operands x @ post) (int (length pre)) end =
    int (length pre + length (insn_operands x))"
proof (cases x)
  case (Plain b)
  with assms(1) show ?thesis by (auto simp: skipImmediates_def plain_opcodes_def)
next
  case (Block b t)
  have "leb_group [t]" using assms(1) Block by (simp add: leb_group_def)
  with assms(1) Block show ?thesis using skip1_group [of "[t]" pre post]
    by (auto simp: skipImmediates_def)
next
  case (Index b i)
  with assms(1) show ?thesis using skip1_group [OF encode_uleb_group, of pre i post]
    by (auto simp: skipImmediates_def)
next
  case (Index2 b i j)
  with assms(1) show ?thesis using skip1_twice [OF encode_uleb_group encode_uleb_group, of pre i j post]
    by (auto simp: skipImmediates_def)
next
  case (Br_table ls d)
  let ?n = "encode_uleb (length ls)" and ?gs = "map encode_uleb (ls @ [d])"
  have "readUleb128 (pre @ ?n @ concat ?gs @ post) (int (length pre)) = (int (length ls), int (length ?n))"
    using readUleb128_encode [of "length ls" pre "concat ?gs @ post"] assms(1) Br_table
    by (simp add: sint_i32)
  moreover have "skip_labels ((pre @ ?n) @ concat ?gs @ post) end (int (length ls)) 0 (int (length (pre @ ?n))) =
      int (length (pre @ ?n) + length (concat ?gs))"
    using assms(2) Br_table by (intro skip_labels_groups) (auto simp: encode_uleb_group)
  ultimately show ?thesis using Br_table by (simp add: skipImmediates_def)
next
  case (Mem_arg b a o')
  with assms(1) show ?thesis using skip1_twice [OF encode_uleb_group encode_uleb_group, of pre a o' post]
    by (auto simp: skipImmediates_def)
next
  case (I_const b n)
  with assms(1) show ?thesis using skip1_group [OF encode_sleb_group, of pre n post]
    by (auto simp: skipImmediates_def)
qed (use assms(1) in \<open>auto simp: skipImmediates_def\<close>)

end
