(* ===== verification/Wasm_Index.thy ===== *)
theory Wasm_Index
  imports Wasm_Opcodes "HOL-Library.List_Lexorder" "HOL-Library.Char_ord" "HOL-Library.Sublist"
begin

text \<open>
  \<open>src/indexer/wasm-decompiler.ts\<close>, first half: the walk over the sections of a binary, the
  opcode index of its code section, the matching of vulnerability templates, and
  \<open>decompileWasm\<close>. Exceptions are values; the section loop runs on fuel, because a negative
  section size moves it backwards.
\<close>

section \<open>Errors and sections\<close>

datatype wasm_error =
    TooShort
  | BadMagic
  | BadVersion nat
  | BadTypeForm
  | UndefinedByte
  | OutOfRange
  | OutOfFuel

text \<open>\<open>OutOfFuel\<close> is no exception of the code: it marks a nested loop that the fuel did not finish.\<close>

text \<open>The loop that the source writes four times: an identifier byte, a size, and a body that may
  use the section's start and end. \<open>None\<close>: the fuel ran out.\<close>

fun section_loop ::
    "nat \<Rightarrow> bytes \<Rightarrow> (nat option \<Rightarrow> int \<Rightarrow> int \<Rightarrow> 's \<Rightarrow> wasm_error + 's) \<Rightarrow> int \<Rightarrow> 's \<Rightarrow> (wasm_error + 's) option" where
  "section_loop 0 wasm body offset s = None"
| "section_loop (Suc n) wasm body offset s =
     (if offset < int (length wasm) then
        (let sectionId = buf_at wasm offset in
         case readUleb128 wasm (offset + 1) of (sectionSize, sizeLen) \<Rightarrow>
           (let start = offset + 1 + sizeLen; sectionEnd = start + sectionSize in
            case body sectionId start sectionEnd s of
              Inl err \<Rightarrow> Some (Inl err)
            | Inr s' \<Rightarrow> section_loop n wasm body sectionEnd s'))
      else Some (Inr s))"

section \<open>The opcode index\<close>

record op_state =
  o_seq :: "string list"
  o_freq :: "(string, nat) jsmap"

record opcode_index =
  distinctOpcodes :: "string list"
  totalOpcodes :: nat
  frequency :: "(string, nat) jsmap"
  sequence :: "string list"

definition count_of :: "(string, nat) jsmap \<Rightarrow> string \<Rightarrow> nat" where
  "count_of f m = (case jm_get f m of None \<Rightarrow> 0 | Some n \<Rightarrow> n)"

definition push_opcode :: "nat \<Rightarrow> op_state \<Rightarrow> op_state" where
  "push_opcode byte s =
     (let m = mnemonic byte in
      \<lparr>o_seq = o_seq s @ [m], o_freq = jm_set m (count_of (o_freq s) m + 1) (o_freq s)\<rparr>)"

text \<open>Walking the opcodes of one body; a byte beyond the buffer has no \<open>toString\<close>.\<close>

function walk_opcodes :: "bytes \<Rightarrow> int \<Rightarrow> int \<Rightarrow> op_state \<Rightarrow> wasm_error + op_state" where
  "walk_opcodes wasm bodyEnd codeOffset s =
     (if codeOffset < bodyEnd then
        (case buf_at wasm codeOffset of
           None \<Rightarrow> Inl UndefinedByte
         | Some byte \<Rightarrow>
             walk_opcodes wasm bodyEnd (skipImmediates byte wasm (codeOffset + 1) bodyEnd) (push_opcode byte s))
      else Inr s)"
  by pat_completeness auto
termination
proof (relation "measure (\<lambda>(wasm, bodyEnd, codeOffset, s). nat (bodyEnd - codeOffset))")
  fix wasm :: bytes and bodyEnd codeOffset :: int and s :: op_state and byte
  assume "codeOffset < bodyEnd"
  moreover have "codeOffset < skipImmediates byte wasm (codeOffset + 1) bodyEnd"
    using skipImmediates_ge [of "codeOffset + 1" byte wasm bodyEnd] by simp
  ultimately show "((wasm, bodyEnd, skipImmediates byte wasm (codeOffset + 1) bodyEnd, push_opcode byte s),
      wasm, bodyEnd, codeOffset, s) \<in> measure (\<lambda>(wasm, bodyEnd, codeOffset, s). nat (bodyEnd - codeOffset))"
    by simp
qed simp

declare walk_opcodes.simps [simp del]

function skip_locals :: "bytes \<Rightarrow> int \<Rightarrow> int \<Rightarrow> int \<Rightarrow> int \<Rightarrow> int" where
  "skip_locals wasm bodyEnd localCount l codeOffset =
     (if l < localCount \<and> codeOffset < bodyEnd
      then skip_locals wasm bodyEnd localCount (l + 1) (codeOffset + (snd (readUleb128 wasm codeOffset) + 1))
      else codeOffset)"
  by pat_completeness auto
termination
  by (relation "measure (\<lambda>(wasm, bodyEnd, localCount, l, codeOffset). nat (localCount - l))") auto

declare skip_locals.simps [simp del]

function walk_bodies :: "bytes \<Rightarrow> int \<Rightarrow> int \<Rightarrow> int \<Rightarrow> int \<Rightarrow> op_state \<Rightarrow> wasm_error + op_state" where
  "walk_bodies wasm sectionEnd funcCount f bodyOffset s =
     (if f < funcCount \<and> bodyOffset < sectionEnd then
        (case readUleb128 wasm bodyOffset of (bodySize, bodySizeLen) \<Rightarrow>
          (let start = bodyOffset + bodySizeLen; bodyEnd = start + bodySize in
           case readUleb128 wasm start of (localCount, localCountLen) \<Rightarrow>
             (case walk_opcodes wasm bodyEnd
                     (skip_locals wasm bodyEnd localCount 0 (start + localCountLen)) s of
                Inl err \<Rightarrow> Inl err
              | Inr s' \<Rightarrow> walk_bodies wasm sectionEnd funcCount (f + 1) bodyEnd s')))
      else Inr s)"
  by pat_completeness auto
termination
  by (relation "measure (\<lambda>(wasm, sectionEnd, funcCount, f, bodyOffset, s). nat (funcCount - f))") auto

declare walk_bodies.simps [simp del]

definition index_section :: "bytes \<Rightarrow> nat option \<Rightarrow> int \<Rightarrow> int \<Rightarrow> op_state \<Rightarrow> wasm_error + op_state" where
  "index_section wasm sectionId offset sectionEnd s =
     (if sectionId = Some 10 then
        (case readUleb128 wasm offset of (funcCount, funcCountLen) \<Rightarrow>
           walk_bodies wasm sectionEnd funcCount 0 (offset + funcCountLen) s)
      else Inr s)"

definition word_be :: "bytes \<Rightarrow> nat \<Rightarrow> nat" where
  "word_be wasm i = foldl (\<lambda>acc b. acc * 256 + b) 0 (take 4 (drop i wasm))"

definition word_le :: "bytes \<Rightarrow> nat \<Rightarrow> nat" where
  "word_le wasm i = foldl (\<lambda>acc b. acc * 256 + b) 0 (rev (take 4 (drop i wasm)))"

definition check_header :: "bytes \<Rightarrow> wasm_error + unit" where
  "check_header wasm =
     (if length wasm < 8 then Inl TooShort
      else if word_be wasm 0 \<noteq> 0x0061736d then Inl BadMagic
      else if word_le wasm 4 \<noteq> 1 then Inl (BadVersion (word_le wasm 4))
      else Inr ())"

definition finish_index :: "op_state \<Rightarrow> opcode_index" where
  "finish_index s = \<lparr>distinctOpcodes = sort (jm_keys (o_freq s)), totalOpcodes = length (o_seq s),
     frequency = o_freq s, sequence = o_seq s\<rparr>"

definition buildOpcodeIndex :: "nat \<Rightarrow> bytes \<Rightarrow> (wasm_error + opcode_index) option" where
  "buildOpcodeIndex fuel wasm =
     (case check_header wasm of
        Inl err \<Rightarrow> Some (Inl err)
      | Inr _ \<Rightarrow> map_option (map_sum id finish_index)
          (section_loop fuel wasm (index_section wasm) 8 \<lparr>o_seq = [], o_freq = []\<rparr>))"

section \<open>Vulnerability templates\<close>

record vulnerable_template =
  vt_id :: string
  vt_description :: string
  vt_sequence :: "string list"
  vt_maxGap :: "int option"

record vulnerability_match =
  vm_template :: string
  vm_description :: string
  vm_offset :: nat

definition VULNERABLE_TEMPLATES :: "vulnerable_template list" where
  "VULNERABLE_TEMPLATES =
    [\<lparr>vt_id = ''admin-drain'',
      vt_description = ''Admin-drain function: unrestricted global state read followed by an unconditional transfer call'',
      vt_sequence = [''global.get'', ''call'', ''return''], vt_maxGap = Some 3\<rparr>,
     \<lparr>vt_id = ''backdoor-init'',
      vt_description = ''Backdoor initialisation: indirect call with no preceding auth/guard check'',
      vt_sequence = [''call_indirect''], vt_maxGap = Some 0\<rparr>,
     \<lparr>vt_id = ''reentrancy-loop'',
      vt_description = ''Reentrancy-enabling loop: loop body contains an external call followed by a conditional branch back'',
      vt_sequence = [''loop'', ''call'', ''br_if''], vt_maxGap = Some 5\<rparr>,
     \<lparr>vt_id = ''unchecked-division'',
      vt_description = ''Unchecked integer division: divisor is not guarded by an eqz/ne zero-check before division'',
      vt_sequence = [''i64.div_s''], vt_maxGap = Some 0\<rparr>,
     \<lparr>vt_id = ''unchecked-division-u'',
      vt_description = ''Unchecked unsigned integer division: divisor is not guarded before i64.div_u'',
      vt_sequence = [''i64.div_u''], vt_maxGap = Some 0\<rparr>,
     \<lparr>vt_id = ''unreachable-trap'',
      vt_description = ''Deliberate unreachable trap: contract contains an unconditional unreachable instruction that can be triggered to lock funds'',
      vt_sequence = [''unreachable''], vt_maxGap = Some 0\<rparr>,
     \<lparr>vt_id = ''memory-grow-drain'',
      vt_description = ''Unbounded memory growth: memory.grow called without a preceding size check, enabling resource exhaustion'',
      vt_sequence = [''memory.grow''], vt_maxGap = Some 0\<rparr>]"

text \<open>The sliding-window loop: \<open>i\<close> is the position, \<open>p\<close> is \<open>patternIdx\<close>, \<open>w\<close> is \<open>windowStart\<close>.
  Resetting puts \<open>i\<close> back to \<open>w\<close>, and the loop adds one.\<close>

function scan_window :: "'a list \<Rightarrow> 'a list \<Rightarrow> int \<Rightarrow> nat \<Rightarrow> nat \<Rightarrow> nat \<Rightarrow> nat option" where
  "scan_window sq pat maxGap i p w =
     (if i < length sq then
        (if p < length pat \<and> sq ! i = pat ! p then
           (let w' = (if p = 0 then i else w) in
            if Suc p = length pat then Some w'
            else scan_window sq pat maxGap (Suc i) (Suc p) w')
         else if p > 0 then
           (if int i - int w - int p > maxGap then scan_window sq pat maxGap (Suc w) 0 w
            else scan_window sq pat maxGap (Suc i) p w)
         else scan_window sq pat maxGap (Suc i) p w)
      else None)"
  by pat_completeness auto
termination
  by (relation "measures [\<lambda>(sq, pat, maxGap, i, p, w). length sq - (if p = 0 then i else w),
        \<lambda>(sq, pat, maxGap, i, p, w). length sq - i]") auto

declare scan_window.simps [simp del]

definition index_of :: "'a \<Rightarrow> 'a list \<Rightarrow> nat" where
  "index_of x xs = length (takeWhile (\<lambda>y. y \<noteq> x) xs)"

definition match_template :: "opcode_index \<Rightarrow> vulnerable_template \<Rightarrow> vulnerability_match list" where
  "match_template idx t =
     (let pat = vt_sequence t; maxGap = (case vt_maxGap t of None \<Rightarrow> 0 | Some g \<Rightarrow> g);
          hit = (\<lambda>o'. [\<lparr>vm_template = vt_id t, vm_description = vt_description t, vm_offset = o'\<rparr>]) in
      if length pat = 0 then []
      else if length pat = 1 then
        (if count_of (frequency idx) (pat ! 0) > 0 then hit (index_of (pat ! 0) (sequence idx)) else [])
      else (case scan_window (sequence idx) pat maxGap 0 0 0 of None \<Rightarrow> [] | Some w \<Rightarrow> hit w))"

definition matchVulnerableTemplates ::
    "opcode_index \<Rightarrow> vulnerable_template list \<Rightarrow> vulnerability_match list" where
  "matchVulnerableTemplates idx templates = concat (map (match_template idx) templates)"

record decompile_result =
  r_index :: opcode_index
  r_vulnerabilities :: "vulnerability_match list"
  r_has :: bool
  r_warning :: "string option"

definition decompileWasm ::
    "nat \<Rightarrow> bytes \<Rightarrow> vulnerable_template list \<Rightarrow> (wasm_error + decompile_result) option" where
  "decompileWasm fuel wasm templates =
     map_option (map_sum id (\<lambda>idx.
       (let vs = matchVulnerableTemplates idx templates in
        \<lparr>r_index = idx, r_vulnerabilities = vs, r_has = (length vs > 0),
         r_warning =
           (if length vs > 0 then Some (''Unverified contract binary matches '' @ dec_nat (length vs) @
              '' known vulnerable template(s): ['' @ join_with '', '' (map vm_template vs) @
              '']. This deployment may contain malicious backdoors or admin-drain functions. '' @
              ''Review the source code before interacting with this contract.'')
            else None)\<rparr>))) (buildOpcodeIndex fuel wasm)"

end
