(* ===== verification/Wasm_Templates.thy ===== *)
theory Wasm_Templates
  imports Wasm_Index_Props
begin

text \<open>
  What \<open>matchVulnerableTemplates\<close> of \<open>src/indexer/wasm-decompiler.ts\<close> finds: the sliding-window
  loop, which moves its index backwards, is equal to a declarative search for the first
  window. The consequences for the documented meaning of \<open>maxGap\<close> follow.
\<close>

section \<open>Greedy matching\<close>

text \<open>What is left of a pattern after greedily matching a piece of the sequence.\<close>

fun residual :: "'a list \<Rightarrow> 'a list \<Rightarrow> 'a list" where
  "residual pat [] = pat"
| "residual [] (x # xs) = []"
| "residual (p # ps) (x # xs) = residual (if x = p then ps else p # ps) xs"

lemma residual_Nil [simp]: "residual [] xs = []"
  by (cases xs) auto

lemma subseq_residual: "subseq pat (xs @ ys) \<longleftrightarrow> subseq (residual pat xs) ys"
proof (induction pat xs rule: residual.induct)
  case (3 p ps x xs)
  then show ?case by (cases "x = p") (auto simp: subseq_Cons2_iff)
qed auto

lemma residual_snoc:
  "residual pat (xs @ [x]) = (case residual pat xs of [] \<Rightarrow> [] | p # ps \<Rightarrow> if x = p then ps else p # ps)"
  by (induction pat xs rule: residual.induct) (auto split: list.splits)

lemma subseq_same_length: "subseq xs ys \<Longrightarrow> length ys \<le> length xs \<Longrightarrow> xs = ys"
  by (metis le_antisym list_emb_length subseq_same_length)

lemma subseq_take_self: "subseq (take n xs) xs"
  by (rule prefix_imp_subseq) (rule take_is_prefix)

section \<open>The declarative search\<close>

text \<open>A window at \<open>w\<close>: it starts with the first pattern element and contains the pattern as a
  subsequence within at most \<open>maxGap + 1\<close> other opcodes altogether.\<close>

definition window_at :: "'a list \<Rightarrow> 'a list \<Rightarrow> nat \<Rightarrow> nat \<Rightarrow> 'a list" where
  "window_at sq pat gap w = take (length pat + gap + 1) (drop w sq)"

definition window_hit :: "'a list \<Rightarrow> 'a list \<Rightarrow> nat \<Rightarrow> nat \<Rightarrow> bool" where
  "window_hit sq pat gap w = (sq ! w = hd pat \<and> subseq pat (window_at sq pat gap w))"

lemma scan_mid:
  assumes "w < i" "i \<le> length sq" "0 < p" "p < length pat"
    "drop p pat = residual pat (take (i - w) (drop w sq))" "p \<le> i - w" "i - w - p \<le> gap + 1"
  shows "if subseq pat (window_at sq pat gap w) then scan_window sq pat (int gap) i p w = Some w
    else scan_window sq pat (int gap) i p w = scan_window sq pat (int gap) (Suc w) 0 w \<or>
      (scan_window sq pat (int gap) i p w = None \<and> \<not> subseq pat (drop w sq))"
  using assms
proof (induction "length sq - i" arbitrary: i p)
  case 0
  have "take (i - w) (drop w sq) = drop w sq" using 0 by simp
  then have "residual pat (drop w sq) = drop p pat" using "0.prems"(5) by simp
  then have "residual pat (drop w sq) \<noteq> []" using "0.prems"(4) by auto
  then have "\<not> subseq pat (drop w sq)"
    using subseq_residual [of pat "drop w sq" "[]"] by auto
  moreover from this have "\<not> subseq pat (window_at sq pat gap w)"
    by (metis window_at_def subseq_order.trans subseq_take_self)
  moreover have "scan_window sq pat (int gap) i p w = None"
    using 0 by (subst scan_window.simps) simp
  ultimately show ?case by simp
next
  case (Suc n)
  let ?rem = "drop p pat" and ?budget = "gap + 1 - (i - w - p)"
  have i: "i < length sq" using Suc.hyps(2) by simp
  have snoc: "take (Suc i - w) (drop w sq) = take (i - w) (drop w sq) @ [sq ! i]"
    using i Suc.prems(1) by (simp add: Suc_diff_le take_Suc_conv_app_nth)
  have rem: "?rem = pat ! p # drop (Suc p) pat" using Suc.prems(4) by (simp add: Cons_nth_drop_Suc)
  have res: "residual pat (take (Suc i - w) (drop w sq)) =
      (if sq ! i = pat ! p then drop (Suc p) pat else drop p pat)"
    unfolding snoc residual_snoc Suc.prems(5) [symmetric] rem by simp
  have "window_at sq pat gap w = take (i - w) (drop w sq) @ take (length ?rem + ?budget) (drop i sq)"
  proof -
    have "length pat + gap + 1 = (i - w) + (length ?rem + ?budget)" using Suc.prems(1,4,6,7) by simp
    then show ?thesis using Suc.prems(1,2) by (simp only: window_at_def take_add) simp
  qed
  then have win: "subseq pat (window_at sq pat gap w) \<longleftrightarrow> subseq ?rem (take (length ?rem + ?budget) (drop i sq))"
    by (simp only: subseq_residual Suc.prems(5) [symmetric])
  have rest: "drop i sq = sq ! i # drop (Suc i) sq" using i by (simp add: Cons_nth_drop_Suc)
  have step: "scan_window sq pat (int gap) i p w =
      (if sq ! i = pat ! p then
         (if Suc p = length pat then Some w else scan_window sq pat (int gap) (Suc i) (Suc p) w)
       else if int i - int w - int p > int gap then scan_window sq pat (int gap) (Suc w) 0 w
       else scan_window sq pat (int gap) (Suc i) p w)"
    using i Suc.prems(3,4) by (subst scan_window.simps) (simp add: Let_def)
  show ?case
  proof (cases "sq ! i = pat ! p")
    case match: True
    show ?thesis
    proof (cases "Suc p = length pat")
      case True
      then have "?rem = [pat ! p]" using rem by simp
      then have "subseq ?rem (take (length ?rem + ?budget) (drop i sq))" using rest match by simp
      then show ?thesis using win step match True by simp
    next
      case False
      have "if subseq pat (window_at sq pat gap w) then scan_window sq pat (int gap) (Suc i) (Suc p) w = Some w
        else scan_window sq pat (int gap) (Suc i) (Suc p) w = scan_window sq pat (int gap) (Suc w) 0 w \<or>
          (scan_window sq pat (int gap) (Suc i) (Suc p) w = None \<and> \<not> subseq pat (drop w sq))"
        using Suc.prems False i res match Suc.hyps(2) by (intro Suc.hyps(1)) auto
      then show ?thesis using step match False by simp
    qed
  next
    case differ: False
    show ?thesis
    proof (cases "i - w - p = gap + 1")
      case True
      have "\<not> subseq ?rem (take (length ?rem) (drop i sq))"
      proof
        assume "subseq ?rem (take (length ?rem) (drop i sq))"
        then have "?rem = take (length ?rem) (drop i sq)" by (rule subseq_same_length) simp
        then show False using rem rest differ by simp
      qed
      moreover have "int i - int w - int p > int gap" using True Suc.prems(1,6) by linarith
      ultimately show ?thesis using win step differ True by simp
    next
      case False
      then have "\<not> int i - int w - int p > int gap" using Suc.prems(7) by linarith
      moreover have "if subseq pat (window_at sq pat gap w) then scan_window sq pat (int gap) (Suc i) p w = Some w
        else scan_window sq pat (int gap) (Suc i) p w = scan_window sq pat (int gap) (Suc w) 0 w \<or>
          (scan_window sq pat (int gap) (Suc i) p w = None \<and> \<not> subseq pat (drop w sq))"
        using Suc.prems False i res differ Suc.hyps(2) by (intro Suc.hyps(1)) auto
      ultimately show ?thesis using step differ by simp
    qed
  qed
qed

lemma subseq_drop_mono: "subseq pat (drop w' sq) \<Longrightarrow> w \<le> w' \<Longrightarrow> subseq pat (drop w sq)"
  by (metis drop_drop le_add_diff_inverse2 subseq_order.trans suffix_drop suffix_imp_subseq)

lemma scan_start:
  assumes "2 \<le> length pat"
  shows "scan_window sq pat (int gap) i 0 w0 = List.find (window_hit sq pat gap) [i..<length sq]"
proof (induction "length sq - i" arbitrary: i w0)
  case 0
  then show ?case by (subst scan_window.simps) simp
next
  case (Suc n)
  then have i: "i < length sq" by simp
  then have upt: "[i..<length sq] = i # [Suc i..<length sq]" by (simp add: upt_conv_Cons)
  have IH: "scan_window sq pat (int gap) (Suc i) 0 w = List.find (window_hit sq pat gap) [Suc i..<length sq]" for w
    using Suc.hyps by (intro Suc.hyps(1)) simp
  have hd: "pat ! 0 = hd pat" "pat \<noteq> []" using assms by (cases pat; auto)+
  show ?case
  proof (cases "sq ! i = hd pat")
    case False
    then have "scan_window sq pat (int gap) i 0 w0 = scan_window sq pat (int gap) (Suc i) 0 w0"
      using i assms hd by (subst scan_window.simps) simp
    then show ?thesis using IH False by (simp add: upt window_hit_def del: upt_Suc)
  next
    case True
    have eq: "scan_window sq pat (int gap) i 0 w0 = scan_window sq pat (int gap) (Suc i) 1 i"
      using True i assms hd by (subst scan_window.simps) (simp add: Let_def)
    have "take 1 (drop i sq) = [sq ! i]" using i by (simp add: take_Suc_conv_app_nth)
    then have "drop 1 pat = residual pat (take (Suc i - i) (drop i sq))"
      using True assms by (cases pat) (auto simp: drop_Suc)
    then have mid: "if subseq pat (window_at sq pat gap i) then scan_window sq pat (int gap) (Suc i) 1 i = Some i
      else scan_window sq pat (int gap) (Suc i) 1 i = scan_window sq pat (int gap) (Suc i) 0 i \<or>
        (scan_window sq pat (int gap) (Suc i) 1 i = None \<and> \<not> subseq pat (drop i sq))"
      using i assms by (intro scan_mid) auto
    show ?thesis
    proof (cases "subseq pat (window_at sq pat gap i)")
      case sub: True
      then have "window_hit sq pat gap i" using True by (simp add: window_hit_def)
      then show ?thesis using mid sub eq by (simp add: upt del: upt_Suc)
    next
      case False
      then have no: "\<not> window_hit sq pat gap i" by (simp add: window_hit_def)
      from mid False consider "scan_window sq pat (int gap) (Suc i) 1 i = scan_window sq pat (int gap) (Suc i) 0 i"
        | "scan_window sq pat (int gap) (Suc i) 1 i = None" "\<not> subseq pat (drop i sq)" by auto
      then show ?thesis
      proof cases
        case 1
        then show ?thesis using eq IH no by (simp add: upt del: upt_Suc)
      next
        case 2
        have "\<not> window_hit sq pat gap w" if "i \<le> w" for w
          using 2(2) that subseq_drop_mono [of pat w sq i] subseq_take_self [of _ "drop w sq"]
          by (auto simp: window_hit_def window_at_def dest: subseq_order.trans)
        then have "List.find (window_hit sq pat gap) [i..<length sq] = None" by (auto simp: find_None_iff)
        then show ?thesis using eq 2(1) by simp
      qed
    qed
  qed
qed

text \<open>The sliding-window loop, although it moves its index backwards, terminates and finds exactly
  the first window: for a pattern of at least two opcodes it reports the smallest position that
  holds the first opcode and from which the whole pattern occurs in order with at most
  \<open>maxGap + 1\<close> other opcodes in between altogether; otherwise it reports nothing.\<close>

theorem template_search_exact:
  assumes "2 \<le> length (vt_sequence t)" "vt_maxGap t = Some (int gap)"
  shows "match_template idx t =
    (case List.find (window_hit (sequence idx) (vt_sequence t) gap) [0..<length (sequence idx)] of
       None \<Rightarrow> []
     | Some w \<Rightarrow> [\<lparr>vm_template = vt_id t, vm_description = vt_description t, vm_offset = w\<rparr>])"
  using assms scan_start [OF assms(1), of "sequence idx" gap 0 0]
  by (auto simp: match_template_def Let_def split: option.split)

definition idx_of :: "string list \<Rightarrow> opcode_index" where
  "idx_of sq = \<lparr>distinctOpcodes = [], totalOpcodes = length sq, frequency = [], sequence = sq\<rparr>"

definition pair_template :: "int option \<Rightarrow> vulnerable_template" where
  "pair_template g = \<lparr>vt_id = ''t'', vt_description = [], vt_sequence = [''loop'', ''call''], vt_maxGap = g\<rparr>"

theorem template_search_exact_witness:
  "map vm_offset (match_template (idx_of [''call'', ''loop'', ''nop'', ''nop'', ''loop'', ''nop'', ''call''])
     (pair_template (Some 0))) = [4]"
proof -
  let ?idx = "idx_of [''call'', ''loop'', ''nop'', ''nop'', ''loop'', ''nop'', ''call'']"
  let ?t = "pair_template (Some 0)"
  have t: "2 \<le> length (vt_sequence ?t)" "vt_maxGap ?t = Some (int 0)" by (simp_all add: pair_template_def)
  have "[0..<length (sequence ?idx)] = [0, 1, 2, 3, 4, 5, 6]" by (simp add: idx_of_def upt_conv_Cons)
  then have "List.find (window_hit (sequence ?idx) (vt_sequence ?t) 0) [0..<length (sequence ?idx)] = Some 4"
    by (simp only:) (simp add: window_hit_def window_at_def idx_of_def pair_template_def)
  then show ?thesis by (simp only: template_search_exact [OF t]) simp
qed

text \<open>The gap limit is not what its documentation says, in both directions: a template with gap 0,
  documented as a strictly consecutive match, matches across one foreign opcode; and a
  sequence whose gaps between consecutive elements are all within the limit of the shipped
  admin-drain template escapes it, because the limit is charged for the whole window.\<close>

theorem max_gap_misread:
  "match_template (idx_of [''loop'', ''nop'', ''call'']) (pair_template None) \<noteq> [] \<and>
   match_template (idx_of [''global.get'', ''nop'', ''nop'', ''nop'', ''call'', ''nop'', ''nop'', ''nop'', ''return''])
     (VULNERABLE_TEMPLATES ! 0) = []"
  by (simp add: match_template_def idx_of_def pair_template_def VULNERABLE_TEMPLATES_def Let_def scan_window.simps)

section \<open>Bulk-memory instructions\<close>

text \<open>A valid module with one function: \<open>memory.fill\<close> (prefix 0xfc, sub-opcode 11, memory index 0) and
  \<open>end\<close>.\<close>

definition fill_module :: bytes where
  "fill_module = wasm_header @ [10, 7, 1, 5, 0, 0xfc, 11, 0, 0x0b]"

lemma uleb_small:
  assumes "buf_at buf o' = Some b" "b < 128" shows "readUleb128 buf o' = (int b, 1)"
proof -
  have "o' < int (length buf)" using assms(1) by (simp add: buf_at_def split: if_splits)
  moreover have "leb_acc 0 b 0 = int b"
    using leb_acc_step [of 0 b "int b"] assms(2) low_bits_all [of 7 "int b"] sint_i32 [of "int b"]
    by (simp add: take_bit_eq_mod drop_bit_eq_div)
  ultimately show ?thesis using assms
    by (subst readUleb128_def, subst uleb_loop.simps) (simp add: bits_of_def Let_def)
qed

lemma fill_bytes:
  "buf_at fill_module 8 = Some 10" "buf_at fill_module 9 = Some 7" "buf_at fill_module 10 = Some 1"
  "buf_at fill_module 11 = Some 5" "buf_at fill_module 12 = Some 0" "buf_at fill_module 13 = Some 0xfc"
  "buf_at fill_module 14 = Some 11" "buf_at fill_module 15 = Some 0" "buf_at fill_module 16 = Some 0x0b"
  "length fill_module = 17"
  by (simp_all add: fill_module_def wasm_header_def buf_at_def)

lemma fill_reads:
  "readUleb128 fill_module 9 = (7, 1)" "readUleb128 fill_module 10 = (1, 1)"
  "readUleb128 fill_module 11 = (5, 1)" "readUleb128 fill_module 12 = (0, 1)"
  "readUleb128 fill_module 14 = (11, 1)"
  using fill_bytes by (simp_all add: uleb_small)

lemma fill_decoded:
  "buildOpcodeIndex 2 fill_module = Some (Inr (finish_index (push_opcode 0x0b (push_opcode 0 (push_opcode 0xfc
     \<lparr>o_seq = [], o_freq = []\<rparr>)))))"
proof -
  let ?s = "\<lparr>o_seq = [], o_freq = []\<rparr> :: op_state"
  have skips: "skipImmediates 0xfc fill_module 14 17 = 15" "skipImmediates 0 fill_module 16 17 = 16"
    "skipImmediates 0x0b fill_module 17 17 = 17"
    by (simp_all add: skipImmediates_def skip1_def fill_reads)
  have "walk_opcodes fill_module 17 13 ?s = Inr (push_opcode 0x0b (push_opcode 0 (push_opcode 0xfc ?s)))"
    using skips fill_bytes by (simp add: walk_opcodes.simps [of fill_module 17])
  then have "walk_bodies fill_module 17 1 0 11 ?s = Inr (push_opcode 0x0b (push_opcode 0 (push_opcode 0xfc ?s)))"
    by (simp add: walk_bodies.simps [of fill_module] fill_reads skip_locals.simps)
  then have "section_loop 2 fill_module (index_section fill_module) 8 ?s =
      Some (Inr (push_opcode 0x0b (push_opcode 0 (push_opcode 0xfc ?s))))"
    by (simp add: eval_nat_numeral index_section_def fill_bytes fill_reads)
  moreover have "check_header fill_module = Inr ()"
    by (simp add: check_header_def fill_module_def wasm_header_def word_be_def word_le_def)
  ultimately show ?thesis by (simp add: buildOpcodeIndex_def)
qed

text \<open>The operands of prefixed instructions are not skipped: a valid function that only fills memory
  is decoded with an \<open>unreachable\<close> instruction that it does not contain, and the shipped
  templates then warn of a deliberate trap.\<close>

theorem bulk_memory_false_alarm:
  "\<exists>r. decompileWasm 2 fill_module VULNERABLE_TEMPLATES = Some (Inr r) \<and>
     sequence (r_index r) = [''misc'', ''unreachable'', ''end''] \<and>
     map vm_template (r_vulnerabilities r) = [''unreachable-trap''] \<and> r_has r"
proof -
  have names: "mnemonic 0xfc = ''misc''" "mnemonic 0 = ''unreachable''" "mnemonic 0x0b = ''end''"
    by (simp_all add: mnemonic_def OPCODE_NAMES_def)
  define I where "I = finish_index (push_opcode 0x0b (push_opcode 0 (push_opcode 0xfc \<lparr>o_seq = [], o_freq = []\<rparr>)))"
  have I: "sequence I = [''misc'', ''unreachable'', ''end'']"
    "frequency I = [(''misc'', 1), (''unreachable'', 1), (''end'', 1)]"
    by (simp_all add: I_def push_opcode_def names finish_index_def count_of_def jm_get_def jm_set_def Let_def)
  have scans: "scan_window (sequence I) [''global.get'', ''call'', ''return''] 3 0 0 0 = None"
    "scan_window (sequence I) [''loop'', ''call'', ''br_if''] 5 0 0 0 = None"
    by (simp_all add: I scan_window.simps [of "[''misc'', ''unreachable'', ''end'']"])
  have counts: "count_of (frequency I) ''call_indirect'' = 0" "count_of (frequency I) ''i64.div_s'' = 0"
    "count_of (frequency I) ''i64.div_u'' = 0" "count_of (frequency I) ''unreachable'' = 1"
    "count_of (frequency I) ''memory.grow'' = 0"
    by (simp_all add: I count_of_def jm_get_def)
  have "map vm_template (matchVulnerableTemplates I VULNERABLE_TEMPLATES) = [''unreachable-trap'']"
    by (simp add: matchVulnerableTemplates_def VULNERABLE_TEMPLATES_def match_template_def scans counts Let_def)
  moreover from this have "0 < length (matchVulnerableTemplates I VULNERABLE_TEMPLATES)"
    by (metis length_greater_0_conv list.simps(8) neq_Nil_conv)
  ultimately show ?thesis
    by (auto simp: decompileWasm_def fill_decoded I_def [symmetric] I Let_def)
qed

end
