(* ===== verification/Wasm_Module.thy ===== *)
theory Wasm_Module
  imports Wasm_Index_Props
begin

text \<open>
  \<open>src/indexer/wasm-decompiler.ts\<close>, the module reader: \<open>parseWasmSections\<close> and
  \<open>parseWasmModule\<close> with one definition per section. \<open>utf8\<close>, an argument, decodes the bytes of
  a name. A \<open>for\<close> loop over a count that was read from the binary is \<open>repeat_e\<close>; a count below
  one runs it no time.
\<close>

section \<open>Reading helpers\<close>

fun repeat_e :: "nat \<Rightarrow> ('s \<Rightarrow> 'e + 's) \<Rightarrow> 's \<Rightarrow> 'e + 's" where
  "repeat_e 0 f s = Inr s"
| "repeat_e (Suc n) f s = (case f s of Inl err \<Rightarrow> Inl err | Inr s' \<Rightarrow> repeat_e n f s')"

text \<open>\<open>buf.toString('utf8', start, end)\<close> and \<open>buf.slice(start, end)\<close> for non-negative bounds.\<close>

definition buf_slice :: "bytes \<Rightarrow> int \<Rightarrow> int \<Rightarrow> bytes" where
  "buf_slice buf a b =
     take (nat (min b (int (length buf)) - max a 0)) (drop (nat (max a 0)) buf)"

definition readString :: "(bytes \<Rightarrow> string) \<Rightarrow> bytes \<Rightarrow> int \<Rightarrow> string \<times> int" where
  "readString utf8 buf offset =
     (case readUleb128 buf offset of (len, lenBytes) \<Rightarrow>
        (let start = offset + lenBytes in (utf8 (buf_slice buf start (start + len)), lenBytes + len)))"

definition sectionNameFromId :: "nat option \<Rightarrow> string" where
  "sectionNameFromId i =
     (case i of None \<Rightarrow> ''unknown''
      | Some n \<Rightarrow>
         if n = 0 then ''custom'' else if n = 1 then ''type'' else if n = 2 then ''import''
         else if n = 3 then ''function'' else if n = 4 then ''table'' else if n = 5 then ''memory''
         else if n = 6 then ''global'' else if n = 7 then ''export'' else if n = 8 then ''start''
         else if n = 9 then ''element'' else if n = 10 then ''code'' else if n = 11 then ''data''
         else ''unknown'')"

text \<open>\<open>code.toString(16)\<close> without padding; an undefined code has no \<open>toString\<close>.\<close>

definition hex_nat :: "nat \<Rightarrow> string" where
  "hex_nat b = (if b < 16 then [hex_digit b] else hex2 b)"

definition valTypeName :: "nat option \<Rightarrow> wasm_error + string" where
  "valTypeName c =
     (case c of None \<Rightarrow> Inl UndefinedByte
      | Some n \<Rightarrow> Inr
         (if n = 0x7f then ''i32'' else if n = 0x7e then ''i64'' else if n = 0x7d then ''f32''
          else if n = 0x7c then ''f64'' else ''unknown(0x'' @ hex_nat n @ '')''))"

datatype entity_kind = Func | Table | Memory | Global | Unknown

definition exportKindName :: "nat option \<Rightarrow> entity_kind" where
  "exportKindName k =
     (if k = Some 0 then Func else if k = Some 1 then Table else if k = Some 2 then Memory
      else if k = Some 3 then Global else Unknown)"

section \<open>Module data\<close>

record wasm_type =
  params :: "string list"
  results :: "string list"

datatype import_meta =
    Table_meta "nat option" int "int option"
  | Memory_meta int "int option" bool

record import_entry =
  im_module :: string
  im_name :: string
  im_kind :: entity_kind
  im_typeIndex :: "int option"
  im_type :: "string option"
  im_host :: "bool option"
  im_meta :: "import_meta option"
  im_mutable :: "bool option"

record export_entry =
  ex_name :: string
  ex_kind :: entity_kind
  ex_index :: int

record memory_entry =
  me_min :: int
  me_max :: "int option"
  me_shared :: bool

record global_entry =
  gl_index :: nat
  gl_type :: string
  gl_mutable :: bool

record wasm_module =
  m_types :: "wasm_type list"
  m_imports :: "import_entry list"
  m_exports :: "export_entry list"
  m_memories :: "memory_entry list"
  m_globals :: "global_entry list"
  m_ftypes :: "int list"
  m_imported :: nat
  m_names :: "(int, string) jsmap"

record section_summary =
  ss_id :: "nat option"
  ss_name :: string
  ss_size :: int
  ss_custom :: "string option"

definition typeSignature :: "wasm_type \<Rightarrow> string" where
  "typeSignature t =
     ''('' @ join_with '', '' (params t) @ '') -> ('' @ join_with '', '' (results t) @ '')''"

section \<open>parseWasmSections\<close>

definition summarise_section ::
    "(bytes \<Rightarrow> string) \<Rightarrow> bytes \<Rightarrow> nat option \<Rightarrow> int \<Rightarrow> int \<Rightarrow> section_summary list
      \<Rightarrow> wasm_error + section_summary list" where
  "summarise_section utf8 wasm sectionId offset sectionEnd acc =
     Inr (acc @ [\<lparr>ss_id = sectionId, ss_name = sectionNameFromId sectionId, ss_size = sectionEnd - offset,
        ss_custom = (if sectionId = Some 0 then Some (fst (readString utf8 wasm offset)) else None)\<rparr>])"

definition parseWasmSections ::
    "nat \<Rightarrow> (bytes \<Rightarrow> string) \<Rightarrow> bytes \<Rightarrow> (wasm_error + section_summary list) option" where
  "parseWasmSections fuel utf8 wasm = section_loop fuel wasm (summarise_section utf8 wasm) 8 []"

section \<open>The sections of parseWasmModule\<close>

text \<open>A vector of value types from \<open>pos\<close>: position and names.\<close>

definition val_types :: "bytes \<Rightarrow> int \<Rightarrow> int \<Rightarrow> wasm_error + (int \<times> string list)" where
  "val_types wasm count pos =
     repeat_e (nat count) (\<lambda>(pos, ts). case valTypeName (buf_at wasm pos) of Inl err \<Rightarrow> Inl err
        | Inr t \<Rightarrow> Inr (pos + 1, ts @ [t])) (pos, [])"

definition one_type :: "bytes \<Rightarrow> int \<times> wasm_type list \<Rightarrow> wasm_error + (int \<times> wasm_type list)" where
  "one_type wasm s =
     (case s of (pos, ts) \<Rightarrow>
        if buf_at wasm pos \<noteq> Some 0x60 then Inl BadTypeForm
        else (case readUleb128 wasm (pos + 1) of (paramCount, paramLen) \<Rightarrow>
          (case val_types wasm paramCount (pos + 1 + paramLen) of Inl err \<Rightarrow> Inl err
           | Inr (pos1, ps) \<Rightarrow>
              (case readUleb128 wasm pos1 of (resultCount, resultLen) \<Rightarrow>
                (case val_types wasm resultCount (pos1 + resultLen) of Inl err \<Rightarrow> Inl err
                 | Inr (pos2, rs) \<Rightarrow> Inr (pos2, ts @ [\<lparr>params = ps, results = rs\<rparr>]))))))"

definition type_section :: "bytes \<Rightarrow> int \<Rightarrow> wasm_module \<Rightarrow> wasm_error + wasm_module" where
  "type_section wasm offset m =
     (case readUleb128 wasm offset of (count, countLen) \<Rightarrow>
        (case repeat_e (nat count) (one_type wasm) (offset + countLen, m_types m) of Inl err \<Rightarrow> Inl err
         | Inr (pos, ts) \<Rightarrow> Inr (m\<lparr>m_types := ts\<rparr>)))"

text \<open>Limits: flags, minimum, and a maximum when bit 0 of the flags is set.\<close>

definition read_limits :: "bytes \<Rightarrow> int \<Rightarrow> int \<times> int \<times> int option \<times> bool" where
  "read_limits wasm pos =
     (case readUleb128 wasm pos of (flags, flagsLen) \<Rightarrow>
        (case readUleb128 wasm (pos + flagsLen) of (mn, minLen) \<Rightarrow>
          (let pos1 = pos + flagsLen + minLen; shared = (js_and flags 2 \<noteq> 0) in
           if js_and flags 1 \<noteq> 0 then
             (case readUleb128 wasm pos1 of (mx, maxLen) \<Rightarrow> (pos1 + maxLen, mn, Some mx, shared))
           else (pos1, mn, None, shared))))"

text \<open>\<open>types[typeIndex]\<close> of a negative index is undefined, and \<open>typeSignature\<close> raises on it.\<close>

definition import_signature :: "wasm_type list \<Rightarrow> int \<Rightarrow> wasm_error + string option" where
  "import_signature ts i =
     (if i < int (length ts) then (if i < 0 then Inl UndefinedByte else Inr (Some (typeSignature (ts ! nat i))))
      else Inr None)"

definition import_desc ::
    "bytes \<Rightarrow> wasm_type list \<Rightarrow> nat option \<Rightarrow> int \<Rightarrow> import_entry \<Rightarrow> wasm_error + (int \<times> import_entry)" where
  "import_desc wasm ts kind pos entry =
     (if kind = Some 0 then
        (case readUleb128 wasm pos of (typeIndex, typeLen) \<Rightarrow>
           (case import_signature ts typeIndex of Inl err \<Rightarrow> Inl err
            | Inr sg \<Rightarrow> Inr (pos + typeLen, entry\<lparr>im_kind := Func, im_typeIndex := Some typeIndex,
                im_type := sg, im_host := Some (starts_with ''soroban_'' (im_module entry) \<or>
                  im_module entry = ''env'')\<rparr>)))
      else if kind = Some 1 then
        (case read_limits wasm (pos + 1) of (pos', mn, mx, _) \<Rightarrow>
           Inr (pos', entry\<lparr>im_kind := Table, im_meta := Some (Table_meta (buf_at wasm pos) mn mx)\<rparr>))
      else if kind = Some 2 then
        (case read_limits wasm pos of (pos', mn, mx, shared) \<Rightarrow>
           Inr (pos', entry\<lparr>im_kind := Memory, im_meta := Some (Memory_meta mn mx shared)\<rparr>))
      else if kind = Some 3 then
        (case valTypeName (buf_at wasm pos) of Inl err \<Rightarrow> Inl err
         | Inr t \<Rightarrow> Inr (pos + 2, entry\<lparr>im_kind := Global, im_type := Some t,
              im_mutable := Some (buf_at wasm (pos + 1) = Some 1)\<rparr>))
      else Inr (pos, entry))"

definition one_import ::
    "(bytes \<Rightarrow> string) \<Rightarrow> bytes \<Rightarrow> wasm_type list \<Rightarrow> int \<times> import_entry list \<times> nat
      \<Rightarrow> wasm_error + (int \<times> import_entry list \<times> nat)" where
  "one_import utf8 wasm ts s =
     (case s of (pos, imports, n) \<Rightarrow>
        (case readString utf8 wasm pos of (md, moduleLen) \<Rightarrow>
          (case readString utf8 wasm (pos + moduleLen) of (nm, nameLen) \<Rightarrow>
            (let pos1 = pos + moduleLen + nameLen; kind = buf_at wasm pos1;
                 entry = \<lparr>im_module = md, im_name = nm, im_kind = Unknown, im_typeIndex = None,
                   im_type = None, im_host = None, im_meta = None, im_mutable = None\<rparr> in
             case import_desc wasm ts kind (pos1 + 1) entry of Inl err \<Rightarrow> Inl err
             | Inr (pos2, e) \<Rightarrow> Inr (pos2, imports @ [e], if kind = Some 0 then Suc n else n)))))"

definition import_section :: "(bytes \<Rightarrow> string) \<Rightarrow> bytes \<Rightarrow> int \<Rightarrow> wasm_module \<Rightarrow> wasm_error + wasm_module" where
  "import_section utf8 wasm offset m =
     (case readUleb128 wasm offset of (count, countLen) \<Rightarrow>
        (case repeat_e (nat count) (one_import utf8 wasm (m_types m)) (offset + countLen, m_imports m, m_imported m) of
           Inl err \<Rightarrow> Inl err
         | Inr (pos, is, n) \<Rightarrow> Inr (m\<lparr>m_imports := is, m_imported := n\<rparr>)))"

definition function_section :: "bytes \<Rightarrow> int \<Rightarrow> wasm_module \<Rightarrow> wasm_error + wasm_module" where
  "function_section wasm offset m =
     (case readUleb128 wasm offset of (count, countLen) \<Rightarrow>
        (case repeat_e (nat count) (\<lambda>(pos, xs). case readUleb128 wasm pos of (i, l) \<Rightarrow> Inr (pos + l, xs @ [i]))
                (offset + countLen, m_ftypes m) of
           Inl err \<Rightarrow> Inl err
         | Inr (pos, xs) \<Rightarrow> Inr (m\<lparr>m_ftypes := xs\<rparr>)))"

definition memory_section :: "bytes \<Rightarrow> int \<Rightarrow> wasm_module \<Rightarrow> wasm_error + wasm_module" where
  "memory_section wasm offset m =
     (case readUleb128 wasm offset of (count, countLen) \<Rightarrow>
        (case repeat_e (nat count) (\<lambda>(pos, xs). case read_limits wasm pos of (pos', mn, mx, sh) \<Rightarrow>
                  Inr (pos', xs @ [\<lparr>me_min = mn, me_max = mx, me_shared = sh\<rparr>]))
                (offset + countLen, m_memories m) of
           Inl err \<Rightarrow> Inl err
         | Inr (pos, xs) \<Rightarrow> Inr (m\<lparr>m_memories := xs\<rparr>)))"

text \<open>\<open>while (wasm[pos++] !== 0x0b && pos < sectionEnd)\<close>\<close>

function skip_init :: "bytes \<Rightarrow> int \<Rightarrow> int \<Rightarrow> int" where
  "skip_init wasm sectionEnd pos =
     (if buf_at wasm pos \<noteq> Some 0x0b \<and> pos + 1 < sectionEnd then skip_init wasm sectionEnd (pos + 1) else pos + 1)"
  by pat_completeness auto
termination
  by (relation "measure (\<lambda>(wasm, sectionEnd, pos). nat (sectionEnd - pos))") auto

declare skip_init.simps [simp del]

definition one_global ::
    "bytes \<Rightarrow> int \<Rightarrow> int \<times> global_entry list \<Rightarrow> wasm_error + (int \<times> global_entry list)" where
  "one_global wasm sectionEnd s =
     (case s of (pos, gs) \<Rightarrow>
        (case valTypeName (buf_at wasm pos) of Inl err \<Rightarrow> Inl err
         | Inr t \<Rightarrow> Inr (skip_init wasm sectionEnd (pos + 2),
             gs @ [\<lparr>gl_index = length gs, gl_type = t, gl_mutable = (buf_at wasm (pos + 1) = Some 1)\<rparr>])))"

definition global_section :: "bytes \<Rightarrow> int \<Rightarrow> int \<Rightarrow> wasm_module \<Rightarrow> wasm_error + wasm_module" where
  "global_section wasm offset sectionEnd m =
     (case readUleb128 wasm offset of (count, countLen) \<Rightarrow>
        (case repeat_e (nat count) (one_global wasm sectionEnd) (offset + countLen, m_globals m) of
           Inl err \<Rightarrow> Inl err
         | Inr (pos, gs) \<Rightarrow> Inr (m\<lparr>m_globals := gs\<rparr>)))"

definition one_export ::
    "(bytes \<Rightarrow> string) \<Rightarrow> bytes \<Rightarrow> int \<times> export_entry list \<times> (int, string) jsmap
      \<Rightarrow> wasm_error + (int \<times> export_entry list \<times> (int, string) jsmap)" where
  "one_export utf8 wasm s =
     (case s of (pos, es, names) \<Rightarrow>
        (case readString utf8 wasm pos of (nm, nameLen) \<Rightarrow>
          (let kind = buf_at wasm (pos + nameLen) in
           case readUleb128 wasm (pos + nameLen + 1) of (index, idxLen) \<Rightarrow>
             Inr (pos + nameLen + 1 + idxLen,
               es @ [\<lparr>ex_name = nm, ex_kind = exportKindName kind, ex_index = index\<rparr>],
               if kind = Some 0 then jm_set index nm names else names))))"

definition export_section :: "(bytes \<Rightarrow> string) \<Rightarrow> bytes \<Rightarrow> int \<Rightarrow> wasm_module \<Rightarrow> wasm_error + wasm_module" where
  "export_section utf8 wasm offset m =
     (case readUleb128 wasm offset of (count, countLen) \<Rightarrow>
        (case repeat_e (nat count) (one_export utf8 wasm) (offset + countLen, m_exports m, m_names m) of
           Inl err \<Rightarrow> Inl err
         | Inr (pos, es, names) \<Rightarrow> Inr (m\<lparr>m_exports := es, m_names := names\<rparr>)))"

definition one_name ::
    "(bytes \<Rightarrow> string) \<Rightarrow> bytes \<Rightarrow> int \<times> (int, string) jsmap \<Rightarrow> wasm_error + (int \<times> (int, string) jsmap)" where
  "one_name utf8 wasm s =
     (case s of (pos, names) \<Rightarrow>
        (case readUleb128 wasm pos of (idx, idxLen) \<Rightarrow>
          (case readString utf8 wasm (pos + idxLen) of (nm, nameLen) \<Rightarrow>
             Inr (pos + idxLen + nameLen, jm_set idx nm names))))"

text \<open>The subsections of the name section; a negative subsection size moves back, hence the fuel.\<close>

fun name_loop ::
    "nat \<Rightarrow> (bytes \<Rightarrow> string) \<Rightarrow> bytes \<Rightarrow> int \<Rightarrow> int \<Rightarrow> (int, string) jsmap \<Rightarrow> wasm_error + (int, string) jsmap" where
  "name_loop 0 utf8 wasm sectionEnd pos names = Inl OutOfFuel"
| "name_loop (Suc n) utf8 wasm sectionEnd pos names =
     (if pos < sectionEnd then
        (case readUleb128 wasm (pos + 1) of (subSize, subSizeLen) \<Rightarrow>
          (let pos1 = pos + 1 + subSizeLen in
           if buf_at wasm pos = Some 1 then
             (case readUleb128 wasm pos1 of (nameCount, nameCountLen) \<Rightarrow>
                (case repeat_e (nat nameCount) (one_name utf8 wasm) (pos1 + nameCountLen, names) of
                   Inl err \<Rightarrow> Inl err
                 | Inr (pos2, names') \<Rightarrow> name_loop n utf8 wasm sectionEnd pos2 names'))
           else name_loop n utf8 wasm sectionEnd (pos1 + subSize) names))
      else Inr names)"

definition custom_section ::
    "nat \<Rightarrow> (bytes \<Rightarrow> string) \<Rightarrow> bytes \<Rightarrow> int \<Rightarrow> int \<Rightarrow> wasm_module \<Rightarrow> wasm_error + wasm_module" where
  "custom_section fuel utf8 wasm offset sectionEnd m =
     (case readString utf8 wasm offset of (customName, customNameLen) \<Rightarrow>
        if customName = ''name'' then
          (case name_loop fuel utf8 wasm sectionEnd (offset + customNameLen) (m_names m) of
             Inl err \<Rightarrow> Inl err
           | Inr names \<Rightarrow> Inr (m\<lparr>m_names := names\<rparr>))
        else Inr m)"

definition module_section ::
    "nat \<Rightarrow> (bytes \<Rightarrow> string) \<Rightarrow> bytes \<Rightarrow> nat option \<Rightarrow> int \<Rightarrow> int \<Rightarrow> wasm_module \<Rightarrow> wasm_error + wasm_module" where
  "module_section fuel utf8 wasm sectionId offset sectionEnd m =
     (if sectionId = Some 1 then type_section wasm offset m
      else if sectionId = Some 2 then import_section utf8 wasm offset m
      else if sectionId = Some 3 then function_section wasm offset m
      else if sectionId = Some 5 then memory_section wasm offset m
      else if sectionId = Some 6 then global_section wasm offset sectionEnd m
      else if sectionId = Some 7 then export_section utf8 wasm offset m
      else if sectionId = Some 0 then custom_section fuel utf8 wasm offset sectionEnd m
      else Inr m)"

definition empty_module :: wasm_module where
  "empty_module = \<lparr>m_types = [], m_imports = [], m_exports = [], m_memories = [], m_globals = [],
     m_ftypes = [], m_imported = 0, m_names = []\<rparr>"

definition parseWasmModule ::
    "nat \<Rightarrow> (bytes \<Rightarrow> string) \<Rightarrow> bytes \<Rightarrow> (wasm_error + wasm_module) option" where
  "parseWasmModule fuel utf8 wasm = section_loop fuel wasm (module_section fuel utf8 wasm) 8 empty_module"

end
