(* ===== verification/Wasm_Functions.thy ===== *)
theory Wasm_Functions
  imports Wasm_Module
begin

text \<open>
  \<open>src/indexer/wasm-decompiler.ts\<close>, function analysis: \<open>readInstruction\<close>, the classification of
  instructions into calls, host calls, storage operations and pseudo code,
  \<open>buildFunctionCFG\<close>, \<open>buildCallGraph\<close> and \<open>analyzeWasmContract\<close>. \<open>sha\<close>, an argument, is the
  hexadecimal SHA-256 digest.
\<close>

section \<open>readInstruction\<close>

record instruction =
  i_offset :: int
  i_mnemonic :: string
  i_immediates :: "int list"
  i_raw :: string

definition hex_string :: "bytes \<Rightarrow> string" where
  "hex_string bs = concat (map hex2 bs)"

definition raw_at :: "bytes \<Rightarrow> int \<Rightarrow> int \<Rightarrow> string" where
  "raw_at wasm a b = hex_string (buf_slice wasm a b)"

text \<open>\<open>Number(bigint)\<close>: rounding to 53 significant bits, ties to even.\<close>

fun excess_bits :: "nat \<Rightarrow> nat" where
  "excess_bits n = (if n < 2 ^ 53 then 0 else Suc (excess_bits (n div 2)))"

declare excess_bits.simps [simp del]

definition round_double :: "nat \<Rightarrow> int" where
  "round_double n =
     (let k = excess_bits n; q = n div 2 ^ k; r = n mod 2 ^ k in
      if k = 0 then int n
      else if 2 ^ (k - 1) < r \<or> (r = 2 ^ (k - 1) \<and> odd q) then int ((q + 1) * 2 ^ k) else int (q * 2 ^ k))"

text \<open>Little-endian reads raise when they reach beyond the buffer.\<close>

definition read_le :: "nat \<Rightarrow> bytes \<Rightarrow> int \<Rightarrow> wasm_error + nat" where
  "read_le n wasm offset =
     (if 0 \<le> offset \<and> offset + int n \<le> int (length wasm)
      then Inr (foldl (\<lambda>acc b. acc * 256 + b) 0 (rev (take n (drop (nat offset) wasm))))
      else Inl OutOfRange)"

definition read_label :: "bytes \<Rightarrow> int \<times> int list \<Rightarrow> int \<times> int list" where
  "read_label wasm s =
     (case s of (o', vs) \<Rightarrow> (case readUleb128 wasm o' of (v, l) \<Rightarrow> (o' + l, vs @ [v])))"

definition br_labels :: "bytes \<Rightarrow> int \<Rightarrow> int \<Rightarrow> int \<times> int list" where
  "br_labels wasm count offset = ((read_label wasm) ^^ nat (count + 1)) (offset, [count])"

text \<open>The immediates of an opcode and the offset behind them.\<close>

definition read_immediates :: "nat \<Rightarrow> bytes \<Rightarrow> int \<Rightarrow> wasm_error + (int \<times> int list)" where
  "read_immediates opcode wasm offset =
     (if opcode \<in> {0x02, 0x03, 0x04} then
        (case readSleb128 wasm offset of (v, l) \<Rightarrow> Inr (offset + l, [v]))
      else if opcode \<in> {0x0c, 0x0d, 0x10, 0x12} then
        (case readUleb128 wasm offset of (v, l) \<Rightarrow> Inr (offset + l, [v]))
      else if opcode \<in> {0x11, 0x13} then
        (case readUleb128 wasm offset of (v1, l1) \<Rightarrow>
          (case readUleb128 wasm (offset + l1) of (v2, l2) \<Rightarrow> Inr (offset + l1 + l2, [v1, v2])))
      else if opcode \<in> {0x20, 0x21, 0x22, 0x23, 0x24, 0x25, 0x26} then
        (case readUleb128 wasm offset of (v, l) \<Rightarrow> Inr (offset + l, [v]))
      else if opcode = 0x0e then
        (case readUleb128 wasm offset of (count, countLen) \<Rightarrow> Inr (br_labels wasm count (offset + countLen)))
      else if opcode \<in> {0x3f, 0x40} then
        (case readUleb128 wasm offset of (v, l) \<Rightarrow> Inr (offset + l, [v]))
      else if opcode \<in> {0x41, 0x42} then
        (case readSleb128 wasm offset of (v, l) \<Rightarrow> Inr (offset + l, [v]))
      else if opcode = 0x43 then
        (case read_le 4 wasm offset of Inl err \<Rightarrow> Inl err | Inr v \<Rightarrow> Inr (offset + 4, [int v]))
      else if opcode = 0x44 then
        (case read_le 8 wasm offset of Inl err \<Rightarrow> Inl err | Inr v \<Rightarrow> Inr (offset + 8, [round_double v]))
      else if opcode = 0xfc then
        (case readUleb128 wasm offset of (v, l) \<Rightarrow> Inr (offset + l, [v]))
      else Inr (offset, []))"

definition readInstruction :: "bytes \<Rightarrow> int \<Rightarrow> wasm_error + (instruction \<times> int)" where
  "readInstruction wasm offset =
     (case buf_at wasm offset of
        None \<Rightarrow> Inl UndefinedByte
      | Some opcode \<Rightarrow>
          (case read_immediates opcode wasm (offset + 1) of
             Inl err \<Rightarrow> Inl err
           | Inr (nextOffset, imms) \<Rightarrow>
               Inr (\<lparr>i_offset = offset, i_mnemonic = mnemonic opcode, i_immediates = imms,
                     i_raw = raw_at wasm offset nextOffset\<rparr>, nextOffset)))"

lemma br_labels_ge: "offset \<le> fst (br_labels wasm count offset)"
proof -
  have "fst s \<le> fst ((read_label wasm ^^ n) s)" for n s
  proof (induction n)
    case (Suc n)
    let ?t = "(read_label wasm ^^ n) s"
    have "fst ?t \<le> fst (read_label wasm ?t)"
      using uleb_len_nonneg [of wasm "fst ?t"] by (simp add: read_label_def case_prod_beta)
    with Suc show ?case by simp
  qed simp
  from this [of "(offset, [count])" "nat (count + 1)"] show ?thesis by (simp add: br_labels_def)
qed

lemma read_immediates_ge:
  assumes "read_immediates opcode wasm offset = Inr (n, imms)" shows "offset \<le> n"
proof -
  have u: "offset \<le> offset + snd (readUleb128 wasm offset)" for offset
    using uleb_len_nonneg by simp
  have u2: "offset \<le> offset + snd (readUleb128 wasm offset) +
      snd (readUleb128 wasm (offset + snd (readUleb128 wasm offset)))"
    using u [of offset] u [of "offset + snd (readUleb128 wasm offset)"] by simp
  have b: "offset \<le> fst (br_labels wasm count (offset + snd (readUleb128 wasm offset)))" for count
    using br_labels_ge [of "offset + snd (readUleb128 wasm offset)" wasm count] u [of offset] by simp
  then have b': "br_labels wasm count (offset + snd (readUleb128 wasm offset)) = (n, imms) \<Longrightarrow> offset \<le> n" for count
    by (metis fst_conv)
  show ?thesis
    using assms u [of offset] u2 sleb_len_pos [of wasm offset] b'
    by (auto simp: read_immediates_def case_prod_beta split: if_splits sum.splits)
qed

lemma readInstruction_next: "readInstruction wasm offset = Inr (x, n) \<Longrightarrow> offset < n"
  by (auto simp: readInstruction_def split: option.splits sum.splits dest!: read_immediates_ge)

section \<open>Decoding a body\<close>

function decode_insns :: "bytes \<Rightarrow> int \<Rightarrow> int \<Rightarrow> wasm_error + instruction list" where
  "decode_insns wasm bodyEnd offset =
     (if offset < bodyEnd then
        (case readInstruction wasm offset of
           Inl err \<Rightarrow> Inl err
         | Inr (x, n) \<Rightarrow>
             (case decode_insns wasm bodyEnd n of Inl err \<Rightarrow> Inl err | Inr xs \<Rightarrow> Inr (x # xs)))
      else Inr [])"
  by pat_completeness auto
termination
  by (relation "measure (\<lambda>(wasm, bodyEnd, offset). nat (bodyEnd - offset))")
    (auto dest!: readInstruction_next)

declare decode_insns.simps [simp del]

definition one_local :: "bytes \<Rightarrow> int \<times> string list \<Rightarrow> wasm_error + (int \<times> string list)" where
  "one_local wasm s =
     (case s of (pos, ts) \<Rightarrow>
        (case readUleb128 wasm pos of (count, countLen) \<Rightarrow>
          (case valTypeName (buf_at wasm (pos + countLen)) of Inl err \<Rightarrow> Inl err
           | Inr t \<Rightarrow> Inr (pos + countLen + 1, ts @ replicate (nat count) t))))"

section \<open>Classifying instructions\<close>

datatype call_kind = Internal | Imported | Indirect

record call_info =
  ci_target :: int
  ci_name :: string
  ci_kind :: call_kind
  ci_offset :: int

record host_call =
  hc_module :: string
  hc_name :: string
  hc_offset :: int

datatype storage_kind = ReadOp | WriteOp

record storage_op =
  so_kind :: storage_kind
  so_insn :: string
  so_offset :: int

record fun_scan =
  fs_calls :: "call_info list"
  fs_host :: "host_call list"
  fs_storage :: "storage_op list"
  fs_lines :: "string list"
  fs_branches :: nat

definition join_ints :: "int list \<Rightarrow> string" where
  "join_ints xs = join_with '', '' (map dec_int xs)"

definition imm0 :: "instruction \<Rightarrow> int" where
  "imm0 x = (case i_immediates x of [] \<Rightarrow> 0 | v # _ \<Rightarrow> v)"

text \<open>\<open>xs[i]\<close> with an index that may be negative.\<close>

definition elem_at :: "'a list \<Rightarrow> int \<Rightarrow> 'a option" where
  "elem_at xs i = (if 0 \<le> i \<and> i < int (length xs) then Some (xs ! nat i) else None)"

definition target_name :: "wasm_module \<Rightarrow> int \<Rightarrow> string" where
  "target_name m i = (case jm_get (m_names m) i of None \<Rightarrow> ''func_'' @ dec_int i | Some n \<Rightarrow> n)"

definition host_import :: "wasm_module \<Rightarrow> int \<Rightarrow> import_entry option" where
  "host_import m i = List.find (\<lambda>imp. im_kind imp = Func \<and>
     im_typeIndex imp = elem_at (m_ftypes m) (i - int (m_imported m))) (m_imports m)"

definition pseudo_line :: "wasm_module \<Rightarrow> instruction \<Rightarrow> string" where
  "pseudo_line m x =
     (let mn = i_mnemonic x; args = join_ints (i_immediates x); v = dec_int (imm0 x) in
      if mn = ''local.get'' then ''stack.push(local_'' @ v @ '')''
      else if mn = ''local.set'' then ''local_'' @ v @ '' = stack.pop()''
      else if mn = ''local.tee'' then ''local_'' @ v @ '' = stack.top()''
      else if mn = ''global.get'' then ''stack.push(global_'' @ v @ '')''
      else if mn = ''global.set'' then ''global_'' @ v @ '' = stack.pop()''
      else if mn = ''call'' then target_name m (imm0 x) @ ''('' @ args @ '')''
      else if mn = ''call_indirect'' then ''call_indirect(type='' @ v @ '')''
      else if mn = ''br_if'' then ''if (stack.pop()) goto label_'' @ v
      else if mn = ''br'' then ''goto label_'' @ v
      else if mn = ''loop'' then ''loop''
      else if mn = ''if'' then ''if (stack.pop()) {''
      else if mn = ''else'' then ''} else {''
      else if mn = ''end'' then ''}''
      else if mn = ''return'' then ''return''
      else if mn \<in> {''i32.const'', ''i64.const'', ''f32.const'', ''f64.const''} then
        ''stack.push('' @ args @ '')''
      else if mn \<in> {''i32.load'', ''i64.load'', ''i32.store'', ''i64.store''} then mn @ '' ['' @ args @ '']''
      else if args = [] then mn else mn @ '' '' @ args)"

definition scan_insn :: "wasm_module \<Rightarrow> instruction \<Rightarrow> fun_scan \<Rightarrow> fun_scan" where
  "scan_insn m x s =
     (let mn = i_mnemonic x; s1 = s\<lparr>fs_lines := fs_lines s @ [pseudo_line m x]\<rparr> in
      if mn = ''call'' then
        (let t = imm0 x; nm = target_name m t;
             k = (if t < int (m_imported m) then Imported else Internal);
             s2 = s1\<lparr>fs_calls := fs_calls s @ [\<lparr>ci_target = t, ci_name = nm, ci_kind = k, ci_offset = i_offset x\<rparr>]\<rparr> in
         if k = Imported then
           s2\<lparr>fs_host := fs_host s @
             [\<lparr>hc_module = (case host_import m t of None \<Rightarrow> ''unknown'' | Some imp \<Rightarrow> im_module imp),
               hc_name = (case host_import m t of None \<Rightarrow> nm | Some imp \<Rightarrow> im_name imp),
               hc_offset = i_offset x\<rparr>]\<rparr>
         else s2)
      else if mn \<in> {''call_indirect'', ''br_if'', ''loop'', ''if''} then
        s1\<lparr>fs_branches := fs_branches s + 1\<rparr>
      else if mn \<in> {''i32.load'', ''i64.load'', ''i32.store'', ''i64.store''} then
        s1\<lparr>fs_storage := fs_storage s @
          [\<lparr>so_kind = (if ends_with ''.load'' mn then ReadOp else WriteOp), so_insn = mn, so_offset = i_offset x\<rparr>]\<rparr>
      else s1)"

definition scan_insns :: "wasm_module \<Rightarrow> instruction list \<Rightarrow> fun_scan" where
  "scan_insns m xs =
     fold (scan_insn m) xs \<lparr>fs_calls = [], fs_host = [], fs_storage = [], fs_lines = [], fs_branches = 0\<rparr>"

section \<open>The control-flow graph of a function\<close>

record basic_block =
  bb_id :: nat
  bb_insns :: "string list"
  bb_succ :: "nat list"

record fun_cfg =
  cfg_entry :: nat
  cfg_blocks :: "basic_block list"
  cfg_loops :: "nat list"

text \<open>Block \<open>n\<close> stands for the identifier \<open>block_n\<close>. The instructions of a block are their raw
  hexadecimal texts.\<close>

record cfg_state =
  cs_blocks :: "basic_block list"
  cs_id :: nat
  cs_insns :: "string list"
  cs_loops :: "nat list"

definition ends_block :: "string \<Rightarrow> bool" where
  "ends_block mn = (mn \<in> {''br'', ''br_if'', ''br_table'', ''return'', ''end'', ''else''})"

definition cfg_step :: "instruction \<Rightarrow> cfg_state \<Rightarrow> cfg_state" where
  "cfg_step x s =
     (let s1 = s\<lparr>cs_insns := cs_insns s @ [i_raw x],
            cs_loops := (if i_mnemonic x = ''loop'' then cs_loops s @ [cs_id s] else cs_loops s)\<rparr> in
      if ends_block (i_mnemonic x) then
        s1\<lparr>cs_blocks := cs_blocks s @ [\<lparr>bb_id = cs_id s, bb_insns = cs_insns s1, bb_succ = []\<rparr>],
           cs_id := cs_id s + 1, cs_insns := []\<rparr>
      else s1)"

definition last_or_empty :: "string list \<Rightarrow> string" where
  "last_or_empty xs = (if xs = [] then [] else last xs)"

definition falls_through :: "basic_block list \<Rightarrow> basic_block \<Rightarrow> bool" where
  "falls_through blocks b =
     (\<not> starts_with ''br'' (last_or_empty (bb_insns b)) \<and> \<not> starts_with ''return'' (last_or_empty (bb_insns b)) \<and>
      blocks \<noteq> [] \<and> bb_id b \<noteq> bb_id (last blocks))"

definition link_blocks :: "basic_block list \<Rightarrow> basic_block list" where
  "link_blocks blocks =
     map (\<lambda>i. let b = blocks ! i in
        if falls_through blocks b then b\<lparr>bb_succ := bb_succ b @ [bb_id (blocks ! (i + 1))]\<rparr> else b)
       [0..<length blocks]"

definition collect_blocks :: "instruction list \<Rightarrow> cfg_state" where
  "collect_blocks xs = fold cfg_step xs \<lparr>cs_blocks = [], cs_id = 0, cs_insns = [], cs_loops = []\<rparr>"

definition buildFunctionCFG :: "instruction list \<Rightarrow> fun_cfg" where
  "buildFunctionCFG xs =
     (let s = collect_blocks xs;
          blocks = (if length (cs_insns s) > 0
            then cs_blocks s @ [\<lparr>bb_id = cs_id s, bb_insns = cs_insns s, bb_succ = []\<rparr>] else cs_blocks s)
      in \<lparr>cfg_entry = 0, cfg_blocks = link_blocks blocks, cfg_loops = cs_loops s\<rparr>)"

section \<open>Function analysis\<close>

datatype complexity = Low | Medium | High

record function_analysis =
  fa_index :: int
  fa_name :: string
  fa_export :: "string option"
  fa_selector :: "string option"
  fa_signature :: wasm_type
  fa_params :: "string list"
  fa_returns :: "string list"
  fa_locals :: "string list"
  fa_insns :: "instruction list"
  fa_pseudo :: string
  fa_cfg :: fun_cfg
  fa_complexity :: complexity
  fa_lines :: nat
  fa_cyclomatic :: nat
  fa_calls :: "call_info list"
  fa_storage :: "storage_op list"
  fa_host :: "host_call list"
  fa_map :: "(nat \<times> int \<times> nat) list"

definition nl :: string where
  "nl = [char_of (10 :: nat)]"

definition numbered :: "string \<Rightarrow> 'a list \<Rightarrow> string list" where
  "numbered nm xs = map (\<lambda>i. nm @ dec_nat i) [0..<length xs]"

definition signature_of :: "wasm_module \<Rightarrow> nat \<Rightarrow> wasm_type" where
  "signature_of m body =
     (case elem_at (m_ftypes m) (int body) of None \<Rightarrow> \<lparr>params = [], results = []\<rparr>
      | Some t \<Rightarrow> (case elem_at (m_types m) t of None \<Rightarrow> \<lparr>params = [], results = []\<rparr> | Some ty \<Rightarrow> ty))"

definition export_name :: "wasm_module \<Rightarrow> int \<Rightarrow> string option" where
  "export_name m i = map_option ex_name
     (List.find (\<lambda>e. ex_kind e = Func \<and> ex_index e = i) (m_exports m))"

definition analyse_function ::
    "(string \<Rightarrow> string) \<Rightarrow> wasm_module \<Rightarrow> nat \<Rightarrow> string list \<Rightarrow> instruction list \<Rightarrow> function_analysis" where
  "analyse_function sha m body localTypes xs =
     (let idx = int (m_imported m + body); ex = export_name m idx; sg = signature_of m body;
          s = scan_insns m xs; cyc = max 1 (fs_branches s + 1)
      in \<lparr>fa_index = idx,
          fa_name = (case jm_get (m_names m) idx of Some n \<Rightarrow> n
             | None \<Rightarrow> (case ex of Some n \<Rightarrow> n | None \<Rightarrow> ''func_'' @ dec_int idx)),
          fa_export = ex,
          fa_selector = (case ex of None \<Rightarrow> None | Some n \<Rightarrow> if n = [] then None else Some (take 10 (sha n))),
          fa_signature = sg, fa_params = numbered ''arg'' (params sg), fa_returns = numbered ''ret'' (results sg),
          fa_locals = localTypes, fa_insns = xs, fa_pseudo = join_with nl (fs_lines s),
          fa_cfg = buildFunctionCFG xs,
          fa_complexity = (if cyc \<le> 2 then Low else if cyc \<le> 5 then Medium else High),
          fa_lines = length (fs_lines s), fa_cyclomatic = cyc, fa_calls = fs_calls s,
          fa_storage = fs_storage s, fa_host = fs_host s,
          fa_map = map (\<lambda>i. (i, i_offset (xs ! i), i)) [0..<length xs]\<rparr>)"

text \<open>The bodies of a code section, as long as they start inside it.\<close>

definition one_body ::
    "(string \<Rightarrow> string) \<Rightarrow> bytes \<Rightarrow> wasm_module \<Rightarrow> int \<Rightarrow> int \<times> function_analysis list
      \<Rightarrow> wasm_error + (int \<times> function_analysis list)" where
  "one_body sha wasm m sectionEnd s =
     (case s of (pos, fns) \<Rightarrow>
        if \<not> pos < sectionEnd then Inr (pos, fns)
        else (case readUleb128 wasm pos of (bodySize, bodySizeLen) \<Rightarrow>
          (let start = pos + bodySizeLen; bodyEnd = start + bodySize in
           case readUleb128 wasm start of (localCount, localCountLen) \<Rightarrow>
             (case repeat_e (nat localCount) (one_local wasm) (start + localCountLen, []) of
                Inl err \<Rightarrow> Inl err
              | Inr (pos1, localTypes) \<Rightarrow>
                  (case decode_insns wasm bodyEnd pos1 of Inl err \<Rightarrow> Inl err
                   | Inr xs \<Rightarrow> Inr (bodyEnd, fns @ [analyse_function sha m (length fns) localTypes xs]))))))"

definition code_bodies ::
    "(string \<Rightarrow> string) \<Rightarrow> bytes \<Rightarrow> wasm_module \<Rightarrow> nat option \<Rightarrow> int \<Rightarrow> int \<Rightarrow> function_analysis list
      \<Rightarrow> wasm_error + function_analysis list" where
  "code_bodies sha wasm m sectionId offset sectionEnd fns =
     (if sectionId = Some 10 then
        (case readUleb128 wasm offset of (funcCount, funcCountLen) \<Rightarrow>
          (case repeat_e (nat funcCount) (one_body sha wasm m sectionEnd) (offset + funcCountLen, fns) of
             Inl err \<Rightarrow> Inl err
           | Inr (pos, fns') \<Rightarrow> Inr fns'))
      else Inr fns)"

definition analyzeFunctionBodies ::
    "nat \<Rightarrow> (string \<Rightarrow> string) \<Rightarrow> bytes \<Rightarrow> wasm_module \<Rightarrow> (wasm_error + function_analysis list) option" where
  "analyzeFunctionBodies fuel sha wasm m = section_loop fuel wasm (code_bodies sha wasm m) 8 []"

datatype edge_kind = CallEdge | ImportEdge

definition wasm_call_graph :: "function_analysis list \<Rightarrow> string list \<times> (string \<times> string \<times> edge_kind) list" where
  "wasm_call_graph fns =
     (map fa_name fns,
      concat (map (\<lambda>f. map (\<lambda>c. (fa_name f, ci_name c, if ci_kind c = Imported then ImportEdge else CallEdge))
        (fa_calls f)) fns))"

record contract_analysis =
  ca_sections :: "section_summary list"
  ca_module :: wasm_module
  ca_functions :: "function_analysis list"
  ca_graph :: "string list \<times> (string \<times> string \<times> edge_kind) list"
  ca_pseudo :: string
  ca_size :: nat

definition analyzeWasmContract ::
    "nat \<Rightarrow> (bytes \<Rightarrow> string) \<Rightarrow> (string \<Rightarrow> string) \<Rightarrow> bytes \<Rightarrow> (wasm_error + contract_analysis) option" where
  "analyzeWasmContract fuel utf8 sha wasm =
     (if length wasm < 8 then Some (Inl TooShort)
      else case parseWasmSections fuel utf8 wasm of None \<Rightarrow> None | Some (Inl err) \<Rightarrow> Some (Inl err)
      | Some (Inr ss) \<Rightarrow>
          (case parseWasmModule fuel utf8 wasm of None \<Rightarrow> None | Some (Inl err) \<Rightarrow> Some (Inl err)
           | Some (Inr m) \<Rightarrow>
               (case analyzeFunctionBodies fuel sha wasm m of None \<Rightarrow> None | Some (Inl err) \<Rightarrow> Some (Inl err)
                | Some (Inr fns) \<Rightarrow>
                    Some (Inr \<lparr>ca_sections = ss, ca_module = m, ca_functions = fns,
                      ca_graph = wasm_call_graph fns,
                      ca_pseudo = join_with (nl @ nl) (map fa_pseudo fns), ca_size = length wasm\<rparr>))))"

end
