(* ===== verification/Wasm_Analysis.thy ===== *)
theory Wasm_Analysis
  imports Wasm_Functions
begin

text \<open>
  Properties of the function analysis of \<open>src/indexer/wasm-decompiler.ts\<close>: the partition of a
  body into blocks, the successors that the graph gets, and what is reported of host calls.
\<close>

section \<open>Blocks\<close>

definition hex_ch :: "char \<Rightarrow> bool" where
  "hex_ch c = (is_digit c \<or> (97 \<le> (of_char c :: nat) \<and> (of_char c :: nat) \<le> 102))"

definition hex_text :: "string \<Rightarrow> bool" where
  "hex_text s = (\<forall>c \<in> set s. hex_ch c)"

lemma hex_digit_ch: "d < 16 \<Longrightarrow> hex_ch (hex_digit d)"
  by (auto simp: hex_digit_def hex_ch_def)

lemma hex2_text: "b < 256 \<Longrightarrow> hex_text (hex2 b)"
  by (simp add: hex_text_def hex2_def hex_digit_ch)

lemma hex_string_text: "octets bs \<Longrightarrow> hex_text (hex_string bs)"
proof (induction bs)
  case (Cons b bs)
  then show ?case using hex2_text [of b] by (simp add: octets_def hex_text_def hex_string_def ball_Un)
qed (simp add: hex_text_def hex_string_def)

lemma hex_text_no_branch: "hex_text s \<Longrightarrow> \<not> starts_with ''br'' s \<and> \<not> starts_with ''return'' s"
proof -
  assume "hex_text s"
  moreover have "\<not> hex_ch (CHR ''r'')" by (simp add: hex_ch_def is_digit_def)
  ultimately have r: "CHR ''r'' \<notin> set s" by (auto simp: hex_text_def)
  have sub: "starts_with p s \<Longrightarrow> set p \<subseteq> set s" for p
    using set_take_subset [of "length p" s] by (simp add: starts_with_def)
  show ?thesis using r sub [of "''br''"] sub [of "''return''"] by auto
qed

lemma buf_slice_octets: "octets wasm \<Longrightarrow> octets (buf_slice wasm a b)"
  by (auto simp: octets_def buf_slice_def dest!: in_set_takeD in_set_dropD)

lemma decode_insns_raw:
  "decode_insns wasm e off = Inr xs \<Longrightarrow> octets wasm \<Longrightarrow> x \<in> set xs \<Longrightarrow> hex_text (i_raw x)"
proof (induction wasm e off arbitrary: xs rule: decode_insns.induct)
  case (1 wasm e off)
  show ?case
  proof (cases "off < e")
    case True
    then obtain y n ys where y: "readInstruction wasm off = Inr (y, n)" "decode_insns wasm e n = Inr ys" "xs = y # ys"
      using "1.prems"(1) by (subst (asm) decode_insns.simps) (auto split: sum.splits)
    have "hex_text (i_raw y)"
      using y(1) "1.prems"(2)
      by (auto simp: readInstruction_def raw_at_def hex_string_text buf_slice_octets split: option.splits sum.splits)
    moreover have "hex_text (i_raw x)" if "x \<in> set ys"
      using "1.IH" [OF True y(1) refl y(2) "1.prems"(2) that] by simp
    ultimately show ?thesis using "1.prems"(3) y(3) by auto
  next
    case False
    then show ?thesis using "1.prems" by (subst (asm) decode_insns.simps) simp
  qed
qed

definition cfg_inv :: "instruction list \<Rightarrow> cfg_state \<Rightarrow> bool" where
  "cfg_inv xs s = (map bb_id (cs_blocks s) = [0..<length (cs_blocks s)] \<and> cs_id s = length (cs_blocks s) \<and>
     (\<forall>b \<in> set (cs_blocks s). bb_succ b = [] \<and> bb_insns b \<noteq> []) \<and>
     concat (map bb_insns (cs_blocks s)) @ cs_insns s = map i_raw xs)"

lemma cfg_inv_step: "cfg_inv xs s \<Longrightarrow> cfg_inv (xs @ [x]) (cfg_step x s)"
  by (auto simp: cfg_inv_def cfg_step_def Let_def)

lemma cfg_inv_collect: "cfg_inv xs (collect_blocks xs)"
proof (induction xs rule: rev_induct)
  case Nil
  show ?case by (simp add: cfg_inv_def collect_blocks_def)
next
  case (snoc x xs)
  then show ?case using cfg_inv_step by (simp add: collect_blocks_def)
qed

definition raw_blocks :: "instruction list \<Rightarrow> basic_block list" where
  "raw_blocks xs = (let s = collect_blocks xs in
     if length (cs_insns s) > 0 then cs_blocks s @ [\<lparr>bb_id = cs_id s, bb_insns = cs_insns s, bb_succ = []\<rparr>]
     else cs_blocks s)"

lemma raw_blocks_inv:
  "map bb_id (raw_blocks xs) = [0..<length (raw_blocks xs)] \<and> (\<forall>b \<in> set (raw_blocks xs). bb_succ b = []) \<and>
   concat (map bb_insns (raw_blocks xs)) = map i_raw xs"
  using cfg_inv_collect [of xs] by (auto simp: raw_blocks_def cfg_inv_def Let_def)

lemma linked_simps: "cfg_blocks (buildFunctionCFG xs) = link_blocks (raw_blocks xs)"
  by (simp add: buildFunctionCFG_def raw_blocks_def Let_def)

lemma link_fields:
  "length (link_blocks bs) = length bs" "map bb_id (link_blocks bs) = map bb_id bs"
  "map bb_insns (link_blocks bs) = map bb_insns bs"
proof -
  show len: "length (link_blocks bs) = length bs" by (simp add: link_blocks_def)
  show "map bb_id (link_blocks bs) = map bb_id bs"
    by (rule nth_equalityI) (auto simp: len, simp add: link_blocks_def Let_def)
  show "map bb_insns (link_blocks bs) = map bb_insns bs"
    by (rule nth_equalityI) (auto simp: len, simp add: link_blocks_def Let_def)
qed

text \<open>The control-flow graph is a straight line: the blocks partition the decoded instructions in
  order and are numbered consecutively, and every block but the last has exactly one successor,
  the next block, also after an unconditional branch or a return. The source compares the
  mnemonics \<open>br\<close> and \<open>return\<close> with the hexadecimal text of the instruction, which never matches.\<close>

theorem cfg_is_a_line:
  assumes "decode_insns wasm e off = Inr xs" "octets wasm"
  shows "let bs = cfg_blocks (buildFunctionCFG xs) in
    concat (map bb_insns bs) = map i_raw xs \<and> map bb_id bs = [0..<length bs] \<and>
    map bb_succ bs = map (\<lambda>i. if Suc i < length bs then [Suc i] else []) [0..<length bs]"
proof -
  let ?bs = "raw_blocks xs"
  note inv = raw_blocks_inv [of xs]
  have id: "bb_id (?bs ! i) = i" if "i < length ?bs" for i
    using inv that by (metis add_cancel_left_left diff_zero length_map nth_map nth_upt)
  have last: "bb_id (last ?bs) = length ?bs - 1" if "?bs \<noteq> []"
    using id [of "length ?bs - 1"] that by (simp add: last_conv_nth)
  have raws: "hex_text r" if "b \<in> set ?bs" "r \<in> set (bb_insns b)" for b r
  proof -
    have "r \<in> set (concat (map bb_insns ?bs))" using that by auto
    then show ?thesis using inv decode_insns_raw [OF assms] by auto
  qed
  have lastr: "hex_text (last_or_empty (bb_insns b))" if "b \<in> set ?bs" for b
    using raws [OF that last_in_set] by (simp add: last_or_empty_def hex_text_def)
  have falls: "falls_through ?bs (?bs ! i) = (Suc i < length ?bs)" if "i < length ?bs" for i
  proof -
    have "?bs \<noteq> []" using that by auto
    then show ?thesis using that id [OF that] last hex_text_no_branch [OF lastr [of "?bs ! i"]]
      by (auto simp: falls_through_def)
  qed
  have "bb_succ (link_blocks ?bs ! i) = (if Suc i < length ?bs then [Suc i] else [])" if "i < length ?bs" for i
    using that inv falls [OF that] id [of "Suc i"] by (simp add: link_blocks_def Let_def)
  then have "map bb_succ (link_blocks ?bs) = map (\<lambda>i. if Suc i < length ?bs then [Suc i] else []) [0..<length ?bs]"
    by (intro nth_equalityI) (auto simp: link_fields)
  then show ?thesis using inv by (simp add: linked_simps link_fields Let_def)
qed

definition branch_body :: bytes where
  "branch_body = [0x0c, 0, 0x01, 0x0b]"

lemma branch_decoded:
  "decode_insns branch_body 4 0 = Inr
    [\<lparr>i_offset = 0, i_mnemonic = ''br'', i_immediates = [0], i_raw = ''0c00''\<rparr>,
     \<lparr>i_offset = 2, i_mnemonic = ''nop'', i_immediates = [], i_raw = ''01''\<rparr>,
     \<lparr>i_offset = 3, i_mnemonic = ''end'', i_immediates = [], i_raw = ''0b''\<rparr>]"
proof -
  have at: "buf_at branch_body 0 = Some 0x0c" "buf_at branch_body 1 = Some 0" "buf_at branch_body 2 = Some 1"
    "buf_at branch_body 3 = Some 0x0b"
    by (simp_all add: branch_body_def buf_at_def)
  have read: "readUleb128 branch_body 1 = (0, 1)"
    using read_len [of 0 "[0x0c]" "[1, 0x0b]"] by (simp add: branch_body_def encode_uleb.simps)
  have names: "mnemonic 0x0c = ''br''" "mnemonic (Suc 0) = ''nop''" "mnemonic 0x0b = ''end''"
    by (simp_all add: mnemonic_def OPCODE_NAMES_def)
  have raw: "raw_at branch_body 0 2 = ''0c00''" "raw_at branch_body 2 3 = ''01''" "raw_at branch_body 3 4 = ''0b''"
    by code_simp+
  have "readInstruction branch_body 0 = Inr (\<lparr>i_offset = 0, i_mnemonic = ''br'', i_immediates = [0], i_raw = ''0c00''\<rparr>, 2)"
    "readInstruction branch_body 2 = Inr (\<lparr>i_offset = 2, i_mnemonic = ''nop'', i_immediates = [], i_raw = ''01''\<rparr>, 3)"
    "readInstruction branch_body 3 = Inr (\<lparr>i_offset = 3, i_mnemonic = ''end'', i_immediates = [], i_raw = ''0b''\<rparr>, 4)"
    by (simp_all add: readInstruction_def at read_immediates_def read names raw)
  then show ?thesis by (simp add: decode_insns.simps [of branch_body])
qed

theorem cfg_is_a_line_witness:
  "\<exists>xs. decode_insns branch_body 4 0 = Inr xs \<and> map i_mnemonic xs = [''br'', ''nop'', ''end''] \<and>
     map bb_succ (cfg_blocks (buildFunctionCFG xs)) = [[1], []]"
proof -
  let ?xs = "[\<lparr>i_offset = 0, i_mnemonic = ''br'', i_immediates = [0], i_raw = ''0c00''\<rparr>,
     \<lparr>i_offset = 2, i_mnemonic = ''nop'', i_immediates = [], i_raw = ''01''\<rparr>,
     \<lparr>i_offset = 3, i_mnemonic = ''end'', i_immediates = [], i_raw = ''0b''\<rparr>]"
  have "octets branch_body" by (simp add: octets_def branch_body_def)
  note line = cfg_is_a_line [OF branch_decoded this]
  have "length (raw_blocks ?xs) = 2"
    by (simp add: raw_blocks_def collect_blocks_def cfg_step_def ends_block_def Let_def)
  then have "length (cfg_blocks (buildFunctionCFG ?xs)) = 2" by (simp add: linked_simps link_fields)
  with line have "map bb_succ (cfg_blocks (buildFunctionCFG ?xs)) = [[1], []]"
    by (simp only: Let_def) (simp add: upt_conv_Cons)
  with branch_decoded show ?thesis by (intro exI [of _ ?xs]) simp
qed

section \<open>Host calls\<close>

definition imports_typed :: "wasm_module \<Rightarrow> bool" where
  "imports_typed m = (\<forall>imp \<in> set (m_imports m). im_kind imp = Func \<longrightarrow> im_typeIndex imp \<noteq> None)"

lemma repeat_e_keeps:
  assumes "\<And>s s'. P s \<Longrightarrow> f s = Inr s' \<Longrightarrow> P s'"
  shows "P s \<Longrightarrow> repeat_e n f s = Inr s' \<Longrightarrow> P s'"
proof (induction n arbitrary: s)
  case (Suc n)
  then obtain s1 where "f s = Inr s1" "repeat_e n f s1 = Inr s'" by (auto split: sum.splits)
  then show ?case using Suc.IH [of s1] assms [of s s1] Suc.prems(1) by simp
qed simp

definition entry_typed :: "import_entry \<Rightarrow> bool" where
  "entry_typed e = (im_kind e = Func \<longrightarrow> im_typeIndex e \<noteq> None)"

lemma import_desc_typed:
  "import_desc wasm ts kind pos e = Inr (pos', e') \<Longrightarrow> entry_typed e \<Longrightarrow> entry_typed e'"
  by (auto simp: import_desc_def entry_typed_def split: if_splits prod.splits sum.splits)

lemma one_import_typed:
  assumes "\<forall>e \<in> set (fst (snd s)). entry_typed e" "one_import utf8 wasm ts s = Inr s'"
  shows "\<forall>e \<in> set (fst (snd s')). entry_typed e"
  using assms import_desc_typed
  by (auto simp: one_import_def Let_def entry_typed_def split: prod.splits sum.splits)

lemma import_section_typed:
  assumes "imports_typed m" "import_section utf8 wasm off m = Inr m'" shows "imports_typed m'"
proof -
  obtain count l pos es n where r: "repeat_e (nat count) (one_import utf8 wasm (m_types m)) (off + l, m_imports m, m_imported m)
      = Inr (pos, es, n)" "m' = m\<lparr>m_imports := es, m_imported := n\<rparr>"
    using assms(2) by (auto simp: import_section_def split: prod.splits sum.splits)
  have "\<forall>e \<in> set (fst (snd (pos, es, n))). entry_typed e"
    by (rule repeat_e_keeps [where P = "\<lambda>s. \<forall>e \<in> set (fst (snd s)). entry_typed e", OF _ _ r(1)])
      (use assms(1) one_import_typed in \<open>auto simp: imports_typed_def entry_typed_def\<close>)
  then show ?thesis by (simp add: r(2) imports_typed_def entry_typed_def)
qed

lemma module_section_typed:
  assumes "imports_typed m" "module_section fuel utf8 wasm i off e m = Inr m'" shows "imports_typed m'"
proof (cases "i = Some 2")
  case True
  then show ?thesis using assms import_section_typed by (simp add: module_section_def)
next
  case False
  then have "m_imports m' = m_imports m"
    using assms(2)
    by (auto simp: module_section_def type_section_def function_section_def memory_section_def
        global_section_def export_section_def custom_section_def split: if_splits prod.splits sum.splits)
  then show ?thesis using assms(1) by (simp add: imports_typed_def)
qed

lemma parseWasmModule_typed:
  assumes "parseWasmModule fuel utf8 wasm = Some (Inr m)" shows "imports_typed m"
proof -
  have "imports_typed empty_module" by (simp add: imports_typed_def empty_module_def)
  moreover have "section_loop fuel wasm (module_section fuel utf8 wasm) 8 empty_module = Some (Inr m)"
    using assms by (simp add: parseWasmModule_def)
  ultimately show ?thesis
    by (rule section_loop_keeps [where P = imports_typed, rotated]) (rule module_section_typed)
qed

definition all_unknown :: "host_call list \<Rightarrow> bool" where
  "all_unknown hs = (\<forall>h \<in> set hs. hc_module h = ''unknown'')"

lemma host_import_none: "imports_typed m \<Longrightarrow> i < int (m_imported m) \<Longrightarrow> host_import m i = None"
  by (auto simp: host_import_def elem_at_def imports_typed_def find_None_iff)

lemma scan_insn_unknown:
  "imports_typed m \<Longrightarrow> all_unknown (fs_host s) \<Longrightarrow> all_unknown (fs_host (scan_insn m x s))"
  by (auto simp: scan_insn_def Let_def all_unknown_def host_import_none)

lemma scan_insns_unknown: "imports_typed m \<Longrightarrow> all_unknown (fs_host (scan_insns m xs))"
proof -
  assume m: "imports_typed m"
  have "all_unknown (fs_host s) \<Longrightarrow> all_unknown (fs_host (fold (scan_insn m) xs s))" for s
    by (induction xs arbitrary: s) (auto intro: scan_insn_unknown [OF m])
  from this [of "\<lparr>fs_calls = [], fs_host = [], fs_storage = [], fs_lines = [], fs_branches = 0\<rparr>"]
  show ?thesis by (simp add: scan_insns_def) (simp add: all_unknown_def)
qed

definition hosts_unknown :: "function_analysis list \<Rightarrow> bool" where
  "hosts_unknown fns = (\<forall>f \<in> set fns. all_unknown (fa_host f))"

lemma analyse_function_unknown: "imports_typed m \<Longrightarrow> all_unknown (fa_host (analyse_function sha m n ls xs))"
  by (simp add: analyse_function_def Let_def scan_insns_unknown)

lemma one_body_unknown:
  assumes "imports_typed m" "hosts_unknown (snd s)" "one_body sha wasm m e s = Inr s'"
  shows "hosts_unknown (snd s')"
  using assms analyse_function_unknown [OF assms(1)]
  by (auto simp: one_body_def hosts_unknown_def Let_def split: prod.splits sum.splits if_splits)

lemma code_bodies_unknown:
  assumes m: "imports_typed m" and f: "hosts_unknown fns" and r: "code_bodies sha wasm m i off e fns = Inr fns'"
  shows "hosts_unknown fns'"
proof (cases "i = Some 10")
  case True
  from r obtain n p q where r: "repeat_e n (one_body sha wasm m e) (p, fns) = Inr (q, fns')"
    by (auto simp: code_bodies_def True split: prod.splits sum.splits)
  have "hosts_unknown (snd (q, fns'))"
    using one_body_unknown [OF m]
    by (rule repeat_e_keeps [where P = "\<lambda>s. hosts_unknown (snd s)", OF _ _ r]) (simp_all add: f)
  then show ?thesis by simp
qed (use f r in \<open>simp add: code_bodies_def\<close>)

lemma analyzeFunctionBodies_unknown:
  assumes "imports_typed m" "analyzeFunctionBodies fuel sha wasm m = Some (Inr fns)"
  shows "hosts_unknown fns"
proof -
  have "hosts_unknown []" by (simp add: hosts_unknown_def)
  then show ?thesis
    using assms(2) unfolding analyzeFunctionBodies_def
    by (rule section_loop_keeps [where P = hosts_unknown, rotated]) (rule code_bodies_unknown [OF assms(1)])
qed

text \<open>No host call is ever attributed to the module it comes from: in every analysis, each call of
  an imported function is reported with the module \<open>unknown\<close>. The source looks the import up by
  the type of the function at the target minus the number of imports, which is negative
  exactly when the target is an import.\<close>

theorem host_calls_unknown:
  assumes "analyzeWasmContract fuel utf8 sha wasm = Some (Inr a)" "f \<in> set (ca_functions a)" "h \<in> set (fa_host f)"
  shows "hc_module h = ''unknown''"
proof -
  from assms(1) obtain m where m: "parseWasmModule fuel utf8 wasm = Some (Inr m)"
    "analyzeFunctionBodies fuel sha wasm m = Some (Inr (ca_functions a))"
    by (auto simp: analyzeWasmContract_def split: if_splits option.splits sum.splits)
  have "hosts_unknown (ca_functions a)"
    by (rule analyzeFunctionBodies_unknown [OF parseWasmModule_typed [OF m(1)] m(2)])
  with assms(2,3) show ?thesis by (simp add: hosts_unknown_def all_unknown_def)
qed

definition host_wasm :: bytes where
  "host_wasm = wasm_header @ [1, 4, 1, 0x60, 0, 0, 2, 7, 1, 1, 108, 1, 116, 0, 0, 3, 2, 1, 0, 10, 6, 1, 4, 0, 0x10, 0, 0x0b]"

lemma host_wasm_analysed:
  "case analyzeWasmContract 9 (map char_of) id host_wasm of None \<Rightarrow> False | Some (Inl e) \<Rightarrow> False
   | Some (Inr a) \<Rightarrow> map im_module (m_imports (ca_module a)) = [''l''] \<and>
       map (map hc_offset \<circ> fa_host) (ca_functions a) = [[32]]"
  by code_simp

theorem host_calls_unknown_witness:
  "\<exists>a f h. analyzeWasmContract 9 (map char_of) id host_wasm = Some (Inr a) \<and>
     map im_module (m_imports (ca_module a)) = [''l''] \<and> ca_functions a = [f] \<and> fa_host f = [h] \<and>
     hc_module h = ''unknown''"
proof -
  obtain a where a: "analyzeWasmContract 9 (map char_of) id host_wasm = Some (Inr a)"
    "map im_module (m_imports (ca_module a)) = [''l'']" "map (map hc_offset \<circ> fa_host) (ca_functions a) = [[32]]"
    using host_wasm_analysed by (auto split: option.splits sum.splits)
  then obtain f h where "ca_functions a = [f]" "fa_host f = [h]" by auto
  then show ?thesis using a host_calls_unknown [OF a(1), of f h] by auto
qed

section \<open>The two decoders of the file\<close>

definition phantom_module :: "wasm_section list" where
  "phantom_module = [Other 1 [1, 0x60, 0, 0], Other 3 [1, 0],
     Code [\<lparr>f_locals = [], f_code = [I_const 0x41 0, Mem_arg 0x2d 0 16, Plain 0x1a, Plain 0x0b]\<rparr>]]"

definition phantom_wasm :: bytes where
  "phantom_wasm = wasm_header @
     [1, 4, 1, 0x60, 0, 0, 3, 2, 1, 0, 10, 10, 1, 8, 0, 0x41, 0, 0x2d, 0, 0x10, 0x1a, 0x0b]"

lemma phantom_encoded: "encode_module phantom_module = phantom_wasm"
  by (simp add: phantom_module_def phantom_wasm_def encode_module_def code_payload_def fun_bytes_def
      encode_insn_def encode_uleb.simps encode_sleb.simps Let_def sized_def)

lemma phantom_indexed:
  "\<exists>idx. buildOpcodeIndex 9 phantom_wasm = Some (Inr idx) \<and>
     sequence idx = [''i32.const'', ''i32.load8_u'', ''drop'', ''end'']"
proof -
  have "list_all section_ok phantom_module"
    by (simp add: phantom_module_def fun_ok_def code_payload_def fun_bytes_def
        encode_insn_def encode_uleb.simps encode_sleb.simps Let_def plain_opcodes_def sized_def)
  moreover have "length phantom_module < 9" by (simp add: phantom_module_def)
  ultimately show ?thesis
    using index_of_module [of phantom_module 9]
    by (simp add: phantom_encoded finish_index_def push_all_seq)
      (simp add: phantom_module_def module_code_def mnemonic_def OPCODE_NAMES_def)
qed

lemma phantom_analysed:
  "map_option (map_sum id (\<lambda>a. (map (map i_mnemonic \<circ> fa_insns) (ca_functions a), ca_graph a)))
     (analyzeWasmContract 9 (map char_of) id phantom_wasm) =
   Some (Inr ([[''i32.const'', ''i32.load8_u'', ''unreachable'', ''call'', ''end'']],
     [''func_0''], [(''func_0'', ''func_26'', CallEdge)]))"
  by code_simp

text \<open>The file's two decoders disagree on the operands of a memory access. For the one function
  \<open>i32.const 0, i32.load8_u align=0 offset=16, drop, end\<close> the opcode index holds exactly these
  four instructions, whereas the function analysis reads the operands as instructions: it
  reports \<open>unreachable\<close> and a call of function 26, swallows the \<open>drop\<close>, and gives the call graph
  an edge to a function that does not exist.\<close>

theorem memory_operands_misread:
  "\<exists>idx a f. buildOpcodeIndex 9 (encode_module phantom_module) = Some (Inr idx) \<and>
     sequence idx = [''i32.const'', ''i32.load8_u'', ''drop'', ''end''] \<and>
     analyzeWasmContract 9 (map char_of) id (encode_module phantom_module) = Some (Inr a) \<and>
     ca_functions a = [f] \<and>
     map i_mnemonic (fa_insns f) = [''i32.const'', ''i32.load8_u'', ''unreachable'', ''call'', ''end''] \<and>
     snd (ca_graph a) = [(''func_0'', ''func_26'', CallEdge)]"
proof -
  obtain idx where idx: "buildOpcodeIndex 9 phantom_wasm = Some (Inr idx)"
    "sequence idx = [''i32.const'', ''i32.load8_u'', ''drop'', ''end'']"
    using phantom_indexed by (elim exE conjE)
  obtain a where a: "analyzeWasmContract 9 (map char_of) id phantom_wasm = Some (Inr a)"
    using phantom_analysed by (auto elim!: map_sum_Inr)
  have "map (map i_mnemonic \<circ> fa_insns) (ca_functions a) =
      [[''i32.const'', ''i32.load8_u'', ''unreachable'', ''call'', ''end'']] \<and>
      snd (ca_graph a) = [(''func_0'', ''func_26'', CallEdge)]"
    using phantom_analysed by (simp add: a)
  moreover from this obtain f where "ca_functions a = [f]" by auto
  ultimately show ?thesis using idx a by (simp add: phantom_encoded)
qed

section \<open>The section list\<close>

fun framed_summary :: "wasm_section list \<Rightarrow> (nat \<times> string \<times> nat) list" where
  "framed_summary [] = []"
| "framed_summary (x # xs) =
     (section_id x, sectionNameFromId (Some (section_id x)), length (section_payload x)) # framed_summary xs"

definition brief :: "section_summary \<Rightarrow> nat option \<times> string \<times> int" where
  "brief s = (ss_id s, ss_name s, ss_size s)"

lemma run_sections_summary:
  assumes body: "\<And>i a b acc. body i a b acc = summarise_section utf8 wasm i a b acc"
  shows "\<exists>ys. run_sections body off (section_pairs xs) acc = Inr (acc @ ys) \<and>
     map brief ys = map (\<lambda>(i, nm, n). (Some i, nm, int n)) (framed_summary xs)"
proof (induction xs arbitrary: off acc)
  case (Cons x xs)
  let ?st = "off + 1 + int (length (encode_uleb (length (section_payload x))))"
  let ?y = "\<lparr>ss_id = Some (section_id x), ss_name = sectionNameFromId (Some (section_id x)),
    ss_size = int (length (section_payload x)),
    ss_custom = (if Some (section_id x) = Some 0 then Some (fst (readString utf8 wasm ?st)) else None)\<rparr>"
  obtain ys where ys: "run_sections body (?st + int (length (section_payload x))) (section_pairs xs) (acc @ [?y]) =
        Inr ((acc @ [?y]) @ ys)"
      "map brief ys = map (\<lambda>(i, nm, n). (Some i, nm, int n)) (framed_summary xs)"
    using Cons.IH by blast
  have "body (Some (section_id x)) ?st (?st + int (length (section_payload x))) acc = Inr (acc @ [?y])"
    unfolding body by (simp only: summarise_section_def add_diff_cancel_left')
  then have "run_sections body off (section_pairs (x # xs)) acc = Inr (acc @ ?y # ys)"
    using ys(1) by (simp only: section_pairs_def list.map run_sections.simps Let_def sum.case append_assoc append.simps)
  moreover have "map brief (?y # ys) = map (\<lambda>(i, nm, n). (Some i, nm, int n)) (framed_summary (x # xs))"
    using ys(2) by (simp add: brief_def)
  ultimately show ?case by blast
qed (simp add: section_pairs_def)

text \<open>The section list is exact on framed binaries: for every sequence of sections with payloads
  below \<open>2^31\<close> bytes, in any order and with repetitions, each section is reported once, in
  order, with its identifier, its name and its size, and fuel for one step per section is enough.\<close>

theorem section_list_exact:
  assumes "list_all (\<lambda>x. length (section_payload x) < 2 ^ 31) xs" "length xs < fuel"
  shows "\<exists>ys. parseWasmSections fuel utf8 (encode_module xs) = Some (Inr ys) \<and>
    map brief ys = map (\<lambda>(i, nm, n). (Some i, nm, int n)) (framed_summary xs)"
proof -
  let ?wasm = "encode_module xs"
  have wasm: "?wasm = wasm_header @ concat (map (\<lambda>x. section_id x # sized (section_payload x)) xs)"
    by (simp add: encode_module_def)
  have "section_loop fuel ?wasm (summarise_section utf8 ?wasm) (int (length wasm_header)) [] =
      Some (run_sections (summarise_section utf8 ?wasm) (int (length wasm_header)) (section_pairs xs) [])"
    using assms by (intro section_loop_framed) (auto simp: section_pairs_def list_all_iff wasm comp_def)
  moreover have "int (length wasm_header) = 8" by (simp add: wasm_header_def)
  ultimately show ?thesis
    using run_sections_summary [of "summarise_section utf8 ?wasm" utf8 ?wasm 8 xs "[]"]
    by (simp only: parseWasmSections_def) auto
qed

theorem section_list_exact_witness:
  "\<exists>ys. parseWasmSections 4 (map char_of) (encode_module phantom_module) = Some (Inr ys) \<and>
     map brief ys = [(Some 1, ''type'', 4), (Some 3, ''function'', 2), (Some 10, ''code'', 10)]"
proof -
  have len: "list_all (\<lambda>x. length (section_payload x) < 2 ^ 31) phantom_module" "length phantom_module < 4"
    by (simp_all add: phantom_module_def code_payload_def fun_bytes_def encode_insn_def
        encode_uleb.simps encode_sleb.simps Let_def sized_def)
  have "map (\<lambda>(i, nm, n). (Some i, nm, int n)) (framed_summary phantom_module) =
      [(Some 1, ''type'', 4), (Some 3, ''function'', 2), (Some 10, ''code'', 10)]"
    by (simp add: phantom_module_def sectionNameFromId_def code_payload_def fun_bytes_def encode_insn_def
        encode_uleb.simps encode_sleb.simps Let_def sized_def)
  then show ?thesis using section_list_exact [OF len, of "map char_of"] by simp
qed

end
