(* ===== verification/Wasm_Spec.thy ===== *)
theory Wasm_Spec
  imports Wasm_Index_Props
begin

text \<open>
  \<open>src/indexer/wasm-spec.ts\<close> and the function extraction of \<open>src/indexer/wasm-diff.ts\<close>: the
  contract interface that a binary carries in its custom sections \<open>contractspecv0\<close>. The XDR
  library is an argument (\<open>xdr_api\<close>): reading one entry from the start of a buffer, the
  length of an entry's encoding, and what the accessors say of an entry. \<open>utf8\<close> decodes bytes.
\<close>

section \<open>Reading\<close>

text \<open>This file's LEB128 reader has no bound: it reads on until a byte without a continuation bit,
  and the element after the end of the buffer has none.\<close>

function spec_uleb_loop :: "bytes \<Rightarrow> int \<Rightarrow> int \<Rightarrow> int \<Rightarrow> int \<Rightarrow> int \<times> int" where
  "spec_uleb_loop buf offset result shift n =
     (let byte = bits_of (buf_at buf (offset + n));
          result' = leb_acc result byte shift in
      if byte mod 256 < 128 then (result', n + 1)
      else spec_uleb_loop buf offset result' (shift + 7) (n + 1))"
  by pat_completeness auto
termination
  by (relation "measure (\<lambda>(buf, offset, result, shift, n). nat (int (length buf) - offset - n))")
    (auto simp: bits_of_def buf_at_def split: if_splits)

declare spec_uleb_loop.simps [simp del]

definition readUleb128_spec :: "bytes \<Rightarrow> int \<Rightarrow> int \<times> int" where
  "readUleb128_spec buf offset = spec_uleb_loop buf offset 0 0 0"

text \<open>\<open>buf.slice(start, end)\<close>: negative bounds count from the end of the buffer.\<close>

definition js_index :: "nat \<Rightarrow> int \<Rightarrow> nat" where
  "js_index n i = (if i < 0 then nat (max (int n + i) 0) else min (nat i) n)"

definition js_slice :: "bytes \<Rightarrow> int \<Rightarrow> int \<Rightarrow> bytes" where
  "js_slice buf a b =
     (let n = length buf in take (js_index n b - js_index n a) (drop (js_index n a) buf))"

section \<open>parseWasmSpec\<close>

datatype entry_view =
    FunctionV0 string nat
  | OtherEntry

text \<open>\<open>xdr_view\<close> is \<open>None\<close> when an accessor raises.\<close>

record 'e xdr_api =
  xdr_read :: "bytes \<Rightarrow> 'e option"
  xdr_size :: "'e \<Rightarrow> nat"
  xdr_view :: "'e \<Rightarrow> entry_view option"

datatype spec_error = SpecTooShort | BadXdr

fun spec_entries :: "nat \<Rightarrow> 'e xdr_api \<Rightarrow> bytes \<Rightarrow> nat \<Rightarrow> 'e list \<Rightarrow> (spec_error + 'e list) option" where
  "spec_entries 0 api payload pos acc = None"
| "spec_entries (Suc n) api payload pos acc =
     (if pos < length payload then
        (case xdr_read api (drop pos payload) of
           None \<Rightarrow> Some (Inl BadXdr)
         | Some e \<Rightarrow> spec_entries n api payload (pos + xdr_size api e) (acc @ [e]))
      else Some (Inr acc))"

definition SECTION_NAME :: string where
  "SECTION_NAME = ''contractspecv0''"

definition spec_section ::
    "nat \<Rightarrow> 'e xdr_api \<Rightarrow> (bytes \<Rightarrow> string) \<Rightarrow> bytes \<Rightarrow> nat option \<Rightarrow> int \<Rightarrow> int \<Rightarrow> 'e list
      \<Rightarrow> (spec_error + 'e list) option" where
  "spec_section fuel api utf8 wasm sectionId offset sectionEnd entries =
     (if sectionId = Some 0 then
        (case readUleb128_spec wasm offset of (nameLen, nameLenBytes) \<Rightarrow>
          (let nameStart = offset + nameLenBytes; payloadStart = nameStart + nameLen in
           if utf8 (js_slice wasm nameStart (nameStart + nameLen)) = SECTION_NAME
           then spec_entries fuel api (js_slice wasm payloadStart sectionEnd) 0 entries
           else Some (Inr entries)))
      else Some (Inr entries))"

fun spec_sections ::
    "nat \<Rightarrow> nat \<Rightarrow> 'e xdr_api \<Rightarrow> (bytes \<Rightarrow> string) \<Rightarrow> bytes \<Rightarrow> int \<Rightarrow> 'e list
      \<Rightarrow> (spec_error + 'e list) option" where
  "spec_sections 0 fuel api utf8 wasm offset entries = None"
| "spec_sections (Suc n) fuel api utf8 wasm offset entries =
     (if offset < int (length wasm) then
        (case readUleb128_spec wasm (offset + 1) of (sectionSize, sizeLen) \<Rightarrow>
          (let start = offset + 1 + sizeLen; sectionEnd = start + sectionSize in
           case spec_section fuel api utf8 wasm (buf_at wasm offset) start sectionEnd entries of
             None \<Rightarrow> None
           | Some (Inl err) \<Rightarrow> Some (Inl err)
           | Some (Inr es) \<Rightarrow> spec_sections n fuel api utf8 wasm sectionEnd es))
      else Some (Inr entries))"

definition parseWasmSpec ::
    "nat \<Rightarrow> 'e xdr_api \<Rightarrow> (bytes \<Rightarrow> string) \<Rightarrow> bytes \<Rightarrow> (spec_error + 'e list) option" where
  "parseWasmSpec fuel api utf8 wasm =
     (if length wasm < 8 then Some (Inl SpecTooShort) else spec_sections fuel fuel api utf8 wasm 8 [])"

text \<open>\<open>getCode\<close> is the RPC call, \<open>schema\<close> the library's JSON schema of a list of entries.\<close>

definition fetchContractSpec ::
    "nat \<Rightarrow> 'e xdr_api \<Rightarrow> (bytes \<Rightarrow> string) \<Rightarrow> (string \<Rightarrow> bytes option) \<Rightarrow> ('e list \<Rightarrow> 'j) \<Rightarrow> string
      \<Rightarrow> 'j option option" where
  "fetchContractSpec fuel api utf8 getCode schema addr =
     (case getCode addr of
        None \<Rightarrow> Some None
      | Some wasm \<Rightarrow>
          (case parseWasmSpec fuel api utf8 wasm of
             None \<Rightarrow> None
           | Some (Inl err) \<Rightarrow> Some None
           | Some (Inr es) \<Rightarrow> Some (if es = [] then None else Some (schema es))))"

section \<open>extractFunctions\<close>

record contract_fn =
  fn_name :: string
  inputCount :: nat

definition entry_fn :: "'e xdr_api \<Rightarrow> 'e \<Rightarrow> contract_fn list" where
  "entry_fn api e =
     (case xdr_view api e of
        Some (FunctionV0 nm k) \<Rightarrow> if nm = [] then [] else [\<lparr>fn_name = nm, inputCount = k\<rparr>]
      | _ \<Rightarrow> [])"

definition extractFunctions ::
    "nat \<Rightarrow> 'e xdr_api \<Rightarrow> (bytes \<Rightarrow> string) \<Rightarrow> bytes \<Rightarrow> contract_fn list option" where
  "extractFunctions fuel api utf8 wasm =
     (case parseWasmSpec fuel api utf8 wasm of
        None \<Rightarrow> None
      | Some (Inl err) \<Rightarrow> Some []
      | Some (Inr es) \<Rightarrow> Some (concat (map (entry_fn api) es)))"

section \<open>The two LEB128 readers\<close>

lemma spec_uleb_loop_agrees:
  "uleb_loop buf off r s n = (v, m) \<Longrightarrow> n < m \<Longrightarrow> bits_of (buf_at buf (off + m - 1)) mod 256 < 128 \<Longrightarrow>
    spec_uleb_loop buf off r s n = (v, m)"
proof (induction buf off r s n arbitrary: v m rule: uleb_loop.induct)
  case (1 buf off r s n)
  let ?b = "bits_of (buf_at buf (off + n))"
  have lt: "off + n < int (length buf)"
    using "1.prems"(1,2) by (subst (asm) uleb_loop.simps) (auto split: if_splits)
  show ?case
  proof (cases "?b mod 256 < 128")
    case True
    then show ?thesis using "1.prems"(1) lt
      by (subst (asm) uleb_loop.simps, subst spec_uleb_loop.simps) (simp add: Let_def)
  next
    case False
    then have rec: "uleb_loop buf off (leb_acc r ?b s) (s + 7) (n + 1) = (v, m)"
      using "1.prems"(1) lt by (subst (asm) uleb_loop.simps) (simp add: Let_def)
    have "m \<noteq> n + 1" using "1.prems"(3) False by auto
    then have "n + 1 < m" using "1.prems"(2) by simp
    then have "spec_uleb_loop buf off (leb_acc r ?b s) (s + 7) (n + 1) = (v, m)"
      by (intro "1.IH" [OF lt refl refl False rec]) (use "1.prems"(3) in simp_all)
    then show ?thesis using False by (subst spec_uleb_loop.simps) (simp add: Let_def)
  qed
qed

lemma encode_uleb_last: "\<exists>ys y. encode_uleb n = ys @ [y] \<and> y < 128"
proof (induction n rule: encode_uleb.induct)
  case (1 n)
  show ?case
  proof (cases "n < 128")
    case True
    then show ?thesis by (subst encode_uleb.simps) simp
  next
    case False
    with 1 obtain ys y where "encode_uleb (n div 128) = ys @ [y]" "y < 128" by blast
    then show ?thesis using False
      by (subst encode_uleb.simps) (auto intro!: exI [of _ "(n mod 128 + 128) # ys"])
  qed
qed

lemma spec_read_len:
  assumes "n < 2 ^ 31"
  shows "readUleb128_spec (pre @ encode_uleb n @ post) (int (length pre)) = (int n, int (length (encode_uleb n)))"
proof -
  obtain ys y where e: "encode_uleb n = ys @ [y]" "y < 128" using encode_uleb_last by blast
  have "buf_at ((pre @ ys) @ y # post) (int (length pre) + int (length (encode_uleb n)) - 1) = Some y"
    by (rule buf_at_app) (simp add: e)
  then have "bits_of (buf_at (pre @ encode_uleb n @ post) (int (length pre) + int (length (encode_uleb n)) - 1)) mod 256 < 128"
    using e by (simp add: bits_of_def)
  then show ?thesis
    using spec_uleb_loop_agrees [of "pre @ encode_uleb n @ post" "int (length pre)" 0 0 0 "int n" "int (length (encode_uleb n))"]
      read_len [OF assms, of pre post] e
    by (simp add: readUleb128_def readUleb128_spec_def)
qed

section \<open>Framed binaries\<close>

text \<open>A custom section with a name, and the interface payloads of a binary in order.\<close>

definition custom :: "bytes \<Rightarrow> bytes \<Rightarrow> nat \<times> bytes" where
  "custom nm p = (0, encode_uleb (length nm) @ nm @ p)"

definition frame :: "(nat \<times> bytes) list \<Rightarrow> bytes" where
  "frame ss = wasm_header @ concat (map (\<lambda>(i, p). i # sized p) ss)"

datatype spec_part =
    Custom_part bytes bytes
  | Other_part nat bytes

fun part_section :: "spec_part \<Rightarrow> nat \<times> bytes" where
  "part_section (Custom_part nm p) = custom nm p"
| "part_section (Other_part i p) = (i, p)"

fun part_ok :: "spec_part \<Rightarrow> bool" where
  "part_ok (Custom_part nm p) = (length (snd (custom nm p)) < 2 ^ 31)"
| "part_ok (Other_part i p) = (i \<noteq> 0 \<and> length p < 2 ^ 31)"

fun part_payload :: "(bytes \<Rightarrow> string) \<Rightarrow> spec_part \<Rightarrow> bytes option" where
  "part_payload utf8 (Custom_part nm p) = (if utf8 nm = SECTION_NAME then Some p else None)"
| "part_payload utf8 (Other_part i p) = None"

lemma js_slice_mid: "js_slice (pre @ m @ post) (int (length pre)) (int (length pre) + int (length m)) = m"
  by (simp add: js_slice_def js_index_def Let_def nat_add_distrib)

fun run_parts ::
    "nat \<Rightarrow> 'e xdr_api \<Rightarrow> (bytes \<Rightarrow> string) \<Rightarrow> spec_part list \<Rightarrow> 'e list \<Rightarrow> (spec_error + 'e list) option" where
  "run_parts fuel api utf8 [] es = Some (Inr es)"
| "run_parts fuel api utf8 (x # xs) es =
     (case (case part_payload utf8 x of None \<Rightarrow> Some (Inr es) | Some p \<Rightarrow> spec_entries fuel api p 0 es) of
        None \<Rightarrow> None | Some (Inl err) \<Rightarrow> Some (Inl err) | Some (Inr es') \<Rightarrow> run_parts fuel api utf8 xs es')"

lemma spec_section_framed:
  assumes ok: "part_ok x" and wasm: "wasm = pre @ snd (part_section x) @ post"
  shows "spec_section fuel api utf8 wasm (Some (fst (part_section x))) (int (length pre))
      (int (length pre) + int (length (snd (part_section x)))) es =
    (case part_payload utf8 x of None \<Rightarrow> Some (Inr es) | Some p \<Rightarrow> spec_entries fuel api p 0 es)"
proof (cases x)
  case (Other_part i p)
  then show ?thesis using ok by (simp add: spec_section_def)
next
  case (Custom_part nm p)
  let ?n = "encode_uleb (length nm)"
  have w: "wasm = pre @ ?n @ nm @ p @ post" using wasm by (simp add: Custom_part custom_def)
  have "length nm < 2 ^ 31" using ok by (simp add: Custom_part custom_def)
  then have r: "readUleb128_spec wasm (int (length pre)) = (int (length nm), int (length ?n))"
    unfolding w by (rule spec_read_len)
  have s1: "js_slice wasm (int (length pre) + int (length ?n)) (int (length pre) + int (length ?n) + int (length nm)) = nm"
    using js_slice_mid [of "pre @ ?n" nm "p @ post"] by (simp add: w)
  have s2: "js_slice wasm (int (length pre) + int (length ?n) + int (length nm))
      (int (length pre) + int (length (snd (part_section x)))) = p"
    using js_slice_mid [of "pre @ ?n @ nm" p post] by (simp add: w Custom_part custom_def add.assoc)
  show ?thesis
    using s1 s2 by (simp add: spec_section_def r Let_def Custom_part) (simp add: custom_def)
qed

lemma spec_sections_framed:
  "list_all part_ok xs \<Longrightarrow> wasm = pre @ concat (map (\<lambda>(i, p). i # sized p) (map part_section xs)) \<Longrightarrow>
    length xs < n \<Longrightarrow>
    spec_sections n fuel api utf8 wasm (int (length pre)) es = run_parts fuel api utf8 xs es"
proof (induction xs arbitrary: pre n es)
  case Nil
  then show ?case by (cases n) auto
next
  case (Cons x xs)
  obtain n' where n: "n = Suc n'" "length xs < n'" using Cons.prems(3) by (cases n) auto
  obtain i p where x: "part_section x = (i, p)" by (cases "part_section x")
  let ?rest = "concat (map (\<lambda>(i, p). i # sized p) (map part_section xs))"
  have wasm: "wasm = (pre @ [i]) @ encode_uleb (length p) @ p @ ?rest"
    using Cons.prems(2) by (simp add: x sized_def)
  have at: "buf_at wasm (int (length pre)) = Some i"
    using buf_at_app [of "int (length pre)" pre i] wasm by simp
  have len: "length p < 2 ^ 31" using Cons.prems(1) x by (cases x) auto
  have read: "readUleb128_spec wasm (int (length pre) + 1) = (int (length p), int (length (encode_uleb (length p))))"
    using spec_read_len [OF len, of "pre @ [i]" "p @ ?rest"] wasm by (simp add: add.commute)
  let ?start = "pre @ i # encode_uleb (length p)" and ?pre = "pre @ i # sized p"
  have here: "spec_section fuel api utf8 wasm (Some i) (int (length ?start)) (int (length ?start) + int (length p)) es =
      (case part_payload utf8 x of None \<Rightarrow> Some (Inr es) | Some p \<Rightarrow> spec_entries fuel api p 0 es)"
    using spec_section_framed [of x wasm ?start ?rest fuel api utf8 es] Cons.prems(1) wasm by (simp add: x)
  have e: "int (length pre) + 1 + int (length (encode_uleb (length p))) = int (length ?start)"
    "int (length ?start) + int (length p) = int (length ?pre)"
    by (simp_all add: sized_def)
  have IH: "spec_sections n' fuel api utf8 wasm (int (length ?pre)) es' = run_parts fuel api utf8 xs es'" for es'
    using Cons.prems(1,2) n(2) by (intro Cons.IH) (auto simp: x)
  have lt: "int (length pre) < int (length wasm)" by (simp add: wasm)
  show ?case
    using here IH
    by (simp only: n(1) spec_sections.simps lt if_True read prod.case Let_def at e run_parts.simps)
      (auto split: option.splits sum.splits)
qed

section \<open>The interface of a binary\<close>

text \<open>What is assumed of the XDR library, with \<open>enc\<close> the encoding of an entry: either reading takes
  an entry off the front of a buffer, or it raises when bytes are left over.\<close>

definition reads_front :: "'e xdr_api \<Rightarrow> ('e \<Rightarrow> bytes) \<Rightarrow> bool" where
  "reads_front api enc \<longleftrightarrow> (\<forall>e rest. xdr_read api (enc e @ rest) = Some e \<and> xdr_size api e = length (enc e) \<and> enc e \<noteq> [])"

definition reads_all :: "'e xdr_api \<Rightarrow> ('e \<Rightarrow> bytes) \<Rightarrow> bool" where
  "reads_all api enc \<longleftrightarrow> (\<forall>e rest. xdr_read api (enc e @ rest) = (if rest = [] then Some e else None) \<and>
     xdr_size api e = length (enc e) \<and> enc e \<noteq> [])"

lemma spec_entries_encoded:
  assumes api: "reads_front api enc"
  shows "length es < n \<Longrightarrow>
    spec_entries n api (pre @ concat (map enc es)) (length pre) acc = Some (Inr (acc @ es))"
proof (induction es arbitrary: n pre acc)
  case Nil
  then show ?case by (cases n) auto
next
  case (Cons e es)
  then obtain k where n: "n = Suc k" "length es < k" by (cases n) auto
  have e: "xdr_read api (enc e @ rest) = Some e" "xdr_size api e = length (enc e)" "enc e \<noteq> []" for rest
    using api by (auto simp: reads_front_def)
  have "spec_entries k api ((pre @ enc e) @ concat (map enc es)) (length (pre @ enc e)) (acc @ [e]) =
      Some (Inr ((acc @ [e]) @ es))"
    by (rule Cons.IH [OF n(2)])
  then show ?case using e by (simp add: n(1))
qed

lemma run_parts_none: "list_all (\<lambda>x. part_payload utf8 x = None) xs \<Longrightarrow>
    run_parts fuel api utf8 (xs @ ys) es = run_parts fuel api utf8 ys es"
  by (induction xs) auto

definition with_interface :: "(bytes \<Rightarrow> string) \<Rightarrow> spec_part list \<Rightarrow> bytes \<Rightarrow> bytes \<Rightarrow> spec_part list \<Rightarrow> bool" where
  "with_interface utf8 before nm p after \<longleftrightarrow>
     utf8 nm = SECTION_NAME \<and> list_all part_ok (before @ Custom_part nm p # after) \<and>
     list_all (\<lambda>x. part_payload utf8 x = None) before \<and> list_all (\<lambda>x. part_payload utf8 x = None) after"

definition interface_module :: "spec_part list \<Rightarrow> bytes \<Rightarrow> bytes \<Rightarrow> spec_part list \<Rightarrow> bytes" where
  "interface_module before nm p after = frame (map part_section (before @ Custom_part nm p # after))"

lemma parseWasmSpec_framed:
  assumes "with_interface utf8 before nm p after" "length before + length after + 1 < fuel"
  shows "parseWasmSpec fuel api utf8 (interface_module before nm p after) = spec_entries fuel api p 0 []"
proof -
  let ?xs = "before @ Custom_part nm p # after" and ?wasm = "interface_module before nm p after"
  have "spec_sections fuel fuel api utf8 ?wasm (int (length wasm_header)) [] = run_parts fuel api utf8 ?xs []"
    by (rule spec_sections_framed) (use assms in \<open>auto simp: with_interface_def interface_module_def frame_def\<close>)
  moreover have "\<not> length ?wasm < 8" "length wasm_header = 8"
    by (simp_all add: interface_module_def frame_def wasm_header_def)
  moreover have "run_parts fuel api utf8 after es = Some (Inr es)" for es
    using run_parts_none [of utf8 after fuel api "[]" es] assms(1) by (simp add: with_interface_def)
  ultimately show ?thesis
    using assms(1) run_parts_none [of utf8 before fuel api "Custom_part nm p # after" "[]"]
    by (auto simp: parseWasmSpec_def with_interface_def split: option.splits sum.splits)
qed

text \<open>The interface of a binary is read completely, provided the XDR library takes an entry off
  the front of a buffer: from a binary with one \<open>contractspecv0\<close> section among any other
  sections, the functions of that section are extracted, in order, and fuel for one step per
  section and per entry is enough.\<close>

theorem extractFunctions_complete:
  assumes "reads_front api enc" "with_interface utf8 before nm (concat (map enc es)) after"
    and "length before + length after + 1 < fuel" "length es < fuel"
  shows "extractFunctions fuel api utf8 (interface_module before nm (concat (map enc es)) after) =
    Some (concat (map (entry_fn api) es))"
  using parseWasmSpec_framed [OF assms(2,3), of api] spec_entries_encoded [OF assms(1,4), of "[]" "[]"]
  by (simp add: extractFunctions_def)

text \<open>If the XDR library instead raises on left-over bytes, as the function name \<open>fromXDR\<close> for a
  whole buffer suggests, no binary with more than one interface entry has any functions: reading
  the first entry from the rest of the payload raises, and the handler returns the empty list.\<close>

theorem strict_xdr_finds_no_functions:
  assumes "reads_all api enc" "with_interface utf8 before nm (concat (map enc (d # e # es))) after"
    and "length before + length after + 1 < fuel"
  shows "extractFunctions fuel api utf8 (interface_module before nm (concat (map enc (d # e # es))) after) = Some []"
proof -
  obtain k where k: "fuel = Suc k" using assms(3) by (cases fuel) auto
  have d: "xdr_read api (enc d @ enc e @ concat (map enc es)) = None"
    and ne: "enc d \<noteq> []"
    using assms(1) by (auto simp: reads_all_def)
  have "spec_entries fuel api (concat (map enc (d # e # es))) 0 [] = Some (Inl BadXdr)"
    using d ne by (simp add: k)
  then show ?thesis using parseWasmSpec_framed [OF assms(2,3), of api] by (simp add: extractFunctions_def)
qed

text \<open>A library of functions with two-byte encodings, and the interface of a small contract.\<close>

definition demo_enc :: "nat \<Rightarrow> bytes" where
  "demo_enc e = [e, e]"

definition demo_view :: "nat \<Rightarrow> entry_view option" where
  "demo_view e = (if e = 0 then Some OtherEntry else Some (FunctionV0 (replicate e (CHR ''f'')) e))"

definition front_api :: "nat xdr_api" where
  "front_api = \<lparr>xdr_read = (\<lambda>bs. case bs of [] \<Rightarrow> None | b # _ \<Rightarrow> Some b), xdr_size = (\<lambda>_. 2), xdr_view = demo_view\<rparr>"

definition strict_api :: "nat xdr_api" where
  "strict_api = \<lparr>xdr_read = (\<lambda>bs. case bs of [a, b] \<Rightarrow> Some a | _ \<Rightarrow> None), xdr_size = (\<lambda>_. 2), xdr_view = demo_view\<rparr>"

definition ascii :: "bytes \<Rightarrow> string" where
  "ascii bs = map char_of bs"

definition spec_name :: bytes where
  "spec_name = map of_char SECTION_NAME"

lemma demo_interface: "with_interface ascii [Other_part 1 [0]] spec_name (concat (map demo_enc [1, 0, 2])) []"
proof -
  have "ascii spec_name = SECTION_NAME" by (simp add: ascii_def spec_name_def comp_def)
  moreover have "length spec_name = 14" by (simp add: spec_name_def SECTION_NAME_def)
  ultimately show ?thesis by (simp add: with_interface_def custom_def demo_enc_def encode_uleb.simps)
qed

theorem extractFunctions_complete_witness:
  "extractFunctions 5 front_api ascii
     (interface_module [Other_part 1 [0]] spec_name (concat (map demo_enc [1, 0, 2])) []) =
   Some [\<lparr>fn_name = ''f'', inputCount = 1\<rparr>, \<lparr>fn_name = ''ff'', inputCount = 2\<rparr>]"
proof -
  have "reads_front front_api demo_enc" by (simp add: reads_front_def front_api_def demo_enc_def)
  then have "extractFunctions 5 front_api ascii
      (interface_module [Other_part 1 [0]] spec_name (concat (map demo_enc [1, 0, 2])) []) =
      Some (concat (map (entry_fn front_api) [1, 0, 2]))"
    by (rule extractFunctions_complete [OF _ demo_interface]) simp_all
  then show ?thesis by (simp add: entry_fn_def front_api_def demo_view_def numeral_2_eq_2)
qed

theorem strict_xdr_finds_no_functions_witness:
  "extractFunctions 5 strict_api ascii
     (interface_module [Other_part 1 [0]] spec_name (concat (map demo_enc [1, 0, 2])) []) = Some []"
proof -
  have "reads_all strict_api demo_enc"
    by (auto simp: reads_all_def strict_api_def demo_enc_def split: list.splits)
  then show ?thesis
    by (rule strict_xdr_finds_no_functions [OF _ demo_interface]) simp
qed

end
