(* ===== verification/Wasm_Diff.thy ===== *)
theory Wasm_Diff
  imports Complex_Main "HOL-Library.Multiset" Wasm_Spec
begin

text \<open>
  \<open>src/indexer/wasm-diff.ts\<close>: the difference of two contract binaries, by opcode frequencies and
  by interface, its severity and its summary. A quotient of instruction counts is a rational
  number; the code's doubles agree with it at every comparison below \<open>2^40\<close> instructions. The
  dash of the summary is its three UTF-8 bytes.
\<close>

section \<open>Severity\<close>

datatype change_severity = Minor | Moderate | Major | Critical

fun severity_rank :: "change_severity \<Rightarrow> nat" where
  "severity_rank Minor = 0"
| "severity_rank Moderate = 1"
| "severity_rank Major = 2"
| "severity_rank Critical = 3"

instantiation change_severity :: linorder
begin

definition less_eq_change_severity :: "change_severity \<Rightarrow> change_severity \<Rightarrow> bool" where
  "less_eq_change_severity a b = (severity_rank a \<le> severity_rank b)"

definition less_change_severity :: "change_severity \<Rightarrow> change_severity \<Rightarrow> bool" where
  "less_change_severity a b = (severity_rank a < severity_rank b)"

instance
proof
  fix a b :: change_severity
  show "a \<le> b \<Longrightarrow> b \<le> a \<Longrightarrow> a = b"
    by (cases a; cases b) (auto simp: less_eq_change_severity_def)
qed (auto simp: less_eq_change_severity_def less_change_severity_def)

end

fun severity_text :: "change_severity \<Rightarrow> string" where
  "severity_text Minor = ''MINOR''"
| "severity_text Moderate = ''MODERATE''"
| "severity_text Major = ''MAJOR''"
| "severity_text Critical = ''CRITICAL''"

section \<open>Data\<close>

definition CRITICAL_FUNCTIONS :: "string list" where
  "CRITICAL_FUNCTIONS =
     [''upgrade'', ''set_admin'', ''set_administrator'', ''transfer_admin'', ''transfer_ownership'',
      ''set_owner'', ''set_authority'', ''renounce_ownership'', ''add_signer'', ''remove_signer'',
      ''set_threshold'', ''mint'', ''burn'', ''clawback'', ''pause'', ''unpause'', ''freeze'', ''unfreeze'',
      ''set_pause'', ''withdraw'', ''set_fee'', ''migrate'', ''initialize'', ''init'']"

record opcode_diff =
  addedOpcodes :: "string list"
  removedOpcodes :: "string list"
  previousTotal :: nat
  newTotal :: nat
  churn :: rat

record function_diff =
  added :: "string list"
  removed :: "string list"
  signatureChanged :: "string list"
  criticalChanges :: "string list"

record wasm_diff =
  wd_severity :: change_severity
  wd_summary :: string
  wd_opcodes :: opcode_diff
  wd_functions :: function_diff
  wd_isInitial :: bool

section \<open>diffOpcodes\<close>

definition changed_bytes :: "(string, nat) jsmap \<Rightarrow> (string, nat) jsmap \<Rightarrow> nat" where
  "changed_bytes prevFreq nextFreq =
     sum_list (map (\<lambda>op. nat (abs (int (count_of nextFreq op) - int (count_of prevFreq op))))
       (js_set_of (jm_keys prevFreq @ jm_keys nextFreq)))"

definition diffOpcodes :: "opcode_index option \<Rightarrow> opcode_index \<Rightarrow> opcode_diff" where
  "diffOpcodes previous nxt =
     (let prevFreq = (case previous of None \<Rightarrow> [] | Some p \<Rightarrow> frequency p);
          nextFreq = frequency nxt;
          prevOps = jm_keys prevFreq; nextOps = jm_keys nextFreq;
          previousTotal = (case previous of None \<Rightarrow> 0 | Some p \<Rightarrow> totalOpcodes p);
          newTotal = totalOpcodes nxt;
          denom = max (max previousTotal newTotal) 1
      in \<lparr>addedOpcodes = sort (filter (\<lambda>op. op \<notin> set prevOps) nextOps),
          removedOpcodes = sort (filter (\<lambda>op. op \<notin> set nextOps) prevOps),
          previousTotal = previousTotal, newTotal = newTotal,
          churn = min 1 (rat_of_nat (changed_bytes prevFreq nextFreq) / rat_of_nat denom)\<rparr>)"

section \<open>diffFunctions\<close>

text \<open>\<open>new Map(fns.map(f => [f.name, f]))\<close>\<close>

definition fn_map :: "contract_fn list \<Rightarrow> (string, contract_fn) jsmap" where
  "fn_map fns = fold (\<lambda>f. jm_set (fn_name f) f) fns []"

definition diffFunctions :: "contract_fn list option \<Rightarrow> contract_fn list \<Rightarrow> function_diff" where
  "diffFunctions previous nxt =
     (let prevMap = fn_map (case previous of None \<Rightarrow> [] | Some fs \<Rightarrow> fs);
          nextMap = fn_map nxt;
          add = filter (\<lambda>nm. jm_get prevMap nm = None) (jm_keys nextMap);
          changed = map fst (filter (\<lambda>(nm, f). case jm_get prevMap nm of None \<Rightarrow> False
                      | Some old \<Rightarrow> inputCount old \<noteq> inputCount f) nextMap);
          gone = filter (\<lambda>nm. \<not> jm_has nextMap nm) (jm_keys prevMap);
          crit = sort (filter (\<lambda>nm. nm \<in> set CRITICAL_FUNCTIONS) (add @ gone @ changed))
      in \<lparr>added = sort add, removed = sort gone, signatureChanged = sort changed,
          criticalChanges = js_set_of crit\<rparr>)"

section \<open>Classification and summary\<close>

definition fn_changes :: "function_diff \<Rightarrow> nat" where
  "fn_changes f = length (added f) + length (removed f) + length (signatureChanged f)"

definition classifyChange :: "opcode_diff \<Rightarrow> function_diff \<Rightarrow> change_severity" where
  "classifyChange opcodes functions =
     (if criticalChanges functions \<noteq> [] then Critical
      else if removed functions \<noteq> [] \<or> 1 / 2 \<le> churn opcodes \<or> 5 \<le> fn_changes functions then Major
      else if 3 / 20 \<le> churn opcodes \<or> 1 \<le> fn_changes functions \<or> addedOpcodes opcodes \<noteq> [] then Moderate
      else Minor)"

definition joinList :: "string list \<Rightarrow> string" where
  "joinList items =
     (if length items \<le> 5 then join_with '', '' items
      else join_with '', '' (take 5 items) @ '' (+'' @ dec_nat (length items - 5) @ '' more)'')"

definition em_dash :: string where
  "em_dash = map char_of [226, 128, 148 :: nat]"

definition named_part :: "string \<Rightarrow> string list \<Rightarrow> string list" where
  "named_part label items = (if items = [] then [] else [label @ joinList items])"

definition summarizeChange :: "change_severity \<Rightarrow> opcode_diff \<Rightarrow> function_diff \<Rightarrow> bool \<Rightarrow> string" where
  "summarizeChange severity opcodes functions isInitial =
     (if isInitial then
        ''Initial deployment '' @ em_dash @ '' '' @ dec_nat (length (added functions)) @ '' function(s), '' @
        dec_nat (newTotal opcodes) @ '' instructions. No prior version to diff.''
      else
        (let churnPct = floor (churn opcodes * 100 + 1 / 2);
             first = severity_text severity @ '' change: ~'' @ dec_int churnPct @ ''% of instructions modified'';
             rest = named_part ''changes to critical function(s) '' (criticalChanges functions) @
               named_part ''added '' (added functions) @ named_part ''removed '' (removed functions) @
               named_part ''changed signature of '' (signatureChanged functions) @
               named_part ''new instruction types '' (addedOpcodes opcodes);
             parts = first # (if rest = [] then [''no function-level or instruction-type changes detected''] else rest)
         in join_with ''; '' parts @ ''.''))"

section \<open>diffWasm\<close>

definition empty_index :: opcode_index where
  "empty_index = \<lparr>distinctOpcodes = [], totalOpcodes = 0, frequency = [], sequence = []\<rparr>"

text \<open>\<open>None\<close>: the decoder does not return within the fuel.\<close>

definition safeOpcodeIndex :: "nat \<Rightarrow> bytes option \<Rightarrow> opcode_index option option" where
  "safeOpcodeIndex fuel wasm =
     (case wasm of None \<Rightarrow> Some None
      | Some w \<Rightarrow> (case buildOpcodeIndex fuel w of None \<Rightarrow> None
          | Some (Inl err) \<Rightarrow> Some None | Some (Inr idx) \<Rightarrow> Some (Some idx)))"

definition assemble :: "bool \<Rightarrow> opcode_diff \<Rightarrow> function_diff \<Rightarrow> wasm_diff" where
  "assemble isInitial opcodes functions =
     (let severity = (if isInitial then Major else classifyChange opcodes functions)
      in \<lparr>wd_severity = severity, wd_summary = summarizeChange severity opcodes functions isInitial,
          wd_opcodes = opcodes, wd_functions = functions, wd_isInitial = isInitial\<rparr>)"

definition previous_functions ::
    "nat \<Rightarrow> 'e xdr_api \<Rightarrow> (bytes \<Rightarrow> string) \<Rightarrow> bytes option \<Rightarrow> contract_fn list option option" where
  "previous_functions fuel api utf8 wasm =
     (case wasm of None \<Rightarrow> Some None | Some w \<Rightarrow> map_option Some (extractFunctions fuel api utf8 w))"

definition diffWasm ::
    "nat \<Rightarrow> 'e xdr_api \<Rightarrow> (bytes \<Rightarrow> string) \<Rightarrow> bytes option \<Rightarrow> bytes \<Rightarrow> wasm_diff option" where
  "diffWasm fuel api utf8 previousWasm newWasm =
     (case (safeOpcodeIndex fuel previousWasm, safeOpcodeIndex fuel (Some newWasm),
            previous_functions fuel api utf8 previousWasm, extractFunctions fuel api utf8 newWasm) of
        (Some prevIndex, Some nextIndex, Some prevFns, Some nextFns) \<Rightarrow>
          Some (assemble (previousWasm = None)
            (diffOpcodes prevIndex (case nextIndex of None \<Rightarrow> empty_index | Some i \<Rightarrow> i))
            (diffFunctions prevFns nextFns))
      | _ \<Rightarrow> None)"

section \<open>The interface difference is exact\<close>

text \<open>The arity a list declares for a name: the last declaration counts.\<close>

definition arity :: "contract_fn list \<Rightarrow> string \<Rightarrow> nat option" where
  "arity fs nm = map_of (rev (map (\<lambda>f. (fn_name f, inputCount f)) fs)) nm"

lemma fn_map_get: "jm_get (fn_map fs) nm = map_of (rev (map (\<lambda>f. (fn_name f, f)) fs)) nm"
proof -
  have "fn_map fs = fold (\<lambda>(k, v). jm_set k v) (map (\<lambda>f. (fn_name f, f)) fs) []"
    by (simp add: fn_map_def fold_map comp_def)
  then show ?thesis by (simp add: js_map.look_fold_put) (simp split: option.splits)
qed

lemma fn_map_ok [simp]: "jm_ok (fn_map fs)"
proof -
  have "jm_ok m \<Longrightarrow> jm_ok (fold (\<lambda>f. jm_set (fn_name f) f) fs m)" for m
    by (induction fs arbitrary: m) auto
  then show ?thesis by (simp add: fn_map_def)
qed

lemma arity_fn_map: "arity fs nm = map_option inputCount (jm_get (fn_map fs) nm)"
proof -
  have "map_of (map (\<lambda>f. (fn_name f, inputCount f)) gs) nm =
      map_option inputCount (map_of (map (\<lambda>f. (fn_name f, f)) gs) nm)" for gs
    by (induction gs) auto
  then show ?thesis by (simp only: arity_def fn_map_get rev_map)
qed

lemma fn_map_keys: "set (jm_keys (fn_map fs)) = fn_name ` set fs"
proof -
  have "nm \<in> set (jm_keys (fn_map fs)) \<longleftrightarrow> jm_get (fn_map fs) nm \<noteq> None" for nm
    using jm_has_iff [of "fn_map fs" nm] by (simp add: jm_has_def jm_keys_def)
  moreover have "jm_get (fn_map fs) nm \<noteq> None \<longleftrightarrow> nm \<in> fn_name ` set fs" for nm
    by (simp only: fn_map_get map_of_eq_None_iff) (auto simp: image_image)
  ultimately show ?thesis by blast
qed

lemma fn_map_distinct: "distinct (jm_keys (fn_map fs))"
  using fn_map_ok [of fs] by (simp add: jm_ok_def jm_keys_def)

lemma filter_keys: "distinct (map fst m) \<Longrightarrow> distinct (map fst (filter P m))"
  by (induction m) auto

lemma changed_set:
  "set (map fst (filter (\<lambda>(nm, f). Q nm f) m)) = {nm. \<exists>f. jm_get m nm = Some f \<and> Q nm f}" if "jm_ok m"
proof (rule set_eqI)
  fix nm
  have "(\<exists>f. (nm, f) \<in> set m \<and> Q nm f) \<longleftrightarrow> (\<exists>f. jm_get m nm = Some f \<and> Q nm f)"
    using jm_ok_get_eq [OF that] jm_get_in_set [of m] by metis
  then show "nm \<in> set (map fst (filter (\<lambda>(nm, f). Q nm f) m)) \<longleftrightarrow> nm \<in> {nm. \<exists>f. jm_get m nm = Some f \<and> Q nm f}"
    by (auto simp: image_iff)
qed

definition prev_list :: "contract_fn list option \<Rightarrow> contract_fn list" where
  "prev_list previous = (case previous of None \<Rightarrow> [] | Some fs \<Rightarrow> fs)"

definition ascending :: "string list \<Rightarrow> bool" where
  "ascending xs = (sorted xs \<and> distinct xs)"

lemma js_set_of_distinct: "distinct xs \<Longrightarrow> js_set_of xs = xs"
proof -
  have "distinct (s @ xs) \<Longrightarrow> fold js_add xs s = s @ xs" for s
    by (induction xs arbitrary: s) (auto simp: js_add_def)
  then show "distinct xs \<Longrightarrow> js_set_of xs = xs" by (simp add: js_set_of_def)
qed

text \<open>C35: The interface difference is exact, also for lists that declare a name twice (the last
  declaration counts): added and removed are the differences of the name sets, a signature is
  changed when both versions declare the name with different arities, and the critical changes
  are the critical names among the three; every list is ascending without repetitions.\<close>

theorem diffFunctions_exact:
  "let d = diffFunctions previous nxt; old = prev_list previous; names = (\<lambda>fs. fn_name ` set fs) in
   set (added d) = names nxt - names old \<and> set (removed d) = names old - names nxt \<and>
   set (signatureChanged d) = {nm. \<exists>a b. arity old nm = Some a \<and> arity nxt nm = Some b \<and> a \<noteq> b} \<and>
   set (criticalChanges d) =
     set CRITICAL_FUNCTIONS \<inter> (set (added d) \<union> set (removed d) \<union> set (signatureChanged d)) \<and>
   ascending (added d) \<and> ascending (removed d) \<and> ascending (signatureChanged d) \<and> ascending (criticalChanges d)"
proof -
  let ?p = "fn_map (prev_list previous)" and ?n = "fn_map nxt" and ?old = "prev_list previous"
  define add where "add = filter (\<lambda>nm. jm_get ?p nm = None) (jm_keys ?n)"
  define gone where "gone = filter (\<lambda>nm. \<not> jm_has ?n nm) (jm_keys ?p)"
  define changed where "changed = map fst (filter (\<lambda>(nm, f). case jm_get ?p nm of None \<Rightarrow> False
                      | Some old \<Rightarrow> inputCount old \<noteq> inputCount f) ?n)"
  have d: "diffFunctions previous nxt = \<lparr>added = sort add, removed = sort gone, signatureChanged = sort changed,
      criticalChanges = js_set_of (sort (filter (\<lambda>nm. nm \<in> set CRITICAL_FUNCTIONS) (add @ gone @ changed)))\<rparr>"
    by (simp add: diffFunctions_def Let_def add_def gone_def changed_def prev_list_def)
  have has: "jm_get (fn_map fs) nm = None \<longleftrightarrow> nm \<notin> fn_name ` set fs" for fs nm
    by (simp only: fn_map_get map_of_eq_None_iff) (auto simp: image_image)
  have sets: "set add = fn_name ` set nxt - fn_name ` set ?old" "set gone = fn_name ` set ?old - fn_name ` set nxt"
    by (auto simp: add_def gone_def fn_map_keys has jm_has_iff)
  have ch: "set changed = {nm. \<exists>a b. arity ?old nm = Some a \<and> arity nxt nm = Some b \<and> a \<noteq> b}"
    unfolding changed_def changed_set [OF fn_map_ok] by (auto simp: arity_fn_map split: option.splits)
  have ne: "nm \<in> fn_name ` set fs" if "arity fs nm = Some a" for fs nm a
    using that has [of fs nm] by (cases "jm_get (fn_map fs) nm") (auto simp: arity_fn_map)
  have dist: "distinct add" "distinct gone" "distinct changed"
    using fn_map_distinct filter_keys [of ?n] fn_map_ok [of nxt]
    by (auto simp: add_def gone_def changed_def jm_ok_def)
  have disj: "set add \<inter> set gone = {}" "set add \<inter> set changed = {}" "set gone \<inter> set changed = {}"
    using sets ch ne by auto
  have "distinct (add @ gone @ changed)" using dist disj by auto
  then have "distinct (sort (filter (\<lambda>nm. nm \<in> set CRITICAL_FUNCTIONS) (add @ gone @ changed)))"
    by (simp only: distinct_sort distinct_filter)
  then have "criticalChanges (diffFunctions previous nxt) = sort (filter (\<lambda>nm. nm \<in> set CRITICAL_FUNCTIONS) (add @ gone @ changed))"
    by (simp only: d function_diff.simps js_set_of_distinct)
  then show ?thesis
    using dist disj sets ch by (simp add: Let_def d ascending_def) auto
qed

section \<open>Churn\<close>

lemma count_list_mset: "count_list xs m = count (mset xs) m"
  by (induction xs) auto

lemma js_set_sum_zero:
  "changed_bytes pf nf = 0 \<longleftrightarrow> (\<forall>op. count_of pf op = count_of nf op)"
proof
  assume z: "changed_bytes pf nf = 0"
  show "\<forall>op. count_of pf op = count_of nf op"
  proof
    fix op
    show "count_of pf op = count_of nf op"
    proof (cases "op \<in> set (jm_keys pf) \<union> set (jm_keys nf)")
      case True
      then have "nat (abs (int (count_of nf op) - int (count_of pf op))) = 0"
        using z by (auto simp: changed_bytes_def)
      then show ?thesis by simp
    next
      case False
      then have "jm_get pf op = None" "jm_get nf op = None"
        using jm_has_iff [of pf op] jm_has_iff [of nf op] by (auto simp: jm_has_def jm_keys_def)
      then show ?thesis by (simp add: count_of_def)
    qed
  qed
qed (simp add: changed_bytes_def)

text \<open>Churn measures the multiset of opcodes and nothing else: for the indexes of any two
  binaries it lies between 0 and 1 and is 0 exactly when both decode to the same opcodes up to
  order. Operands and the order of instructions do not count.\<close>

theorem churn_zero_iff:
  assumes "buildOpcodeIndex fuel old = Some (Inr i)" "buildOpcodeIndex fuel' nxt = Some (Inr j)"
  shows "0 \<le> churn (diffOpcodes (Some i) j) \<and> churn (diffOpcodes (Some i) j) \<le> 1 \<and>
    (churn (diffOpcodes (Some i) j) = 0 \<longleftrightarrow> mset (sequence i) = mset (sequence j))"
proof -
  obtain s t where s: "i = finish_index s" "op_ok s" and t: "j = finish_index t" "op_ok t"
    using built_index [OF assms(1)] built_index [OF assms(2)] by metis
  have "mset (sequence i) = mset (sequence j) \<longleftrightarrow> (\<forall>m. count_of (frequency i) m = count_of (frequency j) m)"
    using s t by (auto simp: finish_index_def op_ok_def multiset_eq_iff count_list_mset)
  moreover have "churn (diffOpcodes (Some i) j) = 0 \<longleftrightarrow> changed_bytes (frequency i) (frequency j) = 0"
    by (auto simp: diffOpcodes_def Let_def min_def)
  moreover have "0 \<le> churn (diffOpcodes (Some i) j)" "churn (diffOpcodes (Some i) j) \<le> 1"
    by (auto simp: diffOpcodes_def Let_def min_def)
  ultimately show ?thesis by (simp add: js_set_sum_zero)
qed

definition edited_module :: "wasm_section list" where
  "edited_module = [Other 1 [0],
     Code [\<lparr>f_locals = [], f_code = [I_const 0x41 7, Index 0x20 3, Mem_arg 0x28 0 4, Plain 0x6a,
       Br_table [] 0, Plain 0x0b]\<rparr>]]"

theorem churn_zero_iff_witness:
  "\<exists>i j. buildOpcodeIndex 3 (encode_module demo_module) = Some (Inr i) \<and>
     buildOpcodeIndex 3 (encode_module edited_module) = Some (Inr j) \<and> churn (diffOpcodes (Some i) j) = 0"
proof -
  have ok: "list_all section_ok demo_module" "list_all section_ok edited_module"
    by (simp_all add: demo_module_def edited_module_def fun_ok_def code_payload_def fun_bytes_def
        encode_local_def encode_insn_def encode_uleb.simps encode_sleb.simps Let_def plain_opcodes_def sized_def)
  have len: "length demo_module < 3" "length edited_module < 3"
    by (simp_all add: demo_module_def edited_module_def)
  note idx = index_of_module [OF ok(1) len(1)] index_of_module [OF ok(2) len(2)]
  have "mset (map (\<lambda>x. mnemonic (insn_opcode x)) (module_code demo_module)) =
      mset (map (\<lambda>x. mnemonic (insn_opcode x)) (module_code edited_module))"
    by (simp add: demo_module_def edited_module_def module_code_def)
  then show ?thesis
    using idx churn_zero_iff [OF idx] by (simp add: finish_index_def push_all_seq)
qed

section \<open>Severity\<close>

text \<open>A difference grows when its lists and its churn do.\<close>

definition grows :: "opcode_diff \<Rightarrow> function_diff \<Rightarrow> opcode_diff \<Rightarrow> function_diff \<Rightarrow> bool" where
  "grows o1 f1 o2 f2 \<longleftrightarrow> churn o1 \<le> churn o2 \<and> set (addedOpcodes o1) \<subseteq> set (addedOpcodes o2) \<and>
     set (criticalChanges f1) \<subseteq> set (criticalChanges f2) \<and> set (added f1) \<subseteq> set (added f2) \<and>
     set (removed f1) \<subseteq> set (removed f2) \<and> set (signatureChanged f1) \<subseteq> set (signatureChanged f2) \<and>
     distinct (added f1) \<and> distinct (removed f1) \<and> distinct (signatureChanged f1)"

lemma length_mono: "distinct xs \<Longrightarrow> set xs \<subseteq> set ys \<Longrightarrow> length xs \<le> length ys"
  by (metis card_length card_mono distinct_card finite_set le_trans)

lemma severity_bounds [simp]: "Minor \<le> s" "s \<le> Critical"
  by (cases s; simp add: less_eq_change_severity_def)+

lemma severity_steps [simp]: "Moderate \<le> Major" "\<not> Major \<le> Moderate" "\<not> Moderate \<le> Minor" "\<not> Critical \<le> Major"
  by (simp_all add: less_eq_change_severity_def)

lemma classify_mono:
  assumes "grows o1 f1 o2 f2" shows "classifyChange o1 f1 \<le> classifyChange o2 f2"
proof -
  have "fn_changes f1 \<le> fn_changes f2"
    using assms by (auto simp: grows_def fn_changes_def intro!: add_mono length_mono)
  then show ?thesis
    using assms by (auto simp: classifyChange_def grows_def)
qed

text \<open>An initial deployment is always a major change, and all its critical functions are changes.\<close>

lemma initial_diff:
  assumes "diffWasm fuel api utf8 None w = Some d" "extractFunctions fuel api utf8 w = Some fns"
  shows "wd_severity d = Major" "wd_isInitial d"
    "set (criticalChanges (wd_functions d)) = set CRITICAL_FUNCTIONS \<inter> fn_name ` set fns"
proof -
  have d: "d = assemble True (diffOpcodes None (wd_nextIndex)) (diffFunctions None fns)"
    if "safeOpcodeIndex fuel (Some w) = Some i" "wd_nextIndex = (case i of None \<Rightarrow> empty_index | Some i \<Rightarrow> i)" for i wd_nextIndex
    using assms that by (simp add: diffWasm_def safeOpcodeIndex_def previous_functions_def)
  obtain i where "safeOpcodeIndex fuel (Some w) = Some i"
    using assms by (cases "safeOpcodeIndex fuel (Some w)") (auto simp: diffWasm_def split: option.splits)
  note d = d [OF this refl]
  show "wd_severity d = Major" "wd_isInitial d" by (simp_all add: d assemble_def Let_def)
  show "set (criticalChanges (wd_functions d)) = set CRITICAL_FUNCTIONS \<inter> fn_name ` set fns"
    using fn_map_keys [of fns]
    by (auto simp: d assemble_def Let_def diffFunctions_def fn_map_def jm_keys_def)
qed

end
