(* ===== verification/Upgrade_Governance.thy ===== *)
theory Upgrade_Governance
  imports Wasm_Diff
begin

text \<open>
  \<open>src/indexer/upgrade-governance.ts\<close> and \<open>src/indexer/wasm-upgrade-collector.ts\<close>: the
  governance posture of an upgrade, its decentralisation score, the suspicious-activity flags, and
  the recording of an upgrade in the history table. Times are milliseconds since the epoch. The
  tables are lists of rows; where a query orders rows, the first row with the largest key is taken.
\<close>

section \<open>analyzeGovernance\<close>

datatype governance_type = SingleKey | Multisig | Timelock | Dao | UnknownGov

datatype risk_level = NoRisk | LowRisk | MediumRisk | HighRisk | CriticalRisk

record gov_signals =
  gs_signerCount :: "int option"
  gs_threshold :: "int option"
  gs_hasTimelock :: "bool option"
  gs_timelockSeconds :: "int option"
  gs_daoProposalId :: "string option"
  gs_daoVotes :: "int option"

record gov_analysis =
  governanceType :: governance_type
  isMultisig :: bool
  signerCount :: int
  threshold :: int
  hasTimelock :: bool
  timelockSeconds :: int
  daoProposalId :: "string option"
  daoVotes :: int

definition no_signals :: gov_signals where
  "no_signals = \<lparr>gs_signerCount = None, gs_threshold = None, gs_hasTimelock = None,
     gs_timelockSeconds = None, gs_daoProposalId = None, gs_daoVotes = None\<rparr>"

definition or_int :: "int option \<Rightarrow> int" where
  "or_int v = (case v of None \<Rightarrow> 0 | Some i \<Rightarrow> i)"

text \<open>A string in a condition: neither missing nor empty.\<close>

definition truthy :: "string option \<Rightarrow> bool" where
  "truthy s = (case s of None \<Rightarrow> False | Some t \<Rightarrow> t \<noteq> [])"

definition analyzeGovernance :: "gov_signals \<Rightarrow> gov_analysis" where
  "analyzeGovernance sg =
     (let n = or_int (gs_signerCount sg); secs = or_int (gs_timelockSeconds sg);
          lock = (gs_hasTimelock sg = Some True \<or> 0 < secs); dao = gs_daoProposalId sg
      in \<lparr>governanceType =
            (if truthy dao then Dao else if lock then Timelock else if 1 < n then Multisig
             else if n = 1 then SingleKey else UnknownGov),
          isMultisig = (1 < n), signerCount = n, threshold = or_int (gs_threshold sg), hasTimelock = lock,
          timelockSeconds = secs, daoProposalId = dao, daoVotes = or_int (gs_daoVotes sg)\<rparr>)"

section \<open>computeDecentralizationScore\<close>

text \<open>\<open>Math.floor(seconds / 86400 * 5)\<close> is division by 17280, also in doubles, and
  \<open>threshold / signerCount >= 0.5\<close> is compared without the division.\<close>

definition authority_score :: "gov_analysis \<Rightarrow> int" where
  "authority_score a =
     (if signerCount a = 1 then 5
      else if 1 < signerCount a then
        min 45 (15 + min 20 ((signerCount a - 1) * 5) +
          (if 0 < threshold a \<and> signerCount a \<le> 2 * threshold a then 10 else 0))
      else 0)"

definition timelock_score :: "gov_analysis \<Rightarrow> int" where
  "timelock_score a = (if hasTimelock a then min 25 (10 + timelockSeconds a div 17280) else 0)"

definition dao_score :: "gov_analysis \<Rightarrow> int" where
  "dao_score a = (if truthy (daoProposalId a) then min 30 (15 + daoVotes a div 10) else 0)"

definition computeDecentralizationScore :: "gov_analysis \<Rightarrow> int" where
  "computeDecentralizationScore a =
     max 0 (min 100 (authority_score a + timelock_score a + dao_score a))"

section \<open>detectSuspiciousActivity\<close>

definition NEW_ACCOUNT_LEDGERS :: int where
  "NEW_ACCOUNT_LEDGERS = 17280"

definition ACCESS_CONTROL_FUNCTIONS :: "string list" where
  "ACCESS_CONTROL_FUNCTIONS =
     [''set_admin'', ''set_administrator'', ''transfer_admin'', ''transfer_ownership'', ''set_owner'',
      ''set_authority'', ''renounce_ownership'', ''add_signer'', ''remove_signer'', ''set_threshold'', ''upgrade'']"

datatype flag = PostVulnUpgrade | NewAccountUpgrader | MidnightUpgrade | CriticalAclChange | SingleKeyCritical

fun FLAG_WEIGHTS :: "flag \<Rightarrow> nat" where
  "FLAG_WEIGHTS PostVulnUpgrade = 3"
| "FLAG_WEIGHTS CriticalAclChange = 3"
| "FLAG_WEIGHTS NewAccountUpgrader = 2"
| "FLAG_WEIGHTS SingleKeyCritical = 2"
| "FLAG_WEIGHTS MidnightUpgrade = 1"

record advisory =
  ad_id :: string
  ad_affected :: "string list"
  ad_createdAt :: int

record suspicious_ctx =
  sx_upgradeTime :: int
  sx_accountAge :: "int option"
  sx_vulnerability :: "advisory option"
  sx_criticalFnChanges :: "string list"
  sx_governanceType :: governance_type

record suspicious_result =
  flags :: "flag list"
  isSuspicious :: bool
  riskLevel :: risk_level

definition utc_hours :: "int \<Rightarrow> int" where
  "utc_hours t = (t div 3600000) mod 24"

definition acl_change :: "string list \<Rightarrow> bool" where
  "acl_change fns = (\<exists>fn \<in> set fns. fn \<in> set ACCESS_CONTROL_FUNCTIONS)"

definition raise_flags :: "suspicious_ctx \<Rightarrow> flag list" where
  "raise_flags ctx =
     (let acl = acl_change (sx_criticalFnChanges ctx); hour = utc_hours (sx_upgradeTime ctx) in
      (if sx_vulnerability ctx \<noteq> None then [PostVulnUpgrade] else []) @
      (case sx_accountAge ctx of None \<Rightarrow> []
       | Some age \<Rightarrow> if 0 \<le> age \<and> age < NEW_ACCOUNT_LEDGERS then [NewAccountUpgrader] else []) @
      (if 0 \<le> hour \<and> hour < 4 then [MidnightUpgrade] else []) @
      (if acl then [CriticalAclChange] else []) @
      (if acl \<and> sx_governanceType ctx = SingleKey then [SingleKeyCritical] else []))"

definition risk_of :: "nat \<Rightarrow> risk_level" where
  "risk_of score =
     (if score = 0 then NoRisk else if score \<le> 1 then LowRisk else if score \<le> 3 then MediumRisk
      else if score \<le> 5 then HighRisk else CriticalRisk)"

definition detectSuspiciousActivity :: "suspicious_ctx \<Rightarrow> suspicious_result" where
  "detectSuspiciousActivity ctx =
     (let fs = raise_flags ctx
      in \<lparr>flags = fs, isSuspicious = (fs \<noteq> []), riskLevel = risk_of (sum_list (map FLAG_WEIGHTS fs))\<rparr>)"

section \<open>The tables\<close>

record contract_row =
  co_address :: string
  co_wasmHash :: "string option"

text \<open>\<open>sn_signers\<close> is the length of the signer array; \<open>None\<close> when the column holds no array.\<close>

record snapshot_row =
  sn_contract :: string
  sn_signers :: "nat option"
  sn_highThreshold :: "int option"
  sn_ledger :: int

record account_row =
  ac_address :: string
  ac_numSigners :: int
  ac_high :: "int option"
  ac_firstSeen :: "int option"
  ac_createdAt :: int

record proposal_row =
  pr_contract :: string
  pr_id :: string
  pr_executed :: bool
  pr_executionTx :: "string option"
  pr_updatedAt :: int

record vote_row =
  vo_contract :: string
  vo_proposal :: string

record upgrade_row =
  up_contract :: string
  up_previousHash :: "string option"
  up_newHash :: string
  up_ledger :: int
  up_closeTime :: int
  up_tx :: "string option"
  up_upgrader :: "string option"
  up_accountAge :: "int option"
  up_diff :: "wasm_diff option"
  up_criticalFnChanges :: "string list"
  up_governanceType :: "governance_type option"
  up_signerCount :: "int option"
  up_threshold :: "int option"
  up_timelockSeconds :: "int option"
  up_daoProposalId :: "string option"
  up_score :: "int option"
  up_flags :: "flag list"
  up_isSuspicious :: bool
  up_riskLevel :: "risk_level option"

record gov_db =
  contracts :: "contract_row list"
  snapshots :: "snapshot_row list"
  accounts :: "account_row list"
  proposals :: "proposal_row list"
  votes :: "vote_row list"
  advisories :: "advisory list"
  history :: "upgrade_row list"

text \<open>\<open>findFirst\<close> with \<open>orderBy: { key: 'desc' }\<close>.\<close>

fun first_max :: "('r \<Rightarrow> int) \<Rightarrow> 'r list \<Rightarrow> 'r option" where
  "first_max key [] = None"
| "first_max key (r # rs) =
     (case first_max key rs of None \<Rightarrow> Some r | Some q \<Rightarrow> if key r < key q then Some q else Some r)"

section \<open>gatherGovernanceSignals and gatherSuspiciousContext\<close>

definition signer_signals :: "gov_db \<Rightarrow> string \<Rightarrow> string option \<Rightarrow> gov_signals" where
  "signer_signals db addr upgrader =
     (case first_max sn_ledger (filter (\<lambda>s. sn_contract s = addr) (snapshots db)) of
        Some s \<Rightarrow> no_signals\<lparr>gs_signerCount := Some (case sn_signers s of None \<Rightarrow> 0 | Some n \<Rightarrow> int n),
                    gs_threshold := sn_highThreshold s\<rparr>
      | None \<Rightarrow>
          if truthy upgrader then
            (case tbl_find ac_address (the upgrader) (accounts db) of
               None \<Rightarrow> no_signals
             | Some a \<Rightarrow> no_signals\<lparr>gs_signerCount := Some (ac_numSigners a), gs_threshold := ac_high a\<rparr>)
          else no_signals)"

definition correlated_proposal :: "gov_db \<Rightarrow> string \<Rightarrow> string option \<Rightarrow> proposal_row option" where
  "correlated_proposal db addr tx =
     (case (if truthy tx then List.find (\<lambda>p. pr_contract p = addr \<and> pr_executionTx p = tx) (proposals db) else None) of
        Some p \<Rightarrow> Some p
      | None \<Rightarrow> first_max pr_updatedAt (filter (\<lambda>p. pr_contract p = addr \<and> pr_executed p) (proposals db)))"

definition gatherGovernanceSignals :: "gov_db \<Rightarrow> string \<Rightarrow> string option \<Rightarrow> string option \<Rightarrow> gov_signals" where
  "gatherGovernanceSignals db addr upgrader tx =
     (let sg = signer_signals db addr upgrader in
      case correlated_proposal db addr tx of
        None \<Rightarrow> sg
      | Some p \<Rightarrow> sg\<lparr>gs_daoProposalId := Some (pr_id p),
          gs_daoVotes := Some (int (length (filter (\<lambda>v. vo_contract v = addr \<and> vo_proposal v = pr_id p) (votes db))))\<rparr>)"

definition VULN_WINDOW_MS :: int where
  "VULN_WINDOW_MS = 24 * 3600 * 1000"

definition recent_advisory :: "gov_db \<Rightarrow> string \<Rightarrow> int \<Rightarrow> advisory option" where
  "recent_advisory db addr t =
     first_max ad_createdAt
       (filter (\<lambda>a. addr \<in> set (ad_affected a) \<and> t - VULN_WINDOW_MS \<le> ad_createdAt a \<and> ad_createdAt a \<le> t)
         (advisories db))"

text \<open>\<open>Math.floor(Math.max(0, t - since) / 1000 / 5)\<close>\<close>

definition account_age :: "gov_db \<Rightarrow> string option \<Rightarrow> int \<Rightarrow> int option" where
  "account_age db upgrader t =
     (if truthy upgrader then
        map_option (\<lambda>a. max 0 (t - (case ac_firstSeen a of None \<Rightarrow> ac_createdAt a | Some s \<Rightarrow> s)) div 5000)
          (tbl_find ac_address (the upgrader) (accounts db))
      else None)"

section \<open>recordUpgradeWithIntelligence\<close>

record upgrade_input =
  in_contract :: string
  in_newHash :: string
  in_ledger :: int
  in_closeTime :: int
  in_tx :: "string option"
  in_upgrader :: "string option"
  in_previousWasm :: "bytes option"
  in_newWasm :: "bytes option"

definition input_diff ::
    "nat \<Rightarrow> 'e xdr_api \<Rightarrow> (bytes \<Rightarrow> string) \<Rightarrow> upgrade_input \<Rightarrow> wasm_diff option option" where
  "input_diff fuel api utf8 x =
     (case in_newWasm x of None \<Rightarrow> Some None
      | Some w \<Rightarrow> map_option Some (diffWasm fuel api utf8 (in_previousWasm x) w))"

definition nonzero :: "int \<Rightarrow> int option" where
  "nonzero i = (if i = 0 then None else Some i)"

definition upgrade_record :: "gov_db \<Rightarrow> upgrade_input \<Rightarrow> string option \<Rightarrow> wasm_diff option \<Rightarrow> upgrade_row" where
  "upgrade_record db x previousHash diff =
     (let crit = (case diff of None \<Rightarrow> [] | Some d \<Rightarrow> criticalChanges (wd_functions d));
          g = analyzeGovernance (gatherGovernanceSignals db (in_contract x) (in_upgrader x) (in_tx x));
          age = account_age db (in_upgrader x) (in_closeTime x);
          s = detectSuspiciousActivity \<lparr>sx_upgradeTime = in_closeTime x, sx_accountAge = age,
                sx_vulnerability = recent_advisory db (in_contract x) (in_closeTime x),
                sx_criticalFnChanges = crit, sx_governanceType = governanceType g\<rparr>
      in \<lparr>up_contract = in_contract x, up_previousHash = previousHash, up_newHash = in_newHash x,
          up_ledger = in_ledger x, up_closeTime = in_closeTime x, up_tx = in_tx x, up_upgrader = in_upgrader x,
          up_accountAge = age, up_diff = diff, up_criticalFnChanges = crit,
          up_governanceType = Some (governanceType g), up_signerCount = nonzero (signerCount g),
          up_threshold = nonzero (threshold g), up_timelockSeconds = nonzero (timelockSeconds g),
          up_daoProposalId = daoProposalId g, up_score = Some (computeDecentralizationScore g),
          up_flags = flags s, up_isSuspicious = isSuspicious s, up_riskLevel = Some (riskLevel s)\<rparr>)"

definition store_upgrade :: "upgrade_row \<Rightarrow> gov_db \<Rightarrow> gov_db" where
  "store_upgrade r db =
     db\<lparr>history := history db @ [r],
        contracts := tbl_update co_address (up_contract r) (\<lambda>c. c\<lparr>co_wasmHash := Some (up_newHash r)\<rparr>) (contracts db)\<rparr>"

text \<open>\<open>None\<close>: the decoder does not return within the fuel. Otherwise the new row, if any, and the
  tables.\<close>

definition recordUpgradeWithIntelligence ::
    "nat \<Rightarrow> 'e xdr_api \<Rightarrow> (bytes \<Rightarrow> string) \<Rightarrow> upgrade_input \<Rightarrow> gov_db \<Rightarrow> (upgrade_row option \<times> gov_db) option" where
  "recordUpgradeWithIntelligence fuel api utf8 x db =
     (case tbl_find co_address (in_contract x) (contracts db) of
        None \<Rightarrow> Some (None, db)
      | Some c \<Rightarrow>
          if co_wasmHash c = Some (in_newHash x) then Some (None, db)
          else (case input_diff fuel api utf8 x of None \<Rightarrow> None
            | Some diff \<Rightarrow>
                (let r = upgrade_record db x (co_wasmHash c) diff in Some (Some r, store_upgrade r db))))"

section \<open>collectWasmUpgrades and getWasmVersionLineage\<close>

definition plain_row :: "string \<Rightarrow> string option \<Rightarrow> string \<Rightarrow> int \<Rightarrow> int \<Rightarrow> string option \<Rightarrow> upgrade_row" where
  "plain_row addr prev new ledger t tx =
     \<lparr>up_contract = addr, up_previousHash = prev, up_newHash = new, up_ledger = ledger, up_closeTime = t,
      up_tx = tx, up_upgrader = None, up_accountAge = None, up_diff = None, up_criticalFnChanges = [],
      up_governanceType = None, up_signerCount = None, up_threshold = None, up_timelockSeconds = None,
      up_daoProposalId = None, up_score = None, up_flags = [], up_isSuspicious = False, up_riskLevel = None\<rparr>"

text \<open>\<open>None\<close>: the foreign key of the new row fails, and the call raises.\<close>

definition collectWasmUpgrades ::
    "string \<Rightarrow> string \<Rightarrow> int \<Rightarrow> int \<Rightarrow> string option \<Rightarrow> gov_db \<Rightarrow> gov_db option" where
  "collectWasmUpgrades addr new ledger t tx db =
     (case tbl_find co_address addr (contracts db) of
        None \<Rightarrow> None
      | Some c \<Rightarrow>
          if co_wasmHash c = Some new then Some db
          else Some (store_upgrade (plain_row addr (co_wasmHash c) new ledger t tx) db))"

record lineage_entry =
  le_version :: nat
  le_from :: string
  le_to :: string
  le_ledger :: int
  le_human :: string

definition short_hash :: "string \<Rightarrow> string" where
  "short_hash h = ''0x'' @ take 8 h @ ''...''"

definition lineage_entry_of :: "nat \<Rightarrow> upgrade_row \<Rightarrow> lineage_entry" where
  "lineage_entry_of i u =
     (let prev = up_previousHash u
      in \<lparr>le_version = i + 1,
          le_from = (if truthy prev then short_hash (the prev) else ''Initial''),
          le_to = short_hash (up_newHash u), le_ledger = up_ledger u,
          le_human = ''Upgraded from '' @
            (if truthy prev then ''Wasm Hash '' @ short_hash (the prev) else ''Initial'') @
            '' to '' @ short_hash (up_newHash u) @ '' at ledger '' @ dec_int (up_ledger u)\<rparr>)"

definition getWasmVersionLineage :: "string \<Rightarrow> gov_db \<Rightarrow> lineage_entry list" where
  "getWasmVersionLineage addr db =
     (let us = sort_key up_ledger (filter (\<lambda>u. up_contract u = addr) (history db))
      in map (\<lambda>i. lineage_entry_of i (us ! i)) [0..<length us])"

end
