(* ===== verification/Upgrade_Detector.thy ===== *)
theory Upgrade_Detector
  imports Upgrade_Governance
begin

text \<open>
  \<open>src/indexer/upgrade-detector.ts\<close>: which events announce an upgrade, the new hash and the
  upgrader taken from an event's decoded fields, and the hand-over to the recorder. \<open>getCode\<close>,
  an argument, is the ledger's code entry of a 32-byte hash.
\<close>

section \<open>Recognising an upgrade\<close>

definition UPGRADE_SYMBOLS :: "string list" where
  "UPGRADE_SYMBOLS =
     [''upgrade'', ''upgraded'', ''set_wasm'', ''update_wasm'', ''wasm_updated'', ''code_updated'',
      ''contract_upgraded'', ''migrate'', ''migrated'']"

definition looksLikeUpgrade :: "string option \<Rightarrow> string option \<Rightarrow> bool" where
  "looksLikeUpgrade eventType topicSymbol =
     (let symbol = to_lower (case topicSymbol of Some s \<Rightarrow> s | None \<Rightarrow> (case eventType of Some e \<Rightarrow> e | None \<Rightarrow> [])) in
      symbol \<noteq> [] \<and>
      (symbol \<in> set UPGRADE_SYMBOLS \<or> includes_str ''upgrade'' symbol \<or> includes_str ''wasm'' symbol))"

section \<open>Fields of a decoded event\<close>

datatype js_value =
    JStr string
  | JBuf bytes
  | JOther

definition asString :: "js_value option \<Rightarrow> string option" where
  "asString v =
     (case v of
        Some (JStr s) \<Rightarrow> if js_trim s \<noteq> [] then Some (js_trim s) else None
      | Some (JBuf b) \<Rightarrow> Some (concat (map hex2 b))
      | _ \<Rightarrow> None)"

text \<open>A decoded event: its fields, and those of its \<open>data\<close> object.\<close>

record decoded_event =
  de_fields :: "(string, js_value) jsmap"
  de_data :: "(string, js_value) jsmap"

text \<open>The first of several fields that is a usable string: a chain of \<open>??\<close>.\<close>

fun first_string :: "(string, js_value) jsmap \<Rightarrow> string list \<Rightarrow> string option" where
  "first_string m [] = None"
| "first_string m (k # ks) = (case asString (jm_get m k) of None \<Rightarrow> first_string m ks | Some s \<Rightarrow> Some s)"

definition drop_0x :: "string \<Rightarrow> string" where
  "drop_0x s = (if starts_with ''0x'' s then drop 2 s else s)"

definition extractNewHash :: "decoded_event \<Rightarrow> string option" where
  "extractNewHash d =
     (let candidate =
        (case first_string (de_fields d)
            [''new_wasm_hash'', ''newWasmHash'', ''wasm_hash'', ''wasmHash'', ''new_hash'', ''newHash'', ''hash''] of
           None \<Rightarrow> asString (jm_get (de_data d) ''wasm_hash'')
         | Some s \<Rightarrow> Some s)
      in case candidate of None \<Rightarrow> None | Some c \<Rightarrow> if c = [] then None else Some (to_lower (drop_0x c)))"

definition extractUpgrader :: "decoded_event \<Rightarrow> string \<Rightarrow> string" where
  "extractUpgrader d sourceAccount =
     (case first_string (de_fields d) [''admin'', ''caller'', ''by'', ''sender'', ''from'', ''authority''] of
        None \<Rightarrow> sourceAccount | Some s \<Rightarrow> s)"

section \<open>Fetching bytecode\<close>

text \<open>\<open>Buffer.from(s, 'hex')\<close> decodes pairs of digits up to the first that is none.\<close>

definition hex_digit_val :: "char \<Rightarrow> nat" where
  "hex_digit_val c = (let n = (of_char c :: nat) in
     if n \<le> 57 then n - 48 else if n \<le> 70 then n - 55 else n - 87)"

fun hex_bytes :: "string \<Rightarrow> bytes" where
  "hex_bytes (a # b # cs) =
     (if is_hex_char a \<and> is_hex_char b then (16 * hex_digit_val a + hex_digit_val b) # hex_bytes cs else [])"
| "hex_bytes _ = []"

definition fetchWasmByHash :: "(bytes \<Rightarrow> bytes option) \<Rightarrow> string \<Rightarrow> bytes option" where
  "fetchWasmByHash getCode hashHex =
     (let hash = hex_bytes hashHex in if length hash \<noteq> 32 then None else getCode hash)"

section \<open>handleUpgradeEvent\<close>

record upgrade_event =
  ev_contract :: string
  ev_type :: "string option"
  ev_topic :: "string option"
  ev_decoded :: "decoded_event option"
  ev_tx :: string
  ev_source :: string
  ev_ledger :: int
  ev_closeTime :: int
  ev_previousHash :: "string option"

definition no_fields :: decoded_event where
  "no_fields = \<lparr>de_fields = [], de_data = []\<rparr>"

definition event_decoded :: "upgrade_event \<Rightarrow> decoded_event" where
  "event_decoded e = (case ev_decoded e of None \<Rightarrow> no_fields | Some d \<Rightarrow> d)"

definition event_input :: "(bytes \<Rightarrow> bytes option) \<Rightarrow> upgrade_event \<Rightarrow> string \<Rightarrow> upgrade_input" where
  "event_input getCode e newWasmHash =
     (let newWasm = fetchWasmByHash getCode newWasmHash;
          previousWasm = (if truthy (ev_previousHash e) then fetchWasmByHash getCode (the (ev_previousHash e)) else None);
          canDiff = (newWasm \<noteq> None \<and> (truthy (ev_previousHash e) \<longrightarrow> previousWasm \<noteq> None))
      in \<lparr>in_contract = ev_contract e, in_newHash = newWasmHash, in_ledger = ev_ledger e,
          in_closeTime = ev_closeTime e, in_tx = Some (ev_tx e),
          in_upgrader = Some (extractUpgrader (event_decoded e) (ev_source e)),
          in_previousWasm = (if canDiff then previousWasm else None),
          in_newWasm = (if canDiff then newWasm else None)\<rparr>)"

definition handleUpgradeEvent ::
    "nat \<Rightarrow> 'e xdr_api \<Rightarrow> (bytes \<Rightarrow> string) \<Rightarrow> (bytes \<Rightarrow> bytes option) \<Rightarrow> upgrade_event \<Rightarrow> gov_db
      \<Rightarrow> gov_db option" where
  "handleUpgradeEvent fuel api utf8 getCode e db =
     (if \<not> looksLikeUpgrade (ev_type e) (ev_topic e) then Some db
      else (case extractNewHash (event_decoded e) of
          None \<Rightarrow> Some db
        | Some h \<Rightarrow>
            if h = [] then Some db
            else map_option snd (recordUpgradeWithIntelligence fuel api utf8 (event_input getCode e h) db)))"

section \<open>The history table as a state machine\<close>

text \<open>Both writers of the history table, with any inputs.\<close>

inductive upgrade_step ::
    "'e xdr_api \<Rightarrow> (bytes \<Rightarrow> string) \<Rightarrow> (bytes \<Rightarrow> bytes option) \<Rightarrow> gov_db \<Rightarrow> gov_db \<Rightarrow> bool"
  for api :: "'e xdr_api" and utf8 :: "bytes \<Rightarrow> string" and getCode :: "bytes \<Rightarrow> bytes option" where
  Event: "handleUpgradeEvent fuel api utf8 getCode e db = Some db' \<Longrightarrow> upgrade_step api utf8 getCode db db'"
| Collect: "collectWasmUpgrades addr new ledger t tx db = Some db' \<Longrightarrow> upgrade_step api utf8 getCode db db'"

inductive_cases upgrade_stepE: "upgrade_step api utf8 getCode db db'"

end
