(* ===== verification/Upgrade_Props.thy ===== *)
theory Upgrade_Props
  imports Upgrade_Detector
begin

text \<open>
  Properties of the upgrade history: the rows of a contract form a chain of hashes in every
  reachable state, an upgrade is recorded once, and what the recorded governance posture and
  suspicion flags can be.
\<close>

section \<open>The chain of hashes\<close>

definition hash_of :: "gov_db \<Rightarrow> string \<Rightarrow> string option" where
  "hash_of db a = (case tbl_find co_address a (contracts db) of None \<Rightarrow> None | Some c \<Rightarrow> co_wasmHash c)"

definition rows_of :: "gov_db \<Rightarrow> string \<Rightarrow> upgrade_row list" where
  "rows_of db a = filter (\<lambda>u. up_contract u = a) (history db)"

fun linked :: "string option \<Rightarrow> upgrade_row list \<Rightarrow> string option \<Rightarrow> bool" where
  "linked h [] k = (h = k)"
| "linked h (r # rs) k = (up_previousHash r = h \<and> h \<noteq> Some (up_newHash r) \<and> linked (Some (up_newHash r)) rs k)"

lemma linked_snoc:
  "linked h rs (up_previousHash r) \<Longrightarrow> up_previousHash r \<noteq> Some (up_newHash r) \<Longrightarrow>
    linked h (rs @ [r]) (Some (up_newHash r))"
  by (induction rs arbitrary: h) auto

lemma hash_of_store:
  assumes "tbl_find co_address (up_contract r) (contracts db) = Some c"
  shows "hash_of (store_upgrade r db) a = (if a = up_contract r then Some (up_newHash r) else hash_of db a)"
  using assms by (simp add: hash_of_def store_upgrade_def tbl_find_update split: option.splits)

lemma rows_of_store:
  "rows_of (store_upgrade r db) a = rows_of db a @ (if a = up_contract r then [r] else [])"
  by (simp add: rows_of_def store_upgrade_def)

definition upgrades_linked :: "gov_db \<Rightarrow> gov_db \<Rightarrow> bool" where
  "upgrades_linked db0 db = (\<forall>a. linked (hash_of db0 a) (rows_of db a) (hash_of db a))"

lemma store_linked:
  assumes "upgrades_linked db0 db" "tbl_find co_address (up_contract r) (contracts db) = Some c"
    "up_previousHash r = co_wasmHash c" "co_wasmHash c \<noteq> Some (up_newHash r)"
  shows "upgrades_linked db0 (store_upgrade r db)"
proof -
  have "hash_of db (up_contract r) = up_previousHash r" using assms(2,3) by (simp add: hash_of_def)
  then have "linked (hash_of db0 (up_contract r)) (rows_of db (up_contract r)) (up_previousHash r)"
    using assms(1) unfolding upgrades_linked_def by metis
  then have "linked (hash_of db0 (up_contract r)) (rows_of db (up_contract r) @ [r]) (Some (up_newHash r))"
    using assms(3,4) by (intro linked_snoc) simp_all
  then show ?thesis
    using assms(1) by (auto simp: upgrades_linked_def hash_of_store [OF assms(2)] rows_of_store)
qed

lemma upgrade_record_fields:
  "up_contract (upgrade_record db x p d) = in_contract x" "up_previousHash (upgrade_record db x p d) = p"
  "up_newHash (upgrade_record db x p d) = in_newHash x"
  by (simp_all add: upgrade_record_def Let_def)

lemma recorded:
  assumes "recordUpgradeWithIntelligence fuel api utf8 x db = Some (res, db')"
  shows "(res = None \<and> db' = db \<and> (tbl_find co_address (in_contract x) (contracts db) = None \<or>
      hash_of db (in_contract x) = Some (in_newHash x))) \<or>
    (\<exists>c diff. tbl_find co_address (in_contract x) (contracts db) = Some c \<and> co_wasmHash c \<noteq> Some (in_newHash x) \<and>
       input_diff fuel api utf8 x = Some diff \<and> res = Some (upgrade_record db x (co_wasmHash c) diff) \<and>
       db' = store_upgrade (upgrade_record db x (co_wasmHash c) diff) db)"
  using assms by (auto simp: recordUpgradeWithIntelligence_def hash_of_def Let_def split: option.splits if_splits)

lemma recorded_row:
  assumes "recordUpgradeWithIntelligence fuel api utf8 x db = Some (Some r, db')"
  shows "\<exists>p diff. input_diff fuel api utf8 x = Some diff \<and> r = upgrade_record db x p diff"
  using recorded [OF assms] by auto

lemma record_linked:
  assumes "recordUpgradeWithIntelligence fuel api utf8 x db = Some (res, db')" "upgrades_linked db0 db"
  shows "upgrades_linked db0 db'"
  using recorded [OF assms(1)] store_linked [OF assms(2)] assms(2)
  by (auto simp: upgrade_record_fields)

lemma event_linked:
  assumes "handleUpgradeEvent fuel api utf8 getCode e db = Some db'" "upgrades_linked db0 db"
  shows "upgrades_linked db0 db'"
  using assms record_linked [of fuel api utf8]
  by (auto simp: handleUpgradeEvent_def split: if_splits option.splits)

lemma collect_linked:
  assumes "collectWasmUpgrades addr new ledger t tx db = Some db'" "upgrades_linked db0 db"
  shows "upgrades_linked db0 db'"
  using assms store_linked [OF assms(2), of "plain_row addr _ new ledger t tx"]
  by (auto simp: collectWasmUpgrades_def plain_row_def split: if_splits option.splits)

definition fresh_history :: "gov_db \<Rightarrow> gov_db \<Rightarrow> bool" where
  "fresh_history db0 db = (db = db0 \<and> history db0 = [])"

interpretation upgrades: invariant_system "fresh_history db0" "upgrade_step api utf8 getCode" "upgrades_linked db0"
  for db0 api utf8 getCode
proof unfold_locales
  fix db assume "fresh_history db0 db"
  then show "upgrades_linked db0 db" by (simp add: fresh_history_def upgrades_linked_def rows_of_def)
next
  fix db db' assume "upgrades_linked db0 db" "upgrade_step api utf8 getCode db db'"
  then show "upgrades_linked db0 db'" by (auto elim!: upgrade_stepE intro: event_linked collect_linked)
qed


definition demo_gov :: gov_db where
  "demo_gov = \<lparr>contracts = [\<lparr>co_address = ''C1'', co_wasmHash = None\<rparr>], snapshots = [], accounts = [],
     proposals = [], votes = [], advisories = [], history = []\<rparr>"

definition two_upgrades :: "gov_db option" where
  "two_upgrades = Option.bind (collectWasmUpgrades ''C1'' ''b'' 20 0 None demo_gov)
     (collectWasmUpgrades ''C1'' ''a'' 10 0 None)"

lemma two_upgrades_eval:
  "two_upgrades = Some (demo_gov\<lparr>contracts := [\<lparr>co_address = ''C1'', co_wasmHash = Some ''a''\<rparr>],
     history := [plain_row ''C1'' None ''b'' 20 0 None, plain_row ''C1'' (Some ''b'') ''a'' 10 0 None]\<rparr>)"
  by (simp add: two_upgrades_def collectWasmUpgrades_def demo_gov_def store_upgrade_def plain_row_def
      tbl_find_def tbl_update_def)


text \<open>The chain follows the order in which events are processed, not the ledgers: a backfill that
  processes an old upgrade after a newer one records it as a new change from the newer hash,
  leaves the contract with the old hash, and the published lineage, which is sorted by ledger,
  shows an upgrade from a version that comes later.\<close>

theorem backfill_reverts_hash:
  "\<exists>db. two_upgrades = Some db \<and> hash_of db ''C1'' = Some ''a'' \<and>
     map (\<lambda>l. (le_from l, le_to l, le_ledger l)) (getWasmVersionLineage ''C1'' db) =
       [(''0xb...'', ''0xa...'', 10), (''Initial'', ''0xb...'', 20)]"
  by (simp add: two_upgrades_eval hash_of_def getWasmVersionLineage_def demo_gov_def tbl_find_def plain_row_def
      lineage_entry_of_def short_hash_def truthy_def Let_def)

section \<open>Recording once\<close>

lemma record_sets_hash:
  assumes "recordUpgradeWithIntelligence fuel api utf8 x db = Some (res, db')"
  shows "tbl_find co_address (in_contract x) (contracts db') = None \<or> hash_of db' (in_contract x) = Some (in_newHash x)"
  using recorded [OF assms] by (auto simp: hash_of_store upgrade_record_fields)

lemma record_again:
  assumes "tbl_find co_address (in_contract x) (contracts db) = None \<or> hash_of db (in_contract x) = Some (in_newHash x)"
  shows "recordUpgradeWithIntelligence fuel api utf8 x db = Some (None, db)"
  using assms by (auto simp: recordUpgradeWithIntelligence_def hash_of_def split: option.splits)

lemma event_input_fields:
  "in_contract (event_input getCode e h) = ev_contract e" "in_newHash (event_input getCode e h) = h"
  by (simp_all add: event_input_def Let_def)

text \<open>An upgrade is recorded once: after an upgrade event was handled, every later event for the
  same contract that announces the same hash, whatever its spelling, its fields and its ledger,
  changes nothing.\<close>

theorem upgrade_recorded_once:
  assumes "handleUpgradeEvent fuel api utf8 getCode e db = Some db'" "looksLikeUpgrade (ev_type e) (ev_topic e)"
    and "ev_contract e' = ev_contract e" "extractNewHash (event_decoded e') = extractNewHash (event_decoded e)"
  shows "handleUpgradeEvent fuel' api' utf8' getCode' e' db' = Some db'"
proof (cases "extractNewHash (event_decoded e)")
  case None
  then show ?thesis using assms(4) by (simp add: handleUpgradeEvent_def)
next
  case (Some h)
  show ?thesis
  proof (cases "h = []")
    case True
    then show ?thesis using assms(4) Some by (simp add: handleUpgradeEvent_def)
  next
    case False
    then obtain res where "recordUpgradeWithIntelligence fuel api utf8 (event_input getCode e h) db = Some (res, db')"
      using assms(1,2) Some by (auto simp: handleUpgradeEvent_def)
    from record_again [of "event_input getCode' e' h" db' fuel' api' utf8'] record_sets_hash [OF this]
    show ?thesis using assms(3,4) Some False by (simp add: handleUpgradeEvent_def event_input_fields)
  qed
qed

definition demo_upgrade :: "string \<Rightarrow> int \<Rightarrow> upgrade_event" where
  "demo_upgrade h ledger = \<lparr>ev_contract = ''C1'', ev_type = Some ''contract'', ev_topic = Some ''Upgraded'',
     ev_decoded = Some \<lparr>de_fields = [(''hash'', JStr h)], de_data = []\<rparr>, ev_tx = ''t1'', ev_source = ''G1'',
     ev_ledger = ledger, ev_closeTime = 0, ev_previousHash = None\<rparr>"

lemma demo_hashes:
  "extractNewHash (event_decoded (demo_upgrade ''0xAB'' l)) = Some ''ab''"
  "extractNewHash (event_decoded (demo_upgrade '' ab '' l)) = Some ''ab''"
  by code_simp+

lemma demo_looks: "looksLikeUpgrade (ev_type (demo_upgrade h l)) (ev_topic (demo_upgrade h l))"
  by (simp add: demo_upgrade_def looksLikeUpgrade_def UPGRADE_SYMBOLS_def) code_simp

theorem upgrade_recorded_once_witness:
  "\<exists>db. handleUpgradeEvent 1 front_api ascii (\<lambda>_. None) (demo_upgrade ''0xAB'' 20) demo_gov = Some db \<and>
     hash_of db ''C1'' = Some ''ab'' \<and>
     handleUpgradeEvent 1 front_api ascii (\<lambda>_. None) (demo_upgrade '' ab '' 25) db = Some db"
proof -
  have "\<exists>db. handleUpgradeEvent 1 front_api ascii (\<lambda>_. None) (demo_upgrade ''0xAB'' 20) demo_gov = Some db \<and>
      hash_of db ''C1'' = Some ''ab''"
    using demo_looks [of "''0xAB''" 20]
    by (simp add: handleUpgradeEvent_def demo_hashes recordUpgradeWithIntelligence_def event_input_fields Let_def)
      (simp add: demo_upgrade_def event_input_def fetchWasmByHash_def input_diff_def demo_gov_def tbl_find_def
        hash_of_def store_upgrade_def tbl_update_def upgrade_record_def truthy_def Let_def)
  then obtain db where db: "handleUpgradeEvent 1 front_api ascii (\<lambda>_. None) (demo_upgrade ''0xAB'' 20) demo_gov = Some db"
    "hash_of db ''C1'' = Some ''ab''" by (elim exE conjE)
  have "handleUpgradeEvent 1 front_api ascii (\<lambda>_. None) (demo_upgrade '' ab '' 25) db = Some db"
    by (rule upgrade_recorded_once [OF db(1) demo_looks]) (simp_all add: demo_hashes, simp add: demo_upgrade_def)
  with db show ?thesis by blast
qed

section \<open>What is recorded\<close>

lemma signals_no_timelock:
  "gs_hasTimelock (gatherGovernanceSignals db a u t) = None" "gs_timelockSeconds (gatherGovernanceSignals db a u t) = None"
  by (auto simp: gatherGovernanceSignals_def signer_signals_def no_signals_def Let_def split: option.splits)

lemma votes_nonneg: "0 \<le> or_int (gs_daoVotes (gatherGovernanceSignals db a u t))"
  by (auto simp: gatherGovernanceSignals_def signer_signals_def no_signals_def or_int_def Let_def split: option.splits)

text \<open>No recorded upgrade is ever governed by a timelock: the signals that are gathered never say
  anything of one, so of the methodology's hundred points at most 75 are reachable, and the
  posture is a vote, a multisignature, a single key or unknown.\<close>

theorem no_timelock_recorded:
  assumes "recordUpgradeWithIntelligence fuel api utf8 x db = Some (Some r, db')"
  shows "up_governanceType r \<noteq> Some Timelock \<and> up_timelockSeconds r = None \<and>
    (\<exists>s. up_score r = Some s \<and> 0 \<le> s \<and> s \<le> 75)"
proof -
  let ?s = "gatherGovernanceSignals db (in_contract x) (in_upgrader x) (in_tx x)"
  let ?g = "analyzeGovernance ?s"
  obtain p diff where r: "r = upgrade_record db x p diff"
    using recorded_row [OF assms] by (elim exE conjE)
  have g: "governanceType ?g \<noteq> Timelock" "hasTimelock ?g = False" "timelockSeconds ?g = 0"
    by (auto simp: analyzeGovernance_def signals_no_timelock or_int_def Let_def)
  have "authority_score ?g \<le> 45" "dao_score ?g \<le> 30" "timelock_score ?g = 0" "0 \<le> authority_score ?g" "0 \<le> dao_score ?g"
    using g(2) votes_nonneg [of db "in_contract x" "in_upgrader x" "in_tx x"]
    by (auto simp: authority_score_def dao_score_def timelock_score_def analyzeGovernance_def Let_def)
  then show ?thesis using g by (simp add: r upgrade_record_def Let_def computeDecentralizationScore_def nonzero_def)
qed

definition multisig_gov :: gov_db where
  "multisig_gov = demo_gov\<lparr>snapshots := [\<lparr>sn_contract = ''C1'', sn_signers = Some 5, sn_highThreshold = Some 3, sn_ledger = 7\<rparr>],
     proposals := [\<lparr>pr_contract = ''C1'', pr_id = ''p'', pr_executed = True, pr_executionTx = None, pr_updatedAt = 3\<rparr>]\<rparr>"

definition plain_input :: upgrade_input where
  "plain_input = \<lparr>in_contract = ''C1'', in_newHash = ''ab'', in_ledger = 9, in_closeTime = 0, in_tx = Some ''t1'',
     in_upgrader = None, in_previousWasm = None, in_newWasm = None\<rparr>"

lemma plain_recorded:
  "recordUpgradeWithIntelligence 1 front_api ascii plain_input multisig_gov =
     Some (Some (upgrade_record multisig_gov plain_input None None),
       store_upgrade (upgrade_record multisig_gov plain_input None None) multisig_gov)"
  by (simp add: recordUpgradeWithIntelligence_def multisig_gov_def demo_gov_def plain_input_def tbl_find_def
      input_diff_def Let_def)

theorem no_timelock_recorded_witness:
  "\<exists>r. map_option fst (recordUpgradeWithIntelligence 1 front_api ascii plain_input multisig_gov) = Some (Some r) \<and>
     up_governanceType r = Some Dao \<and> up_score r = Some 60 \<and> up_timelockSeconds r = None"
proof -
  let ?r = "upgrade_record multisig_gov plain_input None None"
  have "up_timelockSeconds ?r = None" using no_timelock_recorded [OF plain_recorded] by simp
  moreover have "up_governanceType ?r = Some Dao \<and> up_score ?r = Some 60" by code_simp
  ultimately show ?thesis using plain_recorded by simp
qed

section \<open>The first upgrade\<close>

lemma access_critical: "set ACCESS_CONTROL_FUNCTIONS \<subseteq> set CRITICAL_FUNCTIONS"
  by (simp add: ACCESS_CONTROL_FUNCTIONS_def CRITICAL_FUNCTIONS_def)

lemma acl_flagged:
  assumes "acl_change (sx_criticalFnChanges ctx)"
  shows "CriticalAclChange \<in> set (flags (detectSuspiciousActivity ctx))" "isSuspicious (detectSuspiciousActivity ctx)"
    "riskLevel (detectSuspiciousActivity ctx) \<notin> {NoRisk, LowRisk}"
proof -
  let ?fs = "raise_flags ctx"
  show f: "CriticalAclChange \<in> set (flags (detectSuspiciousActivity ctx))"
    using assms by (simp add: detectSuspiciousActivity_def raise_flags_def Let_def)
  then have f: "CriticalAclChange \<in> set ?fs" by (simp add: detectSuspiciousActivity_def Let_def)
  then show "isSuspicious (detectSuspiciousActivity ctx)" by (auto simp: detectSuspiciousActivity_def Let_def)
  have "FLAG_WEIGHTS CriticalAclChange \<le> sum_list (map FLAG_WEIGHTS ?fs)"
    by (intro member_le_sum_list) (use f in \<open>auto simp del: FLAG_WEIGHTS.simps\<close>)
  then have "risk_of (sum_list (map FLAG_WEIGHTS ?fs)) \<notin> {NoRisk, LowRisk}"
    by (simp add: risk_of_def del: sum_list_eq_0_iff)
  then show "riskLevel (detectSuspiciousActivity ctx) \<notin> {NoRisk, LowRisk}"
    by (simp only: detectSuspiciousActivity_def Let_def suspicious_result.simps not_False_eq_True)
qed

text \<open>The first diffed upgrade of a contract is flagged for what the contract can do, not for what
  was changed: with no earlier bytecode every function counts as added, so whenever the new
  interface has an access-control function, for instance the \<open>upgrade\<close> function itself, the row is
  recorded as a suspicious access-control change of at least medium risk.\<close>

theorem first_upgrade_flagged:
  assumes "recordUpgradeWithIntelligence fuel api utf8 x db = Some (Some r, db')"
    and "in_newWasm x = Some w" "in_previousWasm x = None" "extractFunctions fuel api utf8 w = Some fns"
    and "f \<in> set fns" "fn_name f \<in> set ACCESS_CONTROL_FUNCTIONS"
  shows "CriticalAclChange \<in> set (up_flags r) \<and> up_isSuspicious r \<and> fn_name f \<in> set (up_criticalFnChanges r) \<and>
    up_riskLevel r \<notin> {Some NoRisk, Some LowRisk}"
proof -
  obtain p diff where r: "input_diff fuel api utf8 x = Some diff" "r = upgrade_record db x p diff"
    using recorded_row [OF assms(1)] by (elim exE conjE)
  obtain d where d: "diffWasm fuel api utf8 None w = Some d" "diff = Some d"
    using r(1) assms(2,3) by (auto simp: input_diff_def)
  have "fn_name f \<in> set (criticalChanges (wd_functions d))"
    using initial_diff(3) [OF d(1) assms(4)] assms(5,6) access_critical by auto
  moreover from this have "acl_change (criticalChanges (wd_functions d))"
    using assms(6) by (auto simp: acl_change_def)
  ultimately show ?thesis
    using acl_flagged by (simp add: r(2) d(2) upgrade_record_def Let_def)
qed

definition upgrade_api :: "nat xdr_api" where
  "upgrade_api = front_api\<lparr>xdr_view := \<lambda>_. Some (FunctionV0 ''upgrade'' 1)\<rparr>"

definition upgradable :: bytes where
  "upgradable = interface_module [Other_part 1 [0]] spec_name (concat (map demo_enc [1, 0, 2])) []"

definition first_input :: upgrade_input where
  "first_input = plain_input\<lparr>in_newWasm := Some upgradable\<rparr>"

lemma upgradable_encoded:
  "upgradable = encode_module [Other 1 [0], Other 0 (snd (custom spec_name (concat (map demo_enc [1, 0, 2]))))]"
  by (simp add: upgradable_def interface_module_def frame_def encode_module_def custom_def)

lemma upgradable_decodes: "\<exists>idx. buildOpcodeIndex 5 upgradable = Some (Inr idx)"
proof -
  have "list_all section_ok [Other 1 [0], Other 0 (snd (custom spec_name (concat (map demo_enc [1, 0, 2]))))]"
    by (simp add: custom_def demo_enc_def encode_uleb.simps spec_name_def SECTION_NAME_def)
  then show ?thesis unfolding upgradable_encoded by (intro exI, rule index_of_module) simp
qed

lemma upgradable_functions:
  "extractFunctions 5 upgrade_api ascii upgradable = Some (replicate 3 \<lparr>fn_name = ''upgrade'', inputCount = 1\<rparr>)"
proof -
  have "reads_front upgrade_api demo_enc" by (simp add: reads_front_def upgrade_api_def front_api_def demo_enc_def)
  then have "spec_entries 5 upgrade_api ([] @ concat (map demo_enc [1, 0, 2])) (length ([] :: bytes)) [] =
      Some (Inr ([] @ [1, 0, 2]))"
    by (rule spec_entries_encoded) simp
  then have "parseWasmSpec 5 upgrade_api ascii upgradable = Some (Inr [1, 0, 2])"
    using parseWasmSpec_framed [OF demo_interface, of 5 upgrade_api] by (simp add: upgradable_def)
  then show ?thesis
    by (simp add: extractFunctions_def entry_fn_def upgrade_api_def numeral_3_eq_3)
qed

theorem first_upgrade_flagged_witness:
  "\<exists>r. map_option fst (recordUpgradeWithIntelligence 5 upgrade_api ascii first_input demo_gov) = Some (Some r) \<and>
     CriticalAclChange \<in> set (up_flags r) \<and> up_isSuspicious r"
proof -
  obtain idx where idx: "buildOpcodeIndex 5 upgradable = Some (Inr idx)" using upgradable_decodes by blast
  have "\<exists>d. input_diff 5 upgrade_api ascii first_input = Some d"
    by (simp add: input_diff_def first_input_def plain_input_def diffWasm_def safeOpcodeIndex_def idx
        previous_functions_def upgradable_functions)
  then obtain d where "input_diff 5 upgrade_api ascii first_input = Some d" by blast
  then have rec: "recordUpgradeWithIntelligence 5 upgrade_api ascii first_input demo_gov =
      Some (Some (upgrade_record demo_gov first_input None d),
        store_upgrade (upgrade_record demo_gov first_input None d) demo_gov)"
    by (simp add: recordUpgradeWithIntelligence_def demo_gov_def first_input_def plain_input_def tbl_find_def Let_def)
  have "CriticalAclChange \<in> set (up_flags (upgrade_record demo_gov first_input None d)) \<and>
      up_isSuspicious (upgrade_record demo_gov first_input None d)"
    using first_upgrade_flagged [OF rec _ _ upgradable_functions, of "\<lparr>fn_name = ''upgrade'', inputCount = 1\<rparr>"]
    by (simp add: first_input_def plain_input_def ACCESS_CONTROL_FUNCTIONS_def)
  then show ?thesis using rec by simp
qed

end
