(* ===== verification/Js_Number.thy ===== *)
theory Js_Number
  imports Octra_Prelude Complex_Main
begin

text \<open>
  The conversion \<open>Number(s)\<close> of ECMAScript for strings without a minus sign, as the cron parser and
  the settlement compactor use it. Values are exact: a double agrees with them below \<open>2^53\<close>.
\<close>

datatype js_num = Fin rat | PosInf | NaN

definition base_digit :: "char \<Rightarrow> nat" where
  "base_digit c = (let n = (of_char c :: nat) in
     if 48 \<le> n \<and> n \<le> 57 then n - 48 else if 65 \<le> n \<and> n \<le> 90 then n - 55
     else if 97 \<le> n \<and> n \<le> 122 then n - 87 else 99)"

definition radix_number :: "nat \<Rightarrow> string \<Rightarrow> js_num" where
  "radix_number b ds =
     (if ds \<noteq> [] \<and> list_all (\<lambda>c. base_digit c < b) ds
      then Fin (of_nat (foldl (\<lambda>acc c. acc * b + base_digit c) 0 ds)) else NaN)"

definition exponent :: "string \<Rightarrow> nat option" where
  "exponent s =
     (case s of [] \<Rightarrow> Some 0
      | c # cs \<Rightarrow>
          if c = CHR ''e'' \<or> c = CHR ''E'' then
            (let ds = (case cs of [] \<Rightarrow> [] | x # xs \<Rightarrow> if x = CHR ''+'' then xs else cs) in
             if ds \<noteq> [] \<and> list_all is_digit ds then Some (val_digits ds) else None)
          else None)"

definition decimal_number :: "string \<Rightarrow> js_num" where
  "decimal_number s =
     (let whole = takeWhile is_digit s; rest = dropWhile is_digit s;
          frac = (case rest of [] \<Rightarrow> [] | c # cs \<Rightarrow> if c = CHR ''.'' then takeWhile is_digit cs else []);
          tail = (case rest of [] \<Rightarrow> [] | c # cs \<Rightarrow> if c = CHR ''.'' then dropWhile is_digit cs else rest)
      in if whole = [] \<and> frac = [] then NaN
         else (case exponent tail of None \<Rightarrow> NaN
           | Some k \<Rightarrow> Fin (of_nat (val_digits (whole @ frac)) / 10 ^ length frac * 10 ^ k)))"

definition js_number :: "string \<Rightarrow> js_num" where
  "js_number s =
     (let t = js_trim s; u = (case t of [] \<Rightarrow> [] | c # cs \<Rightarrow> if c = CHR ''+'' then cs else t) in
      if t = [] then Fin 0
      else if u = ''Infinity'' then PosInf
      else if take 2 t \<in> {''0x'', ''0X''} then radix_number 16 (drop 2 t)
      else if take 2 t \<in> {''0o'', ''0O''} then radix_number 8 (drop 2 t)
      else if take 2 t \<in> {''0b'', ''0B''} then radix_number 2 (drop 2 t)
      else decimal_number u)"

lemma not_in_dec [simp]:
  "\<not> is_digit c \<Longrightarrow> c \<notin> set (dec_nat n)"
  using dec_nat_digits by blast

lemma sep_not_digit [simp]:
  "\<not> is_digit (CHR ''-'')" "\<not> is_digit (CHR ''/'')" "\<not> is_digit (CHR '','')" "\<not> is_digit (CHR ''*'')"
  by (simp_all add: is_digit_def)

lemma trim_dec [simp]: "js_trim (dec_nat n) = dec_nat n"
proof -
  have d: "dropWhile is_space xs = xs" if "\<forall>c \<in> set xs. is_digit c" for xs
    using that digit_not_space by (cases xs) auto
  show ?thesis using dec_nat_digits by (simp add: js_trim_def d)
qed

lemma digits_only: "\<forall>c \<in> set s. is_digit c \<Longrightarrow> takeWhile is_digit s = s \<and> dropWhile is_digit s = []"
  by (simp add: takeWhile_eq_all_conv dropWhile_eq_Nil_conv)

lemma js_number_dec [simp]: "js_number (dec_nat n) = Fin (of_nat n)"
proof -
  let ?t = "dec_nat n"
  obtain c cs where t: "?t = c # cs" by (cases ?t) auto
  have dig: "\<forall>c \<in> set ?t. is_digit c" by (rule dec_nat_digits)
  have c: "c \<noteq> CHR ''+''" using dig t digit_not_sign by auto
  have letters: "\<not> is_digit (CHR ''I'')" "\<not> is_digit (CHR ''x'')" "\<not> is_digit (CHR ''X'')" "\<not> is_digit (CHR ''o'')"
    "\<not> is_digit (CHR ''O'')" "\<not> is_digit (CHR ''b'')" "\<not> is_digit (CHR ''B'')"
    by (simp_all add: is_digit_def)
  have inf: "?t \<noteq> ''Infinity''" using dig letters(1) by auto
  have pre: "take 2 ?t \<noteq> [CHR ''0'', x]" if "\<not> is_digit x" for x
  proof
    assume "take 2 ?t = [CHR ''0'', x]"
    then have "x \<in> set (take 2 ?t)" by simp
    then have "x \<in> set ?t" by (rule in_set_takeD)
    then show False using dig that by blast
  qed
  have tw: "takeWhile is_digit ?t = ?t" "dropWhile is_digit ?t = []" using digits_only [OF dig] by blast+
  have "decimal_number ?t = Fin (of_nat n)"
    by (simp add: decimal_number_def tw exponent_def Let_def)
  moreover have "(case ?t of [] \<Rightarrow> [] | c # cs \<Rightarrow> if c = CHR ''+'' then cs else ?t) = ?t"
    using c by (simp add: t)
  ultimately show ?thesis
    using inf pre letters by (simp add: js_number_def Let_def)
qed

end
