(* ===== verification/Cron_Engine.thy ===== *)
theory Cron_Engine
  imports Js_Number
begin

text \<open>
  \<open>src/indexer/cron-engine.ts\<close>: the parser of cron expressions, the search for the next run, and
  the execution of due jobs. The UTC calendar is the one of ECMAScript. A field's step loop may
  run for ever, so matching returns an option, where \<open>None\<close> means that the code does not return.
  Numbers in a field are taken to be exact (below \<open>2^53\<close>), and the host's time zone to be a whole
  number of minutes from UTC, so that clearing the seconds rounds down to the minute.
\<close>

section \<open>The UTC calendar\<close>

definition leap :: "int \<Rightarrow> bool" where
  "leap y = (4 dvd y \<and> (\<not> 100 dvd y \<or> 400 dvd y))"

text \<open>The day number of the first of January.\<close>

definition day_from_year :: "int \<Rightarrow> int" where
  "day_from_year y =
     365 * (y - 1970) + (y - 1969) div 4 - (y - 1901) div 100 + (y - 1601) div 400"

definition year_len :: "int \<Rightarrow> int" where
  "year_len y = (if leap y then 366 else 365)"

lemma div_next: "(n + 1) div k = n div k + (if k dvd n + 1 then 1 else 0)" if "0 < k" for n k :: int
proof (cases "k dvd n + 1")
  case True
  then obtain q where q: "n + 1 = k * q" by blast
  then have "n div k = q - 1"
    using that by (intro int_div_pos_eq [of _ _ _ "k - 1"]) (auto simp: algebra_simps)
  moreover have "(n + 1) div k = q" using q that by simp
  ultimately show ?thesis using True by simp
next
  case False
  then have "(n + 1) mod k \<noteq> 0" by (simp add: dvd_eq_mod_eq_0)
  then have "n mod k + 1 \<noteq> k" using that by (metis add.commute mod_add_right_eq mod_self)
  then have "n mod k + 1 < k" using pos_mod_bound [OF that, of n] by linarith
  then have "(n + 1) div k = n div k"
    using that by (intro int_div_pos_eq [of _ _ _ "n mod k + 1"]) (auto simp: algebra_simps)
  with False show ?thesis by simp
qed

lemma regroup: "365 * (y - 1969) + (u + a) - (v + b) + (w + c) = 365 * (y - 1970) + u - v + w + 365 + a - b + c"
  for y u v w a b c :: int
  by simp

lemma leap_sum: "(c400 \<longrightarrow> c100) \<Longrightarrow> (c100 \<longrightarrow> c4) \<Longrightarrow>
    n + 365 + (if c4 then 1 else 0) - (if c100 then 1 else 0) + (if c400 then 1 else 0) =
    n + (if c4 \<and> (\<not> c100 \<or> c400) then 366 else (365 :: int))"
  by (cases c4; cases c100; cases c400) simp_all

lemma day_from_year_next: "day_from_year (y + 1) = day_from_year y + year_len y"
proof -
  have d: "4 dvd y - 1968 \<longleftrightarrow> 4 dvd y" "100 dvd y - 1900 \<longleftrightarrow> 100 dvd y" "400 dvd y - 1600 \<longleftrightarrow> 400 dvd y"
    using dvd_add_times_triv_right_iff [of 4 y "- 492"] dvd_add_times_triv_right_iff [of 100 y "- 19"]
      dvd_add_times_triv_right_iff [of 400 y "- 4"] by simp_all
  have "(y - 1968) div 4 = (y - 1969) div 4 + (if 4 dvd y then 1 else 0)"
    "(y - 1900) div 100 = (y - 1901) div 100 + (if 100 dvd y then 1 else 0)"
    "(y - 1600) div 400 = (y - 1601) div 400 + (if 400 dvd y then 1 else 0)"
    using div_next [of 4 "y - 1969"] div_next [of 100 "y - 1901"] div_next [of 400 "y - 1601"] d by simp_all
  note steps = this
  have "day_from_year (y + 1) = 365 * (y - 1969) + (y - 1968) div 4 - (y - 1900) div 100 + (y - 1600) div 400"
    by (simp add: day_from_year_def)
  then have "day_from_year (y + 1) = day_from_year y + 365 + (if 4 dvd y then 1 else 0) -
      (if 100 dvd y then 1 else 0) + (if 400 dvd y then 1 else 0)"
    by (simp only: steps regroup [of y "(y - 1969) div 4"] day_from_year_def [of y])
  moreover have "400 dvd y \<longrightarrow> 100 dvd y" "100 dvd y \<longrightarrow> 4 dvd y"
    using dvd_trans [of 100 400 y] dvd_trans [of 4 100 y] by simp_all
  note leap_sum [OF this, of "day_from_year y"]
  ultimately show ?thesis unfolding year_len_def leap_def by (rule trans)
qed

function year_up :: "int \<Rightarrow> int \<Rightarrow> int" where
  "year_up d y = (if day_from_year (y + 1) \<le> d then year_up d (y + 1) else y)"
  by pat_completeness auto
termination
  by (relation "measure (\<lambda>(d, y). nat (d + 1 - day_from_year y))")
    (auto simp: day_from_year_next year_len_def split: if_splits)

declare year_up.simps [simp del]

definition year_of_day :: "int \<Rightarrow> int" where
  "year_of_day d = year_up d (1970 + (if d < 0 then d div 365 else d div 366))"

text \<open>Days of the year before each month, from January.\<close>

definition month_starts :: "bool \<Rightarrow> int list" where
  "month_starts lp = map (\<lambda>n. if lp \<and> 59 \<le> n then n + 1 else n)
     [0, 31, 59, 90, 120, 151, 181, 212, 243, 273, 304, 334]"

text \<open>Month (from 1) and day of the month (from 1) of a day number.\<close>

definition month_day :: "int \<Rightarrow> int \<times> int" where
  "month_day d =
     (let y = year_of_day d; k = d - day_from_year y;
          earlier = filter (\<lambda>s. s \<le> k) (month_starts (leap y))
      in (int (length earlier), k - last earlier + 1))"

text \<open>\<open>getUTCDay\<close>: Sunday is 0; the epoch was a Thursday.\<close>

definition week_day :: "int \<Rightarrow> int" where
  "week_day d = (d + 4) mod 7"

section \<open>matchField\<close>

text \<open>\<open>value >= lo && value <= hi\<close>\<close>

definition in_bounds :: "int \<Rightarrow> js_num \<Rightarrow> js_num \<Rightarrow> bool" where
  "in_bounds v lo hi =
     ((case lo of Fin q \<Rightarrow> q \<le> of_int v | _ \<Rightarrow> False) \<and>
      (case hi of Fin q \<Rightarrow> of_int v \<le> q | PosInf \<Rightarrow> True | NaN \<Rightarrow> False))"

text \<open>\<open>for (let v = start; v <= end; v += step)\<close>\<close>

partial_function (option) step_loop :: "int \<Rightarrow> int \<Rightarrow> int \<Rightarrow> int \<Rightarrow> bool option" where
  "step_loop v e step value =
     (if v \<le> e then (if v = value then Some True else step_loop (v + step) e step value) else Some False)"

declare step_loop.simps [code]

text \<open>\<open>NaN\<close> as start or end ends the loop at once, as step after the first turn.\<close>

definition step_match :: "int option \<Rightarrow> int option \<Rightarrow> int option \<Rightarrow> int \<Rightarrow> bool option" where
  "step_match start e step value =
     (case (start, e) of
        (Some s, Some b) \<Rightarrow>
          (case step of None \<Rightarrow> Some (s \<le> b \<and> s = value) | Some st \<Rightarrow> step_loop s b st value)
      | _ \<Rightarrow> Some False)"

definition nth_part :: "string list \<Rightarrow> nat \<Rightarrow> string" where
  "nth_part ps i = (if i < length ps then ps ! i else [])"

definition has_char :: "char \<Rightarrow> string \<Rightarrow> bool" where
  "has_char c s = (c \<in> set s)"

definition match_part :: "string \<Rightarrow> int \<Rightarrow> int \<Rightarrow> int \<Rightarrow> bool option" where
  "match_part part value mn mx =
     (if has_char (CHR ''/'') part then
        (let ps = split_on (CHR ''/'') part; rangeStr = nth_part ps 0;
             start = (if rangeStr = ''*'' then Some mn else parse_int10 (nth_part (split_on (CHR ''-'') rangeStr) 0));
             e = (if has_char (CHR ''-'') rangeStr then parse_int10 (nth_part (split_on (CHR ''-'') rangeStr) 1) else Some mx)
         in step_match start e (parse_int10 (nth_part ps 1)) value)
      else if has_char (CHR ''-'') part then
        (let ps = split_on (CHR ''-'') part
         in Some (in_bounds value (js_number (nth_part ps 0)) (js_number (nth_part ps 1))))
      else Some (parse_int10 part = Some value))"

fun match_parts :: "string list \<Rightarrow> int \<Rightarrow> int \<Rightarrow> int \<Rightarrow> bool option" where
  "match_parts [] value mn mx = Some False"
| "match_parts (p # ps) value mn mx =
     (case match_part p value mn mx of None \<Rightarrow> None
      | Some True \<Rightarrow> Some True | Some False \<Rightarrow> match_parts ps value mn mx)"

definition matchField :: "string \<Rightarrow> int \<Rightarrow> int \<Rightarrow> int \<Rightarrow> bool option" where
  "matchField field value mn mx =
     (if field = ''*'' then Some True else match_parts (split_on (CHR '','') field) value mn mx)"

section \<open>nextCronDate\<close>

definition ALIASES :: "(string, string) jsmap" where
  "ALIASES =
     [(''@hourly'', ''0 * * * *''), (''@daily'', ''0 0 * * *''), (''@weekly'', ''0 0 * * 0''),
      (''@monthly'', ''0 0 1 * *''), (''@yearly'', ''0 0 1 1 *''), (''@annually'', ''0 0 1 1 *'')]"

definition expandAlias :: "string \<Rightarrow> string" where
  "expandAlias expr = (case jm_get ALIASES (js_trim expr) of None \<Rightarrow> js_trim expr | Some e \<Rightarrow> e)"

text \<open>\<open>split(/\\s+/)\<close>\<close>

function split_ws :: "string \<Rightarrow> string list" where
  "split_ws s =
     (if dropWhile (\<lambda>c. \<not> is_space c) s = [] then [s]
      else takeWhile (\<lambda>c. \<not> is_space c) s # split_ws (dropWhile is_space (dropWhile (\<lambda>c. \<not> is_space c) s)))"
  by pat_completeness auto
termination
proof (relation "measure length")
  fix s :: string
  assume "dropWhile (\<lambda>c. \<not> is_space c) s \<noteq> []"
  then obtain c cs where c: "dropWhile (\<lambda>c. \<not> is_space c) s = c # cs" "is_space c"
    using hd_dropWhile [of "\<lambda>c. \<not> is_space c" s] by (cases "dropWhile (\<lambda>c. \<not> is_space c) s") auto
  then have "length (dropWhile is_space (c # cs)) < length (c # cs)"
    using length_dropWhile_le [of is_space cs] by simp
  also have "\<dots> \<le> length s" using length_dropWhile_le [of "\<lambda>c. \<not> is_space c" s] c(1) by simp
  finally show "(dropWhile is_space (dropWhile (\<lambda>c. \<not> is_space c) s), s) \<in> measure length" by (simp add: c(1))
qed simp

declare split_ws.simps [simp del]

datatype cron_error = MissingField | NoNextRun string

text \<open>Five fields; a missing one is \<open>undefined\<close>.\<close>

definition cron_fields :: "string \<Rightarrow> string list" where
  "cron_fields expr =
     (let fields = split_ws (expandAlias expr) in if 6 \<le> length fields then drop 1 fields else fields)"

definition field_at :: "string list \<Rightarrow> nat \<Rightarrow> string option" where
  "field_at fs i = (if i < length fs then Some (fs ! i) else None)"

text \<open>The checks of one minute, in the order of evaluation.\<close>

fun match_all :: "(string option \<times> int \<times> int \<times> int) list \<Rightarrow> (cron_error + bool) option" where
  "match_all [] = Some (Inr True)"
| "match_all ((f, v, mn, mx) # rest) =
     (case f of None \<Rightarrow> Some (Inl MissingField)
      | Some field \<Rightarrow> (case matchField field v mn mx of None \<Rightarrow> None
          | Some True \<Rightarrow> match_all rest | Some False \<Rightarrow> Some (Inr False)))"

text \<open>Time is counted in minutes since the epoch.\<close>

definition minute_checks :: "string list \<Rightarrow> int \<Rightarrow> (string option \<times> int \<times> int \<times> int) list" where
  "minute_checks fs m =
     (let d = m div 1440; md = month_day d in
      [(field_at fs 3, fst md, 1, 12), (field_at fs 2, snd md, 1, 31), (field_at fs 4, week_day d, 0, 6),
       (field_at fs 1, (m div 60) mod 24, 0, 23), (field_at fs 0, m mod 60, 0, 59)])"

function search_minutes :: "string \<Rightarrow> string list \<Rightarrow> int \<Rightarrow> int \<Rightarrow> (cron_error + int) option" where
  "search_minutes expr fs limit cursor =
     (if cursor < limit then
        (case match_all (minute_checks fs cursor) of
           None \<Rightarrow> None
         | Some (Inl err) \<Rightarrow> Some (Inl err)
         | Some (Inr True) \<Rightarrow> Some (Inr (cursor * 60000))
         | Some (Inr False) \<Rightarrow> search_minutes expr fs limit (cursor + 1))
      else Some (Inl (NoNextRun expr)))"
  by pat_completeness auto
termination
  by (relation "measure (\<lambda>(expr, fs, limit, cursor). nat (limit - cursor))") auto

declare search_minutes.simps [simp del]

definition SEARCH_MINUTES :: int where
  "SEARCH_MINUTES = 4 * 365 * 24 * 60"

definition nextCronDate :: "string \<Rightarrow> int \<Rightarrow> (cron_error + int) option" where
  "nextCronDate expression after =
     (let start = (after + 60000) div 60000
      in search_minutes expression (cron_fields expression) (start + SEARCH_MINUTES) start)"

definition isValidCronExpression :: "string \<Rightarrow> bool option" where
  "isValidCronExpression expression =
     (let n = length (split_ws (expandAlias expression)) in
      if n < 5 \<or> 6 < n then Some False
      else map_option (\<lambda>r. case r of Inl _ \<Rightarrow> False | Inr _ \<Rightarrow> True) (nextCronDate expression 0))"

end
