(* ===== verification/Cron_Jobs.thy ===== *)
theory Cron_Jobs
  imports Cron_Engine
begin

text \<open>
  \<open>src/indexer/cron-engine.ts\<close>, the execution runner: attempts with retries, the record of an
  execution, the advance of the job's next run, and the poll over all due jobs. The contract calls
  that were made are kept in \<open>invocations\<close>, which the code does not store.
\<close>

record cron_job =
  cj_id :: string
  cj_contract :: string
  cj_function :: string
  cj_args :: string
  cj_enabled :: bool
  cj_expr :: string
  cj_nextRunAt :: "int option"
  cj_lastRunAt :: "int option"
  cj_totalRuns :: nat
  cj_successfulRuns :: nat
  cj_failedRuns :: nat
  cj_maxRuns :: "int option"

record exec_result =
  er_success :: bool
  er_txHash :: "string option"
  er_gasUsed :: "int option"
  er_error :: "string option"

record cron_execution =
  cx_job :: string
  cx_at :: int
  cx_success :: bool
  cx_txHash :: "string option"
  cx_gasUsed :: "int option"
  cx_error :: "string option"
  cx_duration :: int

record cron_db =
  jobs :: "cron_job list"
  executions :: "cron_execution list"
  invocations :: "(string \<times> string) list"

definition MAX_RETRIES :: nat where
  "MAX_RETRIES = 3"

text \<open>The executor in the source is a stub that always succeeds. The runner is modelled for any
  executor, with the number of the attempt as its last argument.\<close>

type_synonym executor = "string \<Rightarrow> string \<Rightarrow> string \<Rightarrow> nat \<Rightarrow> exec_result"

definition executeContractFunction :: executor where
  "executeContractFunction contractAddress functionName args attempt =
     \<lparr>er_success = True, er_txHash = None, er_gasUsed = None, er_error = None\<rparr>"

text \<open>The attempt loop: the successful result if there is one, the last error, and the calls made.\<close>

fun run_attempts ::
    "(nat \<Rightarrow> exec_result) \<Rightarrow> nat \<Rightarrow> nat \<Rightarrow> string option \<Rightarrow> exec_result option \<times> string option \<times> nat" where
  "run_attempts exec attempt 0 lastError = (None, lastError, 0)"
| "run_attempts exec attempt (Suc n) lastError =
     (let r = exec attempt in
      if er_success r then (Some r, lastError, 1)
      else (case run_attempts exec (Suc attempt) n
              (Some (case er_error r of None \<Rightarrow> ''unknown error'' | Some e \<Rightarrow> e)) of
         (res, le, k) \<Rightarrow> (res, le, Suc k)))"

text \<open>The two transactions. \<open>job\<close> is the row as it was read before the attempts.\<close>

definition finish_success :: "cron_job \<Rightarrow> exec_result \<Rightarrow> int \<Rightarrow> int \<Rightarrow> int \<Rightarrow> cron_db \<Rightarrow> cron_db" where
  "finish_success job r start now nxt db =
     db\<lparr>executions := executions db @
          [\<lparr>cx_job = cj_id job, cx_at = now, cx_success = True, cx_txHash = er_txHash r,
            cx_gasUsed = er_gasUsed r, cx_error = None, cx_duration = now - start\<rparr>],
        jobs := tbl_update cj_id (cj_id job)
          (\<lambda>j. j\<lparr>cj_lastRunAt := Some now, cj_nextRunAt := Some nxt, cj_totalRuns := cj_totalRuns j + 1,
                 cj_successfulRuns := cj_successfulRuns j + 1,
                 cj_enabled := (case cj_maxRuns job of None \<Rightarrow> True | Some m \<Rightarrow> int (cj_totalRuns job) + 1 < m)\<rparr>)
          (jobs db)\<rparr>"

definition finish_failure :: "cron_job \<Rightarrow> string option \<Rightarrow> int \<Rightarrow> int \<Rightarrow> int \<Rightarrow> cron_db \<Rightarrow> cron_db" where
  "finish_failure job lastError start now nxt db =
     db\<lparr>executions := executions db @
          [\<lparr>cx_job = cj_id job, cx_at = now, cx_success = False, cx_txHash = None,
            cx_gasUsed = None, cx_error = lastError, cx_duration = now - start\<rparr>],
        jobs := tbl_update cj_id (cj_id job)
          (\<lambda>j. j\<lparr>cj_lastRunAt := Some now, cj_nextRunAt := Some nxt, cj_totalRuns := cj_totalRuns j + 1,
                 cj_failedRuns := cj_failedRuns j + 1\<rparr>)
          (jobs db)\<rparr>"

definition record_calls :: "cron_job \<Rightarrow> nat \<Rightarrow> cron_db \<Rightarrow> cron_db" where
  "record_calls job k db = db\<lparr>invocations := invocations db @ replicate k (cj_contract job, cj_function job)\<rparr>"

text \<open>\<open>start\<close> and \<open>now\<close> are the clock before and after the attempts. The error is what the call
  raises; the tables are left as they then are.\<close>

definition runCronJob :: "executor \<Rightarrow> int \<Rightarrow> int \<Rightarrow> string \<Rightarrow> cron_db \<Rightarrow> ((cron_error + bool) \<times> cron_db) option" where
  "runCronJob exec start now jobId db =
     (case tbl_find cj_id jobId (jobs db) of
        None \<Rightarrow> Some (Inr False, db)
      | Some job \<Rightarrow>
          if \<not> cj_enabled job then Some (Inr False, db)
          else (case run_attempts (exec (cj_contract job) (cj_function job) (cj_args job)) 0 MAX_RETRIES None of
            (res, lastError, calls) \<Rightarrow>
              (let db1 = record_calls job calls db in
               case nextCronDate (cj_expr job) now of
                 None \<Rightarrow> None
               | Some (Inl err) \<Rightarrow> Some (Inl err, db1)
               | Some (Inr nxt) \<Rightarrow>
                   (case res of
                      Some r \<Rightarrow> Some (Inr True, finish_success job r start now nxt db1)
                    | None \<Rightarrow> Some (Inr False, finish_failure job lastError start now nxt db1)))))"

definition due_jobs :: "int \<Rightarrow> cron_db \<Rightarrow> string list" where
  "due_jobs now db = map cj_id (filter (\<lambda>j. cj_enabled j \<and>
     (case cj_nextRunAt j of None \<Rightarrow> False | Some t \<Rightarrow> t \<le> now)) (jobs db))"

text \<open>\<open>Promise.allSettled\<close>: an error of one job does not stop the others.\<close>

fun run_all :: "executor \<Rightarrow> int \<Rightarrow> int \<Rightarrow> string list \<Rightarrow> cron_db \<Rightarrow> cron_db option" where
  "run_all exec start now [] db = Some db"
| "run_all exec start now (i # is) db =
     (case runCronJob exec start now i db of None \<Rightarrow> None
      | Some (_, db') \<Rightarrow> run_all exec start now is db')"

definition runDueCronJobs :: "executor \<Rightarrow> int \<Rightarrow> int \<Rightarrow> cron_db \<Rightarrow> cron_db option" where
  "runDueCronJobs exec start now db = run_all exec start now (due_jobs start db) db"

end
