(* ===== verification/Cron_Api.thy ===== *)
theory Cron_Api
  imports Cron_Jobs
begin

text \<open>
  \<open>src/api/schedule.ts\<close>, the handlers that write the tables of the cron engine (create, edit,
  delete, trigger, toggle), and the engine together with its users as a state machine. Bodies are
  the ones that the type checks of the schema let through; its length and sign checks are
  modelled. Descriptions and creators, which nothing reads, are left out. The handlers and the
  runner expect the database to generate ids, so the id of a new row is a parameter.
\<close>

section \<open>Handlers\<close>

record cron_body =
  cb_contract :: string
  cb_expr :: string
  cb_function :: string
  cb_args :: string
  cb_maxRuns :: "int option"
  cb_enabled :: bool

definition body_ok :: "cron_body \<Rightarrow> bool" where
  "body_ok b = (cb_contract b \<noteq> [] \<and> cb_expr b \<noteq> [] \<and> cb_function b \<noteq> [] \<and>
     (case cb_maxRuns b of None \<Rightarrow> True | Some m \<Rightarrow> 0 < m))"

type_synonym 'a reply = "((nat + 'a) \<times> cron_db) option"

text \<open>\<open>POST /cron\<close>. A left value is the status code of an error; \<open>None\<close> is a request that is never
  answered.\<close>

definition postCron :: "string \<Rightarrow> int \<Rightarrow> cron_body \<Rightarrow> cron_db \<Rightarrow> cron_job reply" where
  "postCron newId now b db =
     (if \<not> body_ok b then Some (Inl 400, db)
      else (case isValidCronExpression (cb_expr b) of
          None \<Rightarrow> None
        | Some False \<Rightarrow> Some (Inl 400, db)
        | Some True \<Rightarrow>
            (case nextCronDate (cb_expr b) now of
               None \<Rightarrow> None
             | Some (Inl err) \<Rightarrow> Some (Inl 400, db)
             | Some (Inr nxt) \<Rightarrow>
                 (let job = \<lparr>cj_id = newId, cj_contract = cb_contract b, cj_function = cb_function b,
                    cj_args = cb_args b, cj_enabled = cb_enabled b, cj_expr = cb_expr b,
                    cj_nextRunAt = Some nxt, cj_lastRunAt = None, cj_totalRuns = 0,
                    cj_successfulRuns = 0, cj_failedRuns = 0, cj_maxRuns = cb_maxRuns b\<rparr>
                  in Some (Inr job, db\<lparr>jobs := jobs db @ [job]\<rparr>)))))"

text \<open>\<open>PUT /cron/:id\<close>: every field is optional.\<close>

record cron_edit =
  ce_contract :: "string option"
  ce_expr :: "string option"
  ce_function :: "string option"
  ce_args :: "string option"
  ce_maxRuns :: "int option"
  ce_enabled :: "bool option"

definition edit_ok :: "cron_edit \<Rightarrow> bool" where
  "edit_ok e = (ce_contract e \<noteq> Some [] \<and> ce_expr e \<noteq> Some [] \<and> ce_function e \<noteq> Some [] \<and>
     (case ce_maxRuns e of None \<Rightarrow> True | Some m \<Rightarrow> 0 < m))"

definition or_else :: "'a option \<Rightarrow> 'a \<Rightarrow> 'a" where
  "or_else v d = (case v of None \<Rightarrow> d | Some x \<Rightarrow> x)"

definition apply_edit :: "cron_edit \<Rightarrow> int option \<Rightarrow> cron_job \<Rightarrow> cron_job" where
  "apply_edit e nxt j =
     j\<lparr>cj_contract := or_else (ce_contract e) (cj_contract j), cj_expr := or_else (ce_expr e) (cj_expr j),
       cj_nextRunAt := (if nxt = None then cj_nextRunAt j else nxt),
       cj_function := or_else (ce_function e) (cj_function j), cj_args := or_else (ce_args e) (cj_args j),
       cj_maxRuns := (if ce_maxRuns e = None then cj_maxRuns j else ce_maxRuns e),
       cj_enabled := or_else (ce_enabled e) (cj_enabled j)\<rparr>"

definition save_edit :: "string \<Rightarrow> cron_edit \<Rightarrow> int option \<Rightarrow> cron_db \<Rightarrow> unit reply" where
  "save_edit i e nxt db = Some (Inr (), db\<lparr>jobs := tbl_update cj_id i (apply_edit e nxt) (jobs db)\<rparr>)"

definition putCron :: "string \<Rightarrow> int \<Rightarrow> cron_edit \<Rightarrow> cron_db \<Rightarrow> unit reply" where
  "putCron i now e db =
     (if \<not> edit_ok e then Some (Inl 400, db)
      else if tbl_find cj_id i (jobs db) = None then Some (Inl 404, db)
      else (case ce_expr e of
          None \<Rightarrow> save_edit i e None db
        | Some expr \<Rightarrow>
            (case isValidCronExpression expr of
               None \<Rightarrow> None
             | Some False \<Rightarrow> Some (Inl 400, db)
             | Some True \<Rightarrow>
                 (case nextCronDate expr now of
                    None \<Rightarrow> None
                  | Some (Inl err) \<Rightarrow> Some (Inl 400, db)
                  | Some (Inr nxt) \<Rightarrow> save_edit i e (Some nxt) db))))"

text \<open>\<open>DELETE /cron/:id\<close>\<close>

definition deleteCron :: "string \<Rightarrow> cron_db \<Rightarrow> unit reply" where
  "deleteCron i db =
     (if tbl_find cj_id i (jobs db) = None then Some (Inl 404, db)
      else Some (Inr (), db\<lparr>executions := filter (\<lambda>x. cx_job x \<noteq> i) (executions db),
                           jobs := filter (\<lambda>j. cj_id j \<noteq> i) (jobs db)\<rparr>))"

text \<open>\<open>POST /cron/:id/trigger\<close>\<close>

definition triggerCron :: "string \<Rightarrow> int \<Rightarrow> cron_db \<Rightarrow> cron_execution reply" where
  "triggerCron i now db =
     (case tbl_find cj_id i (jobs db) of
        None \<Rightarrow> Some (Inl 404, db)
      | Some job \<Rightarrow>
          (let x = \<lparr>cx_job = cj_id job, cx_at = now, cx_success = True, cx_txHash = None,
                 cx_gasUsed = None, cx_error = None, cx_duration = 0\<rparr>
           in Some (Inr x, db\<lparr>executions := executions db @ [x],
                jobs := tbl_update cj_id i
                  (\<lambda>j. j\<lparr>cj_lastRunAt := Some now, cj_totalRuns := cj_totalRuns j + 1,
                         cj_successfulRuns := cj_successfulRuns j + 1\<rparr>) (jobs db)\<rparr>)))"

text \<open>\<open>PATCH /cron/:id/toggle\<close>\<close>

definition toggleCron :: "string \<Rightarrow> cron_db \<Rightarrow> unit reply" where
  "toggleCron i db =
     (case tbl_find cj_id i (jobs db) of
        None \<Rightarrow> Some (Inl 404, db)
      | Some job \<Rightarrow>
          Some (Inr (), db\<lparr>jobs := tbl_update cj_id i (\<lambda>j. j\<lparr>cj_enabled := \<not> cj_enabled job\<rparr>) (jobs db)\<rparr>))"

section \<open>The engine and its users as a state machine\<close>

text \<open>A poll of the engine, and the requests between polls, each as a whole.\<close>

inductive cron_step :: "executor \<Rightarrow> cron_db \<Rightarrow> cron_db \<Rightarrow> bool" for exec :: executor where
  Poll: "runDueCronJobs exec start now db = Some db' \<Longrightarrow> cron_step exec db db'"
| Create: "newId \<notin> cj_id ` set (jobs db) \<Longrightarrow> newId \<notin> cx_job ` set (executions db) \<Longrightarrow>
    postCron newId now b db = Some (r, db') \<Longrightarrow> cron_step exec db db'"
| Edit: "putCron i now e db = Some (u, db') \<Longrightarrow> cron_step exec db db'"
| Delete: "deleteCron i db = Some (u, db') \<Longrightarrow> cron_step exec db db'"
| Trigger: "triggerCron i now db = Some (x, db') \<Longrightarrow> cron_step exec db db'"
| Toggle: "toggleCron i db = Some (u, db') \<Longrightarrow> cron_step exec db db'"

inductive_cases cron_stepE: "cron_step exec db db'"

section \<open>Counters\<close>

text \<open>The counters of every job agree with the execution log.\<close>

definition runs_of :: "cron_db \<Rightarrow> string \<Rightarrow> bool \<Rightarrow> nat" where
  "runs_of db i ok = length (filter (\<lambda>x. cx_job x = i \<and> cx_success x = ok) (executions db))"

definition counters_ok :: "cron_db \<Rightarrow> bool" where
  "counters_ok db = (distinct (map cj_id (jobs db)) \<and>
     (\<forall>j \<in> set (jobs db). cj_successfulRuns j = runs_of db (cj_id j) True \<and>
        cj_failedRuns j = runs_of db (cj_id j) False \<and> cj_totalRuns j = cj_successfulRuns j + cj_failedRuns j))"

lemma finish_success_counters: "counters_ok db \<Longrightarrow> counters_ok (finish_success job r s n t db)"
  by (auto simp: counters_ok_def finish_success_def runs_of_def set_tbl_update tbl_update_keys)

lemma finish_failure_counters: "counters_ok db \<Longrightarrow> counters_ok (finish_failure job e s n t db)"
  by (auto simp: counters_ok_def finish_failure_def runs_of_def set_tbl_update tbl_update_keys)

lemma record_calls_counters: "counters_ok db \<Longrightarrow> counters_ok (record_calls job k db)"
  by (simp add: counters_ok_def record_calls_def runs_of_def)

lemma runCronJob_counters: "runCronJob exec s n i db = Some (r, db') \<Longrightarrow> counters_ok db \<Longrightarrow> counters_ok db'"
  by (auto simp: runCronJob_def Let_def split: option.splits if_splits prod.splits sum.splits
      intro: finish_success_counters finish_failure_counters record_calls_counters)

lemma run_all_counters: "run_all exec s n is db = Some db' \<Longrightarrow> counters_ok db \<Longrightarrow> counters_ok db'"
  by (induction "is" arbitrary: db) (auto split: option.splits dest: runCronJob_counters)

lemma runs_of_jobs [simp]: "runs_of (db\<lparr>jobs := js\<rparr>) i ok = runs_of db i ok"
  by (simp add: runs_of_def)

lemma postCron_counters:
  assumes "newId \<notin> cj_id ` set (jobs db)" "newId \<notin> cx_job ` set (executions db)" "counters_ok db"
    "postCron newId now b db = Some (r, db')"
  shows "counters_ok db'"
proof -
  have "runs_of db newId ok = 0" for ok
    using assms(2) by (auto simp: runs_of_def filter_empty_conv)
  then show ?thesis
    using assms(1,3,4)
    by (auto simp: postCron_def Let_def counters_ok_def split: if_splits option.splits bool.splits sum.splits)
qed

lemma save_edit_counters: "save_edit i e nxt db = Some (u, db') \<Longrightarrow> counters_ok db \<Longrightarrow> counters_ok db'"
  by (auto simp: save_edit_def counters_ok_def runs_of_def apply_edit_def set_tbl_update tbl_update_keys)

lemma putCron_counters: "putCron i now e db = Some (u, db') \<Longrightarrow> counters_ok db \<Longrightarrow> counters_ok db'"
  by (auto simp: putCron_def dest: save_edit_counters split: if_splits option.splits bool.splits sum.splits)

lemma runs_of_delete:
  "j \<noteq> i \<Longrightarrow> runs_of (db\<lparr>executions := filter (\<lambda>x. cx_job x \<noteq> i) (executions db)\<rparr>) j ok = runs_of db j ok"
  unfolding runs_of_def by (simp, rule arg_cong [where f = length]) (rule filter_cong, auto)

lemma deleteCron_counters: "deleteCron i db = Some (u, db') \<Longrightarrow> counters_ok db \<Longrightarrow> counters_ok db'"
  by (auto simp: deleteCron_def counters_ok_def runs_of_delete distinct_map_filter split: if_splits)

lemma logged_counters:
  assumes "counters_ok db" "cx_success x"
  shows "counters_ok (db\<lparr>executions := executions db @ [x],
    jobs := tbl_update cj_id (cx_job x) (\<lambda>j. j\<lparr>cj_lastRunAt := t, cj_totalRuns := cj_totalRuns j + 1,
      cj_successfulRuns := cj_successfulRuns j + 1\<rparr>) (jobs db)\<rparr>)"
  using assms by (auto simp: counters_ok_def runs_of_def set_tbl_update tbl_update_keys)

lemma triggerCron_counters: "triggerCron i now db = Some (x, db') \<Longrightarrow> counters_ok db \<Longrightarrow> counters_ok db'"
proof (cases "tbl_find cj_id i (jobs db)")
  case (Some job)
  have i: "cj_id job = i" using tbl_find_Some [OF Some] by blast
  assume t: "triggerCron i now db = Some (x, db')" and c: "counters_ok db"
  obtain y where y: "cx_success y" "cx_job y = i" and d: "db' = db\<lparr>executions := executions db @ [y],
      jobs := tbl_update cj_id i (\<lambda>j. j\<lparr>cj_lastRunAt := Some now,
      cj_totalRuns := cj_totalRuns j + 1, cj_successfulRuns := cj_successfulRuns j + 1\<rparr>) (jobs db)\<rparr>"
    using t Some i
    by (intro that [of "\<lparr>cx_job = i, cx_at = now, cx_success = True, cx_txHash = None, cx_gasUsed = None,
      cx_error = None, cx_duration = 0\<rparr>"]) (auto simp: triggerCron_def Let_def)
  show ?thesis unfolding d using logged_counters [OF c y(1), of "Some now"] y(2) by simp
qed (simp add: triggerCron_def)

lemma toggleCron_counters: "toggleCron i db = Some (u, db') \<Longrightarrow> counters_ok db \<Longrightarrow> counters_ok db'"
  by (auto simp: toggleCron_def counters_ok_def runs_of_def set_tbl_update tbl_update_keys split: option.splits)

definition no_jobs :: "cron_db \<Rightarrow> bool" where
  "no_jobs db = (executions db = [] \<and> jobs db = [])"

interpretation cron: invariant_system no_jobs "cron_step exec" counters_ok for exec
proof unfold_locales
  fix db assume "no_jobs db"
  then show "counters_ok db" by (simp add: no_jobs_def counters_ok_def)
next
  fix db db' assume "counters_ok db" "cron_step exec db db'"
  then show "counters_ok db'"
    by (auto elim!: cron_stepE simp: runDueCronJobs_def
        intro: run_all_counters postCron_counters putCron_counters deleteCron_counters triggerCron_counters toggleCron_counters)
qed

end
