(* ===== verification/Cron_Props.thy ===== *)
theory Cron_Props
  imports Cron_Api
begin

text \<open>
  Properties of the cron engine: fields mean what the grammar says, the next run is the first
  matching minute, a zero step never returns, the search window misses the next leap day, and
  what the runner keeps of a job.
\<close>

section \<open>The step loop\<close>

lemma step_loop_pos:
  assumes "0 < st" shows "step_loop v e st x = Some (v \<le> x \<and> x \<le> e \<and> st dvd (x - v))"
proof (induction "nat (e + 1 - v)" arbitrary: v rule: less_induct)
  case less
  have step: "v + st \<le> x \<and> st dvd (x - (v + st)) \<longleftrightarrow> v \<le> x \<and> v \<noteq> x \<and> st dvd (x - v)"
  proof -
    have "st dvd (x - (v + st)) \<longleftrightarrow> st dvd (x - v)"
      using dvd_add_times_triv_right_iff [of st "x - v" "- 1"] by (simp add: algebra_simps)
    moreover have "v \<le> x \<Longrightarrow> v \<noteq> x \<Longrightarrow> st dvd (x - v) \<Longrightarrow> v + st \<le> x"
      using zdvd_imp_le [of st "x - v"] by simp
    ultimately show ?thesis using assms by auto
  qed
  show ?case
  proof (cases "v \<le> e")
    case True
    then have "step_loop (v + st) e st x = Some (v + st \<le> x \<and> x \<le> e \<and> st dvd (x - (v + st)))"
      using assms by (intro less) simp
    then show ?thesis using True step by (subst step_loop.simps) auto
  next
    case False
    then show ?thesis by (subst step_loop.simps) auto
  qed
qed

lemma step_loop_stuck: "step_loop v e 0 x = Some r \<Longrightarrow> v \<le> e \<Longrightarrow> v = x"
proof (rule ccontr)
  assume r: "step_loop v e 0 x = Some r" and le: "v \<le> e" and ne: "v \<noteq> x"
  have "0 = (0 :: int) \<longrightarrow> v \<le> e \<longrightarrow> v = x"
    by (rule step_loop.raw_induct [where P = "\<lambda>v e st x y. st = 0 \<longrightarrow> v \<le> e \<longrightarrow> v = x", OF _ r])
      (fastforce split: if_splits)
  with le ne show False by simp
qed

section \<open>Fields\<close>

text \<open>The reference: the items of a field, how they are written, and the values they stand for.\<close>

datatype cron_item =
    Lit nat
  | Rng nat nat
  | Every nat
  | RngStep nat nat nat
  | FromStep nat nat

fun write_item :: "cron_item \<Rightarrow> string" where
  "write_item (Lit n) = dec_nat n"
| "write_item (Rng a b) = dec_nat a @ ''-'' @ dec_nat b"
| "write_item (Every s) = ''*/'' @ dec_nat s"
| "write_item (RngStep a b s) = dec_nat a @ ''-'' @ dec_nat b @ ''/'' @ dec_nat s"
| "write_item (FromStep a s) = dec_nat a @ ''/'' @ dec_nat s"

fun means :: "int \<Rightarrow> int \<Rightarrow> cron_item \<Rightarrow> int \<Rightarrow> bool" where
  "means mn mx (Lit n) v = (v = int n)"
| "means mn mx (Rng a b) v = (int a \<le> v \<and> v \<le> int b)"
| "means mn mx (Every s) v = (mn \<le> v \<and> v \<le> mx \<and> int s dvd (v - mn))"
| "means mn mx (RngStep a b s) v = (int a \<le> v \<and> v \<le> int b \<and> int s dvd (v - int a))"
| "means mn mx (FromStep a s) v = (int a \<le> v \<and> v \<le> mx \<and> int s dvd (v - int a))"

fun item_ok :: "cron_item \<Rightarrow> bool" where
  "item_ok (Every s) = (0 < s)"
| "item_ok (RngStep a b s) = (0 < s)"
| "item_ok (FromStep a s) = (0 < s)"
| "item_ok _ = True"

definition write_field :: "cron_item list \<Rightarrow> string" where
  "write_field items = join_with '','' (map write_item items)"

lemma split_dash: "split_on (CHR ''-'') (dec_nat a @ CHR ''-'' # s) = dec_nat a # split_on (CHR ''-'') s"
  by (rule split_on_append) simp

lemma split_slash: "split_on (CHR ''/'') (dec_nat a @ CHR ''/'' # s) = dec_nat a # split_on (CHR ''/'') s"
  by (rule split_on_append) simp

lemma split_dec [simp]: "\<not> is_digit c \<Longrightarrow> split_on c (dec_nat n) = [dec_nat n]"
  by (rule split_on_none) simp

lemma split_range_step:
  "split_on (CHR ''/'') (dec_nat a @ CHR ''-'' # dec_nat b @ CHR ''/'' # s) =
    (dec_nat a @ CHR ''-'' # dec_nat b) # split_on (CHR ''/'') s"
  using split_on_append [of "CHR ''/''" "dec_nat a @ CHR ''-'' # dec_nat b" s] by simp

lemma rat_int_le: "rat_of_nat a \<le> rat_of_int v \<longleftrightarrow> int a \<le> v" "rat_of_int v \<le> rat_of_nat a \<longleftrightarrow> v \<le> int a"
  using of_int_le_iff [of "int a" v, where 'a = rat] of_int_le_iff [of v "int a", where 'a = rat] by simp_all

lemma range_not_star: "dec_nat a @ x # s \<noteq> ''*''"
  by (cases "dec_nat a") auto

lemma dec_not_star: "dec_nat a \<noteq> ''*''"
  by (metis list.set_intros(1) not_in_dec sep_not_digit(4))

lemma match_item:
  assumes "item_ok it" shows "match_part (write_item it) v mn mx = Some (means mn mx it v)"
proof (cases it)
  case (Lit n)
  then show ?thesis by (auto simp: match_part_def has_char_def)
next
  case (Rng a b)
  then show ?thesis
    by (simp add: match_part_def has_char_def split_dash nth_part_def in_bounds_def rat_int_le)
next
  case (Every s)
  then show ?thesis
    using assms split_on_append [of "CHR ''/''" "''*''" "dec_nat s"]
    by (simp add: match_part_def has_char_def nth_part_def step_match_def step_loop_pos)
next
  case (RngStep a b s)
  then show ?thesis
    using assms
    by (simp add: match_part_def has_char_def split_range_step split_dash nth_part_def step_match_def step_loop_pos
        Let_def range_not_star)
next
  case (FromStep a s)
  then show ?thesis
    using assms
    by (simp add: match_part_def has_char_def split_slash nth_part_def step_match_def step_loop_pos
        Let_def dec_not_star)
qed

text \<open>C30: A field means what its items say: for every list of items (a number, a range, and steps from
  the start of the range, within a range, or from a number, with positive steps), a value of the
  field's range matches the written field exactly when one of the items stands for it, and the
  step loops return.\<close>

theorem matchField_items:
  assumes "items \<noteq> []" "list_all item_ok items"
  shows "matchField (write_field items) v mn mx = Some (\<exists>it \<in> set items. means mn mx it v)"
proof -
  have parts: "list_all item_ok its \<Longrightarrow> match_parts (map write_item its) v mn mx = Some (\<exists>it \<in> set its. means mn mx it v)" for its
    by (induction its) (auto simp: match_item split: bool.splits)
  have comma: "CHR '','' \<notin> set (write_item it)" for it by (cases it) auto
  have split: "split_on (CHR '','') (write_field items) = map write_item items"
    unfolding write_field_def using assms(1) comma by (intro split_join) auto
  moreover have "write_field items \<noteq> ''*''"
  proof
    assume "write_field items = ''*''"
    then have "map write_item items = [''*'']" using split by simp
    then obtain it where "write_item it = ''*''" by auto
    then show False by (cases it) (auto simp: range_not_star dec_not_star)
  qed
  ultimately show ?thesis using parts [OF assms(2)] by (simp add: matchField_def)
qed

theorem matchField_items_witness:
  "matchField ''5,10-20/5,*/45'' 15 0 59 = Some True"
proof -
  have w: "write_field [Lit 5, RngStep 10 20 5, Every 45] = ''5,10-20/5,*/45''" by code_simp
  have "matchField (write_field [Lit 5, RngStep 10 20 5, Every 45]) 15 0 59 =
      Some (\<exists>it \<in> set [Lit 5, RngStep 10 20 5, Every 45]. means 0 59 it 15)"
    by (rule matchField_items) simp_all
  then show ?thesis unfolding w by simp
qed

section \<open>The search\<close>

lemma search_found:
  "search_minutes expr fs limit c = Some (Inr t) \<Longrightarrow>
    \<exists>m. t = m * 60000 \<and> c \<le> m \<and> m < limit \<and> match_all (minute_checks fs m) = Some (Inr True) \<and>
      (\<forall>k. c \<le> k \<and> k < m \<longrightarrow> match_all (minute_checks fs k) = Some (Inr False))"
proof (induction expr fs limit c rule: search_minutes.induct)
  case (1 expr fs limit c)
  have lt: "c < limit" using "1.prems" by (subst (asm) search_minutes.simps) (auto split: if_splits)
  show ?case
  proof (cases "match_all (minute_checks fs c) = Some (Inr True)")
    case True
    then have "t = c * 60000" using "1.prems" lt by (subst (asm) search_minutes.simps) simp
    then show ?thesis using True lt by (intro exI [of _ c]) auto
  next
    case False
    then have f: "match_all (minute_checks fs c) = Some (Inr False)"
      and r: "search_minutes expr fs limit (c + 1) = Some (Inr t)"
      using "1.prems" lt
      by (subst (asm) search_minutes.simps; simp split: option.splits sum.splits bool.splits)+
    obtain m where m: "t = m * 60000" "c + 1 \<le> m" "m < limit" "match_all (minute_checks fs m) = Some (Inr True)"
      "\<forall>k. c + 1 \<le> k \<and> k < m \<longrightarrow> match_all (minute_checks fs k) = Some (Inr False)"
      using "1.IH" [OF lt f _ _ r] by auto
    have "match_all (minute_checks fs k) = Some (Inr False)" if "c \<le> k" "k < m" for k
      using that m(5) f by (cases "k = c") auto
    then show ?thesis using m by (intro exI [of _ m]) simp
  qed
qed

lemma search_nothing:
  "\<forall>k. c \<le> k \<and> k < limit \<longrightarrow> match_all (minute_checks fs k) = Some (Inr False) \<Longrightarrow>
    search_minutes expr fs limit c = Some (Inl (NoNextRun expr))"
proof (induction expr fs limit c rule: search_minutes.induct)
  case (1 expr fs limit c)
  show ?case
  proof (cases "c < limit")
    case True
    then have f: "match_all (minute_checks fs c) = Some (Inr False)" using "1.prems" by simp
    have "search_minutes expr fs limit (c + 1) = Some (Inl (NoNextRun expr))"
      by (rule "1.IH" [OF True f]) (use "1.prems" in auto)
    then show ?thesis using True f by (subst search_minutes.simps) simp
  next
    case False
    then show ?thesis by (subst search_minutes.simps) simp
  qed
qed

text \<open>C25: The next run is the first one: the date that is returned is a whole minute after the given
  time and within the search window, all five fields match it, and no minute in between
  matches.\<close>

theorem next_run_is_first:
  assumes "nextCronDate expr after = Some (Inr t)"
  shows "\<exists>m. t = m * 60000 \<and> after < t \<and> t < after + 60000 + SEARCH_MINUTES * 60000 \<and>
    match_all (minute_checks (cron_fields expr) m) = Some (Inr True) \<and>
    (\<forall>k. after < k * 60000 \<and> k < m \<longrightarrow> match_all (minute_checks (cron_fields expr) k) = Some (Inr False))"
proof -
  let ?s = "(after + 60000) div 60000"
  obtain m where m: "t = m * 60000" "?s \<le> m" "m < ?s + SEARCH_MINUTES"
    "match_all (minute_checks (cron_fields expr) m) = Some (Inr True)"
    "\<forall>k. ?s \<le> k \<and> k < m \<longrightarrow> match_all (minute_checks (cron_fields expr) k) = Some (Inr False)"
    using search_found [of expr "cron_fields expr" "?s + SEARCH_MINUTES" ?s t] assms
    by (auto simp: nextCronDate_def Let_def)
  have "after < ?s * 60000" "?s * 60000 \<le> after + 60000" by linarith+
  moreover have "?s \<le> k" if "after < k * 60000" for k using that by linarith
  ultimately show ?thesis using m by (intro exI [of _ m]) auto
qed

theorem next_run_is_first_witness:
  "nextCronDate ''*/15 * * * *'' 0 = Some (Inr 900000) \<and>
   match_all (minute_checks (cron_fields ''*/15 * * * *'') 14) = Some (Inr False)"
proof -
  have n: "nextCronDate ''*/15 * * * *'' 0 = Some (Inr 900000)" by code_simp
  then show ?thesis using next_run_is_first [OF n] by auto
qed

section \<open>A step of zero\<close>

lemma star_step_zero: "x \<noteq> mn \<Longrightarrow> mn \<le> mx \<Longrightarrow> matchField ''*/0'' x mn mx = None"
proof -
  assume a: "x \<noteq> mn" "mn \<le> mx"
  have "parse_int10 ''0'' = Some 0" by code_simp
  moreover have "step_loop mn mx 0 x = None"
    using step_loop_stuck [of mn mx x] a by (cases "step_loop mn mx 0 x") auto
  ultimately show ?thesis
    using a by (simp add: matchField_def match_part_def has_char_def nth_part_def step_match_def Let_def)
qed

lemma zero_fields: "cron_fields ''*/0 * * * *'' = [''*/0'', ''*'', ''*'', ''*'', ''*'']"
  by code_simp

lemma zero_minute:
  "m mod 60 \<noteq> 0 \<Longrightarrow> match_all (minute_checks [''*/0'', ''*'', ''*'', ''*'', ''*''] m) = None"
  using star_step_zero [of "m mod 60" 0 59]
  by (simp add: minute_checks_def field_at_def matchField_def Let_def)

text \<open>A zero step makes the engine hang: checking the expression \<open>*/0 * * * *\<close> for validity never
  returns, and neither does the search for the next run from any full hour.\<close>

theorem step_zero_hangs:
  "isValidCronExpression ''*/0 * * * *'' = None \<and>
   nextCronDate ''*/0 * * * *'' (3600000 * h) = None"
proof -
  have n: "nextCronDate ''*/0 * * * *'' after = None" if "(after + 60000) div 60000 mod 60 \<noteq> 0" for after
    using zero_minute [OF that]
    by (simp add: nextCronDate_def Let_def zero_fields search_minutes.simps SEARCH_MINUTES_def)
  have "length (split_ws (expandAlias ''*/0 * * * *'')) = 5" by code_simp
  moreover have "(3600000 * h + 60000) div 60000 mod 60 = 1"
  proof -
    have "3600000 * h + 60000 = (60 * h + 1) * 60000" by simp
    then have "(3600000 * h + 60000) div 60000 = 60 * h + 1" by (simp only: nonzero_mult_div_cancel_right)
    moreover have "(60 * h + 1) mod 60 = 1" by presburger
    ultimately show ?thesis by simp
  qed
  ultimately show ?thesis using n [of 0] n [of "3600000 * h"] by (simp add: isValidCronExpression_def Let_def)
qed

section \<open>The leap day\<close>

lemma year_up_bracket: "day_from_year y \<le> d \<Longrightarrow>
    day_from_year (year_up d y) \<le> d \<and> d < day_from_year (year_up d y + 1)"
proof (induction d y rule: year_up.induct)
  case (1 d y)
  then show ?case
    by (cases "day_from_year (y + 1) \<le> d") (simp_all add: year_up.simps [of d y])
qed

lemma day_from_year_mono: "x < y \<Longrightarrow> day_from_year (x + 1) \<le> day_from_year y"
proof (induction y rule: int_gr_induct)
  case (step i)
  then show ?case by (simp add: day_from_year_next [of i] year_len_def)
qed simp

lemma year_est:
  "0 \<le> k \<Longrightarrow> day_from_year (1970 + k) \<le> 366 * k" "k \<le> 0 \<Longrightarrow> day_from_year (1970 + k) \<le> 365 * k"
proof -
  show "0 \<le> k \<Longrightarrow> day_from_year (1970 + k) \<le> 366 * k"
  proof (induction k rule: int_ge_induct)
    case base
    show ?case by (simp add: day_from_year_def)
  next
    case (step i)
    then show ?case using day_from_year_next [of "1970 + i"] by (simp add: year_len_def add.assoc split: if_splits)
  qed
  show "k \<le> 0 \<Longrightarrow> day_from_year (1970 + k) \<le> 365 * k"
  proof (induction k rule: int_le_induct)
    case base
    show ?case by (simp add: day_from_year_def)
  next
    case (step i)
    then show ?case using day_from_year_next [of "1970 + i - 1"] by (simp add: year_len_def add.assoc split: if_splits)
  qed
qed

lemma year_of_day_bracket:
  "day_from_year (year_of_day d) \<le> d" "d < day_from_year (year_of_day d + 1)"
proof -
  have "day_from_year (1970 + (if d < 0 then d div 365 else d div 366)) \<le> d"
  proof (cases "d < 0")
    case True
    then have "d div 365 \<le> 0" by linarith
    from year_est(2) [OF this] have "day_from_year (1970 + d div 365) \<le> 365 * (d div 365)" .
    also have "\<dots> \<le> d" by linarith
    finally show ?thesis using True by simp
  next
    case False
    then have "0 \<le> d div 366" by linarith
    from year_est(1) [OF this] have "day_from_year (1970 + d div 366) \<le> 366 * (d div 366)" .
    also have "\<dots> \<le> d" by linarith
    finally show ?thesis using False by simp
  qed
  from year_up_bracket [OF this] show "day_from_year (year_of_day d) \<le> d" "d < day_from_year (year_of_day d + 1)"
    by (simp_all add: year_of_day_def)
qed

lemma february_29:
  assumes "month_day d = (2, 29)"
  shows "leap (year_of_day d) \<and> d = day_from_year (year_of_day d) + 59"
proof -
  define k where "k = d - day_from_year (year_of_day d)"
  define ms where "ms = filter (\<lambda>s. s \<le> k) (month_starts (leap (year_of_day d)))"
  have ms: "length ms = 2" "k - last ms = 28"
    using assms by (simp_all add: month_day_def Let_def k_def ms_def)
  have k0: "0 \<le> k" using year_of_day_bracket(1) [of d] by (simp add: k_def)
  have "31 \<le> k" using ms(1) k0 by (rule_tac ccontr) (auto simp: ms_def month_starts_def split: if_splits)
  moreover have "k < 60" using ms(1) k0 by (rule_tac ccontr) (simp add: ms_def month_starts_def split: if_splits)
  moreover have "k < 59 \<or> leap (year_of_day d)"
    using ms(1) k0 calculation by (rule_tac ccontr) (simp add: ms_def month_starts_def)
  ultimately have "k = 59" "leap (year_of_day d)"
    using ms by (auto simp: ms_def month_starts_def split: if_splits)
  then show ?thesis by (simp add: k_def)
qed

lemma leap_spacing:
  assumes "leap x" "leap y" "day_from_year x < day_from_year y"
  shows "day_from_year x + 1461 \<le> day_from_year y"
proof -
  have "x < y" using assms(3) day_from_year_mono [of y x] by (cases x y rule: linorder_cases) (auto simp: day_from_year_next year_len_def split: if_splits)
  moreover have "4 dvd y - x" using assms(1,2) by (simp add: leap_def)
  ultimately have "x + 3 < y" using zdvd_imp_le [of 4 "y - x"] by simp
  from day_from_year_mono [OF this] have "day_from_year (x + 4) \<le> day_from_year y" by (simp add: add.assoc)
  moreover have "day_from_year (x + 4) \<ge> day_from_year x + 1461"
    using assms(1) day_from_year_next [of x] day_from_year_next [of "x + 1"] day_from_year_next [of "x + 2"]
      day_from_year_next [of "x + 3"]
    by (simp add: year_len_def add.assoc split: if_splits)
  ultimately show ?thesis by linarith
qed

lemma leap_fields: "cron_fields ''0 0 29 2 *'' = [''0'', ''0'', ''29'', ''2'', ''*'']"
  by code_simp

lemma lit_field: "parse_int10 s = Some n \<Longrightarrow> s \<noteq> ''*'' \<Longrightarrow> CHR '','' \<notin> set s \<Longrightarrow> \<not> has_char (CHR ''/'') s \<Longrightarrow> \<not> has_char (CHR ''-'') s \<Longrightarrow>
    matchField s v mn mx = Some (n = v)"
  by (auto simp: matchField_def match_part_def split_on_none split: bool.splits)

lemma leap_lits:
  "matchField ''0'' v mn mx = Some (0 = v)" "matchField ''29'' v mn mx = Some (29 = v)"
  "matchField ''2'' v mn mx = Some (2 = v)"
proof -
  have "parse_int10 ''0'' = Some 0" "parse_int10 ''29'' = Some 29" "parse_int10 ''2'' = Some 2" by code_simp+
  note this [THEN lit_field]
  then show "matchField ''0'' v mn mx = Some (0 = v)" "matchField ''29'' v mn mx = Some (29 = v)"
    "matchField ''2'' v mn mx = Some (2 = v)"
    by (simp_all add: has_char_def)
qed

lemma star_field: "matchField ''*'' v mn mx = Some True"
  by (simp add: matchField_def)

lemma leap_minute:
  "match_all (minute_checks [''0'', ''0'', ''29'', ''2'', ''*''] k) =
    Some (Inr (month_day (k div 1440) = (2, 29) \<and> (k div 60) mod 24 = 0 \<and> k mod 60 = 0))"
  by (cases "month_day (k div 1440)")
    (auto simp: minute_checks_def Let_def field_at_def leap_lits star_field split: bool.splits)

text \<open>The first minute of the leap day of a year.\<close>

definition leap_midnight :: "int \<Rightarrow> int" where
  "leap_midnight y = 1440 * (day_from_year y + 59)"

lemma no_leap_minute:
  assumes "leap y" "leap_midnight y < k" "k < leap_midnight y + 1 + SEARCH_MINUTES"
  shows "match_all (minute_checks [''0'', ''0'', ''29'', ''2'', ''*''] k) = Some (Inr False)"
proof -
  have False if "month_day (k div 1440) = (2, 29)" "(k div 60) mod 24 = 0" "k mod 60 = 0"
  proof -
    from february_29 [OF that(1)] obtain z where z: "leap z" "k div 1440 = day_from_year z + 59" by blast
    have k: "k = 1440 * (k div 1440)" 
    proof -
      have "k = 60 * (k div 60)" using that(3) by (simp add: minus_mod_eq_mult_div [symmetric])
      moreover have "k div 60 = 24 * (k div 60 div 24)" using that(2) by (simp add: minus_mod_eq_mult_div [symmetric])
      moreover have "k div 60 div 24 = k div 1440" using zdiv_zmult2_eq [of 24 k 60] by simp
      ultimately show ?thesis by linarith
    qed
    then have "day_from_year y < day_from_year z" using z(2) assms(2) by (simp add: leap_midnight_def)
    from leap_spacing [OF assms(1) z(1) this] have "k \<ge> leap_midnight y + 1440 * 1461"
      using k z(2) by (simp add: leap_midnight_def)
    then show False using assms(3) by (simp add: SEARCH_MINUTES_def)
  qed
  then show ?thesis by (auto simp: leap_minute)
qed

lemma leap_day_search:
  assumes "leap y" "after div 60000 = leap_midnight y"
  shows "nextCronDate ''0 0 29 2 *'' after = Some (Inl (NoNextRun ''0 0 29 2 *''))"
proof -
  have "(after + 60000) div 60000 = leap_midnight y + 1" using assms(2) by simp
  then show ?thesis
    using no_leap_minute [OF assms(1)] unfolding nextCronDate_def Let_def leap_fields
    by (intro search_nothing) simp
qed

definition leap_job :: "int \<Rightarrow> cron_job" where
  "leap_job t = \<lparr>cj_id = ''j'', cj_contract = ''c'', cj_function = ''f'', cj_args = [], cj_enabled = True,
     cj_expr = ''0 0 29 2 *'', cj_nextRunAt = Some t, cj_lastRunAt = None, cj_totalRuns = 0,
     cj_successfulRuns = 0, cj_failedRuns = 0, cj_maxRuns = None\<rparr>"

text \<open>A job for the leap day runs on every poll: when it is due in the first minute of 29 February, the
  contract is called, but the search for the next run finds nothing in its four years of 365
  days, so neither the execution nor a new date is stored, and the next poll in that minute calls
  the contract again.\<close>

theorem leap_day_job_repeats:
  assumes "leap y" "jobs db = [j]" "cj_enabled j" "cj_expr j = ''0 0 29 2 *''"
    "cj_nextRunAt j = Some (60000 * leap_midnight y)"
    "60000 * leap_midnight y \<le> start" "now div 60000 = leap_midnight y"
  shows "runDueCronJobs executeContractFunction start now db = Some (record_calls j 1 db) \<and>
    runDueCronJobs executeContractFunction start now (record_calls j 1 db) =
      Some (record_calls j 1 (record_calls j 1 db))"
proof -
  have "runDueCronJobs executeContractFunction start now d = Some (record_calls j 1 d)"
    if "jobs d = [j]" for d
    using assms(3-6) that leap_day_search [OF assms(1,7)]
    by (simp add: runDueCronJobs_def due_jobs_def runCronJob_def tbl_find_def executeContractFunction_def
        MAX_RETRIES_def numeral_eq_Suc Let_def)
  then show ?thesis using assms(2) by (simp add: record_calls_def)
qed

theorem leap_day_job_repeats_witness:
  "leap_midnight 2024 = 28486080 \<and>
   runDueCronJobs executeContractFunction (60000 * 28486080) (60000 * 28486080 + 30000)
     \<lparr>jobs = [leap_job (60000 * 28486080)], executions = [], invocations = []\<rparr> =
   Some \<lparr>jobs = [leap_job (60000 * 28486080)], executions = [], invocations = [(''c'', ''f'')]\<rparr>"
proof -
  let ?db = "\<lparr>jobs = [leap_job (60000 * 28486080)], executions = [], invocations = []\<rparr>"
  have m: "leap_midnight 2024 = 28486080" by code_simp
  have "leap 2024" by code_simp
  from leap_day_job_repeats [OF this, of ?db "leap_job (60000 * 28486080)" "60000 * 28486080" "60000 * 28486080 + 30000"] m
  show ?thesis by (simp add: leap_job_def record_calls_def)
qed

section \<open>What the runner keeps\<close>


definition empty_db :: cron_db where
  "empty_db = \<lparr>jobs = [], executions = [], invocations = []\<rparr>"

definition hourly :: cron_body where
  "hourly = \<lparr>cb_contract = ''c'', cb_expr = ''@hourly'', cb_function = ''f'', cb_args = [], cb_maxRuns = None, cb_enabled = True\<rparr>"

definition hourly_job :: cron_job where
  "hourly_job = leap_job 3600000\<lparr>cj_expr := ''@hourly''\<rparr>"

lemma hourly_create: "postCron ''j'' 0 hourly empty_db = Some (Inr hourly_job, empty_db\<lparr>jobs := [hourly_job]\<rparr>)"
  by code_simp

lemma hourly_run:
  "runDueCronJobs executeContractFunction 3600000 3600007 (empty_db\<lparr>jobs := [hourly_job]\<rparr>) =
   Some \<lparr>jobs = [hourly_job\<lparr>cj_lastRunAt := Some 3600007, cj_nextRunAt := Some 7200000, cj_totalRuns := 1, cj_successfulRuns := 1\<rparr>],
     executions = [\<lparr>cx_job = ''j'', cx_at = 3600007, cx_success = True, cx_txHash = None, cx_gasUsed = None,
       cx_error = None, cx_duration = 7\<rparr>], invocations = [(''c'', ''f'')]\<rparr>"
  by code_simp


lemma attempts_some:
  "run_attempts exec a n le = (res, le', k) \<Longrightarrow>
    (res \<noteq> None) = (\<exists>i < n. er_success (exec (a + i))) \<and> k \<le> n \<and> (n = 0 \<or> 0 < k)"
proof (induction n arbitrary: a le res le' k)
  case (Suc n)
  have ex: "(\<exists>i < Suc n. P (a + i)) = (P a \<or> (\<exists>i < n. P (Suc a + i)))" for P
    by (auto simp: less_Suc_eq_0_disj)
  show ?case
  proof (cases "er_success (exec a)")
    case True
    then show ?thesis using Suc.prems by (auto simp: Let_def intro: exI [of _ 0])
  next
    case False
    then show ?thesis
      using Suc.prems Suc.IH [of "Suc a"] unfolding ex [of "\<lambda>i. er_success (exec i)"]
      by (auto simp: Let_def split: prod.splits)
  qed
qed simp

text \<open>What a run does: for an enabled job whose expression has a next date, the contract is called at
  most three times and at least once, the run succeeds exactly when one of three attempts does,
  exactly one execution with that outcome is logged, the next date is stored, the counters move,
  and the job is afterwards enabled exactly when the run failed, or no limit is set, or the total
  stays below the limit. So a failing job is never stopped by its limit. Other jobs are left
  alone.\<close>

theorem cron_run_outcome:
  assumes "tbl_find cj_id i (jobs db) = Some job" "cj_enabled job"
    "nextCronDate (cj_expr job) now = Some (Inr nxt)"
    "ok = (\<exists>a < 3. er_success (exec (cj_contract job) (cj_function job) (cj_args job) a))"
  shows "\<exists>db' k x. runCronJob exec start now i db = Some (Inr ok, db') \<and>
    tbl_find cj_id i (jobs db') = Some (job\<lparr>cj_lastRunAt := Some now, cj_nextRunAt := Some nxt,
      cj_totalRuns := cj_totalRuns job + 1,
      cj_successfulRuns := cj_successfulRuns job + (if ok then 1 else 0),
      cj_failedRuns := cj_failedRuns job + (if ok then 0 else 1),
      cj_enabled := (ok \<longrightarrow> (case cj_maxRuns job of None \<Rightarrow> True | Some m \<Rightarrow> int (cj_totalRuns job) + 1 < m))\<rparr>) \<and>
    (\<forall>i'. i' \<noteq> i \<longrightarrow> tbl_find cj_id i' (jobs db') = tbl_find cj_id i' (jobs db)) \<and>
    executions db' = executions db @ [x] \<and> cx_job x = i \<and> cx_success x = ok \<and>
    invocations db' = invocations db @ replicate k (cj_contract job, cj_function job) \<and> 0 < k \<and> k \<le> 3"
proof -
  have i: "cj_id job = i" using assms(1) by (auto simp: tbl_find_def find_Some_iff)
  obtain res le k where r: "run_attempts (exec (cj_contract job) (cj_function job) (cj_args job)) 0 MAX_RETRIES None = (res, le, k)"
    by (cases "run_attempts (exec (cj_contract job) (cj_function job) (cj_args job)) 0 MAX_RETRIES None") auto
  have a: "(res \<noteq> None) = ok" "0 < k" "k \<le> 3"
    using attempts_some [OF r] assms(4) by (auto simp: MAX_RETRIES_def)
  show ?thesis
  proof (cases res)
    case None
    then show ?thesis using assms(1-3) a r i
      by (simp add: runCronJob_def Let_def finish_failure_def record_calls_def tbl_find_update)
  next
    case (Some y)
    then show ?thesis using assms(1-3) a r i
      by (simp add: runCronJob_def Let_def finish_success_def record_calls_def tbl_find_update)
  qed
qed

text \<open>A job that has used up its only run, and fails again.\<close>

definition spent_job :: cron_job where
  "spent_job = hourly_job\<lparr>cj_totalRuns := 1, cj_failedRuns := 1, cj_maxRuns := Some 1\<rparr>"

definition broken :: executor where
  "broken c f a n = \<lparr>er_success = False, er_txHash = None, er_gasUsed = None, er_error = None\<rparr>"

theorem cron_run_outcome_witness:
  "\<exists>db'. runCronJob broken 0 0 ''j'' (empty_db\<lparr>jobs := [spent_job]\<rparr>) = Some (Inr False, db') \<and>
     (\<exists>j. tbl_find cj_id ''j'' (jobs db') = Some j \<and> cj_enabled j \<and> cj_totalRuns j = 2 \<and> cj_maxRuns j = Some 1)"
proof -
  have "tbl_find cj_id ''j'' (jobs (empty_db\<lparr>jobs := [spent_job]\<rparr>)) = Some spent_job" "cj_enabled spent_job"
    by (simp_all add: tbl_find_def spent_job_def hourly_job_def leap_job_def)
  moreover have "nextCronDate (cj_expr spent_job) 0 = Some (Inr 3600000)" by code_simp
  moreover have "False = (\<exists>a < 3. er_success (broken (cj_contract spent_job) (cj_function spent_job) (cj_args spent_job) a))"
    by (simp add: broken_def)
  ultimately have "\<exists>db' k x. runCronJob broken 0 0 ''j'' (empty_db\<lparr>jobs := [spent_job]\<rparr>) = Some (Inr False, db') \<and>
    tbl_find cj_id ''j'' (jobs db') = Some (spent_job\<lparr>cj_lastRunAt := Some 0, cj_nextRunAt := Some 3600000,
      cj_totalRuns := cj_totalRuns spent_job + 1,
      cj_successfulRuns := cj_successfulRuns spent_job + (if False then 1 else 0),
      cj_failedRuns := cj_failedRuns spent_job + (if False then 0 else 1),
      cj_enabled := (False \<longrightarrow> (case cj_maxRuns spent_job of None \<Rightarrow> True | Some m \<Rightarrow> int (cj_totalRuns spent_job) + 1 < m))\<rparr>)"
    using cron_run_outcome [of "''j''" "empty_db\<lparr>jobs := [spent_job]\<rparr>" spent_job 0 3600000 False broken 0] by blast
  then show ?thesis by (auto simp: spent_job_def hourly_job_def leap_job_def)
qed

text \<open>A successful run undoes a user's request: when a job without a limit of runs is toggled off while
  its run is under way, the transaction that records the success leaves it switched on.\<close>

theorem success_reenables:
  assumes "tbl_find cj_id i (jobs db) = Some job" "cj_enabled job" "cj_maxRuns job = None"
    "toggleCron i db = Some (u, db')"
  shows "\<exists>j j'. tbl_find cj_id i (jobs db') = Some j \<and> \<not> cj_enabled j \<and>
    tbl_find cj_id i (jobs (finish_success job r start now nxt db')) = Some j' \<and> cj_enabled j'"
proof -
  have "cj_id job = i" using assms(1) by (auto simp: tbl_find_def find_Some_iff)
  then show ?thesis using assms by (auto simp: toggleCron_def finish_success_def tbl_find_update)
qed

theorem success_reenables_witness:
  "\<exists>db'. toggleCron ''j'' (empty_db\<lparr>jobs := [hourly_job]\<rparr>) = Some (Inr (), db') \<and>
     map cj_enabled (jobs db') = [False] \<and>
     map cj_enabled (jobs (finish_success hourly_job (executeContractFunction [] [] [] 0) 0 7 3600000 db')) = [True]"
proof -
  let ?d = "empty_db\<lparr>jobs := [hourly_job]\<rparr>" let ?t = "empty_db\<lparr>jobs := [hourly_job\<lparr>cj_enabled := False\<rparr>]\<rparr>"
  have h: "tbl_find cj_id ''j'' (jobs ?d) = Some hourly_job" "cj_enabled hourly_job" "cj_maxRuns hourly_job = None"
    by (simp_all add: tbl_find_def hourly_job_def leap_job_def)
  have t: "toggleCron ''j'' ?d = Some (Inr (), ?t)" by code_simp
  from success_reenables [OF h t, of "executeContractFunction [] [] [] 0" 0 7 3600000]
  show ?thesis unfolding t by (auto simp: tbl_find_def finish_success_def tbl_update_def hourly_job_def leap_job_def)
qed

text \<open>A manual trigger logs a run that never happened: the handler stores a successful execution and
  counts it, for a disabled job too, and the contract is not called.\<close>

theorem trigger_never_calls:
  assumes "tbl_find cj_id i (jobs db) = Some job"
  shows "\<exists>x db'. triggerCron i now db = Some (Inr x, db') \<and> invocations db' = invocations db \<and>
    cx_success x \<and> runs_of db' i True = runs_of db i True + 1 \<and>
    tbl_find cj_id i (jobs db') = Some (job\<lparr>cj_lastRunAt := Some now, cj_totalRuns := cj_totalRuns job + 1,
      cj_successfulRuns := cj_successfulRuns job + 1\<rparr>)"
proof -
  have "cj_id job = i" using assms by (auto simp: tbl_find_def find_Some_iff)
  then show ?thesis using assms by (simp add: triggerCron_def Let_def runs_of_def tbl_find_update)
qed

theorem trigger_never_calls_witness:
  "\<exists>x db'. triggerCron ''j'' 5 (empty_db\<lparr>jobs := [hourly_job\<lparr>cj_enabled := False\<rparr>]\<rparr>) = Some (Inr x, db') \<and>
     invocations db' = [] \<and> runs_of db' ''j'' True = 1"
proof -
  have "tbl_find cj_id ''j'' (jobs (empty_db\<lparr>jobs := [hourly_job\<lparr>cj_enabled := False\<rparr>]\<rparr>)) =
      Some (hourly_job\<lparr>cj_enabled := False\<rparr>)"
    by (simp add: tbl_find_def hourly_job_def leap_job_def)
  from trigger_never_calls [OF this, of 5] show ?thesis by (auto simp: empty_db_def runs_of_def)
qed

end
