(* ===== verification/Settlement_Compactor.thy ===== *)
theory Settlement_Compactor
  imports Js_Number "HOL-Library.Multiset"
begin

text \<open>
  \<open>src/indexer/settlement-compactor.ts\<close>: groups of uncompacted settlement events become one summary
  row per contract and ledger window. Rows with equal ledgers keep the order of the table, which
  the query leaves open. The four settings come from the environment; the defaults are
  \<open>default_cfg\<close>. A transaction that fails is not modelled.
\<close>

section \<open>Tables\<close>

text \<open>A field of a decoded payload; a number is kept as the text that \<open>String\<close> gives for it.\<close>

datatype settle_val = SText string | SNumber string | SNull | SOther

record settle_event =
  se_id :: string
  se_contract :: string
  se_type :: string
  se_ledger :: nat
  se_close :: int
  se_decoded :: "(string, settle_val) jsmap option"
  se_compacted :: bool

record batch_summary =
  bs_contract :: string
  bs_window :: int
  bs_ledgerMin :: int
  bs_ledgerMax :: int
  bs_windowStart :: int
  bs_windowEnd :: int
  bs_count :: nat
  bs_total :: nat
  bs_parties :: nat

record settle_db =
  settle_events :: "settle_event list"
  summaries :: "batch_summary list"

record compactor_cfg =
  WINDOW_SIZE :: nat
  MIN_EVENTS :: nat
  BATCH_LIMIT :: nat

definition default_cfg :: compactor_cfg where
  "default_cfg = \<lparr>WINDOW_SIZE = 100, MIN_EVENTS = 10, BATCH_LIMIT = 5000\<rparr>"

section \<open>The run\<close>

definition fetch_events :: "compactor_cfg \<Rightarrow> settle_db \<Rightarrow> settle_event list" where
  "fetch_events cfg db =
     take (BATCH_LIMIT cfg)
       (sort_key se_ledger (filter (\<lambda>e. se_type e = ''settlement'' \<and> \<not> se_compacted e) (settle_events db)))"

definition group_key :: "compactor_cfg \<Rightarrow> settle_event \<Rightarrow> string" where
  "group_key cfg ev = se_contract ev @ ''::'' @ dec_nat (se_ledger ev div WINDOW_SIZE cfg)"

definition add_to_group ::
    "compactor_cfg \<Rightarrow> settle_event \<Rightarrow> (string, settle_event list) jsmap \<Rightarrow> (string, settle_event list) jsmap" where
  "add_to_group cfg ev m =
     (let k = group_key cfg ev
      in jm_set k ((case jm_get m k of None \<Rightarrow> [] | Some b \<Rightarrow> b) @ [ev]) m)"

definition group_events :: "compactor_cfg \<Rightarrow> settle_event list \<Rightarrow> (string, settle_event list) jsmap" where
  "group_events cfg evs = fold (add_to_group cfg) evs []"

text \<open>\<open>key.split('::')\<close>\<close>

fun split_colons :: "string \<Rightarrow> string list" where
  "split_colons (c # d # cs) =
     (if c = CHR '':'' \<and> d = CHR '':'' then [] # split_colons cs
      else (case split_colons (d # cs) of [] \<Rightarrow> [[c]] | p # ps \<Rightarrow> (c # p) # ps))"
| "split_colons s = [s]"

definition key_contract :: "string \<Rightarrow> string" where
  "key_contract key = hd (split_colons key)"

definition key_window :: "string \<Rightarrow> int" where
  "key_window key =
     (case split_colons key of _ # s # _ \<Rightarrow> (case js_number s of Fin q \<Rightarrow> \<lfloor>q\<rfloor> | _ \<Rightarrow> 0) | _ \<Rightarrow> 0)"

text \<open>A chain of \<open>??\<close> over fields.\<close>

fun first_present :: "(string, settle_val) jsmap \<Rightarrow> string list \<Rightarrow> settle_val option" where
  "first_present m [] = None"
| "first_present m (k # ks) =
     (case jm_get m k of None \<Rightarrow> first_present m ks | Some SNull \<Rightarrow> first_present m ks | Some v \<Rightarrow> Some v)"

definition amount_of :: "settle_event \<Rightarrow> nat" where
  "amount_of ev =
     (case se_decoded ev of None \<Rightarrow> 0
      | Some d \<Rightarrow>
          (case first_present d [''amount'', ''settlement_amount'', ''value''] of
             Some (SText s) \<Rightarrow> val_digits (filter is_digit s)
           | Some (SNumber s) \<Rightarrow> val_digits (filter is_digit s)
           | _ \<Rightarrow> 0))"

definition parties_of :: "settle_event \<Rightarrow> string list" where
  "parties_of ev =
     (case se_decoded ev of None \<Rightarrow> []
      | Some d \<Rightarrow> concat (map (\<lambda>f. case jm_get d f of Some (SText s) \<Rightarrow> [s] | _ \<Rightarrow> [])
          [''from'', ''to'', ''seller'', ''buyer'', ''sender'', ''receiver'']))"

definition summary_key :: "batch_summary \<Rightarrow> string \<times> int" where
  "summary_key s = (bs_contract s, bs_window s)"

text \<open>The row that the upsert leaves: a new one, or the old one with its \<open>windowStart\<close>.\<close>

definition batch_row ::
    "compactor_cfg \<Rightarrow> string \<times> int \<Rightarrow> settle_event list \<Rightarrow> batch_summary option \<Rightarrow> batch_summary" where
  "batch_row cfg cw batch old =
     (let ledgerMin = snd cw * int (WINDOW_SIZE cfg) in
      \<lparr>bs_contract = fst cw, bs_window = snd cw, bs_ledgerMin = ledgerMin,
       bs_ledgerMax = ledgerMin + int (WINDOW_SIZE cfg) - 1,
       bs_windowStart = (case old of None \<Rightarrow> se_close (hd batch) | Some s \<Rightarrow> bs_windowStart s),
       bs_windowEnd = se_close (last batch),
       bs_count = length batch,
       bs_total = foldl (\<lambda>acc ev. acc + amount_of ev) 0 batch,
       bs_parties = length (fold (\<lambda>ev s. fold js_add (parties_of ev) s) batch [])\<rparr>)"

definition upsert_summary ::
    "compactor_cfg \<Rightarrow> string \<times> int \<Rightarrow> settle_event list \<Rightarrow> batch_summary list \<Rightarrow> batch_summary list" where
  "upsert_summary cfg cw batch rows =
     (case tbl_find summary_key cw rows of
        None \<Rightarrow> rows @ [batch_row cfg cw batch None]
      | Some old \<Rightarrow> tbl_update summary_key cw (\<lambda>s. batch_row cfg cw batch (Some s)) rows)"

definition mark_compacted :: "string list \<Rightarrow> settle_event list \<Rightarrow> settle_event list" where
  "mark_compacted ids evs = map (\<lambda>e. if se_id e \<in> set ids then e\<lparr>se_compacted := True\<rparr> else e) evs"

definition compact_group :: "compactor_cfg \<Rightarrow> string \<times> settle_event list \<Rightarrow> settle_db \<Rightarrow> settle_db" where
  "compact_group cfg g db =
     (case g of (key, batch) \<Rightarrow>
        if length batch < MIN_EVENTS cfg then db
        else db\<lparr>summaries := upsert_summary cfg (key_contract key, key_window key) batch (summaries db),
                settle_events := mark_compacted (map se_id batch) (settle_events db)\<rparr>)"

definition runCompactor :: "compactor_cfg \<Rightarrow> settle_db \<Rightarrow> settle_db" where
  "runCompactor cfg db =
     (let events = fetch_events cfg db
      in if events = [] then db else fold (compact_group cfg) (group_events cfg events) db)"

section \<open>Groups\<close>

abbreviation batch_of :: "compactor_cfg \<Rightarrow> string \<Rightarrow> settle_event list \<Rightarrow> settle_event list" where
  "batch_of cfg k evs \<equiv> filter (\<lambda>e. group_key cfg e = k) evs"

lemma group_events_snoc: "group_events cfg (evs @ [e]) = add_to_group cfg e (group_events cfg evs)"
  by (simp add: group_events_def)

lemma group_events_get:
  "jm_get (group_events cfg evs) k = (if batch_of cfg k evs = [] then None else Some (batch_of cfg k evs))"
  by (induction evs rule: rev_induct)
    (auto simp: group_events_def [of cfg "[]"] group_events_snoc add_to_group_def Let_def)

lemma group_events_ok: "jm_ok (group_events cfg evs)"
  by (induction evs rule: rev_induct)
    (simp_all add: group_events_def [of cfg "[]"] group_events_snoc add_to_group_def Let_def)

lemma group_events_mem:
  "(k, b) \<in> set (group_events cfg evs) \<longleftrightarrow> b = batch_of cfg k evs \<and> b \<noteq> []"
proof
  assume "(k, b) \<in> set (group_events cfg evs)"
  then have "jm_get (group_events cfg evs) k = Some b" by (rule jm_ok_get_eq [OF group_events_ok])
  then show "b = batch_of cfg k evs \<and> b \<noteq> []" by (auto simp: group_events_get split: if_splits)
next
  assume "b = batch_of cfg k evs \<and> b \<noteq> []"
  then have "jm_get (group_events cfg evs) k = Some b" by (metis group_events_get)
  then show "(k, b) \<in> set (group_events cfg evs)" by (rule jm_get_in_set)
qed

text \<open>Keys are read back as they were written.\<close>

lemma split_colons_none: "CHR '':'' \<notin> set s \<Longrightarrow> split_colons s = [s]"
  by (induction s rule: split_colons.induct) auto

lemma split_colons_append: "CHR '':'' \<notin> set p \<Longrightarrow> split_colons (p @ CHR '':'' # CHR '':'' # s) = p # split_colons s"
proof (induction p)
  case (Cons c p)
  then show ?case by (cases p) auto
qed simp

lemma colon_not_digit [simp]: "\<not> is_digit (CHR '':'')"
  by (simp add: is_digit_def)

lemma key_parts:
  assumes "CHR '':'' \<notin> set (se_contract e)"
  shows "key_contract (group_key cfg e) = se_contract e"
    "key_window (group_key cfg e) = int (se_ledger e div WINDOW_SIZE cfg)"
proof -
  have "split_colons (group_key cfg e) = [se_contract e, dec_nat (se_ledger e div WINDOW_SIZE cfg)]"
    using split_colons_append [OF assms, of "dec_nat (se_ledger e div WINDOW_SIZE cfg)"]
    by (simp add: group_key_def split_colons_none)
  then show "key_contract (group_key cfg e) = se_contract e"
    "key_window (group_key cfg e) = int (se_ledger e div WINDOW_SIZE cfg)"
    by (simp_all add: key_contract_def key_window_def)
qed

lemma group_key_iff:
  assumes "CHR '':'' \<notin> set (se_contract e)" "CHR '':'' \<notin> set (se_contract f)"
  shows "group_key cfg e = group_key cfg f \<longleftrightarrow>
    se_contract e = se_contract f \<and> se_ledger e div WINDOW_SIZE cfg = se_ledger f div WINDOW_SIZE cfg"
  using key_parts [OF assms(1), of cfg] key_parts [OF assms(2), of cfg] by (auto simp: group_key_def)

section \<open>What a run leaves\<close>

lemma mark_mark: "mark_compacted is (mark_compacted js evs) = mark_compacted (is @ js) evs"
  by (auto simp: mark_compacted_def)

definition big_ids :: "compactor_cfg \<Rightarrow> (string \<times> settle_event list) list \<Rightarrow> string list" where
  "big_ids cfg gs = concat (map (\<lambda>g. if length (snd g) < MIN_EVENTS cfg then [] else map se_id (snd g)) gs)"

lemma mark_cong: "set is = set js \<Longrightarrow> mark_compacted is = mark_compacted js"
  by (simp add: mark_compacted_def fun_eq_iff)

lemma fold_compact_events:
  "settle_events (fold (compact_group cfg) gs db) = mark_compacted (big_ids cfg gs) (settle_events db)"
proof (induction gs arbitrary: db)
  case Nil
  show ?case by (simp add: mark_compacted_def big_ids_def)
next
  case (Cons g gs)
  have "settle_events (compact_group cfg g db) = mark_compacted (big_ids cfg [g]) (settle_events db)"
    by (cases g) (simp add: compact_group_def big_ids_def mark_compacted_def)
  moreover have "set (big_ids cfg gs @ big_ids cfg [g]) = set (big_ids cfg (g # gs))"
    by (auto simp: big_ids_def)
  note this [THEN mark_cong]
  ultimately show ?case by (simp only: fold.simps o_apply Cons.IH mark_mark)
qed

lemma batch_row_key: "summary_key (batch_row cfg cw b old) = cw"
  by (simp add: batch_row_def summary_key_def Let_def)

lemma find_upsert:
  "tbl_find summary_key cw (upsert_summary cfg cw' b rows) =
    (if cw = cw' then Some (batch_row cfg cw b (tbl_find summary_key cw rows)) else tbl_find summary_key cw rows)"
proof -
  have app: "tbl_find summary_key cw (rows @ [r]) = (case tbl_find summary_key cw rows of
      None \<Rightarrow> if summary_key r = cw then Some r else None | Some s \<Rightarrow> Some s)" for r cw
    by (induction rows) (auto simp: tbl_find_def)
  have upd: "tbl_find summary_key cw (tbl_update summary_key cw' (\<lambda>s. batch_row cfg cw' b (Some s)) rows) =
      (if cw = cw' then map_option (\<lambda>s. batch_row cfg cw' b (Some s)) (tbl_find summary_key cw rows)
       else tbl_find summary_key cw rows)" for cw
    by (induction rows) (auto simp: tbl_find_def tbl_update_def batch_row_key)
  show ?thesis
    by (cases "cw = cw'"; cases "tbl_find summary_key cw' rows"; cases "tbl_find summary_key cw rows")
      (simp_all add: upsert_summary_def app upd batch_row_key)
qed

definition group_id :: "string \<times> settle_event list \<Rightarrow> string \<times> int" where
  "group_id g = (key_contract (fst g), key_window (fst g))"

lemma fold_compact_summaries:
  "distinct (map group_id gs) \<Longrightarrow>
    tbl_find summary_key cw (summaries (fold (compact_group cfg) gs db)) =
    (case List.find (\<lambda>g. group_id g = cw \<and> \<not> length (snd g) < MIN_EVENTS cfg) gs of
       None \<Rightarrow> tbl_find summary_key cw (summaries db)
     | Some g \<Rightarrow> Some (batch_row cfg cw (snd g) (tbl_find summary_key cw (summaries db))))"
proof (induction gs arbitrary: db)
  case (Cons g gs)
  have s: "tbl_find summary_key cw (summaries (compact_group cfg g db)) =
      (if group_id g = cw \<and> \<not> length (snd g) < MIN_EVENTS cfg
       then Some (batch_row cfg cw (snd g) (tbl_find summary_key cw (summaries db)))
       else tbl_find summary_key cw (summaries db))"
    by (cases g) (auto simp: compact_group_def find_upsert group_id_def)
  have none: "List.find (\<lambda>g. group_id g = cw \<and> \<not> length (snd g) < MIN_EVENTS cfg) gs = None" if "group_id g = cw"
  proof -
    have "group_id g \<notin> group_id ` set gs" using Cons.prems by simp
    then have "\<forall>g' \<in> set gs. group_id g' \<noteq> cw" using that by (metis image_eqI)
    then show ?thesis unfolding find_None_iff by blast
  qed
  have IH: "tbl_find summary_key cw (summaries (fold (compact_group cfg) gs (compact_group cfg g db))) =
      (case List.find (\<lambda>g. group_id g = cw \<and> \<not> length (snd g) < MIN_EVENTS cfg) gs of
         None \<Rightarrow> tbl_find summary_key cw (summaries (compact_group cfg g db))
       | Some h \<Rightarrow> Some (batch_row cfg cw (snd h) (tbl_find summary_key cw (summaries (compact_group cfg g db)))))"
    using Cons.prems by (intro Cons.IH) simp
  show ?case
  proof (cases "group_id g = cw")
    case True
    then show ?thesis using IH none [OF True] s by (cases "length (snd g) < MIN_EVENTS cfg") simp_all
  next
    case False
    then show ?thesis using IH s by (simp cong: option.case_cong)
  qed
qed simp

lemma fold_amounts: "foldl (\<lambda>acc ev. acc + amount_of ev) n evs = n + (\<Sum>ev \<leftarrow> evs. amount_of ev)"
  by (induction evs arbitrary: n) simp_all

lemma party_count:
  "length (fold (\<lambda>ev s. fold js_add (parties_of ev) s) evs []) = card (\<Union>ev \<in> set evs. set (parties_of ev))"
proof -
  have "distinct (fold (\<lambda>ev s. fold js_add (parties_of ev) s) evs s) \<and>
      set (fold (\<lambda>ev s. fold js_add (parties_of ev) s) evs s) = (\<Union>ev \<in> set evs. set (parties_of ev)) \<union> set s"
    if "distinct s" for s
    using that by (induction evs arbitrary: s) auto
  from this [of "[]"] show ?thesis by (metis distinct.simps(1) distinct_card empty_set sup_bot_right)
qed

text \<open>The events of a window among those that a run fetches.\<close>

definition window_batch :: "compactor_cfg \<Rightarrow> settle_db \<Rightarrow> string \<Rightarrow> nat \<Rightarrow> settle_event list" where
  "window_batch cfg db c w =
     filter (\<lambda>e. se_contract e = c \<and> se_ledger e div WINDOW_SIZE cfg = w) (fetch_events cfg db)"

definition plain_addresses :: "settle_db \<Rightarrow> bool" where
  "plain_addresses db = (\<forall>e \<in> set (settle_events db). CHR '':'' \<notin> set (se_contract e))"

lemma fetch_sub: "set (fetch_events cfg db) \<subseteq> set (settle_events db)"
  unfolding fetch_events_def by (auto dest: in_set_takeD)

lemma window_batch_key:
  assumes "plain_addresses db" "e \<in> set (fetch_events cfg db)"
  shows "batch_of cfg (group_key cfg e) (fetch_events cfg db) =
    window_batch cfg db (se_contract e) (se_ledger e div WINDOW_SIZE cfg)"
proof -
  have p: "CHR '':'' \<notin> set (se_contract f)" if "f \<in> set (fetch_events cfg db)" for f
    using that assms(1) fetch_sub by (auto simp: plain_addresses_def)
  show ?thesis unfolding window_batch_def
    by (rule filter_cong [OF refl]) (use p assms(2) group_key_iff in blast)
qed

lemma find_distinct:
  "distinct (map f gs) \<Longrightarrow> g \<in> set gs \<Longrightarrow> f g = x \<Longrightarrow> P g \<Longrightarrow> List.find (\<lambda>g. f g = x \<and> P g) gs = Some g"
proof (induction gs)
  case (Cons h gs)
  then show ?case by (cases "h = g") (auto intro: rev_image_eqI)
qed simp

lemma in_batch: "batch_of cfg k evs \<noteq> [] \<Longrightarrow> \<exists>e \<in> set evs. group_key cfg e = k"
  by (simp add: filter_empty_conv)

lemma group_from_event:
  assumes plain: "plain_addresses db" and g: "g \<in> set (group_events cfg (fetch_events cfg db))"
  obtains e where "e \<in> set (fetch_events cfg db)" "fst g = group_key cfg e"
    "group_id g = (se_contract e, int (se_ledger e div WINDOW_SIZE cfg))"
    "snd g = window_batch cfg db (se_contract e) (se_ledger e div WINDOW_SIZE cfg)"
proof -
  let ?F = "fetch_events cfg db"
  have b: "snd g = batch_of cfg (fst g) ?F" "snd g \<noteq> []" using g group_events_mem [of "fst g" "snd g"] by auto
  then obtain e where e: "e \<in> set ?F" "group_key cfg e = fst g" using in_batch by metis
  have "CHR '':'' \<notin> set (se_contract e)" using plain e(1) fetch_sub by (auto simp: plain_addresses_def)
  from key_parts [OF this, of cfg] window_batch_key [OF plain e(1)] e b(1) show ?thesis
    by (intro that [of e]) (simp_all add: group_id_def)
qed

lemma group_ids_distinct:
  assumes plain: "plain_addresses db"
  shows "distinct (map group_id (group_events cfg (fetch_events cfg db)))"
proof -
  let ?gs = "group_events cfg (fetch_events cfg db)"
  have keys: "distinct (map fst ?gs)" using group_events_ok by (simp add: jm_ok_def)
  have "inj_on group_id (set ?gs)"
  proof (rule inj_onI)
    fix g h assume g: "g \<in> set ?gs" "h \<in> set ?gs" and eq: "group_id g = group_id h"
    obtain e where e: "fst g = group_key cfg e" "group_id g = (se_contract e, int (se_ledger e div WINDOW_SIZE cfg))"
      by (rule group_from_event [OF plain g(1)]) blast
    obtain f where f: "fst h = group_key cfg f" "group_id h = (se_contract f, int (se_ledger f div WINDOW_SIZE cfg))"
      by (rule group_from_event [OF plain g(2)]) blast
    have "fst g = fst h" using e f eq by (simp add: group_key_def)
    then show "g = h" using inj_onD [OF conjunct2 [OF iffD1 [OF distinct_map keys]] _ g] by blast
  qed
  moreover have "distinct ?gs" using keys distinct_map by blast
  ultimately show ?thesis by (simp add: distinct_map)
qed

lemma find_window:
  assumes plain: "plain_addresses db"
  shows "List.find (\<lambda>g. group_id g = (c, int w) \<and> \<not> length (snd g) < MIN_EVENTS cfg) (group_events cfg (fetch_events cfg db)) =
    (let b = window_batch cfg db c w in
     if b \<noteq> [] \<and> MIN_EVENTS cfg \<le> length b then Some (c @ ''::'' @ dec_nat w, b) else None)"
proof -
  let ?gs = "group_events cfg (fetch_events cfg db)" and ?b = "window_batch cfg db c w"
  show ?thesis
  proof (cases "?b \<noteq> [] \<and> MIN_EVENTS cfg \<le> length ?b")
    case True
    then obtain e where "e \<in> set ?b" by (cases ?b) auto
    then have e: "e \<in> set (fetch_events cfg db)" "se_contract e = c" "se_ledger e div WINDOW_SIZE cfg = w"
      by (auto simp: window_batch_def)
    then have k: "group_key cfg e = c @ ''::'' @ dec_nat w" by (simp add: group_key_def)
    have "?b = batch_of cfg (group_key cfg e) (fetch_events cfg db)" using window_batch_key [OF plain e(1)] e by simp
    then have m: "(group_key cfg e, ?b) \<in> set ?gs" using True group_events_mem by metis
    have "CHR '':'' \<notin> set c" using plain e(1,2) fetch_sub by (auto simp: plain_addresses_def)
    then have "group_id (group_key cfg e, ?b) = (c, int w)"
      using key_parts [of e cfg] e by (simp add: group_id_def)
    from find_distinct [OF group_ids_distinct [OF plain] m this, of "\<lambda>g. \<not> length (snd g) < MIN_EVENTS cfg"] True k
    show ?thesis by (simp add: Let_def)
  next
    case False
    have "\<not> (group_id g = (c, int w) \<and> \<not> length (snd g) < MIN_EVENTS cfg)" if gm: "g \<in> set ?gs" for g
    proof
      assume g: "group_id g = (c, int w) \<and> \<not> length (snd g) < MIN_EVENTS cfg"
      obtain e :: settle_event where e: "group_id g = (se_contract e, int (se_ledger e div WINDOW_SIZE cfg))"
        "snd g = window_batch cfg db (se_contract e) (se_ledger e div WINDOW_SIZE cfg)"
        by (rule group_from_event [OF plain gm]) blast
      then have "snd g = ?b" using g by simp
      moreover have "snd g \<noteq> []" using gm group_events_mem by (metis prod.collapse)
      ultimately show False using g False by simp
    qed
    then show ?thesis using False by (auto simp: find_None_iff Let_def)
  qed
qed

lemma runCompactor_fold:
  "runCompactor cfg db = fold (compact_group cfg) (group_events cfg (fetch_events cfg db)) db"
  by (simp add: runCompactor_def Let_def group_events_def)

lemma mark_fetched:
  assumes "plain_addresses db" "distinct (map se_id (settle_events db))" "e \<in> set (settle_events db)"
  shows "se_id e \<in> set (big_ids cfg (group_events cfg (fetch_events cfg db))) \<longleftrightarrow>
    e \<in> set (fetch_events cfg db) \<and>
    MIN_EVENTS cfg \<le> length (window_batch cfg db (se_contract e) (se_ledger e div WINDOW_SIZE cfg))"
proof
  assume "se_id e \<in> set (big_ids cfg (group_events cfg (fetch_events cfg db)))"
  then obtain k b f where f: "(k, b) \<in> set (group_events cfg (fetch_events cfg db))" "MIN_EVENTS cfg \<le> length b"
    "f \<in> set b" "se_id f = se_id e"
    by (auto simp: big_ids_def split: if_splits)
  have b: "b = batch_of cfg k (fetch_events cfg db)" using f(1) group_events_mem by blast
  then have ff: "f \<in> set (fetch_events cfg db)" "k = group_key cfg f" using f(3) by auto
  moreover have "f = e"
    using assms(2,3) f(4) ff(1) fetch_sub by (auto simp: distinct_map dest: inj_onD)
  ultimately show "e \<in> set (fetch_events cfg db) \<and>
    MIN_EVENTS cfg \<le> length (window_batch cfg db (se_contract e) (se_ledger e div WINDOW_SIZE cfg))"
    using window_batch_key [OF assms(1), of e cfg] b f(2) by simp
next
  assume e: "e \<in> set (fetch_events cfg db) \<and>
    MIN_EVENTS cfg \<le> length (window_batch cfg db (se_contract e) (se_ledger e div WINDOW_SIZE cfg))"
  let ?b = "batch_of cfg (group_key cfg e) (fetch_events cfg db)"
  have "e \<in> set ?b" using e by simp
  moreover from this have "?b \<noteq> []" by (metis empty_iff empty_set)
  then have "(group_key cfg e, ?b) \<in> set (group_events cfg (fetch_events cfg db))"
    using group_events_mem by blast
  moreover have "\<not> length ?b < MIN_EVENTS cfg" using e window_batch_key [OF assms(1), of e cfg] by simp
  ultimately show "se_id e \<in> set (big_ids cfg (group_events cfg (fetch_events cfg db)))"
    by (auto simp: big_ids_def intro!: bexI [of _ "(group_key cfg e, ?b)"])
qed

text \<open>C13: What a run of the compactor leaves: of the uncompacted settlement events that it fetches, those of a
  contract and ledger window with enough fetched events are marked and no others; and the
  summary of every contract and window is the one of its fetched events (their number, total
  amount, distinct parties and times) when there are enough of them, and is unchanged otherwise.
  An earlier summary of the window is replaced and only keeps its start time.\<close>

theorem compaction_exact:
  assumes "plain_addresses db" "distinct (map se_id (settle_events db))"
  shows "settle_events (runCompactor cfg db) =
      map (\<lambda>e. if e \<in> set (fetch_events cfg db) \<and>
          MIN_EVENTS cfg \<le> length (window_batch cfg db (se_contract e) (se_ledger e div WINDOW_SIZE cfg))
        then e\<lparr>se_compacted := True\<rparr> else e) (settle_events db) \<and>
    (\<forall>c w. let b = window_batch cfg db c w; old = tbl_find summary_key (c, int w) (summaries db) in
      tbl_find summary_key (c, int w) (summaries (runCompactor cfg db)) =
       (if b = [] \<or> length b < MIN_EVENTS cfg then old else Some
         \<lparr>bs_contract = c, bs_window = int w, bs_ledgerMin = int (w * WINDOW_SIZE cfg),
          bs_ledgerMax = int (w * WINDOW_SIZE cfg) + int (WINDOW_SIZE cfg) - 1,
          bs_windowStart = (case old of None \<Rightarrow> se_close (hd b) | Some s \<Rightarrow> bs_windowStart s),
          bs_windowEnd = se_close (last b), bs_count = length b,
          bs_total = (\<Sum>e \<leftarrow> b. amount_of e), bs_parties = card (\<Union>e \<in> set b. set (parties_of e))\<rparr>))"
proof
  show "settle_events (runCompactor cfg db) =
      map (\<lambda>e. if e \<in> set (fetch_events cfg db) \<and>
          MIN_EVENTS cfg \<le> length (window_batch cfg db (se_contract e) (se_ledger e div WINDOW_SIZE cfg))
        then e\<lparr>se_compacted := True\<rparr> else e) (settle_events db)"
    unfolding runCompactor_fold fold_compact_events mark_compacted_def
    by (rule map_cong [OF refl]) (simp add: mark_fetched [OF assms])
next
  show "\<forall>c w. let b = window_batch cfg db c w; old = tbl_find summary_key (c, int w) (summaries db) in
      tbl_find summary_key (c, int w) (summaries (runCompactor cfg db)) =
       (if b = [] \<or> length b < MIN_EVENTS cfg then old else Some
         \<lparr>bs_contract = c, bs_window = int w, bs_ledgerMin = int (w * WINDOW_SIZE cfg),
          bs_ledgerMax = int (w * WINDOW_SIZE cfg) + int (WINDOW_SIZE cfg) - 1,
          bs_windowStart = (case old of None \<Rightarrow> se_close (hd b) | Some s \<Rightarrow> bs_windowStart s),
          bs_windowEnd = se_close (last b), bs_count = length b,
          bs_total = (\<Sum>e \<leftarrow> b. amount_of e), bs_parties = card (\<Union>e \<in> set b. set (parties_of e))\<rparr>)"
    unfolding runCompactor_fold fold_compact_summaries [OF group_ids_distinct [OF assms(1)]]
      find_window [OF assms(1)]
    by (auto simp: Let_def batch_row_def fold_amounts party_count)
qed

definition demo_event :: "string \<Rightarrow> string \<Rightarrow> nat \<Rightarrow> string \<Rightarrow> settle_event" where
  "demo_event i c ledger amount =
     \<lparr>se_id = i, se_contract = c, se_type = ''settlement'', se_ledger = ledger, se_close = int ledger,
      se_decoded = Some [(''amount'', SText amount), (''from'', SText ''A''), (''to'', SText i)],
      se_compacted = False\<rparr>"

definition pair_cfg :: compactor_cfg where
  "pair_cfg = \<lparr>WINDOW_SIZE = 100, MIN_EVENTS = 2, BATCH_LIMIT = 2\<rparr>"

definition demo_db :: settle_db where
  "demo_db = \<lparr>settle_events = [demo_event ''x'' ''C'' 101 ''5'', demo_event ''y'' ''C'' 102 ''7'',
     demo_event ''z'' ''C'' 103 ''9'', demo_event ''w'' ''C'' 104 ''11''], summaries = []\<rparr>"

theorem compaction_exact_witness:
  "map bs_total (summaries (runCompactor pair_cfg demo_db)) = [12] \<and>
   tbl_find summary_key (''C'', 1) (summaries (runCompactor pair_cfg demo_db)) \<noteq> None \<and>
   map se_compacted (settle_events (runCompactor pair_cfg demo_db)) = [True, True, False, False]"
proof -
  have a: "plain_addresses demo_db" "distinct (map se_id (settle_events demo_db))"
    by (simp_all add: plain_addresses_def demo_db_def demo_event_def)
  have b: "window_batch pair_cfg demo_db ''C'' 1 = [demo_event ''x'' ''C'' 101 ''5'', demo_event ''y'' ''C'' 102 ''7'']"
    by code_simp
  have "tbl_find summary_key (''C'', int 1) (summaries (runCompactor pair_cfg demo_db)) \<noteq> None"
    using compaction_exact [OF a, of pair_cfg, THEN conjunct2, rule_format, of "''C''" 1, unfolded b Let_def]
    by (simp add: pair_cfg_def)
  moreover have "map bs_total (summaries (runCompactor pair_cfg demo_db)) = [12]"
    "map se_compacted (settle_events (runCompactor pair_cfg demo_db)) = [True, True, False, False]"
    by code_simp+
  ultimately show ?thesis by simp
qed

text \<open>A window that is compacted in two parts is undercounted: four events of one window and 32 units are
  all marked as compacted after two runs of two events, and the only summary tells of two events
  and 20 units.\<close>

theorem split_window_undercounted:
  "let db = runCompactor pair_cfg (runCompactor pair_cfg demo_db) in
     map se_compacted (settle_events db) = [True, True, True, True] \<and>
     map (\<lambda>s. (bs_window s, bs_count s, bs_total s)) (summaries db) = [(1, 2, 20)] \<and>
     (\<Sum>e \<leftarrow> settle_events db. amount_of e) = 32"
  by code_simp

lemma take_sort_append:
  assumes "\<forall>x \<in> set (take n (sort_key f xs)). \<forall>y \<in> set ys. f x \<le> (f y :: nat)" "n \<le> length xs"
  shows "take n (sort_key f (xs @ ys)) = take n (sort_key f xs)"
proof -
  let ?T = "take n (sort_key f xs)" and ?R = "drop n (sort_key f xs)"
  have s: "sort_key f xs = ?T @ ?R" by simp
  have "sort_key f (xs @ ys) = ?T @ sort_key f (?R @ ys)"
  proof (rule properties_for_sort_key)
    show "mset (?T @ sort_key f (?R @ ys)) = mset (xs @ ys)"
    proof -
      have "mset ?T + mset ?R = mset xs" by (metis s mset_append mset_sort)
      then show ?thesis by simp
    qed
  next
    fix k
    show "filter (\<lambda>x. f k = f x) (?T @ sort_key f (?R @ ys)) = filter (\<lambda>x. f k = f x) (xs @ ys)"
    proof -
      have "filter (\<lambda>x. f k = f x) (sort_key f zs) = filter (\<lambda>x. f k = f x) zs" for zs
        using sort_key_stable [of f "f k" zs] by (simp add: eq_commute)
      then show ?thesis by (metis (no_types, lifting) append_assoc filter_append s)
    qed
  next
    have "sorted (map f ?T @ map f ?R)" by (metis map_append s sorted_sort_key)
    then show "sorted (map f (?T @ sort_key f (?R @ ys)))"
      using assms(1) by (simp add: sorted_append) blast
  qed
  then show ?thesis using assms(2) by simp
qed

text \<open>Sparse windows starve the compactor: when the oldest events, as many as one run fetches, all belong to
  windows with too few of them, no run ever changes anything, whatever later events are added.\<close>

theorem compactor_starves:
  assumes "plain_addresses db"
    "length (fetch_events cfg db) = BATCH_LIMIT cfg"
    "\<forall>e \<in> set (fetch_events cfg db).
       length (window_batch cfg db (se_contract e) (se_ledger e div WINDOW_SIZE cfg)) < MIN_EVENTS cfg"
    "\<forall>e \<in> set (fetch_events cfg db). \<forall>l \<in> set later. se_ledger e \<le> se_ledger l"
  shows "(runCompactor cfg ^^ n) (db\<lparr>settle_events := settle_events db @ later\<rparr>) =
    db\<lparr>settle_events := settle_events db @ later\<rparr>"
proof -
  let ?db = "db\<lparr>settle_events := settle_events db @ later\<rparr>"
  have len: "BATCH_LIMIT cfg \<le> length (filter (\<lambda>e. se_type e = ''settlement'' \<and> \<not> se_compacted e) (settle_events db))"
    using assms(2) by (simp add: fetch_events_def)
  have f: "fetch_events cfg ?db = fetch_events cfg db"
    using assms(4) unfolding fetch_events_def by (simp add: take_sort_append len)
  have small: "\<forall>g \<in> set (group_events cfg (fetch_events cfg db)). length (snd g) < MIN_EVENTS cfg"
  proof
    fix g assume "g \<in> set (group_events cfg (fetch_events cfg db))"
    from group_from_event [OF assms(1) this] assms(3) show "length (snd g) < MIN_EVENTS cfg" by metis
  qed
  have "fold (compact_group cfg) gs d = d" if "\<forall>g \<in> set gs. length (snd g) < MIN_EVENTS cfg" for gs d
    using that by (induction gs) (auto simp: compact_group_def)
  from this [of "group_events cfg (fetch_events cfg db)"] have "runCompactor cfg ?db = ?db"
    unfolding runCompactor_fold f using small by simp
  then show ?thesis by (induction n) simp_all
qed

theorem compactor_starves_witness:
  "(runCompactor pair_cfg ^^ 1000)
     \<lparr>settle_events = [demo_event ''x'' ''C'' 1 ''5'', demo_event ''y'' ''D'' 1 ''5'',
        demo_event ''z'' ''E'' 1 ''1'', demo_event ''w'' ''E'' 1 ''1''], summaries = []\<rparr> =
     \<lparr>settle_events = [demo_event ''x'' ''C'' 1 ''5'', demo_event ''y'' ''D'' 1 ''5'',
        demo_event ''z'' ''E'' 1 ''1'', demo_event ''w'' ''E'' 1 ''1''], summaries = []\<rparr>"
proof -
  let ?db = "\<lparr>settle_events = [demo_event ''x'' ''C'' 1 ''5'', demo_event ''y'' ''D'' 1 ''5''], summaries = []\<rparr>"
  have f: "fetch_events pair_cfg ?db = [demo_event ''x'' ''C'' 1 ''5'', demo_event ''y'' ''D'' 1 ''5'']"
    and w: "\<forall>e \<in> set [demo_event ''x'' ''C'' 1 ''5'', demo_event ''y'' ''D'' 1 ''5''].
      length (window_batch pair_cfg ?db (se_contract e) (se_ledger e div WINDOW_SIZE pair_cfg)) < MIN_EVENTS pair_cfg"
    by code_simp+
  have "(runCompactor pair_cfg ^^ 1000) (?db\<lparr>settle_events := settle_events ?db @
      [demo_event ''z'' ''E'' 1 ''1'', demo_event ''w'' ''E'' 1 ''1'']\<rparr>) =
    ?db\<lparr>settle_events := settle_events ?db @ [demo_event ''z'' ''E'' 1 ''1'', demo_event ''w'' ''E'' 1 ''1'']\<rparr>"
  proof (rule compactor_starves)
    show "length (fetch_events pair_cfg ?db) = BATCH_LIMIT pair_cfg" unfolding f by (simp add: pair_cfg_def)
    show "\<forall>e \<in> set (fetch_events pair_cfg ?db).
      length (window_batch pair_cfg ?db (se_contract e) (se_ledger e div WINDOW_SIZE pair_cfg)) < MIN_EVENTS pair_cfg"
      unfolding f by (rule w)
  qed (simp_all only: f, simp_all add: plain_addresses_def demo_event_def)
  then show ?thesis by simp
qed

end
