(* ===== verification/Upgrade_Invariant.thy ===== *)
theory Upgrade_Invariant
  imports Octra_Prelude
begin

text \<open>
  \<open>src/indexer/upgrade-invariant.ts\<close>: the checks of sample XDR blobs that gate a new protocol
  version. The XDR classes of the SDK are a parameter: for each type, what decoding a blob gives
  (\<open>None\<close> when it throws) and what the accessors that the probes call return. The console output
  of the gate is left out.
\<close>

section \<open>What the probes see of the SDK\<close>

record op_view =
  ov_kind :: string
  ov_arm_ok :: bool

text \<open>Accessors that throw give \<open>None\<close>.\<close>

record envelope_view =
  xe_switch :: string
  xe_v1_ops :: "op_view list option"
  xe_v0_ops :: "op_view list option"

record xdr_sdk =
  envelope_of :: "string \<Rightarrow> envelope_view option"
  result_of :: "string \<Rightarrow> bool option option"
  meta_of :: "string \<Rightarrow> bool option option"
  entry_of :: "string \<Rightarrow> string option option"

text \<open>\<open>result_of\<close>: whether \<open>result()\<close> has a \<open>switch\<close> function; \<open>meta_of\<close>: whether \<open>result()\<close> is
  defined; \<open>entry_of\<close>: the name of the entry's type.\<close>

section \<open>Invariants\<close>

text \<open>A probe may throw (left, with the message) or answer.\<close>

record xdr_invariant =
  inv_name :: string
  inv_probe :: "xdr_sdk \<Rightarrow> string \<Rightarrow> string + bool"

definition caught :: "bool option \<Rightarrow> string + bool" where
  "caught r = Inr (case r of None \<Rightarrow> False | Some b \<Rightarrow> b)"

text \<open>The operations of the third envelope probe: \<open>Some None\<close> is \<open>null\<close>.\<close>

definition sample_ops :: "envelope_view \<Rightarrow> op_view list option option" where
  "sample_ops env =
     (if xe_switch env = ''envelopeTypeTx'' then map_option Some (xe_v1_ops env)
      else if xe_switch env = ''envelopeTypeTxV0'' then map_option Some (xe_v0_ops env)
      else Some None)"

definition ENVELOPE_INVARIANTS :: "xdr_invariant list" where
  "ENVELOPE_INVARIANTS =
     [\<lparr>inv_name = ''envelope:decodable'',
       inv_probe = (\<lambda>sdk b64. caught (map_option (\<lambda>_. True) (envelope_of sdk b64)))\<rparr>,
      \<lparr>inv_name = ''envelope:known-switch'',
       inv_probe = (\<lambda>sdk b64. caught (map_option
         (\<lambda>env. xe_switch env \<in> {''envelopeTypeTx'', ''envelopeTypeTxV0'', ''envelopeTypeTxFeeBump''})
         (envelope_of sdk b64)))\<rparr>,
      \<lparr>inv_name = ''envelope:has-operations'',
       inv_probe = (\<lambda>sdk b64. caught
         (case envelope_of sdk b64 of None \<Rightarrow> None | Some env \<Rightarrow> map_option (\<lambda>ops. ops \<noteq> None) (sample_ops env)))\<rparr>]"

definition RESULT_INVARIANTS :: "xdr_invariant list" where
  "RESULT_INVARIANTS =
     [\<lparr>inv_name = ''result:decodable'',
       inv_probe = (\<lambda>sdk b64. caught (map_option (\<lambda>_. True) (result_of sdk b64)))\<rparr>,
      \<lparr>inv_name = ''result:has-result-union'',
       inv_probe = (\<lambda>sdk b64. caught (case result_of sdk b64 of None \<Rightarrow> None | Some r \<Rightarrow> r))\<rparr>]"

definition RESULT_META_INVARIANTS :: "xdr_invariant list" where
  "RESULT_META_INVARIANTS =
     [\<lparr>inv_name = ''resultMeta:decodable'',
       inv_probe = (\<lambda>sdk b64. caught (map_option (\<lambda>_. True) (meta_of sdk b64)))\<rparr>]"

definition known_types :: "string list" where
  "known_types = [''account'', ''trustline'', ''offer'', ''data'', ''claimableBalance'', ''liquidityPool'',
     ''contractData'', ''contractCode'', ''configSetting'', ''ttl'']"

definition LEDGER_ENTRY_INVARIANTS :: "xdr_invariant list" where
  "LEDGER_ENTRY_INVARIANTS =
     [\<lparr>inv_name = ''ledgerEntry:decodable'',
       inv_probe = (\<lambda>sdk b64. caught (map_option (\<lambda>_. True) (entry_of sdk b64)))\<rparr>,
      \<lparr>inv_name = ''ledgerEntry:known-type'',
       inv_probe = (\<lambda>sdk b64. caught (case entry_of sdk b64 of None \<Rightarrow> None
         | Some t \<Rightarrow> map_option (\<lambda>n. n \<in> set known_types) t))\<rparr>]"

datatype category = EnvelopeXdr | ResultXdr | ResultMetaXdr | LedgerEntryXdr

record version_invariant =
  vi_minVersion :: int
  vi_category :: category
  vi_invariant :: xdr_invariant

text \<open>Every host function operation of a version 1 envelope can be read.\<close>

definition invoke_arms_ok :: "envelope_view \<Rightarrow> bool option" where
  "invoke_arms_ok env =
     (if xe_switch env \<noteq> ''envelopeTypeTx'' then Some True
      else (case xe_v1_ops env of None \<Rightarrow> None
        | Some ops \<Rightarrow> if list_all (\<lambda>op. ov_kind op = ''invokeHostFunction'' \<longrightarrow> ov_arm_ok op) ops then Some True else None))"

definition VERSION_INVARIANTS :: "version_invariant list" where
  "VERSION_INVARIANTS =
     [\<lparr>vi_minVersion = 20, vi_category = EnvelopeXdr,
       vi_invariant = \<lparr>inv_name = ''envelope:soroban-v1-invoke-host-function-arm'',
         inv_probe = (\<lambda>sdk b64. caught
           (case envelope_of sdk b64 of None \<Rightarrow> None | Some env \<Rightarrow> invoke_arms_ok env))\<rparr>\<rparr>,
      \<lparr>vi_minVersion = 21, vi_category = ResultMetaXdr,
       vi_invariant = \<lparr>inv_name = ''resultMeta:v3-soroban-meta-accessible'',
         inv_probe = (\<lambda>sdk b64. caught (case meta_of sdk b64 of None \<Rightarrow> None | Some r \<Rightarrow> r))\<rparr>\<rparr>]"

section \<open>The engine\<close>

record candidates =
  ca_envelope :: "string option"
  ca_result :: "string option"
  ca_resultMeta :: "string option"
  ca_ledgerEntry :: "string option"

fun sample :: "candidates \<Rightarrow> category \<Rightarrow> string option" where
  "sample c EnvelopeXdr = ca_envelope c"
| "sample c ResultXdr = ca_result c"
| "sample c ResultMetaXdr = ca_resultMeta c"
| "sample c LedgerEntryXdr = ca_ledgerEntry c"

text \<open>The three lists that the engine fills.\<close>

record verdict =
  violations :: "(string \<times> string) list"
  passed :: "string list"
  skipped :: "string list"

definition run_one :: "xdr_sdk \<Rightarrow> string \<Rightarrow> xdr_invariant \<Rightarrow> verdict \<Rightarrow> verdict" where
  "run_one sdk blob iv v =
     (case inv_probe iv sdk blob of
        Inr True \<Rightarrow> v\<lparr>passed := passed v @ [inv_name iv]\<rparr>
      | Inr False \<Rightarrow> v\<lparr>violations := violations v @ [(inv_name iv, ''probe returned false'')]\<rparr>
      | Inl err \<Rightarrow> v\<lparr>violations := violations v @ [(inv_name iv, ''probe threw: '' @ err)]\<rparr>)"

definition runInvariants :: "xdr_sdk \<Rightarrow> xdr_invariant list \<Rightarrow> string \<Rightarrow> verdict \<Rightarrow> verdict" where
  "runInvariants sdk invs blob v = fold (run_one sdk blob) invs v"

text \<open>A sample that is present and not the empty string.\<close>

definition given :: "candidates \<Rightarrow> category \<Rightarrow> string option" where
  "given c cat = (case sample c cat of Some [] \<Rightarrow> None | s \<Rightarrow> s)"

definition run_category :: "xdr_sdk \<Rightarrow> candidates \<Rightarrow> category \<times> xdr_invariant list \<Rightarrow> verdict \<Rightarrow> verdict" where
  "run_category sdk c g v =
     (case given c (fst g) of
        Some blob \<Rightarrow> runInvariants sdk (snd g) blob v
      | None \<Rightarrow> v\<lparr>skipped := skipped v @ map inv_name (snd g)\<rparr>)"

definition run_version :: "xdr_sdk \<Rightarrow> candidates \<Rightarrow> int \<Rightarrow> version_invariant \<Rightarrow> verdict \<Rightarrow> verdict" where
  "run_version sdk c nextVersion vi v =
     (if nextVersion < vi_minVersion vi then v\<lparr>skipped := skipped v @ [inv_name (vi_invariant vi)]\<rparr>
      else (case given c (vi_category vi) of
          None \<Rightarrow> v\<lparr>skipped := skipped v @ [inv_name (vi_invariant vi)]\<rparr>
        | Some blob \<Rightarrow> run_one sdk blob (vi_invariant vi) v))"

definition CATEGORIES :: "(category \<times> xdr_invariant list) list" where
  "CATEGORIES =
     [(EnvelopeXdr, ENVELOPE_INVARIANTS), (ResultXdr, RESULT_INVARIANTS),
      (ResultMetaXdr, RESULT_META_INVARIANTS), (LedgerEntryXdr, LEDGER_ENTRY_INVARIANTS)]"

definition verifyUpgradeInvariants :: "xdr_sdk \<Rightarrow> candidates \<Rightarrow> int \<Rightarrow> verdict" where
  "verifyUpgradeInvariants sdk c nextVersion =
     fold (run_version sdk c nextVersion) VERSION_INVARIANTS
       (fold (run_category sdk c) CATEGORIES \<lparr>violations = [], passed = [], skipped = []\<rparr>)"

definition safe :: "verdict \<Rightarrow> bool" where
  "safe v = (violations v = [])"

definition gateUpgrade :: "xdr_sdk \<Rightarrow> candidates \<Rightarrow> int \<Rightarrow> bool" where
  "gateUpgrade sdk c nextVersion = safe (verifyUpgradeInvariants sdk c nextVersion)"

section \<open>The verdict\<close>

text \<open>All checks in one table, with the version from which they apply.\<close>

definition all_checks :: "(category \<times> int option \<times> xdr_invariant) list" where
  "all_checks = concat (map (\<lambda>(cat, invs). map (\<lambda>i. (cat, None, i)) invs) CATEGORIES) @
     map (\<lambda>vi. (vi_category vi, Some (vi_minVersion vi), vi_invariant vi)) VERSION_INVARIANTS"

definition applies :: "candidates \<Rightarrow> int \<Rightarrow> category \<times> int option \<times> xdr_invariant \<Rightarrow> bool" where
  "applies c v k = (given c (fst k) \<noteq> None \<and> (case fst (snd k) of None \<Rightarrow> True | Some m \<Rightarrow> m \<le> v))"

definition holds :: "xdr_sdk \<Rightarrow> candidates \<Rightarrow> category \<times> int option \<times> xdr_invariant \<Rightarrow> bool" where
  "holds sdk c k = (inv_probe (snd (snd k)) sdk (the (given c (fst k))) = Inr True)"

abbreviation check_name :: "category \<times> int option \<times> xdr_invariant \<Rightarrow> string" where
  "check_name k \<equiv> inv_name (snd (snd k))"

text \<open>One check as a step: the two loops of the engine run it over the table.\<close>

definition check_step :: "xdr_sdk \<Rightarrow> candidates \<Rightarrow> int \<Rightarrow> category \<times> int option \<times> xdr_invariant \<Rightarrow> verdict \<Rightarrow> verdict" where
  "check_step sdk c v k d =
     (if applies c v k then run_one sdk (the (given c (fst k))) (snd (snd k)) d
      else d\<lparr>skipped := skipped d @ [check_name k]\<rparr>)"

lemma category_steps:
  "run_category sdk c g d = fold (check_step sdk c v) (map (\<lambda>i. (fst g, None, i)) (snd g)) d"
proof (cases "given c (fst g)")
  case None
  have "fold (check_step sdk c v) (map (\<lambda>i. (fst g, None, i)) invs) d = d\<lparr>skipped := skipped d @ map inv_name invs\<rparr>"
    for invs d
    by (induction invs arbitrary: d) (simp_all add: check_step_def applies_def None)
  then show ?thesis by (simp add: run_category_def None)
next
  case (Some blob)
  have "fold (check_step sdk c v) (map (\<lambda>i. (fst g, None, i)) invs) d = fold (run_one sdk blob) invs d" for invs d
    by (induction invs arbitrary: d) (simp_all add: check_step_def applies_def Some)
  then show ?thesis by (simp add: run_category_def runInvariants_def Some)
qed

lemma version_step:
  "run_version sdk c v vi = check_step sdk c v (vi_category vi, Some (vi_minVersion vi), vi_invariant vi)"
  by (rule ext) (simp add: run_version_def check_step_def applies_def split: option.splits)

lemma verify_steps:
  "verifyUpgradeInvariants sdk c v = fold (check_step sdk c v) all_checks \<lparr>violations = [], passed = [], skipped = []\<rparr>"
proof -
  have "fold (run_category sdk c) gs d = fold (check_step sdk c v) (concat (map (\<lambda>(cat, invs). map (\<lambda>i. (cat, None, i)) invs) gs)) d"
    for gs d
    by (induction gs arbitrary: d) (auto simp: category_steps [of sdk c _ _ v])
  moreover have "fold (run_version sdk c v) vs d =
      fold (check_step sdk c v) (map (\<lambda>vi. (vi_category vi, Some (vi_minVersion vi), vi_invariant vi)) vs) d" for vs d
    by (induction vs arbitrary: d) (simp_all add: version_step)
  ultimately show ?thesis by (simp add: verifyUpgradeInvariants_def all_checks_def)
qed

lemma checks_filter:
  "skipped (fold (check_step sdk c v) ks d) = skipped d @ map check_name (filter (\<lambda>k. \<not> applies c v k) ks) \<and>
   passed (fold (check_step sdk c v) ks d) = passed d @ map check_name (filter (\<lambda>k. applies c v k \<and> holds sdk c k) ks) \<and>
   map fst (violations (fold (check_step sdk c v) ks d)) =
     map fst (violations d) @ map check_name (filter (\<lambda>k. applies c v k \<and> \<not> holds sdk c k) ks)"
  by (induction ks arbitrary: d)
    (auto simp: check_step_def run_one_def holds_def split: sum.splits bool.splits)

lemma gate_iff: "gateUpgrade sdk c v = list_all (\<lambda>k. \<not> applies c v k \<or> holds sdk c k) all_checks"
proof -
  note f = checks_filter [of sdk c v all_checks "\<lparr>violations = [], passed = [], skipped = []\<rparr>"]
  have "gateUpgrade sdk c v = (map fst (violations (verifyUpgradeInvariants sdk c v)) = [])"
    by (simp add: gateUpgrade_def safe_def)
  also have "\<dots> = list_all (\<lambda>k. \<not> applies c v k \<or> holds sdk c k) all_checks"
    unfolding verify_steps using f by (auto simp: filter_empty_conv list_all_iff)
  finally show ?thesis .
qed

lemmas check_tables = all_checks_def CATEGORIES_def ENVELOPE_INVARIANTS_def RESULT_INVARIANTS_def
  RESULT_META_INVARIANTS_def LEDGER_ENTRY_INVARIANTS_def VERSION_INVARIANTS_def

text \<open>C40: The verdict is complete and exact: each of the ten checks is reported in exactly one list, in the order
  of the table; it is skipped when its sample is missing or empty or the version is older than
  its own, and otherwise passed or a violation by the answer of its probe; the gate opens exactly
  when no check that applies fails.\<close>

theorem verdict_exact:
  "skipped (verifyUpgradeInvariants sdk c v) = map check_name (filter (\<lambda>k. \<not> applies c v k) all_checks) \<and>
   passed (verifyUpgradeInvariants sdk c v) = map check_name (filter (\<lambda>k. applies c v k \<and> holds sdk c k) all_checks) \<and>
   map fst (violations (verifyUpgradeInvariants sdk c v)) =
     map check_name (filter (\<lambda>k. applies c v k \<and> \<not> holds sdk c k) all_checks) \<and>
   distinct (map check_name all_checks) \<and> length all_checks = 10 \<and>
   gateUpgrade sdk c v = (\<not> list_ex (\<lambda>k. applies c v k \<and> \<not> holds sdk c k) all_checks)"
proof -
  have g: "gateUpgrade sdk c v = (\<not> list_ex (\<lambda>k. applies c v k \<and> \<not> holds sdk c k) all_checks)"
    by (auto simp: gate_iff list_all_iff list_ex_iff)
  have "distinct (map check_name all_checks) \<and> length all_checks = 10"
    by (simp add: check_tables)
  then show ?thesis
    unfolding verify_steps g
    using checks_filter [of sdk c v all_checks "\<lparr>violations = [], passed = [], skipped = []\<rparr>"] by simp
qed

text \<open>A gate that opens for a protocol version opens for every older one with the same samples, and
  without samples it opens for every version, with all ten checks skipped.\<close>

theorem gate_antitone:
  assumes "gateUpgrade sdk c v" "u \<le> v"
  shows "gateUpgrade sdk c u \<and>
    gateUpgrade sdk \<lparr>ca_envelope = None, ca_result = None, ca_resultMeta = None, ca_ledgerEntry = None\<rparr> w"
proof
  show "gateUpgrade sdk c u"
    using assms by (auto simp: gate_iff list_all_iff applies_def split: option.splits)
  have "given \<lparr>ca_envelope = None, ca_result = None, ca_resultMeta = None, ca_ledgerEntry = None\<rparr> cat = None" for cat
    by (cases cat) (simp_all add: given_def)
  then show "gateUpgrade sdk \<lparr>ca_envelope = None, ca_result = None, ca_resultMeta = None, ca_ledgerEntry = None\<rparr> w"
    by (simp add: gate_iff list_all_iff applies_def)
qed

text \<open>An SDK whose blobs are one letter each: a fee-bump envelope and a readable meta.\<close>

definition demo_sdk :: xdr_sdk where
  "demo_sdk = \<lparr>envelope_of = (\<lambda>b. if b = ''F'' then Some \<lparr>xe_switch = ''envelopeTypeTxFeeBump'', xe_v1_ops = None, xe_v0_ops = None\<rparr>
       else None),
     result_of = (\<lambda>_. None), meta_of = (\<lambda>b. if b = ''M'' then Some (Some True) else None), entry_of = (\<lambda>_. None)\<rparr>"

theorem gate_antitone_witness:
  "gateUpgrade demo_sdk \<lparr>ca_envelope = None, ca_result = None, ca_resultMeta = Some ''M'', ca_ledgerEntry = None\<rparr> 20"
proof -
  have "gateUpgrade demo_sdk \<lparr>ca_envelope = None, ca_result = None, ca_resultMeta = Some ''M'', ca_ledgerEntry = None\<rparr> 22"
    by code_simp
  from gate_antitone [OF this, of 20] show ?thesis by simp
qed

text \<open>Fee-bump samples always close the gate: a decodable envelope of the fee-bump kind passes the check
  that lists the kinds the parser knows, and fails the check for operations, whatever the other
  samples and the version are.\<close>

theorem fee_bump_closes_gate:
  assumes "ca_envelope c = Some blob" "blob \<noteq> []" "envelope_of sdk blob = Some env"
    "xe_switch env = ''envelopeTypeTxFeeBump''"
  shows "\<not> gateUpgrade sdk c v \<and> ''envelope:known-switch'' \<in> set (passed (verifyUpgradeInvariants sdk c v)) \<and>
    ''envelope:has-operations'' \<in> set (map fst (violations (verifyUpgradeInvariants sdk c v)))"
proof -
  let ?k = "(EnvelopeXdr, None, ENVELOPE_INVARIANTS ! 1)" and ?h = "(EnvelopeXdr, None, ENVELOPE_INVARIANTS ! 2)"
  have g: "given c EnvelopeXdr = Some blob" using assms(1,2) by (simp add: given_def split: list.splits)
  have m: "?k \<in> set all_checks" "?h \<in> set all_checks"
    by (simp_all add: all_checks_def CATEGORIES_def ENVELOPE_INVARIANTS_def)
  have a: "applies c v ?k" "applies c v ?h" using g by (simp_all add: applies_def)
  have h: "holds sdk c ?k" "\<not> holds sdk c ?h"
    using assms(3,4) g by (simp_all add: holds_def ENVELOPE_INVARIANTS_def caught_def sample_ops_def)
  have n: "check_name ?k = ''envelope:known-switch''" "check_name ?h = ''envelope:has-operations''"
    by (simp_all add: ENVELOPE_INVARIANTS_def)
  have "passed (verifyUpgradeInvariants sdk c v) = map check_name (filter (\<lambda>k. applies c v k \<and> holds sdk c k) all_checks)"
    "map fst (violations (verifyUpgradeInvariants sdk c v)) =
      map check_name (filter (\<lambda>k. applies c v k \<and> \<not> holds sdk c k) all_checks)"
    using checks_filter [of sdk c v all_checks "\<lparr>violations = [], passed = [], skipped = []\<rparr>"] by (simp_all add: verify_steps)
  then have "check_name ?k \<in> set (passed (verifyUpgradeInvariants sdk c v))"
    "check_name ?h \<in> set (map fst (violations (verifyUpgradeInvariants sdk c v)))"
    using m a h by (simp_all only: set_map set_filter) blast+
  moreover have "\<not> gateUpgrade sdk c v" using m(2) a(2) h(2) by (auto simp: gate_iff list_all_iff)
  ultimately show ?thesis using n by simp
qed

theorem fee_bump_closes_gate_witness:
  "\<not> gateUpgrade demo_sdk \<lparr>ca_envelope = Some ''F'', ca_result = None, ca_resultMeta = None, ca_ledgerEntry = None\<rparr> 21"
  using fee_bump_closes_gate [of "\<lparr>ca_envelope = Some ''F'', ca_result = None, ca_resultMeta = None, ca_ledgerEntry = None\<rparr>"
    "''F''" demo_sdk "\<lparr>xe_switch = ''envelopeTypeTxFeeBump'', xe_v1_ops = None, xe_v0_ops = None\<rparr>" 21]
  by (simp add: demo_sdk_def)

end
