(* ===== verification/Js_Double.thy ===== *)
theory Js_Double
  imports Js_Number "HOL-Library.Log_Nat"
begin

text \<open>
  Doubles as the rationals they stand for: rounding to the nearest double (ties to even, with the
  subnormal range and overflow to infinity), and \<open>parseFloat\<close> of ECMAScript.
\<close>

section \<open>Rounding\<close>

definition round_half_even :: "rat \<Rightarrow> int" where
  "round_half_even q =
     (let f = \<lfloor>q\<rfloor>; r = q - of_int f
      in if r < 1 / 2 \<or> (r = 1 / 2 \<and> even f) then f else f + 1)"

text \<open>The exponent \<open>e\<close> with \<open>2^e \<le> q < 2^(e+1)\<close>.\<close>

definition pow2 :: "int \<Rightarrow> rat" where
  "pow2 k = (if 0 \<le> k then 2 ^ nat k else 1 / 2 ^ nat (- k))"

definition exp2_of :: "rat \<Rightarrow> int" where
  "exp2_of q = (case quotient_of q of (n, d) \<Rightarrow>
     (let k = bitlen n - bitlen d in if pow2 k \<le> q then k else k - 1))"

text \<open>The weight of the last bit of a double of the size of \<open>q\<close>.\<close>

definition ulp :: "rat \<Rightarrow> int" where
  "ulp q = max (exp2_of q - 52) (- 1074)"

definition round_pos :: "rat \<Rightarrow> rat" where
  "round_pos q = (if q \<le> 0 then 0 else of_int (round_half_even (q / pow2 (ulp q))) * pow2 (ulp q))"

datatype js_double = Finite rat | Infty bool | NotANumber

definition to_double :: "bool \<Rightarrow> rat \<Rightarrow> js_double" where
  "to_double neg q =
     (let r = round_pos q in
      if 2 ^ 1024 \<le> r then Infty neg else Finite (if neg then - r else r))"

text \<open>Arithmetic on doubles whose results stay finite.\<close>

definition fl_round :: "rat \<Rightarrow> rat" where "fl_round q = (if q < 0 then - round_pos (- q) else round_pos q)"

definition fl_add :: "rat \<Rightarrow> rat \<Rightarrow> rat" where "fl_add x y = fl_round (x + y)"

definition fl_sub :: "rat \<Rightarrow> rat \<Rightarrow> rat" where "fl_sub x y = fl_round (x - y)"

definition fl_mul :: "rat \<Rightarrow> rat \<Rightarrow> rat" where "fl_mul x y = fl_round (x * y)"

definition fl_div :: "rat \<Rightarrow> rat \<Rightarrow> rat" where "fl_div x y = fl_round (x / y)"

text \<open>\<open>a < b\<close>\<close>

definition double_less :: "js_double \<Rightarrow> js_double \<Rightarrow> bool" where
  "double_less a b =
     (case (a, b) of
        (Finite x, Finite y) \<Rightarrow> x < y
      | (Finite x, Infty neg) \<Rightarrow> \<not> neg
      | (Infty neg, Finite y) \<Rightarrow> neg
      | (Infty m, Infty n) \<Rightarrow> m \<and> \<not> n
      | _ \<Rightarrow> False)"

section \<open>parseFloat\<close>

text \<open>The exponent at the front of a text: digits after \<open>e\<close> and an optional sign, or nothing.\<close>

definition leading_exponent :: "string \<Rightarrow> int" where
  "leading_exponent s =
     (case s of [] \<Rightarrow> 0
      | c # cs \<Rightarrow>
          if c = CHR ''e'' \<or> c = CHR ''E'' then
            (case parse_sign cs of (sg, u) \<Rightarrow> sg * int (val_digits (takeWhile is_digit u)))
          else 0)"

definition pow10 :: "int \<Rightarrow> rat" where
  "pow10 k = (if 0 \<le> k then 10 ^ nat k else 1 / 10 ^ nat (- k))"

text \<open>The digits at the front of a text as an exact number.\<close>

definition leading_decimal :: "string \<Rightarrow> rat option" where
  "leading_decimal s =
     (let whole = takeWhile is_digit s; rest = dropWhile is_digit s;
          frac = (case rest of [] \<Rightarrow> [] | c # cs \<Rightarrow> if c = CHR ''.'' then takeWhile is_digit cs else []);
          tail = (case rest of [] \<Rightarrow> [] | c # cs \<Rightarrow> if c = CHR ''.'' then dropWhile is_digit cs else rest)
      in if whole = [] \<and> frac = [] then None
         else Some (of_nat (val_digits (whole @ frac)) / 10 ^ length frac * pow10 (leading_exponent tail)))"

definition parseFloat :: "string \<Rightarrow> js_double" where
  "parseFloat s =
     (case parse_sign (dropWhile is_space s) of (sg, u) \<Rightarrow>
        if starts_with ''Infinity'' u then Infty (sg < 0)
        else (case leading_decimal u of None \<Rightarrow> NotANumber | Some q \<Rightarrow> to_double (sg < 0) q))"

section \<open>Rounding is monotone\<close>

lemma round_half_even_bounds: "\<lfloor>q\<rfloor> \<le> round_half_even q" "round_half_even q \<le> \<lfloor>q\<rfloor> + 1"
  by (simp_all add: round_half_even_def Let_def)

lemma round_half_even_int [simp]: "round_half_even (of_int n) = n"
  by (simp add: round_half_even_def)

lemma round_half_even_mono:
  assumes "x \<le> y" shows "round_half_even x \<le> round_half_even y"
proof (cases "\<lfloor>x\<rfloor> = \<lfloor>y\<rfloor>")
  case True
  then have "x - of_int \<lfloor>x\<rfloor> \<le> y - of_int \<lfloor>y\<rfloor>" using assms by simp
  with True show ?thesis by (auto simp: round_half_even_def Let_def)
next
  case False
  then have "\<lfloor>x\<rfloor> + 1 \<le> \<lfloor>y\<rfloor>" using floor_mono [OF assms] by linarith
  then show ?thesis using round_half_even_bounds [of x] round_half_even_bounds [of y] by linarith
qed

lemma pow2_powi: "pow2 k = 2 powi k"
  by (simp add: pow2_def power_int_def field_simps)

lemma pow2_pos [simp]: "0 < pow2 k"
  by (simp add: pow2_powi)

lemma pow2_nonneg [simp]: "0 \<le> pow2 k" and pow2_nonzero [simp]: "pow2 k \<noteq> 0"
  using pow2_pos [of k] by linarith+

lemma pow2_scale: "x \<le> y \<Longrightarrow> x / pow2 k \<le> y / pow2 k"
  by (rule divide_right_mono) simp_all

lemma pow2_add: "pow2 (a + b) = pow2 a * pow2 b"
  by (simp add: pow2_powi power_int_add)

lemma pow2_mono: "a \<le> b \<Longrightarrow> pow2 a \<le> pow2 b"
  by (simp add: pow2_powi power_int_increasing)

lemma pow2_less: "pow2 a < pow2 b \<Longrightarrow> a < b"
  using pow2_mono [of b a] by (meson linorder_not_less)

lemma pow2_nat: "0 \<le> k \<Longrightarrow> pow2 k = of_int (2 ^ nat k)"
  by (simp add: pow2_def)

lemma bitlen_bracket: "0 < n \<Longrightarrow> pow2 (bitlen n - 1) \<le> of_int n \<and> of_int n < pow2 (bitlen n)"
proof -
  assume n: "0 < n"
  have "2 ^ nat (bitlen n - 1) \<le> n \<and> n < 2 ^ nat (bitlen n)" using bitlen_bounds [OF n] .
  moreover have "1 \<le> bitlen n" using n bitlen_nonneg [of n] bitlen_eq_zero_iff [of n] by linarith
  ultimately show ?thesis
    by (simp add: pow2_nat del: of_int_power)
qed

lemma exp2_of_bracket:
  assumes "0 < q" shows "pow2 (exp2_of q) \<le> q \<and> q < pow2 (exp2_of q + 1)"
proof -
  obtain n d where nd: "quotient_of q = (n, d)" by (cases "quotient_of q") auto
  have q: "q = of_int n / of_int d" "0 < d" using nd quotient_of_div quotient_of_denom_pos by auto
  have n: "0 < n" using assms q by (simp add: zero_less_divide_iff)
  let ?k = "bitlen n - bitlen d"
  have b: "pow2 (bitlen n - 1) \<le> of_int n" "of_int n < pow2 (bitlen n)"
    "pow2 (bitlen d - 1) \<le> of_int d" "of_int d < pow2 (bitlen d)"
    using bitlen_bracket [OF n] bitlen_bracket [OF q(2)] by auto
  have up: "q < pow2 (?k + 1)"
  proof -
    have "of_int n < pow2 (?k + 1) * pow2 (bitlen d - 1)" using b(2) by (simp add: pow2_add [symmetric])
    also have "\<dots> \<le> pow2 (?k + 1) * of_int d" using b(3) by (simp add: mult_left_mono)
    finally show ?thesis using q by (simp add: divide_less_eq)
  qed
  have low: "pow2 (?k - 1) \<le> q"
  proof -
    have "pow2 (?k - 1) * of_int d \<le> pow2 (?k - 1) * pow2 (bitlen d)" using b(4) by (simp add: mult_left_mono)
    also have "\<dots> \<le> of_int n" using b(1) by (simp add: pow2_add [symmetric] algebra_simps)
    finally show ?thesis using q by (simp add: le_divide_eq)
  qed
  show ?thesis using up low by (simp add: exp2_of_def nd Let_def)
qed

lemma exp2_of_mono:
  assumes "0 < x" "x \<le> y" shows "exp2_of x \<le> exp2_of y"
proof -
  have "pow2 (exp2_of x) < pow2 (exp2_of y + 1)"
    using exp2_of_bracket [of x] exp2_of_bracket [of y] assms by linarith
  then show ?thesis using pow2_less by fastforce
qed

text \<open>Powers of two that are multiples of the last bit are bounds that rounding keeps.\<close>

lemma scaled_int: "u \<le> e \<Longrightarrow> pow2 e / pow2 u = of_int (2 ^ nat (e - u))"
  using pow2_add [of "e - u" u] by (simp add: pow2_nat)

lemma round_pos_upper:
  assumes "0 < q" "ulp q \<le> e" "q \<le> pow2 e" shows "round_pos q \<le> pow2 e"
proof -
  have "round_half_even (q / pow2 (ulp q)) \<le> round_half_even (pow2 e / pow2 (ulp q))"
    using assms(3) by (intro round_half_even_mono) (simp add: pow2_scale)
  also have "\<dots> = 2 ^ nat (e - ulp q)" using scaled_int [OF assms(2)] by (metis round_half_even_int)
  finally have "of_int (round_half_even (q / pow2 (ulp q))) \<le> pow2 e / pow2 (ulp q)"
    using scaled_int [OF assms(2)] by (metis of_int_le_iff)
  then show ?thesis using assms(1) by (simp add: round_pos_def le_divide_eq)
qed

lemma round_pos_lower:
  assumes "0 < q" "ulp q \<le> e" "pow2 e \<le> q" shows "pow2 e \<le> round_pos q"
proof -
  have "2 ^ nat (e - ulp q) = round_half_even (pow2 e / pow2 (ulp q))"
    using scaled_int [OF assms(2)] by (metis round_half_even_int)
  also have "\<dots> \<le> round_half_even (q / pow2 (ulp q))"
    using assms(3) by (intro round_half_even_mono) (simp add: pow2_scale)
  finally have "pow2 e / pow2 (ulp q) \<le> of_int (round_half_even (q / pow2 (ulp q)))"
    using scaled_int [OF assms(2)] by (metis of_int_le_iff)
  then show ?thesis using assms(1) by (simp add: round_pos_def divide_le_eq)
qed

lemma round_pos_nonneg: "0 \<le> round_pos q"
proof (cases "q \<le> 0")
  case False
  then have "0 \<le> round_half_even (q / pow2 (ulp q))"
    using round_half_even_mono [of 0 "q / pow2 (ulp q)"] round_half_even_int [of 0] by (simp add: zero_le_divide_iff)
  then show ?thesis by (simp add: round_pos_def)
qed (simp add: round_pos_def)

lemma round_pos_mono:
  assumes "x \<le> y" shows "round_pos x \<le> round_pos y"
proof (cases "x \<le> 0")
  case True
  then show ?thesis using round_pos_nonneg [of y] by (simp add: round_pos_def)
next
  case False
  then have p: "0 < x" "0 < y" using assms by auto
  have e: "exp2_of x \<le> exp2_of y" using exp2_of_mono p assms by blast
  show ?thesis
  proof (cases "ulp x = ulp y")
    case True
    have "round_half_even (x / pow2 (ulp x)) \<le> round_half_even (y / pow2 (ulp y))"
      unfolding True using assms by (intro round_half_even_mono pow2_scale)
    then show ?thesis using p True by (simp add: round_pos_def mult_right_mono)
  next
    case False
    then have lt: "exp2_of x + 1 \<le> exp2_of y" "- 1074 < exp2_of y - 52"
      using e by (auto simp: ulp_def max_def split: if_splits)
    have "round_pos x \<le> pow2 (exp2_of y)"
    proof (rule round_pos_upper [OF p(1)])
      show "ulp x \<le> exp2_of y" using lt by (simp add: ulp_def max_def)
      show "x \<le> pow2 (exp2_of y)" using exp2_of_bracket [OF p(1)] pow2_mono [OF lt(1)] by linarith
    qed
    also have "\<dots> \<le> round_pos y"
      using lt exp2_of_bracket [OF p(2)] by (intro round_pos_lower [OF p(2)]) (simp_all add: ulp_def)
    finally show ?thesis .
  qed
qed

lemma round_pos_small:
  assumes "n < 2 ^ 53" shows "round_pos (of_nat n) = of_nat n"
proof (cases "n = 0")
  case False
  let ?q = "of_nat n :: rat"
  have p: "0 < ?q" using False by simp
  have "pow2 (exp2_of ?q) < pow2 53"
  proof -
    have "?q < of_nat (2 ^ 53)" using assms by (simp only: of_nat_less_iff)
    then show ?thesis using exp2_of_bracket [OF p] by (simp add: pow2_def)
  qed
  then have "exp2_of ?q < 53" by (rule pow2_less)
  then have u: "ulp ?q \<le> 0" by (simp add: ulp_def)
  have "?q / pow2 (ulp ?q) = of_int (int n * 2 ^ nat (- ulp ?q))"
    using scaled_int [OF u] by (simp add: pow2_def divide_inverse)
  then have "of_int (round_half_even (?q / pow2 (ulp ?q))) = ?q / pow2 (ulp ?q)"
    by (metis round_half_even_int)
  then show ?thesis using p by (simp add: round_pos_def)
qed (simp add: round_pos_def)

lemma fl_round_nat: "n < 2 ^ 53 \<Longrightarrow> fl_round (of_nat n) = of_nat n"
  by (simp add: fl_round_def round_pos_small)

lemma fl_round_0 [simp]: "fl_round 0 = 0"
  by (simp add: fl_round_def round_pos_def)

lemma fl_round_nonneg: "0 \<le> q \<Longrightarrow> 0 \<le> fl_round q"
  by (simp add: fl_round_def round_pos_nonneg)

lemma fl_round_mono: "x \<le> y \<Longrightarrow> fl_round x \<le> fl_round y"
  using round_pos_mono [of x y] round_pos_mono [of "- y" "- x"] round_pos_nonneg [of y] round_pos_nonneg [of "- x"]
  by (auto simp: fl_round_def)

section \<open>A double is its own rounding\<close>

lemma round_half_even_nonneg: "0 \<le> q \<Longrightarrow> 0 \<le> round_half_even q"
  using round_half_even_mono [of 0 q] round_half_even_int [of 0] by simp

lemma exp2_of_less: "0 < q \<Longrightarrow> q < pow2 k \<Longrightarrow> exp2_of q < k"
  using exp2_of_bracket [of q] pow2_less [of "exp2_of q" k] by fastforce

text \<open>A multiple of a last bit with at most 53 bits is a double.\<close>

lemma round_pos_small_multiple:
  assumes "0 < n" "n < 2 ^ 53" "- 1074 \<le> u" shows "round_pos (of_int n * pow2 u) = of_int n * pow2 u"
proof -
  let ?r = "of_int n * pow2 u"
  have p: "0 < ?r" using assms(1) by simp
  have "of_int n < pow2 53" using assms(2) by (simp add: pow2_def flip: of_int_less_iff)
  then have "?r < pow2 (53 + u)" by (simp add: pow2_add)
  then have "exp2_of ?r < 53 + u" using exp2_of_less [OF p] by blast
  then have u: "ulp ?r \<le> u" using assms(3) by (simp add: ulp_def)
  have "?r / pow2 (ulp ?r) = of_int (n * 2 ^ nat (u - ulp ?r))"
    by (simp only: times_divide_eq_right [symmetric] scaled_int [OF u] of_int_mult)
  then have "of_int (round_half_even (?r / pow2 (ulp ?r))) = ?r / pow2 (ulp ?r)" by (metis round_half_even_int)
  then show ?thesis using p by (simp add: round_pos_def)
qed

lemma round_pos_multiple:
  assumes "0 \<le> n" "n \<le> 2 ^ 53" "- 1074 \<le> u" shows "round_pos (of_int n * pow2 u) = of_int n * pow2 u"
proof (cases "n = 0 \<or> n < 2 ^ 53")
  case True
  then show ?thesis using round_pos_small_multiple [of n u] assms by (cases "n = 0") (simp_all add: round_pos_def [of 0])
next
  case False
  then have "of_int n * pow2 u = of_int 1 * pow2 (53 + u)" using assms by (simp add: pow2_add pow2_def [of 53])
  then show ?thesis using round_pos_small_multiple [of 1 "53 + u"] assms(3) by simp
qed

lemma round_pos_idem [simp]: "round_pos (round_pos q) = round_pos q"
proof (cases "0 < q")
  case True
  let ?n = "round_half_even (q / pow2 (ulp q))"
  have "q < pow2 (exp2_of q + 1)" using exp2_of_bracket [OF True] by blast
  also have "\<dots> \<le> pow2 (53 + ulp q)" by (intro pow2_mono) (simp add: ulp_def)
  finally have "q / pow2 (ulp q) \<le> of_int (2 ^ 53)" by (simp add: divide_le_eq pow2_add pow2_def [of 53] del: of_int_power)
  then have "?n \<le> 2 ^ 53" using round_half_even_mono round_half_even_int by metis
  moreover have "0 \<le> ?n" using True by (intro round_half_even_nonneg) simp
  ultimately show ?thesis using round_pos_multiple [of ?n "ulp q"] True by (simp add: round_pos_def ulp_def)
qed (simp add: round_pos_def)

lemma fl_round_idem [simp]: "fl_round (fl_round q) = fl_round q"
proof (cases "q < 0")
  case True
  then have "fl_round q = - round_pos (- q)" by (simp add: fl_round_def)
  moreover have "fl_round (- x) = - fl_round x" for x by (auto simp: fl_round_def round_pos_def)
  moreover have "fl_round (round_pos (- q)) = round_pos (- q)"
    using round_pos_nonneg [of "- q"] by (simp add: fl_round_def)
  ultimately show ?thesis by simp
next
  case False
  then show ?thesis using round_pos_nonneg [of q] by (simp add: fl_round_def)
qed

lemma fl_add_ge: "0 \<le> x \<Longrightarrow> fl_round t = t \<Longrightarrow> t \<le> fl_add t x"
  using fl_round_mono [of t "t + x"] by (simp add: fl_add_def)

lemma fl_add_mono: "a \<le> b \<Longrightarrow> x \<le> y \<Longrightarrow> fl_add a x \<le> fl_add b y"
  by (simp add: fl_add_def fl_round_mono)

end
