(* ===== verification/Feed_Delivery.thy ===== *)
theory Feed_Delivery
  imports Js_Double
begin

text \<open>
  \<open>src/feed/subscriptionManager.ts\<close> and \<open>src/feed/deliveryService.ts\<close>: subscriptions of the live feed,
  their filters, and the delivery of messages one by one or in batches that a timer flushes. The
  HTTP client, the JSON text and the HMAC are parameters. A row that is deleted while a delivery
  is under way is not treated as an error of the statistics update. The rate limit of a subscription,
  which nothing reads, is left out.
\<close>

section \<open>Messages and filters\<close>

text \<open>A token field is a text, or an object with address, symbol and decimals.\<close>

datatype feed_token = TokenText string | TokenObject string

record feed_data =
  fd_pool :: "string option"
  fd_tokenIn :: "feed_token option"
  fd_tokenOut :: "feed_token option"
  fd_amountIn :: "string option"
  fd_contract :: "string option"
  fd_source :: "string option"
  fd_sender :: "string option"
  fd_eventType :: "string option"

record feed_filters =
  ff_pools :: "string list option"
  ff_tokens :: "string list option"
  ff_minAmount :: "string option"
  ff_excludePools :: "string list option"
  ff_contracts :: "string list option"
  ff_accounts :: "string list option"
  ff_eventTypes :: "string list option"

record feed_msg =
  fm_sequence :: nat
  fm_channel :: string
  fm_data :: feed_data
  fm_timestamp :: string

text \<open>A string field that is truthy.\<close>

definition filled :: "string option \<Rightarrow> bool" where
  "filled v = (v \<noteq> None \<and> v \<noteq> Some [])"

definition has_token :: "feed_token option \<Rightarrow> bool" where
  "has_token t = (t \<noteq> None \<and> t \<noteq> Some (TokenText []))"

text \<open>A list filter against a field: only when both are there.\<close>

definition allows :: "string list option \<Rightarrow> string option \<Rightarrow> bool" where
  "allows f v = (case f of None \<Rightarrow> True | Some xs \<Rightarrow> filled v \<longrightarrow> the v \<in> set xs)"

definition matchesFilters :: "feed_data \<Rightarrow> feed_filters \<Rightarrow> bool" where
  "matchesFilters d f =
     (allows (ff_pools f) (fd_pool d) \<and>
      (case ff_excludePools f of None \<Rightarrow> True | Some xs \<Rightarrow> filled (fd_pool d) \<longrightarrow> the (fd_pool d) \<notin> set xs) \<and>
      (case ff_tokens f of None \<Rightarrow> True
       | Some ts \<Rightarrow> has_token (fd_tokenIn d) \<or> has_token (fd_tokenOut d) \<longrightarrow>
           list_ex (\<lambda>t. Some (TokenText t) = fd_tokenIn d \<or> Some (TokenText t) = fd_tokenOut d) ts) \<and>
      (filled (ff_minAmount f) \<and> filled (fd_amountIn d) \<longrightarrow>
         \<not> double_less (parseFloat (the (fd_amountIn d))) (parseFloat (the (ff_minAmount f)))) \<and>
      allows (ff_contracts f) (fd_contract d) \<and>
      allows (ff_accounts f) (if filled (fd_source d) then fd_source d else fd_sender d) \<and>
      allows (ff_eventTypes f) (fd_eventType d))"

section \<open>Subscriptions\<close>

datatype delivery_type = Webhook | Websocket | Sse | Queue

record webhook_config =
  wc_url :: string
  wc_headers :: "(string, string) jsmap"
  wc_secret :: "string option"

record feed_row =
  fr_id :: string
  fr_user :: "string option"
  fr_channel :: string
  fr_filters :: "feed_filters option"
  fr_type :: delivery_type
  fr_config :: webhook_config
  fr_batchSize :: "int option"
  fr_status :: string
  fr_delivered :: nat
  fr_failed :: nat
  fr_lastError :: "string option"
  fr_lastDeliveryAt :: "int option"

record webhook_request =
  wr_url :: string
  wr_headers :: "(string, string) jsmap"
  wr_subscription :: string
  wr_messages :: "(string \<times> string \<times> feed_data \<times> string) list"

text \<open>The tables and the fields of the service. \<open>timers\<close> holds the timers that are set and have not
  fired, each with its time and the row that its callback captured; \<open>sent\<close> and \<open>accepted\<close> are the
  history of deliveries and of messages that passed the filters.\<close>

record feed_state =
  rows :: "feed_row list"
  queues :: "(string, feed_msg list) jsmap"
  timers :: "(string, int \<times> feed_row) jsmap"
  requests :: "webhook_request list"
  sent :: "(string \<times> feed_msg list) list"
  accepted :: "(string \<times> feed_msg) list"

record feed_config =
  fc_user :: "string option"
  fc_channel :: string
  fc_filters :: "feed_filters option"
  fc_type :: delivery_type
  fc_config :: webhook_config
  fc_batchSize :: "int option"

text \<open>\<open>batchSize || 1\<close>\<close>

definition createSubscription :: "string \<Rightarrow> feed_config \<Rightarrow> feed_state \<Rightarrow> feed_state" where
  "createSubscription newId c st =
     st\<lparr>rows := rows st @
       [\<lparr>fr_id = newId, fr_user = fc_user c, fr_channel = fc_channel c, fr_filters = fc_filters c,
         fr_type = fc_type c, fr_config = fc_config c,
         fr_batchSize = Some (case fc_batchSize c of None \<Rightarrow> 1 | Some b \<Rightarrow> if b = 0 then 1 else b),
         fr_status = ''active'', fr_delivered = 0, fr_failed = 0, fr_lastError = None, fr_lastDeliveryAt = None\<rparr>]\<rparr>"

definition getSubscription :: "string \<Rightarrow> feed_state \<Rightarrow> feed_row option" where
  "getSubscription i st = tbl_find fr_id i (rows st)"

text \<open>Fields of an update that are \<open>undefined\<close> stay as they are.\<close>

record feed_update =
  up_user :: "string option"
  up_channel :: "string option"
  up_filters :: "feed_filters option"
  up_type :: "delivery_type option"
  up_config :: "webhook_config option"
  up_batchSize :: "int option"
  up_status :: "string option"

definition updateSubscription :: "string \<Rightarrow> feed_update \<Rightarrow> feed_state \<Rightarrow> feed_state" where
  "updateSubscription i u st = st\<lparr>rows := tbl_update fr_id i
     (\<lambda>r. r\<lparr>fr_user := (if up_user u = None then fr_user r else up_user u),
            fr_channel := set_if (up_channel u) (fr_channel r),
            fr_type := set_if (up_type u) (fr_type r),
            fr_filters := (if up_filters u = None then fr_filters r else up_filters u),
            fr_config := set_if (up_config u) (fr_config r),
            fr_batchSize := (if up_batchSize u = None then fr_batchSize r else up_batchSize u),
            fr_status := set_if (up_status u) (fr_status r)\<rparr>) (rows st)\<rparr>"

definition status_update :: "string \<Rightarrow> feed_update" where
  "status_update s = \<lparr>up_user = None, up_channel = None, up_filters = None, up_type = None, up_config = None, up_batchSize = None, up_status = Some s\<rparr>"

definition pauseSubscription :: "string \<Rightarrow> feed_state \<Rightarrow> feed_state" where
  "pauseSubscription i = updateSubscription i (status_update ''paused'')"

definition resumeSubscription :: "string \<Rightarrow> feed_state \<Rightarrow> feed_state" where
  "resumeSubscription i = updateSubscription i (status_update ''active'')"

definition deleteSubscription :: "string \<Rightarrow> feed_state \<Rightarrow> feed_state" where
  "deleteSubscription i st = st\<lparr>rows := filter (\<lambda>r. fr_id r \<noteq> i) (rows st)\<rparr>"

text \<open>Newest first: the table keeps the order of creation.\<close>

definition listSubscriptions :: "string option \<Rightarrow> feed_state \<Rightarrow> feed_row list" where
  "listSubscriptions user st = rev (filter (\<lambda>r. \<not> filled user \<or> fr_user r = user) (rows st))"

definition getActiveSubscriptions :: "string \<Rightarrow> feed_state \<Rightarrow> feed_row list" where
  "getActiveSubscriptions channel st = filter (\<lambda>r. fr_channel r = channel \<and> fr_status r = ''active'') (rows st)"

definition updateDeliveryStats :: "int \<Rightarrow> string \<Rightarrow> bool \<Rightarrow> string \<Rightarrow> feed_state \<Rightarrow> feed_state" where
  "updateDeliveryStats now i delivered err st = st\<lparr>rows := tbl_update fr_id i
     (\<lambda>r. if delivered
          then r\<lparr>fr_lastDeliveryAt := Some now, fr_delivered := fr_delivered r + 1, fr_lastError := None\<rparr>
          else r\<lparr>fr_lastDeliveryAt := Some now, fr_failed := fr_failed r + 1,
                 fr_lastError := (if err \<noteq> [] then Some err else fr_lastError r)\<rparr>) (rows st)\<rparr>"

section \<open>Delivery\<close>

text \<open>The outside world: the answer to a request (an error message, or status and text), the JSON
  text of a payload, and the HMAC.\<close>

record feed_world =
  post :: "webhook_request \<Rightarrow> string + nat \<times> string"
  to_json :: "string \<Rightarrow> (string \<times> string \<times> feed_data \<times> string) list \<Rightarrow> string"
  hmac_hex :: "string \<Rightarrow> string \<Rightarrow> string"

definition webhook_payload :: "feed_msg list \<Rightarrow> (string \<times> string \<times> feed_data \<times> string) list" where
  "webhook_payload msgs = map (\<lambda>m. (dec_nat (fm_sequence m), fm_channel m, fm_data m, fm_timestamp m)) msgs"

definition generateHMACSignature :: "feed_world \<Rightarrow> string \<Rightarrow> string \<Rightarrow> string" where
  "generateHMACSignature w payload secret = ''sha256='' @ hmac_hex w secret payload"

definition webhook_request_of :: "feed_world \<Rightarrow> string \<Rightarrow> webhook_config \<Rightarrow> feed_msg list \<Rightarrow> webhook_request" where
  "webhook_request_of w i config msgs =
     (let pay = webhook_payload msgs;
          base = fold (\<lambda>(k, v). jm_set k v) (wc_headers config)
            [(''Content-Type'', ''application/json''), (''User-Agent'', ''Soroban-Feed/1.0'')];
          headers = (if filled (wc_secret config)
            then jm_set ''X-Soroban-Signature'' (generateHMACSignature w (to_json w i pay) (the (wc_secret config))) base
            else base)
      in \<lparr>wr_url = wc_url config, wr_headers = headers, wr_subscription = i, wr_messages = pay\<rparr>)"

definition deliverWebhook :: "feed_world \<Rightarrow> int \<Rightarrow> string \<Rightarrow> webhook_config \<Rightarrow> feed_msg list \<Rightarrow> feed_state \<Rightarrow> feed_state" where
  "deliverWebhook w now i config msgs st =
     (let req = webhook_request_of w i config msgs; st1 = st\<lparr>requests := requests st @ [req]\<rparr> in
      case post w req of
        Inl err \<Rightarrow> updateDeliveryStats now i False err st1
      | Inr (status, msg) \<Rightarrow>
          if 200 \<le> status \<and> status < 300 then updateDeliveryStats now i True [] st1
          else updateDeliveryStats now i False (''HTTP '' @ dec_nat status @ '': '' @ msg) st1)"

text \<open>The other kinds emit an event with the messages.\<close>

definition deliverSingle :: "feed_world \<Rightarrow> int \<Rightarrow> feed_row \<Rightarrow> feed_msg list \<Rightarrow> feed_state \<Rightarrow> feed_state" where
  "deliverSingle w now row msgs st =
     (let st1 = st\<lparr>sent := sent st @ [(fr_id row, msgs)]\<rparr> in
      case fr_type row of
        Webhook \<Rightarrow> deliverWebhook w now (fr_id row) (fr_config row) msgs st1
      | _ \<Rightarrow> st1)"

definition queue_of :: "feed_state \<Rightarrow> string \<Rightarrow> feed_msg list" where
  "queue_of st i = (case jm_get (queues st) i of None \<Rightarrow> [] | Some q \<Rightarrow> q)"

definition batch_size :: "feed_row \<Rightarrow> nat" where
  "batch_size row = (case fr_batchSize row of None \<Rightarrow> 0 | Some b \<Rightarrow> nat b)"

definition deliverBatch :: "feed_world \<Rightarrow> int \<Rightarrow> feed_row \<Rightarrow> feed_state \<Rightarrow> feed_state" where
  "deliverBatch w now row st =
     (let q = queue_of st (fr_id row) in
      if q = [] then st
      else deliverSingle w now row (take (batch_size row) q)
        (st\<lparr>queues := jm_set (fr_id row) (drop (batch_size row) q) (queues st),
            timers := jm_delete (fr_id row) (timers st)\<rparr>))"

definition addToBatch :: "feed_world \<Rightarrow> int \<Rightarrow> feed_row \<Rightarrow> feed_msg \<Rightarrow> feed_state \<Rightarrow> feed_state" where
  "addToBatch w now row msg st =
     (let q = queue_of st (fr_id row) @ [msg];
          st1 = st\<lparr>queues := jm_set (fr_id row) q (queues st), timers := jm_delete (fr_id row) (timers st)\<rparr>
      in if batch_size row \<le> length q then deliverBatch w now row st1
         else st1\<lparr>timers := jm_set (fr_id row) (now + 5000, row) (timers st1)\<rparr>)"

definition deliverMessage :: "feed_world \<Rightarrow> int \<Rightarrow> string \<Rightarrow> feed_msg \<Rightarrow> feed_state \<Rightarrow> feed_state" where
  "deliverMessage w now i msg st =
     (case getSubscription i st of
        None \<Rightarrow> st
      | Some row \<Rightarrow>
          if fr_status row \<noteq> ''active'' then st
          else if (case fr_filters row of None \<Rightarrow> False | Some f \<Rightarrow> \<not> matchesFilters (fm_data msg) f) then st
          else (let st1 = st\<lparr>accepted := accepted st @ [(i, msg)]\<rparr> in
                if 1 < batch_size row then addToBatch w now row msg st1
                else deliverSingle w now row [msg] st1))"

text \<open>A timer runs the batch delivery for the row that it captured.\<close>

definition fireTimer :: "feed_world \<Rightarrow> int \<Rightarrow> string \<Rightarrow> feed_state \<Rightarrow> feed_state" where
  "fireTimer w now i st =
     (case jm_get (timers st) i of
        None \<Rightarrow> st
      | Some (due, row) \<Rightarrow>
          if due \<le> now then deliverBatch w now row (st\<lparr>timers := jm_delete i (timers st)\<rparr>) else st)"

definition shutdown :: "feed_state \<Rightarrow> feed_state" where
  "shutdown st = st\<lparr>timers := [], queues := []\<rparr>"

section \<open>The service as a state machine\<close>

text \<open>Everything that happens between start and shutdown. \<open>resize\<close> tells whether updates may change
  the batch size.\<close>

inductive feed_step :: "bool \<Rightarrow> feed_state \<Rightarrow> feed_state \<Rightarrow> bool" for resize :: bool where
  Create: "newId \<notin> fr_id ` set (rows st) \<Longrightarrow> newId \<notin> set (jm_keys (queues st)) \<Longrightarrow> feed_step resize st (createSubscription newId c st)"
| Update: "up_batchSize u = None \<or> resize \<Longrightarrow> feed_step resize st (updateSubscription i u st)"
| Delete: "feed_step resize st (deleteSubscription i st)"
| Message: "feed_step resize st (deliverMessage w now i msg st)"
| Fire: "feed_step resize st (fireTimer w now i st)"

inductive_cases feed_stepE: "feed_step resize st st'"

definition feed_start :: "feed_state \<Rightarrow> bool" where
  "feed_start st = (distinct (map fr_id (rows st)) \<and> queues st = [] \<and> timers st = [] \<and> sent st = [] \<and> accepted st = [])"

end
