(* ===== verification/Feed_Props.thy ===== *)
theory Feed_Props
  imports Feed_Delivery "HOL-Library.Multiset"
begin

text \<open>
  Properties of the live feed: no message is lost or sent twice, batches keep the order and are
  flushed by a timer while batch sizes do not change, what goes wrong when they do, how long the
  timer can be put off, and the exactness of the amount filter.
\<close>

section \<open>What an operation changes\<close>

lemma stats_frame [simp]:
  "queues (updateDeliveryStats n i d e st) = queues st" "timers (updateDeliveryStats n i d e st) = timers st"
  "sent (updateDeliveryStats n i d e st) = sent st" "accepted (updateDeliveryStats n i d e st) = accepted st"
  by (simp_all add: updateDeliveryStats_def)

lemma deliverSingle_frame [simp]:
  "queues (deliverSingle w n row ms st) = queues st" "timers (deliverSingle w n row ms st) = timers st"
  "sent (deliverSingle w n row ms st) = sent st @ [(fr_id row, ms)]"
  "accepted (deliverSingle w n row ms st) = accepted st"
  by (auto simp: deliverSingle_def deliverWebhook_def Let_def split: delivery_type.splits sum.splits)

text \<open>The sizes of the batches that the table asks for.\<close>

definition sizes :: "feed_state \<Rightarrow> (string \<times> nat) set" where
  "sizes st = (\<lambda>r. (fr_id r, batch_size r)) ` set (rows st)"

lemma image_tbl_update: "(\<And>r. h (f r) = h r) \<Longrightarrow> h ` set (tbl_update key i f rs) = h ` set rs"
  unfolding tbl_update_def set_map image_image by (rule image_cong) auto

lemma stats_sizes [simp]: "sizes (updateDeliveryStats n i d e st) = sizes st"
  unfolding sizes_def updateDeliveryStats_def by simp (rule image_tbl_update, simp add: batch_size_def)

lemma sizes_cong [simp]: "sizes (st\<lparr>queues := q\<rparr>) = sizes st" "sizes (st\<lparr>timers := t\<rparr>) = sizes st"
  "sizes (st\<lparr>sent := s\<rparr>) = sizes st" "sizes (st\<lparr>accepted := a\<rparr>) = sizes st" "sizes (st\<lparr>requests := r\<rparr>) = sizes st"
  by (simp_all add: sizes_def)

lemma deliverSingle_sizes [simp]: "sizes (deliverSingle w n row ms st) = sizes st"
  by (auto simp: deliverSingle_def deliverWebhook_def Let_def split: delivery_type.splits sum.splits)

definition sent_to :: "feed_state \<Rightarrow> string \<Rightarrow> feed_msg list" where
  "sent_to st i = concat (map snd (filter (\<lambda>p. fst p = i) (sent st)))"

definition accepted_for :: "feed_state \<Rightarrow> string \<Rightarrow> feed_msg list" where
  "accepted_for st i = map snd (filter (\<lambda>p. fst p = i) (accepted st))"

text \<open>The four observations that the properties speak of.\<close>

definition observe :: "feed_state \<Rightarrow> string \<Rightarrow> feed_msg list \<times> feed_msg list \<times> feed_msg list \<times> (int \<times> feed_row) option" where
  "observe st i = (accepted_for st i, sent_to st i, queue_of st i, jm_get (timers st) i)"

lemmas observe_simps = observe_def sent_to_def accepted_for_def queue_of_def

lemma observe_eq: "observe st i = (a, s, q, t) \<longleftrightarrow>
    accepted_for st i = a \<and> sent_to st i = s \<and> queue_of st i = q \<and> jm_get (timers st) i = t"
  by (simp add: observe_def)

lemma deliverSingle_observe:
  "observe (deliverSingle w n row ms st) i =
    (case observe st i of (a, s, q, t) \<Rightarrow> (a, if i = fr_id row then s @ ms else s, q, t))"
  by (simp add: observe_simps)

lemma deliverBatch_observe:
  "observe (deliverBatch w n row st) i =
    (case observe st i of (a, s, q, t) \<Rightarrow>
      if i = fr_id row \<and> q \<noteq> [] then (a, s @ take (batch_size row) q, drop (batch_size row) q, None) else (a, s, q, t))"
proof (cases "queue_of st (fr_id row) = []")
  case True
  then show ?thesis by (auto simp: deliverBatch_def Let_def observe_def)
next
  case False
  then show ?thesis
    by (cases "i = fr_id row") (simp_all add: deliverBatch_def Let_def deliverSingle_observe, simp_all add: observe_simps)
qed

lemma addToBatch_observe:
  "observe (addToBatch w n row m st) i =
    (case observe st i of (a, s, q, t) \<Rightarrow>
      if i \<noteq> fr_id row then (a, s, q, t)
      else if batch_size row \<le> length (q @ [m])
        then (a, s @ take (batch_size row) (q @ [m]), drop (batch_size row) (q @ [m]), None)
        else (a, s, q @ [m], Some (n + 5000, row)))"
  by (auto simp: addToBatch_def Let_def deliverBatch_observe) (simp_all add: observe_simps)

lemma fireTimer_observe:
  "observe (fireTimer w n j st) i =
    (case observe st i of (a, s, q, t) \<Rightarrow>
      (case jm_get (timers st) j of
         Some (due, row) \<Rightarrow>
           if n < due then (a, s, q, t)
           else if i = fr_id row \<and> q \<noteq> []
             then (a, s @ take (batch_size row) q, drop (batch_size row) q, None)
             else (a, s, q, if i = j then None else t)
       | None \<Rightarrow> (a, s, q, t)))"
  by (auto simp: fireTimer_def deliverBatch_observe split: option.splits) (auto simp: observe_simps)

lemma deliverMessage_cases:
  obtains "deliverMessage w n j m st = st"
  | row where "getSubscription j st = Some row" "fr_id row = j"
      "deliverMessage w n j m st =
        (if 1 < batch_size row then addToBatch w n row m (st\<lparr>accepted := accepted st @ [(j, m)]\<rparr>)
         else deliverSingle w n row [m] (st\<lparr>accepted := accepted st @ [(j, m)]\<rparr>))"
proof (cases "getSubscription j st")
  case (Some row)
  then have "fr_id row = j" using tbl_find_Some [of fr_id j "rows st" row] by (simp add: getSubscription_def)
  with Some show ?thesis
    by (cases "deliverMessage w n j m st = st") (auto simp: deliverMessage_def Let_def intro: that split: if_splits option.splits)
qed (simp add: deliverMessage_def that)

lemma accept_observe:
  "observe (st\<lparr>accepted := accepted st @ [(j, m)]\<rparr>) i =
    (case observe st i of (a, s, q, t) \<Rightarrow> (if i = j then a @ [m] else a, s, q, t))"
  by (simp add: observe_simps)

lemma table_observe [simp]:
  "observe (createSubscription i' c st) i = observe st i" "observe (updateSubscription i' u st) i = observe st i"
  "observe (deleteSubscription i' st) i = observe st i"
  by (simp_all add: observe_simps createSubscription_def updateSubscription_def deleteSubscription_def)

section \<open>Nothing is lost\<close>

definition conserved :: "feed_state \<Rightarrow> bool" where
  "conserved st = (\<forall>i. mset (accepted_for st i) = mset (sent_to st i) + mset (queue_of st i))"

definition balanced :: "feed_msg list \<times> feed_msg list \<times> feed_msg list \<times> (int \<times> feed_row) option \<Rightarrow> bool" where
  "balanced ob = (case ob of (a, s, q, t) \<Rightarrow> mset a = mset s + mset q)"

lemma conserved_iff: "conserved st \<longleftrightarrow> (\<forall>i. balanced (observe st i))"
  by (simp add: conserved_def balanced_def observe_def)

lemma take_drop_mset: "mset (take n xs) + mset (drop n xs) = mset xs"
  by (metis append_take_drop_id mset_append)

lemma fire_balanced: "balanced (observe st i) \<Longrightarrow> balanced (observe (fireTimer w n j st) i)"
  by (auto simp: fireTimer_observe balanced_def take_drop_mset add.assoc split: prod.splits option.splits)

lemma message_balanced: "balanced (observe st i) \<Longrightarrow> balanced (observe (deliverMessage w n j m st) i)"
proof (cases rule: deliverMessage_cases [of w n j m st])
  case (2 row)
  assume b: "balanced (observe st i)"
  obtain a s q t where o: "observe st i = (a, s, q, t)" by (cases "observe st i") auto
  have "mset (take k (q @ [m])) + mset (drop k (q @ [m])) = add_mset m (mset q)" for k
    using take_drop_mset [of k "q @ [m]"] by simp
  then show ?thesis using b o 2
    by (simp add: addToBatch_observe deliverSingle_observe accept_observe balanced_def add.assoc del: take_append drop_append)
qed simp

interpretation feed: invariant_system feed_start "feed_step resize" conserved for resize
proof unfold_locales
  fix st assume "feed_start st"
  then show "conserved st" by (simp add: feed_start_def conserved_def observe_simps)
next
  fix st st' assume "conserved st" "feed_step resize st st'"
  then show "conserved st'"
    by (auto simp: conserved_iff elim!: feed_stepE intro: fire_balanced message_balanced)
qed

text \<open>C24: The feed neither loses nor repeats a message: in every state that the service reaches before it is
  shut down, through messages, timers, any answers of the receivers, and any changes of the
  subscriptions, the messages that a subscription accepted are those handed over for delivery
  and those in its queue, each as often as it was accepted.\<close>

theorem feed_conserves_messages:
  assumes "feed_start st" "(feed_step resize)\<^sup>*\<^sup>* st st'"
  shows "mset (accepted_for st' i) = mset (sent_to st' i) + mset (queue_of st' i)"
  using feed.steps_inv [OF feed.inv_init [OF assms(1)] assms(2)] by (simp add: conserved_def)

definition demo_row :: "string \<Rightarrow> int \<Rightarrow> feed_row" where
  "demo_row i b = \<lparr>fr_id = i, fr_user = None, fr_channel = ''trades'', fr_filters = None, fr_type = Websocket,
     fr_config = \<lparr>wc_url = [], wc_headers = [], wc_secret = None\<rparr>, fr_batchSize = Some b, fr_status = ''active'',
     fr_delivered = 0, fr_failed = 0, fr_lastError = None, fr_lastDeliveryAt = None\<rparr>"

definition demo_msg :: "nat \<Rightarrow> feed_msg" where
  "demo_msg k = \<lparr>fm_sequence = k, fm_channel = ''trades'', fm_data = \<lparr>fd_pool = None, fd_tokenIn = None, fd_tokenOut = None,
     fd_amountIn = None, fd_contract = None, fd_source = None, fd_sender = None, fd_eventType = None\<rparr>, fm_timestamp = []\<rparr>"

definition demo_world :: feed_world where
  "demo_world = \<lparr>post = (\<lambda>_. Inl ''down''), to_json = (\<lambda>_ _. []), hmac_hex = (\<lambda>_ _. [])\<rparr>"

definition demo_state :: "int \<Rightarrow> feed_state" where
  "demo_state b = \<lparr>rows = [demo_row ''s'' b], queues = [], timers = [], requests = [], sent = [], accepted = []\<rparr>"

text \<open>Messages one after the other at given times, with the timers that are due in between.\<close>

fun feed_run :: "feed_world \<Rightarrow> string \<Rightarrow> (int \<times> feed_msg) list \<Rightarrow> feed_state \<Rightarrow> feed_state" where
  "feed_run w i [] st = st"
| "feed_run w i ((t, m) # ms) st = feed_run w i ms (deliverMessage w t i m (fireTimer w t i st))"

lemma feed_run_steps: "(feed_step resize)\<^sup>*\<^sup>* st (feed_run w i ms st)"
proof (induction ms arbitrary: st)
  case (Cons p ms)
  obtain t m where p: "p = (t, m)" by (cases p)
  have "(feed_step resize)\<^sup>*\<^sup>* st (deliverMessage w t i m (fireTimer w t i st))"
    by (meson feed_step.Fire feed_step.Message r_into_rtranclp rtranclp.rtrancl_into_rtrancl)
  then show ?case using Cons [of "deliverMessage w t i m (fireTimer w t i st)"] p by simp
qed simp

lemma demo_start: "feed_start (demo_state b)"
  by (simp add: feed_start_def demo_state_def)

theorem feed_conserves_messages_witness:
  "mset [demo_msg 1, demo_msg 2, demo_msg 3] = mset [demo_msg 1, demo_msg 2] + mset [demo_msg 3]"
proof -
  let ?st = "feed_run demo_world ''s'' [(0, demo_msg 1), (10, demo_msg 2), (20, demo_msg 3)] (demo_state 2)"
  have "accepted_for ?st ''s'' = [demo_msg 1, demo_msg 2, demo_msg 3]" "sent_to ?st ''s'' = [demo_msg 1, demo_msg 2]"
    "queue_of ?st ''s'' = [demo_msg 3]"
    by code_simp+
  then show ?thesis
    using feed_conserves_messages [OF demo_start [of 2] feed_run_steps [of False "demo_state 2" demo_world "''s''"
        "[(0, demo_msg 1), (10, demo_msg 2), (20, demo_msg 3)]"], of "''s''"] by simp
qed

section \<open>Order, and the timer\<close>

definition orderly :: "(string \<times> nat) set \<Rightarrow> string \<Rightarrow>
    feed_msg list \<times> feed_msg list \<times> feed_msg list \<times> (int \<times> feed_row) option \<Rightarrow> bool" where
  "orderly sz i ob = (case ob of (a, s, q, t) \<Rightarrow> a = s @ q \<and>
     (case t of None \<Rightarrow> q = []
      | Some (due, row) \<Rightarrow> q \<noteq> [] \<and> fr_id row = i \<and> length q < batch_size row \<and> (\<forall>b. (i, b) \<in> sz \<longrightarrow> b = batch_size row)))"

definition orderly_state :: "feed_state \<Rightarrow> bool" where
  "orderly_state st = (single_valued (sizes st) \<and> (\<forall>i. orderly (sizes st) i (observe st i)))"

lemma deliverBatch_sizes [simp]: "sizes (deliverBatch w n row st) = sizes st"
  by (simp add: deliverBatch_def Let_def)

lemma addToBatch_sizes [simp]: "sizes (addToBatch w n row m st) = sizes st"
  by (simp add: addToBatch_def Let_def)

lemma fireTimer_sizes [simp]: "sizes (fireTimer w n i st) = sizes st"
  by (simp add: fireTimer_def split: option.splits)

lemma deliverMessage_sizes [simp]: "sizes (deliverMessage w n i m st) = sizes st"
  by (cases rule: deliverMessage_cases [of w n i m st]) simp_all

lemma fire_orderly:
  assumes "\<forall>i. orderly sz i (observe st i)" shows "orderly sz i (observe (fireTimer w n j st) i)"
proof -
  obtain a s q t where o: "observe st i = (a, s, q, t)" by (cases "observe st i") auto
  show ?thesis
  proof (cases "jm_get (timers st) j")
    case None
    then show ?thesis using assms [rule_format, of i] by (simp add: fireTimer_def)
  next
    case (Some dr)
    obtain due row where dr: "dr = (due, row)" by (cases dr)
    have "orderly sz j (observe st j)" using assms by blast
    then have j: "fr_id row = j" "length (queue_of st j) < batch_size row" "queue_of st j \<noteq> []"
      using Some dr by (auto simp: orderly_def observe_def)
    have "orderly sz i (a, s, q, t)" using assms o by metis
    moreover have "i = j \<Longrightarrow> q = queue_of st j" using o by (simp add: observe_eq)
    ultimately show ?thesis using o Some dr j by (auto simp: fireTimer_observe orderly_def)
  qed
qed

lemma message_orderly:
  assumes sv: "single_valued (sizes st)" and ok: "orderly (sizes st) i (observe st i)"
  shows "orderly (sizes st) i (observe (deliverMessage w n j m st) i)"
proof (cases rule: deliverMessage_cases [of w n j m st])
  case (2 row)
  obtain a s q t where o: "observe st i = (a, s, q, t)" by (cases "observe st i") auto
  have "row \<in> set (rows st)" using 2(1,2) tbl_find_Some [of fr_id j "rows st" row] by (simp add: getSubscription_def)
  then have b: "(j, batch_size row) \<in> sizes st" using 2(2) by (auto simp: sizes_def)
  then have u: "\<forall>b. (j, b) \<in> sizes st \<longrightarrow> b = batch_size row" using sv by (auto dest: single_valuedD)
  show ?thesis
  proof (cases "i = j")
    case False
    then show ?thesis using ok 2 o
      by (simp add: addToBatch_observe deliverSingle_observe accept_observe)
  next
    case True
    have len: "length q < max 1 (batch_size row) \<and> (batch_size row \<le> 1 \<longrightarrow> q = [])" and a: "a = s @ q"
      using ok o b True by (cases q; auto simp: orderly_def split: option.splits)+
    show ?thesis
    proof (cases "1 < batch_size row")
      case big: True
      show ?thesis using o True 2 big len a u ok
        by (auto simp: addToBatch_observe accept_observe orderly_def)
    next
      case False
      then show ?thesis using o True 2 len a ok
        by (auto simp: deliverSingle_observe accept_observe orderly_def split: option.splits)
    qed
  qed
qed (use ok in simp)

lemma create_orderly:
  assumes "orderly_state st" "newId \<notin> fr_id ` set (rows st)" "newId \<notin> set (jm_keys (queues st))"
  shows "orderly_state (createSubscription newId c st)"
proof -
  obtain b where b: "sizes (createSubscription newId c st) = insert (newId, b) (sizes st)"
    by (auto simp: sizes_def createSubscription_def intro: that)
  have "(newId, b') \<notin> sizes st" for b' using assms(2) by (auto simp: sizes_def)
  then have "single_valued (insert (newId, b) (sizes st))"
    using assms(1) by (auto simp: orderly_state_def single_valued_def)
  note sv = this
  have "queue_of st newId = []"
    using assms(3) by (simp add: queue_of_def jm_keys_def jm_get_def map_of_eq_None_iff [symmetric])
  then have "orderly (insert (newId, b) (sizes st)) i (observe st i)" for i
  proof -
    assume q: "queue_of st newId = []"
    have "orderly (sizes st) i (observe st i)" using assms(1) by (simp add: orderly_state_def)
    then show ?thesis using q by (auto simp: orderly_def observe_def split: option.splits)
  qed
  then show ?thesis using sv unfolding orderly_state_def b by simp
qed

lemma shrink_orderly:
  "orderly_state st \<Longrightarrow> sizes st' \<subseteq> sizes st \<Longrightarrow> \<forall>i. observe st' i = observe st i \<Longrightarrow> orderly_state st'"
  unfolding orderly_state_def
  by (auto simp: orderly_def single_valued_subset split: option.splits prod.splits) (blast | metis)+

lemma update_sizes: "up_batchSize u = None \<Longrightarrow> sizes (updateSubscription i u st) = sizes st"
  unfolding sizes_def updateSubscription_def by simp (rule image_tbl_update, simp add: batch_size_def)

interpretation fifo: invariant_system feed_start "feed_step False" orderly_state
proof unfold_locales
  fix st assume "feed_start st"
  then show "orderly_state st"
    by (auto simp: feed_start_def orderly_state_def orderly_def observe_simps sizes_def single_valued_def distinct_map
        dest: inj_onD)
next
  fix st st' assume "orderly_state st" "feed_step False st st'"
  then show "orderly_state st'"
  proof (elim feed_stepE)
    fix newId c assume "orderly_state st" "st' = createSubscription newId c st" "newId \<notin> fr_id ` set (rows st)"
      "newId \<notin> set (jm_keys (queues st))"
    then show ?thesis by (simp add: create_orderly)
  next
    fix u i assume "orderly_state st" "st' = updateSubscription i u st" "up_batchSize u = None \<or> False"
    then show ?thesis by (intro shrink_orderly [of st st']) (simp_all add: update_sizes)
  next
    fix i assume "orderly_state st" "st' = deleteSubscription i st"
    then show ?thesis by (intro shrink_orderly [of st st']) (simp_all, auto simp: sizes_def deleteSubscription_def)
  next
    fix w n i m assume "orderly_state st" "st' = deliverMessage w n i m st"
    then show ?thesis by (simp add: orderly_state_def message_orderly)
  next
    fix w n i assume "orderly_state st" "st' = fireTimer w n i st"
    then show ?thesis by (simp add: orderly_state_def fire_orderly)
  qed
qed

text \<open>C6: While batch sizes are not changed, deliveries keep the order and every waiting message has a timer:
  in every reachable state the accepted messages of a subscription are the delivered ones
  followed by its queue; and when the queue is not empty, a timer is set for it that, when it is
  due, hands over the whole queue in one batch smaller than the batch size and leaves it
  empty.\<close>

theorem feed_fifo_and_flush:
  assumes "feed_start st" "(feed_step False)\<^sup>*\<^sup>* st st'"
  shows "accepted_for st' i = sent_to st' i @ queue_of st' i \<and>
    (queue_of st' i \<noteq> [] \<longrightarrow> (\<exists>due row. jm_get (timers st') i = Some (due, row) \<and>
      length (queue_of st' i) < batch_size row \<and>
      (\<forall>w now. due \<le> now \<longrightarrow>
        sent (fireTimer w now i st') = sent st' @ [(i, queue_of st' i)] \<and> queue_of (fireTimer w now i st') i = [])))"
proof -
  have "orderly_state st'" using fifo.steps_inv [OF fifo.inv_init [OF assms(1)] assms(2)] .
  then have o: "orderly (sizes st') i (observe st' i)" by (simp add: orderly_state_def)
  then have "accepted_for st' i = sent_to st' i @ queue_of st' i" by (simp add: orderly_def observe_def)
  moreover have ?thesis if q: "queue_of st' i \<noteq> []"
  proof -
    obtain due row where t: "jm_get (timers st') i = Some (due, row)" "fr_id row = i" "length (queue_of st' i) < batch_size row"
      using o q by (auto simp: orderly_def observe_def split: option.splits)
    have "sent (fireTimer w now i st') = sent st' @ [(i, queue_of st' i)] \<and> queue_of (fireTimer w now i st') i = []"
      if "due \<le> now" for w now
      using t q that by (simp add: fireTimer_def deliverBatch_def Let_def queue_of_def)
    then show ?thesis using t \<open>accepted_for st' i = sent_to st' i @ queue_of st' i\<close> by blast
  qed
  ultimately show ?thesis by blast
qed

theorem feed_fifo_and_flush_witness:
  "sent (fireTimer demo_world 5020 ''s'' (feed_run demo_world ''s'' [(0, demo_msg 1), (10, demo_msg 2), (20, demo_msg 3)] (demo_state 2))) =
    [(''s'', [demo_msg 1, demo_msg 2]), (''s'', [demo_msg 3])]"
proof -
  let ?st = "feed_run demo_world ''s'' [(0, demo_msg 1), (10, demo_msg 2), (20, demo_msg 3)] (demo_state 2)"
  have e: "queue_of ?st ''s'' = [demo_msg 3]" "map_option fst (jm_get (timers ?st) ''s'') = Some 5020"
    "sent ?st = [(''s'', [demo_msg 1, demo_msg 2])]"
    by code_simp+
  from feed_fifo_and_flush [OF demo_start [of 2] feed_run_steps [of False "demo_state 2" demo_world "''s''"
      "[(0, demo_msg 1), (10, demo_msg 2), (20, demo_msg 3)]"], of "''s''"]
  obtain due row where "jm_get (timers ?st) ''s'' = Some (due, row)"
    "\<forall>w now. due \<le> now \<longrightarrow> sent (fireTimer w now ''s'' ?st) = sent ?st @ [(''s'', queue_of ?st ''s'')]"
    unfolding e(1) by blast
  then show ?thesis using e by auto
qed

text \<open>A smaller batch size strands messages: after three messages wait for a batch of ten and the size is
  set to two, the next message sends two of the four and leaves two in the queue without any
  timer, so no passing of time delivers them.\<close>

theorem shrunk_batch_strands:
  "let st = deliverMessage demo_world 30 ''s'' (demo_msg 4)
       (updateSubscription ''s'' ((status_update ''active'')\<lparr>up_batchSize := Some 2\<rparr>)
         (feed_run demo_world ''s'' [(0, demo_msg 1), (10, demo_msg 2), (20, demo_msg 3)] (demo_state 10)))
   in sent st = [(''s'', [demo_msg 1, demo_msg 2])] \<and> queue_of st ''s'' = [demo_msg 3, demo_msg 4] \<and>
      timers st = [] \<and> (\<forall>now. fireTimer demo_world now ''s'' st = st)"
proof -
  define st where "st = deliverMessage demo_world 30 ''s'' (demo_msg 4)
       (updateSubscription ''s'' ((status_update ''active'')\<lparr>up_batchSize := Some 2\<rparr>)
         (feed_run demo_world ''s'' [(0, demo_msg 1), (10, demo_msg 2), (20, demo_msg 3)] (demo_state 10)))"
  have "sent st = [(''s'', [demo_msg 1, demo_msg 2])]" "queue_of st ''s'' = [demo_msg 3, demo_msg 4]" and t: "timers st = []"
    unfolding st_def by code_simp+
  moreover have "fireTimer demo_world now ''s'' st = st" for now by (simp add: fireTimer_def t)
  ultimately show ?thesis unfolding st_def [symmetric] Let_def by simp
qed

text \<open>Messages that come less than five seconds apart, from a time on.\<close>

fun spaced :: "int \<Rightarrow> (int \<times> feed_msg) list \<Rightarrow> bool" where
  "spaced t [] = True"
| "spaced t ((u, m) # ms) = (u < t + 5000 \<and> spaced u ms)"

lemma waiting_run:
  assumes "getSubscription i st = Some row" "fr_status row = ''active''" "fr_filters row = None"
    "queue_of st i = q" "jm_get (timers st) i = (if q = [] then None else Some (t + 5000, row))"
    "spaced t ms" "length q + length ms < batch_size row"
  shows "sent (feed_run w i ms st) = sent st \<and> queue_of (feed_run w i ms st) i = q @ map snd ms"
  using assms
proof (induction ms arbitrary: st q t)
  case (Cons p ms)
  obtain u m where p: "p = (u, m)" by (cases p)
  have id: "fr_id row = i" using Cons.prems(1) tbl_find_Some [of fr_id i "rows st" row] by (simp add: getSubscription_def)
  have f: "fireTimer w u i st = st" using Cons.prems(5,6) p by (simp add: fireTimer_def)
  let ?st = "deliverMessage w u i m st"
  have st: "?st = st\<lparr>accepted := accepted st @ [(i, m)], queues := jm_set i (q @ [m]) (queues st),
      timers := jm_set i (u + 5000, row) (jm_delete i (timers st))\<rparr>"
    using Cons.prems id by (simp add: deliverMessage_def addToBatch_def Let_def queue_of_def)
  have "sent (feed_run w i ms ?st) = sent ?st \<and> queue_of (feed_run w i ms ?st) i = (q @ [m]) @ map snd ms"
  proof (rule Cons.IH)
    show "getSubscription i ?st = Some row" using Cons.prems(1) by (simp add: st getSubscription_def)
    show "queue_of ?st i = q @ [m]" "jm_get (timers ?st) i = (if q @ [m] = [] then None else Some (u + 5000, row))"
      by (simp_all add: st queue_of_def)
  qed (use Cons.prems p in simp_all)
  then show ?case using f p by (simp add: st)
qed simp

text \<open>The flush timer can be put off again and again: every message restarts the five seconds, so when fewer
  messages than the batch size come less than five seconds apart, none of them is sent while they
  keep coming, however long that takes.\<close>

theorem flush_timer_put_off:
  assumes "getSubscription i st = Some row" "fr_status row = ''active''" "fr_filters row = None"
    "queue_of st i = []" "jm_get (timers st) i = None" "spaced t ms" "length ms < batch_size row"
  shows "sent (feed_run w i ms st) = sent st \<and> queue_of (feed_run w i ms st) i = map snd ms"
  using waiting_run [of i st row "[]" t ms w] assms by simp

text \<open>Ninety-nine messages, one every four seconds: the first has waited for more than six minutes.\<close>

definition slow_stream :: "(int \<times> feed_msg) list" where
  "slow_stream = map (\<lambda>k. (4000 * int k, demo_msg k)) [0..<99]"

theorem flush_timer_put_off_witness:
  "sent (feed_run demo_world ''s'' slow_stream (demo_state 100)) = [] \<and> fst (last slow_stream) = 392000"
proof -
  have sp: "spaced (4000 * int a) (map (\<lambda>k. (4000 * int k, demo_msg k)) [Suc a..<n])" for a n
  proof (induction "n - Suc a" arbitrary: a)
    case (Suc x)
    then show ?case using Suc.hyps(1) [of "Suc a"] by (simp add: upt_conv_Cons)
  qed simp
  have "spaced 0 slow_stream" using sp [of 0 99] by (simp add: slow_stream_def upt_conv_Cons)
  then have "sent (feed_run demo_world ''s'' slow_stream (demo_state 100)) = sent (demo_state 100)"
    using flush_timer_put_off [of "''s''" "demo_state 100" "demo_row ''s'' 100" 0 slow_stream demo_world]
    by (simp add: demo_state_def demo_row_def getSubscription_def tbl_find_def queue_of_def batch_size_def slow_stream_def)
  moreover have "fst (last slow_stream) = 392000" by (simp add: slow_stream_def last_map)
  ultimately show ?thesis by (simp add: demo_state_def)
qed

section \<open>The amount filter\<close>

lemma parse_sign_dec: "parse_sign (dec_nat n) = (1, dec_nat n)"
proof -
  obtain c cs where "dec_nat n = c # cs" by (cases "dec_nat n") auto
  moreover from this have "is_digit c" using dec_nat_digits [of n] by auto
  ultimately show ?thesis using digit_not_sign by (simp add: parse_sign_def)
qed

lemma parseFloat_dec: "parseFloat (dec_nat n) = to_double False (of_nat n)"
proof -
  have dig: "\<forall>c \<in> set (dec_nat n). is_digit c" by (rule dec_nat_digits)
  have d: "takeWhile is_digit (dec_nat n) = dec_nat n" "dropWhile is_digit (dec_nat n) = []"
    using digits_only [OF dig] by blast+
  have "dropWhile is_space (dec_nat n) = dec_nat n"
    using dig digit_not_space by (cases "dec_nat n") auto
  moreover have "\<not> starts_with ''Infinity'' (dec_nat n)"
  proof
    assume "starts_with ''Infinity'' (dec_nat n)"
    then have "set ''Infinity'' \<subseteq> set (dec_nat n)" by (metis set_take_subset starts_with_def)
    then have "is_digit (CHR ''I'')" using dig by auto
    then show False by (simp add: is_digit_def)
  qed
  moreover have "leading_decimal (dec_nat n) = Some (of_nat n)"
    by (simp add: d leading_decimal_def Let_def leading_exponent_def pow10_def)
  ultimately show ?thesis by (simp add: parseFloat_def parse_sign_dec)
qed

definition min_filter :: "string \<Rightarrow> feed_filters" where
  "min_filter s = \<lparr>ff_pools = None, ff_tokens = None, ff_minAmount = Some s, ff_excludePools = None, ff_contracts = None,
     ff_accounts = None, ff_eventTypes = None\<rparr>"

definition amount_data :: "string \<Rightarrow> feed_data" where
  "amount_data s = \<lparr>fd_pool = None, fd_tokenIn = None, fd_tokenOut = None, fd_amountIn = Some s, fd_contract = None,
     fd_source = None, fd_sender = None, fd_eventType = None\<rparr>"

lemma min_filter_iff:
  "matchesFilters (amount_data (dec_nat a)) (min_filter (dec_nat m)) \<longleftrightarrow>
    \<not> double_less (to_double False (of_nat a)) (to_double False (of_nat m))"
  by (simp add: matchesFilters_def min_filter_def amount_data_def allows_def filled_def parseFloat_dec)

text \<open>The minimum amount never drops a message that reaches it, and below \<open>2 ^ 53\<close> it drops all others: for
  decimal amounts a message passes whenever the amount is at least the minimum, of whatever
  size, and when the minimum is below \<open>2 ^ 53\<close>, only then.\<close>

theorem min_amount_filter:
  assumes "m < 2 ^ 53 \<or> m \<le> a"
  shows "matchesFilters (amount_data (dec_nat a)) (min_filter (dec_nat m)) \<longleftrightarrow> m \<le> a"
proof (cases "m \<le> a")
  case True
  then have "round_pos (of_nat m) \<le> round_pos (of_nat a)" by (intro round_pos_mono) simp
  then show ?thesis using True by (auto simp: min_filter_iff to_double_def double_less_def Let_def)
next
  case False
  then have m: "m < 2 ^ 53" "a < m" using assms by auto
  then have r: "round_pos (of_nat m) = of_nat m" "round_pos (of_nat a) = of_nat a"
    using round_pos_small [of m] round_pos_small [of a] by simp_all
  have "of_nat m < (2 ^ 1024 :: rat)"
  proof -
    have "m < 2 ^ 1024" using m(1) by (rule less_le_trans) (rule power_increasing; simp)
    then have "of_nat m < (of_nat (2 ^ 1024) :: rat)" by (simp only: of_nat_less_iff)
    then show ?thesis by simp
  qed
  moreover have "of_nat a < (of_nat m :: rat)" using m(2) by simp
  ultimately show ?thesis using False r by (simp add: min_filter_iff to_double_def double_less_def Let_def)
qed

theorem min_amount_filter_witness:
  "\<not> matchesFilters (amount_data ''999'') (min_filter ''1000'') \<and> matchesFilters (amount_data ''1000'') (min_filter ''1000'')"
proof -
  have d: "dec_nat 999 = ''999''" "dec_nat 1000 = ''1000''" by code_simp+
  show ?thesis using min_amount_filter [of 1000 999] min_amount_filter [of 1000 1000] unfolding d by simp
qed

text \<open>Above that bound amounts are compared after rounding: the amount \<open>2 ^ 53\<close> passes the minimum
  \<open>2 ^ 53 + 1\<close>.\<close>

lemma exp2_of_eq: "pow2 e \<le> q \<Longrightarrow> q < pow2 (e + 1) \<Longrightarrow> exp2_of q = e"
proof -
  assume q: "pow2 e \<le> q" "q < pow2 (e + 1)"
  have "0 < q" using q(1) pow2_pos [of e] by linarith
  from exp2_of_bracket [OF this] q have "e < exp2_of q + 1" "exp2_of q < e + 1"
    by (meson le_less_trans pow2_less)+
  then show ?thesis by simp
qed

lemma min_amount_rounded:
  "matchesFilters (amount_data (dec_nat (2 ^ 53))) (min_filter (dec_nat (2 ^ 53 + 1)))"
proof -
  have e: "exp2_of q = 53" if "2 ^ 53 \<le> q" "q \<le> 2 ^ 53 + 1" for q
    using that by (intro exp2_of_eq) (simp_all add: pow2_def)
  have fl: "\<lfloor>(9007199254740993 / 2 :: rat)\<rfloor> = 4503599627370496" by (simp add: floor_eq_iff)
  have "round_pos (2 ^ 53 + 1) = 2 ^ 53" "round_pos (2 ^ 53) = 2 ^ 53"
    by (simp_all add: round_pos_def ulp_def e pow2_def round_half_even_def Let_def fl)
  then show ?thesis by (simp add: min_filter_iff to_double_def double_less_def Let_def)
qed

end
