(* ===== verification/Feed_Publisher.thy ===== *)
theory Feed_Publisher
  imports Feed_Props
begin

text \<open>
  \<open>src/feed/publisher.ts\<close> and the distribution of \<open>src/feed/orchestrator.ts\<close>: the sequence numbers of
  the feed, the storage of messages, and the fan-out to the subscriptions of a channel. A publish
  has two parts, before and after it waits for the database; the parts of several publishes
  interleave. The WebSocket broadcast and the metrics of the orchestrator are left out.
\<close>

section \<open>The publisher\<close>

text \<open>\<open>pending\<close> holds the publishes that wait for the database with the number in their row; \<open>emitted\<close>
  is the history of the messages handed to the listeners.\<close>

record publisher =
  counter :: nat
  stored :: "(nat \<times> feed_msg) list"
  pending :: "(nat \<times> feed_msg) list"
  emitted :: "feed_msg list"

definition publish_begin :: "feed_msg \<Rightarrow> publisher \<Rightarrow> publisher" where
  "publish_begin msg p =
     p\<lparr>counter := counter p + 1, pending := pending p @ [(counter p + 1, msg)]\<rparr>"

text \<open>The row is stored: the listeners get the message with the counter as it is now.\<close>

definition publish_stored :: "nat \<Rightarrow> publisher \<Rightarrow> publisher" where
  "publish_stored k p =
     (if k < length (pending p) then
        p\<lparr>stored := stored p @ [pending p ! k], pending := take k (pending p) @ drop (Suc k) (pending p),
          emitted := emitted p @ [(snd (pending p ! k))\<lparr>fm_sequence := counter p\<rparr>]\<rparr>
      else p)"

text \<open>The database refuses the row: the caller gets the error.\<close>

definition publish_failed :: "nat \<Rightarrow> publisher \<Rightarrow> publisher" where
  "publish_failed k p = p\<lparr>pending := take k (pending p) @ drop (Suc k) (pending p)\<rparr>"

definition last_sequence :: "publisher \<Rightarrow> nat option" where
  "last_sequence p = (if stored p = [] then None else Some (Max (set (map fst (stored p)))))"

definition getLastSequence :: "publisher \<Rightarrow> nat \<times> publisher" where
  "getLastSequence p =
     (case last_sequence p of None \<Rightarrow> (0, p) | Some n \<Rightarrow> (n, p\<lparr>counter := n\<rparr>))"

text \<open>A new process: the counter starts at zero and is then initialised.\<close>

definition restart :: "publisher \<Rightarrow> publisher" where
  "restart p = snd (getLastSequence (p\<lparr>counter := 0, pending := []\<rparr>))"

inductive publisher_step :: "publisher \<Rightarrow> publisher \<Rightarrow> bool" where
  Begin: "publisher_step p (publish_begin msg p)"
| Stored: "publisher_step p (publish_stored k p)"
| Failed: "publisher_step p (publish_failed k p)"
| Restart: "publisher_step p (restart p)"

inductive_cases publisher_stepE: "publisher_step p p'"

definition new_publisher :: publisher where
  "new_publisher = \<lparr>counter = 0, stored = [], pending = [], emitted = []\<rparr>"

text \<open>Numbers of stored and pending rows are different and not above the counter.\<close>

definition numbered :: "publisher \<Rightarrow> bool" where
  "numbered p = (distinct (map fst (stored p) @ map fst (pending p)) \<and>
     (\<forall>n \<in> set (map fst (stored p) @ map fst (pending p)). 0 < n \<and> n \<le> counter p))"

lemma remove_nth_mset: "k < length xs \<Longrightarrow> mset (xs ! k # take k xs @ drop (Suc k) xs) = mset xs"
  by (metis id_take_nth_drop mset.simps(2) mset_append union_mset_add_mset_right)

lemma begin_numbered: "numbered p \<Longrightarrow> numbered (publish_begin msg p)"
proof -
  assume n: "numbered p"
  then have "\<forall>n \<in> set (map fst (stored p) @ map fst (pending p)). n \<noteq> counter p + 1" by (fastforce simp only: numbered_def)
  then have "counter p + 1 \<notin> set (map fst (stored p) @ map fst (pending p))" by blast
  with n show ?thesis by (auto simp: numbered_def publish_begin_def le_SucI)
qed

lemma stored_numbered:
  assumes "numbered p" shows "numbered (publish_stored k p)"
proof (cases "k < length (pending p)")
  case True
  let ?old = "map fst (stored p) @ map fst (pending p)"
  let ?new = "map fst (stored (publish_stored k p)) @ map fst (pending (publish_stored k p))"
  have "mset ?new = image_mset fst (mset (stored p) + mset (pending p ! k # take k (pending p) @ drop (Suc k) (pending p)))"
    using True by (simp add: publish_stored_def)
  also have "\<dots> = mset ?old" unfolding remove_nth_mset [OF True] by simp
  finally have m: "mset ?new = mset ?old" .
  then have "set ?new = set ?old" by (rule mset_eq_setD)
  moreover have "counter (publish_stored k p) = counter p" by (simp add: publish_stored_def)
  ultimately show ?thesis
    using assms mset_eq_imp_distinct_iff [OF m] unfolding numbered_def by metis
qed (use assms in \<open>simp add: publish_stored_def\<close>)

lemma failed_numbered: "numbered p \<Longrightarrow> numbered (publish_failed k p)"
proof -
  assume n: "numbered p"
  let ?P = "map fst (take k (pending p))" and ?M = "map fst (take 1 (drop k (pending p)))"
    and ?D = "map fst (drop (Suc k) (pending p))"
  have p: "map fst (pending p) = ?P @ ?M @ ?D"
    by (metis One_nat_def append_take_drop_id drop_drop map_append plus_1_eq_Suc)
  from n have "distinct (map fst (stored p) @ ?P @ ?D)" unfolding numbered_def p by auto
  moreover from n have "\<forall>n \<in> set (map fst (stored p) @ ?P @ ?D). 0 < n \<and> n \<le> counter p"
    unfolding numbered_def p by (simp only: set_append) blast
  ultimately show ?thesis unfolding numbered_def publish_failed_def by simp
qed

lemma restart_numbered: "numbered p \<Longrightarrow> numbered (restart p)"
  by (auto simp: numbered_def restart_def getLastSequence_def last_sequence_def)

interpretation publisher: invariant_system "\<lambda>p. p = new_publisher" publisher_step numbered
  by unfold_locales
    (auto simp: new_publisher_def numbered_def [of "\<lparr>counter = 0, stored = [], pending = [], emitted = []\<rparr>"]
      elim!: publisher_stepE intro: begin_numbered stored_numbered failed_numbered restart_numbered)

text \<open>Stored sequence numbers are unique: in every state that the publisher reaches, with any interleaving
  of publishes, failed inserts and restarts that read the last number back, no two stored rows
  have the same number and the next publish takes a new one.\<close>

theorem stored_sequences_unique:
  assumes "publisher_step\<^sup>*\<^sup>* new_publisher p"
  shows "distinct (map fst (stored p)) \<and>
    (\<forall>k msg. (k, msg) \<in> set (pending (publish_begin m p)) \<longrightarrow> k \<notin> fst ` set (stored p))"
proof -
  have "numbered p" using publisher.steps_inv [OF publisher.inv_init [OF refl] assms] .
  then have "numbered p" "numbered (publish_begin m p)" by (simp_all add: begin_numbered)
  then have d: "distinct (map fst (stored p))" "distinct (map fst (stored p) @ map fst (pending (publish_begin m p)))"
    by (simp_all add: numbered_def publish_begin_def)
  have "k \<notin> fst ` set (stored p)" if "(k, msg) \<in> set (pending (publish_begin m p))" for k msg
  proof -
    have "k \<in> set (map fst (pending (publish_begin m p)))" using that by force
    then show ?thesis using d(2) by auto
  qed
  with d(1) show ?thesis by blast
qed

definition run_pair :: "feed_msg \<Rightarrow> feed_msg \<Rightarrow> publisher" where
  "run_pair a b = publish_stored 0 (publish_stored 0 (publish_begin b (publish_begin a new_publisher)))"

theorem stored_sequences_unique_witness:
  "map fst (stored (run_pair (demo_msg 7) (demo_msg 8))) = [1, 2] \<and> distinct (map fst (stored (run_pair (demo_msg 7) (demo_msg 8))))"
proof -
  have "publisher_step\<^sup>*\<^sup>* new_publisher (run_pair (demo_msg 7) (demo_msg 8))" unfolding run_pair_def
    by (meson publisher_step.Begin publisher_step.Stored rtranclp.rtrancl_into_rtrancl rtranclp.rtrancl_refl)
  from stored_sequences_unique [OF this] have "distinct (map fst (stored (run_pair (demo_msg 7) (demo_msg 8))))" by blast
  moreover have "map fst (stored (run_pair (demo_msg 7) (demo_msg 8))) = [1, 2]"
    by (simp add: run_pair_def publish_stored_def publish_begin_def new_publisher_def)
  ultimately show ?thesis by simp
qed

text \<open>Overlapping publishes give listeners the same number: when a second publish begins before the row of
  the first is stored, the rows are numbered one and two, and both messages are handed to the
  listeners with the number two.\<close>

theorem emitted_sequences_collide:
  "map fst (stored (run_pair a b)) = [1, 2] \<and> map fm_sequence (emitted (run_pair a b)) = [2, 2]"
  by (simp add: run_pair_def publish_stored_def publish_begin_def new_publisher_def)

section \<open>Distribution\<close>

text \<open>The data of a trade: both tokens are objects.\<close>

record trade =
  tr_pool :: string
  tr_tokenIn :: string
  tr_tokenOut :: string
  tr_amountIn :: string
  tr_sender :: string

definition trade_data :: "trade \<Rightarrow> feed_data" where
  "trade_data t = \<lparr>fd_pool = Some (tr_pool t), fd_tokenIn = Some (TokenObject (tr_tokenIn t)),
     fd_tokenOut = Some (TokenObject (tr_tokenOut t)), fd_amountIn = Some (tr_amountIn t), fd_contract = None,
     fd_source = None, fd_sender = Some (tr_sender t), fd_eventType = None\<rparr>"

definition distributeMessage :: "feed_world \<Rightarrow> int \<Rightarrow> feed_msg \<Rightarrow> feed_state \<Rightarrow> feed_state" where
  "distributeMessage w now msg st =
     fold (\<lambda>row. deliverMessage w now (fr_id row) msg) (getActiveSubscriptions (fm_channel msg) st) st"

text \<open>What decides over a delivery is not changed by one.\<close>

definition gate_of :: "feed_row \<Rightarrow> string \<times> string \<times> string \<times> feed_filters option" where
  "gate_of r = (fr_id r, fr_channel r, fr_status r, fr_filters r)"

lemma gates_stats: "map gate_of (rows (updateDeliveryStats n i d e st)) = map gate_of (rows st)"
  by (auto simp: updateDeliveryStats_def tbl_update_def gate_of_def)

lemma gates_single: "map gate_of (rows (deliverSingle w n row ms st)) = map gate_of (rows st)"
  by (auto simp: deliverSingle_def deliverWebhook_def Let_def gates_stats split: delivery_type.splits sum.splits)

lemma gates_add: "map gate_of (rows (addToBatch w n row m st)) = map gate_of (rows st)"
  by (auto simp: addToBatch_def deliverBatch_def Let_def gates_single)

lemma gates_message: "map gate_of (rows (deliverMessage w n i m st)) = map gate_of (rows st)"
  by (cases rule: deliverMessage_cases [of w n i m st]) (simp_all add: gates_single gates_add)

lemma find_gate: "map_option gate_of (getSubscription i st) = List.find (\<lambda>g. fst g = i) (map gate_of (rows st))"
proof -
  have "map_option gate_of (tbl_find fr_id i rs) = List.find (\<lambda>g. fst g = i) (map gate_of rs)" for rs
    by (induction rs) (simp_all add: tbl_find_def gate_of_def)
  then show ?thesis by (simp add: getSubscription_def)
qed

definition passes :: "feed_msg \<Rightarrow> feed_row \<Rightarrow> bool" where
  "passes m r = (fr_status r = ''active'' \<and> (case fr_filters r of None \<Rightarrow> True | Some f \<Rightarrow> matchesFilters (fm_data m) f))"

lemma passes_gate: "gate_of r = gate_of r' \<Longrightarrow> passes m r = passes m r'"
  by (simp add: gate_of_def passes_def)

lemma batch_accepted [simp]: "accepted (addToBatch w n row m st) = accepted st"
  by (simp add: addToBatch_def deliverBatch_def Let_def)

lemma message_accepted:
  "accepted (deliverMessage w n i m st) = accepted st @
    (case getSubscription i st of None \<Rightarrow> [] | Some r \<Rightarrow> if passes m r then [(i, m)] else [])"
  by (auto simp: deliverMessage_def Let_def passes_def split: option.splits)

lemma fold_accepted:
  fixes st :: feed_state
  assumes "distinct (map fr_id (rows st))" "set rs \<subseteq> set (rows st)" "map gate_of (rows st') = map gate_of (rows st)"
  shows "accepted (fold (\<lambda>row. deliverMessage w n (fr_id row) m) rs st') =
    accepted st' @ map (\<lambda>r. (fr_id r, m)) (filter (passes m) rs)"
  using assms(2,3)
proof (induction rs arbitrary: st')
  case (Cons r rs)
  have "getSubscription (fr_id r) st = Some r"
    using Cons.prems(1) tbl_find_distinct [OF assms(1)] by (simp add: getSubscription_def)
  then have "map_option gate_of (getSubscription (fr_id r) st') = Some (gate_of r)"
    using find_gate [of "fr_id r"] Cons.prems(2) by (metis option.simps(9))
  then obtain r' where r': "getSubscription (fr_id r) st' = Some r'" "passes m r' = passes m r"
    using passes_gate by blast
  have "map gate_of (rows (deliverMessage w n (fr_id r) m st')) = map gate_of (rows st)"
    using Cons.prems(2) by (simp add: gates_message)
  from Cons.IH [OF _ this] Cons.prems(1) show ?case
    by (simp add: message_accepted r')
qed simp



text \<open>A token filter blocks every trade: trades are published with objects in their token fields, and a
  filter compares its texts with the fields, so no trade passes a filter with a list of tokens,
  whatever the tokens are.\<close>

theorem token_filter_blocks_trades:
  assumes "ff_tokens f = Some ts"
  shows "\<not> matchesFilters (trade_data t) f"
  using assms by (simp add: matchesFilters_def trade_data_def has_token_def list_ex_iff)

theorem token_filter_blocks_trades_witness:
  "\<not> matchesFilters (trade_data \<lparr>tr_pool = ''P'', tr_tokenIn = ''XLM'', tr_tokenOut = ''USDC'', tr_amountIn = ''5'', tr_sender = ''A''\<rparr>)
    ((min_filter ''1'')\<lparr>ff_tokens := Some [''XLM'', ''USDC'']\<rparr>)"
  by (rule token_filter_blocks_trades) simp

end
