(* ===== verification/Bridge_Detector.thy ===== *)
theory Bridge_Detector
  imports Octra_Prelude
begin

text \<open>
  \<open>src/bridge-tracker/detector.ts\<close> and the contract list of \<open>config.ts\<close>: recognition of
  bridge transfers in contract logs. A detector either throws (\<open>None\<close>: \<open>BigInt\<close> of a text that
  is no number) or returns its list of transfers.
\<close>

section \<open>Types and configuration\<close>

datatype chain = Ethereum | Solana | Cosmos | Bsc | Polygon | Avalanche | Arbitrum | Optimism

datatype bridge_protocol = Wormhole | Axelar | Allbridge | Stargate

record bridge_contract =
  bc_address :: string
  bc_chain :: chain
  bc_protocol :: bridge_protocol

definition contract_of :: "string \<Rightarrow> chain \<Rightarrow> bridge_protocol \<Rightarrow> bridge_contract" where
  "contract_of a c p = \<lparr>bc_address = a, bc_chain = c, bc_protocol = p\<rparr>"

definition BRIDGE_CONTRACTS :: "bridge_contract list" where
  "BRIDGE_CONTRACTS =
    [contract_of ''0x98f3c9e6E3fAce36bAAd05FE09d375Ef1464288B'' Ethereum Wormhole,
     contract_of ''0x3ee18B2214AFF97000D974cf647E7C347E8fa585'' Solana Wormhole,
     contract_of ''0xB6F6D86a8f9879A9c87f643768d9efc38c1Da6d7'' Bsc Wormhole,
     contract_of ''0x4F4495243837681061C4743b74B3eEdf548D56A5'' Ethereum Axelar,
     contract_of ''0xEAccEdF8bC91f5e96bDb4442F2B93CaADe1b08cd'' Cosmos Axelar,
     contract_of ''0x3ad2BE63E8b83a2E3F232EBbE648a20a9FcE2626'' Bsc Axelar,
     contract_of ''0xBb3F4bACeB72C2233dE61F4985Bc58E3b1bF3340'' Ethereum Allbridge,
     contract_of ''0xB4eB31F9e0BcA21B72eC46cF07c4BdF6F2F21D3A'' Solana Allbridge,
     contract_of ''0x6Ee51f4F7C1C5f8DbFfB8C0E7e7F8B0e8F8F8F8F'' Bsc Allbridge,
     contract_of ''0x8731d54E9D02c286767d56ac03e8037C07e01e98'' Ethereum Stargate,
     contract_of ''0x4a364f8c717cAAD9A442634F0562f4CbF8e6e3e4'' Bsc Stargate,
     contract_of ''0x45A01E4e04F14f7A4a6702c74187c5F6222033cd'' Polygon Stargate,
     contract_of ''0x12edeA9cd262006cC3C4E77c90d2CD2DD4b1eB90'' Avalanche Stargate]"

definition ALLBRIDGE_TRANSFER_TOPIC :: string where
  "ALLBRIDGE_TRANSFER_TOPIC = ''0xddf252ad1be2c89b69c2b068fc378daa952ba7f163c4a11628f55a4df523b3ef''"

text \<open>An event as the callers pass it, and as the detectors see it.\<close>

record raw_event =
  re_tx :: string
  re_block :: int
  re_contract :: string
  re_topics :: "string list"
  re_data :: string

record parsed_event =
  pe_tx :: string
  pe_block :: int
  pe_address :: string
  pe_topics :: "string list"
  pe_data :: string

record bridge_event =
  be_tx :: string
  be_source :: chain
  be_dest :: chain
  be_asset :: string
  be_amount :: string
  be_sender :: string
  be_recipient :: string
  be_protocol :: bridge_protocol
  be_block :: int
  be_fee :: "string option"

record detection_result =
  dr_detected :: bool
  dr_protocol :: "bridge_protocol option"
  dr_events :: "bridge_event list"

section \<open>Texts and numbers\<close>

definition hex_value :: "char \<Rightarrow> nat" where
  "hex_value c = (let n = (of_char c :: nat) in
     if n \<le> 57 then n - 48 else if n \<le> 70 then n - 55 else n - 87)"

definition hex_number :: "string \<Rightarrow> nat" where
  "hex_number s = foldl (\<lambda>acc c. 16 * acc + hex_value c) 0 s"

text \<open>\<open>parseInt(s, 16)\<close>.\<close>

definition parse_int16 :: "string \<Rightarrow> int option" where
  "parse_int16 s =
     (case parse_sign (dropWhile is_space s) of (sg, u) \<Rightarrow>
        let v = (if starts_with ''0x'' u \<or> starts_with ''0X'' u then drop 2 u else u);
            ds = takeWhile is_hex_char v
        in if ds = [] then None else Some (sg * int (hex_number ds)))"

text \<open>\<open>BigInt(s)\<close> of a text that starts with \<open>0x\<close>: white space around it is ignored, and at
  least one digit is required.\<close>

definition bigint_hex :: "string \<Rightarrow> nat option" where
  "bigint_hex s =
     (let t = js_trim s; ds = drop 2 t
      in if starts_with ''0x'' t \<and> ds \<noteq> [] \<and> list_all is_hex_char ds then Some (hex_number ds) else None)"

definition slice :: "string \<Rightarrow> nat \<Rightarrow> nat \<Rightarrow> string" where
  "slice s a b = take (b - a) (drop a s)"

definition pad_start :: "nat \<Rightarrow> char \<Rightarrow> string \<Rightarrow> string" where
  "pad_start n c s = replicate (n - length s) c @ s"

definition strip_0x :: "string \<Rightarrow> string" where
  "strip_0x s = (if starts_with ''0x'' s then drop 2 s else s)"

fun ascii_pairs :: "string \<Rightarrow> string" where
  "ascii_pairs [] = []"
| "ascii_pairs [c] = (case parse_int16 [c] of
     Some n \<Rightarrow> if 32 \<le> n \<and> n \<le> 126 then [char_of (nat n)] else [] | None \<Rightarrow> [])"
| "ascii_pairs (c # d # cs) = (case parse_int16 [c, d] of
     Some n \<Rightarrow> if 32 \<le> n \<and> n \<le> 126 then [char_of (nat n)] else [] | None \<Rightarrow> []) @ ascii_pairs cs"

definition decodeHexWithPadding :: "string \<Rightarrow> string" where
  "decodeHexWithPadding hex = js_trim (ascii_pairs (strip_0x hex))"

definition parseAddressFromTopic :: "string \<Rightarrow> string" where
  "parseAddressFromTopic topic =
     (let clean = (if starts_with ''0x'' topic then topic else ''0x'' @ topic);
          padded = pad_start 66 (CHR ''0'') clean
      in ''0x'' @ drop 26 padded)"

text \<open>The result is keyed by the name of the type: a later word of the same type replaces an
  earlier one.\<close>

fun parse_words :: "string \<Rightarrow> nat \<Rightarrow> string list \<Rightarrow> (string, string) jsmap \<Rightarrow> (string, string) jsmap option" where
  "parse_words clean off [] r = Some r"
| "parse_words clean off (t # ts) r =
     (if t = ''address'' then
        parse_words clean (off + 64) ts (jm_set t (''0x'' @ slice clean off (off + 40)) r)
      else if t = ''uint256'' then
        (case bigint_hex (''0x'' @ slice clean off (off + 64)) of
           None \<Rightarrow> None
         | Some n \<Rightarrow> parse_words clean (off + 64) ts (jm_set t (dec_nat n) r))
      else if t = ''bytes32'' then
        parse_words clean (off + 64) ts (jm_set t (''0x'' @ slice clean off (off + 64)) r)
      else parse_words clean (off + 64) ts r)"

definition parseEventData :: "string \<Rightarrow> string list \<Rightarrow> (string, string) jsmap option" where
  "parseEventData data types = parse_words (strip_0x data) 0 types []"

text \<open>\<open>xs[i] || d\<close> and \<open>m[k] || d\<close> on texts.\<close>

definition or_text :: "string option \<Rightarrow> string \<Rightarrow> string" where
  "or_text x d = (case x of None \<Rightarrow> d | Some s \<Rightarrow> if s = [] then d else s)"

definition topic_at :: "parsed_event \<Rightarrow> nat \<Rightarrow> string option" where
  "topic_at e i = (if i < length (pe_topics e) then Some (pe_topics e ! i) else None)"

section \<open>The four detectors\<close>

text \<open>The loop of a detector: an event throws (\<open>None\<close>), is skipped (\<open>Some None\<close>) or yields
  a transfer.\<close>

fun collect_events :: "('e \<Rightarrow> 'b option option) \<Rightarrow> 'e list \<Rightarrow> 'b list option" where
  "collect_events f [] = Some []"
| "collect_events f (e # es) =
     (case f e of
        None \<Rightarrow> None
      | Some None \<Rightarrow> collect_events f es
      | Some (Some b) \<Rightarrow> map_option (Cons b) (collect_events f es))"

definition same_address :: "bridge_contract \<Rightarrow> string \<Rightarrow> bool" where
  "same_address c a = (to_lower (bc_address c) = to_lower a)"

definition find_contract :: "bridge_protocol \<Rightarrow> string \<Rightarrow> bridge_contract option" where
  "find_contract p a = List.find (\<lambda>c. same_address c a \<and> bc_protocol c = p) BRIDGE_CONTRACTS"

definition wormhole_chain :: "int \<Rightarrow> chain" where
  "wormhole_chain i =
     (if i = 2 then Ethereum else if i = 4 then Bsc else if i = 6 then Polygon
      else if i = 1 then Solana else if i = 7 then Avalanche else if i = 23 then Arbitrum
      else if i = 24 then Optimism else Ethereum)"

definition stargate_chain :: "int \<Rightarrow> chain" where
  "stargate_chain i =
     (if i = 101 then Ethereum else if i = 102 then Bsc else if i = 106 then Polygon
      else if i = 109 then Avalanche else if i = 110 then Arbitrum
      else if i = 111 then Optimism else Ethereum)"

definition chain_by_id :: "(int \<Rightarrow> chain) \<Rightarrow> int option \<Rightarrow> chain" where
  "chain_by_id f i = (case i of None \<Rightarrow> Ethereum | Some n \<Rightarrow> f n)"

definition wormhole_event :: "parsed_event \<Rightarrow> bridge_event option option" where
  "wormhole_event e =
     (case topic_at e 0 of
        None \<Rightarrow> Some None
      | Some t0 \<Rightarrow>
          if \<not> includes_str ''logmessagepublished'' (to_lower t0) then Some None
          else (case find_contract Wormhole (pe_address e) of
             None \<Rightarrow> Some None
           | Some c \<Rightarrow>
               (case parseEventData (pe_data e) [''uint256'', ''uint256'', ''bytes32''] of
                  None \<Rightarrow> None
                | Some data \<Rightarrow>
                    Some (Some \<lparr>be_tx = pe_tx e, be_source = bc_chain c,
                      be_dest = chain_by_id wormhole_chain
                        (parse_int10 (or_text (jm_get data ''uint256'') ''0'')),
                      be_asset = ''WORMHOLE_WRAPPED'',
                      be_amount = or_text (jm_get data ''uint256'') ''0'',
                      be_sender = parseAddressFromTopic (or_text (topic_at e 1) ''''),
                      be_recipient = parseAddressFromTopic (or_text (topic_at e 2) ''''),
                      be_protocol = Wormhole, be_block = pe_block e, be_fee = None\<rparr>))))"

definition detectWormhole :: "parsed_event list \<Rightarrow> bridge_event list option" where
  "detectWormhole evs = collect_events wormhole_event evs"

definition axelar_event :: "parsed_event \<Rightarrow> bridge_event option option" where
  "axelar_event e =
     (let t0 = to_lower (or_text (topic_at e 0) '''') in
      if \<not> includes_str ''tokensent'' t0 \<and> \<not> includes_str ''contractcall'' t0 then Some None
      else (case find_contract Axelar (pe_address e) of
         None \<Rightarrow> Some None
       | Some c \<Rightarrow>
           (case parseEventData (pe_data e) [''bytes32'', ''bytes32'', ''uint256''] of
              None \<Rightarrow> None
            | Some data \<Rightarrow>
                Some (Some \<lparr>be_tx = pe_tx e, be_source = bc_chain c,
                  be_dest = (if bc_chain c = Ethereum then Cosmos else Ethereum),
                  be_asset = decodeHexWithPadding (or_text (topic_at e 2) ''''),
                  be_amount = or_text (jm_get data ''uint256'') ''0'',
                  be_sender = parseAddressFromTopic (or_text (topic_at e 1) ''''),
                  be_recipient = decodeHexWithPadding (or_text (jm_get data ''bytes32'') ''''),
                  be_protocol = Axelar, be_block = pe_block e, be_fee = None\<rparr>))))"

definition detectAxelar :: "parsed_event list \<Rightarrow> bridge_event list option" where
  "detectAxelar evs = collect_events axelar_event evs"

definition is_allbridge_transfer :: "parsed_event \<Rightarrow> bool" where
  "is_allbridge_transfer e =
     (case topic_at e 0 of None \<Rightarrow> False | Some t \<Rightarrow> to_lower t = to_lower ALLBRIDGE_TRANSFER_TOPIC)"

definition allbridge_addresses :: "string list" where
  "allbridge_addresses =
     js_set_of (map (\<lambda>c. to_lower (bc_address c)) (filter (\<lambda>c. bc_protocol c = Allbridge) BRIDGE_CONTRACTS))"

definition allbridge_event :: "parsed_event \<Rightarrow> bridge_event option option" where
  "allbridge_event e =
     (if to_lower (pe_address e) \<notin> set allbridge_addresses then Some None
      else (case List.find (\<lambda>c. same_address c (pe_address e)) BRIDGE_CONTRACTS of
         None \<Rightarrow> Some None
       | Some c \<Rightarrow>
           (case bigint_hex (if starts_with ''0x'' (pe_data e) then pe_data e else ''0x'' @ pe_data e) of
              None \<Rightarrow> None
            | Some n \<Rightarrow>
                Some (Some \<lparr>be_tx = pe_tx e, be_source = bc_chain c,
                  be_dest = (if bc_chain c = Ethereum then Solana else Ethereum),
                  be_asset = ''ALLBRIDGE_TOKEN'', be_amount = dec_nat n,
                  be_sender = parseAddressFromTopic (or_text (topic_at e 1) ''''),
                  be_recipient = parseAddressFromTopic (or_text (topic_at e 2) ''''),
                  be_protocol = Allbridge, be_block = pe_block e, be_fee = None\<rparr>))))"

definition detectAllbridge :: "parsed_event list \<Rightarrow> bridge_event list option" where
  "detectAllbridge evs =
     (let transfers = filter is_allbridge_transfer evs in
      if transfers = [] then Some [] else collect_events allbridge_event transfers)"

definition stargate_event :: "parsed_event \<Rightarrow> bridge_event option option" where
  "stargate_event e =
     (let t0 = to_lower (or_text (topic_at e 0) '''') in
      if \<not> includes_str ''swap'' t0 \<and> \<not> includes_str ''swapremote'' t0 then Some None
      else (case find_contract Stargate (pe_address e) of
         None \<Rightarrow> Some None
       | Some c \<Rightarrow>
           (case parseEventData (pe_data e) [''uint256'', ''uint256'', ''uint256'', ''address''] of
              None \<Rightarrow> None
            | Some data \<Rightarrow>
                (let sender = parseAddressFromTopic (or_text (topic_at e 1) '''') in
                 Some (Some \<lparr>be_tx = pe_tx e, be_source = bc_chain c,
                  be_dest = chain_by_id stargate_chain (parse_int16 (or_text (topic_at e 2) ''0'')),
                  be_asset = ''STARGATE_TOKEN'',
                  be_amount = or_text (jm_get data ''uint256'') ''0'',
                  be_sender = sender,
                  be_recipient = or_text (jm_get data ''address'') sender,
                  be_protocol = Stargate, be_block = pe_block e, be_fee = None\<rparr>)))))"

definition detectStargate :: "parsed_event list \<Rightarrow> bridge_event list option" where
  "detectStargate evs = collect_events stargate_event evs"

section \<open>The two entry points\<close>

definition all_detectors :: "parsed_event list \<Rightarrow> bridge_event list option" where
  "all_detectors evs =
     (case detectWormhole evs of None \<Rightarrow> None | Some w \<Rightarrow>
      case detectAxelar evs of None \<Rightarrow> None | Some a \<Rightarrow>
      case detectAllbridge evs of None \<Rightarrow> None | Some b \<Rightarrow>
      case detectStargate evs of None \<Rightarrow> None | Some s \<Rightarrow> Some (w @ a @ b @ s))"

definition parse_raw :: "raw_event \<Rightarrow> parsed_event" where
  "parse_raw e = \<lparr>pe_tx = re_tx e, pe_block = re_block e, pe_address = re_contract e,
     pe_topics = re_topics e, pe_data = re_data e\<rparr>"

definition detectBridgeTransactions :: "raw_event list \<Rightarrow> detection_result option" where
  "detectBridgeTransactions evs =
     (case all_detectors (map parse_raw evs) of
        None \<Rightarrow> None
      | Some rs \<Rightarrow> Some \<lparr>dr_detected = (0 < length rs),
          dr_protocol = (case rs of [] \<Rightarrow> None | r # _ \<Rightarrow> Some (be_protocol r)),
          dr_events = rs\<rparr>)"

definition known_contracts :: "string list" where
  "known_contracts = js_set_of (map (\<lambda>c. to_lower (bc_address c)) BRIDGE_CONTRACTS)"

definition scanBlockForBridges :: "int \<Rightarrow> raw_event list \<Rightarrow> bridge_event list option" where
  "scanBlockForBridges b evs =
     (let relevant = filter (\<lambda>e. to_lower (re_contract e) \<in> set known_contracts) evs in
      if relevant = [] then Some []
      else all_detectors (map (\<lambda>e. (parse_raw e)\<lparr>pe_block := b\<rparr>) relevant))"

section \<open>Facts about the loops and the topics\<close>

lemma includes_subset: "includes_str p s \<Longrightarrow> set p \<subseteq> set s"
proof (induction s)
  case (Cons c cs)
  show ?case
  proof (cases "starts_with p (c # cs)")
    case True
    then show ?thesis unfolding starts_with_def by (metis set_take_subset)
  next
    case False
    then show ?thesis using Cons by auto
  qed
qed simp

text \<open>A topic as chains emit it: the hexadecimal text of a hash.\<close>

definition hex_topic :: "string \<Rightarrow> bool" where
  "hex_topic t = (starts_with ''0x'' t \<and> list_all is_hex_char (drop 2 t))"

lemma lower_hex: "is_hex_char c \<Longrightarrow> is_hex_char (lower_char c)"
  by (auto simp: is_hex_char_def lower_char_def Let_def)

lemma hex_topic_lacks:
  assumes "hex_topic t" "d \<in> set p" "\<not> is_hex_char d" "d \<noteq> CHR ''x''"
  shows "\<not> includes_str p (to_lower t)"
proof
  assume "includes_str p (to_lower t)"
  then have "d \<in> set (to_lower t)" using includes_subset assms(2) by blast
  moreover have "t = ''0x'' @ drop 2 t" using assms(1)
    by (metis hex_topic_def starts_with_def append_take_drop_id length_Cons list.size(3) numeral_2_eq_2)
  ultimately have "d \<in> lower_char ` (set ''0x'' \<union> set (drop 2 t))"
    unfolding to_lower_def by (metis set_append set_map)
  then have "d = CHR ''0'' \<or> d = CHR ''x'' \<or> is_hex_char d"
    using assms(1) by (auto simp: hex_topic_def list_all_iff lower_hex) (auto simp: lower_char_def Let_def)
  with assms(3,4) show False by (auto simp: is_hex_char_def)
qed

lemma collect_skip: "(\<And>e. e \<in> set es \<Longrightarrow> f e = Some None) \<Longrightarrow> collect_events f es = Some []"
  by (induction es) auto

lemma collect_filter:
  "(\<And>e. e \<in> set es \<Longrightarrow> \<not> P e \<Longrightarrow> f e = Some None) \<Longrightarrow> collect_events f (filter P es) = collect_events f es"
  by (induction es) (auto split: option.splits)

lemma collect_throws: "e \<in> set es \<Longrightarrow> f e = None \<Longrightarrow> collect_events f es = None"
  by (induction es) (auto split: option.splits)

lemma hex_topic_silent:
  assumes "\<And>t. topic_at e 0 = Some t \<Longrightarrow> hex_topic t"
  shows "wormhole_event e = Some None" "axelar_event e = Some None" "stargate_event e = Some None"
proof -
  show "wormhole_event e = Some None"
    using assms hex_topic_lacks [of _ "CHR ''l''" "''logmessagepublished''"]
    by (auto simp: wormhole_event_def is_hex_char_def split: option.split)
  have "\<not> includes_str ''tokensent'' (to_lower (or_text (topic_at e 0) ''''))"
     "\<not> includes_str ''contractcall'' (to_lower (or_text (topic_at e 0) ''''))"
     "\<not> includes_str ''swap'' (to_lower (or_text (topic_at e 0) ''''))"
     "\<not> includes_str ''swapremote'' (to_lower (or_text (topic_at e 0) ''''))"
    using assms hex_topic_lacks [of _ "CHR ''t''" "''tokensent''"]
      hex_topic_lacks [of _ "CHR ''t''" "''contractcall''"]
      hex_topic_lacks [of _ "CHR ''s''" "''swap''"] hex_topic_lacks [of _ "CHR ''s''" "''swapremote''"]
    by (auto simp: or_text_def to_lower_def is_hex_char_def split: option.split)
  then show "axelar_event e = Some None" "stargate_event e = Some None"
    by (simp_all add: axelar_event_def stargate_event_def)
qed

lemma topic_0_parse: "topic_at (parse_raw e) 0 = (case re_topics e of [] \<Rightarrow> None | t # _ \<Rightarrow> Some t)"
  by (simp add: topic_at_def parse_raw_def split: list.split)

lemma detectAllbridge_collect:
  "detectAllbridge evs = collect_events allbridge_event (filter is_allbridge_transfer evs)"
  by (simp add: detectAllbridge_def Let_def)

section \<open>What is detected\<close>

text \<open>On logs as chains emit them, whose first topic is the hexadecimal text of a hash, the
  Wormhole, Axelar and Stargate detectors find nothing: they look for the name of the event in
  that text. Only Allbridge transfers are ever reported.\<close>

theorem hashed_topics_only_allbridge:
  assumes "\<forall>e \<in> set evs. case re_topics e of [] \<Rightarrow> True | t # _ \<Rightarrow> hex_topic t"
  shows "detectWormhole (map parse_raw evs) = Some [] \<and> detectAxelar (map parse_raw evs) = Some [] \<and>
    detectStargate (map parse_raw evs) = Some [] \<and>
    map_option dr_events (detectBridgeTransactions evs) = detectAllbridge (map parse_raw evs)"
proof -
  have t: "\<And>e t. e \<in> set (map parse_raw evs) \<Longrightarrow> topic_at e 0 = Some t \<Longrightarrow> hex_topic t"
    using assms by (fastforce simp: topic_0_parse split: list.splits)
  have w: "detectWormhole (map parse_raw evs) = Some []"
    unfolding detectWormhole_def by (intro collect_skip hex_topic_silent(1) t)
  have a: "detectAxelar (map parse_raw evs) = Some []"
    unfolding detectAxelar_def by (intro collect_skip hex_topic_silent(2) t)
  have s: "detectStargate (map parse_raw evs) = Some []"
    unfolding detectStargate_def by (intro collect_skip hex_topic_silent(3) t)
  have "map_option dr_events (detectBridgeTransactions evs) = detectAllbridge (map parse_raw evs)"
    by (simp add: detectBridgeTransactions_def all_detectors_def w a s split: option.split)
  with w a s show ?thesis by simp
qed

definition stargate_log :: raw_event where
  "stargate_log = \<lparr>re_tx = ''tx1'', re_block = 5,
     re_contract = ''0x8731d54E9D02c286767d56ac03e8037C07e01e98'',
     re_topics = [''0x34660fc8af304464529f48a778e03d03e4d34bcd5f9b6f0cfbf3cd238c642f7f''],
     re_data = []\<rparr>"

lemma hashed_topics_only_allbridge_witness:
  "detectStargate (map parse_raw [stargate_log]) = Some []"
  using hashed_topics_only_allbridge [of "[stargate_log]"]
  by (simp add: stargate_log_def hex_topic_def starts_with_def is_hex_char_def)

text \<open>Only logs of listed contracts can make a detector return something.\<close>

lemma known_contract:
  "find_contract p a \<noteq> None \<Longrightarrow> to_lower a \<in> set known_contracts"
  "to_lower a \<in> set allbridge_addresses \<Longrightarrow> to_lower a \<in> set known_contracts"
  by (auto simp: find_contract_def known_contracts_def allbridge_addresses_def same_address_def find_None_iff
      intro: rev_image_eqI)

lemma unknown_contract_silent:
  assumes "to_lower (pe_address e) \<notin> set known_contracts"
  shows "wormhole_event e = Some None" "axelar_event e = Some None"
    "allbridge_event e = Some None" "stargate_event e = Some None"
proof -
  have "find_contract p (pe_address e) = None" for p
    using known_contract(1) assms by (cases "find_contract p (pe_address e)") auto
  then show "wormhole_event e = Some None" "axelar_event e = Some None" "stargate_event e = Some None"
    by (simp_all add: wormhole_event_def axelar_event_def stargate_event_def Let_def split: option.split)
  show "allbridge_event e = Some None"
    using known_contract(2) assms by (auto simp: allbridge_event_def)
qed

lemma all_detectors_filter:
  "all_detectors (filter (\<lambda>e. to_lower (pe_address e) \<in> set known_contracts) evs) = all_detectors evs"
  (is "all_detectors (filter ?k evs) = _")
proof -
  have "filter is_allbridge_transfer (filter ?k evs) = filter ?k (filter is_allbridge_transfer evs)"
    by (simp add: conj_commute)
  then have b: "detectAllbridge (filter ?k evs) = detectAllbridge evs"
    unfolding detectAllbridge_collect
    by (simp only:) (rule collect_filter, erule unknown_contract_silent)
  have "detectWormhole (filter ?k evs) = detectWormhole evs" "detectAxelar (filter ?k evs) = detectAxelar evs"
    "detectStargate (filter ?k evs) = detectStargate evs"
    unfolding detectWormhole_def detectAxelar_def detectStargate_def
    by (rule collect_filter, erule unknown_contract_silent)+
  with b show ?thesis by (simp only: all_detectors_def)
qed

text \<open>Scanning a block, which first drops the logs of unknown contracts, reports exactly what
  the detection of the same logs reports, errors included.\<close>

theorem scan_agrees_with_detection:
  "scanBlockForBridges b evs =
     map_option dr_events (detectBridgeTransactions (map (\<lambda>e. e\<lparr>re_block := b\<rparr>) evs))"
proof -
  let ?p = "\<lambda>e. (parse_raw e)\<lparr>pe_block := b\<rparr>"
  let ?k = "\<lambda>e. to_lower (pe_address e) \<in> set known_contracts"
  have m: "map parse_raw (map (\<lambda>e. e\<lparr>re_block := b\<rparr>) evs) = map ?p evs"
    by (simp add: parse_raw_def)
  have "map ?p (filter (\<lambda>e. to_lower (re_contract e) \<in> set known_contracts) evs) = filter ?k (map ?p evs)"
    by (simp add: filter_map o_def parse_raw_def)
  then have "scanBlockForBridges b evs = all_detectors (filter ?k (map ?p evs))"
    by (auto simp: scanBlockForBridges_def Let_def all_detectors_def detectWormhole_def detectAxelar_def
        detectStargate_def detectAllbridge_collect)
  then show ?thesis
    by (simp only: all_detectors_filter detectBridgeTransactions_def m) (simp split: option.split)
qed

text \<open>One transfer log of an Allbridge contract without data makes the detection of the whole
  batch throw: the conversion of its amount is not guarded.\<close>

theorem empty_amount_aborts_batch:
  assumes "e \<in> set evs" "is_allbridge_transfer (parse_raw e)"
    and "c \<in> set BRIDGE_CONTRACTS" "bc_protocol c = Allbridge" "same_address c (re_contract e)"
    and "re_data e = [] \<or> re_data e = ''0x''"
  shows "detectBridgeTransactions evs = None"
proof -
  have known: "to_lower (re_contract e) \<in> set allbridge_addresses"
    using assms(3-5) by (auto simp: allbridge_addresses_def same_address_def intro!: image_eqI [of _ _ c])
  moreover obtain d where "List.find (\<lambda>c. same_address c (re_contract e)) BRIDGE_CONTRACTS = Some d"
    using assms(3,5) by (cases "List.find (\<lambda>c. same_address c (re_contract e)) BRIDGE_CONTRACTS")
      (auto simp: find_None_iff)
  moreover have "bigint_hex ''0x'' = None" by (simp add: bigint_hex_def js_trim_def is_space_def)
  ultimately have "allbridge_event (parse_raw e) = None"
    using assms(6) by (auto simp: allbridge_event_def parse_raw_def starts_with_def)
  then have "detectAllbridge (map parse_raw evs) = None"
    unfolding detectAllbridge_collect using assms(1,2) by (intro collect_throws) auto
  then show ?thesis
    by (simp add: detectBridgeTransactions_def all_detectors_def split: option.split)
qed

definition empty_transfer :: raw_event where
  "empty_transfer = \<lparr>re_tx = ''tx2'', re_block = 5,
     re_contract = ''0xBb3F4bACeB72C2233dE61F4985Bc58E3b1bF3340'',
     re_topics = [ALLBRIDGE_TRANSFER_TOPIC], re_data = ''0x''\<rparr>"

lemma empty_amount_aborts_batch_witness:
  "detectBridgeTransactions [stargate_log, empty_transfer] = None"
  by (rule empty_amount_aborts_batch
      [of empty_transfer _ "contract_of ''0xBb3F4bACeB72C2233dE61F4985Bc58E3b1bF3340'' Ethereum Allbridge"])
     (simp_all add: empty_transfer_def is_allbridge_transfer_def parse_raw_def topic_at_def
       BRIDGE_CONTRACTS_def contract_of_def same_address_def)

text \<open>An address in a topic word of 64 digits is read correctly; a missing topic gives a text
  that is no address.\<close>

lemma address_of_word:
  "length a = 40 \<Longrightarrow> length z = 24 \<Longrightarrow> parseAddressFromTopic (''0x'' @ z @ a) = ''0x'' @ a"
  by (simp add: parseAddressFromTopic_def starts_with_def pad_start_def)

lemma address_of_missing_topic: "parseAddressFromTopic '''' = ''0x'' @ replicate 38 (CHR ''0'') @ ''0x''"
  by (simp add: parseAddressFromTopic_def starts_with_def pad_start_def numeral_eq_Suc)

text \<open>An address in a data word is read from the wrong end: the padding and the first 16 digits.\<close>

lemma address_of_data_word:
  assumes "length z = 24" "length a = 40"
  shows "parseEventData (''0x'' @ z @ a) [''address''] = Some [(''address'', ''0x'' @ z @ take 16 a)]"
  using assms by (simp add: parseEventData_def strip_0x_def starts_with_def slice_def jm_set_def)

text \<open>Words of one type share a key: of several numbers only the last is kept.\<close>

lemma last_word_kept:
  assumes "length x = 64" "bigint_hex (''0x'' @ x) = Some m" "length y = 64" "bigint_hex (''0x'' @ y) = Some n"
  shows "parseEventData (''0x'' @ x @ y) [''uint256'', ''uint256''] = Some [(''uint256'', dec_nat n)]"
  using assms by (simp add: parseEventData_def strip_0x_def starts_with_def slice_def jm_set_def)

end
