(* ===== verification/Bridge_Resolver.thy ===== *)
theory Bridge_Resolver
  imports Bridge_Detector Js_Double
begin

text \<open>
  \<open>src/bridge-tracker/chain-providers/index.ts\<close>, \<open>resolver.ts\<close> and \<open>finality.ts\<close>:
  the state of a transaction on its chain, the row of a transfer and the two routines that decide
  its status. The answers of the chain APIs are a parameter (\<open>net\<close>); \<open>None\<close> stands for a call
  that throws, and for \<open>NaN\<close> in a number. A number that is \<open>NaN\<close> is refused by the database
  client, so a write of it throws. Routines run at one instant \<open>now\<close> (milliseconds).
\<close>

section \<open>Chain configuration\<close>

definition confirmationBlocks :: "chain \<Rightarrow> int" where
  "confirmationBlocks c =
     (case c of Ethereum \<Rightarrow> 12 | Solana \<Rightarrow> 32 | Cosmos \<Rightarrow> 1 | Bsc \<Rightarrow> 15 | Polygon \<Rightarrow> 128
      | Avalanche \<Rightarrow> 6 | Arbitrum \<Rightarrow> 12 | Optimism \<Rightarrow> 12)"

definition blockTimeSeconds :: "chain \<Rightarrow> rat" where
  "blockTimeSeconds c =
     (case c of Ethereum \<Rightarrow> 12 | Solana \<Rightarrow> round_pos (4 / 10) | Cosmos \<Rightarrow> 6 | Bsc \<Rightarrow> 3
      | Polygon \<Rightarrow> 2 | Avalanche \<Rightarrow> 2 | Arbitrum \<Rightarrow> 1 / 4 | Optimism \<Rightarrow> 2)"

definition scanner_url :: "chain \<Rightarrow> string option" where
  "scanner_url c =
     (case c of Ethereum \<Rightarrow> Some ''https://etherscan.io/tx/'' | Solana \<Rightarrow> Some ''https://solscan.io/tx/''
      | Cosmos \<Rightarrow> None | Bsc \<Rightarrow> Some ''https://bscscan.com/tx/''
      | Polygon \<Rightarrow> Some ''https://polygonscan.com/tx/'' | Avalanche \<Rightarrow> Some ''https://snowtrace.io/tx/''
      | Arbitrum \<Rightarrow> Some ''https://arbiscan.io/tx/''
      | Optimism \<Rightarrow> Some ''https://optimistic.etherscan.io/tx/'')"

section \<open>Chain providers\<close>

datatype tx_state = T_completed | T_pending | T_failed

record tx_status =
  ts_confirmations :: "int option"
  ts_state :: tx_state
  ts_block :: "int option"
  ts_block_hash :: "string option"

text \<open>An answer of Etherscan or BscScan, and the receipt it may carry.\<close>

record 'r scan_answer =
  sa_status :: "string option"
  sa_message :: "string option"
  sa_result :: 'r

record evm_receipt =
  er_block :: string
  er_status :: string
  er_block_hash :: string

record solana_result =
  so_confirmations :: "int option"
  so_slot :: "int option"
  so_failed :: bool

record solana_answer =
  so_error :: "int option"
  so_result :: "solana_result option"

record cosmos_answer =
  ca_code :: "int option"
  ca_height :: "string option"

record chain_net =
  cn_receipt :: "chain \<Rightarrow> string \<Rightarrow> evm_receipt option scan_answer option"
  cn_info :: "chain \<Rightarrow> string \<Rightarrow> bool scan_answer option"
  cn_head :: "chain \<Rightarrow> string scan_answer option"
  cn_solana :: "string \<Rightarrow> solana_answer option"
  cn_cosmos :: "string \<Rightarrow> cosmos_answer option option"
  cn_height :: "chain \<Rightarrow> int option option"

definition query_scan :: "'r scan_answer option \<Rightarrow> 'r option" where
  "query_scan a =
     (case a of None \<Rightarrow> None
      | Some d \<Rightarrow> if sa_status d = Some ''0'' \<and> sa_message d \<noteq> Some ''No transactions found'' then None
                  else Some (sa_result d))"

text \<open>\<open>parseInt(s)\<close> without a radix.\<close>

definition parse_int_any :: "string \<Rightarrow> int option" where
  "parse_int_any s =
     (case parse_sign (dropWhile is_space s) of (_, u) \<Rightarrow>
        if starts_with ''0x'' u \<or> starts_with ''0X'' u then parse_int16 s else parse_int10 s)"

definition pending_result :: tx_status where
  "pending_result = \<lparr>ts_confirmations = Some 0, ts_state = T_pending, ts_block = None, ts_block_hash = None\<rparr>"

text \<open>\<open>getEthereumTxStatus\<close> and \<open>getBscTxStatus\<close>; the result of the second query is used for its
  presence only.\<close>

definition evm_tx_status :: "chain_net \<Rightarrow> chain \<Rightarrow> string \<Rightarrow> tx_status option" where
  "evm_tx_status net c h =
     (case (query_scan (cn_receipt net c h), query_scan (cn_info net c h)) of
        (Some receipt, Some info) \<Rightarrow>
          (case receipt of
             None \<Rightarrow> Some pending_result
           | Some r \<Rightarrow>
               if \<not> info then Some pending_result
               else (case query_scan (cn_head net c) of
                  None \<Rightarrow> None
                | Some head \<Rightarrow>
                    (let blk = parse_int16 (er_block r);
                         conf = (case (parse_int16 head, blk) of (Some x, Some y) \<Rightarrow> Some (max 0 (x - y)) | _ \<Rightarrow> None);
                         st = (if er_status r = ''0x1'' then T_completed
                               else if er_status r = ''0x0'' then T_failed else T_pending)
                     in Some \<lparr>ts_confirmations = conf, ts_state = st, ts_block = blk,
                              ts_block_hash = Some (er_block_hash r)\<rparr>)))
      | _ \<Rightarrow> None)"

definition getSolanaTxStatus :: "chain_net \<Rightarrow> string \<Rightarrow> tx_status option" where
  "getSolanaTxStatus net h =
     (case cn_solana net h of
        None \<Rightarrow> None
      | Some data \<Rightarrow>
          (case so_error data of
             Some code \<Rightarrow> if code = -32000 then Some pending_result else None
           | None \<Rightarrow>
               (case so_result data of
                  None \<Rightarrow> Some pending_result
                | Some r \<Rightarrow>
                    (let conf = (case so_confirmations r of None \<Rightarrow> 0 | Some n \<Rightarrow> n);
                         slot = (case so_slot r of None \<Rightarrow> 0 | Some n \<Rightarrow> n)
                     in Some \<lparr>ts_confirmations = Some conf,
                         ts_state = (if so_failed r then T_failed else if 0 < conf then T_completed else T_pending),
                         ts_block = Some slot, ts_block_hash = None\<rparr>))))"

definition getCosmosTxStatus :: "chain_net \<Rightarrow> string \<Rightarrow> tx_status option" where
  "getCosmosTxStatus net h =
     (case cn_cosmos net h of
        None \<Rightarrow> None
      | Some None \<Rightarrow> Some \<lparr>ts_confirmations = Some 1, ts_state = T_failed, ts_block = None, ts_block_hash = None\<rparr>
      | Some (Some data) \<Rightarrow>
          (case ca_code data of
             Some code \<Rightarrow>
               Some \<lparr>ts_confirmations = Some 1,
                 ts_state = (if code = 0 then T_completed else T_failed),
                 ts_block = (case ca_height data of None \<Rightarrow> None | Some t \<Rightarrow> if t = [] then None else parse_int_any t),
                 ts_block_hash = None\<rparr>
           | None \<Rightarrow> Some pending_result))"

text \<open>\<open>getChainProvider\<close> knows four of the eight chains and throws for the others.\<close>

definition has_provider :: "chain \<Rightarrow> bool" where
  "has_provider c = (c = Ethereum \<or> c = Solana \<or> c = Cosmos \<or> c = Bsc)"

definition getTxStatus :: "chain_net \<Rightarrow> chain \<Rightarrow> string \<Rightarrow> tx_status option" where
  "getTxStatus net c h =
     (if c = Solana then getSolanaTxStatus net h
      else if c = Cosmos then getCosmosTxStatus net h
      else evm_tx_status net c h)"

definition getBlockNumber :: "chain_net \<Rightarrow> chain \<Rightarrow> int option option" where
  "getBlockNumber net c =
     (if c = Solana \<or> c = Cosmos then cn_height net c
      else (case query_scan (cn_head net c) of None \<Rightarrow> None | Some t \<Rightarrow> Some (parse_int16 t)))"

section \<open>Transfers\<close>

datatype bridge_status = B_pending | B_detected | B_bridging | B_completed | B_failed | B_reorged

record bridge_meta =
  md_source_block :: "int option"
  md_dest_block :: "int option"
  md_source_conf :: "int option"
  md_dest_conf :: "int option"
  md_source_state :: "tx_state option"
  md_dest_state :: "tx_state option"
  md_dest_hash :: "string option"
  md_reorg :: "bool option"
  md_blocks_left :: "int option"
  md_progress :: "int option"

record bridge_row =
  bt_hash :: string
  bt_source :: chain
  bt_dest :: chain
  bt_asset :: string
  bt_amount :: string
  bt_sender :: string
  bt_recipient :: string
  bt_protocol :: bridge_protocol
  bt_status :: bridge_status
  bt_confirmations :: int
  bt_required :: int
  bt_fee :: string
  bt_source_url :: "string option"
  bt_dest_url :: "string option"
  bt_arrival :: "int option"
  bt_meta :: "bridge_meta option"
  bt_created :: int
  bt_updated :: int

record resolved_tx =
  rv_hash :: string
  rv_source_state :: tx_state
  rv_dest_state :: tx_state
  rv_source_conf :: "int option"
  rv_dest_conf :: "int option"
  rv_source_block :: "int option"
  rv_dest_block :: "int option"
  rv_dest_hash :: "string option"

section \<open>Resolution\<close>

text \<open>\<open>resolver.ts\<close>, \<open>findCorrelatingTx\<close>: a stub.\<close>

definition findCorrelatingTx :: "bridge_event \<Rightarrow> string option" where
  "findCorrelatingTx e = None"

definition status_or_pending :: "tx_status option \<Rightarrow> tx_status" where
  "status_or_pending r = (case r of None \<Rightarrow> pending_result | Some s \<Rightarrow> s)"

text \<open>\<open>resolveBridgeTransaction\<close>. The overall status that it also computes is not part of its
  result. What goes wrong on the destination side is logged and ignored; the hash is set before
  its status is asked for.\<close>

definition resolveBridgeTransaction :: "chain_net \<Rightarrow> bridge_event \<Rightarrow> resolved_tx option" where
  "resolveBridgeTransaction net e =
     (if \<not> has_provider (be_source e) then None
      else
        (let src = status_or_pending (getTxStatus net (be_source e) (be_tx e));
             (dest_hash, dest) =
               (if ts_state src = T_completed \<and> has_provider (be_dest e) then
                  (case findCorrelatingTx e of
                     None \<Rightarrow> (None, pending_result)
                   | Some h \<Rightarrow> (Some h, status_or_pending (getTxStatus net (be_dest e) h)))
                else (None, pending_result))
         in Some \<lparr>rv_hash = be_tx e, rv_source_state = ts_state src, rv_dest_state = ts_state dest,
              rv_source_conf = ts_confirmations src, rv_dest_conf = ts_confirmations dest,
              rv_source_block = ts_block src, rv_dest_block = ts_block dest,
              rv_dest_hash = dest_hash\<rparr>))"

text \<open>\<open>estimateArrival\<close>: the arithmetic is on doubles, a date keeps whole milliseconds.\<close>

definition date_after :: "int \<Rightarrow> rat \<Rightarrow> int" where
  "date_after now secs = \<lfloor>fl_add (of_int now) (fl_mul secs 1000)\<rfloor>"

definition estimateArrival :: "int \<Rightarrow> chain \<Rightarrow> chain \<Rightarrow> tx_state \<Rightarrow> int \<Rightarrow> int" where
  "estimateArrival now src dst dest_state conf =
     (if dest_state = T_completed then now
      else date_after now
        (fl_add (fl_add (fl_mul (of_int (max 0 (confirmationBlocks src - conf))) (blockTimeSeconds src)) 30)
                (blockTimeSeconds dst)))"

definition stored_status :: "resolved_tx \<Rightarrow> bridge_status" where
  "stored_status r =
     (if rv_source_state r = T_failed \<or> rv_dest_state r = T_failed then B_failed
      else if rv_dest_state r = T_completed then B_completed
      else if rv_source_state r = T_pending then B_pending
      else B_bridging)"

definition stored_meta :: "resolved_tx \<Rightarrow> bridge_meta" where
  "stored_meta r = \<lparr>md_source_block = rv_source_block r, md_dest_block = rv_dest_block r,
     md_source_conf = rv_source_conf r, md_dest_conf = rv_dest_conf r,
     md_source_state = Some (rv_source_state r), md_dest_state = Some (rv_dest_state r),
     md_dest_hash = rv_dest_hash r, md_reorg = None, md_blocks_left = None, md_progress = None\<rparr>"

definition or_url :: "string option \<Rightarrow> string option \<Rightarrow> string option" where
  "or_url base h = (case (base, h) of (Some b, Some t) \<Rightarrow> if t = [] then None else Some (b @ t) | _ \<Rightarrow> None)"

definition update_row :: "int \<Rightarrow> bridge_event \<Rightarrow> resolved_tx \<Rightarrow> int \<Rightarrow> bridge_row \<Rightarrow> bridge_row" where
  "update_row now e r conf row =
     row\<lparr>bt_status := stored_status r, bt_confirmations := conf,
         bt_required := confirmationBlocks (be_source e),
         bt_dest_url := (case or_url (scanner_url (be_dest e)) (rv_dest_hash r) of
            None \<Rightarrow> bt_dest_url row | Some u \<Rightarrow> Some u),
         bt_arrival := Some (estimateArrival now (be_source e) (be_dest e) (rv_dest_state r) conf),
         bt_meta := Some (stored_meta r), bt_updated := now\<rparr>"

definition create_row :: "int \<Rightarrow> bridge_event \<Rightarrow> resolved_tx \<Rightarrow> int \<Rightarrow> bridge_row" where
  "create_row now e r conf =
     \<lparr>bt_hash = be_tx e, bt_source = be_source e, bt_dest = be_dest e, bt_asset = be_asset e,
      bt_amount = be_amount e, bt_sender = be_sender e, bt_recipient = be_recipient e,
      bt_protocol = be_protocol e, bt_status = stored_status r, bt_confirmations = conf,
      bt_required = confirmationBlocks (be_source e), bt_fee = or_text (be_fee e) ''0'',
      bt_source_url = map_option (\<lambda>u. u @ be_tx e) (scanner_url (be_source e)), bt_dest_url = None,
      bt_arrival = Some (estimateArrival now (be_source e) (be_dest e) (rv_dest_state r) conf),
      bt_meta = Some (stored_meta r), bt_created = now, bt_updated = now\<rparr>"

text \<open>\<open>storeBridgeTransaction\<close>: an upsert by hash. \<open>accepts\<close> stands for the limits of the columns;
  a failing write is logged and ignored.\<close>

definition storeBridgeTransaction ::
    "(bridge_event \<Rightarrow> bool) \<Rightarrow> int \<Rightarrow> bridge_event \<Rightarrow> resolved_tx \<Rightarrow> bridge_row list \<Rightarrow> bridge_row list" where
  "storeBridgeTransaction accepts now e r rows =
     (case rv_source_conf r of
        None \<Rightarrow> rows
      | Some conf \<Rightarrow>
          (case tbl_find bt_hash (be_tx e) rows of
             Some _ \<Rightarrow> tbl_update bt_hash (be_tx e) (update_row now e r conf) rows
           | None \<Rightarrow> if accepts e then rows @ [create_row now e r conf] else rows))"

definition is_active :: "bridge_row \<Rightarrow> bool" where
  "is_active row = (bt_status row \<in> {B_pending, B_detected, B_bridging})"

definition event_of_row :: "bridge_row \<Rightarrow> bridge_event" where
  "event_of_row row = \<lparr>be_tx = bt_hash row, be_source = bt_source row, be_dest = bt_dest row,
     be_asset = bt_asset row, be_amount = bt_amount row, be_sender = bt_sender row,
     be_recipient = bt_recipient row, be_protocol = bt_protocol row, be_block = 0, be_fee = None\<rparr>"

definition resolve_one ::
    "(bridge_event \<Rightarrow> bool) \<Rightarrow> chain_net \<Rightarrow> int \<Rightarrow> bridge_row \<Rightarrow> bridge_row list \<times> nat \<Rightarrow> bridge_row list \<times> nat" where
  "resolve_one accepts net now tx s =
     (case resolveBridgeTransaction net (event_of_row tx) of
        None \<Rightarrow> s
      | Some r \<Rightarrow> (storeBridgeTransaction accepts now (event_of_row tx) r (fst s), Suc (snd s)))"

definition pollAndResolvePending ::
    "(bridge_event \<Rightarrow> bool) \<Rightarrow> chain_net \<Rightarrow> int \<Rightarrow> nat \<Rightarrow> bridge_row list \<Rightarrow> bridge_row list \<times> nat" where
  "pollAndResolvePending accepts net now limit rows =
     fold (resolve_one accepts net now) (take limit (sort_key bt_created (filter is_active rows))) (rows, 0)"

section \<open>Finality\<close>

record finality_info =
  fi_status :: bridge_status
  fi_confirmations :: "int option"
  fi_required :: int
  fi_source_block :: "int option"
  fi_reorg :: bool
  fi_blocks_left :: "int option"
  fi_progress :: "int option"
  fi_arrival :: "int option"

text \<open>\<open>detectReorg\<close>: it asks the chain, and answers \<open>false\<close> whatever the answer is.\<close>

definition detectReorg :: "chain_net \<Rightarrow> chain \<Rightarrow> int \<Rightarrow> string \<Rightarrow> bool" where
  "detectReorg net c blk expected =
     (if \<not> has_provider c then False
      else (case getBlockNumber net c of
         None \<Rightarrow> False
       | Some head \<Rightarrow>
           if (case head of Some n \<Rightarrow> 20 < n - blk | None \<Rightarrow> False) then False
           else if c \<in> {Ethereum, Bsc, Polygon, Avalanche, Arbitrum, Optimism} then
             (case evm_tx_status net Ethereum (dec_int blk) of None \<Rightarrow> False | Some _ \<Rightarrow> False)
           else False))"

definition findDestinationTxHash :: "bridge_row list \<Rightarrow> string \<Rightarrow> string option" where
  "findDestinationTxHash rows h =
     (case tbl_find bt_hash h rows of
        None \<Rightarrow> None
      | Some row \<Rightarrow> (case bt_meta row of None \<Rightarrow> None | Some m \<Rightarrow> md_dest_hash m))"

text \<open>\<open>estimateArrivalTime\<close> with the relay times recorded for the pair of chains.\<close>

definition average_relay :: "rat list \<Rightarrow> rat" where
  "average_relay records =
     (if records = [] then 30 else fl_div (foldl fl_add 0 records) (of_nat (length records)))"

definition estimateArrivalTime :: "int \<Rightarrow> rat list \<Rightarrow> chain \<Rightarrow> chain \<Rightarrow> int \<Rightarrow> int \<Rightarrow> int" where
  "estimateArrivalTime now records src dst conf required =
     (if required \<le> conf then now
      else date_after now
        (fl_add (fl_add (fl_mul (of_int (required - conf)) (blockTimeSeconds src)) (average_relay records))
                (blockTimeSeconds dst)))"

definition recordArrivalTime ::
    "chain \<Rightarrow> chain \<Rightarrow> rat \<Rightarrow> (chain \<times> chain, rat list) jsmap \<Rightarrow> (chain \<times> chain, rat list) jsmap" where
  "recordArrivalTime src dst secs m =
     (let records = (case jm_get m (src, dst) of None \<Rightarrow> [] | Some rs \<Rightarrow> rs) @ [secs]
      in jm_set (src, dst) (if 100 < length records then tl records else records) m)"

text \<open>\<open>Math.min(100, Math.round((confirmations / required) * 100))\<close>; with the configured counts
  of confirmations the rounding to doubles does not change the rounded percentage.\<close>

definition progress_percent :: "int \<Rightarrow> int \<Rightarrow> int" where
  "progress_percent conf required = min 100 (\<lfloor>(of_int (100 * conf) / of_int required :: rat) + 1 / 2\<rfloor>)"

definition finality_status ::
    "chain_net \<Rightarrow> bridge_row list \<Rightarrow> string \<Rightarrow> chain \<Rightarrow> tx_status \<Rightarrow> bool \<Rightarrow> int option \<Rightarrow> bridge_status option" where
  "finality_status net rows h dst src reorg progress =
     (if reorg then Some B_reorged
      else if ts_state src = T_failed then Some B_failed
      else if ts_state src = T_pending then Some B_pending
      else (case progress of
         None \<Rightarrow> Some B_pending
       | Some p \<Rightarrow>
           if p < 100 then Some B_detected
           else (case findDestinationTxHash rows h of
              None \<Rightarrow> Some B_bridging
            | Some dh \<Rightarrow>
                if dh = [] then Some B_bridging
                else if \<not> has_provider dst then None
                else (case ts_state (status_or_pending (getTxStatus net dst dh)) of
                    T_completed \<Rightarrow> Some B_completed
                  | T_failed \<Rightarrow> Some B_failed
                  | T_pending \<Rightarrow> Some B_bridging))))"

definition checkFinality ::
    "chain_net \<Rightarrow> int \<Rightarrow> (chain \<times> chain, rat list) jsmap \<Rightarrow> bridge_row list \<Rightarrow> string \<Rightarrow> chain \<Rightarrow> chain
      \<Rightarrow> finality_info option" where
  "checkFinality net now hist rows h src dst =
     (if \<not> has_provider src then None
      else
        (let st = status_or_pending (getTxStatus net src h);
             required = confirmationBlocks src;
             conf = ts_confirmations st;
             progress = map_option (\<lambda>c. progress_percent c required) conf;
             reorg = (case (ts_block st, ts_block_hash st) of
                (Some b, Some bh) \<Rightarrow> b \<noteq> 0 \<and> bh \<noteq> [] \<and> detectReorg net src b bh | _ \<Rightarrow> False);
             records = (case jm_get hist (src, dst) of None \<Rightarrow> [] | Some rs \<Rightarrow> rs)
         in (case finality_status net rows h dst st reorg progress of
               None \<Rightarrow> None
             | Some status \<Rightarrow>
                 Some \<lparr>fi_status = status, fi_confirmations = conf, fi_required = required,
                   fi_source_block = ts_block st, fi_reorg = reorg,
                   fi_blocks_left = map_option (\<lambda>c. max 0 (required - c)) conf,
                   fi_progress = progress,
                   fi_arrival = map_option (\<lambda>c. estimateArrivalTime now records src dst c required) conf\<rparr>)))"

definition finality_meta :: "finality_info \<Rightarrow> bridge_meta" where
  "finality_meta f = \<lparr>md_source_block = fi_source_block f, md_dest_block = None, md_source_conf = None,
     md_dest_conf = None, md_source_state = None, md_dest_state = None, md_dest_hash = None,
     md_reorg = Some (fi_reorg f), md_blocks_left = fi_blocks_left f, md_progress = fi_progress f\<rparr>"

definition finality_row :: "int \<Rightarrow> finality_info \<Rightarrow> int \<Rightarrow> bridge_row \<Rightarrow> bridge_row" where
  "finality_row now f conf row =
     row\<lparr>bt_status := fi_status f, bt_confirmations := conf, bt_arrival := fi_arrival f,
         bt_meta := Some (finality_meta f), bt_updated := now\<rparr>"

text \<open>\<open>updateTransactionFinality\<close> throws when there is no such row.\<close>

definition updateTransactionFinality :: "int \<Rightarrow> string \<Rightarrow> finality_info \<Rightarrow> bridge_row list \<Rightarrow> bridge_row list option" where
  "updateTransactionFinality now h f rows =
     (case (tbl_find bt_hash h rows, fi_confirmations f) of
        (Some _, Some conf) \<Rightarrow> Some (tbl_update bt_hash h (finality_row now f conf) rows)
      | _ \<Rightarrow> None)"

definition getStaleTransactions :: "int \<Rightarrow> int \<Rightarrow> bridge_row list \<Rightarrow> string list" where
  "getStaleTransactions now hours rows =
     map bt_hash (filter (\<lambda>r. is_active r \<and> bt_updated r < now - hours * 60 * 60 * 1000) rows)"

end
