(* ===== verification/Bridge_Worker.thy ===== *)
theory Bridge_Worker
  imports Bridge_Resolver
begin

text \<open>
  \<open>src/bridge-tracker/alerts.ts\<close> and \<open>worker.ts\<close>: the alerts, the monitored addresses, the
  processing of an event and the poll cycle. The state is the three tables they write. Message
  texts are left out of the alerts; the aggregation of volumes, which a cycle runs now and then,
  writes a table that nothing here reads and is left out too.
\<close>

section \<open>Alerts\<close>

datatype alert_type = Large_transfer | Bridge_delay | Bridge_failure | Address_activity | Reorg_detected

datatype alert_severity = Info | Warning | Critical

record bridge_alert =
  al_id :: nat
  al_type :: alert_type
  al_severity :: alert_severity
  al_protocol :: bridge_protocol
  al_chain :: chain
  al_address :: "string option"
  al_tx :: string
  al_asset :: "string option"
  al_amount :: "string option"
  al_acknowledged :: bool
  al_triggered :: int

record monitored_address =
  ma_id :: nat
  ma_address :: string
  ma_chain :: chain
  ma_label :: "string option"
  ma_min_usd :: "rat option"
  ma_on_tx :: bool
  ma_on_bridging :: bool
  ma_active :: bool

record bridge_db =
  bd_txs :: "bridge_row list"
  bd_alerts :: "bridge_alert list"
  bd_monitored :: "monitored_address list"
  bd_next :: nat

definition LARGE_TRANSFER_THRESHOLD_USD :: rat where "LARGE_TRANSFER_THRESHOLD_USD = 100000"

definition MAX_DELAY_MINUTES :: int where "MAX_DELAY_MINUTES = 30"

text \<open>\<open>storeAlert\<close>: the database chooses the identifier.\<close>

definition storeAlert :: "(nat \<Rightarrow> bridge_alert) \<Rightarrow> bridge_db \<Rightarrow> bridge_db" where
  "storeAlert a db = db\<lparr>bd_alerts := bd_alerts db @ [a (bd_next db)], bd_next := Suc (bd_next db)\<rparr>"

definition checkLargeTransfer :: "int \<Rightarrow> bridge_event \<Rightarrow> bridge_db \<Rightarrow> bridge_db" where
  "checkLargeTransfer now e db =
     (let n = parseFloat (be_amount e) in
      if n = NotANumber \<or> double_less n (Finite LARGE_TRANSFER_THRESHOLD_USD) then db
      else storeAlert (\<lambda>i. \<lparr>al_id = i, al_type = Large_transfer,
             al_severity = (if \<not> double_less n (Finite (LARGE_TRANSFER_THRESHOLD_USD * 10)) then Critical else Warning),
             al_protocol = be_protocol e, al_chain = be_source e, al_address = None, al_tx = be_tx e,
             al_asset = Some (be_asset e), al_amount = Some (be_amount e), al_acknowledged = False,
             al_triggered = now\<rparr>) db)"

text \<open>\<open>elapsed / 60000 < 30\<close> for a whole number of milliseconds.\<close>

definition checkBridgeDelay :: "int \<Rightarrow> bridge_row \<Rightarrow> bridge_db \<Rightarrow> bridge_db \<times> bool" where
  "checkBridgeDelay now row db =
     (if bt_status row = B_completed \<or> bt_status row = B_failed then (db, False)
      else
        (let elapsed = now - bt_created row in
         if elapsed < MAX_DELAY_MINUTES * 60000 then (db, False)
         else (storeAlert (\<lambda>i. \<lparr>al_id = i, al_type = Bridge_delay,
                 al_severity = (if MAX_DELAY_MINUTES * 3 * 60000 \<le> elapsed then Critical else Warning),
                 al_protocol = bt_protocol row, al_chain = bt_source row, al_address = None,
                 al_tx = bt_hash row, al_asset = None, al_amount = None, al_acknowledged = False,
                 al_triggered = now\<rparr>) db, True)))"

definition checkBridgeFailure :: "int \<Rightarrow> bridge_row \<Rightarrow> bridge_db \<Rightarrow> bridge_db" where
  "checkBridgeFailure now row db =
     storeAlert (\<lambda>i. \<lparr>al_id = i, al_type = Bridge_failure, al_severity = Critical,
        al_protocol = bt_protocol row, al_chain = bt_source row, al_address = None,
        al_tx = bt_hash row, al_asset = None, al_amount = None, al_acknowledged = False,
        al_triggered = now\<rparr>) db"

definition times_five :: "rat \<Rightarrow> js_double" where
  "times_five q = to_double (q < 0) (\<bar>q\<bar> * 5)"

definition address_alert :: "int \<Rightarrow> bridge_event \<Rightarrow> string \<Rightarrow> monitored_address \<Rightarrow> bridge_db \<Rightarrow> bridge_db" where
  "address_alert now e addr m db =
     (let n = parseFloat (be_amount e) in
      if (case ma_min_usd m of Some q \<Rightarrow> double_less n (Finite q) | None \<Rightarrow> False) then db
      else storeAlert (\<lambda>i. \<lparr>al_id = i, al_type = Address_activity,
             al_severity =
               (let limit = times_five (case ma_min_usd m of Some q \<Rightarrow> q | None \<Rightarrow> LARGE_TRANSFER_THRESHOLD_USD)
                in if n \<noteq> NotANumber \<and> \<not> double_less n limit then Critical else Warning),
             al_protocol = be_protocol e, al_chain = be_source e, al_address = Some addr,
             al_tx = be_tx e, al_asset = Some (be_asset e), al_amount = Some (be_amount e),
             al_acknowledged = False, al_triggered = now\<rparr>) db)"

definition checkMonitoredAddressActivity :: "int \<Rightarrow> bridge_event \<Rightarrow> bridge_db \<Rightarrow> bridge_db" where
  "checkMonitoredAddressActivity now e db =
     (let addresses = filter (\<lambda>a. a \<noteq> []) [be_sender e, be_recipient e];
          monitored = filter (\<lambda>m. ma_address m \<in> set addresses \<and> ma_chain m = be_source e \<and> ma_active m)
                        (bd_monitored db)
      in fold (\<lambda>addr d. case tbl_find ma_address addr monitored of
              None \<Rightarrow> d | Some m \<Rightarrow> address_alert now e addr m d) addresses db)"

definition acknowledgeAlert :: "nat \<Rightarrow> bridge_db \<Rightarrow> bridge_db option" where
  "acknowledgeAlert i db =
     (case tbl_find al_id i (bd_alerts db) of
        None \<Rightarrow> None
      | Some _ \<Rightarrow> Some (db\<lparr>bd_alerts := tbl_update al_id i (\<lambda>a. a\<lparr>al_acknowledged := True\<rparr>) (bd_alerts db)\<rparr>))"

text \<open>\<open>addMonitoredAddress\<close>: an upsert by address and chain; an option that is not given keeps
  the label and the minimum, and sets the two flags.\<close>

definition keep_or_set :: "'a option \<Rightarrow> 'a option \<Rightarrow> 'a option" where
  "keep_or_set x old = (case x of None \<Rightarrow> old | Some v \<Rightarrow> Some v)"

definition addMonitoredAddress ::
    "string \<Rightarrow> chain \<Rightarrow> string option \<Rightarrow> rat option \<Rightarrow> bool option \<Rightarrow> bool option \<Rightarrow> bridge_db \<Rightarrow> bridge_db" where
  "addMonitoredAddress addr c label min_usd on_tx on_bridging db =
     (let flag = (\<lambda>x. case x of None \<Rightarrow> True | Some b \<Rightarrow> b)
      in case tbl_find (\<lambda>m. (ma_address m, ma_chain m)) (addr, c) (bd_monitored db) of
           Some _ \<Rightarrow> db\<lparr>bd_monitored := tbl_update (\<lambda>m. (ma_address m, ma_chain m)) (addr, c)
             (\<lambda>m. m\<lparr>ma_label := keep_or_set label (ma_label m), ma_min_usd := keep_or_set min_usd (ma_min_usd m),
                 ma_on_tx := flag on_tx, ma_on_bridging := flag on_bridging, ma_active := True\<rparr>) (bd_monitored db)\<rparr>
         | None \<Rightarrow> db\<lparr>bd_monitored := bd_monitored db @ [\<lparr>ma_id = bd_next db, ma_address = addr, ma_chain = c,
             ma_label = label, ma_min_usd = min_usd, ma_on_tx = flag on_tx, ma_on_bridging = flag on_bridging,
             ma_active = True\<rparr>], bd_next := Suc (bd_next db)\<rparr>)"

definition removeMonitoredAddress :: "nat \<Rightarrow> bridge_db \<Rightarrow> bridge_db option" where
  "removeMonitoredAddress i db =
     (case tbl_find ma_id i (bd_monitored db) of
        None \<Rightarrow> None
      | Some _ \<Rightarrow> Some (db\<lparr>bd_monitored := tbl_update ma_id i (\<lambda>m. m\<lparr>ma_active := False\<rparr>) (bd_monitored db)\<rparr>))"

text \<open>\<open>runAlertChecks\<close>: the two queries name no order, so \<open>pick\<close> chooses which rows the limit
  keeps.\<close>

definition delay_check :: "int \<Rightarrow> bridge_row \<Rightarrow> bridge_db \<times> nat \<Rightarrow> bridge_db \<times> nat" where
  "delay_check now row s =
     (case checkBridgeDelay now row (fst s) of (db, alerted) \<Rightarrow> (db, if alerted then Suc (snd s) else snd s))"

definition failure_check :: "int \<Rightarrow> bridge_row \<Rightarrow> bridge_db \<times> nat \<Rightarrow> bridge_db \<times> nat" where
  "failure_check now row s =
     (if list_ex (\<lambda>a. al_tx a = bt_hash row \<and> al_type a = Bridge_failure) (bd_alerts (fst s)) then s
      else (checkBridgeFailure now row (fst s), Suc (snd s)))"

definition runAlertChecks :: "(nat \<Rightarrow> bridge_row list \<Rightarrow> bridge_row list) \<Rightarrow> int \<Rightarrow> bridge_db \<Rightarrow> bridge_db \<times> nat" where
  "runAlertChecks pick now db =
     (let stale = pick 100 (filter (\<lambda>r. is_active r \<and> bt_created r < now - MAX_DELAY_MINUTES * 60 * 1000) (bd_txs db));
          s = fold (delay_check now) stale (db, 0);
          failed = pick 50 (filter (\<lambda>r. bt_status r = B_failed) (bd_txs db))
      in fold (failure_check now) failed s)"

section \<open>The worker\<close>

text \<open>What the steps depend on besides the tables: the limits of the columns, the answers of the
  chains, the relay times, the choice of rows where a query names no order, and the clock.\<close>

record bridge_env =
  env_accepts :: "bridge_event \<Rightarrow> bool"
  env_net :: chain_net
  env_hist :: "(chain \<times> chain, rat list) jsmap"
  env_pick :: "nat \<Rightarrow> bridge_row list \<Rightarrow> bridge_row list"
  env_now :: int

text \<open>\<open>processBridgeEvent\<close>: the first call that throws ends it.\<close>

definition processBridgeEvent :: "bridge_env \<Rightarrow> bridge_event \<Rightarrow> bridge_db \<Rightarrow> bridge_db" where
  "processBridgeEvent env e db =
     (case resolveBridgeTransaction (env_net env) e of
        None \<Rightarrow> db
      | Some r \<Rightarrow>
          (let db1 = db\<lparr>bd_txs := storeBridgeTransaction (env_accepts env) (env_now env) e r (bd_txs db)\<rparr> in
           case checkFinality (env_net env) (env_now env) (env_hist env) (bd_txs db1) (be_tx e) (be_source e) (be_dest e) of
             None \<Rightarrow> db1
           | Some f \<Rightarrow>
               (case updateTransactionFinality (env_now env) (be_tx e) f (bd_txs db1) of
                  None \<Rightarrow> db1
                | Some rows \<Rightarrow>
                    checkMonitoredAddressActivity (env_now env) e
                      (checkLargeTransfer (env_now env) e (db1\<lparr>bd_txs := rows\<rparr>)))))"

definition finality_check :: "bridge_env \<Rightarrow> bridge_row \<Rightarrow> bridge_row list \<Rightarrow> bridge_row list" where
  "finality_check env tx rows =
     (case checkFinality (env_net env) (env_now env) (env_hist env) rows (bt_hash tx) (bt_source tx) (bt_dest tx) of
        None \<Rightarrow> rows
      | Some f \<Rightarrow>
          if fi_status f = bt_status tx then rows
          else (case updateTransactionFinality (env_now env) (bt_hash tx) f rows of
             None \<Rightarrow> rows | Some rows' \<Rightarrow> rows'))"

definition pollCycle :: "bridge_env \<Rightarrow> bridge_db \<Rightarrow> bridge_db" where
  "pollCycle env db =
     (let rows = fst (pollAndResolvePending (env_accepts env) (env_net env) (env_now env) 50 (bd_txs db));
          active = env_pick env 100 (filter is_active rows);
          rows' = fold (finality_check env) active rows
      in fst (runAlertChecks (env_pick env) (env_now env) (db\<lparr>bd_txs := rows'\<rparr>)))"

section \<open>The service as a state machine\<close>

inductive bridge_step :: "bridge_db \<Rightarrow> bridge_db \<Rightarrow> bool" where
  bs_event: "bridge_step db (processBridgeEvent env e db)"
| bs_poll: "bridge_step db (pollCycle env db)"
| bs_resolve: "bridge_step db (db\<lparr>bd_txs := fst (pollAndResolvePending accepts net now 100 (bd_txs db))\<rparr>)"
| bs_ack: "acknowledgeAlert i db = Some db' \<Longrightarrow> bridge_step db db'"
| bs_add: "bridge_step db (addMonitoredAddress addr c label min_usd on_tx on_bridging db)"
| bs_remove: "removeMonitoredAddress i db = Some db' \<Longrightarrow> bridge_step db db'"

inductive_cases bridge_stepE: "bridge_step db db'"

definition bridge_init :: "bridge_db \<Rightarrow> bool" where
  "bridge_init db = (bd_txs db = [] \<and> bd_alerts db = [] \<and> bd_monitored db = [])"

section \<open>What each routine does to the rows\<close>

text \<open>A row that no worker has completed, and that does not name a transaction on the destination
  chain.\<close>

definition open_row :: "bridge_row \<Rightarrow> bool" where
  "open_row r = (bt_status r \<noteq> B_completed \<and> bt_status r \<noteq> B_reorged \<and>
     (case bt_meta r of None \<Rightarrow> True | Some m \<Rightarrow> md_dest_hash m = None))"

lemma detectReorg_never [simp]: "\<not> detectReorg net c b h"
  by (simp add: detectReorg_def split: option.split)

lemma resolve_no_destination:
  assumes "resolveBridgeTransaction net e = Some r"
  shows "rv_dest_hash r = None" "rv_dest_state r = T_pending"
  using assms by (auto simp: resolveBridgeTransaction_def findCorrelatingTx_def pending_result_def Let_def
      split: if_splits)

lemma open_row_stored:
  assumes "resolveBridgeTransaction net e = Some r"
  shows "open_row (update_row now e r conf row)" "open_row (create_row now e r conf)"
  using resolve_no_destination [OF assms]
  by (simp_all add: open_row_def update_row_def create_row_def stored_status_def stored_meta_def)

lemma store_open:
  assumes "resolveBridgeTransaction net e = Some r" "\<forall>x \<in> set rows. open_row x"
  shows "\<forall>x \<in> set (storeBridgeTransaction accepts now e r rows). open_row x"
  using assms(2) open_row_stored [OF assms(1)]
  by (auto simp: storeBridgeTransaction_def table_simps split: option.split)

lemma resolve_one_open:
  "\<forall>x \<in> set (fst s). open_row x \<Longrightarrow> \<forall>x \<in> set (fst (resolve_one accepts net now tx s)). open_row x"
  by (auto simp: resolve_one_def store_open split: option.split)

lemma poll_open:
  "\<forall>x \<in> set rows. open_row x \<Longrightarrow>
   \<forall>x \<in> set (fst (pollAndResolvePending accepts net now limit rows)). open_row x"
proof -
  assume "\<forall>x \<in> set rows. open_row x"
  then have "\<forall>x \<in> set (fst (rows, 0 :: nat)). open_row x" by simp
  then have "\<forall>x \<in> set (fst (fold (resolve_one accepts net now) txs (rows, 0))). open_row x" for txs
    by (induction txs rule: rev_induct) (simp_all add: resolve_one_open)
  then show ?thesis unfolding pollAndResolvePending_def .
qed

lemma open_no_hash: "\<forall>x \<in> set rows. open_row x \<Longrightarrow> findDestinationTxHash rows h = None"
proof (cases "tbl_find bt_hash h rows")
  case (Some x)
  moreover assume "\<forall>x \<in> set rows. open_row x"
  ultimately have "open_row x" using tbl_find_Some [OF Some] by blast
  with Some show ?thesis by (simp add: findDestinationTxHash_def open_row_def split: option.splits)
qed (simp add: findDestinationTxHash_def)

lemma finality_open:
  assumes "checkFinality net now hist rows h src dst = Some f" "\<forall>x \<in> set rows. open_row x"
  shows "fi_status f \<in> {B_pending, B_detected, B_bridging, B_failed}"
proof -
  have "(case (x, y) of (Some b, Some bh) \<Rightarrow> b \<noteq> 0 \<and> bh \<noteq> [] \<and> detectReorg net src b bh | _ \<Rightarrow> False) = False"
    for x :: "int option" and y :: "string option"
    by (simp split: option.split)
  then show ?thesis
    using assms(1) unfolding checkFinality_def Let_def finality_status_def open_no_hash [OF assms(2)]
    by (auto split: if_splits option.splits)
qed

lemma update_finality_open:
  assumes "updateTransactionFinality now h f rows = Some rows'" "\<forall>x \<in> set rows. open_row x"
    and "fi_status f \<in> {B_pending, B_detected, B_bridging, B_failed}"
  shows "\<forall>x \<in> set rows'. open_row x"
proof -
  have "open_row (finality_row now f c x)" for c x
    using assms(3) by (auto simp: open_row_def finality_row_def finality_meta_def)
  then show ?thesis
    using assms(1,2) by (auto simp: updateTransactionFinality_def table_simps split: option.splits)
qed

lemma finality_check_open:
  assumes "\<forall>x \<in> set rows. open_row x" shows "\<forall>x \<in> set (finality_check env tx rows). open_row x"
  using assms finality_open [OF _ assms] update_finality_open [OF _ assms]
  by (auto simp: finality_check_def split: option.split)

section \<open>Alerts do not touch the rows\<close>

lemma alerts_keep_rows [simp]:
  "bd_txs (storeAlert a db) = bd_txs db"
  "bd_txs (checkLargeTransfer now e db) = bd_txs db"
  "bd_txs (address_alert now e addr m db) = bd_txs db"
  "bd_txs (checkBridgeFailure now row db) = bd_txs db"
  "bd_txs (fst (checkBridgeDelay now row db)) = bd_txs db"
  by (simp_all add: storeAlert_def checkLargeTransfer_def address_alert_def checkBridgeFailure_def
      checkBridgeDelay_def Let_def)

lemma fold_keeps: "(\<And>x s. f (g x s) = f s) \<Longrightarrow> f (fold g xs s) = f s"
  by (induction xs arbitrary: s) auto

lemma monitored_keep_rows [simp]: "bd_txs (checkMonitoredAddressActivity now e db) = bd_txs db"
  unfolding checkMonitoredAddressActivity_def Let_def
  by (rule fold_keeps) (simp split: option.split)

lemma check_steps_keep_rows:
  "bd_txs (fst (delay_check now row s)) = bd_txs (fst s)" "bd_txs (fst (failure_check now row s)) = bd_txs (fst s)"
proof -
  show "bd_txs (fst (delay_check now row s)) = bd_txs (fst s)"
    using alerts_keep_rows(5) [of now row "fst s"]
    by (cases "checkBridgeDelay now row (fst s)") (simp add: delay_check_def)
qed (simp add: failure_check_def)

lemma checks_keep_rows [simp]: "bd_txs (fst (runAlertChecks pick now db)) = bd_txs db"
proof -
  have "bd_txs (fst (fold (delay_check now) xs s)) = bd_txs (fst s)" for xs s
    by (rule fold_keeps) (rule check_steps_keep_rows)
  moreover have "bd_txs (fst (fold (failure_check now) xs s)) = bd_txs (fst s)" for xs s
    by (rule fold_keeps) (rule check_steps_keep_rows)
  ultimately show ?thesis by (simp add: runAlertChecks_def Let_def)
qed

section \<open>No transfer is ever completed\<close>

definition rows_open :: "bridge_db \<Rightarrow> bool" where
  "rows_open db = (\<forall>x \<in> set (bd_txs db). open_row x)"

lemma process_open: "rows_open db \<Longrightarrow> rows_open (processBridgeEvent env e db)"
proof (cases "resolveBridgeTransaction (env_net env) e")
  case (Some r)
  assume "rows_open db"
  let ?rows = "storeBridgeTransaction (env_accepts env) (env_now env) e r (bd_txs db)"
  let ?fin = "checkFinality (env_net env) (env_now env) (env_hist env) ?rows (be_tx e) (be_source e) (be_dest e)"
  have o: "\<forall>x \<in> set ?rows. open_row x"
    using \<open>rows_open db\<close> store_open [OF Some] by (simp add: rows_open_def)
  show ?thesis
  proof (cases ?fin)
    case None
    with Some o show ?thesis by (simp add: processBridgeEvent_def rows_open_def)
  next
    case fin: (Some f)
    have "\<forall>x \<in> set rows'. open_row x"
      if "updateTransactionFinality (env_now env) (be_tx e) f ?rows = Some rows'" for rows'
      using update_finality_open [OF that o] finality_open [OF fin o] by blast
    with Some fin o show ?thesis
      by (simp add: processBridgeEvent_def rows_open_def Let_def split: option.split)
  qed
qed (simp add: processBridgeEvent_def)

lemma cycle_open: "rows_open db \<Longrightarrow> rows_open (pollCycle env db)"
proof -
  assume "rows_open db"
  then have "\<forall>x \<in> set (fst (pollAndResolvePending (env_accepts env) (env_net env) (env_now env) 50 (bd_txs db))). open_row x"
    unfolding rows_open_def by (rule poll_open)
  then have "\<forall>x \<in> set (fold (finality_check env) txs
      (fst (pollAndResolvePending (env_accepts env) (env_net env) (env_now env) 50 (bd_txs db)))). open_row x" for txs
    by (induction txs rule: rev_induct) (simp_all add: finality_check_open)
  then show ?thesis by (simp add: rows_open_def pollCycle_def Let_def)
qed

lemma step_open: "bridge_step db db' \<Longrightarrow> rows_open db \<Longrightarrow> rows_open db'"
proof (induction rule: bridge_step.induct)
  case (bs_resolve db accepts net now)
  then show ?case by (simp add: rows_open_def poll_open)
next
  case (bs_ack i db db')
  then show ?case by (auto simp: acknowledgeAlert_def rows_open_def split: option.splits)
next
  case (bs_remove i db db')
  then show ?case by (auto simp: removeMonitoredAddress_def rows_open_def split: option.splits)
next
  case (bs_add db addr c label min_usd on_tx on_bridging)
  then show ?case by (simp add: addMonitoredAddress_def rows_open_def Let_def split: option.split)
qed (simp_all add: process_open cycle_open)

interpretation open_rows: invariant_system bridge_init bridge_step rows_open
  by unfold_locales (auto simp: bridge_init_def rows_open_def dest: step_open)

text \<open>Whatever the chains answer, and however events, poll cycles and requests follow each
  other, no transfer is ever recorded as completed or as reorganised: the search for the
  transaction on the destination chain is a stub, and the check for reorganisations always
  answers no.\<close>

theorem no_transfer_completes:
  assumes "reachable bridge_init bridge_step db" "row \<in> set (bd_txs db)"
  shows "bt_status row \<noteq> B_completed \<and> bt_status row \<noteq> B_reorged"
  using open_rows.reachable_inv [OF assms(1)] assms(2) by (simp add: rows_open_def open_row_def)

definition demo_net :: chain_net where
  "demo_net = \<lparr>
     cn_receipt = (\<lambda>c h. Some \<lparr>sa_status = None, sa_message = None,
        sa_result = Some \<lparr>er_block = ''0x1'', er_status = ''0x1'', er_block_hash = ''0xaa''\<rparr>\<rparr>),
     cn_info = (\<lambda>c h. Some \<lparr>sa_status = None, sa_message = None, sa_result = True\<rparr>),
     cn_head = (\<lambda>c. Some \<lparr>sa_status = None, sa_message = None, sa_result = ''0x64''\<rparr>),
     cn_solana = (\<lambda>h. None), cn_cosmos = (\<lambda>h. None), cn_height = (\<lambda>c. None)\<rparr>"

definition bridge_demo_env :: bridge_env where
  "bridge_demo_env = \<lparr>env_accepts = (\<lambda>e. True), env_net = demo_net, env_hist = [],
     env_pick = (\<lambda>n rows. take n rows), env_now = 5000\<rparr>"

definition demo_transfer :: bridge_event where
  "demo_transfer = \<lparr>be_tx = ''tx'', be_source = Ethereum, be_dest = Bsc, be_asset = ''A'', be_amount = ''7'',
     be_sender = [], be_recipient = [], be_protocol = Wormhole, be_block = 1, be_fee = None\<rparr>"

definition empty_bridge_db :: bridge_db where
  "empty_bridge_db = \<lparr>bd_txs = [], bd_alerts = [], bd_monitored = [], bd_next = 0\<rparr>"

lemma demo_fields:
  "be_tx demo_transfer = ''tx''" "be_source demo_transfer = Ethereum" "be_dest demo_transfer = Bsc"
  "env_net bridge_demo_env = demo_net" "env_accepts bridge_demo_env = (\<lambda>e. True)" "env_hist bridge_demo_env = []"
  "bd_txs empty_bridge_db = []"
  by (simp_all add: demo_transfer_def bridge_demo_env_def empty_bridge_db_def)

lemma demo_status:
  "getTxStatus demo_net Ethereum h = Some \<lparr>ts_confirmations = Some 99, ts_state = T_completed,
     ts_block = Some 1, ts_block_hash = Some ''0xaa''\<rparr>"
  by (simp add: getTxStatus_def evm_tx_status_def demo_net_def query_scan_def parse_int16_def parse_sign_def
      is_space_def starts_with_def is_hex_char_def hex_number_def hex_value_def Let_def)

lemma demo_resolved:
  "resolveBridgeTransaction demo_net demo_transfer = Some \<lparr>rv_hash = ''tx'', rv_source_state = T_completed,
     rv_dest_state = T_pending, rv_source_conf = Some 99, rv_dest_conf = Some 0, rv_source_block = Some 1,
     rv_dest_block = None, rv_dest_hash = None\<rparr>"
  by (simp add: resolveBridgeTransaction_def demo_transfer_def has_provider_def demo_status status_or_pending_def
      findCorrelatingTx_def pending_result_def)

lemma demo_rows: "map bt_status (bd_txs (processBridgeEvent bridge_demo_env demo_transfer empty_bridge_db)) = [B_bridging]"
  by (simp add: processBridgeEvent_def demo_fields demo_resolved storeBridgeTransaction_def
      tbl_find_def checkFinality_def has_provider_def demo_status status_or_pending_def
      finality_status_def findDestinationTxHash_def create_row_def stored_meta_def progress_percent_def
      confirmationBlocks_def updateTransactionFinality_def tbl_update_def finality_row_def Let_def)

lemma no_transfer_completes_witness:
  "bd_txs (processBridgeEvent bridge_demo_env demo_transfer empty_bridge_db) \<noteq> [] \<and>
   bt_status (hd (bd_txs (processBridgeEvent bridge_demo_env demo_transfer empty_bridge_db))) \<noteq> B_completed"
proof -
  have "bridge_init empty_bridge_db" by (simp add: bridge_init_def empty_bridge_db_def)
  then have r: "reachable bridge_init bridge_step (processBridgeEvent bridge_demo_env demo_transfer empty_bridge_db)"
    by (rule reach_step [OF reach_init]) (rule bs_event)
  have "bd_txs (processBridgeEvent bridge_demo_env demo_transfer empty_bridge_db) \<noteq> []" using demo_rows by auto
  then show ?thesis using no_transfer_completes [OF r list.set_sel(1)] by simp
qed

section \<open>Finality\<close>

lemma round_percent_full:
  assumes "0 < r" "r < 200" "0 \<le> c"
  shows "progress_percent c r = 100 \<longleftrightarrow> r \<le> c"
proof
  assume "r \<le> c"
  then have "(100 :: rat) \<le> of_int (100 * c) / of_int r"
    using assms by (simp add: le_divide_eq)
  then show "progress_percent c r = 100" by (simp add: progress_percent_def min_def)
next
  assume "progress_percent c r = 100"
  then have "100 \<le> \<lfloor>(of_int (100 * c) / of_int r :: rat) + 1 / 2\<rfloor>"
    unfolding progress_percent_def by linarith
  then have "(100 :: rat) \<le> of_int (100 * c) / of_int r + 1 / 2"
    by (simp only: le_floor_iff of_int_numeral)
  then have "(of_int (199 * r) :: rat) \<le> of_int (200 * c)"
    using assms(1) by (simp add: field_simps)
  then have "199 * r \<le> 200 * c" by (simp only: of_int_le_iff)
  with assms show "r \<le> c" by linarith
qed

lemma progress_full_iff: "0 \<le> c \<Longrightarrow> progress_percent c (confirmationBlocks ch) = 100 \<longleftrightarrow> confirmationBlocks ch \<le> c"
  by (rule round_percent_full) (simp_all add: confirmationBlocks_def split: chain.split)

lemma progress_le: "progress_percent c r \<le> 100"
  by (simp add: progress_percent_def)

text \<open>The status that a finality check reports for a transfer whose source transaction has a
  known number of confirmations: failed and pending as the chain says, detected until the
  configured number of blocks is reached, and bridging from then on, as long as no transaction on
  the destination chain is recorded. The percentage, although rounded, reaches 100 exactly at the
  configured number.\<close>

theorem finality_by_confirmations:
  assumes "has_provider src" "getTxStatus net src h = Some st" "ts_confirmations st = Some c" "0 \<le> c"
    and "findDestinationTxHash rows h = None"
  shows "\<exists>f. checkFinality net now hist rows h src dst = Some f \<and>
    fi_status f = (case ts_state st of T_failed \<Rightarrow> B_failed | T_pending \<Rightarrow> B_pending
      | T_completed \<Rightarrow> if c < confirmationBlocks src then B_detected else B_bridging) \<and>
    fi_blocks_left f = Some (max 0 (confirmationBlocks src - c)) \<and>
    (fi_progress f = Some 100 \<longleftrightarrow> confirmationBlocks src \<le> c)"
proof -
  have reorg: "\<not> (case x of None \<Rightarrow> False
      | Some b \<Rightarrow> (case y of None \<Rightarrow> False | Some bh \<Rightarrow> b \<noteq> 0 \<and> bh \<noteq> [] \<and> detectReorg net src b bh))"
    for x :: "int option" and y :: "string option"
    by (simp split: option.split)
  have "progress_percent c (confirmationBlocks src) < 100 \<longleftrightarrow> c < confirmationBlocks src"
    using progress_full_iff [OF assms(4), of src] progress_le [of c "confirmationBlocks src"] by linarith
  then show ?thesis
    using assms progress_full_iff [OF assms(4), of src]
    by (cases "ts_state st") (simp_all add: checkFinality_def Let_def status_or_pending_def finality_status_def reorg)
qed

lemma finality_by_confirmations_witness:
  "\<exists>f. checkFinality demo_net 0 [] [] ''tx'' Ethereum Bsc = Some f \<and> fi_status f = B_bridging"
  using finality_by_confirmations [OF _ demo_status, where h = "''tx''" and rows = "[]" and now = 0
      and hist = "[]" and dst = Bsc]
  by (auto simp: has_provider_def findDestinationTxHash_def tbl_find_def confirmationBlocks_def)

text \<open>A transaction on Solana whose confirmations are not in the answer, as for a finalised one, is
  pending for ever.\<close>

lemma solana_rooted_pending:
  assumes "cn_solana net h = Some \<lparr>so_error = None,
     so_result = Some \<lparr>so_confirmations = None, so_slot = slot, so_failed = False\<rparr>\<rparr>"
  shows "\<exists>st. getTxStatus net Solana h = Some st \<and> ts_state st = T_pending"
  using assms by (simp add: getTxStatus_def getSolanaTxStatus_def)

text \<open>A transfer from a chain without a provider, which the detector reports for Polygon and
  Avalanche, is dropped.\<close>

lemma unsupported_source_dropped: "\<not> has_provider (be_source e) \<Longrightarrow> processBridgeEvent env e db = db"
  by (simp add: processBridgeEvent_def resolveBridgeTransaction_def)

section \<open>Failures are alerted once\<close>

definition failure_alerts :: "bridge_db \<Rightarrow> string list" where
  "failure_alerts db = map al_tx (filter (\<lambda>a. al_type a = Bridge_failure) (bd_alerts db))"

lemma failure_alerts_store:
  "failure_alerts (storeAlert a db) =
     failure_alerts db @ (if al_type (a (bd_next db)) = Bridge_failure then [al_tx (a (bd_next db))] else [])"
  by (simp add: failure_alerts_def storeAlert_def)

lemma failure_alerts_other [simp]:
  "failure_alerts (checkLargeTransfer now e db) = failure_alerts db"
  "failure_alerts (address_alert now e addr m db) = failure_alerts db"
  "failure_alerts (fst (checkBridgeDelay now row db)) = failure_alerts db"
  "failure_alerts (db\<lparr>bd_txs := rows\<rparr>) = failure_alerts db"
  "failure_alerts (db\<lparr>bd_monitored := ms\<rparr>) = failure_alerts db"
  "failure_alerts (db\<lparr>bd_next := n\<rparr>) = failure_alerts db"
  by (simp_all add: checkLargeTransfer_def address_alert_def checkBridgeDelay_def failure_alerts_store Let_def)
     (simp_all add: failure_alerts_def)

lemma failure_alerts_monitored [simp]:
  "failure_alerts (checkMonitoredAddressActivity now e db) = failure_alerts db"
  unfolding checkMonitoredAddressActivity_def Let_def
  by (rule fold_keeps) (simp split: option.split)

lemma failure_alerts_delay: "failure_alerts (fst (fold (delay_check now) xs s)) = failure_alerts (fst s)"
proof (rule fold_keeps)
  fix row s
  show "failure_alerts (fst (delay_check now row s)) = failure_alerts (fst s)"
    using failure_alerts_other(3) [of now row "fst s"]
    by (cases "checkBridgeDelay now row (fst s)") (simp add: delay_check_def)
qed

lemma failure_check_distinct:
  "distinct (failure_alerts (fst s)) \<Longrightarrow> distinct (failure_alerts (fst (failure_check now row s)))"
  by (auto simp: failure_check_def checkBridgeFailure_def failure_alerts_store list_ex_iff)
     (auto simp: failure_alerts_def)

lemma checks_distinct:
  "distinct (failure_alerts db) \<Longrightarrow> distinct (failure_alerts (fst (runAlertChecks pick now db)))"
proof -
  assume d: "distinct (failure_alerts db)"
  have "distinct (failure_alerts (fst s)) \<Longrightarrow> distinct (failure_alerts (fst (fold (failure_check now) xs s)))" for xs s
    by (induction xs arbitrary: s) (simp_all add: failure_check_distinct)
  then show ?thesis by (simp add: runAlertChecks_def Let_def failure_alerts_delay d)
qed

lemma step_alerts: "bridge_step db db' \<Longrightarrow> distinct (failure_alerts db) \<Longrightarrow> distinct (failure_alerts db')"
proof (induction rule: bridge_step.induct)
  case (bs_event db env e)
  then show ?case by (simp add: processBridgeEvent_def Let_def split: option.split)
next
  case (bs_poll db env)
  then show ?case by (simp add: pollCycle_def Let_def checks_distinct)
next
  case (bs_ack i db db')
  have "map al_tx (filter (\<lambda>a. al_type a = Bridge_failure)
      (tbl_update al_id i (\<lambda>a. a\<lparr>al_acknowledged := True\<rparr>) xs)) =
    map al_tx (filter (\<lambda>a. al_type a = Bridge_failure) xs)" for xs :: "bridge_alert list"
    by (induction xs) (simp_all add: tbl_update_def)
  with bs_ack show ?case by (auto simp: acknowledgeAlert_def failure_alerts_def split: option.splits)
next
  case (bs_remove i db db')
  then show ?case by (auto simp: removeMonitoredAddress_def split: option.splits)
next
  case (bs_add db addr c label min_usd on_tx on_bridging)
  then show ?case by (simp add: addMonitoredAddress_def Let_def split: option.split)
qed simp

interpretation failure_once: invariant_system bridge_init bridge_step "\<lambda>db. distinct (failure_alerts db)"
  by unfold_locales (simp_all add: bridge_init_def failure_alerts_def step_alerts [unfolded failure_alerts_def])


definition failing_env :: bridge_env where
  "failing_env = bridge_demo_env\<lparr>env_net := demo_net\<lparr>cn_receipt := (\<lambda>c h. Some \<lparr>sa_status = None, sa_message = None,
     sa_result = Some \<lparr>er_block = ''0x1'', er_status = ''0x0'', er_block_hash = ''0xaa''\<rparr>\<rparr>)\<rparr>\<rparr>"

lemma failing_status:
  "getTxStatus (env_net failing_env) Ethereum h = Some \<lparr>ts_confirmations = Some 99, ts_state = T_failed,
     ts_block = Some 1, ts_block_hash = Some ''0xaa''\<rparr>"
  by (simp add: failing_env_def getTxStatus_def evm_tx_status_def demo_net_def query_scan_def parse_int16_def
      parse_sign_def is_space_def starts_with_def is_hex_char_def hex_number_def hex_value_def Let_def)

lemma failing_resolved:
  "resolveBridgeTransaction (env_net failing_env) demo_transfer = Some \<lparr>rv_hash = ''tx'', rv_source_state = T_failed,
     rv_dest_state = T_pending, rv_source_conf = Some 99, rv_dest_conf = Some 0, rv_source_block = Some 1,
     rv_dest_block = None, rv_dest_hash = None\<rparr>"
  by (simp add: resolveBridgeTransaction_def demo_fields has_provider_def failing_status status_or_pending_def
      pending_result_def)

lemma failing_rows:
  "map bt_status (bd_txs (processBridgeEvent failing_env demo_transfer empty_bridge_db)) = [B_failed] \<and>
   failure_alerts (processBridgeEvent failing_env demo_transfer empty_bridge_db) = []"
  by (simp add: processBridgeEvent_def demo_fields failing_resolved storeBridgeTransaction_def
      tbl_find_def checkFinality_def has_provider_def failing_status status_or_pending_def
      finality_status_def create_row_def updateTransactionFinality_def tbl_update_def finality_row_def Let_def)
     (simp add: failure_alerts_def empty_bridge_db_def failing_env_def bridge_demo_env_def)

lemma poll_alerts_failed_row:
  assumes "map bt_status (bd_txs db) = [B_failed]" "failure_alerts db = []" "env_pick env = (\<lambda>n rows. take n rows)"
  shows "failure_alerts (pollCycle env db) = map bt_hash (bd_txs db) \<and> bd_txs (pollCycle env db) = bd_txs db"
proof -
  obtain r where r: "bd_txs db = [r]" "bt_status r = B_failed" using assms(1) by auto
  have p: "fst (pollAndResolvePending acc net now 50 [r]) = [r]" for acc net now
    using r by (simp add: pollAndResolvePending_def is_active_def)
  have a: "filter (\<lambda>a. al_type a = Bridge_failure) (bd_alerts db) = []"
    using assms(2) by (simp add: failure_alerts_def)
  then have "\<not> list_ex (\<lambda>a. al_tx a = bt_hash r \<and> al_type a = Bridge_failure) (bd_alerts db)"
    by (auto simp: list_ex_iff filter_empty_conv)
  then show ?thesis
    using r assms(3) a
    by (simp add: pollCycle_def p is_active_def runAlertChecks_def failure_check_def checkBridgeFailure_def
        failure_alerts_store Let_def) (simp add: failure_alerts_def)
qed

lemma poll_keeps_alerts: "failure_alerts db \<noteq> [] \<Longrightarrow> failure_alerts (pollCycle env db) \<noteq> []"
proof -
  assume a: "failure_alerts db \<noteq> []"
  have "failure_alerts (fst s) \<noteq> [] \<Longrightarrow> failure_alerts (fst (fold (failure_check now) xs s)) \<noteq> []" for now xs s
    by (induction xs arbitrary: s) (simp_all add: failure_check_def checkBridgeFailure_def failure_alerts_store)
  then show ?thesis by (simp add: pollCycle_def runAlertChecks_def Let_def failure_alerts_delay a)
qed


section \<open>Stalled transfers\<close>

lemma update_row_key: "bt_hash (update_row now e r conf row) = bt_hash row"
  by (simp add: update_row_def)

text \<open>A transfer whose chain answers with a number is rewritten by the resolver.\<close>

definition answered :: "chain_net \<Rightarrow> bridge_row \<Rightarrow> bool" where
  "answered net tx = (has_provider (bt_source tx) \<and>
     ts_confirmations (status_or_pending (getTxStatus net (bt_source tx) (bt_hash tx))) \<noteq> None)"

lemma resolve_one_answered:
  assumes "answered net tx" "bt_hash tx \<in> set (map bt_hash (fst s))"
  shows "\<exists>r conf. fst (resolve_one accepts net now tx s) =
    tbl_update bt_hash (bt_hash tx) (update_row now (event_of_row tx) r conf) (fst s)"
proof -
  let ?e = "event_of_row tx"
  obtain conf where c: "ts_confirmations (status_or_pending (getTxStatus net (be_source ?e) (be_tx ?e))) = Some conf"
    and p: "has_provider (be_source ?e)"
    using assms(1) by (auto simp: answered_def event_of_row_def)
  then obtain r where r: "resolveBridgeTransaction net ?e = Some r" "rv_source_conf r = Some conf"
    by (cases "resolveBridgeTransaction net ?e")
       (auto simp: resolveBridgeTransaction_def findCorrelatingTx_def Let_def split: if_splits)
  moreover obtain x where "tbl_find bt_hash (be_tx ?e) (fst s) = Some x"
    using assms(2) by (cases "tbl_find bt_hash (be_tx ?e) (fst s)")
      (auto simp: tbl_find_def find_None_iff event_of_row_def)
  ultimately show ?thesis
    by (auto simp: resolve_one_def storeBridgeTransaction_def event_of_row_def)
qed

lemma polled_rows_updated:
  assumes "\<forall>tx \<in> set txs. answered net tx \<and> bt_hash tx \<in> set (map bt_hash rows)"
  shows "\<forall>x \<in> set (fst (fold (resolve_one accepts net now) txs (rows, n))).
      bt_updated x = now \<or> (x \<in> set rows \<and> bt_hash x \<notin> bt_hash ` set txs)"
    and "map bt_hash (fst (fold (resolve_one accepts net now) txs (rows, n))) = map bt_hash rows"
  using assms
proof (induction txs rule: rev_induct)
  case (snoc tx txs)
  let ?s = "fold (resolve_one accepts net now) txs (rows, n)"
  { case 1
    have m: "map bt_hash (fst ?s) = map bt_hash rows" using snoc.IH(2) 1 by simp
    have "answered net tx" "bt_hash tx \<in> set (map bt_hash (fst ?s))" unfolding m using 1 by simp_all
    then obtain r conf where "fst (resolve_one accepts net now tx ?s) =
        tbl_update bt_hash (bt_hash tx) (update_row now (event_of_row tx) r conf) (fst ?s)"
      using resolve_one_answered by blast
    then show ?case using snoc.IH(1) 1 by (auto simp: table_simps update_row_def)
  next
    case 2
    have m: "map bt_hash (fst ?s) = map bt_hash rows" using snoc.IH(2) 2 by simp
    have "answered net tx" "bt_hash tx \<in> set (map bt_hash (fst ?s))" unfolding m using 2 by simp_all
    then obtain r conf where "fst (resolve_one accepts net now tx ?s) =
        tbl_update bt_hash (bt_hash tx) (update_row now (event_of_row tx) r conf) (fst ?s)"
      using resolve_one_answered by blast
    then show ?case using snoc.IH(2) 2 by (simp add: table_simps update_row_key) }
qed simp_all

text \<open>The search for stalled transfers looks for rows that were not written for two hours, but
  each poll cycle first rewrites the rows it polls: as long as the active transfers fit into a
  poll and their chains answer, none is ever reported as stalled, however long it has been open.\<close>

theorem stalled_never_reported:
  assumes "\<forall>tx \<in> set rows. is_active tx \<longrightarrow> answered net tx"
    and "length (filter is_active rows) \<le> limit"
  shows "getStaleTransactions now 2 (fst (pollAndResolvePending accepts net now limit rows)) = []"
proof -
  let ?txs = "take limit (sort_key bt_created (filter is_active rows))"
  have set_txs: "set ?txs = {tx \<in> set rows. is_active tx}"
    using assms(2) by simp
  have "\<forall>x \<in> set (fst (fold (resolve_one accepts net now) ?txs (rows, 0))).
      bt_updated x = now \<or> (x \<in> set rows \<and> bt_hash x \<notin> bt_hash ` set ?txs)"
    by (rule polled_rows_updated(1)) (use assms(1) set_txs in auto)
  then have "\<not> (is_active x \<and> bt_updated x < now - 2 * 60 * 60 * 1000)"
    if "x \<in> set (fst (pollAndResolvePending accepts net now limit rows))" for x
    using that set_txs unfolding pollAndResolvePending_def by fastforce
  then show ?thesis by (simp add: getStaleTransactions_def filter_empty_conv)
qed

text \<open>A transfer that has been open for ten days.\<close>

definition old_row :: bridge_row where
  "old_row = (create_row 0 demo_transfer \<lparr>rv_hash = ''tx'', rv_source_state = T_completed, rv_dest_state = T_pending,
     rv_source_conf = Some 0, rv_dest_conf = Some 0, rv_source_block = None, rv_dest_block = None,
     rv_dest_hash = None\<rparr> 0)"

lemma stalled_never_reported_witness:
  "getStaleTransactions 864000000 2 [old_row] = [''tx''] \<and>
   getStaleTransactions 864000000 2 (fst (pollAndResolvePending (\<lambda>e. True) demo_net 864000000 50 [old_row])) = []"
proof
  show "getStaleTransactions 864000000 2 [old_row] = [''tx'']"
    by (simp add: getStaleTransactions_def old_row_def create_row_def is_active_def stored_status_def demo_fields)
  show "getStaleTransactions 864000000 2 (fst (pollAndResolvePending (\<lambda>e. True) demo_net 864000000 50 [old_row])) = []"
    by (rule stalled_never_reported)
       (simp_all add: answered_def old_row_def create_row_def demo_fields has_provider_def demo_status status_or_pending_def)
qed

end
