(* ===== verification/Api_Keys.thy ===== *)
theory Api_Keys
  imports Octra_Prelude
begin

text \<open>
  \<open>src/middleware/apiKeyAuth.ts\<close>, \<open>src/api/developer/keys.ts\<close>, \<open>src/middleware/wsAuth.ts\<close> and
  the tier update of \<open>src/services/stripe-billing.ts\<close>: API keys, the cache of resolved keys, the
  restrictions a key carries, and the two ways to present it. Parameters: the hash, the URL
  parser, the address library and the verification of tokens. Times are milliseconds. A query that
  fails is passed on to the error handler and changes nothing; it is left out.
\<close>

section \<open>Keys\<close>

datatype key_status = K_active | K_revoked | K_expired

record key_row =
  k_id :: nat
  k_developer :: string
  k_name :: string
  k_prefix :: string
  k_hash :: string
  k_permissions :: string
  k_tier :: string
  k_override :: "int option"
  k_ips :: "string list option"
  k_domains :: "string list option"
  k_endpoints :: "string list option"
  k_expires :: "int option"
  k_revoked_at :: "int option"
  k_status :: key_status
  k_last_used :: "int option"
  k_usage :: nat

record key_context =
  kc_id :: nat
  kc_name :: string
  kc_developer :: string
  kc_tier :: string
  kc_override :: "int option"
  kc_ips :: "string list option"
  kc_endpoints :: "string list option"
  kc_domains :: "string list option"

type_synonym key_cache = "(string, key_context option \<times> int) jsmap"

text \<open>The table, the cache, and the lookups that wait for the database.\<close>

record key_state =
  ks_rows :: "key_row list"
  ks_cache :: key_cache
  ks_pending :: "(string \<times> key_row option) list"

section \<open>Resolving a key\<close>

definition context_of :: "key_row \<Rightarrow> key_context" where
  "context_of r = \<lparr>kc_id = k_id r, kc_name = k_name r, kc_developer = k_developer r, kc_tier = k_tier r,
     kc_override = k_override r, kc_ips = k_ips r, kc_endpoints = k_endpoints r, kc_domains = k_domains r\<rparr>"

definition usable :: "int \<Rightarrow> key_row \<Rightarrow> bool" where
  "usable now r = (k_revoked_at r = None \<and> (case k_expires r of None \<Rightarrow> True | Some t \<Rightarrow> now < t))"

definition find_active :: "string \<Rightarrow> key_row list \<Rightarrow> key_row option" where
  "find_active h rows = List.find (\<lambda>r. k_hash r = h \<and> k_status r = K_active) rows"

definition touch_usage :: "int \<Rightarrow> nat \<Rightarrow> key_row list \<Rightarrow> key_row list" where
  "touch_usage now i rows = tbl_update k_id i (\<lambda>r. r\<lparr>k_last_used := Some now, k_usage := Suc (k_usage r)\<rparr>) rows"

text \<open>\<open>resolveApiKey\<close> up to the query: a fresh cache entry answers at once.\<close>

definition cached_answer :: "int \<Rightarrow> string \<Rightarrow> key_state \<Rightarrow> key_context option option" where
  "cached_answer now h s =
     (case jm_get (ks_cache s) h of
        None \<Rightarrow> None
      | Some (ctx, expires) \<Rightarrow> if now < expires then Some ctx else None)"

text \<open>\<open>resolveApiKey\<close> after the query has answered with \<open>record\<close>.\<close>

definition finish_lookup :: "int \<Rightarrow> int \<Rightarrow> string \<Rightarrow> key_row option \<Rightarrow> key_state \<Rightarrow> key_context option \<times> key_state" where
  "finish_lookup ttl now h row s =
     (let ctx = (case row of None \<Rightarrow> None | Some r \<Rightarrow> if usable now r then Some (context_of r) else None);
          rows = (case ctx of None \<Rightarrow> ks_rows s | Some c \<Rightarrow> touch_usage now (kc_id c) (ks_rows s))
      in (ctx, s\<lparr>ks_rows := rows, ks_cache := jm_set h (ctx, now + ttl) (ks_cache s)\<rparr>))"

text \<open>Both parts with nothing in between.\<close>

definition resolveApiKey :: "int \<Rightarrow> int \<Rightarrow> string \<Rightarrow> key_state \<Rightarrow> key_context option \<times> key_state" where
  "resolveApiKey ttl now h s =
     (case cached_answer now h s of
        Some ctx \<Rightarrow> (ctx, s)
      | None \<Rightarrow> finish_lookup ttl now h (find_active h (ks_rows s)) s)"

definition invalidateKeyCache :: "string \<Rightarrow> key_state \<Rightarrow> key_state" where
  "invalidateKeyCache h s = s\<lparr>ks_cache := jm_delete h (ks_cache s)\<rparr>"

section \<open>Restrictions of a key\<close>

record key_request =
  kr_key :: "string option"
  kr_ip :: string
  kr_origin :: "string option"
  kr_referer :: "string option"
  kr_base :: string
  kr_path :: string

text \<open>The address library: parsing, the kind of an address, matching a range.\<close>

record 'a ip_library =
  il_process :: "string \<Rightarrow> 'a option"
  il_parse_cidr :: "string \<Rightarrow> ('a \<times> nat) option"
  il_is_v4 :: "'a \<Rightarrow> bool"
  il_match :: "'a \<Rightarrow> 'a \<times> nat \<Rightarrow> bool option"
  il_text :: "'a \<Rightarrow> string"

definition ipMatchesCidr :: "'a ip_library \<Rightarrow> string \<Rightarrow> string \<Rightarrow> bool" where
  "ipMatchesCidr lib ip cidr =
     (case il_process lib ip of
        None \<Rightarrow> False
      | Some addr \<Rightarrow>
          if CHR ''/'' \<in> set cidr then
            (case il_parse_cidr lib cidr of
               None \<Rightarrow> False
             | Some rng \<Rightarrow>
                 if il_is_v4 lib addr = il_is_v4 lib (fst rng)
                 then (case il_match lib addr rng of None \<Rightarrow> False | Some b \<Rightarrow> b)
                 else False)
          else (case il_process lib cidr of None \<Rightarrow> False | Some c \<Rightarrow> il_text lib c = il_text lib addr))"

definition extractOriginHost :: "(string \<Rightarrow> string option) \<Rightarrow> key_request \<Rightarrow> string option" where
  "extractOriginHost url_host rq =
     (case kr_origin rq of
        Some (c # cs) \<Rightarrow> url_host (c # cs)
      | _ \<Rightarrow> (case kr_referer rq of Some (c # cs) \<Rightarrow> url_host (c # cs) | _ \<Rightarrow> None))"

definition domain_matches :: "string \<Rightarrow> string \<Rightarrow> bool" where
  "domain_matches host pattern =
     (if starts_with ''*.'' pattern
      then ends_with (drop 1 pattern) host \<and> length (drop 1 pattern) < length host
      else host = pattern)"

definition domainAllowed :: "string \<Rightarrow> string list \<Rightarrow> bool" where
  "domainAllowed host allowed = (allowed = [] \<or> list_ex (domain_matches host) allowed)"

text \<open>\<open>raw.replace(/\\/\\/+/g, '/')\<close>\<close>

fun collapse_slashes :: "string \<Rightarrow> string" where
  "collapse_slashes [] = []"
| "collapse_slashes [c] = [c]"
| "collapse_slashes (c # d # cs) =
     (if c = CHR ''/'' \<and> d = CHR ''/'' then collapse_slashes (d # cs) else c # collapse_slashes (d # cs))"

definition drop_last_slash :: "string \<Rightarrow> string" where
  "drop_last_slash s = (if s \<noteq> [] \<and> last s = CHR ''/'' then butlast s else s)"

definition normalizeRequestPath :: "string \<Rightarrow> string \<Rightarrow> string" where
  "normalizeRequestPath base path =
     (let collapsed = collapse_slashes (base @ path)
      in if 1 < length collapsed then drop_last_slash collapsed else collapsed)"

definition endpoint_matches :: "string \<Rightarrow> string \<Rightarrow> bool" where
  "endpoint_matches full pattern =
     (if ends_with ''*'' pattern then starts_with (butlast pattern) full else full = pattern)"

definition endpointAllowed :: "key_request \<Rightarrow> string list \<Rightarrow> bool" where
  "endpointAllowed rq allowed =
     (allowed = [] \<or> list_ex (endpoint_matches (normalizeRequestPath (kr_base rq) (kr_path rq))) allowed)"

datatype auth_outcome = Auth_next "key_context option" | Auth_reject nat

definition restricted :: "string list option \<Rightarrow> (string list \<Rightarrow> bool) \<Rightarrow> bool" where
  "restricted xs ok = (case xs of None \<Rightarrow> False | Some l \<Rightarrow> l \<noteq> [] \<and> \<not> ok l)"

text \<open>\<open>apiKeyAuth\<close> once the key is resolved.\<close>

definition check_request :: "'a ip_library \<Rightarrow> (string \<Rightarrow> string option) \<Rightarrow> key_request \<Rightarrow> key_context option \<Rightarrow> auth_outcome" where
  "check_request lib url_host rq ctx =
     (case ctx of
        None \<Rightarrow> Auth_reject 401
      | Some c \<Rightarrow>
          if restricted (kc_ips c) (\<lambda>l. list_ex (ipMatchesCidr lib (kr_ip rq)) l) then Auth_reject 403
          else if restricted (kc_domains c) (\<lambda>l. case extractOriginHost url_host rq of
              None \<Rightarrow> False | Some host \<Rightarrow> host \<noteq> [] \<and> domainAllowed host l) then Auth_reject 403
          else if restricted (kc_endpoints c) (endpointAllowed rq) then Auth_reject 403
          else Auth_next (Some c))"

definition apiKeyAuth ::
    "'a ip_library \<Rightarrow> (string \<Rightarrow> string option) \<Rightarrow> (string \<Rightarrow> string) \<Rightarrow> int \<Rightarrow> int \<Rightarrow> key_request \<Rightarrow> key_state
      \<Rightarrow> auth_outcome \<times> key_state" where
  "apiKeyAuth lib url_host sha ttl now rq s =
     (case kr_key rq of
        None \<Rightarrow> (Auth_next None, s)
      | Some raw \<Rightarrow>
          if raw = [] then (Auth_next None, s)
          else (case resolveApiKey ttl now (sha raw) s of
             (ctx, s') \<Rightarrow> (check_request lib url_host rq ctx, s')))"

definition requireApiKey :: "key_context option \<Rightarrow> auth_outcome" where
  "requireApiKey ctx = (case ctx of None \<Rightarrow> Auth_reject 401 | Some c \<Rightarrow> Auth_next (Some c))"

definition tier_order :: "string list" where
  "tier_order = [''unauthenticated'', ''free'', ''developer'', ''pro'', ''enterprise'']"

fun index_of :: "'a \<Rightarrow> 'a list \<Rightarrow> int" where
  "index_of x [] = -1"
| "index_of x (y # ys) = (if x = y then 0 else (let i = index_of x ys in if i = -1 then -1 else i + 1))"

definition requireKeyTier :: "string \<Rightarrow> key_context option \<Rightarrow> auth_outcome" where
  "requireKeyTier min_tier ctx =
     (let tier = (case ctx of None \<Rightarrow> ''unauthenticated'' | Some c \<Rightarrow> kc_tier c)
      in if index_of tier tier_order < index_of min_tier tier_order then Auth_reject 403 else Auth_next ctx)"

section \<open>Managing keys\<close>

text \<open>The id of a new row and the random secret are chosen outside.\<close>

record key_input =
  kp_name :: string
  kp_permissions :: "string option"
  kp_ips :: "string list option"
  kp_domains :: "string list option"
  kp_expires :: "int option"

definition new_key_row ::
    "nat \<Rightarrow> string \<Rightarrow> string \<Rightarrow> string \<Rightarrow> string \<Rightarrow> string \<Rightarrow> string list option \<Rightarrow> string list option \<Rightarrow> int option \<Rightarrow> key_row" where
  "new_key_row i dev name prefix h perms ips domains expires =
     \<lparr>k_id = i, k_developer = dev, k_name = name, k_prefix = prefix, k_hash = h, k_permissions = perms,
      k_tier = ''free'', k_override = None, k_ips = ips, k_domains = domains, k_endpoints = None,
      k_expires = expires, k_revoked_at = None, k_status = K_active, k_last_used = None, k_usage = 0\<rparr>"

definition createKey :: "(string \<Rightarrow> string) \<Rightarrow> string list \<Rightarrow> nat \<Rightarrow> string \<Rightarrow> string \<Rightarrow> key_input \<Rightarrow> key_state \<Rightarrow> nat \<times> key_state" where
  "createKey sha developers i raw dev inp s =
     (if dev \<notin> set developers then (404, s)
      else (201, s\<lparr>ks_rows := ks_rows s @
        [new_key_row i dev (kp_name inp) (take 8 raw) (sha raw)
          (case kp_permissions inp of None \<Rightarrow> ''{}'' | Some p \<Rightarrow> p) (kp_ips inp) (kp_domains inp) (kp_expires inp)]\<rparr>))"

definition find_key :: "nat \<Rightarrow> string \<Rightarrow> key_row list \<Rightarrow> key_row option" where
  "find_key i dev rows = List.find (\<lambda>r. k_id r = i \<and> k_developer r = dev) rows"

record key_patch =
  kq_name :: "string option"
  kq_permissions :: "string option"
  kq_ips :: "string list option"
  kq_domains :: "string list option"

definition patch_row :: "key_patch \<Rightarrow> key_row \<Rightarrow> key_row" where
  "patch_row p r = r\<lparr>k_name := set_if (kq_name p) (k_name r), k_permissions := set_if (kq_permissions p) (k_permissions r),
     k_ips := (case kq_ips p of None \<Rightarrow> k_ips r | Some l \<Rightarrow> Some l),
     k_domains := (case kq_domains p of None \<Rightarrow> k_domains r | Some l \<Rightarrow> Some l)\<rparr>"

definition patchKey :: "nat \<Rightarrow> string \<Rightarrow> key_patch \<Rightarrow> key_state \<Rightarrow> nat \<times> key_state" where
  "patchKey i dev p s =
     (case find_key i dev (ks_rows s) of
        None \<Rightarrow> (404, s)
      | Some r \<Rightarrow> (200, invalidateKeyCache (k_hash r) (s\<lparr>ks_rows := tbl_update k_id i (patch_row p) (ks_rows s)\<rparr>)))"

definition revokeKey :: "nat \<Rightarrow> string \<Rightarrow> key_state \<Rightarrow> nat \<times> key_state" where
  "revokeKey i dev s =
     (case find_key i dev (ks_rows s) of
        None \<Rightarrow> (404, s)
      | Some r \<Rightarrow> (204, invalidateKeyCache (k_hash r)
          (s\<lparr>ks_rows := tbl_update k_id i (\<lambda>r. r\<lparr>k_status := K_revoked\<rparr>) (ks_rows s)\<rparr>)))"

definition rotateKey :: "(string \<Rightarrow> string) \<Rightarrow> nat \<Rightarrow> string \<Rightarrow> int \<Rightarrow> nat \<Rightarrow> string \<Rightarrow> key_state \<Rightarrow> nat \<times> key_state" where
  "rotateKey sha j raw now i dev s =
     (case find_key i dev (ks_rows s) of
        None \<Rightarrow> (404, s)
      | Some r \<Rightarrow>
          (let s1 = invalidateKeyCache (k_hash r)
                 (s\<lparr>ks_rows := tbl_update k_id i (\<lambda>r. r\<lparr>k_status := K_expired, k_expires := Some now\<rparr>) (ks_rows s)\<rparr>)
           in (201, s1\<lparr>ks_rows := ks_rows s1 @
             [new_key_row j (k_developer r) (k_name r @ '' (rotated)'') (take 8 raw) (sha raw) (k_permissions r)
               (k_ips r) (k_domains r) None]\<rparr>)))"

text \<open>\<open>promoteDeveloperTier\<close> of the billing service does not touch the cache.\<close>

definition promoteDeveloperTier :: "string \<Rightarrow> string \<Rightarrow> key_state \<Rightarrow> key_state" where
  "promoteDeveloperTier dev tier s =
     s\<lparr>ks_rows := map (\<lambda>r. if k_developer r = dev \<and> k_status r = K_active then r\<lparr>k_tier := tier\<rparr> else r) (ks_rows s)\<rparr>"

section \<open>WebSocket authentication\<close>

record ws_request =
  wr_token :: "string option"
  wr_key :: string
  wr_authorization :: string
  wr_origin :: string

datatype ws_identity = Ws_apikey nat | Ws_jwt string

definition extractApiKey :: "ws_request \<Rightarrow> string option" where
  "extractApiKey rq =
     (case wr_token rq of
        Some t \<Rightarrow> if t \<noteq> [] \<and> \<not> starts_with ''Bearer '' t then Some t
                  else if wr_key rq \<noteq> [] then Some (wr_key rq) else None
      | None \<Rightarrow> if wr_key rq \<noteq> [] then Some (wr_key rq) else None)"

definition extractJwtToken :: "ws_request \<Rightarrow> string option" where
  "extractJwtToken rq =
     (if starts_with ''Bearer '' (wr_authorization rq) then Some (drop 7 (wr_authorization rq))
      else (case wr_token rq of
         Some t \<Rightarrow> if starts_with ''Bearer '' t then Some (drop 7 t) else None
       | None \<Rightarrow> None))"

text \<open>\<open>validateOrigin\<close>: whether the upgrade goes on.\<close>

definition validateOrigin :: "ws_request \<Rightarrow> string \<Rightarrow> bool" where
  "validateOrigin rq allowedOrigins =
     (allowedOrigins = [] \<or> wr_origin rq = [] \<or>
      wr_origin rq \<in> set (filter (\<lambda>p. p \<noteq> []) (map js_trim (split_on (CHR '','') allowedOrigins))))"

text \<open>\<open>authenticate\<close>: a close code and a reason, or an identity.\<close>

definition authenticate ::
    "(string \<Rightarrow> string) \<Rightarrow> (string \<Rightarrow> string option) \<Rightarrow> int \<Rightarrow> ws_request \<Rightarrow> key_row list \<Rightarrow> (nat \<times> string) + ws_identity" where
  "authenticate sha verifyToken now rq rows =
     (case extractApiKey rq of
        Some raw \<Rightarrow>
          (case find_active (sha raw) rows of
             None \<Rightarrow> Inl (4401, ''Invalid or revoked API key'')
           | Some r \<Rightarrow> if usable now r then Inr (Ws_apikey (k_id r)) else Inl (4401, ''Invalid or revoked API key''))
      | None \<Rightarrow>
          (case extractJwtToken rq of
             None \<Rightarrow> Inl (4401, ''Authentication required'')
           | Some t \<Rightarrow>
               if t = [] then Inl (4401, ''Authentication required'')
               else (case verifyToken t of
                  None \<Rightarrow> Inl (4401, ''Invalid or expired token'')
                | Some user \<Rightarrow> Inr (Ws_jwt user))))"

section \<open>The service as a state machine\<close>

text \<open>Lookups wait for the database, so other requests run between their two parts.\<close>

inductive key_step :: "(string \<Rightarrow> string) \<Rightarrow> int \<Rightarrow> key_state \<Rightarrow> key_state \<Rightarrow> bool" for sha ttl where
  ky_begin: "cached_answer now h s = None \<Longrightarrow>
     key_step sha ttl s (s\<lparr>ks_pending := ks_pending s @ [(h, find_active h (ks_rows s))]\<rparr>)"
| ky_finish: "p \<in> set (ks_pending s) \<Longrightarrow>
     key_step sha ttl s (snd (finish_lookup ttl now (fst p) (snd p) (s\<lparr>ks_pending := remove1 p (ks_pending s)\<rparr>)))"
| ky_create: "i \<notin> k_id ` set (ks_rows s) \<Longrightarrow> sha raw \<notin> k_hash ` set (ks_rows s) \<Longrightarrow>
     key_step sha ttl s (snd (createKey sha developers i raw dev inp s))"
| ky_patch: "key_step sha ttl s (snd (patchKey i dev p s))"
| ky_revoke: "key_step sha ttl s (snd (revokeKey i dev s))"
| ky_rotate: "j \<notin> k_id ` set (ks_rows s) \<Longrightarrow> sha raw \<notin> k_hash ` set (ks_rows s) \<Longrightarrow>
     key_step sha ttl s (snd (rotateKey sha j raw now i dev s))"
| ky_promote: "key_step sha ttl s (promoteDeveloperTier dev tier s)"

text \<open>Runs in which every lookup is finished before anything else happens.\<close>

inductive key_seq_step :: "(string \<Rightarrow> string) \<Rightarrow> int \<Rightarrow> key_state \<Rightarrow> key_state \<Rightarrow> bool" for sha ttl where
  kq_resolve: "key_seq_step sha ttl s (snd (resolveApiKey ttl now h s))"
| kq_create: "i \<notin> k_id ` set (ks_rows s) \<Longrightarrow> sha raw \<notin> k_hash ` set (ks_rows s) \<Longrightarrow>
     key_seq_step sha ttl s (snd (createKey sha developers i raw dev inp s))"
| kq_patch: "key_seq_step sha ttl s (snd (patchKey i dev p s))"
| kq_revoke: "key_seq_step sha ttl s (snd (revokeKey i dev s))"
| kq_rotate: "j \<notin> k_id ` set (ks_rows s) \<Longrightarrow> sha raw \<notin> k_hash ` set (ks_rows s) \<Longrightarrow>
     key_seq_step sha ttl s (snd (rotateKey sha j raw now i dev s))"
| kq_promote: "key_seq_step sha ttl s (promoteDeveloperTier dev tier s)"

definition key_init :: "key_state \<Rightarrow> bool" where
  "key_init s = (ks_rows s = [] \<and> ks_cache s = [] \<and> ks_pending s = [])"

section \<open>Paths and patterns\<close>

lemma collapse_cons: "collapse_slashes (c # cs) \<noteq> [] \<and> hd (collapse_slashes (c # cs)) = c"
  by (induction "c # cs" arbitrary: c cs rule: collapse_slashes.induct) auto

fun single_slashes :: "string \<Rightarrow> bool" where
  "single_slashes (c # d # cs) = (\<not> (c = CHR ''/'' \<and> d = CHR ''/'') \<and> single_slashes (d # cs))"
| "single_slashes _ = True"

lemma single_slashes_Cons:
  "single_slashes (c # cs) \<longleftrightarrow> single_slashes cs \<and> \<not> (c = CHR ''/'' \<and> cs \<noteq> [] \<and> hd cs = CHR ''/'')"
  by (cases cs) auto

lemma collapse_single: "single_slashes (collapse_slashes s)"
proof (induction s rule: collapse_slashes.induct)
  case (3 c d cs)
  then show ?case using collapse_cons [of d cs] by (auto simp: single_slashes_Cons)
qed simp_all

lemma collapse_id: "single_slashes s \<Longrightarrow> collapse_slashes s = s"
  by (induction s rule: collapse_slashes.induct) auto

lemma single_slashes_butlast: "single_slashes s \<Longrightarrow> single_slashes (butlast s)"
  by (induction s rule: single_slashes.induct) (auto simp: single_slashes_Cons split: if_splits)

lemma single_last: "single_slashes s \<Longrightarrow> 1 < length s \<Longrightarrow> last s = CHR ''/'' \<Longrightarrow> last (butlast s) \<noteq> CHR ''/''"
  by (induction s rule: single_slashes.induct) (auto split: if_splits)

text \<open>The path that endpoint patterns are compared with is in a normal form: it has no double
  slash, ends with a slash only if it is the root, and is not changed by normalising it again.\<close>

theorem normalized_path:
  "single_slashes (normalizeRequestPath base path) \<and>
   (1 < length (normalizeRequestPath base path) \<longrightarrow> last (normalizeRequestPath base path) \<noteq> CHR ''/'') \<and>
   normalizeRequestPath [] (normalizeRequestPath base path) = normalizeRequestPath base path"
proof -
  define c where "c = collapse_slashes (base @ path)"
  define n where "n = normalizeRequestPath base path"
  have n: "n = (if 1 < length c then drop_last_slash c else c)"
    by (simp add: n_def c_def normalizeRequestPath_def Let_def)
  have c: "single_slashes c" by (simp add: c_def collapse_single)
  have 1: "single_slashes n" using c by (simp add: n drop_last_slash_def single_slashes_butlast)
  have 2: "1 < length n \<longrightarrow> last n \<noteq> CHR ''/''"
    using single_last [OF c] by (auto simp: n drop_last_slash_def)
  have "normalizeRequestPath [] n = n"
    using 1 2 by (auto simp: normalizeRequestPath_def collapse_id drop_last_slash_def Let_def)
  with 1 2 show ?thesis unfolding n_def by blast
qed

lemma normalized_path_witness:
  "normalizeRequestPath ''/api//v1'' ''/contracts/'' = ''/api/v1/contracts'' \<and>
   last (normalizeRequestPath ''/api//v1'' ''/contracts/'') \<noteq> CHR ''/''"
  using normalized_path [of "''/api//v1''" "''/contracts/''"]
  by (simp add: normalizeRequestPath_def drop_last_slash_def)

text \<open>A pattern that ends with a slash matches no request but one of the root.\<close>

lemma slash_pattern_never_matches:
  assumes "1 < length pattern" "last pattern = CHR ''/''"
  shows "\<not> endpoint_matches (normalizeRequestPath base path) pattern"
proof
  assume "endpoint_matches (normalizeRequestPath base path) pattern"
  moreover have "\<not> ends_with ''*'' pattern"
    using assms by (cases pattern rule: rev_cases) (auto simp: ends_with_def)
  ultimately have "normalizeRequestPath base path = pattern" by (simp add: endpoint_matches_def)
  then show False using normalized_path [of base path] assms by simp
qed

section \<open>What an accepted request has shown\<close>

text \<open>A cached answer and the row it came from.\<close>

definition entry_ok :: "int \<Rightarrow> key_row list \<Rightarrow> string \<Rightarrow> key_context \<Rightarrow> int \<Rightarrow> bool" where
  "entry_ok ttl rows h c expires = (\<exists>r \<in> set rows. k_hash r = h \<and> k_status r = K_active \<and> k_revoked_at r = None \<and>
     kc_id c = k_id r \<and> kc_ips c = k_ips r \<and> kc_endpoints c = k_endpoints r \<and> kc_domains c = k_domains r \<and>
     (case k_expires r of None \<Rightarrow> True | Some e \<Rightarrow> expires - ttl < e))"

definition keys_ok :: "int \<Rightarrow> key_state \<Rightarrow> bool" where
  "keys_ok ttl s = (distinct (map k_id (ks_rows s)) \<and> distinct (map k_hash (ks_rows s)) \<and>
     (\<forall>h c expires. jm_get (ks_cache s) h = Some (Some c, expires) \<longrightarrow> entry_ok ttl (ks_rows s) h c expires))"

lemma find_active_Some:
  "find_active h rows = Some r \<Longrightarrow> r \<in> set rows \<and> k_hash r = h \<and> k_status r = K_active"
  by (auto simp: find_active_def find_Some_iff)

lemma find_key_Some: "find_key i dev rows = Some r \<Longrightarrow> r \<in> set rows \<and> k_id r = i \<and> k_developer r = dev"
  by (auto simp: find_key_def find_Some_iff)

lemma fresh_entry:
  assumes "find_active h rows = Some r" "usable now r"
  shows "entry_ok ttl rows h (context_of r) (now + ttl)"
  unfolding entry_ok_def
  by (rule bexI [of _ r]) (use find_active_Some [OF assms(1)] assms(2) in
    \<open>auto simp: usable_def context_of_def split: option.splits\<close>)

lemma finish_answer:
  "fst (finish_lookup ttl now h row s) =
     (case row of None \<Rightarrow> None | Some r \<Rightarrow> if usable now r then Some (context_of r) else None)"
  by (simp add: finish_lookup_def Let_def)

lemma entry_ok_map:
  assumes "entry_ok ttl rows h c e"
    and "\<And>r. r \<in> set rows \<Longrightarrow> k_hash r = h \<Longrightarrow> f r = r\<lparr>k_last_used := k_last_used (f r), k_usage := k_usage (f r), k_tier := k_tier (f r)\<rparr>"
  shows "entry_ok ttl (map f rows) h c e"
proof -
  obtain r where r: "r \<in> set rows" "k_hash r = h" "k_status r = K_active" "k_revoked_at r = None"
    "kc_id c = k_id r" "kc_ips c = k_ips r" "kc_endpoints c = k_endpoints r" "kc_domains c = k_domains r"
    "case k_expires r of None \<Rightarrow> True | Some x \<Rightarrow> e - ttl < x"
    using assms(1) by (auto simp: entry_ok_def)
  obtain x y z where f: "f r = r\<lparr>k_last_used := x, k_usage := y, k_tier := z\<rparr>"
    using assms(2) [OF r(1,2)] by blast
  have "f r \<in> set (map f rows)" using r(1) by simp
  then show ?thesis unfolding entry_ok_def by (rule rev_bexI) (use r f in simp)
qed

lemma resolve_ok:
  assumes "keys_ok ttl s" shows "keys_ok ttl (snd (resolveApiKey ttl now h s))"
proof (cases "cached_answer now h s")
  case None
  let ?row = "find_active h (ks_rows s)"
  let ?t = "snd (finish_lookup ttl now h ?row s)"
  let ?ctx = "fst (finish_lookup ttl now h ?row s)"
  have "ks_rows ?t = (case ?ctx of None \<Rightarrow> ks_rows s | Some c \<Rightarrow> touch_usage now (kc_id c) (ks_rows s))"
    by (simp add: finish_lookup_def Let_def)
  then obtain i where t: "ks_rows ?t = touch_usage now i (ks_rows s) \<or> ks_rows ?t = ks_rows s"
    by (cases ?ctx) auto
  have cache: "ks_cache ?t = jm_set h (?ctx, now + ttl) (ks_cache s)"
    by (simp add: finish_lookup_def Let_def)
  have keep: "entry_ok ttl (ks_rows s) k c e \<Longrightarrow> entry_ok ttl (ks_rows ?t) k c e" for k c e
    using t entry_ok_map [of ttl "ks_rows s" k c e "\<lambda>r. if k_id r = i then r\<lparr>k_last_used := Some now, k_usage := Suc (k_usage r)\<rparr> else r"]
    by (auto simp: touch_usage_def tbl_update_def)
  have "entry_ok ttl (ks_rows s) h c (now + ttl)" if "?ctx = Some c" for c
    using that fresh_entry by (auto simp: finish_answer split: option.splits if_splits)
  then have "\<forall>k c e. jm_get (ks_cache ?t) k = Some (Some c, e) \<longrightarrow> entry_ok ttl (ks_rows ?t) k c e"
    using assms keep by (auto simp: cache keys_ok_def)
  moreover have "map k_id (ks_rows ?t) = map k_id (ks_rows s)" "map k_hash (ks_rows ?t) = map k_hash (ks_rows s)"
    using t by (auto simp: touch_usage_def tbl_update_def)
  ultimately show ?thesis using assms None by (simp add: resolveApiKey_def keys_ok_def)
qed (use assms in \<open>simp add: resolveApiKey_def\<close>)

lemma evict_ok:
  assumes "keys_ok ttl s" "r \<in> set (ks_rows s)" "k_id r = i" "\<And>r. k_id (f r) = k_id r" "\<And>r. k_hash (f r) = k_hash r"
  shows "keys_ok ttl (invalidateKeyCache (k_hash r) (s\<lparr>ks_rows := tbl_update k_id i f (ks_rows s)\<rparr>))"
proof -
  have other: "k_id x \<noteq> i" if "x \<in> set (ks_rows s)" "k_hash x \<noteq> k_hash r" for x
    using assms(1-3) that by (auto simp: keys_ok_def distinct_map inj_on_def)
  have "entry_ok ttl (tbl_update k_id i f (ks_rows s)) h c e"
    if "entry_ok ttl (ks_rows s) h c e" "h \<noteq> k_hash r" for h c e
    using that other unfolding tbl_update_def by (intro entry_ok_map) auto
  moreover have "map k_id (tbl_update k_id i f (ks_rows s)) = map k_id (ks_rows s)"
    "map k_hash (tbl_update k_id i f (ks_rows s)) = map k_hash (ks_rows s)"
    by (simp_all add: tbl_update_def assms(4,5))
  ultimately show ?thesis
    using assms(1) by (simp add: keys_ok_def invalidateKeyCache_def)
qed

lemma append_ok:
  assumes "keys_ok ttl s" "k_id n \<notin> k_id ` set (ks_rows s)" "k_hash n \<notin> k_hash ` set (ks_rows s)"
  shows "keys_ok ttl (s\<lparr>ks_rows := ks_rows s @ [n]\<rparr>)"
  using assms by (auto simp: keys_ok_def entry_ok_def)

lemma new_key_row_sel [simp]:
  "k_id (new_key_row i dev name prefix h perms ips domains expires) = i"
  "k_hash (new_key_row i dev name prefix h perms ips domains expires) = h"
  by (simp_all add: new_key_row_def)

lemma seq_step_ok: "key_seq_step sha ttl s s' \<Longrightarrow> keys_ok ttl s \<Longrightarrow> keys_ok ttl s'"
proof (induction rule: key_seq_step.induct)
  case (kq_resolve s now h)
  then show ?case by (rule resolve_ok)
next
  case (kq_create i s raw developers dev inp)
  then show ?case by (simp add: createKey_def append_ok)
next
  case (kq_patch s i dev p)
  then show ?case
    by (cases "find_key i dev (ks_rows s)")
       (auto simp: patchKey_def patch_row_def dest!: find_key_Some intro!: evict_ok)
next
  case (kq_revoke s i dev)
  then show ?case
    by (cases "find_key i dev (ks_rows s)") (auto simp: revokeKey_def dest!: find_key_Some intro!: evict_ok)
next
  case (kq_rotate j s raw now i dev)
  show ?case
  proof (cases "find_key i dev (ks_rows s)")
    case (Some r)
    let ?f = "\<lambda>r. r\<lparr>k_status := K_expired, k_expires := Some now\<rparr>"
    let ?s1 = "invalidateKeyCache (k_hash r) (s\<lparr>ks_rows := tbl_update k_id i ?f (ks_rows s)\<rparr>)"
    have "keys_ok ttl ?s1" using kq_rotate find_key_Some [OF Some] by (intro evict_ok) auto
    moreover have "j \<notin> k_id ` set (ks_rows ?s1)" "sha raw \<notin> k_hash ` set (ks_rows ?s1)"
      using kq_rotate by (auto simp: invalidateKeyCache_def table_simps)
    ultimately show ?thesis using Some by (simp add: rotateKey_def append_ok Let_def)
  qed (use kq_rotate in \<open>simp add: rotateKey_def\<close>)
next
  case (kq_promote s dev tier)
  have "entry_ok ttl (ks_rows (promoteDeveloperTier dev tier s)) h c e" if "entry_ok ttl (ks_rows s) h c e" for h c e
    using that by (auto simp: promoteDeveloperTier_def intro!: entry_ok_map)
  moreover have "map k_id (ks_rows (promoteDeveloperTier dev tier s)) = map k_id (ks_rows s)"
    "map k_hash (ks_rows (promoteDeveloperTier dev tier s)) = map k_hash (ks_rows s)"
    by (simp_all add: promoteDeveloperTier_def)
  moreover have "ks_cache (promoteDeveloperTier dev tier s) = ks_cache s" by (simp add: promoteDeveloperTier_def)
  ultimately show ?case using kq_promote by (simp add: keys_ok_def)
qed

interpretation sequential_keys: invariant_system key_init "key_seq_step sha ttl" "keys_ok ttl" for sha ttl
  by unfold_locales (erule (1) seq_step_ok | simp add: key_init_def keys_ok_def)+

lemma resolve_entry:
  assumes "keys_ok ttl s" "fst (resolveApiKey ttl now h s) = Some c" "0 \<le> ttl"
  shows "\<exists>e. entry_ok ttl (ks_rows s) h c e \<and> now \<le> e"
proof (cases "cached_answer now h s")
  case (Some a)
  then obtain e where "jm_get (ks_cache s) h = Some (a, e)" "now < e"
    by (auto simp: cached_answer_def split: option.splits prod.splits if_splits)
  with Some assms show ?thesis by (auto simp: resolveApiKey_def keys_ok_def intro!: exI [of _ e])
next
  case None
  then have "entry_ok ttl (ks_rows s) h c (now + ttl)"
    using assms(2) fresh_entry by (auto simp: resolveApiKey_def finish_answer split: option.splits if_splits)
  with assms(3) show ?thesis by (intro exI [of _ "now + ttl"]) simp
qed

lemma check_accepts:
  "check_request lib url_host rq (Some c) = Auth_next (Some c') \<longleftrightarrow> c' = c \<and>
     \<not> restricted (kc_ips c) (\<lambda>l. list_ex (ipMatchesCidr lib (kr_ip rq)) l) \<and>
     \<not> restricted (kc_domains c) (\<lambda>l. case extractOriginHost url_host rq of
         None \<Rightarrow> False | Some host \<Rightarrow> host \<noteq> [] \<and> domainAllowed host l) \<and>
     \<not> restricted (kc_endpoints c) (endpointAllowed rq)"
  by (auto simp: check_request_def)


text \<open>A developer with one key.\<close>

definition demo_lib :: "nat ip_library" where
  "demo_lib = \<lparr>il_process = (\<lambda>t. Some (length t)), il_parse_cidr = (\<lambda>t. None), il_is_v4 = (\<lambda>a. True),
     il_match = (\<lambda>a r. Some False), il_text = dec_nat\<rparr>"

definition demo_row :: key_row where
  "demo_row = new_key_row 1 ''dev'' ''k'' ''sk_1'' ''sk_1'' ''{}'' None None None"

definition demo_keys :: key_state where
  "demo_keys = \<lparr>ks_rows = [demo_row], ks_cache = [], ks_pending = []\<rparr>"

definition demo_key_request :: key_request where
  "demo_key_request = \<lparr>kr_key = Some ''sk_1'', kr_ip = ''::1'', kr_origin = None, kr_referer = None,
     kr_base = [], kr_path = ''/api''\<rparr>"

lemma demo_keys_reachable: "reachable key_init (key_seq_step id ttl) demo_keys"
proof -
  let ?s = "\<lparr>ks_rows = [], ks_cache = [], ks_pending = []\<rparr> :: key_state"
  let ?inp = "\<lparr>kp_name = ''k'', kp_permissions = None, kp_ips = None, kp_domains = None, kp_expires = None\<rparr>"
  have "key_init ?s" by (simp add: key_init_def)
  then have "reachable key_init (key_seq_step id ttl) (snd (createKey id [''dev''] 1 ''sk_1'' ''dev'' ?inp ?s))"
    by (rule reach_step [OF reach_init]) (rule kq_create; simp)
  then show ?thesis by (simp add: createKey_def demo_keys_def demo_row_def)
qed

lemma demo_resolve:
  "resolveApiKey ttl now ''sk_1'' demo_keys = (Some (context_of demo_row),
     \<lparr>ks_rows = touch_usage now 1 [demo_row], ks_cache = [(''sk_1'', Some (context_of demo_row), now + ttl)],
      ks_pending = []\<rparr>)"
  by (simp add: resolveApiKey_def demo_keys_def cached_answer_def find_active_def demo_row_def new_key_row_def
      finish_lookup_def usable_def context_of_def jm_set_def Let_def)


text \<open>A lookup that is waiting for the database when its key is revoked puts the old answer into
  the cache after the revocation has emptied it: the revoked key is accepted for the whole life
  time of the entry, although the comment at the revocation says that it is rejected on the very
  next request.\<close>

theorem revocation_race:
  assumes "find_key i dev (ks_rows s) = Some r" "find_active (k_hash r) (ks_rows s) = Some r"
    and "usable now r" "cached_answer now (k_hash r) s = None" "t < now + ttl"
  shows "\<exists>s'. (key_step sha ttl)\<^sup>*\<^sup>* s s' \<and> (\<forall>x \<in> set (ks_rows s'). k_id x = i \<longrightarrow> k_status x = K_revoked) \<and>
    cached_answer t (k_hash r) s' = Some (Some (context_of r))"
proof -
  let ?s1 = "s\<lparr>ks_pending := ks_pending s @ [(k_hash r, Some r)]\<rparr>"
  let ?s2 = "snd (revokeKey i dev ?s1)"
  let ?s3 = "snd (finish_lookup ttl now (k_hash r) (Some r) (?s2\<lparr>ks_pending := remove1 (k_hash r, Some r) (ks_pending ?s2)\<rparr>))"
  have "key_step sha ttl s ?s1" using ky_begin [OF assms(4)] by (simp add: assms(2))
  moreover have "key_step sha ttl ?s1 ?s2" by (rule ky_revoke)
  moreover have "key_step sha ttl ?s2 ?s3"
    using ky_finish [of "(k_hash r, Some r)" ?s2] assms(1) by (simp add: revokeKey_def invalidateKeyCache_def)
  ultimately have "(key_step sha ttl)\<^sup>*\<^sup>* s ?s3"
    by (meson converse_rtranclp_into_rtranclp rtranclp.rtrancl_refl)
  moreover have "cached_answer t (k_hash r) ?s3 = Some (Some (context_of r))"
    using assms(3,5) by (simp add: cached_answer_def finish_lookup_def Let_def)
  moreover have "\<forall>x \<in> set (ks_rows ?s3). k_id x = i \<longrightarrow> k_status x = K_revoked"
    using assms(1,3) find_key_Some [OF assms(1)]
    by (auto simp: finish_lookup_def revokeKey_def invalidateKeyCache_def touch_usage_def tbl_update_def Let_def)
  ultimately show ?thesis by blast
qed

lemma revocation_race_witness:
  "\<exists>s'. (key_step id 10000)\<^sup>*\<^sup>* demo_keys s' \<and> (\<forall>x \<in> set (ks_rows s'). k_id x = 1 \<longrightarrow> k_status x = K_revoked) \<and>
    cached_answer 9000 ''sk_1'' s' = Some (Some (context_of demo_row))"
  using revocation_race [of 1 "''dev''" demo_keys demo_row 0 9000 10000 id]
  by (simp add: demo_keys_def find_key_def find_active_def demo_row_def new_key_row_def usable_def cached_answer_def)

lemma find_active_new:
  assumes "h \<notin> k_hash ` set rows" "k_hash n = h" "k_status n = K_active"
  shows "find_active h (rows @ [n]) = Some n"
proof -
  have "List.find (\<lambda>r. k_hash r = h \<and> k_status r = K_active) rows = None"
    using assms(1) by (auto simp: find_None_iff)
  then show ?thesis using assms(2,3) by (induction rows) (auto simp: find_active_def split: if_splits)
qed

text \<open>Rotating a key gives a key that is active and has no expiry and no endpoint restriction,
  whatever the old key was: a revoked or expired key comes back to life, and a key that was
  limited to some endpoints becomes valid for all of them.\<close>

theorem rotation_lifts_limits:
  assumes "find_key i dev (ks_rows s) = Some r" "k_status r \<noteq> K_active"
    and "k_ips r = None" "k_domains r = None"
    and "sha raw \<notin> k_hash ` set (ks_rows s)" "jm_get (ks_cache s) (sha raw) = None"
    and "kr_key rq = Some raw" "raw \<noteq> []"
  shows "\<exists>c. fst (apiKeyAuth lib url_host sha ttl t rq (snd (rotateKey sha j raw now i dev s))) = Auth_next (Some c) \<and>
    kc_endpoints c = None \<and> kc_developer c = k_developer r"
proof -
  let ?s = "snd (rotateKey sha j raw now i dev s)"
  let ?f = "\<lambda>r. r\<lparr>k_status := K_expired, k_expires := Some now\<rparr>"
  let ?n = "new_key_row j (k_developer r) (k_name r @ '' (rotated)'') (take 8 raw) (sha raw) (k_permissions r)
      (k_ips r) (k_domains r) None"
  have rows: "ks_rows ?s = tbl_update k_id i ?f (ks_rows s) @ [?n]"
    using assms(1) by (simp add: rotateKey_def invalidateKeyCache_def Let_def)
  have "sha raw \<notin> k_hash ` set (tbl_update k_id i ?f (ks_rows s))"
    using assms(5) by (auto simp: table_simps)
  then have f: "find_active (sha raw) (ks_rows ?s) = Some ?n"
    unfolding rows by (rule find_active_new) (simp_all add: new_key_row_def)
  have "jm_get (ks_cache ?s) (sha raw) = None"
    using assms(1,6) by (simp add: rotateKey_def invalidateKeyCache_def Let_def)
  then have "fst (resolveApiKey ttl t (sha raw) ?s) = Some (context_of ?n)"
    by (simp add: resolveApiKey_def cached_answer_def f finish_answer usable_def new_key_row_def)
  moreover have "check_request lib url_host rq (Some (context_of ?n)) = Auth_next (Some (context_of ?n))"
    using assms(3,4) by (simp add: check_accepts context_of_def new_key_row_def restricted_def)
  ultimately show ?thesis
    using assms(7,8) by (simp add: apiKeyAuth_def context_of_def new_key_row_def case_prod_beta)
qed

definition dead_keys :: key_state where
  "dead_keys = demo_keys\<lparr>ks_rows := [demo_row\<lparr>k_status := K_revoked, k_endpoints := Some [''/api/v1/events'']\<rparr>]\<rparr>"

lemma rotation_lifts_limits_witness:
  "\<exists>c. fst (apiKeyAuth demo_lib (\<lambda>t. None) id 10000 60 (demo_key_request\<lparr>kr_key := Some ''sk_2''\<rparr>)
      (snd (rotateKey id 2 ''sk_2'' 50 1 ''dev'' dead_keys))) = Auth_next (Some c) \<and> kc_endpoints c = None \<and>
    kc_developer c = ''dev''"
  using rotation_lifts_limits [of 1 "''dev''" dead_keys _ id "''sk_2''" "demo_key_request\<lparr>kr_key := Some ''sk_2''\<rparr>"
      demo_lib "\<lambda>t. None" 10000 60 2 50]
  by (simp add: dead_keys_def demo_keys_def find_key_def demo_row_def new_key_row_def)

text \<open>The two ways to present a key differ in what they check.\<close>

text \<open>A WebSocket connection needs nothing but the key: a key whose address restriction makes every
  HTTP request from an address fail opens a connection from there.\<close>

theorem websocket_skips_restrictions:
  assumes "find_active (sha raw) rows = Some r" "usable now r"
    and "wr_token rq = Some raw" "raw \<noteq> []" "\<not> starts_with ''Bearer '' raw"
    and "restricted (k_ips r) (\<lambda>l. list_ex (ipMatchesCidr lib (kr_ip hrq)) l)"
  shows "authenticate sha verifyToken now rq rows = Inr (Ws_apikey (k_id r)) \<and>
    check_request lib url_host hrq (Some (context_of r)) = Auth_reject 403"
  using assms by (simp add: authenticate_def extractApiKey_def check_request_def context_of_def)

lemma websocket_skips_restrictions_witness:
  "authenticate id (\<lambda>t. None) 0 \<lparr>wr_token = Some ''sk_1'', wr_key = [], wr_authorization = [], wr_origin = []\<rparr>
      [demo_row\<lparr>k_ips := Some [''10.0.0.0/8'']\<rparr>] = Inr (Ws_apikey 1) \<and>
   check_request demo_lib (\<lambda>t. None) demo_key_request (Some (context_of (demo_row\<lparr>k_ips := Some [''10.0.0.0/8'']\<rparr>))) = Auth_reject 403"
  using websocket_skips_restrictions [of id "''sk_1''" "[demo_row\<lparr>k_ips := Some [''10.0.0.0/8'']\<rparr>]"
      "demo_row\<lparr>k_ips := Some [''10.0.0.0/8'']\<rparr>" 0
      "\<lparr>wr_token = Some ''sk_1'', wr_key = [], wr_authorization = [], wr_origin = []\<rparr>" demo_lib demo_key_request
      "\<lambda>t. None" "\<lambda>t. None"]
  by (simp add: find_active_def demo_row_def new_key_row_def usable_def starts_with_def restricted_def
      demo_lib_def ipMatchesCidr_def)

text \<open>Tiers are compared by their place in the list; a tier that is not in the list is refused
  everywhere, also where the tier of requests without a key is enough.\<close>

lemma tier_unknown_refused:
  "kc_tier c \<notin> set tier_order \<Longrightarrow> m \<in> set tier_order \<Longrightarrow> requireKeyTier m (Some c) = Auth_reject 403"
proof -
  have "x \<notin> set xs \<Longrightarrow> index_of x xs = -1" "x \<in> set xs \<Longrightarrow> 0 \<le> index_of x xs" for x :: string and xs
    by (induction xs) (auto simp: Let_def)
  then show "kc_tier c \<notin> set tier_order \<Longrightarrow> m \<in> set tier_order \<Longrightarrow> requireKeyTier m (Some c) = Auth_reject 403"
    by (fastforce simp: requireKeyTier_def Let_def)
qed

end
