(* ===== verification/Rate_Limits.thy ===== *)
theory Rate_Limits
  imports Api_Keys Js_Double
begin

text \<open>
  \<open>src/middleware/tokenBucket.ts\<close> and \<open>src/middleware/rateLimit.ts\<close>: the token bucket per client,
  tier and path, the fixed windows of the local limiter with the overrides of single users, and
  the middleware that chooses between them. Redis, the table of overrides and the third-party
  limiter are parameters. The arithmetic of the bucket is on doubles. Times are milliseconds.
\<close>

section \<open>Tiers and endpoint groups\<close>

record tier_limits =
  tl_per_minute :: int
  tl_burst :: int
  tl_ttl :: int

definition TIER_LIMITS :: "string \<Rightarrow> tier_limits option" where
  "TIER_LIMITS t =
     (if t = ''unauthenticated'' then Some \<lparr>tl_per_minute = 60, tl_burst = 10, tl_ttl = 3600\<rparr>
      else if t = ''free'' then Some \<lparr>tl_per_minute = 1000, tl_burst = 50, tl_ttl = 86400\<rparr>
      else if t = ''developer'' then Some \<lparr>tl_per_minute = 1000, tl_burst = 50, tl_ttl = 86400\<rparr>
      else if t = ''pro'' then Some \<lparr>tl_per_minute = 10000, tl_burst = 200, tl_ttl = 2592000\<rparr>
      else if t = ''enterprise'' then Some \<lparr>tl_per_minute = 60000, tl_burst = 500, tl_ttl = 2592000\<rparr>
      else None)"

text \<open>The patterns of the endpoint groups; in one of them any text may stand between the path and
  the method.\<close>

definition contracts_post :: "string \<Rightarrow> bool" where
  "contracts_post s = (starts_with ''/api/v1/contracts'' s \<and>
     includes_str ''POST'' (takeWhile (\<lambda>c. c \<noteq> CHR 0x0A \<and> c \<noteq> CHR 0x0D) (drop 17 s)))"

definition ENDPOINT_GROUPS :: "((string \<Rightarrow> bool) \<times> rat) list" where
  "ENDPOINT_GROUPS =
    [(starts_with ''/api/v1/events'', 1),
     (\<lambda>s. starts_with ''/api/v1/search'' s \<or> starts_with ''/api/v1/nft/search'' s, round_pos (5 / 10)),
     (contracts_post, round_pos (17 / 100)),
     (starts_with ''/api/v1/simulate'', round_pos (8 / 100)),
     (starts_with ''/ws'', round_pos (5 / 100))]"

definition getEndpointMultiplier :: "string \<Rightarrow> string \<Rightarrow> rat" where
  "getEndpointMultiplier http_method path =
     (case List.find (\<lambda>g. fst g (path @ http_method) \<or> fst g path) ENDPOINT_GROUPS of
        None \<Rightarrow> 1 | Some g \<Rightarrow> snd g)"

section \<open>Token bucket\<close>

record mem_bucket =
  mb_tokens :: rat
  mb_last :: int

type_synonym mem_buckets = "(string, mem_bucket) jsmap"

definition checkMemoryBucket ::
    "string \<Rightarrow> int \<Rightarrow> rat \<Rightarrow> int \<Rightarrow> mem_buckets \<Rightarrow> (bool \<times> int \<times> int) \<times> mem_buckets" where
  "checkMemoryBucket key capacity refillRate now buckets =
     (let b = (case jm_get buckets key of None \<Rightarrow> \<lparr>mb_tokens = of_int capacity, mb_last = now\<rparr> | Some b \<Rightarrow> b);
          elapsed = max 0 (now - mb_last b);
          refilled = min (of_int capacity)
            (fl_add (mb_tokens b) (fl_mul (fl_div (of_int elapsed) 1000) refillRate));
          allowed = (1 \<le> refilled);
          tokens = (if allowed then fl_sub refilled 1 else refilled);
          resetAt = \<lceil>fl_add (fl_div (of_int now) 1000) (fl_div (fl_sub (of_int capacity) tokens) refillRate)\<rceil>
      in ((allowed, \<lfloor>tokens\<rfloor>, resetAt), jm_set key \<lparr>mb_tokens = tokens, mb_last = now\<rparr> buckets))"

record bucket_result =
  br_allowed :: bool
  br_remaining :: int
  br_limit :: int
  br_reset :: int
  br_tier :: string

text \<open>Redis: key, capacity, rate, time and life time to an answer, or a failure.\<close>

type_synonym bucket_redis = "string \<Rightarrow> int \<Rightarrow> rat \<Rightarrow> int \<Rightarrow> int \<Rightarrow> (int \<times> int \<times> int) option"

definition bucket_key :: "string \<Rightarrow> string \<Rightarrow> string \<Rightarrow> string" where
  "bucket_key tier clientKey path =
     ''tb:'' @ tier @ '':'' @ clientKey @ '':'' @ map (\<lambda>c. if c = CHR ''/'' then CHR ''_'' else c) path"

definition bucket_capacity :: "tier_limits \<Rightarrow> string \<Rightarrow> string \<Rightarrow> int option \<Rightarrow> int" where
  "bucket_capacity base http_method path override =
     \<lceil>fl_mul (of_int (case override of Some n \<Rightarrow> (if n \<noteq> 0 then n else tl_per_minute base) | None \<Rightarrow> tl_per_minute base))
        (getEndpointMultiplier http_method path)\<rceil>"

definition effective_capacity :: "tier_limits \<Rightarrow> int \<Rightarrow> int option \<Rightarrow> int" where
  "effective_capacity base capacity override =
     (let burst = min capacity (case override of Some n \<Rightarrow> (if n \<noteq> 0 then capacity else tl_burst base) | None \<Rightarrow> tl_burst base)
      in max capacity burst)"

text \<open>\<open>checkTokenBucket\<close>; a tier that is not in the table makes it throw.\<close>

definition checkTokenBucket ::
    "bucket_redis option \<Rightarrow> int \<Rightarrow> string \<Rightarrow> string \<Rightarrow> string \<Rightarrow> string \<Rightarrow> int option \<Rightarrow> mem_buckets
      \<Rightarrow> (bucket_result \<times> mem_buckets) option" where
  "checkTokenBucket redis now clientKey tier http_method path override buckets =
     (case TIER_LIMITS tier of
        None \<Rightarrow> None
      | Some base \<Rightarrow>
          (let capacity = bucket_capacity base http_method path override;
               refillRate = fl_div (of_int capacity) 60;
               effective = effective_capacity base capacity override;
               key = bucket_key tier clientKey path;
               local = (case checkMemoryBucket key effective refillRate now buckets of
                  ((allowed, remaining, resetAt), buckets') \<Rightarrow>
                    (\<lparr>br_allowed = allowed, br_remaining = remaining, br_limit = capacity, br_reset = resetAt,
                      br_tier = tier\<rparr>, buckets'))
           in case redis of
                None \<Rightarrow> Some local
              | Some eval \<Rightarrow>
                  (case eval key effective refillRate now (tl_ttl base) of
                     None \<Rightarrow> Some local
                   | Some (allowed, remaining, resetAt) \<Rightarrow>
                       Some (\<lparr>br_allowed = (allowed = 1), br_remaining = remaining, br_limit = capacity,
                          br_reset = resetAt, br_tier = tier\<rparr>, buckets))))"

text \<open>\<open>tokenBucketMiddleware\<close>: nothing (the request goes on), or the seconds after which to try
  again; a throw is the outer \<open>None\<close>.\<close>

definition tokenBucketMiddleware ::
    "bucket_redis option \<Rightarrow> int \<Rightarrow> string \<Rightarrow> string \<Rightarrow> string \<Rightarrow> string \<Rightarrow> int option \<Rightarrow> mem_buckets
      \<Rightarrow> (int option \<times> mem_buckets) option" where
  "tokenBucketMiddleware redis now tier key http_method path override buckets =
     map_option (\<lambda>(r, buckets'). (if br_allowed r then None else Some (max 1 (br_reset r - now div 1000)), buckets'))
       (checkTokenBucket redis now key tier http_method path override buckets)"

section \<open>Local limiter\<close>

datatype tier_name = Premium | Developer | Public

record tier_config =
  tc_window :: int
  tc_max :: int

definition DEFAULT_TIERS :: "tier_name \<Rightarrow> tier_config" where
  "DEFAULT_TIERS t = \<lparr>tc_window = 60000, tc_max = (case t of Premium \<Rightarrow> 1000 | Developer \<Rightarrow> 300 | Public \<Rightarrow> 100)\<rparr>"

definition sanitizeTierValue :: "js_double \<Rightarrow> int \<Rightarrow> int" where
  "sanitizeTierValue v fallback =
     (case v of Finite q \<Rightarrow> if 0 < q then \<lfloor>q\<rfloor> else fallback | _ \<Rightarrow> fallback)"

text \<open>The configured window and maximum of each tier.\<close>

type_synonym raw_tiers = "tier_name \<Rightarrow> js_double \<times> js_double"

definition normalizeTierConfig :: "raw_tiers \<Rightarrow> tier_name \<Rightarrow> tier_config" where
  "normalizeTierConfig raw t =
     \<lparr>tc_window = sanitizeTierValue (fst (raw t)) (tc_window (DEFAULT_TIERS t)),
      tc_max = sanitizeTierValue (snd (raw t)) (tc_max (DEFAULT_TIERS t))\<rparr>"

definition getRateLimitTier :: "string list \<Rightarrow> string list \<Rightarrow> string option \<Rightarrow> tier_name" where
  "getRateLimitTier developerKeys premiumKeys apiKey =
     (case apiKey of
        None \<Rightarrow> Public
      | Some k \<Rightarrow> if k \<noteq> [] \<and> k \<in> set premiumKeys then Premium
                  else if k \<noteq> [] \<and> k \<in> set developerKeys then Developer else Public)"

definition getTierFromEnvKey :: "string list \<Rightarrow> string list \<Rightarrow> string option \<Rightarrow> string" where
  "getTierFromEnvKey developerKeys premiumKeys apiKey =
     (case apiKey of
        None \<Rightarrow> ''unauthenticated''
      | Some k \<Rightarrow> if k \<noteq> [] \<and> k \<in> set premiumKeys then ''pro''
                  else if k \<noteq> [] \<and> k \<in> set developerKeys then ''developer'' else ''unauthenticated'')"

record adaptive_config =
  ad_enabled :: bool
  ad_load :: js_double
  ad_threshold :: rat
  ad_multiplier :: rat

definition applyAdaptiveThrottle :: "adaptive_config \<Rightarrow> tier_config \<Rightarrow> tier_config" where
  "applyAdaptiveThrottle ad cfg =
     (if \<not> ad_enabled ad then cfg
      else if ad_load ad = NotANumber \<or> \<not> double_less (Finite 0) (ad_load ad) then cfg
      else if double_less (ad_load ad) (Finite (ad_threshold ad)) then cfg
      else cfg\<lparr>tc_max := min (max 1 \<lfloor>fl_mul (of_int (tc_max cfg)) (ad_multiplier ad)\<rfloor>) (tc_max cfg)\<rparr>)"

record window_bucket =
  wb_count :: int
  wb_reset :: int

type_synonym override_cache = "(string, tier_config \<times> int) jsmap"

record limiter_state =
  ls_buckets :: mem_buckets
  ls_windows :: "(string, window_bucket) jsmap"
  ls_overrides :: override_cache

text \<open>The table of overrides: identifier and endpoint to nothing, or to a row; or the query fails.\<close>

type_synonym override_table = "string \<Rightarrow> string \<Rightarrow> tier_config option option"

definition getUserOverride ::
    "override_table \<Rightarrow> int \<Rightarrow> string \<Rightarrow> string \<Rightarrow> override_cache \<Rightarrow> tier_config option \<times> override_cache" where
  "getUserOverride table now identifier endpoint cache =
     (let key = ''override:'' @ identifier @ '':'' @ endpoint;
          lookup = (case table identifier (if endpoint = [] then ''/'' else endpoint) of
             None \<Rightarrow> (None, cache)
           | Some None \<Rightarrow> (None, jm_set key (DEFAULT_TIERS Public, now + 60000) cache)
           | Some (Some cfg) \<Rightarrow> (Some cfg, jm_set key (cfg, now + 60000) cache))
      in case jm_get cache key of
           None \<Rightarrow> lookup
         | Some (cfg, expires) \<Rightarrow> if now < expires then (Some cfg, cache) else lookup)"

definition clearRateLimitOverrideCache :: "limiter_state \<Rightarrow> limiter_state" where
  "clearRateLimitOverrideCache s = s\<lparr>ls_overrides := []\<rparr>"

text \<open>The window of a key: a new one starts when there is none or it is over.\<close>

definition window_check ::
    "string \<Rightarrow> tier_config \<Rightarrow> int \<Rightarrow> (string, window_bucket) jsmap \<Rightarrow> bool \<times> (string, window_bucket) jsmap" where
  "window_check key cfg now windows =
     (let b = (case jm_get windows key of
                 None \<Rightarrow> \<lparr>wb_count = 1, wb_reset = now + tc_window cfg\<rparr>
               | Some b \<Rightarrow> if wb_reset b \<le> now then \<lparr>wb_count = 1, wb_reset = now + tc_window cfg\<rparr>
                           else b\<lparr>wb_count := wb_count b + 1\<rparr>)
      in (wb_count b \<le> tc_max cfg, jm_set key b windows))"

record limit_request =
  lr_context :: "key_context option"
  lr_key :: "string option"
  lr_ip :: "string option"
  lr_http_method :: string
  lr_path :: string
  lr_user :: "string option"

record limiter_env =
  le_developer_keys :: "string list"
  le_premium_keys :: "string list"
  le_tiers :: raw_tiers
  le_adaptive :: adaptive_config
  le_overrides :: override_table
  le_use_bucket :: bool
  le_redis :: "bucket_redis option"

definition tier_text :: "tier_name \<Rightarrow> string" where
  "tier_text t = (case t of Premium \<Rightarrow> ''premium'' | Developer \<Rightarrow> ''developer'' | Public \<Rightarrow> ''public'')"

definition endpoint_of :: "limit_request \<Rightarrow> string" where
  "endpoint_of rq = (if lr_path rq = [] then ''/'' else lr_path rq)"

definition getRequestBucketKey :: "limit_request \<Rightarrow> tier_name \<Rightarrow> string" where
  "getRequestBucketKey rq t =
     tier_text t @ '':'' @ (case lr_user rq of Some u \<Rightarrow> u | None \<Rightarrow> (case lr_ip rq of Some a \<Rightarrow> a | None \<Rightarrow> ''unknown''))
       @ '':'' @ endpoint_of rq"

datatype limit_outcome = Limit_next | Limit_429 | Limit_legacy tier_name

definition runLocalRateLimit :: "limiter_env \<Rightarrow> int \<Rightarrow> limit_request \<Rightarrow> limiter_state \<Rightarrow> limit_outcome \<times> limiter_state" where
  "runLocalRateLimit env now rq s =
     (let tier = getRateLimitTier (le_developer_keys env) (le_premium_keys env) (lr_key rq);
          (override, cache) = (case lr_user rq of
             Some (c # cs) \<Rightarrow> getUserOverride (le_overrides env) now (c # cs) (endpoint_of rq) (ls_overrides s)
           | _ \<Rightarrow> (None, ls_overrides s));
          base = (case override of Some cfg \<Rightarrow> cfg | None \<Rightarrow> normalizeTierConfig (le_tiers env) tier);
          cfg = applyAdaptiveThrottle (le_adaptive env) base;
          (allowed, windows) = window_check (getRequestBucketKey rq tier) cfg now (ls_windows s)
      in (if allowed then Limit_next else Limit_429, s\<lparr>ls_overrides := cache, ls_windows := windows\<rparr>))"

definition tieredRateLimit :: "limiter_env \<Rightarrow> int \<Rightarrow> limit_request \<Rightarrow> limiter_state \<Rightarrow> limit_outcome \<times> limiter_state" where
  "tieredRateLimit env now rq s =
     (let tier = (case lr_context rq of Some c \<Rightarrow> kc_tier c
                  | None \<Rightarrow> getTierFromEnvKey (le_developer_keys env) (le_premium_keys env) (lr_key rq));
          clientKey = (case lr_context rq of Some c \<Rightarrow> dec_nat (kc_id c)
                  | None \<Rightarrow> (case lr_ip rq of Some a \<Rightarrow> a | None \<Rightarrow> ''anonymous''));
          override = (case lr_context rq of Some c \<Rightarrow> kc_override c | None \<Rightarrow> None);
          rest = (if (case override of Some n \<Rightarrow> n \<noteq> 0 | None \<Rightarrow> False) then runLocalRateLimit env now rq s
                  else (Limit_legacy (if tier = ''pro'' \<or> tier = ''enterprise'' then Premium
                     else if tier = ''developer'' then Developer else Public), s))
      in if le_use_bucket env then
           (case checkTokenBucket (le_redis env) now clientKey tier (lr_http_method rq) (lr_path rq) override (ls_buckets s) of
              Some (r, buckets) \<Rightarrow>
                (if br_allowed r then Limit_next else Limit_429, s\<lparr>ls_buckets := buckets\<rparr>)
            | None \<Rightarrow> rest)
         else rest)"

section \<open>The token bucket\<close>

lemma effective_capacity_eq [simp]: "effective_capacity base capacity override = capacity"
  by (simp add: effective_capacity_def Let_def split: option.split)

text \<open>The requests of one client to one path at one instant.\<close>

fun requests_at :: "int \<Rightarrow> string \<Rightarrow> string \<Rightarrow> string \<Rightarrow> string \<Rightarrow> int option \<Rightarrow> nat \<Rightarrow> mem_buckets \<Rightarrow> bool list" where
  "requests_at now client tier m path override 0 buckets = []"
| "requests_at now client tier m path override (Suc n) buckets =
     (case checkTokenBucket None now client tier m path override buckets of
        None \<Rightarrow> []
      | Some (r, buckets') \<Rightarrow> br_allowed r # requests_at now client tier m path override n buckets')"

lemma bucket_at_same_time:
  assumes "int k \<le> capacity" "capacity < 2 ^ 53"
    and "jm_get buckets key = Some \<lparr>mb_tokens = of_nat k, mb_last = now\<rparr> \<or> (jm_get buckets key = None \<and> int k = capacity)"
  shows "\<exists>y z. checkMemoryBucket key capacity rate now buckets =
    ((0 < k, y, z), jm_set key \<lparr>mb_tokens = of_nat (k - 1), mb_last = now\<rparr> buckets)"
proof -
  have "int k < int (2 ^ 53)" using assms(1,2) by simp
  then have k: "k < 2 ^ 53" by (simp only: of_nat_less_iff)
  have c: "of_int capacity = (of_nat (nat capacity) :: rat)" using assms(1) by simp
  have le: "(of_nat k :: rat) \<le> of_int capacity" using assms(1) by (metis of_int_le_iff of_int_of_nat_eq)
  have add: "fl_add (of_nat k) (fl_mul (fl_div 0 1000) rate) = of_nat k"
    using k by (simp add: fl_add_def fl_mul_def fl_div_def fl_round_nat)
  have sub: "0 < k \<Longrightarrow> fl_sub (of_nat k) 1 = of_nat (k - 1)"
    using k fl_round_nat [of "k - 1"] by (simp add: fl_sub_def of_nat_diff)
  have ge1: "(1 :: rat) \<le> of_nat k \<longleftrightarrow> 0 < k" by auto
  have old: "(case jm_get buckets key of None \<Rightarrow> \<lparr>mb_tokens = of_int capacity, mb_last = now\<rparr> | Some b \<Rightarrow> b)
      = \<lparr>mb_tokens = of_nat k, mb_last = now\<rparr>"
    using assms(3) by auto
  have tokens: "(if 0 < k then fl_sub (of_nat k) 1 else of_nat k) = of_nat (k - 1)"
    using sub by auto
  have refilled: "min (of_int capacity) (fl_add (of_nat k) (fl_mul (fl_div (of_int (max 0 (now - now))) 1000) rate))
      = (of_nat k :: rat)"
    using add le by (simp add: min_absorb2)
  show ?thesis
    unfolding checkMemoryBucket_def Let_def old mem_bucket.select_convs refilled ge1 tokens by blast
qed

lemma requests_at_state:
  assumes "TIER_LIMITS tier = Some base" "C = bucket_capacity base m path override" "C < 2 ^ 53" "int k \<le> C"
    and "jm_get buckets (bucket_key tier client path) = Some \<lparr>mb_tokens = of_nat k, mb_last = now\<rparr> \<or>
         (jm_get buckets (bucket_key tier client path) = None \<and> int k = C)"
  shows "requests_at now client tier m path override n buckets = replicate (min n k) True @ replicate (n - k) False"
  using assms(4,5)
proof (induction n arbitrary: k buckets)
  case (Suc n)
  let ?key = "bucket_key tier client path"
  let ?b = "jm_set ?key \<lparr>mb_tokens = of_nat (k - 1), mb_last = now\<rparr> buckets"
  obtain y z where "checkMemoryBucket ?key C (fl_div (of_int C) 60) now buckets = ((0 < k, y, z), ?b)"
    using bucket_at_same_time [OF Suc.prems(1) assms(3) Suc.prems(2)] by blast
  then have "requests_at now client tier m path override (Suc n) buckets =
      (0 < k) # requests_at now client tier m path override n ?b"
    using assms(1) by (simp add: checkTokenBucket_def Let_def assms(2) [symmetric])
  also have "requests_at now client tier m path override n ?b =
      replicate (min n (k - 1)) True @ replicate (n - (k - 1)) False"
    using Suc.prems(1) by (intro Suc.IH) auto
  finally show ?case by (cases k) simp_all
qed simp

text \<open>Of any number of requests that a new client sends to one path at one instant, as many
  pass as the tier allows in a whole minute, and all others are refused: the burst limit of the
  tier has no effect.\<close>

theorem burst_limit_ignored:
  assumes "TIER_LIMITS tier = Some base" "jm_get buckets (bucket_key tier client path) = None"
    and "0 \<le> bucket_capacity base m path override" "bucket_capacity base m path override < 2 ^ 53"
  shows "requests_at now client tier m path override n buckets =
    replicate (min n (nat (bucket_capacity base m path override))) True @
    replicate (n - nat (bucket_capacity base m path override)) False"
  using assms by (intro requests_at_state [OF assms(1) refl]) auto

lemma burst_limit_ignored_witness:
  "requests_at 0 ''10.0.0.1'' ''unauthenticated'' ''GET'' ''/health'' None 61 [] = replicate 60 True @ [False] \<and>
   map_option tl_burst (TIER_LIMITS ''unauthenticated'') = Some 10"
proof -
  let ?base = "\<lparr>tl_per_minute = 60, tl_burst = 10, tl_ttl = 3600\<rparr>"
  have t: "TIER_LIMITS ''unauthenticated'' = Some ?base" by (simp add: TIER_LIMITS_def)
  have "getEndpointMultiplier ''GET'' ''/health'' = 1"
    by (simp add: getEndpointMultiplier_def ENDPOINT_GROUPS_def starts_with_def contracts_post_def)
  then have c: "bucket_capacity ?base ''GET'' ''/health'' None = 60"
    using fl_round_nat [of 60] by (simp add: bucket_capacity_def fl_mul_def)
  have "requests_at 0 ''10.0.0.1'' ''unauthenticated'' ''GET'' ''/health'' None 61 [] =
      replicate (min 61 (nat 60)) True @ replicate (61 - nat 60) False"
    using burst_limit_ignored [OF t, of "[]" "''10.0.0.1''" "''/health''" "''GET''" None 0 61] c by simp
  then show ?thesis using t by (simp add: numeral_eq_Suc)
qed

text \<open>The number of tokens stays between nothing and the capacity.\<close>

definition bucket_ok :: "int \<Rightarrow> mem_bucket \<Rightarrow> bool" where
  "bucket_ok capacity b = (0 \<le> mb_tokens b \<and> mb_tokens b \<le> of_int capacity)"

lemma bucket_stays_ok:
  assumes "0 \<le> capacity" "capacity < 2 ^ 53" "0 \<le> rate" "\<And>b. jm_get buckets key = Some b \<Longrightarrow> bucket_ok capacity b"
    and "jm_get (snd (checkMemoryBucket key capacity rate now buckets)) key = Some b"
  shows "bucket_ok capacity b"
proof -
  let ?old = "case jm_get buckets key of None \<Rightarrow> \<lparr>mb_tokens = of_int capacity, mb_last = now\<rparr> | Some b \<Rightarrow> b"
  define r where "r = min (of_int capacity) (fl_add (mb_tokens ?old)
      (fl_mul (fl_div (of_int (max 0 (now - mb_last ?old))) 1000) rate))"
  have old: "bucket_ok capacity ?old" using assms(1,4) by (auto simp: bucket_ok_def split: option.split)
  have "0 \<le> fl_mul (fl_div (of_int (max 0 (now - mb_last ?old))) 1000) rate"
    using assms(3) by (simp add: fl_mul_def fl_div_def fl_round_nonneg)
  then have r: "0 \<le> r" "r \<le> of_int capacity"
    using old assms(1) by (simp_all add: r_def fl_add_def bucket_ok_def fl_round_nonneg)
  have "fl_sub r 1 \<le> of_int capacity"
  proof -
    have "fl_sub r 1 \<le> fl_round (of_nat (nat capacity))"
      unfolding fl_sub_def using r assms(1) by (intro fl_round_mono) simp
    also have "\<dots> = of_nat (nat capacity)" using assms(1,2) by (intro fl_round_nat) simp
    finally show ?thesis using assms(1) by simp
  qed
  moreover have "0 \<le> fl_sub r 1" if "1 \<le> r" using that by (simp add: fl_sub_def fl_round_nonneg)
  moreover have "b = \<lparr>mb_tokens = (if 1 \<le> r then fl_sub r 1 else r), mb_last = now\<rparr>"
    using assms(5) by (simp only: checkMemoryBucket_def Let_def r_def [symmetric] snd_conv jm_get_set
      refl if_True option.inject)
  ultimately show ?thesis using r by (simp add: bucket_ok_def)
qed

text \<open>Requests to paths that have no bucket yet are never refused: each path, and not each group of
  endpoints, has a bucket of its own.\<close>

fun requests_to :: "int \<Rightarrow> string \<Rightarrow> string \<Rightarrow> string \<Rightarrow> string list \<Rightarrow> mem_buckets \<Rightarrow> bool list" where
  "requests_to now client tier m [] buckets = []"
| "requests_to now client tier m (p # ps) buckets =
     (case checkTokenBucket None now client tier m p None buckets of
        None \<Rightarrow> []
      | Some (r, buckets') \<Rightarrow> br_allowed r # requests_to now client tier m ps buckets')"

text \<open>A client that never asks for the same path twice is never limited, however many requests it
  sends.\<close>

theorem new_paths_unlimited:
  assumes "TIER_LIMITS tier = Some base" "distinct (map (bucket_key tier client) paths)"
    and "\<forall>p \<in> set paths. jm_get buckets (bucket_key tier client p) = None \<and>
      1 \<le> bucket_capacity base m p None \<and> bucket_capacity base m p None < 2 ^ 53"
  shows "requests_to now client tier m paths buckets = replicate (length paths) True"
  using assms(2,3)
proof (induction paths arbitrary: buckets)
  case (Cons p ps)
  let ?C = "bucket_capacity base m p None" and ?key = "bucket_key tier client p"
  let ?b = "jm_set ?key \<lparr>mb_tokens = of_nat (nat ?C - 1), mb_last = now\<rparr> buckets"
  have "\<exists>y z. checkMemoryBucket ?key ?C (fl_div (of_int ?C) 60) now buckets = ((0 < nat ?C, y, z), ?b)"
    using Cons.prems(2) by (intro bucket_at_same_time) auto
  then have "requests_to now client tier m (p # ps) buckets = True # requests_to now client tier m ps ?b"
    using assms(1) Cons.prems(2) by (auto simp: checkTokenBucket_def Let_def)
  also have "requests_to now client tier m ps ?b = replicate (length ps) True"
  proof (rule Cons.IH)
    have "bucket_key tier client q \<noteq> ?key" if "q \<in> set ps" for q
      using Cons.prems(1) that by (metis distinct.simps(2) image_eqI list.set_map list.simps(9))
    then show "\<forall>q \<in> set ps. jm_get ?b (bucket_key tier client q) = None \<and>
        1 \<le> bucket_capacity base m q None \<and> bucket_capacity base m q None < 2 ^ 53"
      using Cons.prems(2) by simp
  qed (use Cons.prems(1) in simp)
  finally show ?case by simp
qed simp

lemma new_paths_unlimited_witness:
  "requests_to 0 ''10.0.0.1'' ''unauthenticated'' ''GET'' [''/a'', ''/b'', ''/c''] [] = replicate 3 True"
proof -
  let ?base = "\<lparr>tl_per_minute = 60, tl_burst = 10, tl_ttl = 3600\<rparr>"
  have t: "TIER_LIMITS ''unauthenticated'' = Some ?base" by (simp add: TIER_LIMITS_def)
  have m: "getEndpointMultiplier ''GET'' ''/a'' = 1" "getEndpointMultiplier ''GET'' ''/b'' = 1"
    "getEndpointMultiplier ''GET'' ''/c'' = 1"
    by (simp_all add: getEndpointMultiplier_def ENDPOINT_GROUPS_def starts_with_def contracts_post_def)
  have f: "fl_round 60 = 60" using fl_round_nat [of 60] by simp
  have "bucket_capacity ?base ''GET'' ''/a'' None = 60" "bucket_capacity ?base ''GET'' ''/b'' None = 60"
    "bucket_capacity ?base ''GET'' ''/c'' None = 60"
    by (simp_all add: bucket_capacity_def fl_mul_def m f)
  then show ?thesis
    using new_paths_unlimited [OF t, of "''10.0.0.1''" "[''/a'', ''/b'', ''/c'']" "[]" "''GET''" 0]
    by (simp add: bucket_key_def numeral_3_eq_3 del: requests_to.simps)
qed

section \<open>The windows\<close>

fun window_run :: "string \<Rightarrow> tier_config \<Rightarrow> int list \<Rightarrow> (string, window_bucket) jsmap \<Rightarrow> bool list" where
  "window_run key cfg [] windows = []"
| "window_run key cfg (t # ts) windows =
     (case window_check key cfg t windows of (ok, windows') \<Rightarrow> ok # window_run key cfg ts windows')"

lemma upt_0_Suc: "[0..<Suc n] = 0 # map Suc [0..<n]"
  by (metis map_Suc_upt upt_conv_Cons zero_less_Suc)

lemma window_run_inside:
  assumes "jm_get windows key = Some \<lparr>wb_count = n, wb_reset = e\<rparr>" "\<forall>t \<in> set ts. t < e"
  shows "window_run key cfg ts windows = map (\<lambda>k. n + 1 + int k \<le> tc_max cfg) [0..<length ts]"
  using assms
proof (induction ts arbitrary: n windows)
  case (Cons t ts)
  let ?w = "jm_set key \<lparr>wb_count = n + 1, wb_reset = e\<rparr> windows"
  have "window_check key cfg t windows = (n + 1 \<le> tc_max cfg, ?w)"
    using Cons.prems by (simp add: window_check_def)
  moreover have "window_run key cfg ts ?w = map (\<lambda>k. n + 1 + 1 + int k \<le> tc_max cfg) [0..<length ts]"
    using Cons.prems(2) by (intro Cons.IH) auto
  ultimately show ?case by (simp add: upt_0_Suc o_def add_ac del: upt_Suc)
qed simp



section \<open>Overrides of single users\<close>

text \<open>When a user has no override, the first request is limited by its tier, but the answer that
  is cached is the public limit: every further request within a minute gets it as an override,
  also one of a premium or developer key.\<close>

theorem missing_override_downgrades:
  assumes "table user (if endpoint = [] then ''/'' else endpoint) = Some None"
    and "case jm_get cache (''override:'' @ user @ '':'' @ endpoint) of None \<Rightarrow> True | Some (c, e) \<Rightarrow> e \<le> now"
    and "later < now + 60000"
  shows "\<exists>cache'. getUserOverride table now user endpoint cache = (None, cache') \<and>
    getUserOverride table later user endpoint cache' = (Some (DEFAULT_TIERS Public), cache')"
  using assms by (auto simp: getUserOverride_def Let_def split: option.splits)

text \<open>A premium key with the default configuration: the second request is measured against 100.\<close>

lemma missing_override_downgrades_witness:
  "\<exists>cache'. getUserOverride (\<lambda>i e. Some None) 0 ''u'' ''/x'' [] = (None, cache') \<and>
    getUserOverride (\<lambda>i e. Some None) 1000 ''u'' ''/x'' cache' = (Some \<lparr>tc_window = 60000, tc_max = 100\<rparr>, cache')"
  using missing_override_downgrades [where table = "\<lambda>i e. Some None" and user = "''u''" and endpoint = "''/x''"
      and cache = "[]" and now = 0 and later = 1000]
  by (simp add: DEFAULT_TIERS_def)

text \<open>The throttle never raises a limit and never closes it.\<close>

lemma throttle_bounds:
  assumes "1 \<le> tc_max cfg"
  shows "1 \<le> tc_max (applyAdaptiveThrottle ad cfg) \<and> tc_max (applyAdaptiveThrottle ad cfg) \<le> tc_max cfg \<and>
    tc_window (applyAdaptiveThrottle ad cfg) = tc_window cfg"
  using assms by (simp add: applyAdaptiveThrottle_def)

text \<open>A fraction below one is rounded down to a limit of nothing.\<close>

lemma sanitize_fraction: "0 < q \<Longrightarrow> q < 1 \<Longrightarrow> sanitizeTierValue (Finite q) fallback = 0"
  by (simp add: sanitizeTierValue_def floor_eq_iff)

end
