(* ===== verification/Call_Traces.thy ===== *)
theory Call_Traces
  imports Wasm_Functions Js_Double
begin

text \<open>
  \<open>src/indexer/call-trace.ts\<close>, \<open>trace-engine.ts\<close> and \<open>reentrancy-detector.ts\<close>: the two readers
  of diagnostic events and the detector of re-entrant calls. The decoders of the Stellar SDK are a
  parameter (\<open>sdk\<close>; \<open>None\<close>: the decoder throws). Texts for display (labels, messages) are left
  out; the signals of the detector are given by what they name.
\<close>

section \<open>Events and decoders\<close>

record 'v diag_event =
  dg_successful :: bool
  dg_contract :: "bytes option"
  dg_type :: "string option"
  dg_topics :: "'v list"
  dg_data :: "'v option"

record 'j trace_arg =
  ta_type :: string
  ta_value :: 'j

record ('v, 'j) trace_sdk =
  sd_contract :: "bytes \<Rightarrow> string option"
  sd_native :: "'v \<Rightarrow> 'j option"
  sd_json :: "'v \<Rightarrow> 'j trace_arg option"
  sd_base64 :: "'v \<Rightarrow> string"
  sd_of_text :: "string \<Rightarrow> 'j"
  sd_text :: "'j \<Rightarrow> string"
  sd_is_text :: "'j \<Rightarrow> string option"
  sd_stringify :: "'j \<Rightarrow> string"

definition encodeContractId :: "('v, 'j) trace_sdk \<Rightarrow> bytes \<Rightarrow> string" where
  "encodeContractId sdk raw = (case sd_contract sdk raw of Some s \<Rightarrow> s | None \<Rightarrow> hex_string raw)"

definition contract_name :: "('v, 'j) trace_sdk \<Rightarrow> 'v diag_event \<Rightarrow> string" where
  "contract_name sdk e = (case dg_contract e of None \<Rightarrow> ''system'' | Some raw \<Rightarrow> encodeContractId sdk raw)"

text \<open>\<open>Math.round\<close> of a quotient of doubles.\<close>

definition js_round_div :: "int \<Rightarrow> nat \<Rightarrow> int" where
  "js_round_div x n = \<lfloor>fl_div (of_int x) (of_nat n) + 1 / 2\<rfloor>"

section \<open>call-trace.ts\<close>

record 'j call_node =
  ct_seq :: nat
  ct_depth :: nat
  ct_contract :: string
  ct_type :: string
  ct_topic :: string
  ct_args :: "string list"
  ct_data :: "'j option"
  ct_successful :: bool
  ct_cpu :: "int option"
  ct_mem :: "int option"

record 'j call_trace =
  tr_events :: "'j call_node list"
  tr_contracts :: "string list"
  tr_max_depth :: nat

definition decode_topic :: "('v, 'j) trace_sdk \<Rightarrow> 'v \<Rightarrow> string" where
  "decode_topic sdk t = (case sd_native sdk t of Some j \<Rightarrow> sd_text sdk j | None \<Rightarrow> sd_base64 sdk t)"

definition decodeData :: "('v, 'j) trace_sdk \<Rightarrow> 'v \<Rightarrow> 'j" where
  "decodeData sdk v = (case sd_native sdk v of Some j \<Rightarrow> j | None \<Rightarrow> sd_of_text sdk (sd_base64 sdk v))"

text \<open>The stack only matters by its height.\<close>

definition inferDepth :: "string \<Rightarrow> nat \<Rightarrow> nat \<times> nat" where
  "inferDepth topic height =
     (if topic = ''fn_call'' then (height, height + 1)
      else if topic = ''fn_return'' \<and> 0 < height then (height - 1, height - 1)
      else (height, height))"

definition event_topic :: "('v, 'j) trace_sdk \<Rightarrow> 'v diag_event \<Rightarrow> string" where
  "event_topic sdk e =
     (case map (decode_topic sdk) (dg_topics e) of
        [] \<Rightarrow> (case dg_type e of None \<Rightarrow> ''unknown'' | Some t \<Rightarrow> t) | t # _ \<Rightarrow> t)"

definition call_node_of ::
    "('v, 'j) trace_sdk \<Rightarrow> int option \<Rightarrow> int option \<Rightarrow> nat \<Rightarrow> nat \<Rightarrow> 'v diag_event \<Rightarrow> 'j call_node" where
  "call_node_of sdk cpu mem i depth e =
     \<lparr>ct_seq = i, ct_depth = depth, ct_contract = contract_name sdk e,
      ct_type = (case dg_type e of None \<Rightarrow> ''unknown'' | Some t \<Rightarrow> t),
      ct_topic = event_topic sdk e, ct_args = drop 1 (map (decode_topic sdk) (dg_topics e)),
      ct_data = map_option (decodeData sdk) (dg_data e), ct_successful = dg_successful e,
      ct_cpu = map_option (\<lambda>c. c * int (i + 1)) cpu, ct_mem = map_option (\<lambda>c. c * int (i + 1)) mem\<rparr>"

fun call_trace_loop ::
    "('v, 'j) trace_sdk \<Rightarrow> int option \<Rightarrow> int option \<Rightarrow> nat \<Rightarrow> nat \<Rightarrow> 'v diag_event list \<Rightarrow> 'j call_node list" where
  "call_trace_loop sdk cpu mem i height [] = []"
| "call_trace_loop sdk cpu mem i height (e # es) =
     (case inferDepth (event_topic sdk e) height of (depth, height') \<Rightarrow>
        call_node_of sdk cpu mem i depth e # call_trace_loop sdk cpu mem (i + 1) height' es)"

definition per_event :: "int option \<Rightarrow> nat \<Rightarrow> int option" where
  "per_event cost n = (case cost of None \<Rightarrow> None | Some t \<Rightarrow> if 0 < n then Some (js_round_div t n) else None)"

definition parseCallTrace ::
    "('v, 'j) trace_sdk \<Rightarrow> 'v diag_event list \<Rightarrow> int option \<Rightarrow> int option \<Rightarrow> 'j call_trace" where
  "parseCallTrace sdk evs totalCpu totalMem =
     (let n = length evs;
          nodes = call_trace_loop sdk (per_event totalCpu n) (per_event totalMem n) 0 0 evs
      in \<lparr>tr_events = nodes,
          tr_contracts = filter (\<lambda>c. c \<noteq> ''system'') (js_set_of (map ct_contract nodes)),
          tr_max_depth = foldl (\<lambda>m x. if m < ct_depth x then ct_depth x else m) 0 nodes\<rparr>)"

section \<open>reentrancy-detector.ts\<close>

definition WITHDRAW_TOPICS :: "string list" where
  "WITHDRAW_TOPICS = [''withdraw'', ''transfer'', ''burn'', ''redeem'', ''claim'', ''payout'']"

definition REPEATED_CALL_THRESHOLD :: nat where "REPEATED_CALL_THRESHOLD = 2"

definition DEPTH_THRESHOLD :: nat where "DEPTH_THRESHOLD = 4"

definition HIGH_SEVERITY_REPEATS :: nat where "HIGH_SEVERITY_REPEATS = 4"

datatype drain_severity = Sev_low | Sev_medium | Sev_high

datatype drain_signal =
    Repeated_withdraw "(string \<times> nat) list"
  | Deep_chain nat
  | Cyclic_calls "(string \<times> string) list"
  | Warning_label

record reentrancy_signal =
  rs_tx :: string
  rs_contract :: string
  rs_ledger :: int
  rs_repeats :: nat
  rs_depth :: nat
  rs_pairs :: "(string \<times> string) list"
  rs_severity :: drain_severity
  rs_signals :: "drain_signal list"

definition withdraw_counts :: "'j call_node list \<Rightarrow> (string, nat) jsmap" where
  "withdraw_counts evs =
     fold (\<lambda>e m. if ct_topic e \<in> set WITHDRAW_TOPICS
                 then jm_set (ct_contract e) (Suc (case jm_get m (ct_contract e) of None \<Rightarrow> 0 | Some n \<Rightarrow> n)) m
                 else m) evs []"

text \<open>The pairs of caller and callee; the head of the stack is its top.\<close>

fun call_pairs :: "'j call_node list \<Rightarrow> string list \<Rightarrow> (string \<times> string) list" where
  "call_pairs [] stack = []"
| "call_pairs (e # es) stack =
     (if ct_topic e = ''fn_call'' then
        (case stack of [] \<Rightarrow> [] | caller # _ \<Rightarrow> [(caller, ct_contract e)]) @ call_pairs es (ct_contract e # stack)
      else if ct_topic e = ''fn_return'' \<and> stack \<noteq> [] then call_pairs es (tl stack)
      else call_pairs es stack)"

fun cyclic_pairs :: "(string \<times> string) list \<Rightarrow> (string \<times> string) list \<Rightarrow> (string \<times> string) list \<Rightarrow> (string \<times> string) list" where
  "cyclic_pairs all [] found = found"
| "cyclic_pairs all ((a, b) # ps) found =
     (if a = b then cyclic_pairs all ps found
      else if (a, b) \<notin> set found \<and> list_ex (\<lambda>(c, d). c = b \<and> d = a) all
      then cyclic_pairs all ps (found @ [(a, b)])
      else cyclic_pairs all ps found)"

definition analyseCallTrace :: "string \<Rightarrow> string \<Rightarrow> int \<Rightarrow> 'j call_trace \<Rightarrow> reentrancy_signal option" where
  "analyseCallTrace tx contract ledger trace =
     (let counts = withdraw_counts (tr_events trace);
          maxRepeats = foldl max 0 (map snd counts);
          pairs = call_pairs (tr_events trace) [];
          cyclic = cyclic_pairs pairs pairs [];
          signals =
            (if REPEATED_CALL_THRESHOLD \<le> maxRepeats
             then [Repeated_withdraw (map (\<lambda>(a, c). (take 8 a, c)) (filter (\<lambda>(a, c). REPEATED_CALL_THRESHOLD \<le> c) counts))]
             else []) @
            (if DEPTH_THRESHOLD \<le> tr_max_depth trace then [Deep_chain (tr_max_depth trace)] else []) @
            (if cyclic \<noteq> [] then [Cyclic_calls (map (\<lambda>(a, b). (take 8 a, take 8 b)) cyclic)] else []);
          severity =
            (if HIGH_SEVERITY_REPEATS \<le> maxRepeats \<or> cyclic \<noteq> [] then Sev_high
             else if DEPTH_THRESHOLD \<le> tr_max_depth trace \<and> REPEATED_CALL_THRESHOLD \<le> maxRepeats then Sev_medium
             else Sev_low)
      in if signals = [] then None
         else Some \<lparr>rs_tx = tx, rs_contract = contract, rs_ledger = ledger, rs_repeats = maxRepeats,
           rs_depth = tr_max_depth trace, rs_pairs = cyclic, rs_severity = severity, rs_signals = signals\<rparr>)"

text \<open>\<open>storeReentrancyAlert\<close>: both writes or none. A transaction is its hash and its flag.\<close>

definition update_alert :: "reentrancy_signal \<Rightarrow> reentrancy_signal \<Rightarrow> reentrancy_signal" where
  "update_alert new old = old\<lparr>rs_repeats := rs_repeats new, rs_depth := rs_depth new, rs_pairs := rs_pairs new,
     rs_severity := rs_severity new, rs_signals := rs_signals new\<rparr>"

definition storeReentrancyAlert ::
    "reentrancy_signal \<Rightarrow> reentrancy_signal list \<times> (string \<times> bool) list
      \<Rightarrow> (reentrancy_signal list \<times> (string \<times> bool) list) option" where
  "storeReentrancyAlert s db =
     (let stored = (if Warning_label \<in> set (rs_signals s) then rs_signals s else rs_signals s @ [Warning_label]);
          row = s\<lparr>rs_signals := stored\<rparr>
      in case tbl_find fst (rs_tx s) (snd db) of
           None \<Rightarrow> None
         | Some _ \<Rightarrow> Some
             (case tbl_find rs_tx (rs_tx s) (fst db) of
                Some _ \<Rightarrow> tbl_update rs_tx (rs_tx s) (update_alert row) (fst db)
              | None \<Rightarrow> fst db @ [row],
              tbl_update fst (rs_tx s) (\<lambda>t. (fst t, True)) (snd db)))"

section \<open>trace-engine.ts\<close>

datatype trace_level = Full | Calls_only | State_changes_only

datatype change_type = Write_change | Read_change | Delete_change

record 'j state_change =
  sc_key :: string
  sc_after :: "'j option"
  sc_type :: change_type

datatype step_type = Host_function | Event_step | State_step

record 'j trace_step =
  ts_seq :: nat
  ts_depth :: nat
  ts_type :: step_type
  ts_function :: string
  ts_args :: "'j trace_arg list"
  ts_gas :: int
  ts_mem :: int
  ts_changes :: "'j state_change list"
  ts_return :: "'j trace_arg option"

record graph_node =
  gn_id :: nat
  gn_contract :: string
  gn_function :: string
  gn_gas :: int
  gn_depth :: nat

record 'j trace_result =
  tt_steps :: "'j trace_step list"
  tt_gas :: int
  tt_mem :: int
  tt_nodes :: "graph_node list"
  tt_edges :: "(nat \<times> nat) list"

definition decodeScVal :: "('v, 'j) trace_sdk \<Rightarrow> 'v \<Rightarrow> 'j trace_arg" where
  "decodeScVal sdk v =
     (case sd_json sdk v of Some a \<Rightarrow> a
      | None \<Rightarrow> \<lparr>ta_type = ''unknown'', ta_value = sd_of_text sdk (sd_base64 sdk v)\<rparr>)"

definition arg_text :: "('v, 'j) trace_sdk \<Rightarrow> 'j trace_arg \<Rightarrow> string" where
  "arg_text sdk a = (case sd_is_text sdk (ta_value a) of Some s \<Rightarrow> s | None \<Rightarrow> sd_text sdk (ta_value a))"

definition trace_topic :: "('v, 'j) trace_sdk \<Rightarrow> 'v diag_event \<Rightarrow> string" where
  "trace_topic sdk e =
     (case dg_topics e of
        [] \<Rightarrow> (case dg_type e of None \<Rightarrow> [] | Some t \<Rightarrow> t)
      | v # _ \<Rightarrow> arg_text sdk (decodeScVal sdk v))"

definition rest_args :: "('v, 'j) trace_sdk \<Rightarrow> 'v diag_event \<Rightarrow> 'j trace_arg list" where
  "rest_args sdk e = drop 1 (map (decodeScVal sdk) (dg_topics e))"

definition inferFunctionName :: "('v, 'j) trace_sdk \<Rightarrow> string \<Rightarrow> 'j trace_arg list \<Rightarrow> string" where
  "inferFunctionName sdk topic args =
     (if topic = ''fn_call'' then
        (case args of [] \<Rightarrow> ''call''
         | a # _ \<Rightarrow> (case sd_is_text sdk (ta_value a) of Some s \<Rightarrow> s | None \<Rightarrow> ''call''))
      else if topic = ''fn_return'' then ''return'' else topic)"

definition event_changes :: "('v, 'j) trace_sdk \<Rightarrow> 'v diag_event \<Rightarrow> 'j state_change list" where
  "event_changes sdk e =
     (let topic = trace_topic sdk e in
      case dg_data e of
        None \<Rightarrow> []
      | Some v \<Rightarrow>
          if topic \<notin> {''storage_put'', ''storage_del'', ''storage_get''} then []
          else (let d = ta_value (decodeScVal sdk v) in
            [\<lparr>sc_key = contract_name sdk e @ '':'' @ sd_stringify sdk d,
              sc_after = (if topic = ''storage_del'' then None else Some d),
              sc_type = (if topic = ''storage_del'' then Delete_change
                         else if topic = ''storage_get'' then Read_change else Write_change)\<rparr>]))"

definition is_call_topic :: "string \<Rightarrow> bool" where
  "is_call_topic t = (t = ''fn_call'' \<or> t = ''fn_return'')"

text \<open>Whether an event is kept at a level; an event that is not kept makes no node either.\<close>

definition kept :: "('v, 'j) trace_sdk \<Rightarrow> trace_level \<Rightarrow> 'v diag_event \<Rightarrow> bool" where
  "kept sdk level e =
     (let state_step = event_changes sdk e \<noteq> []; call_step = is_call_topic (trace_topic sdk e)
      in case level of Full \<Rightarrow> True | Calls_only \<Rightarrow> call_step | State_changes_only \<Rightarrow> state_step \<or> call_step)"

definition trace_step_of ::
    "('v, 'j) trace_sdk \<Rightarrow> int \<Rightarrow> int \<Rightarrow> nat \<Rightarrow> nat \<Rightarrow> 'v diag_event \<Rightarrow> 'j trace_step" where
  "trace_step_of sdk cpu mem i depth e =
     (let topic = trace_topic sdk e; rest = rest_args sdk e; changes = event_changes sdk e
      in \<lparr>ts_seq = i, ts_depth = depth,
          ts_type = (if changes \<noteq> [] then State_step else if is_call_topic topic then Host_function else Event_step),
          ts_function = inferFunctionName sdk topic rest,
          ts_args = (if topic = ''fn_call'' then drop 1 rest else rest),
          ts_gas = cpu * int (i + 1), ts_mem = mem * int (i + 1), ts_changes = changes,
          ts_return = (if topic = ''fn_return'' then map_option (decodeScVal sdk) (dg_data e) else None)\<rparr>)"

record graph_state =
  gs_nodes :: "(string, graph_node) jsmap"
  gs_edges :: "(nat \<times> nat) list"
  gs_counter :: nat
  gs_prev :: "nat option"

definition node_key :: "string \<Rightarrow> string \<Rightarrow> nat \<Rightarrow> string" where
  "node_key contract fname depth = contract @ '':'' @ fname @ '':'' @ dec_nat depth"

definition add_call :: "string \<Rightarrow> string \<Rightarrow> int \<Rightarrow> nat \<Rightarrow> graph_state \<Rightarrow> graph_state" where
  "add_call contract fname cpu depth g =
     (let i = gs_counter g + 1
      in \<lparr>gs_nodes = jm_set (node_key contract fname depth)
            \<lparr>gn_id = i, gn_contract = contract, gn_function = fname, gn_gas = cpu, gn_depth = depth\<rparr> (gs_nodes g),
          gs_edges = (case gs_prev g of None \<Rightarrow> gs_edges g | Some p \<Rightarrow> gs_edges g @ [(p, i)]),
          gs_counter = i, gs_prev = Some i\<rparr>)"

fun trace_loop ::
    "('v, 'j) trace_sdk \<Rightarrow> trace_level \<Rightarrow> int \<Rightarrow> int \<Rightarrow> nat \<Rightarrow> nat \<Rightarrow> graph_state \<Rightarrow> 'v diag_event list
      \<Rightarrow> 'j trace_step list \<times> graph_state" where
  "trace_loop sdk level cpu mem i height g [] = ([], g)"
| "trace_loop sdk level cpu mem i height g (e # es) =
     (case inferDepth (trace_topic sdk e) height of (depth, height') \<Rightarrow>
        if \<not> kept sdk level e then trace_loop sdk level cpu mem (i + 1) height' g es
        else
          (let g' = (if trace_topic sdk e = ''fn_call''
                     then add_call (contract_name sdk e)
                       (inferFunctionName sdk (trace_topic sdk e) (rest_args sdk e)) cpu depth g
                     else g)
           in case trace_loop sdk level cpu mem (i + 1) height' g' es of
                (steps, g'') \<Rightarrow> (trace_step_of sdk cpu mem i depth e # steps, g'')))"

definition no_graph :: graph_state where
  "no_graph = \<lparr>gs_nodes = [], gs_edges = [], gs_counter = 0, gs_prev = None\<rparr>"

definition buildTrace ::
    "('v, 'j) trace_sdk \<Rightarrow> 'v diag_event list option \<Rightarrow> int \<Rightarrow> int \<Rightarrow> trace_level \<Rightarrow> 'j trace_result" where
  "buildTrace sdk diagnosticEvents totalCpu totalMem level =
     (let evs = (case diagnosticEvents of None \<Rightarrow> [] | Some es \<Rightarrow> es);
          n = (if length evs = 0 then 1 else length evs)
      in case trace_loop sdk level (js_round_div totalCpu n) (js_round_div totalMem n) 0 0 no_graph evs of
           (steps, g) \<Rightarrow> \<lparr>tt_steps = steps, tt_gas = totalCpu, tt_mem = totalMem,
              tt_nodes = map snd (gs_nodes g), tt_edges = gs_edges g\<rparr>)"

section \<open>Well-nested traces\<close>

text \<open>What a transaction does: events and calls with what happens inside them.\<close>

datatype 'e activity = Single 'e | Nested 'e "'e activity list" 'e

fun flat :: "'e activity \<Rightarrow> 'e list" where
  "flat (Single e) = [e]"
| "flat (Nested e inner r) = e # concat (map flat inner) @ [r]"

fun nested_ok :: "('e \<Rightarrow> string) \<Rightarrow> 'e activity \<Rightarrow> bool" where
  "nested_ok topic (Single e) = (\<not> is_call_topic (topic e))"
| "nested_ok topic (Nested e inner r) =
     (topic e = ''fn_call'' \<and> topic r = ''fn_return'' \<and> list_all (nested_ok topic) inner)"

fun depths :: "nat \<Rightarrow> 'e activity \<Rightarrow> nat list" where
  "depths d (Single e) = [d]"
| "depths d (Nested e inner r) = d # concat (map (depths (d + 1)) inner) @ [d]"

fun depth_run :: "nat \<Rightarrow> string list \<Rightarrow> nat list" where
  "depth_run h [] = []"
| "depth_run h (t # ts) = fst (inferDepth t h) # depth_run (snd (inferDepth t h)) ts"

lemma depth_run_flat:
  "nested_ok topic a \<Longrightarrow> depth_run h (map topic (flat a) @ ts) = depths h a @ depth_run h ts"
proof (induction a arbitrary: h ts)
  case (Nested e inner r)
  have "depth_run (h + 1) (map topic (concat (map flat as)) @ us) = concat (map (depths (h + 1)) as) @ depth_run (h + 1) us"
    if "set as \<subseteq> set inner" for as us
    using that Nested.IH Nested.prems by (induction as) (auto simp: list_all_iff)
  from this [of inner] show ?case using Nested.prems by (simp add: inferDepth_def)
qed (simp add: inferDepth_def is_call_topic_def)

lemma depth_run_trace:
  "list_all (nested_ok topic) acts \<Longrightarrow> depth_run h (map topic (concat (map flat acts))) = concat (map (depths h) acts)"
proof (induction acts)
  case (Cons a acts)
  then show ?case using depth_run_flat [of topic a h "map topic (concat (map flat acts))"] by simp
qed simp

lemma call_trace_depths: "map ct_depth (call_trace_loop sdk cpu mem i h es) = depth_run h (map (event_topic sdk) es)"
  by (induction es arbitrary: i h) (auto simp: call_node_of_def split: prod.split)

lemma call_trace_topics: "map ct_topic (call_trace_loop sdk cpu mem i h es) = map (event_topic sdk) es"
  by (induction es arbitrary: i h) (auto simp: call_node_of_def split: prod.split)

lemma call_trace_contracts: "map ct_contract (call_trace_loop sdk cpu mem i h es) = map (contract_name sdk) es"
  by (induction es arbitrary: i h) (auto simp: call_node_of_def split: prod.split)

lemma max_fold: "foldl (\<lambda>m x. if m < f x then f x else m) (a :: nat) xs = foldl max a (map f xs)"
  by (induction xs arbitrary: a) (auto simp: max_def)

text \<open>For a well-nested trace the reader gives every event the depth of the call it happens in,
  lists each contract once in the order of its first event, and its maximal depth is the largest
  depth of an event.\<close>

theorem call_trace_exact:
  assumes "list_all (nested_ok (event_topic sdk)) acts" "evs = concat (map flat acts)"
  shows "map ct_depth (tr_events (parseCallTrace sdk evs cpu mem)) = concat (map (depths 0) acts) \<and>
    tr_max_depth (parseCallTrace sdk evs cpu mem) = foldl max 0 (concat (map (depths 0) acts)) \<and>
    distinct (tr_contracts (parseCallTrace sdk evs cpu mem)) \<and>
    set (tr_contracts (parseCallTrace sdk evs cpu mem)) = contract_name sdk ` set evs - {''system''}"
proof -
  have "set (map ct_contract (call_trace_loop sdk c m 0 0 evs)) = contract_name sdk ` set evs" for c m
    unfolding call_trace_contracts by simp
  then show ?thesis
    using depth_run_trace [OF assms(1), of 0] assms(2)
    by (auto simp: parseCallTrace_def Let_def call_trace_depths max_fold)
qed

section \<open>Calls within a trace\<close>

fun child_pairs :: "('e \<Rightarrow> string) \<Rightarrow> string option \<Rightarrow> 'e activity \<Rightarrow> (string \<times> string) list" where
  "child_pairs c parent (Single e) = []"
| "child_pairs c parent (Nested e inner r) =
     (case parent of None \<Rightarrow> [] | Some p \<Rightarrow> [(p, c e)]) @ concat (map (child_pairs c (Some (c e))) inner)"

definition top_of :: "string list \<Rightarrow> string option" where
  "top_of stack = (case stack of [] \<Rightarrow> None | t # _ \<Rightarrow> Some t)"

lemma call_pairs_flat:
  "nested_ok ct_topic a \<Longrightarrow> call_pairs (flat a @ es) stack = child_pairs ct_contract (top_of stack) a @ call_pairs es stack"
proof (induction a arbitrary: stack es)
  case (Nested e inner r)
  have "call_pairs (concat (map flat as) @ us) (ct_contract e # stack) =
      concat (map (child_pairs ct_contract (Some (ct_contract e))) as) @ call_pairs us (ct_contract e # stack)"
    if "set as \<subseteq> set inner" for as us
    using that Nested.IH Nested.prems by (induction as) (auto simp: list_all_iff top_of_def)
  from this [of inner "r # es"] show ?case
    using Nested.prems by (simp add: top_of_def split: list.split)
qed (simp add: is_call_topic_def)

lemma call_pairs_trace:
  "list_all (nested_ok ct_topic) acts \<Longrightarrow>
   call_pairs (concat (map flat acts)) [] = concat (map (child_pairs ct_contract None) acts)"
proof (induction acts)
  case (Cons a acts)
  then show ?case using call_pairs_flat [of a "concat (map flat acts)" "[]"] by (simp add: top_of_def)
qed simp

lemma cyclic_pairs_set:
  "set (cyclic_pairs all ps found) = set found \<union> {(a, b). (a, b) \<in> set ps \<and> a \<noteq> b \<and> (b, a) \<in> set all}"
  by (induction all ps found rule: cyclic_pairs.induct) (auto simp: list_ex_iff)

lemma cyclic_pairs_distinct: "distinct found \<Longrightarrow> distinct (cyclic_pairs all ps found)"
  by (induction all ps found rule: cyclic_pairs.induct) auto

lemma cyclic_nil: "cyclic_pairs all ps [] = [] \<longleftrightarrow> (\<forall>(a, b) \<in> set ps. a = b \<or> (b, a) \<notin> set all)"
proof -
  have "cyclic_pairs all ps [] = [] \<longleftrightarrow> set (cyclic_pairs all ps []) = {}" by simp
  then show ?thesis by (auto simp: cyclic_pairs_set)
qed


text \<open>Traces of calls between named contracts.\<close>

definition sample_node :: "string \<Rightarrow> string \<Rightarrow> nat call_node" where
  "sample_node topic c = \<lparr>ct_seq = 0, ct_depth = 0, ct_contract = c, ct_type = ''diagnostic'', ct_topic = topic,
     ct_args = [], ct_data = None, ct_successful = True, ct_cpu = None, ct_mem = None\<rparr>"

definition sample_call :: "string \<Rightarrow> nat call_node activity list \<Rightarrow> nat call_node activity" where
  "sample_call c inner = Nested (sample_node ''fn_call'' c) inner (sample_node ''fn_return'' c)"

definition sample_trace :: "nat call_node activity list \<Rightarrow> nat call_trace" where
  "sample_trace acts = \<lparr>tr_events = concat (map flat acts), tr_contracts = [], tr_max_depth = 3\<rparr>"


text \<open>So two calls that are over before the opposite call begins are reported as re-entrancy (the
  trace of the witness above), and a contract that is re-entered through two others is not: of the
  chain A, B, C, A nothing is reported.\<close>

lemma triangle_not_reported:
  "analyseCallTrace tx contract ledger
     (sample_trace [sample_call ''A'' [sample_call ''B'' [sample_call ''C'' [sample_call ''A'' []]]]]) = None"
  by (simp add: analyseCallTrace_def sample_trace_def sample_call_def sample_node_def Let_def withdraw_counts_def
      WITHDRAW_TOPICS_def REPEATED_CALL_THRESHOLD_def DEPTH_THRESHOLD_def)

section \<open>Levels of the trace engine\<close>

lemma changes_topic: "event_changes sdk e \<noteq> [] \<Longrightarrow> \<not> is_call_topic (trace_topic sdk e)"
  by (auto simp: event_changes_def is_call_topic_def Let_def split: option.splits if_splits)

lemma fn_call_kept: "trace_topic sdk e = ''fn_call'' \<Longrightarrow> kept sdk level e"
  by (simp add: kept_def is_call_topic_def Let_def split: trace_level.split)

definition step_kept :: "trace_level \<Rightarrow> 'j trace_step \<Rightarrow> bool" where
  "step_kept level s = (case level of Full \<Rightarrow> True | Calls_only \<Rightarrow> ts_type s = Host_function
     | State_changes_only \<Rightarrow> ts_type s \<noteq> Event_step)"

lemma step_kept_of: "step_kept level (trace_step_of sdk cpu mem i depth e) = kept sdk level e"
  using changes_topic [of sdk e]
  by (auto simp: step_kept_def trace_step_of_def kept_def Let_def split: trace_level.splits)

lemma trace_loop_full:
  "trace_loop sdk level cpu mem i h g es =
     (filter (step_kept level) (fst (trace_loop sdk Full cpu mem i h g es)), snd (trace_loop sdk Full cpu mem i h g es))"
proof (induction es arbitrary: i h g)
  case (Cons e es)
  obtain d h' where d: "inferDepth (trace_topic sdk e) h = (d, h')" by (cases "inferDepth (trace_topic sdk e) h")
  have full: "kept sdk Full e" by (simp add: kept_def)
  let ?g = "if trace_topic sdk e = ''fn_call''
    then add_call (contract_name sdk e) (inferFunctionName sdk (trace_topic sdk e) (rest_args sdk e)) cpu d g else g"
  obtain steps g2 where r: "trace_loop sdk Full cpu mem (i + 1) h' ?g es = (steps, g2)"
    by (cases "trace_loop sdk Full cpu mem (i + 1) h' ?g es")
  have l: "trace_loop sdk level cpu mem (i + 1) h' ?g es = (filter (step_kept level) steps, g2)"
    using Cons.IH [of "i + 1" h' ?g] r by simp
  have "trace_loop sdk Full cpu mem i h g (e # es) = (trace_step_of sdk cpu mem i d e # steps, g2)"
    unfolding trace_loop.simps d prod.case Let_def r by (simp only: full not_True_eq_False if_False)
  moreover have "trace_loop sdk level cpu mem i h g (e # es) =
      (if kept sdk level e then (trace_step_of sdk cpu mem i d e # filter (step_kept level) steps, g2)
       else (filter (step_kept level) steps, g2))"
  proof (cases "kept sdk level e")
    case True
    then show ?thesis unfolding trace_loop.simps d prod.case Let_def l by simp
  next
    case False
    then have "?g = g" using fn_call_kept by auto
    with l False show ?thesis unfolding trace_loop.simps d prod.case Let_def by simp
  qed
  ultimately show ?case by (simp add: step_kept_of)
qed simp

lemma build_level:
  "buildTrace sdk evs cpu mem level =
     (buildTrace sdk evs cpu mem Full)\<lparr>tt_steps := filter (step_kept level) (tt_steps (buildTrace sdk evs cpu mem Full))\<rparr>"
proof -
  let ?es = "case evs of None \<Rightarrow> [] | Some es \<Rightarrow> es"
  let ?n = "if length ?es = 0 then 1 else length ?es"
  let ?c = "js_round_div cpu ?n" and ?m = "js_round_div mem ?n"
  obtain steps g where f: "trace_loop sdk Full ?c ?m 0 0 no_graph ?es = (steps, g)"
    by (cases "trace_loop sdk Full ?c ?m 0 0 no_graph ?es")
  then have "trace_loop sdk level ?c ?m 0 0 no_graph ?es = (filter (step_kept level) steps, g)"
    using trace_loop_full [of sdk level ?c ?m 0 0 no_graph ?es] by simp
  with f show ?thesis by (simp add: buildTrace_def Let_def)
qed

lemma levels_graph:
  "tt_nodes (buildTrace sdk evs cpu mem level) = tt_nodes (buildTrace sdk evs cpu mem Full)"
  "tt_edges (buildTrace sdk evs cpu mem level) = tt_edges (buildTrace sdk evs cpu mem Full)"
  by (simp_all add: build_level [of sdk evs cpu mem level])

text \<open>A trace at a lower level of detail is the full trace with the other steps left out: the
  steps that stay keep their number, depth and costs, and the call graph is the same at every
  level.\<close>

theorem levels_filter_full_trace:
  "tt_steps (buildTrace sdk evs cpu mem level) = filter (step_kept level) (tt_steps (buildTrace sdk evs cpu mem Full)) \<and>
   tt_nodes (buildTrace sdk evs cpu mem level) = tt_nodes (buildTrace sdk evs cpu mem Full) \<and>
   tt_edges (buildTrace sdk evs cpu mem level) = tt_edges (buildTrace sdk evs cpu mem Full)"
  by (simp add: build_level [of sdk evs cpu mem level])

section \<open>The call graph of the trace engine\<close>

fun graph_calls :: "('v, 'j) trace_sdk \<Rightarrow> nat \<Rightarrow> 'v diag_event list \<Rightarrow> (string \<times> string \<times> nat) list" where
  "graph_calls sdk h [] = []"
| "graph_calls sdk h (e # es) =
     (if trace_topic sdk e = ''fn_call''
      then [(contract_name sdk e, inferFunctionName sdk (trace_topic sdk e) (rest_args sdk e), fst (inferDepth (trace_topic sdk e) h))]
      else []) @ graph_calls sdk (snd (inferDepth (trace_topic sdk e) h)) es"

definition add_calls :: "int \<Rightarrow> (string \<times> string \<times> nat) list \<Rightarrow> graph_state \<Rightarrow> graph_state" where
  "add_calls cpu cs g = fold (\<lambda>(c, f, d). add_call c f cpu d) cs g"

lemma trace_loop_graph: "snd (trace_loop sdk Full cpu mem i h g es) = add_calls cpu (graph_calls sdk h es) g"
proof (induction es arbitrary: i h g)
  case (Cons e es)
  obtain d h' where d: "inferDepth (trace_topic sdk e) h = (d, h')" by (cases "inferDepth (trace_topic sdk e) h")
  let ?g = "if trace_topic sdk e = ''fn_call''
    then add_call (contract_name sdk e) (inferFunctionName sdk (trace_topic sdk e) (rest_args sdk e)) cpu d g else g"
  have full: "kept sdk Full e" by (simp add: kept_def)
  have "snd (trace_loop sdk Full cpu mem i h g (e # es)) = snd (trace_loop sdk Full cpu mem (i + 1) h' ?g es)"
    unfolding trace_loop.simps d prod.case Let_def by (simp only: full not_True_eq_False if_False snd_conv case_prod_beta)
  also have "\<dots> = add_calls cpu (graph_calls sdk h' es) ?g" by (rule Cons.IH)
  also have "\<dots> = add_calls cpu (graph_calls sdk h (e # es)) g"
    unfolding graph_calls.simps d fst_conv snd_conv add_calls_def by (simp only: split: if_split) simp
  finally show ?case .
qed (simp add: add_calls_def)

lemma add_calls_graph:
  "let g = add_calls cpu cs no_graph in
     gs_counter g = length cs \<and> gs_prev g = (if cs = [] then None else Some (length cs)) \<and>
     gs_edges g = map (\<lambda>i. (i, i + 1)) [1..<length cs] \<and>
     jm_ok (gs_nodes g) \<and> set (map fst (gs_nodes g)) = (\<lambda>(c, f, d). node_key c f d) ` set cs \<and>
     gn_id ` snd ` set (gs_nodes g) \<subseteq> {1..length cs}"
proof (induction cs rule: rev_induct)
  case Nil
  then show ?case by (simp add: add_calls_def no_graph_def jm_ok_def)
next
  case (snoc x cs)
  obtain c f d where x: "x = (c, f, d)" by (cases x) auto
  let ?g = "add_calls cpu cs no_graph"
  have g: "add_calls cpu (cs @ [x]) no_graph = add_call c f cpu d ?g" by (simp add: add_calls_def x)
  have keys: "fst ` set (jm_set k v m) = insert k (fst ` set m)" for k :: string and v :: graph_node and m
    by (simp add: jm_set_def dom_update [unfolded dom_map_of_conv_image_fst] image_Un)
  have vals: "snd ` set (jm_set k v m) \<subseteq> insert v (snd ` set m)" for k :: string and v :: graph_node and m
    by (induction m) (auto simp: jm_set_def)
  have "gn_id ` snd ` set (gs_nodes (add_call c f cpu d ?g)) \<subseteq> {1..length (cs @ [x])}"
    using snoc vals [of "node_key c f d" _ "gs_nodes ?g"]
    by (fastforce simp: add_call_def Let_def)
  then show ?case using snoc unfolding g
    by (auto simp: add_call_def Let_def x keys Suc_le_eq split: if_splits)
qed

text \<open>The edges of the call graph never say who calls whom: whatever the nesting, they link each
  call to the next one, in the order of the events. Two calls of the same function of the same
  contract at the same depth share one node, the later one, so some edge then names a node that
  the graph does not contain.\<close>

theorem call_graph_is_a_chain:
  assumes "calls = graph_calls sdk 0 evs" and "t = buildTrace sdk (Some evs) cpu mem level"
  shows "tt_edges t = map (\<lambda>i. (i, i + 1)) [1..<length calls] \<and>
    (\<not> distinct (map (\<lambda>(c, f, d). node_key c f d) calls) \<longrightarrow>
      (\<exists>i. (\<exists>j. (i, j) \<in> set (tt_edges t) \<or> (j, i) \<in> set (tt_edges t)) \<and> i \<notin> gn_id ` set (tt_nodes t)))"
proof -
  let ?n = "if length evs = 0 then 1 else length evs"
  let ?c = "js_round_div cpu ?n" and ?m = "js_round_div mem ?n"
  define g where "g = add_calls ?c calls no_graph"
  have l: "tt_edges t = tt_edges (buildTrace sdk (Some evs) cpu mem Full)"
    "tt_nodes t = tt_nodes (buildTrace sdk (Some evs) cpu mem Full)"
    using levels_graph by (simp_all add: assms(2))
  have "snd (trace_loop sdk Full ?c ?m 0 0 no_graph evs) = g"
    by (simp add: g_def assms(1) trace_loop_graph)
  then have t: "tt_edges t = gs_edges g" "tt_nodes t = map snd (gs_nodes g)"
    unfolding l by (simp_all add: buildTrace_def Let_def case_prod_beta)
  have g: "gs_edges g = map (\<lambda>i. (i, i + 1)) [1..<length calls]" "jm_ok (gs_nodes g)"
    "set (map fst (gs_nodes g)) = (\<lambda>(c, f, d). node_key c f d) ` set calls"
    using add_calls_graph [of ?c calls] by (simp_all add: g_def Let_def)
  have "\<exists>i. (\<exists>j. (i, j) \<in> set (tt_edges t) \<or> (j, i) \<in> set (tt_edges t)) \<and> i \<notin> gn_id ` set (tt_nodes t)"
    if nd: "\<not> distinct (map (\<lambda>(c, f, d). node_key c f d) calls)"
  proof -
    have "length (gs_nodes g) = card (set (map (\<lambda>(c, f, d). node_key c f d) calls))"
      using g(2,3) distinct_card [of "map fst (gs_nodes g)"] by (simp add: jm_ok_def)
    also have "\<dots> < length calls"
      using nd card_distinct [of "map (\<lambda>(c, f, d). node_key c f d) calls"]
        card_length [of "map (\<lambda>(c, f, d). node_key c f d) calls"] by fastforce
    finally have few: "card (gn_id ` set (tt_nodes t)) < length calls"
      using card_image_le [of "set (tt_nodes t)" gn_id] card_length [of "tt_nodes t"] by (simp add: t(2))
    have two: "2 \<le> length calls" using nd by (cases calls; cases "tl calls") auto
    have "\<not> {1..length calls} \<subseteq> gn_id ` set (tt_nodes t)"
      using card_mono [of "gn_id ` set (tt_nodes t)" "{1..length calls}"] few by fastforce
    then obtain i where "i \<in> {1..length calls}" "i \<notin> gn_id ` set (tt_nodes t)" by blast
    then have i: "1 \<le> i" "i \<le> length calls" "i \<notin> gn_id ` set (tt_nodes t)" by simp_all
    have "\<exists>j. (i, j) \<in> set (tt_edges t) \<or> (j, i) \<in> set (tt_edges t)"
    proof (cases "i < length calls")
      case True
      then have "(i, i + 1) \<in> set (tt_edges t)" using i by (auto simp: t(1) g(1))
      then show ?thesis by blast
    next
      case False
      then have "(i - 1, i) \<in> set (tt_edges t)" using i two by (auto simp: t(1) g(1) image_iff intro!: bexI [of _ "i - 1"])
      then show ?thesis by blast
    qed
    with i show ?thesis by blast
  qed
  then show ?thesis by (simp add: t(1) g(1))
qed

text \<open>A contract that calls another one twice.\<close>

definition demo_sdk :: "(string, string) trace_sdk" where
  "demo_sdk = \<lparr>sd_contract = (\<lambda>b. Some ''C''), sd_native = Some, sd_json = (\<lambda>v. Some \<lparr>ta_type = ''sym'', ta_value = v\<rparr>),
     sd_base64 = id, sd_of_text = id, sd_text = id, sd_is_text = Some, sd_stringify = id\<rparr>"

definition demo_diag :: "string \<Rightarrow> string diag_event" where
  "demo_diag t = \<lparr>dg_successful = True, dg_contract = Some [1], dg_type = Some ''diagnostic'',
     dg_topics = [t, ''f''], dg_data = None\<rparr>"

lemma call_graph_is_a_chain_witness:
  "\<exists>i. (\<exists>j. (i, j) \<in> set (tt_edges (buildTrace demo_sdk (Some [demo_diag ''fn_call'', demo_diag ''fn_return'',
        demo_diag ''fn_call'', demo_diag ''fn_return'']) 100 100 Full)) \<or>
      (j, i) \<in> set (tt_edges (buildTrace demo_sdk (Some [demo_diag ''fn_call'', demo_diag ''fn_return'',
        demo_diag ''fn_call'', demo_diag ''fn_return'']) 100 100 Full))) \<and>
    i \<notin> gn_id ` set (tt_nodes (buildTrace demo_sdk (Some [demo_diag ''fn_call'', demo_diag ''fn_return'',
        demo_diag ''fn_call'', demo_diag ''fn_return'']) 100 100 Full))"
proof -
  let ?es = "[demo_diag ''fn_call'', demo_diag ''fn_return'', demo_diag ''fn_call'', demo_diag ''fn_return'']"
  have "graph_calls demo_sdk 0 ?es = [(''C'', ''f'', 0), (''C'', ''f'', 0)]"
    by (simp add: demo_sdk_def demo_diag_def trace_topic_def decodeScVal_def arg_text_def contract_name_def
        encodeContractId_def inferFunctionName_def rest_args_def inferDepth_def)
  then have "\<not> distinct (map (\<lambda>(c, f, d). node_key c f d) (graph_calls demo_sdk 0 ?es))" by simp
  then show ?thesis using call_graph_is_a_chain [OF refl refl, of demo_sdk ?es 100 100 Full] by blast
qed

end
