(* ===== verification/Dex_Pools.thy ===== *)
theory Dex_Pools
  imports Js_Number "HOL-Library.List_Lexorder" "HOL-Library.Char_ord"
begin

text \<open>
  \<open>src/indexer/dex/pool-detector.ts\<close>: recognition of pool events, the reserves that are kept by
  event sourcing, and the processing of one event. A decoded value is the text that \<open>String\<close>
  makes of it, \<open>None\<close> for \<open>null\<close>, \<open>undefined\<close> and an absent field. The tables have the columns that
  the code writes. \<open>None\<close> as the result of an operation is an exception.
\<close>

section \<open>Classification\<close>

datatype dex_protocol = Soroswap | Aquarius | Phoenix | Comet | Unknown_dex

datatype pool_action = Act_swap | Act_add | Act_remove | Act_sync | Act_ignore

definition PROTOCOL_SIGNATURES :: "(dex_protocol \<times> string list) list" where
  "PROTOCOL_SIGNATURES =
    [(Phoenix, [''provide_liquidity'', ''withdraw_liquidity'']),
     (Comet, [''join_pool'', ''exit_pool'', ''joinpool'', ''exitpool'']),
     (Aquarius, [''trade'', ''add_liquidity'', ''remove_liquidity'']),
     (Soroswap, [''swap'', ''deposit'', ''withdraw'', ''sync''])]"

definition SWAP_SYMBOLS :: "string list" where
  "SWAP_SYMBOLS = [''swap'', ''trade'', ''swapexacttokensfortokens'']"

definition ADD_LIQUIDITY_SYMBOLS :: "string list" where
  "ADD_LIQUIDITY_SYMBOLS = [''deposit'', ''add_liquidity'', ''provide_liquidity'', ''join_pool'', ''joinpool'']"

definition REMOVE_LIQUIDITY_SYMBOLS :: "string list" where
  "REMOVE_LIQUIDITY_SYMBOLS = [''withdraw'', ''remove_liquidity'', ''withdraw_liquidity'', ''exit_pool'', ''exitpool'']"

definition SYNC_SYMBOLS :: "string list" where
  "SYNC_SYMBOLS = [''sync'', ''reserves'', ''update_reserves'']"

definition ALL_POOL_SYMBOLS :: "string list" where
  "ALL_POOL_SYMBOLS = SWAP_SYMBOLS @ ADD_LIQUIDITY_SYMBOLS @ REMOVE_LIQUIDITY_SYMBOLS @ SYNC_SYMBOLS"

definition norm_symbol :: "string option \<Rightarrow> string" where
  "norm_symbol s = js_trim (to_lower (case s of None \<Rightarrow> [] | Some t \<Rightarrow> t))"

text \<open>\<open>norm(topicSymbol) || norm(eventType)\<close>\<close>

definition symbol_of :: "string option \<Rightarrow> string option \<Rightarrow> string" where
  "symbol_of topicSymbol eventType =
     (if norm_symbol topicSymbol \<noteq> [] then norm_symbol topicSymbol else norm_symbol eventType)"

definition looksLikePoolEvent :: "string option \<Rightarrow> string option \<Rightarrow> bool" where
  "looksLikePoolEvent eventType topicSymbol = (symbol_of topicSymbol eventType \<in> set ALL_POOL_SYMBOLS)"

definition classifyProtocol :: "string option \<Rightarrow> string option \<Rightarrow> dex_protocol" where
  "classifyProtocol topicSymbol eventType =
     (let s = symbol_of topicSymbol eventType in
      case List.find (\<lambda>(p, sigs). p \<noteq> Soroswap \<and> s \<in> set sigs) PROTOCOL_SIGNATURES of
        Some (p, sigs) \<Rightarrow> p
      | None \<Rightarrow> (case map_of PROTOCOL_SIGNATURES Soroswap of
            Some sigs \<Rightarrow> if s \<in> set sigs then Soroswap else Unknown_dex
          | None \<Rightarrow> Unknown_dex))"

definition poolActionFor :: "string option \<Rightarrow> string option \<Rightarrow> pool_action" where
  "poolActionFor topicSymbol eventType =
     (let s = symbol_of topicSymbol eventType in
      if s \<in> set SWAP_SYMBOLS then Act_swap
      else if s \<in> set SYNC_SYMBOLS then Act_sync
      else if s \<in> set ADD_LIQUIDITY_SYMBOLS then Act_add
      else if s \<in> set REMOVE_LIQUIDITY_SYMBOLS then Act_remove
      else Act_ignore)"

section \<open>Reserves\<close>

definition clamp0 :: "int \<Rightarrow> int" where
  "clamp0 x = (if x < 0 then 0 else x)"

definition applySwap :: "int \<times> int \<Rightarrow> string \<Rightarrow> string \<Rightarrow> int \<Rightarrow> int \<Rightarrow> int \<times> int" where
  "applySwap reserves tokenA tokenIn amountIn amountOut =
     (let inIsA = (tokenIn = tokenA);
          reserveA = (if inIsA then fst reserves + amountIn else fst reserves - amountOut);
          reserveB = (if inIsA then snd reserves - amountOut else snd reserves + amountIn)
      in (clamp0 reserveA, clamp0 reserveB))"

definition applyLiquidity :: "int \<times> int \<Rightarrow> int \<Rightarrow> int \<Rightarrow> int \<times> int" where
  "applyLiquidity reserves deltaA deltaB = (clamp0 (fst reserves + deltaA), clamp0 (snd reserves + deltaB))"

section \<open>Fields of a decoded event\<close>

type_synonym fields = "string \<Rightarrow> string option"

text \<open>\<open>BigInt\<close> of a text: decimal with an optional sign, or a prefixed number without one; the empty
  text is zero.\<close>

definition big_radix :: "nat \<Rightarrow> string \<Rightarrow> int option" where
  "big_radix b ds =
     (if ds \<noteq> [] \<and> list_all (\<lambda>c. base_digit c < b) ds
      then Some (int (foldl (\<lambda>acc c. acc * b + base_digit c) 0 ds)) else None)"

definition bigint_of :: "string \<Rightarrow> int option" where
  "bigint_of s =
     (let t = js_trim s in
      if t = [] then Some 0
      else if take 2 t \<in> {''0x'', ''0X''} then big_radix 16 (drop 2 t)
      else if take 2 t \<in> {''0o'', ''0O''} then big_radix 8 (drop 2 t)
      else if take 2 t \<in> {''0b'', ''0B''} then big_radix 2 (drop 2 t)
      else (case parse_sign t of (sg, u) \<Rightarrow>
        if u \<noteq> [] \<and> list_all is_digit u then Some (sg * int (val_digits u)) else None))"

definition asBig :: "string option \<Rightarrow> int" where
  "asBig value =
     (case value of None \<Rightarrow> 0
      | Some s \<Rightarrow> (case bigint_of (hd (split_on (CHR ''.'') s)) of None \<Rightarrow> 0 | Some n \<Rightarrow> n))"

definition asAddr :: "string option \<Rightarrow> string" where
  "asAddr value = (case value of None \<Rightarrow> [] | Some s \<Rightarrow> s)"

text \<open>\<open>d.k1 ?? d.k2 ?? ...\<close>\<close>

fun first_field :: "fields \<Rightarrow> string list \<Rightarrow> string option" where
  "first_field d [] = None"
| "first_field d (k # ks) = (case d k of None \<Rightarrow> first_field d ks | Some v \<Rightarrow> Some v)"

record swap_fields =
  sf_in :: string
  sf_out :: string
  sf_amount_in :: int
  sf_amount_out :: int
  sf_trader :: string

definition extractSwap :: "fields \<Rightarrow> string \<Rightarrow> swap_fields option" where
  "extractSwap d contractAddress =
     (let tokenIn = asAddr (first_field d [''token_in'', ''tokenIn'', ''sell_token'', ''from_asset'', ''offer_asset'']);
          tokenOut = asAddr (first_field d [''token_out'', ''tokenOut'', ''buy_token'', ''to_asset'', ''ask_asset'']);
          amountIn = asBig (first_field d [''amount_in'', ''amountIn'', ''sell_amount'', ''offer_amount'']);
          amountOut = asBig (first_field d [''amount_out'', ''amountOut'', ''buy_amount'', ''return_amount''])
      in if tokenIn = [] \<or> tokenOut = [] \<or> amountIn = 0 then None
         else
           (let trader = (case first_field d [''to'', ''sender'', ''trader'', ''caller''] of
                  None \<Rightarrow> contractAddress | Some t \<Rightarrow> t)
            in Some \<lparr>sf_in = tokenIn, sf_out = tokenOut, sf_amount_in = amountIn, sf_amount_out = amountOut,
                     sf_trader = trader\<rparr>))"

record liquidity_fields =
  lf_a :: string
  lf_b :: string
  lf_amount_a :: int
  lf_amount_b :: int

definition extractLiquidity :: "fields \<Rightarrow> liquidity_fields option" where
  "extractLiquidity d =
     (let tokenA = asAddr (first_field d [''token_a'', ''tokenA'', ''asset_a'', ''token_0'']);
          tokenB = asAddr (first_field d [''token_b'', ''tokenB'', ''asset_b'', ''token_1'']);
          amountA = asBig (first_field d [''amount_a'', ''amountA'', ''desired_a'', ''amount_0'']);
          amountB = asBig (first_field d [''amount_b'', ''amountB'', ''desired_b'', ''amount_1''])
      in if tokenA = [] \<or> tokenB = [] then None
         else Some \<lparr>lf_a = tokenA, lf_b = tokenB, lf_amount_a = amountA, lf_amount_b = amountB\<rparr>)"

section \<open>Registration and processing\<close>

record pool_event =
  ev_contract :: string
  ev_type :: "string option"
  ev_topic :: "string option"
  ev_decoded :: "fields option"
  ev_tx :: string
  ev_ledger :: int
  ev_close :: int

text \<open>A row of \<open>DexPool\<close>: the reserves are not written when the row is created.\<close>

record pool_row =
  pr_address :: string
  pr_protocol :: dex_protocol
  pr_tokenA :: string
  pr_tokenB :: string
  pr_symbols :: "string option \<times> string option"
  pr_decimals :: "int \<times> int"
  pr_reserves :: "(int \<times> int) option"
  pr_fee :: int
  pr_first :: int
  pr_last :: int

record pool_swap_row =
  ps_address :: string
  ps_tx :: string
  ps_ledger :: int
  ps_close :: int
  ps_fields :: swap_fields

record dex_db =
  dx_pools :: "pool_row list"
  dx_swaps :: "pool_swap_row list"

text \<open>What \<open>getTokenMetadata\<close> answers: symbol and decimals, \<open>None\<close> when it fails.\<close>

type_synonym metadata = "string \<Rightarrow> (string \<times> int) option"

definition canonicalPair :: "string \<Rightarrow> string \<Rightarrow> string \<times> string" where
  "canonicalPair t0 t1 = (if t0 \<le> t1 then (t0, t1) else (t1, t0))"

record pool_view =
  pv_tokenA :: string
  pv_tokenB :: string
  pv_reserves :: "int \<times> int"
  pv_fee :: int

definition find_pool :: "string \<Rightarrow> dex_db \<Rightarrow> pool_row option" where
  "find_pool a db = tbl_find pr_address a (dx_pools db)"

definition new_pool :: "metadata \<Rightarrow> string \<Rightarrow> string \<times> string \<Rightarrow> dex_protocol \<Rightarrow> int \<Rightarrow> pool_row" where
  "new_pool meta poolAddress pair protocol ledgerSequence =
     (let metaA = meta (fst pair); metaB = meta (snd pair);
          decimals = (\<lambda>m. case m of None \<Rightarrow> 7 | Some (s, d) \<Rightarrow> d)
      in \<lparr>pr_address = poolAddress, pr_protocol = protocol, pr_tokenA = fst pair, pr_tokenB = snd pair,
          pr_symbols = (map_option fst metaA, map_option fst metaB), pr_decimals = (decimals metaA, decimals metaB),
          pr_reserves = None, pr_fee = 30, pr_first = ledgerSequence, pr_last = ledgerSequence\<rparr>)"

text \<open>The outer \<open>None\<close> is the exception of \<open>BigInt(null)\<close>, the inner one \<open>null\<close>.\<close>

definition ensurePool ::
  "metadata \<Rightarrow> string \<Rightarrow> (string \<times> string) option \<Rightarrow> dex_protocol \<Rightarrow> int \<Rightarrow> dex_db \<Rightarrow> (pool_view option \<times> dex_db) option" where
  "ensurePool meta poolAddress pair protocol ledgerSequence db =
     (case find_pool poolAddress db of
        Some row \<Rightarrow>
          (case pr_reserves row of None \<Rightarrow> None
           | Some r \<Rightarrow> Some (Some \<lparr>pv_tokenA = pr_tokenA row, pv_tokenB = pr_tokenB row, pv_reserves = r,
                                    pv_fee = pr_fee row\<rparr>, db))
      | None \<Rightarrow>
          (case pair of None \<Rightarrow> Some (None, db)
           | Some (t0, t1) \<Rightarrow>
               (let p = canonicalPair t0 t1 in
                Some (Some \<lparr>pv_tokenA = fst p, pv_tokenB = snd p, pv_reserves = (0, 0), pv_fee = 30\<rparr>,
                      db\<lparr>dx_pools := dx_pools db @ [new_pool meta poolAddress p protocol ledgerSequence]\<rparr>))))"

definition pair_of :: "swap_fields option \<Rightarrow> liquidity_fields option \<Rightarrow> (string \<times> string) option" where
  "pair_of swap liq =
     (case swap of Some s \<Rightarrow> Some (sf_in s, sf_out s)
      | None \<Rightarrow> map_option (\<lambda>l. (lf_a l, lf_b l)) liq)"

text \<open>The order of the tokens in the event is mapped to the one of the pool.\<close>

definition liquidity_change :: "int \<Rightarrow> liquidity_fields \<Rightarrow> pool_view \<Rightarrow> int \<times> int" where
  "liquidity_change sg l pool =
     (let inIsA = (lf_a l = pv_tokenA pool);
          dA = (if inIsA then lf_amount_a l else lf_amount_b l);
          dB = (if inIsA then lf_amount_b l else lf_amount_a l)
      in applyLiquidity (pv_reserves pool) (sg * dA) (sg * dB))"

definition sync_reserves :: "fields \<Rightarrow> pool_view \<Rightarrow> int \<times> int" where
  "sync_reserves d pool =
     (let r0 = asBig (first_field d [''reserve_a'', ''reserveA'', ''reserve_0'', ''new_reserve_a'']);
          r1 = asBig (first_field d [''reserve_b'', ''reserveB'', ''reserve_1'', ''new_reserve_b''])
      in if 0 < r0 \<or> 0 < r1 then (r0, r1) else pv_reserves pool)"

text \<open>The reserves after the event.\<close>

definition next_reserves ::
  "pool_action \<Rightarrow> fields \<Rightarrow> swap_fields option \<Rightarrow> liquidity_fields option \<Rightarrow> pool_view \<Rightarrow> int \<times> int" where
  "next_reserves action d swap liq pool =
     (case (action, swap, liq) of
        (Act_swap, Some s, _) \<Rightarrow>
          applySwap (pv_reserves pool) (pv_tokenA pool) (sf_in s) (sf_amount_in s) (sf_amount_out s)
      | (Act_add, _, Some l) \<Rightarrow> liquidity_change 1 l pool
      | (Act_remove, _, Some l) \<Rightarrow> liquidity_change (- 1) l pool
      | (Act_sync, _, _) \<Rightarrow> sync_reserves d pool
      | _ \<Rightarrow> pv_reserves pool)"

definition write_reserves :: "string \<Rightarrow> int \<times> int \<Rightarrow> int \<Rightarrow> dex_db \<Rightarrow> dex_db" where
  "write_reserves a r ledger db =
     db\<lparr>dx_pools := tbl_update pr_address a (\<lambda>row. row\<lparr>pr_reserves := Some r, pr_last := ledger\<rparr>) (dx_pools db)\<rparr>"

definition processPoolEvent :: "metadata \<Rightarrow> pool_event \<Rightarrow> dex_db \<Rightarrow> dex_db option" where
  "processPoolEvent meta ev db =
     (if \<not> looksLikePoolEvent (ev_type ev) (ev_topic ev) then Some db
      else
        (let d = (case ev_decoded ev of None \<Rightarrow> (\<lambda>k. None) | Some d \<Rightarrow> d);
             action = poolActionFor (ev_topic ev) (ev_type ev) in
         if action = Act_ignore then Some db
         else
           (let protocol = classifyProtocol (ev_topic ev) (ev_type ev);
                a = ev_contract ev;
                swap = (if action = Act_swap then extractSwap d a else None);
                liq = (if action = Act_add \<or> action = Act_remove then extractLiquidity d else None) in
            case ensurePool meta a (pair_of swap liq) protocol (ev_ledger ev) db of
              None \<Rightarrow> None
            | Some (None, db1) \<Rightarrow> Some db1
            | Some (Some pool, db1) \<Rightarrow>
                (let r = next_reserves action d swap liq pool;
                     db2 = (case swap of None \<Rightarrow> db1
                            | Some s \<Rightarrow> db1\<lparr>dx_swaps := dx_swaps db1 @
                                [\<lparr>ps_address = a, ps_tx = ev_tx ev, ps_ledger = ev_ledger ev, ps_close = ev_close ev,
                                  ps_fields = s\<rparr>]\<rparr>)
                 in Some (write_reserves a r (ev_ledger ev) db2)))))"

section \<open>Texts and symbols\<close>

lemma big_dec_nat: "bigint_of (dec_nat n) = Some (int n)"
proof -
  have d: "\<forall>c \<in> set (dec_nat n). is_digit c" by (rule dec_nat_digits)
  obtain c cs where e: "dec_nat n = c # cs" by (cases "dec_nat n") auto
  have "take 2 (dec_nat n) \<notin> {''0x'', ''0X''}" "take 2 (dec_nat n) \<notin> {''0o'', ''0O''}"
    "take 2 (dec_nat n) \<notin> {''0b'', ''0B''}"
    using d e by (cases cs; force simp: is_digit_def)+
  moreover have "parse_sign (dec_nat n) = (1, dec_nat n)"
    using d digit_not_sign [of c] by (simp add: parse_sign_def e)
  moreover have "list_all is_digit (dec_nat n)" using d by (simp add: list_all_iff)
  ultimately show ?thesis by (simp add: bigint_of_def)
qed

lemma trim_minus: "\<forall>c \<in> set s. is_digit c \<Longrightarrow> js_trim (CHR ''-'' # s) = CHR ''-'' # s"
proof -
  assume d: "\<forall>c \<in> set s. is_digit c"
  have n: "\<not> is_space (CHR ''-'')" by (simp add: is_space_def)
  have "\<forall>c \<in> set (CHR ''-'' # s). \<not> is_space c" using d n digit_not_space by auto
  then have "dropWhile is_space (rev (CHR ''-'' # s)) = rev (CHR ''-'' # s)"
    by (metis dropWhile_eq_self_iff hd_in_set set_rev)
  then show ?thesis using n by (simp add: js_trim_def)
qed

lemma big_dec_int [simp]: "bigint_of (dec_int n) = Some n"
proof (cases "n < 0")
  case True
  let ?t = "dec_nat (nat (- n))"
  have d: "\<forall>c \<in> set ?t. is_digit c" by (rule dec_nat_digits)
  then have "list_all is_digit ?t" by (simp add: list_all_iff)
  then show ?thesis
    using True trim_minus [OF d] by (simp add: bigint_of_def dec_int_def parse_sign_def)
qed (simp add: dec_int_def big_dec_nat)

lemma no_dot_dec_int: "CHR ''.'' \<notin> set (dec_int n)"
  by (auto simp: dec_int_def is_digit_def dest: dec_nat_digits [rule_format])

lemma asBig_dec [simp]: "asBig (Some (dec_int n)) = n"
  by (simp add: asBig_def split_on_none [OF no_dot_dec_int])

text \<open>The cheap gate lets through exactly the events that have an action.\<close>

lemma gate_is_action: "looksLikePoolEvent e t \<longleftrightarrow> poolActionFor t e \<noteq> Act_ignore"
  by (simp add: looksLikePoolEvent_def poolActionFor_def ALL_POOL_SYMBOLS_def Let_def)

lemma clamp0_nonneg [simp]: "0 \<le> clamp0 x" and clamp0_id [simp]: "0 \<le> x \<Longrightarrow> clamp0 x = x"
  by (simp_all add: clamp0_def)

lemma applySwap_nonneg: "0 \<le> fst (applySwap r a t x y)" "0 \<le> snd (applySwap r a t x y)"
  by (simp_all add: applySwap_def Let_def)

lemma applyLiquidity_nonneg: "0 \<le> fst (applyLiquidity r x y)" "0 \<le> snd (applyLiquidity r x y)"
  by (simp_all add: applyLiquidity_def)

section \<open>The table of pools\<close>

text \<open>Every row is filed once, its pair is in canonical order, and its reserves are written.\<close>

definition pool_row_ok :: "pool_row \<Rightarrow> bool" where
  "pool_row_ok row = (pr_tokenA row \<le> pr_tokenB row \<and> pr_reserves row \<noteq> None)"

definition pools_ok :: "dex_db \<Rightarrow> bool" where
  "pools_ok db = (distinct (map pr_address (dx_pools db)) \<and> (\<forall>row \<in> set (dx_pools db). pool_row_ok row))"

lemma canonical_order: "fst (canonicalPair a b) \<le> snd (canonicalPair a b)"
  by (auto simp: canonicalPair_def)

lemma canonical_set: "{fst (canonicalPair a b), snd (canonicalPair a b)} = {a, b}"
  by (auto simp: canonicalPair_def)

lemma find_pool_None: "find_pool a db = None \<longleftrightarrow> a \<notin> pr_address ` set (dx_pools db)"
  by (auto simp: find_pool_def tbl_find_def find_None_iff)

lemma find_pool_in: "find_pool a db = Some row \<Longrightarrow> row \<in> set (dx_pools db) \<and> pr_address row = a"
  by (auto simp: find_pool_def dest: tbl_find_Some)

text \<open>What \<open>ensurePool\<close> leaves: the rows of before, or one more whose reserves are not written yet.\<close>

definition stored_view :: "pool_row \<Rightarrow> pool_view" where
  "stored_view row = \<lparr>pv_tokenA = pr_tokenA row, pv_tokenB = pr_tokenB row, pv_reserves = the (pr_reserves row),
     pv_fee = pr_fee row\<rparr>"

lemma ensurePool_ok:
  assumes "pools_ok db"
  obtains (known) row where "find_pool a db = Some row" "ensurePool meta a pair p l db = Some (Some (stored_view row), db)"
    | (undetermined) "find_pool a db = None" "pair = None" "ensurePool meta a pair p l db = Some (None, db)"
    | (registered) t0 t1 where "find_pool a db = None" "pair = Some (t0, t1)"
      "ensurePool meta a pair p l db = Some (Some \<lparr>pv_tokenA = fst (canonicalPair t0 t1), pv_tokenB = snd (canonicalPair t0 t1),
         pv_reserves = (0, 0), pv_fee = 30\<rparr>, db\<lparr>dx_pools := dx_pools db @ [new_pool meta a (canonicalPair t0 t1) p l]\<rparr>)"
proof (cases "find_pool a db")
  case None
  then show ?thesis using undetermined registered by (cases pair) (auto simp: ensurePool_def Let_def)
next
  case (Some row)
  then have "pool_row_ok row" using assms find_pool_in by (auto simp: pools_ok_def)
  then show ?thesis using known [OF Some] Some by (auto simp: ensurePool_def stored_view_def pool_row_ok_def)
qed

lemma find_write:
  "find_pool b (write_reserves a r l db) =
     (if b = a then map_option (\<lambda>row. row\<lparr>pr_reserves := Some r, pr_last := l\<rparr>) (find_pool a db) else find_pool b db)"
  by (simp add: find_pool_def write_reserves_def tbl_find_update)

lemma find_app: "List.find P (xs @ ys) = (case List.find P xs of None \<Rightarrow> List.find P ys | Some x \<Rightarrow> Some x)"
  by (induction xs) auto

lemma find_new:
  assumes "find_pool a db = None"
  shows "find_pool b (db\<lparr>dx_pools := dx_pools db @ [new_pool meta a p q l]\<rparr>) =
    (if b = a then Some (new_pool meta a p q l) else find_pool b db)"
  using assms by (auto simp: find_pool_def tbl_find_def new_pool_def Let_def find_app split: option.splits)

lemma find_swaps [simp]: "find_pool a (db\<lparr>dx_swaps := x\<rparr>) = find_pool a db"
  by (simp add: find_pool_def)

lemma write_ok:
  assumes "distinct (map pr_address (dx_pools db))"
    "\<forall>row \<in> set (dx_pools db). pr_tokenA row \<le> pr_tokenB row \<and> (pr_reserves row = None \<longrightarrow> pr_address row = a)"
  shows "pools_ok (write_reserves a r l db)"
  using assms by (auto simp: pools_ok_def write_reserves_def tbl_update_keys set_tbl_update pool_row_ok_def)

text \<open>The state after an event that is let through.\<close>

definition event_fields :: "pool_event \<Rightarrow> fields" where
  "event_fields ev = (case ev_decoded ev of None \<Rightarrow> (\<lambda>k. None) | Some d \<Rightarrow> d)"

definition event_action :: "pool_event \<Rightarrow> pool_action" where
  "event_action ev = poolActionFor (ev_topic ev) (ev_type ev)"

definition event_swap :: "pool_event \<Rightarrow> swap_fields option" where
  "event_swap ev = (if event_action ev = Act_swap then extractSwap (event_fields ev) (ev_contract ev) else None)"

definition event_liquidity :: "pool_event \<Rightarrow> liquidity_fields option" where
  "event_liquidity ev =
     (if event_action ev = Act_add \<or> event_action ev = Act_remove then extractLiquidity (event_fields ev) else None)"

definition event_reserves :: "pool_event \<Rightarrow> pool_view \<Rightarrow> int \<times> int" where
  "event_reserves ev pool = next_reserves (event_action ev) (event_fields ev) (event_swap ev) (event_liquidity ev) pool"

definition log_swap :: "pool_event \<Rightarrow> dex_db \<Rightarrow> dex_db" where
  "log_swap ev db =
     (case event_swap ev of None \<Rightarrow> db
      | Some s \<Rightarrow> db\<lparr>dx_swaps := dx_swaps db @ [\<lparr>ps_address = ev_contract ev, ps_tx = ev_tx ev, ps_ledger = ev_ledger ev,
          ps_close = ev_close ev, ps_fields = s\<rparr>]\<rparr>)"

lemma process_event:
  "processPoolEvent meta ev db =
    (if event_action ev = Act_ignore then Some db
     else case ensurePool meta (ev_contract ev) (pair_of (event_swap ev) (event_liquidity ev))
              (classifyProtocol (ev_topic ev) (ev_type ev)) (ev_ledger ev) db of
        None \<Rightarrow> None
      | Some (None, db1) \<Rightarrow> Some db1
      | Some (Some pool, db1) \<Rightarrow>
          Some (write_reserves (ev_contract ev) (event_reserves ev pool) (ev_ledger ev) (log_swap ev db1)))"
  by (simp add: processPoolEvent_def gate_is_action event_action_def event_fields_def event_swap_def
      event_liquidity_def event_reserves_def log_swap_def Let_def split: option.splits prod.splits)

lemma log_swap_pools [simp]: "dx_pools (log_swap ev db) = dx_pools db" "find_pool a (log_swap ev db) = find_pool a db"
  by (simp_all add: log_swap_def find_pool_def split: option.splits)

lemma processing_total:
  assumes "pools_ok db"
  shows "\<exists>db'. processPoolEvent meta ev db = Some db' \<and> pools_ok db'"
proof (cases "event_action ev = Act_ignore")
  case True
  then show ?thesis using assms by (simp add: process_event)
next
  case False
  show ?thesis
    using assms
  proof (cases rule: ensurePool_ok [of db "ev_contract ev" meta "pair_of (event_swap ev) (event_liquidity ev)"
        "classifyProtocol (ev_topic ev) (ev_type ev)" "ev_ledger ev"])
    case (known row)
    have "pools_ok (write_reserves (ev_contract ev) (event_reserves ev (stored_view row)) (ev_ledger ev) (log_swap ev db))"
      using assms by (intro write_ok) (auto simp: pools_ok_def pool_row_ok_def)
    then show ?thesis using False known by (simp add: process_event)
  next
    case undetermined
    then show ?thesis using False assms by (simp add: process_event)
  next
    case (registered t0 t1)
    let ?n = "new_pool meta (ev_contract ev) (canonicalPair t0 t1) (classifyProtocol (ev_topic ev) (ev_type ev)) (ev_ledger ev)"
    have "pr_address ?n = ev_contract ev" "pr_tokenA ?n \<le> pr_tokenB ?n"
      by (simp_all add: new_pool_def Let_def canonical_order)
    then have "pools_ok (write_reserves (ev_contract ev) r l (log_swap ev (db\<lparr>dx_pools := dx_pools db @ [?n]\<rparr>)))" for r l
      using assms registered(1) by (intro write_ok) (auto simp: pools_ok_def pool_row_ok_def find_pool_None image_iff)
    then show ?thesis using False registered by (simp add: process_event)
  qed
qed

text \<open>From a table in which every pool is filed once and its reserves are written, no event makes the
  processing throw, and the table stays so.\<close>

theorem processing_never_throws:
  assumes "pools_ok db"
  shows "\<exists>db'. processPoolEvent meta ev db = Some db' \<and> pools_ok db'"
  using assms by (rule processing_total)

text \<open>An event leaves the rows of other pools as they are, and never changes the pair of its own.\<close>

theorem registered_pair_fixed:
  assumes "pools_ok db" "find_pool a db = Some row" "processPoolEvent meta ev db = Some db'"
  shows "\<exists>row'. find_pool a db' = Some row' \<and> pr_tokenA row' = pr_tokenA row \<and> pr_tokenB row' = pr_tokenB row
    \<and> (a \<noteq> ev_contract ev \<longrightarrow> row' = row)"
proof (cases "event_action ev = Act_ignore")
  case True
  then show ?thesis using assms by (simp add: process_event)
next
  case False
  show ?thesis
    using assms(1)
  proof (cases rule: ensurePool_ok [of db "ev_contract ev" meta "pair_of (event_swap ev) (event_liquidity ev)"
        "classifyProtocol (ev_topic ev) (ev_type ev)" "ev_ledger ev"])
    case (known row')
    then show ?thesis using False assms(2,3) by (auto simp: process_event find_write)
  next
    case undetermined
    then show ?thesis using False assms(2,3) by (simp add: process_event)
  next
    case (registered t0 t1)
    then show ?thesis using False assms(2,3) by (auto simp: process_event find_write find_new)
  qed
qed

section \<open>Tracked reserves are the balances of the pool\<close>

text \<open>What happens to a pool of two tokens, and what it does to the balances the pool holds. The amounts of a
  swap and of a liquidity operation are named in the order of the caller.\<close>

datatype pool_op =
    Op_swap string string int int
  | Op_add string string int int
  | Op_remove string string int int

type_synonym balances = "string \<Rightarrow> int"

fun op_apply :: "pool_op \<Rightarrow> balances \<Rightarrow> balances" where
  "op_apply (Op_swap t u x y) bal = bal(t := bal t + x, u := bal u - y)"
| "op_apply (Op_add t u x y) bal = bal(t := bal t + x, u := bal u + y)"
| "op_apply (Op_remove t u x y) bal = bal(t := bal t - x, u := bal u - y)"

text \<open>A pool pays out no more than it has, and a swap pays something in.\<close>

fun pool_op_ok :: "string \<Rightarrow> string \<Rightarrow> balances \<Rightarrow> pool_op \<Rightarrow> bool" where
  "pool_op_ok a b bal (Op_swap t u x y) = ((t, u) \<in> {(a, b), (b, a)} \<and> 0 < x \<and> 0 \<le> y \<and> y \<le> bal u)"
| "pool_op_ok a b bal (Op_add t u x y) = ((t, u) \<in> {(a, b), (b, a)} \<and> 0 \<le> x \<and> 0 \<le> y)"
| "pool_op_ok a b bal (Op_remove t u x y) = ((t, u) \<in> {(a, b), (b, a)} \<and> 0 \<le> x \<and> x \<le> bal t \<and> 0 \<le> y \<and> y \<le> bal u)"

text \<open>The event the pool publishes.\<close>

definition fields_of :: "(string \<times> string) list \<Rightarrow> fields" where
  "fields_of kvs = map_of kvs"

fun op_symbol :: "pool_op \<Rightarrow> string" where
  "op_symbol (Op_swap t u x y) = ''swap''"
| "op_symbol (Op_add t u x y) = ''deposit''"
| "op_symbol (Op_remove t u x y) = ''withdraw''"

fun op_fields :: "pool_op \<Rightarrow> fields" where
  "op_fields (Op_swap t u x y) =
     fields_of [(''token_in'', t), (''token_out'', u), (''amount_in'', dec_int x), (''amount_out'', dec_int y)]"
| "op_fields (Op_add t u x y) =
     fields_of [(''token_a'', t), (''token_b'', u), (''amount_a'', dec_int x), (''amount_b'', dec_int y)]"
| "op_fields (Op_remove t u x y) =
     fields_of [(''token_a'', t), (''token_b'', u), (''amount_a'', dec_int x), (''amount_b'', dec_int y)]"

definition op_event :: "string \<Rightarrow> pool_op \<times> string \<times> int \<times> int \<Rightarrow> pool_event" where
  "op_event addr occ = (case occ of (op, tx, ledger, close) \<Rightarrow>
     \<lparr>ev_contract = addr, ev_type = None, ev_topic = Some (op_symbol op), ev_decoded = Some (op_fields op),
      ev_tx = tx, ev_ledger = ledger, ev_close = close\<rparr>)"

fun history_ok :: "string \<Rightarrow> string \<Rightarrow> balances \<Rightarrow> (pool_op \<times> string \<times> int \<times> int) list \<Rightarrow> bool" where
  "history_ok a b bal [] = True"
| "history_ok a b bal (o1 # os) = (pool_op_ok a b bal (fst o1) \<and> history_ok a b (op_apply (fst o1) bal) os)"

fun balances_after :: "(pool_op \<times> string \<times> int \<times> int) list \<Rightarrow> balances \<Rightarrow> balances" where
  "balances_after [] bal = bal"
| "balances_after (o1 # os) bal = balances_after os (op_apply (fst o1) bal)"

fun process_all :: "metadata \<Rightarrow> pool_event list \<Rightarrow> dex_db \<Rightarrow> dex_db option" where
  "process_all meta [] db = Some db"
| "process_all meta (ev # evs) db =
     (case processPoolEvent meta ev db of None \<Rightarrow> None | Some db' \<Rightarrow> process_all meta evs db')"

text \<open>The row holds the balances, under the canonical order of the pair.\<close>

definition tracks :: "string \<Rightarrow> string \<Rightarrow> string \<Rightarrow> balances \<Rightarrow> dex_db \<Rightarrow> bool" where
  "tracks addr a b bal db =
     (case find_pool addr db of None \<Rightarrow> False
      | Some row \<Rightarrow> (pr_tokenA row, pr_tokenB row) \<in> {(a, b), (b, a)}
          \<and> pr_reserves row = Some (bal (pr_tokenA row), bal (pr_tokenB row)))"

lemma op_action [simp]:
  "event_action (op_event addr (Op_swap t u x y, r)) = Act_swap"
  "event_action (op_event addr (Op_add t u x y, r)) = Act_add"
  "event_action (op_event addr (Op_remove t u x y, r)) = Act_remove"
  by (cases r; simp add: event_action_def op_event_def poolActionFor_def symbol_of_def norm_symbol_def
      SWAP_SYMBOLS_def SYNC_SYMBOLS_def ADD_LIQUIDITY_SYMBOLS_def REMOVE_LIQUIDITY_SYMBOLS_def
      to_lower_def lower_char_def js_trim_def is_space_def)+

lemma op_event_fields [simp]:
  "event_fields (op_event addr (op, r)) = op_fields op" "ev_contract (op_event addr (op, r)) = addr"
  by (cases r; simp add: event_fields_def op_event_def)+

lemma op_swap_fields:
  assumes "t \<noteq> []" "u \<noteq> []" "0 < x"
  shows "event_swap (op_event addr (Op_swap t u x y, r)) =
    Some \<lparr>sf_in = t, sf_out = u, sf_amount_in = x, sf_amount_out = y, sf_trader = addr\<rparr>"
  using assms by (simp add: event_swap_def extractSwap_def fields_of_def asAddr_def)

lemma op_liquidity_fields:
  assumes "t \<noteq> []" "u \<noteq> []"
  shows "event_liquidity (op_event addr (Op_add t u x y, r)) = Some \<lparr>lf_a = t, lf_b = u, lf_amount_a = x, lf_amount_b = y\<rparr>"
    "event_liquidity (op_event addr (Op_remove t u x y, r)) = Some \<lparr>lf_a = t, lf_b = u, lf_amount_a = x, lf_amount_b = y\<rparr>"
  using assms by (simp_all add: event_liquidity_def extractLiquidity_def fields_of_def asAddr_def)

lemma op_no_swap [simp]:
  "event_swap (op_event addr (Op_add t u x y, r)) = None" "event_swap (op_event addr (Op_remove t u x y, r)) = None"
  "event_liquidity (op_event addr (Op_swap t u x y, r)) = None"
  by (simp_all add: event_swap_def event_liquidity_def)

text \<open>The event changes the reserves of the pool as the operation changes its balances.\<close>

definition shows_balances :: "string \<Rightarrow> string \<Rightarrow> balances \<Rightarrow> pool_view \<Rightarrow> bool" where
  "shows_balances a b bal pool =
     ((pv_tokenA pool, pv_tokenB pool) \<in> {(a, b), (b, a)} \<and> pv_reserves pool = (bal (pv_tokenA pool), bal (pv_tokenB pool)))"

lemma op_reserves:
  assumes "shows_balances a b bal pool" "pool_op_ok a b bal op" "a \<noteq> b" "a \<noteq> []" "b \<noteq> []" "0 \<le> bal a" "0 \<le> bal b"
  shows "event_reserves (op_event addr (op, r)) pool =
    (op_apply op bal (pv_tokenA pool), op_apply op bal (pv_tokenB pool))"
  using assms
  by (cases op)
    (auto simp: event_reserves_def next_reserves_def op_swap_fields op_liquidity_fields shows_balances_def
      applySwap_def liquidity_change_def applyLiquidity_def Let_def)

lemma op_pair:
  assumes "pool_op_ok a b bal op" "a \<noteq> []" "b \<noteq> []"
  shows "\<exists>t u. pair_of (event_swap (op_event addr (op, r))) (event_liquidity (op_event addr (op, r))) = Some (t, u)
    \<and> (t, u) \<in> {(a, b), (b, a)}"
  using assms by (cases op) (auto simp: pair_of_def op_swap_fields op_liquidity_fields)

lemma op_nonneg:
  "pool_op_ok a b bal op \<Longrightarrow> a \<noteq> b \<Longrightarrow> 0 \<le> bal a \<Longrightarrow> 0 \<le> bal b \<Longrightarrow> 0 \<le> op_apply op bal a \<and> 0 \<le> op_apply op bal b"
  by (cases op) auto

lemma op_not_ignored: "event_action (op_event addr (op, r)) \<noteq> Act_ignore"
  by (cases op) simp_all

text \<open>A pool is followed from its creation, when it holds nothing and has no row.\<close>

definition follows :: "string \<Rightarrow> string \<Rightarrow> string \<Rightarrow> balances \<Rightarrow> dex_db \<Rightarrow> bool" where
  "follows addr a b bal db = (tracks addr a b bal db \<or> (find_pool addr db = None \<and> bal a = 0 \<and> bal b = 0))"

lemma tracks_write:
  assumes "find_pool addr db = Some row" "(pr_tokenA row, pr_tokenB row) \<in> {(a, b), (b, a)}"
  shows "tracks addr a b bal (write_reserves addr (bal (pr_tokenA row), bal (pr_tokenB row)) l db)"
  using assms by (auto simp: tracks_def find_write)

lemma op_step:
  assumes "pools_ok db" "follows addr a b bal db" "pool_op_ok a b bal op" "a \<noteq> b" "a \<noteq> []" "b \<noteq> []" "0 \<le> bal a" "0 \<le> bal b"
  shows "\<exists>db'. processPoolEvent meta (op_event addr (op, r)) db = Some db' \<and> tracks addr a b (op_apply op bal) db'"
proof -
  let ?ev = "op_event addr (op, r)"
  obtain t u where p: "pair_of (event_swap ?ev) (event_liquidity ?ev) = Some (t, u)" "(t, u) \<in> {(a, b), (b, a)}"
    using op_pair [OF assms(3,5,6)] by blast
  note res = op_reserves [OF _ assms(3-8)]
  show ?thesis
    using assms(1)
  proof (cases rule: ensurePool_ok [of db addr meta "Some (t, u)" "classifyProtocol (ev_topic ?ev) (ev_type ?ev)" "ev_ledger ?ev"])
    case (known row)
    have tr: "tracks addr a b bal db" using assms(2) known by (simp add: follows_def)
    then have v: "shows_balances a b bal (stored_view row)"
      using known by (auto simp: tracks_def shows_balances_def stored_view_def)
    have "(pr_tokenA row, pr_tokenB row) \<in> {(a, b), (b, a)}" using tr known by (auto simp: tracks_def)
    moreover have "find_pool addr (log_swap ?ev db) = Some row" using known by simp
    ultimately show ?thesis
      using known p op_not_ignored tracks_write res [OF v, of addr r]
      by (simp add: process_event stored_view_def)
  next
    case undetermined
    then show ?thesis by simp
  next
    case (registered t0 t1)
    let ?c = "canonicalPair t u"
    let ?n = "new_pool meta addr ?c (classifyProtocol (ev_topic ?ev) (ev_type ?ev)) (ev_ledger ?ev)"
    let ?db = "db\<lparr>dx_pools := dx_pools db @ [?n]\<rparr>"
    have z: "bal a = 0" "bal b = 0" using assms(2) registered(1) by (auto simp: follows_def tracks_def)
    have c: "?c \<in> {(a, b), (b, a)}" using p(2) by (auto simp: canonicalPair_def)
    have v: "shows_balances a b bal \<lparr>pv_tokenA = fst ?c, pv_tokenB = snd ?c, pv_reserves = (0, 0), pv_fee = 30\<rparr>"
      using c z by (auto simp: shows_balances_def)
    have n: "pr_tokenA ?n = fst ?c" "pr_tokenB ?n = snd ?c" by (simp_all add: new_pool_def Let_def)
    have "find_pool addr (log_swap ?ev ?db) = Some ?n" using find_new [OF registered(1)] by simp
    moreover have "(pr_tokenA ?n, pr_tokenB ?n) \<in> {(a, b), (b, a)}" using c n by auto
    ultimately have tr: "tracks addr a b (op_apply op bal)
        (write_reserves addr (op_apply op bal (fst ?c), op_apply op bal (snd ?c)) l (log_swap ?ev ?db))" for l
      using tracks_write [of addr "log_swap ?ev ?db" ?n a b "op_apply op bal" l] n by simp
    have "t0 = t" "t1 = u" using registered(2) by simp_all
    then show ?thesis
      using registered(3) p(1) op_not_ignored tr res [OF v, of addr r] by (simp add: process_event)
  qed
qed

lemma history_step:
  assumes "history_ok a b bal os" "pools_ok db" "tracks addr a b bal db" "a \<noteq> b" "a \<noteq> []" "b \<noteq> []" "0 \<le> bal a" "0 \<le> bal b"
  shows "\<exists>db'. process_all meta (map (op_event addr) os) db = Some db' \<and> tracks addr a b (balances_after os bal) db'"
  using assms
proof (induction os arbitrary: bal db)
  case (Cons o1 os)
  obtain op r where o1: "o1 = (op, r)" by (cases o1) auto
  obtain db' where db': "processPoolEvent meta (op_event addr o1) db = Some db'" "tracks addr a b (op_apply op bal) db'"
    using op_step [of db addr a b bal op meta r] Cons.prems by (auto simp: o1 follows_def)
  have ok: "pools_ok db'" using processing_total [OF Cons.prems(2), of meta "op_event addr o1"] db'(1) by simp
  have "0 \<le> op_apply op bal a \<and> 0 \<le> op_apply op bal b"
    using op_nonneg Cons.prems by (auto simp: o1)
  then show ?case
    using Cons.IH [OF _ ok db'(2)] Cons.prems db'(1) by (simp add: o1)
qed simp


section \<open>Concrete runs\<close>

definition no_pools :: dex_db where
  "no_pools = \<lparr>dx_pools = [], dx_swaps = []\<rparr>"

definition sample_pool_ops :: "(pool_op \<times> string \<times> int \<times> int) list" where
  "sample_pool_ops =
    [(Op_add ''USDC'' ''AQUA'' 500 1000, ''t1'', 10, 100), (Op_swap ''AQUA'' ''USDC'' 100 45, ''t2'', 11, 105),
     (Op_remove ''AQUA'' ''USDC'' 550 200, ''t3'', 12, 110)]"

lemma no_pools_ok: "pools_ok no_pools" "find_pool addr no_pools = None"
  by (simp_all add: pools_ok_def no_pools_def find_pool_def tbl_find_def)

lemma processing_never_throws_witness:
  "\<exists>db'. processPoolEvent (\<lambda>t. None) (op_event ''CP'' (hd sample_pool_ops)) no_pools = Some db' \<and> pools_ok db'"
  by (rule processing_never_throws) (rule no_pools_ok)


definition sample_row :: "string \<Rightarrow> pool_row" where
  "sample_row a = \<lparr>pr_address = a, pr_protocol = Soroswap, pr_tokenA = ''AQUA'', pr_tokenB = ''USDC'', pr_symbols = (None, None),
     pr_decimals = (7, 7), pr_reserves = Some (1000, 500), pr_fee = 30, pr_first = 1, pr_last = 9\<rparr>"

definition two_pools :: dex_db where
  "two_pools = \<lparr>dx_pools = [sample_row ''CP'', sample_row ''CQ''], dx_swaps = []\<rparr>"

lemma registered_pair_fixed_witness:
  "\<exists>db' row'. processPoolEvent (\<lambda>t. None) (op_event ''CP'' (hd sample_pool_ops)) two_pools = Some db'
    \<and> find_pool ''CQ'' db' = Some row' \<and> row' = sample_row ''CQ''"
proof -
  have ok: "pools_ok two_pools" by (simp add: pools_ok_def pool_row_ok_def two_pools_def sample_row_def)
  have f: "find_pool ''CQ'' two_pools = Some (sample_row ''CQ'')"
    by (simp add: find_pool_def tbl_find_def two_pools_def sample_row_def)
  obtain db' where db': "processPoolEvent (\<lambda>t. None) (op_event ''CP'' (hd sample_pool_ops)) two_pools = Some db'"
    using processing_total [OF ok] by blast
  have "ev_contract (op_event ''CP'' (hd sample_pool_ops)) \<noteq> ''CQ''" by (simp add: sample_pool_ops_def)
  then show ?thesis using registered_pair_fixed [OF ok f db'] db' by auto
qed

section \<open>Where the reserves go wrong\<close>

text \<open>A sync event is stored in its own order of the tokens, a deposit in the order of the row: for a pool that
  names the later token first the two disagree.\<close>

lemma sync_in_event_order:
  assumes "pv_tokenA pool = b" "a \<noteq> b" "pv_reserves pool = (0, 0)" "0 < x" "0 < y"
  shows "liquidity_change 1 \<lparr>lf_a = a, lf_b = b, lf_amount_a = x, lf_amount_b = y\<rparr> pool = (y, x)"
    "sync_reserves (fields_of [(''reserve_a'', dec_int x), (''reserve_b'', dec_int y)]) pool = (x, y)"
  using assms by (simp_all add: liquidity_change_def applyLiquidity_def sync_reserves_def fields_of_def)

text \<open>A sync stores a negative reserve when the other one is positive.\<close>

lemma sync_stores_negative:
  "0 < x \<Longrightarrow> y < 0 \<Longrightarrow> sync_reserves (fields_of [(''reserve_a'', dec_int x), (''reserve_b'', dec_int y)]) pool = (x, y)"
  by (simp add: sync_reserves_def fields_of_def)

text \<open>A swap of a token that the pool does not hold counts as one of its second token.\<close>

lemma foreign_token_is_second:
  "t \<noteq> a \<Longrightarrow> b \<noteq> a \<Longrightarrow> applySwap r a t x y = applySwap r a b x y"
  by (simp add: applySwap_def)

text \<open>Three symbols that are handled have no protocol.\<close>

lemma handled_but_unknown:
  "s \<in> {''swapexacttokensfortokens'', ''reserves'', ''update_reserves''} \<Longrightarrow>
    poolActionFor (Some s) e \<noteq> Act_ignore \<and> classifyProtocol (Some s) e = Unknown_dex"
  by (auto simp: poolActionFor_def classifyProtocol_def symbol_of_def norm_symbol_def SWAP_SYMBOLS_def
      SYNC_SYMBOLS_def PROTOCOL_SIGNATURES_def to_lower_def lower_char_def js_trim_def is_space_def)

end
