(* ===== verification/Js_Sqrt.thy ===== *)
theory Js_Sqrt
  imports Js_Double
begin

text \<open>
  \<open>Math.sqrt\<close> of a double that is not negative, as the nearest double. The root of \<open>q * 4 ^ 600\<close>
  is taken on integers; half a unit is added when it is not exact, so that the rest is seen by the
  rounding. The factor makes the integer root of the least positive double longer than any fraction.
\<close>

function isqrt :: "nat \<Rightarrow> nat" where
  "isqrt n =
     (if n = 0 then 0
      else (let r = 2 * isqrt (n div 4) in if (r + 1) * (r + 1) \<le> n then r + 1 else r))"
  by auto
termination by (relation "measure id") auto

declare isqrt.simps [simp del]

lemma isqrt_bounds: "isqrt n * isqrt n \<le> n \<and> n < (isqrt n + 1) * (isqrt n + 1)"
proof (induction n rule: isqrt.induct)
  case (1 n)
  show ?case
  proof (cases "n = 0")
    case True
    then show ?thesis by (simp add: isqrt.simps)
  next
    case False
    let ?s = "isqrt (n div 4)"
    have IH: "?s * ?s \<le> n div 4" "n div 4 < (?s + 1) * (?s + 1)" using 1 False by auto
    have low: "2 * ?s * (2 * ?s) \<le> n" using IH(1) by (simp add: algebra_simps)
    have "n div 4 + 1 \<le> (?s + 1) * (?s + 1)" using IH(2) by simp
    moreover have "n < 4 * (n div 4 + 1)" by simp
    ultimately have high: "n < (2 * ?s + 2) * (2 * ?s + 2)" by (simp add: algebra_simps)
    show ?thesis using False low high by (subst (1 2 3 4) isqrt.simps) (auto simp: Let_def)
  qed
qed

lemma isqrt_unique: "m * m \<le> n \<Longrightarrow> n < (m + 1) * (m + 1) \<Longrightarrow> isqrt n = m"
proof -
  assume a: "m * m \<le> n" "n < (m + 1) * (m + 1)"
  have b: "isqrt n * isqrt n \<le> n" "n < (isqrt n + 1) * (isqrt n + 1)" using isqrt_bounds [of n] by auto
  have "m < isqrt n + 1" by (rule ccontr) (use a b mult_le_mono [of "isqrt n + 1" m "isqrt n + 1" m] in simp)
  moreover have "isqrt n < m + 1" by (rule ccontr) (use a b mult_le_mono [of "m + 1" "isqrt n" "m + 1" "isqrt n"] in simp)
  ultimately show ?thesis by simp
qed

lemma isqrt_mono: "a \<le> b \<Longrightarrow> isqrt a \<le> isqrt b"
proof (rule ccontr)
  assume le: "a \<le> b" and "\<not> isqrt a \<le> isqrt b"
  then have s: "isqrt b + 1 \<le> isqrt a" by simp
  have "(isqrt b + 1) * (isqrt b + 1) \<le> isqrt a * isqrt a" by (rule mult_le_mono [OF s s])
  then show False using isqrt_bounds [of a] isqrt_bounds [of b] le by linarith
qed

definition SQRT_SCALE :: nat where
  "SQRT_SCALE = 600"

definition root_near :: "rat \<Rightarrow> rat" where
  "root_near q =
     (let n = nat \<lfloor>q * 4 ^ SQRT_SCALE\<rfloor>; s = isqrt n
      in (of_nat s + (if of_nat (s * s) = q * 4 ^ SQRT_SCALE then 0 else 1 / 2)) / 2 ^ SQRT_SCALE)"

definition js_sqrt :: "rat \<Rightarrow> rat" where
  "js_sqrt q = (if q \<le> 0 then 0 else round_pos (root_near q))"

lemma js_sqrt_nonneg [simp]: "0 \<le> js_sqrt q"
  by (simp add: js_sqrt_def round_pos_nonneg)

text \<open>The root of the square of a natural number below \<open>2 ^ 53\<close> is exact.\<close>

lemma js_sqrt_square:
  assumes "m < 2 ^ 53" shows "js_sqrt (of_nat (m * m)) = of_nat m"
proof (cases "m = 0")
  case False
  let ?k = "SQRT_SCALE"
  have sq: "(of_nat (m * m) :: rat) * 4 ^ ?k = of_nat ((m * 2 ^ ?k) * (m * 2 ^ ?k))"
    by (simp add: power_mult_distrib [symmetric])
  have "nat \<lfloor>(of_nat (m * m) :: rat) * 4 ^ ?k\<rfloor> = (m * 2 ^ ?k) * (m * 2 ^ ?k)" unfolding sq by (simp only: floor_of_nat nat_int)
  moreover have "isqrt ((m * 2 ^ ?k) * (m * 2 ^ ?k)) = m * 2 ^ ?k" by (rule isqrt_unique) simp_all
  ultimately have "root_near (of_nat (m * m)) = of_nat m" unfolding root_near_def sq Let_def by simp
  moreover have "\<not> of_nat (m * m) \<le> (0 :: rat)" using False by (simp only: of_nat_le_0_iff) simp
  ultimately show ?thesis using assms round_pos_small [of m] by (simp only: js_sqrt_def if_False)
qed (simp add: js_sqrt_def)

lemma root_near_mono:
  assumes "0 \<le> x" "x \<le> y" shows "root_near x \<le> root_near y"
proof -
  let ?k = "SQRT_SCALE"
  let ?a = "x * 4 ^ ?k" and ?b = "y * 4 ^ ?k"
  let ?m = "isqrt (nat \<lfloor>?a\<rfloor>)" and ?n = "isqrt (nat \<lfloor>?b\<rfloor>)"
  have ab: "?a \<le> ?b" using assms(2) by simp
  have mn: "?m \<le> ?n" by (rule isqrt_mono [OF nat_mono [OF floor_mono [OF ab]]])
  have "(of_nat ?m + (if of_nat (?m * ?m) = ?a then 0 else 1 / 2) :: rat)
      \<le> of_nat ?n + (if of_nat (?n * ?n) = ?b then 0 else 1 / 2)"
  proof (cases "?m = ?n")
    case True
    have "of_nat (?m * ?m) = ?a" if "of_nat (?n * ?n) = ?b"
    proof -
      have "?m * ?m \<le> nat \<lfloor>?a\<rfloor>" using isqrt_bounds by blast
      then have "of_nat (?m * ?m) \<le> (of_nat (nat \<lfloor>?a\<rfloor>) :: rat)" by (rule of_nat_mono)
      also have "\<dots> \<le> ?a"
      proof -
        have "0 \<le> ?a" using assms(1) by (intro mult_nonneg_nonneg) simp_all
        then have "of_nat (nat \<lfloor>?a\<rfloor>) = (of_int \<lfloor>?a\<rfloor> :: rat)" by (intro of_nat_nat) (simp only: zero_le_floor)
        then show ?thesis using of_int_floor_le by metis
      qed
      finally have le: "of_nat (?m * ?m) \<le> ?a" .
      have "?a \<le> of_nat (?m * ?m)" using ab that True by (metis order.trans order.refl)
      then show ?thesis using le by (rule order.antisym [OF _ , rotated])
    qed
    then show ?thesis using True by auto
  next
    case False
    then have "of_nat ?m + 1 \<le> (of_nat ?n :: rat)" using mn by (metis of_nat_Suc of_nat_le_iff Suc_leI le_neq_implies_less add.commute)
    then show ?thesis by auto
  qed
  then show ?thesis by (simp add: root_near_def Let_def divide_right_mono)
qed

lemma js_sqrt_mono: "0 \<le> x \<Longrightarrow> x \<le> y \<Longrightarrow> js_sqrt x \<le> js_sqrt y"
  by (auto simp: js_sqrt_def round_pos_nonneg intro: round_pos_mono root_near_mono)

end
