(* ===== verification/Pool_Math.thy ===== *)
theory Pool_Math
  imports Octra_Prelude Js_Double "HOL-Library.Signed_Division" Js_Sqrt
begin

text \<open>
  \<open>src/indexer/dex/pool-math.ts\<close>: the swap formulas on exact integers (\<open>None\<close>: the division by
  zero of \<open>BigInt\<close> throws) and the reporting functions on doubles that stay finite.
\<close>

section \<open>Swaps on exact integers\<close>

definition BPS :: int where "BPS = 10000"

text \<open>\<open>Math.round\<close>, and the division of \<open>BigInt\<close>, which cuts off the fraction.\<close>

definition js_round :: "rat \<Rightarrow> int" where "js_round x = \<lfloor>x + 1 / 2\<rfloor>"

definition big_div :: "int \<Rightarrow> int \<Rightarrow> int option" where
  "big_div a b = (if b = 0 then None else Some (a sdiv b))"

definition getAmountOut :: "int \<Rightarrow> int \<Rightarrow> int \<Rightarrow> rat \<Rightarrow> int option" where
  "getAmountOut amountIn reserveIn reserveOut feeBps =
     (if amountIn \<le> 0 \<or> reserveIn \<le> 0 \<or> reserveOut \<le> 0 then Some 0
      else
        (let feeFactor = BPS - js_round feeBps;
             amountInWithFee = amountIn * feeFactor
         in big_div (amountInWithFee * reserveOut) (reserveIn * BPS + amountInWithFee)))"

definition getAmountIn :: "int \<Rightarrow> int \<Rightarrow> int \<Rightarrow> rat \<Rightarrow> int option" where
  "getAmountIn amountOut reserveIn reserveOut feeBps =
     (if amountOut \<le> 0 \<or> reserveIn \<le> 0 \<or> reserveOut \<le> 0 then Some 0
      else if reserveOut \<le> amountOut then Some 0
      else
        (let feeFactor = BPS - js_round feeBps
         in map_option (\<lambda>q. q + 1) (big_div (reserveIn * amountOut * BPS) ((reserveOut - amountOut) * feeFactor))))"

section \<open>Reports on doubles\<close>

record swap_simulation =
  ss_in :: rat
  ss_out :: rat
  ss_mid :: rat
  ss_exec :: rat
  ss_slippage :: rat
  ss_impact :: rat
  ss_fee :: rat

definition simulateSwap :: "rat \<Rightarrow> rat \<Rightarrow> rat \<Rightarrow> rat \<Rightarrow> swap_simulation" where
  "simulateSwap amountIn reserveIn reserveOut feeBps =
     (let midPrice = (if 0 < reserveIn then fl_div reserveOut reserveIn else 0) in
      if amountIn \<le> 0 \<or> reserveIn \<le> 0 \<or> reserveOut \<le> 0 then
        \<lparr>ss_in = amountIn, ss_out = 0, ss_mid = midPrice, ss_exec = 0, ss_slippage = 0, ss_impact = 0, ss_fee = 0\<rparr>
      else
        (let fee = fl_div feeBps 10000;
             afterFee = fl_mul amountIn (fl_sub 1 fee);
             amountOut = fl_div (fl_mul afterFee reserveOut) (fl_add reserveIn afterFee);
             executionPrice = fl_div amountOut amountIn;
             worse = (\<lambda>p. if 0 < midPrice then max 0 (fl_mul (fl_sub 1 (fl_div p midPrice)) 100) else 0);
             newMid = fl_div (fl_sub reserveOut amountOut) (fl_add reserveIn afterFee)
         in \<lparr>ss_in = amountIn, ss_out = amountOut, ss_mid = midPrice, ss_exec = executionPrice,
             ss_slippage = worse executionPrice, ss_impact = worse newMid, ss_fee = fl_mul amountIn fee\<rparr>))"

definition slippageCurve :: "rat \<Rightarrow> rat \<Rightarrow> rat \<Rightarrow> rat list \<Rightarrow> swap_simulation list" where
  "slippageCurve reserveIn reserveOut feeBps sizes = map (\<lambda>s. simulateSwap s reserveIn reserveOut feeBps) sizes"

definition defaultCurveSizes :: "rat \<Rightarrow> rat list" where
  "defaultCurveSizes reserveIn =
     map (\<lambda>f. fl_mul reserveIn (round_pos f)) [1 / 1000, 5 / 1000, 1 / 100, 25 / 1000, 5 / 100, 1 / 10, 1 / 4, 1 / 2]"

text \<open>The size of a trade that moves the price by an impact, and its value when a price is known.\<close>

record depth_level =
  dl_impact :: rat
  dl_amount :: rat
  dl_usd :: "rat option"

definition liquidityDepth :: "rat \<Rightarrow> rat list \<Rightarrow> rat option \<Rightarrow> depth_level list" where
  "liquidityDepth reserveIn impactLevels priceInUsd =
     map (\<lambda>p. let amountIn = (if 0 < reserveIn \<and> 0 < p \<and> p < 1
             then fl_mul reserveIn (fl_sub (fl_div 1 (js_sqrt (fl_sub 1 p))) 1) else 0)
       in \<lparr>dl_impact = p, dl_amount = amountIn, dl_usd = map_option (fl_mul amountIn) priceInUsd\<rparr>) impactLevels"

definition impermanentLossPct :: "rat \<Rightarrow> rat" where
  "impermanentLossPct priceRatio =
     (if priceRatio \<le> 0 then 0
      else fl_mul (fl_sub (fl_div (fl_mul 2 (js_sqrt priceRatio)) (fl_add 1 priceRatio)) 1) 100)"

datatype il_severity = Il_none | Il_low | Il_moderate | Il_high | Il_severe

definition impermanentLossSeverity :: "rat \<Rightarrow> il_severity" where
  "impermanentLossSeverity ilPct =
     (let m = \<bar>ilPct\<bar> in
      if m < 1 / 2 then Il_none else if m < 2 then Il_low else if m < 5 then Il_moderate
      else if m < 15 then Il_high else Il_severe)"

definition tvlUsd :: "rat \<Rightarrow> rat option \<Rightarrow> rat \<Rightarrow> rat option \<Rightarrow> rat" where
  "tvlUsd reserveA priceA reserveB priceB =
     (let a = (case priceA of None \<Rightarrow> 0 | Some p \<Rightarrow> fl_add 0 (fl_mul reserveA p));
          t = (case priceB of None \<Rightarrow> a | Some p \<Rightarrow> fl_add a (fl_mul reserveB p))
      in if (priceA = None) \<noteq> (priceB = None) then fl_mul t 2 else t)"

definition aprPct :: "rat \<Rightarrow> rat \<Rightarrow> rat" where
  "aprPct fees24h tvl = (if tvl \<le> 0 then 0 else fl_mul (fl_div (fl_mul fees24h 365) tvl) 100)"

definition spotPrice :: "rat \<Rightarrow> rat \<Rightarrow> rat" where
  "spotPrice reserveA reserveB = (if 0 < reserveB then fl_div reserveA reserveB else 0)"

section \<open>The constant product\<close>

lemma sdiv_nonneg: "0 \<le> a \<Longrightarrow> 0 < b \<Longrightarrow> a sdiv b = a div (b :: int)"
  by (simp add: signed_divide_int_def sgn_if)

lemma div_times_le_int: "0 < c \<Longrightarrow> a div c * c \<le> (a :: int)"
  using minus_mod_eq_div_mult [of a c] pos_mod_sign [of c a] by linarith

lemma le_div_iff_int: "0 < c \<Longrightarrow> a \<le> b div c \<longleftrightarrow> a * c \<le> (b :: int)"
  by (metis div_times_le_int less_imp_le mult_right_mono order_trans zdiv_mono1 nonzero_mult_div_cancel_right less_irrefl)

text \<open>A fee between nothing and everything, as a whole number of basis points.\<close>

definition fee_ok :: "rat \<Rightarrow> bool" where
  "fee_ok feeBps = (0 \<le> js_round feeBps \<and> js_round feeBps \<le> BPS)"

lemma getAmountOut_div:
  assumes "0 < x" "0 < ri" "0 < ro" "fee_ok fee"
  shows "getAmountOut x ri ro fee =
    Some (x * (BPS - js_round fee) * ro div (ri * BPS + x * (BPS - js_round fee)))"
proof -
  have "0 \<le> x * (BPS - js_round fee)" using assms by (simp add: fee_ok_def)
  moreover from this have "0 < ri * BPS + x * (BPS - js_round fee)"
    using assms(2) by (simp add: BPS_def add_pos_nonneg)
  ultimately show ?thesis
    using assms(1-3) by (simp add: getAmountOut_def big_div_def sdiv_nonneg Let_def)
qed

text \<open>C32: A swap with a fee between 0 and 100 percent pays out a non-negative amount that is less than
  the reserve, and the product of the reserves does not fall.\<close>

theorem swap_keeps_product:
  assumes "0 < x" "0 < ri" "0 < ro" "fee_ok fee"
  shows "\<exists>y. getAmountOut x ri ro fee = Some y \<and> 0 \<le> y \<and> y < ro \<and> ri * ro \<le> (ri + x) * (ro - y)"
proof -
  define f where "f = BPS - js_round fee"
  define y where "y = x * f * ro div (ri * BPS + x * f)"
  have f: "0 \<le> f" "f \<le> BPS" using assms(4) by (simp_all add: f_def fee_ok_def)
  have xf: "0 \<le> x * f" using assms(1) f(1) by simp
  have d: "0 < ri * BPS + x * f" using assms(2) xf by (simp add: BPS_def add_pos_nonneg)
  have y0: "0 \<le> y" using xf assms(3) d by (simp add: y_def pos_imp_zdiv_nonneg_iff)
  have le: "y * (ri * BPS + x * f) \<le> x * f * ro"
    unfolding y_def using d by (rule div_times_le_int)
  have "y < ro"
  proof (rule ccontr)
    assume "\<not> y < ro"
    then have "ro * (ri * BPS + x * f) \<le> y * (ri * BPS + x * f)" using d by (simp add: mult_right_mono)
    with le have "ro * (ri * BPS) \<le> 0" by (simp add: algebra_simps)
    moreover have "0 < ro * (ri * BPS)" using assms(2,3) by (simp add: BPS_def)
    ultimately show False by linarith
  qed
  moreover have "ri * ro \<le> (ri + x) * (ro - y)"
  proof -
    have "y * ri * BPS \<le> x * f * (ro - y)" using le by (simp add: algebra_simps)
    also have "\<dots> \<le> x * BPS * (ro - y)"
      using f assms(1) \<open>y < ro\<close> by (intro mult_right_mono mult_left_mono) simp_all
    finally have "BPS * (y * ri) \<le> BPS * (x * (ro - y))" by (simp add: algebra_simps)
    then have "y * ri \<le> x * (ro - y)" by (simp add: BPS_def)
    then show ?thesis by (simp add: algebra_simps)
  qed
  ultimately show ?thesis
    using getAmountOut_div [OF assms] y0 by (simp add: f_def y_def)
qed

lemma swap_keeps_product_witness:
  "\<exists>y. getAmountOut 1000 50000 70000 30 = Some y \<and> 0 \<le> y \<and> y < 70000 \<and> 50000 * 70000 \<le> (50000 + 1000) * (70000 - y)"
  by (rule swap_keeps_product) (simp_all add: fee_ok_def js_round_def BPS_def)

text \<open>C33: The input that is computed for a wanted output is enough, and at most one unit more than the
  least input that is enough.\<close>

theorem amount_in_sufficient:
  assumes "0 < y" "y < ro" "0 < ri" "fee_ok fee" "js_round fee < BPS"
  shows "\<exists>x. getAmountIn y ri ro fee = Some x \<and> 0 < x \<and>
    (\<exists>y'. getAmountOut x ri ro fee = Some y' \<and> y \<le> y') \<and>
    (\<forall>z y'. 0 < z \<longrightarrow> getAmountOut z ri ro fee = Some y' \<longrightarrow> y \<le> y' \<longrightarrow> x \<le> z + 1)"
proof -
  define f where "f = BPS - js_round fee"
  define n where "n = ri * y * BPS"
  define d where "d = (ro - y) * f"
  define x where "x = n div d + 1"
  have f: "0 < f" using assms(5) by (simp add: f_def)
  have d: "0 < d" using assms(2) f by (simp add: d_def)
  have n: "0 < n" using assms(1,3) by (simp add: n_def BPS_def)
  have x: "0 < x" using n d by (simp add: x_def pos_imp_zdiv_nonneg_iff add_nonneg_pos)
  have ro: "0 < ro" using assms(1,2) by simp
  have i: "getAmountIn y ri ro fee = Some x"
    using assms(1-3) d n ro f
    by (simp add: getAmountIn_def big_div_def Let_def sdiv_nonneg x_def n_def [symmetric] d_def [symmetric] f_def [symmetric])
  have iff: "y \<le> z * f * ro div (ri * BPS + z * f) \<longleftrightarrow> n \<le> z * d" if "0 < z" for z
  proof -
    have "0 < ri * BPS + z * f" using that f assms(3) by (simp add: BPS_def add_pos_pos)
    then have "y \<le> z * f * ro div (ri * BPS + z * f) \<longleftrightarrow> y * (ri * BPS + z * f) \<le> z * f * ro"
      by (rule le_div_iff_int)
    also have "\<dots> \<longleftrightarrow> n \<le> z * d" by (auto simp: n_def d_def algebra_simps)
    finally show ?thesis .
  qed
  have "n < x * d"
    using d by (simp add: x_def distrib_right) (metis div_mod_decomp_int pos_mod_bound mult.commute add_strict_left_mono)
  then have "y \<le> x * f * ro div (ri * BPS + x * f)" using iff [OF x] by simp
  moreover have "x \<le> z + 1" if z: "0 < z" "n \<le> z * d" for z
  proof -
    have "n div d \<le> z * d div d" using z(2) d by (intro zdiv_mono1)
    then show ?thesis using d by (simp add: x_def)
  qed
  ultimately show ?thesis
    using i x iff by (auto simp: getAmountOut_div assms(3,4) ro f_def [symmetric])
qed

lemma amount_in_sufficient_witness:
  "\<exists>x. getAmountIn 500 50000 70000 30 = Some x \<and> 0 < x \<and> (\<exists>y'. getAmountOut x 50000 70000 30 = Some y' \<and> 500 \<le> y')"
proof -
  have "fee_ok 30" "js_round 30 < BPS" by (simp_all add: fee_ok_def js_round_def BPS_def)
  then show ?thesis using amount_in_sufficient [of 500 70000 50000 30] by auto
qed

text \<open>With a fee of everything the input for any output is a division by zero.\<close>

lemma full_fee_throws: "0 < y \<Longrightarrow> y < ro \<Longrightarrow> 0 < ri \<Longrightarrow> getAmountIn y ri ro 10000 = None"
  by (simp add: getAmountIn_def js_round_def BPS_def big_div_def floor_eq_iff)

text \<open>A pool of which one token has a price counts twice the priced side.\<close>

lemma tvl_one_price:
  "tvlUsd a (Some p) b None = fl_mul (fl_add 0 (fl_mul a p)) 2" "tvlUsd a None b (Some q) = fl_mul (fl_add 0 (fl_mul b q)) 2"
  "tvlUsd a None b None = 0"
  by (simp_all add: tvlUsd_def)

text \<open>An unchanged price means no loss.\<close>

lemma no_loss_at_entry: "impermanentLossPct 1 = 0"
proof -
  have "js_sqrt 1 = 1" using js_sqrt_square [of 1] by simp
  then show ?thesis using fl_round_nat [of 2] fl_round_nat [of 1] by (simp add: impermanentLossPct_def fl_mul_def fl_div_def fl_add_def fl_sub_def)
qed

end
