(* ===== verification/Dex_Pricing.thy ===== *)
theory Dex_Pricing
  imports Dex_Pools Pool_Math
begin

text \<open>
  \<open>src/indexer/dex/pricing.ts\<close> and the metrics of \<open>pool-processor.ts\<close>: token prices that are
  implied by the pools, the traded volume and the risk score. Doubles stay finite.
\<close>

section \<open>Prices\<close>

definition upper_char :: "char \<Rightarrow> char" where
  "upper_char c = (let n = (of_char c :: nat) in if 97 \<le> n \<and> n \<le> 122 then char_of (n - 32) else c)"

definition STABLE_SYMBOLS :: "string list" where
  "STABLE_SYMBOLS = [''USDC'', ''USDT'', ''DAI'', ''USDX'', ''USDD'', ''BUSD'', ''GUSD'', ''USD'', ''USDGLO'']"

definition isStableSymbol :: "string option \<Rightarrow> bool" where
  "isStableSymbol symbol = (case symbol of None \<Rightarrow> False | Some s \<Rightarrow> map upper_char s \<in> set STABLE_SYMBOLS)"

datatype price_source = Src_stable | Src_pool

record priced_token =
  pt_usd :: rat
  pt_source :: price_source
  pt_confidence :: rat

record pricing_pool =
  pp_tokenA :: string
  pp_tokenB :: string
  pp_symbolA :: "string option"
  pp_symbolB :: "string option"
  pp_reserveA :: rat
  pp_reserveB :: rat

datatype depth = Unlimited | Usd rat

record pricing_state =
  px_prices :: "(string, priced_token) jsmap"
  px_depth :: "(string, depth) jsmap"
  px_changed :: bool

definition stable_price :: priced_token where
  "stable_price = \<lparr>pt_usd = 1, pt_source = Src_stable, pt_confidence = 1\<rparr>"

definition seed_token :: "string option \<Rightarrow> string \<Rightarrow> pricing_state \<Rightarrow> pricing_state" where
  "seed_token symbol token st =
     (if isStableSymbol symbol \<and> \<not> jm_has (px_prices st) token then
        st\<lparr>px_prices := jm_set token stable_price (px_prices st), px_depth := jm_set token Unlimited (px_depth st)\<rparr>
      else st)"

definition seed_pool :: "pricing_pool \<Rightarrow> pricing_state \<Rightarrow> pricing_state" where
  "seed_pool p st = seed_token (pp_symbolB p) (pp_tokenB p) (seed_token (pp_symbolA p) (pp_tokenA p) st)"

text \<open>\<open>sideUsd > (refDepth.get(token) ?? 0)\<close>\<close>

definition deeper :: "rat \<Rightarrow> depth option \<Rightarrow> bool" where
  "deeper sideUsd d = (case d of None \<Rightarrow> 0 < sideUsd | Some Unlimited \<Rightarrow> False | Some (Usd x) \<Rightarrow> x < sideUsd)"

text \<open>The price of a token from the known price of the other side; \<open>old\<close> is the price that the token had
  when the pool was reached.\<close>

definition imply_price ::
  "priced_token option \<Rightarrow> rat \<Rightarrow> priced_token option \<Rightarrow> string \<Rightarrow> rat \<Rightarrow> pricing_state \<Rightarrow> pricing_state" where
  "imply_price known knownReserve old token reserve st =
     (case known of None \<Rightarrow> st
      | Some k \<Rightarrow>
          if (case old of None \<Rightarrow> True | Some v \<Rightarrow> pt_source v \<noteq> Src_stable) then
            (let sideUsd = fl_mul knownReserve (pt_usd k);
                 implied = fl_div sideUsd reserve
             in if deeper sideUsd (jm_get (px_depth st) token) then
                  st\<lparr>px_prices := jm_set token \<lparr>pt_usd = implied, pt_source = Src_pool,
                        pt_confidence = max (round_pos (1 / 10)) (fl_mul (pt_confidence k) (round_pos (9 / 10)))\<rparr> (px_prices st),
                     px_depth := jm_set token (Usd sideUsd) (px_depth st), px_changed := True\<rparr>
                else st)
          else st)"

definition price_pool :: "pricing_pool \<Rightarrow> pricing_state \<Rightarrow> pricing_state" where
  "price_pool p st =
     (if pp_reserveA p \<le> 0 \<or> pp_reserveB p \<le> 0 then st
      else
        (let a = jm_get (px_prices st) (pp_tokenA p); b = jm_get (px_prices st) (pp_tokenB p)
         in imply_price b (pp_reserveB p) a (pp_tokenA p) (pp_reserveA p)
              (imply_price a (pp_reserveA p) b (pp_tokenB p) (pp_reserveB p) st)))"

fun price_passes :: "nat \<Rightarrow> pricing_pool list \<Rightarrow> pricing_state \<Rightarrow> pricing_state" where
  "price_passes 0 pools st = st"
| "price_passes (Suc n) pools st =
     (let st' = fold price_pool pools (st\<lparr>px_changed := False\<rparr>)
      in if px_changed st' then price_passes n pools st' else st')"

definition no_prices :: pricing_state where
  "no_prices = \<lparr>px_prices = [], px_depth = [], px_changed = False\<rparr>"

definition deriveTokenPrices :: "pricing_pool list \<Rightarrow> (string, priced_token) jsmap" where
  "deriveTokenPrices pools = px_prices (price_passes 5 pools (fold seed_pool pools no_prices))"

section \<open>The registry\<close>

definition human :: "int option \<Rightarrow> nat option \<Rightarrow> rat" where
  "human reserve decimals =
     fl_div (fl_round (of_int (case reserve of None \<Rightarrow> 0 | Some r \<Rightarrow> r)))
            (fl_round (10 ^ (case decimals of None \<Rightarrow> 7 | Some d \<Rightarrow> d)))"

record pool_listing =
  pl_address :: "string option"
  pl_tokenA :: string
  pl_tokenB :: string
  pl_symbolA :: "string option"
  pl_symbolB :: "string option"
  pl_decimalsA :: "nat option"
  pl_decimalsB :: "nat option"
  pl_reserveA :: "int option"
  pl_reserveB :: "int option"

definition pricing_pool_of :: "pool_listing \<Rightarrow> pricing_pool" where
  "pricing_pool_of p =
     \<lparr>pp_tokenA = pl_tokenA p, pp_tokenB = pl_tokenB p, pp_symbolA = pl_symbolA p, pp_symbolB = pl_symbolB p,
      pp_reserveA = human (pl_reserveA p) (pl_decimalsA p), pp_reserveB = human (pl_reserveB p) (pl_decimalsB p)\<rparr>"

text \<open>The rows of \<open>TokenPrice\<close> after the upserts: prices that are no longer implied stay.\<close>

definition refreshTokenPrices ::
  "pool_listing list \<Rightarrow> (string, priced_token) jsmap \<Rightarrow> (string, priced_token) jsmap \<times> (string, priced_token) jsmap" where
  "refreshTokenPrices pools table =
     (let prices = deriveTokenPrices (map pricing_pool_of (filter (\<lambda>p. pl_address p \<noteq> None) pools))
      in (prices, fold (\<lambda>(t, v) tab. jm_set t v tab) prices table))"

text \<open>\<open>row?.priceUsd ? Number(row.priceUsd) : null\<close>: the column is a decimal object, which is never
  falsy.\<close>

definition getTokenPriceUsd :: "string \<Rightarrow> (string, priced_token) jsmap \<Rightarrow> rat option" where
  "getTokenPriceUsd tokenAddress table = map_option pt_usd (jm_get table tokenAddress)"

section \<open>Metrics of a pool\<close>

record swap_row =
  sw_close :: int
  sw_in :: string
  sw_amount :: int

text \<open>\<open>toHuman\<close> of \<open>pool-math.ts\<close> for a \<open>bigint\<close>.\<close>

definition toHuman :: "int \<Rightarrow> nat \<Rightarrow> rat" where
  "toHuman amount decimals =
     (let sg = (if amount < 0 then - 1 else 1); a = \<bar>amount\<bar>;
          divisor = fl_round (10 ^ decimals);
          whole = fl_round (of_int (a div 10 ^ min decimals 18))
      in if decimals \<le> 15 then fl_div (sg * fl_round (of_int a)) divisor else sg * whole)"

definition swap_value :: "string \<Rightarrow> nat \<Rightarrow> rat option \<Rightarrow> nat \<Rightarrow> rat option \<Rightarrow> swap_row \<Rightarrow> rat option" where
  "swap_value tokenA decA priceA decB priceB s =
     (let inIsA = (sw_in s = tokenA) in
      map_option (\<lambda>price. fl_mul (toHuman (sw_amount s) (if inIsA then decA else decB)) price)
        (if inIsA then priceA else priceB))"

definition sumVolumeUsd ::
  "swap_row list \<Rightarrow> int \<Rightarrow> string \<Rightarrow> nat \<Rightarrow> rat option \<Rightarrow> nat \<Rightarrow> rat option \<Rightarrow> rat" where
  "sumVolumeUsd swaps since tokenA decA priceA decB priceB =
     fold (\<lambda>s total. if sw_close s < since then total
            else (case swap_value tokenA decA priceA decB priceB s of None \<Rightarrow> total | Some v \<Rightarrow> fl_add total v))
       swaps 0"

definition ilRiskScore :: "rat \<Rightarrow> rat \<Rightarrow> rat \<Rightarrow> rat \<Rightarrow> int" where
  "ilRiskScore tvl volume24h valueA valueB =
     (if tvl \<le> 0 then 0
      else
        (let turnover = min 1 (fl_div volume24h tvl);
             balance = (if 0 < fl_add valueA valueB
               then fl_div \<bar>fl_sub valueA valueB\<bar> (fl_add valueA valueB) else 0);
             score = fl_add (fl_mul turnover 60) (fl_mul balance 40)
         in \<lfloor>max 0 (min 100 score) + 1 / 2\<rfloor>))"

record pool_metrics =
  pm_tvl :: rat
  pm_1h :: rat
  pm_24h :: rat
  pm_7d :: rat
  pm_30d :: rat
  pm_fees :: rat
  pm_apr :: rat
  pm_risk :: int

text \<open>The numbers that are stored for a pool at time \<open>now\<close>.\<close>

definition computePoolMetrics ::
  "string \<Rightarrow> int \<times> int \<Rightarrow> nat \<times> nat \<Rightarrow> rat \<Rightarrow> rat option \<Rightarrow> rat option \<Rightarrow> swap_row list \<Rightarrow> int \<Rightarrow> pool_metrics" where
  "computePoolMetrics tokenA reserves decimals feeBps priceA priceB stored now =
     (let reserveA = toHuman (fst reserves) (fst decimals);
          reserveB = toHuman (snd reserves) (snd decimals);
          tvl = tvlUsd reserveA priceA reserveB priceB;
          swaps = filter (\<lambda>s. now - 30 * 86400000 \<le> sw_close s) stored;
          vol = (\<lambda>w. sumVolumeUsd swaps (now - w) tokenA (fst decimals) priceA (snd decimals) priceB);
          volume24h = vol 86400000;
          fees24h = fl_div (fl_mul volume24h feeBps) 10000
      in \<lparr>pm_tvl = tvl, pm_1h = vol 3600000, pm_24h = volume24h, pm_7d = vol (7 * 86400000), pm_30d = vol (30 * 86400000),
          pm_fees = fees24h, pm_apr = aprPct fees24h tvl,
          pm_risk = ilRiskScore tvl volume24h
            (case priceA of None \<Rightarrow> 0 | Some p \<Rightarrow> fl_mul reserveA p) (case priceB of None \<Rightarrow> 0 | Some p \<Rightarrow> fl_mul reserveB p)\<rparr>)"

section \<open>Volumes and scores\<close>

lemma toHuman_nonneg: "0 \<le> n \<Longrightarrow> 0 \<le> toHuman n d"
  by (simp add: toHuman_def fl_div_def fl_round_nonneg Let_def pos_imp_zdiv_nonneg_iff)

text \<open>From sixteen decimals on only whole tokens are counted.\<close>

lemma toHuman_drops_fraction: "0 \<le> n \<Longrightarrow> n < 10 ^ 18 \<Longrightarrow> toHuman n 18 = 0"
  by (simp add: toHuman_def)

lemma ilRiskScore_bounds: "0 \<le> ilRiskScore t v a b \<and> ilRiskScore t v a b \<le> 100"
proof -
  have "\<lfloor>max 0 (min 100 s) + 1 / 2\<rfloor> \<le> 100" for s :: rat
    by (simp add: floor_le_iff max_def min_def)
  then show ?thesis by (simp add: ilRiskScore_def Let_def)
qed

definition add_swap :: "(swap_row \<Rightarrow> rat option) \<Rightarrow> int \<Rightarrow> swap_row \<Rightarrow> rat \<Rightarrow> rat" where
  "add_swap value since s t =
     (if sw_close s < since then t else case value s of None \<Rightarrow> t | Some v \<Rightarrow> fl_add t v)"

lemma sumVolumeUsd_fold:
  "sumVolumeUsd swaps since tokenA decA priceA decB priceB = fold (add_swap (swap_value tokenA decA priceA decB priceB) since) swaps 0"
  unfolding sumVolumeUsd_def add_swap_def by (simp add: fun_eq_iff)

lemma add_swap_mono:
  assumes "s1 \<le> s2" "a \<le> b" "fl_round b = b" "\<forall>v. value s = Some v \<longrightarrow> 0 \<le> v"
  shows "add_swap value s2 s a \<le> add_swap value s1 s b" "fl_round (add_swap value s1 s b) = add_swap value s1 s b"
  using assms fl_add_ge [of _ b] fl_add_mono [of a b]
  by (auto simp: add_swap_def fl_add_def split: option.splits intro: order_trans)

lemma volume_mono:
  assumes "s1 \<le> s2" "\<forall>s \<in> set swaps. \<forall>v. value s = Some v \<longrightarrow> 0 \<le> v" "a \<le> b" "fl_round b = b"
  shows "fold (add_swap value s2) swaps a \<le> fold (add_swap value s1) swaps b"
  using assms(2-4)
proof (induction swaps arbitrary: a b)
  case (Cons s swaps)
  have "\<forall>v. value s = Some v \<longrightarrow> 0 \<le> v" using Cons.prems(1) by simp
  note m = add_swap_mono [of s1 s2 a b "value" s, OF assms(1) Cons.prems(2,3) this]
  show ?case using Cons.IH [OF _ m] Cons.prems(1) by simp
qed simp

text \<open>The traded volume of a longer window is at least that of a shorter one, in spite of the rounding of
  every addition, and the risk score lies between 0 and 100.\<close>

theorem volume_windows_nested:
  fixes m :: pool_metrics
  assumes "m = computePoolMetrics tokenA reserves decimals fee priceA priceB stored now"
    "\<forall>s \<in> set stored. 0 \<le> sw_amount s" "\<forall>p. priceA = Some p \<longrightarrow> 0 \<le> p" "\<forall>p. priceB = Some p \<longrightarrow> 0 \<le> p"
  shows "0 \<le> pm_1h m \<and> pm_1h m \<le> pm_24h m \<and> pm_24h m \<le> pm_7d m \<and> pm_7d m \<le> pm_30d m \<and> pm_risk m \<in> {0..100}"
proof -
  define swaps where "swaps = filter (\<lambda>s. now - 30 * 86400000 \<le> sw_close s) stored"
  define val where "val = swap_value tokenA (fst decimals) priceA (snd decimals) priceB"
  have v: "\<forall>s \<in> set swaps. \<forall>v. val s = Some v \<longrightarrow> 0 \<le> v"
    using assms(2-4) by (auto simp: swaps_def val_def swap_value_def Let_def fl_mul_def fl_round_nonneg toHuman_nonneg
        split: if_splits)
  have mono: "fold (add_swap val (now - w1)) swaps 0 \<le> fold (add_swap val (now - w2)) swaps 0" if "w1 \<le> w2" for w1 w2
    using that by (intro volume_mono v) simp_all
  have "0 \<le> fold (add_swap val (now - 3600000)) swaps 0"
    using v by (induction swaps rule: rev_induct) (auto simp: add_swap_def fl_add_def fl_round_nonneg split: option.splits)
  then show ?thesis
    using mono [of 3600000 86400000] mono [of 86400000 "7 * 86400000"] mono [of "7 * 86400000" "30 * 86400000"] ilRiskScore_bounds
    by (simp add: assms(1) computePoolMetrics_def Let_def sumVolumeUsd_fold swaps_def val_def)
qed

section \<open>Prices come from stable tokens\<close>

definition stable_tokens :: "pricing_pool list \<Rightarrow> string set" where
  "stable_tokens pools =
     {t. \<exists>p \<in> set pools. (isStableSymbol (pp_symbolA p) \<and> t = pp_tokenA p) \<or> (isStableSymbol (pp_symbolB p) \<and> t = pp_tokenB p)}"

definition live :: "pricing_pool \<Rightarrow> bool" where
  "live p = (0 < pp_reserveA p \<and> 0 < pp_reserveB p)"

inductive stable_linked :: "pricing_pool list \<Rightarrow> string \<Rightarrow> bool" for pools where
  anchor: "t \<in> stable_tokens pools \<Longrightarrow> stable_linked pools t"
| from_a: "stable_linked pools (pp_tokenA p) \<Longrightarrow> p \<in> set pools \<Longrightarrow> live p \<Longrightarrow> stable_linked pools (pp_tokenB p)"
| from_b: "stable_linked pools (pp_tokenB p) \<Longrightarrow> p \<in> set pools \<Longrightarrow> live p \<Longrightarrow> stable_linked pools (pp_tokenA p)"

definition price_ok :: "pricing_pool list \<Rightarrow> string \<Rightarrow> priced_token \<Rightarrow> bool" where
  "price_ok pools t v =
     (stable_linked pools t \<and> round_pos (1 / 10) \<le> pt_confidence v \<and> pt_confidence v \<le> 1
      \<and> (pt_source v = Src_stable \<longrightarrow> t \<in> stable_tokens pools \<and> v = stable_price))"

definition prices_ok :: "pricing_pool list \<Rightarrow> pricing_state \<Rightarrow> bool" where
  "prices_ok pools st =
     ((\<forall>t \<in> stable_tokens pools. jm_get (px_prices st) t = Some stable_price)
      \<and> (\<forall>t v. jm_get (px_prices st) t = Some v \<longrightarrow> price_ok pools t v))"

lemma round_pos_1 [simp]: "round_pos 1 = 1"
  using round_pos_small [of 1] by simp

lemma decayed_confidence: "0 \<le> c \<Longrightarrow> c \<le> 1 \<Longrightarrow> max (round_pos (1 / 10)) (fl_mul c (round_pos (9 / 10))) \<le> 1"
proof -
  assume c: "0 \<le> c" "c \<le> 1"
  have r: "round_pos (9 / 10) \<le> 1" "round_pos (1 / 10) \<le> 1"
    using round_pos_mono [of "9 / 10" 1] round_pos_mono [of "1 / 10" 1] by simp_all
  then have "c * round_pos (9 / 10) \<le> 1" using c round_pos_nonneg [of "9 / 10"] mult_mono [of c 1 "round_pos (9 / 10)" 1] by simp
  then have "fl_mul c (round_pos (9 / 10)) \<le> 1" using fl_round_mono [of _ 1] by (fastforce simp: fl_mul_def fl_round_def)
  then show ?thesis using r by simp
qed

definition only_stable :: "pricing_pool list \<Rightarrow> pricing_state \<Rightarrow> bool" where
  "only_stable pools st = (\<forall>u v. jm_get (px_prices st) u = Some v \<longrightarrow> u \<in> stable_tokens pools \<and> v = stable_price)"

lemma seed_token_ok:
  "isStableSymbol s \<longrightarrow> t \<in> stable_tokens pools \<Longrightarrow> only_stable pools st \<Longrightarrow> only_stable pools (seed_token s t st)"
  by (auto simp: seed_token_def only_stable_def)

lemma seed_token_has: "isStableSymbol s \<Longrightarrow> jm_has (px_prices (seed_token s t st)) t"
  by (auto simp: seed_token_def jm_has_iff)

lemma seed_token_keeps: "jm_has (px_prices st) u \<Longrightarrow> jm_has (px_prices (seed_token s t st)) u"
  by (auto simp: seed_token_def jm_has_iff)

lemma seed_keeps: "jm_has (px_prices st) u \<Longrightarrow> jm_has (px_prices (fold seed_pool ps st)) u"
proof (induction ps arbitrary: st)
  case (Cons p ps)
  then have "jm_has (px_prices (seed_pool p st)) u" by (simp add: seed_pool_def seed_token_keeps)
  with Cons.IH show ?case by simp
qed simp

definition names_stable :: "pricing_pool \<Rightarrow> string \<Rightarrow> bool" where
  "names_stable p t = ((isStableSymbol (pp_symbolA p) \<and> t = pp_tokenA p) \<or> (isStableSymbol (pp_symbolB p) \<and> t = pp_tokenB p))"

lemma stable_tokens_names: "t \<in> stable_tokens pools \<longleftrightarrow> (\<exists>p \<in> set pools. names_stable p t)"
  by (simp add: stable_tokens_def names_stable_def)

lemma seed_pool_has: "names_stable p t \<Longrightarrow> jm_has (px_prices (seed_pool p st)) t"
  using seed_token_has seed_token_keeps by (auto simp: seed_pool_def names_stable_def)

lemma seeded: "p \<in> set ps \<Longrightarrow> names_stable p t \<Longrightarrow> jm_has (px_prices (fold seed_pool ps st)) t"
proof (induction ps arbitrary: st)
  case (Cons q ps)
  then show ?case using seed_keeps [OF seed_pool_has [of q t st]] by (cases "p = q") simp_all
qed simp

lemma seeds_stable: "set ps \<subseteq> set pools \<Longrightarrow> only_stable pools st \<Longrightarrow> only_stable pools (fold seed_pool ps st)"
proof (induction ps arbitrary: st)
  case (Cons p ps)
  have "isStableSymbol (pp_symbolA p) \<longrightarrow> pp_tokenA p \<in> stable_tokens pools"
    "isStableSymbol (pp_symbolB p) \<longrightarrow> pp_tokenB p \<in> stable_tokens pools"
    using Cons.prems(1) by (auto simp: stable_tokens_names names_stable_def)
  then have "only_stable pools (seed_pool p st)"
    unfolding seed_pool_def using Cons.prems(2) by (intro seed_token_ok) simp_all
  then show ?case using Cons.IH Cons.prems(1) by simp
qed simp

lemma seeds_ok: "prices_ok pools (fold seed_pool pools no_prices)"
proof -
  let ?st = "fold seed_pool pools no_prices"
  have "only_stable pools ?st" by (rule seeds_stable) (simp_all add: only_stable_def no_prices_def)
  then have s: "jm_get (px_prices ?st) u = Some v \<Longrightarrow> u \<in> stable_tokens pools \<and> v = stable_price" for u v
    by (simp add: only_stable_def)
  have "jm_get (px_prices ?st) t = Some stable_price" if "t \<in> stable_tokens pools" for t
  proof -
    have "jm_has (px_prices ?st) t" using that seeded by (auto simp: stable_tokens_names)
    then obtain v where "jm_get (px_prices ?st) t = Some v" by (auto simp: jm_has_iff)
    with s show ?thesis by blast
  qed
  moreover have "price_ok pools u v" if "jm_get (px_prices ?st) u = Some v" for u v
    using s [OF that] round_pos_mono [of "1 / 10" 1] by (simp add: price_ok_def stable_price_def anchor)
  ultimately show ?thesis by (simp add: prices_ok_def)
qed

lemma imply_ok:
  assumes "prices_ok pools st" "token \<in> stable_tokens pools \<longrightarrow> old = Some stable_price"
    "\<forall>k. known = Some k \<longrightarrow> stable_linked pools token \<and> round_pos (1 / 10) \<le> pt_confidence k \<and> pt_confidence k \<le> 1"
  shows "prices_ok pools (imply_price known r old token res st)"
proof (cases "imply_price known r old token res st = st")
  case False
  then obtain k where k: "known = Some k" by (auto simp: imply_price_def split: option.splits)
  have "token \<notin> stable_tokens pools"
    using False assms(2) by (auto simp: imply_price_def k stable_price_def split: option.splits)
  moreover have c: "0 \<le> pt_confidence k" using assms(3) k round_pos_nonneg [of "1 / 10"] by (auto intro: order_trans)
  ultimately show ?thesis
    using assms(1,3) k decayed_confidence [OF c]
    by (auto simp: imply_price_def prices_ok_def price_ok_def Let_def)
qed (use assms(1) in simp)

lemma price_pool_ok:
  assumes "prices_ok pools st" "p \<in> set pools"
  shows "prices_ok pools (price_pool p st)"
proof (cases "live p")
  case True
  let ?a = "jm_get (px_prices st) (pp_tokenA p)"
  let ?b = "jm_get (px_prices st) (pp_tokenB p)"
  have "stable_linked pools (pp_tokenB p) \<and> round_pos (1 / 10) \<le> pt_confidence k \<and> pt_confidence k \<le> 1" if "?a = Some k" for k
    using that assms True from_a by (auto simp: prices_ok_def price_ok_def)
  then have one: "prices_ok pools (imply_price ?a (pp_reserveA p) ?b (pp_tokenB p) (pp_reserveB p) st)"
    using assms(1) by (intro imply_ok) (auto simp: prices_ok_def)
  have "stable_linked pools (pp_tokenA p) \<and> round_pos (1 / 10) \<le> pt_confidence k \<and> pt_confidence k \<le> 1" if "?b = Some k" for k
    using that assms True from_b by (auto simp: prices_ok_def price_ok_def)
  then have "prices_ok pools (imply_price ?b (pp_reserveB p) ?a (pp_tokenA p) (pp_reserveA p)
      (imply_price ?a (pp_reserveA p) ?b (pp_tokenB p) (pp_reserveB p) st))"
    using assms(1) by (intro imply_ok [OF one]) (auto simp: prices_ok_def)
  then show ?thesis using True by (simp add: price_pool_def live_def Let_def)
next
  case False
  then show ?thesis using assms(1) by (auto simp: price_pool_def live_def)
qed

lemma fold_pools_ok: "set ps \<subseteq> set pools \<Longrightarrow> prices_ok pools st \<Longrightarrow> prices_ok pools (fold price_pool ps st)"
  by (induction ps arbitrary: st) (simp_all add: price_pool_ok)

lemma passes_ok: "prices_ok pools st \<Longrightarrow> prices_ok pools (price_passes n pools st)"
proof (induction n arbitrary: st)
  case (Suc n)
  have "prices_ok pools (fold price_pool pools (st\<lparr>px_changed := False\<rparr>))"
    using Suc.prems by (intro fold_pools_ok) (simp_all add: prices_ok_def)
  then show ?case using Suc.IH by (simp add: Let_def)
qed simp

text \<open>C21: The tokens with a stable symbol cost one dollar with full confidence, and no other token has a
  stable price. Every other price has a confidence between the least one and 1 and comes, through pools that
  hold both their tokens, from a stable token.\<close>

theorem prices_come_from_stable_tokens:
  "(t \<in> stable_tokens pools \<longrightarrow> jm_get (deriveTokenPrices pools) t = Some stable_price)
   \<and> (jm_get (deriveTokenPrices pools) t = Some v \<longrightarrow> price_ok pools t v)"
  using passes_ok [OF seeds_ok, of pools 5] by (simp add: deriveTokenPrices_def prices_ok_def)

section \<open>Concrete prices\<close>

definition pool_of :: "string \<Rightarrow> string \<Rightarrow> rat \<Rightarrow> rat \<Rightarrow> pricing_pool" where
  "pool_of a b x y = \<lparr>pp_tokenA = a, pp_tokenB = b, pp_symbolA = Some a, pp_symbolB = Some b,
     pp_reserveA = x, pp_reserveB = y\<rparr>"

lemma prices_come_from_stable_tokens_witness:
  "jm_get (deriveTokenPrices [pool_of ''AQUA'' ''USDC'' 1000 50]) ''USDC'' = Some stable_price"
proof -
  have "''USDC'' \<in> stable_tokens [pool_of ''AQUA'' ''USDC'' 1000 50]"
    by (simp add: stable_tokens_def pool_of_def isStableSymbol_def upper_char_def STABLE_SYMBOLS_def)
  then show ?thesis using prices_come_from_stable_tokens by blast
qed

definition one_swap :: swap_row where
  "one_swap = \<lparr>sw_close = 1000, sw_in = ''AQUA'', sw_amount = 5\<rparr>"

lemma volume_windows_nested_witness:
  "pm_1h (computePoolMetrics ''AQUA'' (10, 20) (7, 7) 30 (Some 2) None [one_swap] 2000)
    \<le> pm_24h (computePoolMetrics ''AQUA'' (10, 20) (7, 7) 30 (Some 2) None [one_swap] 2000)"
  using volume_windows_nested [OF refl, of "[one_swap]" "Some 2" None "''AQUA''" "(10, 20)" "(7, 7)" 30 2000]
  by (simp add: one_swap_def)

text \<open>A shallow pool says 10 dollars for \<open>A\<close>, a ten times deeper one 1 dollar. A pool of \<open>A\<close> and \<open>B\<close> that
  was valued at the shallow price gives \<open>A\<close> that price back, with the depth that this price makes of it.\<close>

definition shallow_first :: "pricing_pool list" where
  "shallow_first = [pool_of ''A'' ''USDC'' 1 10, pool_of ''A'' ''B'' 100 100, pool_of ''A'' ''USDC'' 100 100]"

lemma fl_numeral: "(numeral n :: nat) < 2 ^ 53 \<Longrightarrow> fl_round (numeral n) = numeral n"
  using fl_round_nat [of "numeral n"] by simp

lemma fl_one [simp]: "fl_round 1 = 1" by (simp add: fl_round_def)

lemma shallow_price_returns: "map_option pt_usd (jm_get (deriveTokenPrices shallow_first) ''A'') = Some 10"
proof -
  let ?seed = "fold seed_pool shallow_first no_prices"
  have fl: "fl_mul x y = fl_round (x * y)" "fl_div x y = fl_round (x / y)" for x y by (simp_all add: fl_mul_def fl_div_def)
  have seed: "?seed = \<lparr>px_prices = [(''USDC'', stable_price)], px_depth = [(''USDC'', Unlimited)], px_changed = False\<rparr>"
    by (simp add: shallow_first_def pool_of_def seed_pool_def seed_token_def isStableSymbol_def upper_char_def STABLE_SYMBOLS_def
        no_prices_def jm_has_def jm_set_def)
  have five: "5 = Suc (Suc (Suc (Suc (Suc 0))))" by simp
  show ?thesis
    unfolding deriveTokenPrices_def seed five
    by (simp add: Let_def shallow_first_def pool_of_def price_pool_def imply_price_def deeper_def fl fl_numeral
        stable_price_def jm_get_def jm_set_def)
qed

end
