(* ===== verification/Dex_Arbitrage.thy ===== *)
theory Dex_Arbitrage
  imports Dex_Pricing
begin

text \<open>
  \<open>src/indexer/dex/arbitrage.ts\<close>: search for two pools of a pair whose rates differ by more
  than their fees, and the reconciliation of the stored opportunities. Doubles stay finite; the table
  has the columns that the code writes.
\<close>

section \<open>The search\<close>

record arb_pool =
  ap_address :: string
  ap_key :: string
  ap_tokenA :: string
  ap_tokenB :: string
  ap_reserveA :: rat
  ap_reserveB :: rat
  ap_fee :: rat
  ap_quote :: "rat option"

record opportunity =
  op_key :: string
  op_tokenA :: string
  op_tokenB :: string
  op_buy :: string
  op_sell :: string
  op_buyRate :: rat
  op_sellRate :: rat
  op_spread :: rat
  op_profit :: rat
  op_trade :: rat

definition pairKeyOf :: "string \<Rightarrow> string \<Rightarrow> string" where
  "pairKeyOf t0 t1 = (if t0 \<le> t1 then t0 @ ''|'' @ t1 else t1 @ ''|'' @ t0)"

definition add_group :: "arb_pool \<Rightarrow> (string, arb_pool list) jsmap \<Rightarrow> (string, arb_pool list) jsmap" where
  "add_group p groups =
     (if ap_reserveA p \<le> 0 \<or> ap_reserveB p \<le> 0 then groups
      else jm_set (ap_key p) ((case jm_get groups (ap_key p) of None \<Rightarrow> [] | Some ps \<Rightarrow> ps) @ [p]) groups)"

definition rate :: "arb_pool \<Rightarrow> rat" where
  "rate p = fl_div (ap_reserveB p) (ap_reserveA p)"

text \<open>The first pool with the least rate and the first one with the greatest.\<close>

definition cheapest :: "arb_pool \<Rightarrow> arb_pool list \<Rightarrow> arb_pool" where
  "cheapest p ps = foldl (\<lambda>c r. if rate r < rate c then r else c) p ps"

definition dearest :: "arb_pool \<Rightarrow> arb_pool list \<Rightarrow> arb_pool" where
  "dearest p ps = foldl (\<lambda>d r. if rate d < rate r then r else d) p ps"

definition gross_spread :: "arb_pool \<Rightarrow> arb_pool \<Rightarrow> rat" where
  "gross_spread cheap dear = fl_div (fl_sub (rate dear) (rate cheap)) (rate cheap)"

definition net_edge :: "arb_pool \<Rightarrow> arb_pool \<Rightarrow> rat" where
  "net_edge cheap dear = fl_sub (gross_spread cheap dear) (fl_div (fl_add (ap_fee cheap) (ap_fee dear)) 10000)"

definition spread_pct :: "arb_pool \<Rightarrow> arb_pool \<Rightarrow> rat" where
  "spread_pct cheap dear = fl_mul (gross_spread cheap dear) 100"

definition opportunity_of :: "string \<Rightarrow> arb_pool \<Rightarrow> arb_pool \<Rightarrow> opportunity" where
  "opportunity_of k cheap dear =
     (let netEdge = net_edge cheap dear;
          boundFraction = min (round_pos (3 / 10)) netEdge;
          tradeQuote = fl_mul (min (ap_reserveB cheap) (ap_reserveB dear)) boundFraction;
          quotePriceUsd = (case ap_quote dear of Some q \<Rightarrow> Some q | None \<Rightarrow> ap_quote cheap);
          optimalTradeUsd = (case quotePriceUsd of Some q \<Rightarrow> fl_mul tradeQuote q | None \<Rightarrow> tradeQuote)
      in \<lparr>op_key = k, op_tokenA = ap_tokenA cheap, op_tokenB = ap_tokenB cheap, op_buy = ap_address cheap,
          op_sell = ap_address dear, op_buyRate = rate cheap, op_sellRate = rate dear, op_spread = spread_pct cheap dear,
          op_profit = fl_mul optimalTradeUsd netEdge, op_trade = optimalTradeUsd\<rparr>)"

definition group_opportunity :: "rat \<Rightarrow> string \<times> arb_pool list \<Rightarrow> opportunity option" where
  "group_opportunity minSpreadPct kg =
     (case snd kg of
        p # q # ps \<Rightarrow>
          (let cheap = cheapest p (q # ps); dear = dearest p (q # ps) in
           if ap_address cheap = ap_address dear then None
           else if rate cheap \<le> 0 then None
           else if spread_pct cheap dear < minSpreadPct \<or> net_edge cheap dear \<le> 0 then None
           else Some (opportunity_of (fst kg) cheap dear))
      | _ \<Rightarrow> None)"

text \<open>The sort is stable and descending by the estimated profit.\<close>

definition findArbitrageOpportunities :: "arb_pool list \<Rightarrow> rat option \<Rightarrow> opportunity list" where
  "findArbitrageOpportunities pools minSpread =
     (let minSpreadPct = (case minSpread of None \<Rightarrow> round_pos (3 / 10) | Some m \<Rightarrow> m);
          groups = fold add_group pools []
      in sort_key (\<lambda>o1. - op_profit o1) (List.map_filter (group_opportunity minSpreadPct) groups))"

section \<open>The stored opportunities\<close>

record opp_row =
  or_id :: nat
  or_open :: bool
  or_closed :: "int option"
  or_data :: opportunity

record arb_listing =
  al_address :: string
  al_tokenA :: string
  al_tokenB :: string
  al_decimals :: "nat \<times> nat"
  al_reserves :: "int \<times> int"
  al_fee :: rat
  al_quote :: "rat option"

definition arb_pool_of :: "arb_listing \<Rightarrow> arb_pool" where
  "arb_pool_of p =
     \<lparr>ap_address = al_address p, ap_key = pairKeyOf (al_tokenA p) (al_tokenB p), ap_tokenA = al_tokenA p, ap_tokenB = al_tokenB p,
      ap_reserveA = human (Some (fst (al_reserves p))) (Some (fst (al_decimals p))),
      ap_reserveB = human (Some (snd (al_reserves p))) (Some (snd (al_decimals p))),
      ap_fee = al_fee p, ap_quote = al_quote p\<rparr>"

definition close_dead :: "int \<Rightarrow> string list \<Rightarrow> opp_row list \<Rightarrow> opp_row list" where
  "close_dead now liveKeys rows =
     map (\<lambda>r. if or_open r \<and> op_key (or_data r) \<notin> set liveKeys then r\<lparr>or_open := False, or_closed := Some now\<rparr> else r) rows"

definition open_opportunity :: "string \<Rightarrow> opp_row list \<Rightarrow> opp_row option" where
  "open_opportunity k rows = List.find (\<lambda>r. op_key (or_data r) = k \<and> or_open r) rows"

text \<open>An identifier that is not used yet stands for the one that the database makes.\<close>

definition fresh_id :: "opp_row list \<Rightarrow> nat" where
  "fresh_id rows = Suc (foldl max 0 (map or_id rows))"

definition upsert_opportunity :: "opportunity \<Rightarrow> opp_row list \<Rightarrow> opp_row list" where
  "upsert_opportunity o1 rows =
     (case open_opportunity (op_key o1) rows of
        Some r \<Rightarrow> tbl_update or_id (or_id r) (\<lambda>x. x\<lparr>or_data := o1, or_open := True\<rparr>) rows
      | None \<Rightarrow> rows @ [\<lparr>or_id = fresh_id rows, or_open = True, or_closed = None, or_data = o1\<rparr>])"

definition scanArbitrage :: "int \<Rightarrow> arb_listing list \<Rightarrow> rat option \<Rightarrow> opp_row list \<Rightarrow> opportunity list \<times> opp_row list" where
  "scanArbitrage now pools minSpread rows =
     (let opportunities = findArbitrageOpportunities (map arb_pool_of pools) minSpread;
          liveKeys = js_set_of (map op_key opportunities)
      in (opportunities, fold upsert_opportunity opportunities (close_dead now liveKeys rows)))"

section \<open>Groups and extreme pools\<close>

definition traded :: "string \<Rightarrow> arb_pool \<Rightarrow> bool" where
  "traded k p = (ap_key p = k \<and> 0 < ap_reserveA p \<and> 0 < ap_reserveB p)"

lemma add_group_get:
  "jm_get (add_group p g) k =
    (if traded k p then Some ((case jm_get g k of None \<Rightarrow> [] | Some ps \<Rightarrow> ps) @ [p]) else jm_get g k)"
  by (auto simp: add_group_def traded_def)

lemma groups_get:
  "jm_get (fold add_group pools g) k =
    (if filter (traded k) pools = [] then jm_get g k
     else Some ((case jm_get g k of None \<Rightarrow> [] | Some ps \<Rightarrow> ps) @ filter (traded k) pools))"
  by (induction pools arbitrary: g) (auto simp: add_group_get)

lemma groups_ok: "jm_ok g \<Longrightarrow> jm_ok (fold add_group pools g)"
  by (induction pools arbitrary: g) (simp_all add: add_group_def)

lemma group_members:
  assumes "(k, ps) \<in> set (fold add_group pools [])"
  shows "ps = filter (traded k) pools" "ps \<noteq> []"
  using jm_ok_get_eq [OF groups_ok assms] by (auto simp: groups_get split: if_splits)

lemma cheapest_in: "cheapest p ps \<in> set (p # ps)"
  by (induction ps arbitrary: p) (auto simp: cheapest_def split: if_splits)

lemma dearest_in: "dearest p ps \<in> set (p # ps)"
  by (induction ps arbitrary: p) (auto simp: dearest_def split: if_splits)

lemma cheapest_least: "r \<in> set (p # ps) \<Longrightarrow> rate (cheapest p ps) \<le> rate r"
proof (induction ps arbitrary: p r)
  case (Cons q ps)
  let ?c = "if rate q < rate p then q else p"
  have "cheapest p (q # ps) = cheapest ?c ps" by (simp add: cheapest_def)
  moreover have "rate ?c \<le> rate p" "rate ?c \<le> rate q" by auto
  moreover have "rate (cheapest ?c ps) \<le> rate ?c" using Cons.IH [of ?c ?c] by simp
  ultimately show ?case using Cons.IH [of r ?c] Cons.prems by (auto intro: order_trans)
qed (simp add: cheapest_def)

lemma dearest_greatest: "r \<in> set (p # ps) \<Longrightarrow> rate r \<le> rate (dearest p ps)"
proof (induction ps arbitrary: p r)
  case (Cons q ps)
  let ?c = "if rate p < rate q then q else p"
  have "dearest p (q # ps) = dearest ?c ps" by (simp add: dearest_def)
  moreover have "rate p \<le> rate ?c" "rate q \<le> rate ?c" by auto
  moreover have "rate ?c \<le> rate (dearest ?c ps)" using Cons.IH [of ?c ?c] by simp
  ultimately show ?case using Cons.IH [of r ?c] Cons.prems by (auto intro: order_trans)
qed (simp add: dearest_def)

lemma all_equal_first:
  assumes "\<forall>r \<in> set ps. rate r = rate p" shows "cheapest p ps = p" "dearest p ps = p"
  using assms by (induction ps) (simp_all add: cheapest_def dearest_def)

text \<open>The chosen pools differ in rate unless they are the same pool.\<close>

lemma extremes_differ:
  assumes "cheapest p ps \<noteq> dearest p ps" shows "rate (cheapest p ps) < rate (dearest p ps)"
proof (rule ccontr)
  assume "\<not> rate (cheapest p ps) < rate (dearest p ps)"
  then have "rate r = rate (cheapest p ps)" if "r \<in> set (p # ps)" for r
    using cheapest_least [OF that] dearest_greatest [OF that] by linarith
  then have "rate r = rate p" if "r \<in> set ps" for r using that by simp
  then show False using assms all_equal_first by metis
qed

lemma in_map_filter: "y \<in> set (List.map_filter f xs) \<longleftrightarrow> (\<exists>x \<in> set xs. f x = Some y)"
  by (induction xs) (auto simp: map_filter_simps split: option.splits)

lemma find_opportunities:
  "o1 \<in> set (findArbitrageOpportunities pools minSpread) \<longleftrightarrow>
    (\<exists>g \<in> set (fold add_group pools []).
       group_opportunity (case minSpread of None \<Rightarrow> round_pos (3 / 10) | Some m \<Rightarrow> m) g = Some o1)"
  by (simp add: findArbitrageOpportunities_def Let_def in_map_filter)

lemma group_opportunity_key: "group_opportunity m kg = Some o1 \<Longrightarrow> op_key o1 = fst kg"
  by (auto simp: group_opportunity_def opportunity_of_def Let_def split: list.splits if_splits)

lemma distinct_keys: "distinct (map op_key (findArbitrageOpportunities pools minSpread))"
proof -
  let ?g = "fold add_group pools []"
  let ?m = "case minSpread of None \<Rightarrow> round_pos (3 / 10) | Some m \<Rightarrow> m"
  have "distinct (map op_key (List.map_filter (group_opportunity ?m) g))" if "jm_ok g" for g
    using that
  proof (induction g)
    case (Cons kg g)
    have "op_key ` set (List.map_filter (group_opportunity ?m) g) \<subseteq> fst ` set g"
      using group_opportunity_key by (force simp: map_filter_def)
    then show ?case
      using Cons group_opportunity_key [of ?m kg] by (auto simp: jm_ok_def map_filter_simps split: option.splits)
  qed (simp add: map_filter_simps)
  moreover have "jm_ok ?g" by (rule groups_ok) simp
  ultimately have "distinct (map op_key (List.map_filter (group_opportunity ?m) ?g))" by blast
  then show ?thesis
    by (simp add: findArbitrageOpportunities_def Let_def distinct_map inj_on_def)
qed

section \<open>What the search finds\<close>

definition least_spread :: "rat option \<Rightarrow> rat" where
  "least_spread minSpread = (case minSpread of None \<Rightarrow> round_pos (3 / 10) | Some m \<Rightarrow> m)"

definition sound_opportunity :: "arb_pool list \<Rightarrow> rat option \<Rightarrow> opportunity \<Rightarrow> bool" where
  "sound_opportunity pools minSpread o1 =
     (\<exists>cheap \<in> set pools. \<exists>dear \<in> set pools. traded (op_key o1) cheap \<and> traded (op_key o1) dear
        \<and> ap_address cheap \<noteq> ap_address dear \<and> 0 < rate cheap \<and> rate cheap < rate dear \<and> 0 < net_edge cheap dear
        \<and> least_spread minSpread \<le> op_spread o1 \<and> o1 = opportunity_of (op_key o1) cheap dear)"

lemma opportunity_sound:
  assumes "o1 \<in> set (findArbitrageOpportunities pools minSpread)" shows "sound_opportunity pools minSpread o1"
proof -
  let ?m = "case minSpread of None \<Rightarrow> round_pos (3 / 10) | Some m \<Rightarrow> m"
  obtain k ps where g: "(k, ps) \<in> set (fold add_group pools [])" "group_opportunity ?m (k, ps) = Some o1"
    using assms by (auto simp: find_opportunities)
  obtain p q rest where ps: "ps = p # q # rest"
    using g(2) by (auto simp: group_opportunity_def split: list.splits)
  let ?c = "cheapest p (q # rest)" and ?d = "dearest p (q # rest)"
  have o1: "o1 = opportunity_of k ?c ?d" "ap_address ?c \<noteq> ap_address ?d" "0 < rate ?c" "?m \<le> spread_pct ?c ?d" "0 < net_edge ?c ?d"
    using g(2) by (auto simp: ps group_opportunity_def Let_def not_less not_le split: if_splits)
  have k: "op_key o1 = k" "op_spread o1 = spread_pct ?c ?d" using o1(1) by (simp_all add: opportunity_of_def Let_def)
  have "?c \<in> set ps" "?d \<in> set ps" unfolding ps by (rule cheapest_in, rule dearest_in)
  then have "?c \<in> set pools" "traded k ?c" "?d \<in> set pools" "traded k ?d"
    using group_members(1) [OF g(1)] by auto
  moreover have "rate ?c < rate ?d" using o1(2) by (intro extremes_differ) metis
  ultimately show ?thesis
    unfolding sound_opportunity_def least_spread_def using o1 k by metis
qed

text \<open>Every opportunity is made of two different pools of its pair, the cheaper one first, whose spread
  reaches the threshold and is more than their fees. There is at most one for a pair, and they come in
  descending order of the estimated profit.\<close>

theorem opportunities_are_sound:
  "list_all (sound_opportunity pools minSpread) (findArbitrageOpportunities pools minSpread)
   \<and> distinct (map op_key (findArbitrageOpportunities pools minSpread))
   \<and> sorted (map (\<lambda>o1. - op_profit o1) (findArbitrageOpportunities pools minSpread))"
  using opportunity_sound distinct_keys by (simp add: list_all_iff findArbitrageOpportunities_def Let_def)

lemma spread_grows:
  assumes "0 < rate c" "rate c \<le> rate p" "rate q \<le> rate d" "rate c \<le> rate d"
  shows "gross_spread p q \<le> gross_spread c d"
proof -
  have s: "fl_sub (rate q) (rate p) \<le> fl_sub (rate d) (rate c)"
    using assms(2,3) by (simp add: fl_sub_def fl_round_mono)
  have "0 \<le> fl_sub (rate d) (rate c)" using assms(4) by (simp add: fl_sub_def fl_round_nonneg)
  then have "fl_sub (rate d) (rate c) / rate p \<le> fl_sub (rate d) (rate c) / rate c"
    using assms(1,2) by (simp add: divide_left_mono)
  then have "fl_sub (rate q) (rate p) / rate p \<le> fl_sub (rate d) (rate c) / rate c"
    using divide_right_mono [OF s, of "rate p"] assms(1,2) by linarith
  then show ?thesis by (simp add: gross_spread_def fl_div_def fl_round_mono)
qed

text \<open>When all pools of a pair take the same fee, no pair of pools whose spread is more than the fees and
  reaches the threshold is overlooked: the pair is reported, with at least that spread.\<close>

theorem equal_fees_nothing_missed:
  assumes pq: "p \<in> set pools" "q \<in> set pools" "traded k p" "traded k q"
    and fees: "\<forall>r \<in> set pools. ap_fee r = f" "0 \<le> f"
    and rates: "\<forall>r \<in> set pools. traded k r \<longrightarrow> 0 < rate r"
    and edge: "least_spread minSpread \<le> spread_pct p q" "0 < net_edge p q"
    and addr: "distinct (map ap_address pools)"
  shows "\<exists>o1 \<in> set (findArbitrageOpportunities pools minSpread). op_key o1 = k \<and> spread_pct p q \<le> op_spread o1"
proof -
  let ?m = "case minSpread of None \<Rightarrow> round_pos (3 / 10) | Some m \<Rightarrow> m"
  let ?ps = "filter (traded k) pools"
  have in_ps: "p \<in> set ?ps" "q \<in> set ?ps" using pq by simp_all
  have feeq: "fl_div (fl_add f f) 10000 \<ge> 0" using fees(2) by (simp add: fl_div_def fl_add_def fl_round_nonneg)
  have "rate p \<noteq> rate q"
    using edge(2) feeq fl_round_mono [of "- fl_div (fl_add f f) 10000" 0] fees(1) pq(1,2)
    by (auto simp: net_edge_def gross_spread_def fl_sub_def fl_div_def)
  then have "p \<noteq> q" by auto
  then obtain a b rest where ps: "?ps = a # b # rest" using in_ps by (cases ?ps rule: remdups_adj.cases) auto
  let ?c = "cheapest a (b # rest)" and ?d = "dearest a (b # rest)"
  have mem: "?c \<in> set ?ps" "?d \<in> set ?ps" unfolding ps by (rule cheapest_in, rule dearest_in)
  have r: "rate ?c \<le> rate p" "rate q \<le> rate ?d" "rate ?c \<le> rate ?d"
    using in_ps mem(2) unfolding ps by (auto intro: cheapest_least dearest_greatest)
  have pos: "0 < rate ?c" using mem(1) rates by simp
  have g: "gross_spread p q \<le> gross_spread ?c ?d" by (rule spread_grows [OF pos r])
  have n: "0 < net_edge ?c ?d"
  proof -
    have "net_edge p q \<le> net_edge ?c ?d"
      using g fees(1) pq(1,2) mem by (auto simp: net_edge_def fl_sub_def fl_round_mono)
    then show ?thesis using edge(2) by simp
  qed
  have s: "spread_pct p q \<le> spread_pct ?c ?d" using g by (simp add: spread_pct_def fl_mul_def fl_round_mono)
  have "?c \<noteq> ?d"
    using n feeq fl_round_mono [of "- fl_div (fl_add f f) 10000" 0] fees(1) mem
    by (auto simp: net_edge_def gross_spread_def fl_sub_def fl_div_def)
  then have "ap_address ?c \<noteq> ap_address ?d" using addr mem by (auto simp: distinct_map inj_on_def)
  then have o1: "group_opportunity ?m (k, ?ps) = Some (opportunity_of k ?c ?d)"
    using pos n s edge(1) unfolding ps by (simp add: group_opportunity_def least_spread_def Let_def)
  have "jm_get (fold add_group pools []) k = Some ?ps" using in_ps by (auto simp: groups_get filter_empty_conv)
  then have "(k, ?ps) \<in> set (fold add_group pools [])" by (rule jm_get_in_set)
  then have "opportunity_of k ?c ?d \<in> set (findArbitrageOpportunities pools minSpread)"
    using o1 by (auto simp: find_opportunities)
  then show ?thesis using s by (force simp: opportunity_of_def Let_def)
qed

section \<open>Concrete pools\<close>

definition demo_pool :: "string \<Rightarrow> rat \<Rightarrow> rat \<Rightarrow> arb_pool" where
  "demo_pool a y fee = \<lparr>ap_address = a, ap_key = ''A|B'', ap_tokenA = ''A'', ap_tokenB = ''B'', ap_reserveA = 1, ap_reserveB = y,
     ap_fee = fee, ap_quote = None\<rparr>"

lemma demo_pool_fields:
  "ap_address (demo_pool a y f) = a" "ap_fee (demo_pool a y f) = f" "traded k (demo_pool a y f) \<longleftrightarrow> k = ''A|B'' \<and> 0 < y"
  by (auto simp: demo_pool_def traded_def)

lemma fl_parts:
  "fl_round (1 / 64) = 1 / 64" "fl_round (1 / 32) = 1 / 32" "fl_round (25 / 16) = 25 / 16" "fl_round (25 / 8) = 25 / 8"
  using round_pos_multiple [of 1 "-6"] round_pos_multiple [of 1 "-5"] round_pos_multiple [of 25 "-4"] round_pos_multiple [of 25 "-3"]
  by (simp_all add: fl_round_def pow2_def)

lemma demo_rate: "numeral n < (2 ^ 53 :: nat) \<Longrightarrow> rate (demo_pool a (numeral n) fee) = numeral n"
  by (simp add: rate_def demo_pool_def fl_div_def fl_numeral)

lemma demo_spread:
  "gross_spread (demo_pool a 64 f) (demo_pool b 65 g) = 1 / 64" "gross_spread (demo_pool a 64 f) (demo_pool b 66 g) = 1 / 32"
  by (simp_all add: gross_spread_def demo_rate fl_sub_def fl_div_def fl_numeral fl_parts)

lemma least_small: "round_pos (3 / 10) \<le> 1"
  using round_pos_mono [of "3 / 10" 1] by simp

lemma demo_free: "net_edge (demo_pool a 64 0) (demo_pool b 65 0) = 1 / 64" "spread_pct (demo_pool a 64 f) (demo_pool b 65 g) = 25 / 16"
proof -
  have "ap_fee (demo_pool x y 0) = 0" for x y by (simp add: demo_pool_def)
  then show "net_edge (demo_pool a 64 0) (demo_pool b 65 0) = 1 / 64"
    by (simp add: net_edge_def demo_spread fl_sub_def fl_div_def fl_add_def fl_parts)
  show "spread_pct (demo_pool a 64 f) (demo_pool b 65 g) = 25 / 16"
    by (simp add: spread_pct_def demo_spread fl_mul_def fl_parts)
qed

lemma equal_fees_nothing_missed_witness:
  "\<exists>o1 \<in> set (findArbitrageOpportunities [demo_pool ''P'' 64 0, demo_pool ''Q'' 65 0] None).
     op_key o1 = ''A|B'' \<and> spread_pct (demo_pool ''P'' 64 0) (demo_pool ''Q'' 65 0) \<le> op_spread o1"
  by (rule equal_fees_nothing_missed [where f = 0])
    (use least_small in \<open>simp_all add: demo_free least_spread_def demo_rate demo_pool_fields\<close>)

text \<open>Only the two extreme pools of a pair are compared: a third pool with a high fee hides the opportunity that
  is there without it.\<close>

lemma extreme_pool_hides:
  "findArbitrageOpportunities [demo_pool ''P'' 64 0, demo_pool ''Q'' 65 0, demo_pool ''R'' 66 400] None = []"
proof -
  let ?p = "demo_pool ''P'' 64 0" and ?q = "demo_pool ''Q'' 65 0" and ?r = "demo_pool ''R'' 66 400"
  have g: "fold add_group [?p, ?q, ?r] [] = [(''A|B'', [?p, ?q, ?r])]"
    by (simp add: add_group_def demo_pool_def jm_get_def jm_set_def)
  have "cheapest ?p [?q, ?r] = ?p" "dearest ?p [?q, ?r] = ?r"
    by (simp_all add: cheapest_def dearest_def demo_rate)
  moreover have "net_edge ?p ?r \<le> 0"
  proof -
    have "fl_round (1 / 32) \<le> fl_round (4 / 100)" by (rule fl_round_mono) simp
    moreover have "fl_add (ap_fee ?p) (ap_fee ?r) = 400"
      by (simp add: demo_pool_def fl_add_def fl_numeral)
    ultimately show ?thesis
      using fl_round_mono [of "1 / 32 - fl_round (4 / 100)" 0]
      by (simp add: net_edge_def demo_spread fl_sub_def fl_div_def fl_parts)
  qed
  ultimately have "group_opportunity m (''A|B'', [?p, ?q, ?r]) = None" for m
    by (simp add: group_opportunity_def Let_def)
  then show ?thesis unfolding findArbitrageOpportunities_def g Let_def by (simp add: map_filter_simps)
qed

section \<open>The stored opportunities follow the search\<close>

definition open_keys :: "opp_row list \<Rightarrow> string list" where
  "open_keys rows = map (\<lambda>r. op_key (or_data r)) (filter or_open rows)"

text \<open>Identifiers are unique and a pair has at most one open row.\<close>

definition opp_rows_ok :: "opp_row list \<Rightarrow> bool" where
  "opp_rows_ok rows = (distinct (map or_id rows) \<and> distinct (open_keys rows))"

definition shows_opportunity :: "opportunity \<Rightarrow> opp_row list \<Rightarrow> bool" where
  "shows_opportunity o1 rows = (\<exists>r \<in> set rows. or_open r \<and> or_data r = o1)"

lemma open_keys_close: "open_keys (close_dead now ks rows) = filter (\<lambda>k. k \<in> set ks) (open_keys rows)"
  by (induction rows) (auto simp: open_keys_def close_dead_def)

lemma ids_close: "map or_id (close_dead now ks rows) = map or_id rows"
  by (simp add: close_dead_def)

lemma foldl_max_ge: "a \<le> foldl max (a :: nat) xs"
proof (induction xs arbitrary: a)
  case (Cons y ys)
  from Cons [of "max a y"] show ?case by simp
qed simp

lemma foldl_max_in: "x \<in> set xs \<Longrightarrow> x \<le> foldl max (a :: nat) xs"
proof (induction xs arbitrary: a)
  case (Cons y ys)
  then show ?case using foldl_max_ge [of "max a y" ys] by (cases "x = y") simp_all
qed simp

lemma fresh_id_new: "fresh_id rows \<notin> or_id ` set rows"
proof
  assume "fresh_id rows \<in> or_id ` set rows"
  then have "fresh_id rows \<le> foldl max 0 (map or_id rows)" by (intro foldl_max_in) simp
  then show False by (simp add: fresh_id_def)
qed

lemma open_opportunity_Some:
  "open_opportunity k rows = Some r \<Longrightarrow> r \<in> set rows \<and> or_open r \<and> op_key (or_data r) = k"
  unfolding open_opportunity_def by (auto simp: find_Some_iff)

lemma open_opportunity_None: "open_opportunity k rows = None \<longleftrightarrow> k \<notin> set (open_keys rows)"
  by (auto simp: open_opportunity_def open_keys_def find_None_iff)

text \<open>The update of a row, as a map that keeps identifiers and keys.\<close>

lemma update_open_keys:
  assumes "distinct (map or_id rows)" "open_opportunity (op_key o1) rows = Some r"
  shows "open_keys (tbl_update or_id (or_id r) (\<lambda>x. x\<lparr>or_data := o1, or_open := True\<rparr>) rows) = open_keys rows"
proof -
  have r: "r \<in> set rows" "or_open r" "op_key (or_data r) = op_key o1" using open_opportunity_Some [OF assms(2)] by auto
  have "x = r" if "x \<in> set rows" "or_id x = or_id r" for x
    using assms(1) that r(1) by (auto simp: distinct_map inj_on_def)
  then have k: "x \<in> set rows \<Longrightarrow> or_id x = or_id r \<Longrightarrow> or_open x \<and> op_key (or_data x) = op_key o1" for x
    using r(2,3) by blast
  have "open_keys (tbl_update or_id (or_id r) (\<lambda>x. x\<lparr>or_data := o1, or_open := True\<rparr>) xs) = open_keys xs"
    if "set xs \<subseteq> set rows" for xs
    using that k by (induction xs) (auto simp: tbl_update_def open_keys_def)
  then show ?thesis by simp
qed

lemma upsert_ok:
  assumes "opp_rows_ok rows"
  shows "opp_rows_ok (upsert_opportunity o1 rows)"
    "set (open_keys (upsert_opportunity o1 rows)) = insert (op_key o1) (set (open_keys rows))"
proof -
  have "opp_rows_ok (upsert_opportunity o1 rows)
      \<and> set (open_keys (upsert_opportunity o1 rows)) = insert (op_key o1) (set (open_keys rows))"
  proof (cases "open_opportunity (op_key o1) rows")
    case None
    then have "op_key o1 \<notin> set (open_keys rows)" by (simp add: open_opportunity_None)
    then show ?thesis
      using assms fresh_id_new [of rows] by (simp add: upsert_opportunity_def None opp_rows_ok_def open_keys_def)
  next
    case (Some r)
    then have "op_key o1 \<in> set (open_keys rows)" using open_opportunity_None by (metis option.distinct(1))
    then show ?thesis
      using assms update_open_keys [OF _ Some]
      by (auto simp: upsert_opportunity_def Some opp_rows_ok_def tbl_update_keys)
  qed
  then show "opp_rows_ok (upsert_opportunity o1 rows)"
    "set (open_keys (upsert_opportunity o1 rows)) = insert (op_key o1) (set (open_keys rows))" by simp_all
qed

lemma upsert_shows:
  assumes "distinct (map or_id rows)"
  shows "shows_opportunity o1 (upsert_opportunity o1 rows)"
    "shows_opportunity o2 rows \<Longrightarrow> op_key o2 \<noteq> op_key o1 \<Longrightarrow> shows_opportunity o2 (upsert_opportunity o1 rows)"
proof -
  show "shows_opportunity o1 (upsert_opportunity o1 rows)"
  proof (cases "open_opportunity (op_key o1) rows")
    case (Some r)
    have "r\<lparr>or_data := o1, or_open := True\<rparr> \<in> set (upsert_opportunity o1 rows)"
      using open_opportunity_Some [OF Some] by (auto simp: upsert_opportunity_def Some tbl_update_def)
    then show ?thesis by (force simp: shows_opportunity_def)
  qed (simp add: upsert_opportunity_def shows_opportunity_def)
  assume o2: "shows_opportunity o2 rows" "op_key o2 \<noteq> op_key o1"
  then obtain x where x: "x \<in> set rows" "or_open x" "or_data x = o2" by (auto simp: shows_opportunity_def)
  have "or_id x \<noteq> or_id r" if "open_opportunity (op_key o1) rows = Some r" for r
    using open_opportunity_Some [OF that] x o2(2) assms by (auto simp: distinct_map inj_on_def)
  then show "shows_opportunity o2 (upsert_opportunity o1 rows)"
    using x by (auto simp: upsert_opportunity_def shows_opportunity_def tbl_update_def split: option.splits)
qed

lemma upserts_ok:
  assumes "opp_rows_ok rows" "distinct (map op_key opps)"
  shows "opp_rows_ok (fold upsert_opportunity opps rows)
    \<and> set (open_keys (fold upsert_opportunity opps rows)) = op_key ` set opps \<union> set (open_keys rows)
    \<and> (\<forall>o1 \<in> set opps. shows_opportunity o1 (fold upsert_opportunity opps rows))
    \<and> (\<forall>o2. shows_opportunity o2 rows \<longrightarrow> op_key o2 \<notin> op_key ` set opps \<longrightarrow> shows_opportunity o2 (fold upsert_opportunity opps rows))"
  using assms
proof (induction opps arbitrary: rows)
  case (Cons o1 opps)
  have d: "distinct (map or_id rows)" using Cons.prems(1) by (simp add: opp_rows_ok_def)
  have "shows_opportunity o1 (upsert_opportunity o1 rows)" by (rule upsert_shows(1) [OF d])
  moreover have "op_key o1 \<notin> op_key ` set opps" using Cons.prems(2) by simp
  ultimately show ?case
    using Cons.IH [OF upsert_ok(1) [OF Cons.prems(1)], of o1] upsert_ok(2) [OF Cons.prems(1), of o1] Cons.prems(2) upsert_shows(2) [OF d]
    by auto
qed simp


definition stale_row :: opp_row where
  "stale_row = \<lparr>or_id = 4, or_open = True, or_closed = None,
     or_data = opportunity_of ''A|B'' (demo_pool ''P'' 64 0) (demo_pool ''Q'' 65 0)\<rparr>"

definition demo_listing :: "string \<Rightarrow> int \<Rightarrow> arb_listing" where
  "demo_listing a y = \<lparr>al_address = a, al_tokenA = ''A'', al_tokenB = ''C'', al_decimals = (0, 0), al_reserves = (1, y), al_fee = 0,
     al_quote = None\<rparr>"


end
