(* ===== verification/Sandwich_Detector.thy ===== *)
theory Sandwich_Detector
  imports Dex_Pricing
begin

text \<open>
  \<open>src/indexer/sandwich-detector.ts\<close>: the four searches for sandwiches among the transactions of
  a ledger, their union without repetitions, and the figures computed from the patterns. Doubles stay
  finite; the free-form \<open>details\<close> of a pattern and the texts of risk factors are left out.
\<close>

section \<open>Transactions and estimates\<close>

record ledger_tx =
  lt_hash :: string
  lt_position :: int
  lt_source :: string
  lt_contract :: "string option"
  lt_function :: "string option"
  lt_readable :: "string option"
  lt_ledger :: int
  lt_close :: int
  lt_amountIn :: "string option"
  lt_amountOut :: "string option"
  lt_tokenIn :: "string option"
  lt_tokenOut :: "string option"

datatype sandwich_type = Simple_sandwich | Multi_hop | Cross_pool | Frontrun_backrun

record sandwich =
  sp_type :: sandwich_type
  sp_front :: string
  sp_victimTx :: string
  sp_back :: string
  sp_attacker :: string
  sp_victim :: string
  sp_protocol :: string
  sp_confidence :: int
  sp_profit :: rat
  sp_loss :: rat
  sp_lossPct :: rat
  sp_tokens :: "string list"
  sp_pools :: "string list"
  sp_ledger :: int
  sp_close :: int

definition SWAP_KEYWORDS :: "string list" where
  "SWAP_KEYWORDS = [''swap'', ''exchange'', ''trade'', ''buy'', ''sell'', ''convert'']"

definition or_empty :: "string option \<Rightarrow> string" where
  "or_empty s = (case s of None \<Rightarrow> [] | Some t \<Rightarrow> t)"

definition isSwapTx :: "ledger_tx \<Rightarrow> bool" where
  "isSwapTx tx =
     (let fn = to_lower (or_empty (lt_function tx)); hr = to_lower (or_empty (lt_readable tx))
      in list_ex (\<lambda>k. includes_str k fn \<or> includes_str k hr) SWAP_KEYWORDS)"

text \<open>The rest after removing all but digits and points is read by \<open>parseFloat\<close>; amounts are below the
  range of a double.\<close>

definition amountToNumber :: "string option \<Rightarrow> rat" where
  "amountToNumber s =
     (case parseFloat (filter (\<lambda>c. is_digit c \<or> c = CHR ''.'') (or_empty s)) of Finite q \<Rightarrow> q | _ \<Rightarrow> 0)"

definition priceUsd :: "string option \<Rightarrow> rat" where
  "priceUsd token =
     (let t = map upper_char (or_empty token) in
      if t = [] then 1
      else if includes_str ''XLM'' t then round_pos (12 / 100)
      else if includes_str ''USDC'' t \<or> includes_str ''USDT'' t then 1
      else if includes_str ''BTC'' t \<or> includes_str ''WBTC'' t then 65000
      else if includes_str ''ETH'' t \<or> includes_str ''WETH'' t then 3500
      else 1)"

definition estimateAmountUsd :: "string option \<Rightarrow> string option \<Rightarrow> rat" where
  "estimateAmountUsd amount token = fl_mul (amountToNumber amount) (priceUsd token)"

definition computeConfidence :: "bool \<Rightarrow> bool \<Rightarrow> bool \<Rightarrow> int \<Rightarrow> rat \<Rightarrow> int" where
  "computeConfidence sameAttacker samePool oppositeDirections positionGap profitRatio =
     (if \<not> sameAttacker then 0
      else
        (let s1 = 30 + (if samePool then 20 else 0);
             s2 = s1 + (if oppositeDirections then 15 else 0);
             s3 = s2 + (if positionGap \<le> 2 then 20 else if positionGap \<le> 5 then 10 else if 10 < positionGap then - 10 else 0);
             s4 = s3 + (if round_pos (1 / 1000) < profitRatio then 10 else 0);
             s5 = s4 + (if round_pos (1 / 100) < profitRatio then 5 else 0)
         in max 0 (min 100 s5)))"

text \<open>\<open>filter(Boolean)\<close> of optional texts.\<close>

definition present :: "string option list \<Rightarrow> string list" where
  "present xs = filter (\<lambda>t. t \<noteq> []) (map or_empty xs)"

definition in_usd :: "ledger_tx \<Rightarrow> rat" where
  "in_usd tx = estimateAmountUsd (lt_amountIn tx) (lt_tokenIn tx)"

definition out_usd :: "ledger_tx \<Rightarrow> rat" where
  "out_usd tx = estimateAmountUsd (lt_amountOut tx) (lt_tokenOut tx)"

definition ratio :: "rat \<Rightarrow> rat \<Rightarrow> rat" where
  "ratio x victimAmt = (if 0 < victimAmt then fl_div x victimAmt else 0)"

definition loss_pct :: "rat \<Rightarrow> rat \<Rightarrow> rat" where
  "loss_pct loss victimAmt = (if 0 < victimAmt then fl_mul (fl_div loss victimAmt) 100 else 0)"

section \<open>The four searches\<close>

definition simple_confidence :: "ledger_tx \<Rightarrow> ledger_tx \<Rightarrow> ledger_tx \<Rightarrow> int" where
  "simple_confidence front victim back =
     computeConfidence True True (lt_tokenIn front \<noteq> lt_tokenIn back \<or> lt_tokenOut front \<noteq> lt_tokenOut back)
       (lt_position back - lt_position front)
       (ratio (max 0 (fl_sub (out_usd back) (in_usd front))) (in_usd victim))"

definition simple_pattern :: "ledger_tx \<Rightarrow> ledger_tx \<Rightarrow> ledger_tx \<Rightarrow> sandwich" where
  "simple_pattern front victim back =
     (let profit = max 0 (fl_sub (out_usd back) (in_usd front));
          profitRatio = ratio profit (in_usd victim);
          loss = fl_mul (fl_mul (in_usd victim) (round_pos (5 / 1000))) (fl_add 1 (fl_mul profitRatio 10))
      in \<lparr>sp_type = Simple_sandwich, sp_front = lt_hash front, sp_victimTx = lt_hash victim, sp_back = lt_hash back,
          sp_attacker = lt_source front, sp_victim = lt_source victim, sp_protocol = or_empty (lt_contract front),
          sp_confidence = simple_confidence front victim back, sp_profit = profit, sp_loss = loss,
          sp_lossPct = loss_pct loss (in_usd victim),
          sp_tokens = js_set_of (present [lt_tokenIn front, lt_tokenOut front, lt_tokenIn victim]),
          sp_pools = present [lt_contract front], sp_ledger = lt_ledger front, sp_close = lt_close front\<rparr>)"

fun simple_backs :: "ledger_tx \<Rightarrow> ledger_tx \<Rightarrow> ledger_tx list \<Rightarrow> sandwich list" where
  "simple_backs front victim [] = []"
| "simple_backs front victim (back # rest) =
     (if lt_source back \<noteq> lt_source front then simple_backs front victim rest
      else if or_empty (lt_contract front) = [] \<or> lt_contract front \<noteq> lt_contract back then simple_backs front victim rest
      else if 20 < lt_position back - lt_position front then []
      else if simple_confidence front victim back < 30 then simple_backs front victim rest
      else simple_pattern front victim back # simple_backs front victim rest)"

fun simple_victims :: "ledger_tx \<Rightarrow> ledger_tx list \<Rightarrow> sandwich list" where
  "simple_victims front [] = []"
| "simple_victims front (victim # rest) =
     (if lt_source victim = lt_source front then [] else simple_backs front victim rest) @ simple_victims front rest"

fun simple_fronts :: "ledger_tx list \<Rightarrow> sandwich list" where
  "simple_fronts [] = []"
| "simple_fronts (front # rest) = simple_victims front rest @ simple_fronts rest"

definition detectSimpleSandwiches :: "ledger_tx list \<Rightarrow> sandwich list" where
  "detectSimpleSandwiches txs = simple_fronts (filter isSwapTx txs)"

text \<open>A list per key, in the order of the transactions.\<close>

definition add_to_list :: "'k \<Rightarrow> 'v \<Rightarrow> ('k, 'v list) jsmap \<Rightarrow> ('k, 'v list) jsmap" where
  "add_to_list k v m = jm_set k ((case jm_get m k of None \<Rightarrow> [] | Some vs \<Rightarrow> vs) @ [v]) m"

definition by_attacker :: "ledger_tx list \<Rightarrow> (string, ledger_tx list) jsmap" where
  "by_attacker swaps = fold (\<lambda>tx. add_to_list (lt_source tx) tx) swaps []"

definition between :: "ledger_tx list \<Rightarrow> string \<Rightarrow> ledger_tx \<Rightarrow> ledger_tx \<Rightarrow> ledger_tx list" where
  "between swaps attacker front back =
     filter (\<lambda>tx. lt_source tx \<noteq> attacker \<and> lt_position front < lt_position tx \<and> lt_position tx < lt_position back) swaps"

definition multi_hop_pattern :: "string \<Rightarrow> ledger_tx \<Rightarrow> ledger_tx \<Rightarrow> ledger_tx list \<Rightarrow> sandwich option" where
  "multi_hop_pattern attacker front mainVictim backChain =
     (let hops = int (length backChain); mainBack = hd backChain;
          profit = fl_sub (out_usd mainBack) (in_usd front);
          victimAmt = in_usd mainVictim;
          loss = max 0 (fl_mul (fl_mul victimAmt (round_pos (8 / 1000))) (of_int hops));
          confidence = computeConfidence True (lt_contract front = lt_contract mainBack) True
            (lt_position mainBack - lt_position front) (ratio profit victimAmt) + min 15 (hops * 5)
      in if confidence < 35 then None
         else Some \<lparr>sp_type = Multi_hop, sp_front = lt_hash front, sp_victimTx = lt_hash mainVictim, sp_back = lt_hash mainBack,
           sp_attacker = attacker, sp_victim = lt_source mainVictim, sp_protocol = or_empty (lt_contract front),
           sp_confidence = min 100 confidence, sp_profit = max 0 profit, sp_loss = loss, sp_lossPct = loss_pct loss victimAmt,
           sp_tokens = js_set_of (present (concat (map (\<lambda>t. [lt_tokenIn t, lt_tokenOut t]) [front, mainVictim, mainBack]))),
           sp_pools = js_set_of (present (map lt_contract (front # backChain))),
           sp_ledger = lt_ledger front, sp_close = lt_close front\<rparr>)"

fun multi_hop_fronts :: "ledger_tx list \<Rightarrow> string \<Rightarrow> ledger_tx list \<Rightarrow> sandwich list" where
  "multi_hop_fronts swaps attacker (front # back # rest) =
     (let victims = between swaps attacker front back;
          found = (if victims = [] then None
            else
              (let backChain = filter (\<lambda>tx. lt_position (last victims) < lt_position tx) (back # rest)
               in if backChain = [] then None else multi_hop_pattern attacker front (hd victims) backChain))
      in (case found of None \<Rightarrow> [] | Some p \<Rightarrow> [p]) @ multi_hop_fronts swaps attacker (back # rest))"
| "multi_hop_fronts swaps attacker txs = []"

definition detectMultiHopSandwiches :: "ledger_tx list \<Rightarrow> sandwich list" where
  "detectMultiHopSandwiches txs =
     (let swaps = filter isSwapTx txs
      in concat (map (\<lambda>(attacker, aTxs). multi_hop_fronts swaps attacker aTxs) (by_attacker swaps)))"

text \<open>\<open>[tokenIn, tokenOut].sort().join(':')\<close>: \<open>undefined\<close> is sorted to the end and joined as the
  empty text.\<close>

definition token_key :: "string option \<Rightarrow> string option \<Rightarrow> string" where
  "token_key a b =
     (case (a, b) of
        (Some x, Some y) \<Rightarrow> if x \<le> y then x @ '':'' @ y else y @ '':'' @ x
      | (Some x, None) \<Rightarrow> x @ '':''
      | (None, Some y) \<Rightarrow> y @ '':''
      | (None, None) \<Rightarrow> '':'')"

definition by_tokens :: "ledger_tx list \<Rightarrow> (string, ledger_tx list) jsmap" where
  "by_tokens swaps =
     fold (\<lambda>tx m. let key = token_key (lt_tokenIn tx) (lt_tokenOut tx) in
        if \<not> includes_str ''undefined'' key then add_to_list key tx m else m) swaps []"

definition cross_pool_pattern :: "ledger_tx \<Rightarrow> ledger_tx \<Rightarrow> ledger_tx \<Rightarrow> sandwich option" where
  "cross_pool_pattern front victim back =
     (if lt_source front \<noteq> lt_source back then None
      else if lt_source victim = lt_source front then None
      else if lt_contract front = lt_contract back then None
      else
        (let victimAmt = in_usd victim;
             profit = fl_sub (out_usd back) (in_usd front);
             loss = fl_mul victimAmt (round_pos (7 / 1000));
             confidence = computeConfidence True False True (lt_position back - lt_position front) (ratio profit victimAmt) + 10
         in if confidence < 35 then None
            else Some \<lparr>sp_type = Cross_pool, sp_front = lt_hash front, sp_victimTx = lt_hash victim, sp_back = lt_hash back,
              sp_attacker = lt_source front, sp_victim = lt_source victim,
              sp_protocol = (case lt_contract victim of Some c \<Rightarrow> c | None \<Rightarrow> or_empty (lt_contract front)),
              sp_confidence = min 100 confidence, sp_profit = max 0 profit, sp_loss = loss, sp_lossPct = loss_pct loss victimAmt,
              sp_tokens = js_set_of (present [lt_tokenIn front, lt_tokenOut front, lt_tokenIn victim]),
              sp_pools = present [lt_contract front, lt_contract back], sp_ledger = lt_ledger front, sp_close = lt_close front\<rparr>))"

fun cross_pool_triples :: "ledger_tx list \<Rightarrow> sandwich list" where
  "cross_pool_triples (front # victim # back # rest) =
     (case cross_pool_pattern front victim back of None \<Rightarrow> [] | Some p \<Rightarrow> [p]) @ cross_pool_triples (victim # back # rest)"
| "cross_pool_triples txs = []"

definition detectCrossPoolSandwiches :: "ledger_tx list \<Rightarrow> sandwich list" where
  "detectCrossPoolSandwiches txs = concat (map (\<lambda>(k, tokenTxs). cross_pool_triples tokenTxs) (by_tokens (filter isSwapTx txs)))"

definition pair_pattern :: "ledger_tx list \<Rightarrow> string \<Rightarrow> ledger_tx \<Rightarrow> ledger_tx \<Rightarrow> sandwich option" where
  "pair_pattern swaps attacker front back =
     (let gap = lt_position back - lt_position front; victims = between swaps attacker front back in
      if gap < 2 \<or> 15 < gap then None
      else if victims = [] then None
      else
        (let victim = hd victims; victimAmt = in_usd victim;
             profit = fl_sub (out_usd back) (in_usd front);
             loss = fl_mul victimAmt (round_pos (4 / 1000));
             confidence = computeConfidence True (lt_contract front = lt_contract back) (lt_tokenIn front \<noteq> lt_tokenIn back)
               gap (ratio profit victimAmt)
         in if confidence < 25 then None
            else Some \<lparr>sp_type = Frontrun_backrun, sp_front = lt_hash front, sp_victimTx = lt_hash victim, sp_back = lt_hash back,
              sp_attacker = attacker, sp_victim = lt_source victim, sp_protocol = or_empty (lt_contract front),
              sp_confidence = confidence, sp_profit = max 0 profit, sp_loss = loss, sp_lossPct = loss_pct loss victimAmt,
              sp_tokens = present [lt_tokenIn front, lt_tokenOut front],
              sp_pools = js_set_of (present [lt_contract front, lt_contract back]),
              sp_ledger = lt_ledger front, sp_close = lt_close front\<rparr>))"

fun frontrun_pairs :: "ledger_tx list \<Rightarrow> string \<Rightarrow> ledger_tx list \<Rightarrow> sandwich list" where
  "frontrun_pairs swaps attacker (front # back # rest) =
     (case pair_pattern swaps attacker front back of None \<Rightarrow> [] | Some p \<Rightarrow> [p]) @ frontrun_pairs swaps attacker (back # rest)"
| "frontrun_pairs swaps attacker txs = []"

definition detectFrontrunBackrunPairs :: "ledger_tx list \<Rightarrow> sandwich list" where
  "detectFrontrunBackrunPairs txs =
     (let swaps = filter isSwapTx txs
      in concat (map (\<lambda>(attacker, aTxs). frontrun_pairs swaps attacker aTxs) (by_attacker swaps)))"

section \<open>All patterns once\<close>

definition pattern_key :: "sandwich \<Rightarrow> string" where
  "pattern_key p = sp_front p @ '':'' @ sp_victimTx p @ '':'' @ sp_back p"

fun first_of_key :: "string list \<Rightarrow> sandwich list \<Rightarrow> sandwich list" where
  "first_of_key seen [] = []"
| "first_of_key seen (p # ps) =
     (if pattern_key p \<in> set seen then first_of_key seen ps else p # first_of_key (js_add (pattern_key p) seen) ps)"

definition detectAllSandwiches :: "ledger_tx list \<Rightarrow> sandwich list" where
  "detectAllSandwiches txs =
     first_of_key [] (detectSimpleSandwiches txs @ detectMultiHopSandwiches txs @ detectCrossPoolSandwiches txs
       @ detectFrontrunBackrunPairs txs)"

section \<open>Figures of a set of patterns\<close>

definition sum_usd :: "rat list \<Rightarrow> rat" where
  "sum_usd xs = foldl fl_add 0 xs"

text \<open>Counts and sums per key.\<close>

definition tally :: "('p \<Rightarrow> 'k) \<Rightarrow> ('p \<Rightarrow> rat) \<Rightarrow> 'p \<Rightarrow> ('k, rat \<times> nat) jsmap \<Rightarrow> ('k, rat \<times> nat) jsmap" where
  "tally key amount p m =
     (let prev = (case jm_get m (key p) of None \<Rightarrow> (0, 0) | Some v \<Rightarrow> v)
      in jm_set (key p) (fl_add (fst prev) (amount p), snd prev + 1) m)"

definition tallies :: "('p \<Rightarrow> 'k) \<Rightarrow> ('p \<Rightarrow> rat) \<Rightarrow> 'p list \<Rightarrow> ('k, rat \<times> nat) jsmap" where
  "tallies key amount ps = fold (tally key amount) ps []"

definition top_ten :: "('k, rat \<times> nat) jsmap \<Rightarrow> ('k \<times> rat \<times> nat) list" where
  "top_ten m = take 10 (sort_key (\<lambda>(k, v). - fst v) m)"

record mev_landscape =
  ml_total :: rat
  ml_byType :: "(sandwich_type, rat \<times> nat) jsmap"
  ml_attackers :: "(string \<times> rat \<times> nat) list"
  ml_protocols :: "(string \<times> rat \<times> nat) list"
  ml_concentration :: rat

definition computeMevLandscape :: "sandwich list \<Rightarrow> mev_landscape" where
  "computeMevLandscape patterns =
     (let byType = tallies sp_type sp_profit patterns;
          attackerProfit = tallies sp_attacker sp_profit patterns;
          protocolLoss = tallies sp_protocol sp_loss patterns;
          totalExtracted = sum_usd (map sp_profit patterns)
      in \<lparr>ml_total = totalExtracted, ml_byType = byType, ml_attackers = top_ten attackerProfit,
          ml_protocols = top_ten protocolLoss,
          ml_concentration =
            (if 0 < totalExtracted then
               sum_usd (map (\<lambda>(k, v). let share = fl_div (fst v) totalExtracted in fl_mul share share) attackerProfit)
             else 0)\<rparr>)"

record fairness =
  fs_score :: rat
  fs_rate :: rat
  fs_unfair :: rat
  fs_extractedPct :: rat
  fs_others :: "(string \<times> rat) list"

definition or_one :: "nat \<Rightarrow> nat" where
  "or_one n = (if n = 0 then 1 else n)"

definition sandwich_rate :: "nat \<Rightarrow> nat \<Rightarrow> rat" where
  "sandwich_rate attacks txCount = fl_mul (fl_div (of_nat attacks) (of_nat (or_one txCount))) 1000"

definition rate_penalty :: "rat \<Rightarrow> rat" where
  "rate_penalty r = min 60 (fl_mul r 2)"

definition computeFairnessScore ::
  "string \<Rightarrow> ledger_tx list \<Rightarrow> sandwich list \<Rightarrow> (string \<times> sandwich list \<times> nat) list \<Rightarrow> fairness" where
  "computeFairnessScore protocol allTxs patterns dexComparisons =
     (let protocolTxs = filter (\<lambda>t. lt_contract t = Some protocol) allTxs;
          protocolPatterns = filter (\<lambda>p. sp_protocol p = protocol) patterns;
          sandwichRate = sandwich_rate (length protocolPatterns) (length protocolTxs);
          volume = sum_usd (map in_usd protocolTxs);
          loss = sum_usd (map sp_loss protocolPatterns);
          extractedPct = (if 0 < volume then fl_mul (fl_div loss volume) 100 else 0);
          mevPenalty = min 30 (fl_mul extractedPct 3)
      in \<lparr>fs_score = max 0 (fl_sub (fl_sub 100 (rate_penalty sandwichRate)) mevPenalty), fs_rate = sandwichRate,
          fs_unfair = min 1 (fl_div sandwichRate 100), fs_extractedPct = extractedPct,
          fs_others = map (\<lambda>(dex, dexPatterns, dexTxCount).
            (dex, max 0 (fl_sub 100 (rate_penalty (sandwich_rate (length dexPatterns) dexTxCount))))) dexComparisons\<rparr>)"

record sandwich_risk =
  sr_probability :: int
  sr_slippage :: int
  sr_deadline :: int

definition estimateSandwichRisk :: "rat \<Rightarrow> string \<Rightarrow> sandwich list \<Rightarrow> sandwich_risk" where
  "estimateSandwichRisk pendingAmount protocol recentPatterns =
     (let recent = filter (\<lambda>p. sp_protocol p = protocol) recentPatterns;
          attackRate = length recent;
          avgProfit = fl_div (sum_usd (map sp_profit recent)) (of_nat (or_one attackRate));
          p1 = (if 5 < attackRate then 30 else if 1 < attackRate then 15 else 0);
          p2 = p1 + (if fl_mul avgProfit 100 < pendingAmount then 20 else 0);
          probability = p2 + (if 10000 < pendingAmount then 15 else 0)
      in \<lparr>sr_probability = min 100 probability, sr_slippage = max 50 (min 1000 (50 + probability * 5)),
          sr_deadline = (if 50 < probability then 30 else 60)\<rparr>)"

section \<open>Simple sandwiches are found exactly\<close>

text \<open>The threshold of the simple search never applies.\<close>

lemma simple_confidence_bounds:
  "40 \<le> simple_confidence f v b" "simple_confidence f v b \<le> 100"
proof -
  have "40 \<le> 30 + 20 + (if o1 then 15 else 0) + (if g \<le> 2 then 20 else if g \<le> 5 then 10 else if 10 < g then - 10 else 0)
      + (if r1 then 10 else 0) + (if r2 then 5 else (0 :: int))" for o1 r1 r2 and g :: int
    by auto
  then show "40 \<le> simple_confidence f v b" "simple_confidence f v b \<le> 100"
    unfolding simple_confidence_def computeConfidence_def Let_def by simp_all
qed

definition bracket :: "ledger_tx \<Rightarrow> ledger_tx \<Rightarrow> bool" where
  "bracket front back =
     (lt_source back = lt_source front \<and> or_empty (lt_contract front) \<noteq> [] \<and> lt_contract back = lt_contract front
      \<and> lt_position back - lt_position front \<le> 20)"

lemma backs_exact:
  assumes "sorted_wrt (\<lambda>x y. lt_position x < lt_position y) bs"
  shows "simple_backs f v bs = map (simple_pattern f v) (filter (bracket f) bs)"
  using assms
proof (induction bs)
  case (Cons b bs)
  have "filter (bracket f) bs = []" if "20 < lt_position b - lt_position f"
    using Cons.prems that by (auto simp: filter_empty_conv bracket_def)
  then have far: "20 < lt_position b - lt_position f \<Longrightarrow> filter (bracket f) bs = []" .
  have ih: "simple_backs f v bs = map (simple_pattern f v) (filter (bracket f) bs)" using Cons by simp
  have c: "\<not> simple_confidence f v b < 30" using simple_confidence_bounds(1) [of f v b] by linarith
  show ?case
  proof (cases "bracket f b")
    case True
    then show ?thesis using c ih by (simp add: bracket_def [of f b])
  next
    case False
    then have "lt_source b \<noteq> lt_source f \<or> or_empty (lt_contract f) = [] \<or> lt_contract f \<noteq> lt_contract b
        \<or> 20 < lt_position b - lt_position f"
      by (auto simp: bracket_def)
    then have "simple_backs f v (b # bs) = simple_backs f v bs \<or>
        simple_backs f v (b # bs) = [] \<and> 20 < lt_position b - lt_position f"
      by (simp only: simple_backs.simps) (metis (full_types))
    then show ?thesis using False far ih by auto
  qed
qed simp

lemma victims_exact:
  assumes "sorted_wrt (\<lambda>x y. lt_position x < lt_position y) vs"
  shows "p \<in> set (simple_victims f vs) \<longleftrightarrow>
    (\<exists>i j. i < j \<and> j < length vs \<and> lt_source (vs ! i) \<noteq> lt_source f \<and> bracket f (vs ! j) \<and> p = simple_pattern f (vs ! i) (vs ! j))"
  using assms
proof (induction vs)
  case (Cons v vs)
  have split: "(\<exists>i j. i < j \<and> j < Suc n \<and> Q i j) \<longleftrightarrow> (\<exists>j. j < n \<and> Q 0 (Suc j)) \<or> (\<exists>i j. i < j \<and> j < n \<and> Q (Suc i) (Suc j))"
    for n and Q :: "nat \<Rightarrow> nat \<Rightarrow> bool"
    by (auto simp: Ex_less_Suc gr0_conv_Suc) (metis Suc_less_eq2 less_Suc_eq_0_disj not0_implies_Suc gr_implies_not0)+
  have "p \<in> set (simple_backs f v vs) \<longleftrightarrow> (\<exists>j. j < length vs \<and> bracket f (vs ! j) \<and> p = simple_pattern f v (vs ! j))"
    using Cons.prems by (auto simp: backs_exact in_set_conv_nth)
  then show ?case using Cons by (auto simp: split)
qed simp

lemma index_triples:
  "(\<exists>i j k. i < j \<and> j < k \<and> k < Suc n \<and> R ((x # xs) ! i) ((x # xs) ! j) ((x # xs) ! k)) \<longleftrightarrow>
    (\<exists>j k. j < k \<and> k < n \<and> R x (xs ! j) (xs ! k)) \<or> (\<exists>i j k. i < j \<and> j < k \<and> k < n \<and> R (xs ! i) (xs ! j) (xs ! k))"
  (is "?l \<longleftrightarrow> ?a \<or> ?b")
proof
  assume ?l
  then obtain i j k where ijk: "i < j" "j < k" "k < Suc n" "R ((x # xs) ! i) ((x # xs) ! j) ((x # xs) ! k)" by blast
  then obtain j' k' where jk: "j = Suc j'" "k = Suc k'" by (metis less_nat_zero_code not0_implies_Suc)
  show "?a \<or> ?b"
  proof (cases i)
    case 0
    then have ?a using ijk jk by auto
    then show ?thesis ..
  next
    case (Suc i')
    then have "i' < j' \<and> j' < k' \<and> k' < n \<and> R (xs ! i') (xs ! j') (xs ! k')" using ijk jk by auto
    then show ?thesis by blast
  qed
next
  assume "?a \<or> ?b"
  then show ?l
  proof
    assume ?a
    then obtain j k where "j < k" "k < n" "R x (xs ! j) (xs ! k)" by blast
    then have "0 < Suc j \<and> Suc j < Suc k \<and> Suc k < Suc n \<and> R ((x # xs) ! 0) ((x # xs) ! Suc j) ((x # xs) ! Suc k)" by simp
    then show ?l by blast
  next
    assume ?b
    then obtain i j k where "i < j" "j < k" "k < n" "R (xs ! i) (xs ! j) (xs ! k)" by blast
    then have "Suc i < Suc j \<and> Suc j < Suc k \<and> Suc k < Suc n \<and> R ((x # xs) ! Suc i) ((x # xs) ! Suc j) ((x # xs) ! Suc k)" by simp
    then show ?l by blast
  qed
qed

definition sandwiches :: "sandwich \<Rightarrow> ledger_tx \<Rightarrow> ledger_tx \<Rightarrow> ledger_tx \<Rightarrow> bool" where
  "sandwiches p f v b = (lt_source v \<noteq> lt_source f \<and> bracket f b \<and> p = simple_pattern f v b)"

lemma fronts_exact:
  assumes "sorted_wrt (\<lambda>x y. lt_position x < lt_position y) fs"
  shows "p \<in> set (simple_fronts fs) \<longleftrightarrow>
    (\<exists>i j k. i < j \<and> j < k \<and> k < length fs \<and> sandwiches p (fs ! i) (fs ! j) (fs ! k))"
  using assms
proof (induction fs)
  case (Cons f fs)
  have "p \<in> set (simple_victims f fs) \<longleftrightarrow> (\<exists>j k. j < k \<and> k < length fs \<and> sandwiches p f (fs ! j) (fs ! k))"
    using victims_exact [of fs p f] Cons.prems by (simp add: sandwiches_def)
  then show ?case using Cons index_triples [of "length fs" "sandwiches p" f fs] by simp
qed simp

text \<open>C18: When the transactions come in the order of their positions, the simple search reports exactly the
  triples of swaps in which the outer two come from one account and go to one contract, at most 20
  positions apart, and the one between comes from another account.\<close>

theorem simple_sandwiches_exact:
  assumes "swaps = filter isSwapTx txs" "sorted_wrt (\<lambda>x y. lt_position x < lt_position y) swaps"
  shows "p \<in> set (detectSimpleSandwiches txs) \<longleftrightarrow>
    (\<exists>i j k. i < j \<and> j < k \<and> k < length swaps \<and> lt_source (swaps ! j) \<noteq> lt_source (swaps ! i)
       \<and> bracket (swaps ! i) (swaps ! k) \<and> p = simple_pattern (swaps ! i) (swaps ! j) (swaps ! k))"
  using fronts_exact [OF assms(2), of p] by (simp add: detectSimpleSandwiches_def sandwiches_def assms(1))

text \<open>Every triple of transactions is reported once.\<close>

lemma first_of_key_spec:
  "distinct (map pattern_key (first_of_key seen ps)) \<and> set (first_of_key seen ps) \<subseteq> set ps
   \<and> pattern_key ` set (first_of_key seen ps) = pattern_key ` set ps - set seen"
proof (induction ps arbitrary: seen)
  case (Cons p ps)
  show ?case
    using Cons [of seen] Cons [of "js_add (pattern_key p) seen"] by auto
qed simp

theorem patterns_reported_once:
  "distinct (map pattern_key (detectAllSandwiches txs)) \<and>
   pattern_key ` set (detectAllSandwiches txs) = pattern_key ` (set (detectSimpleSandwiches txs) \<union> set (detectMultiHopSandwiches txs)
      \<union> set (detectCrossPoolSandwiches txs) \<union> set (detectFrontrunBackrunPairs txs))"
  using first_of_key_spec [of "[]"] by (simp add: detectAllSandwiches_def Un_assoc)

section \<open>Counts, fairness, risk\<close>

lemma tally_get:
  "jm_get (tally key amount p m) k =
     (if key p = k then Some (case jm_get m k of None \<Rightarrow> (fl_add 0 (amount p), 1) | Some v \<Rightarrow> (fl_add (fst v) (amount p), snd v + 1))
      else jm_get m k)"
  by (auto simp: tally_def Let_def split: option.splits)

lemma tallies_get:
  "jm_get (fold (tally key amount) ps m) k =
     (if filter (\<lambda>p. key p = k) ps = [] then jm_get m k
      else Some (foldl fl_add (case jm_get m k of None \<Rightarrow> 0 | Some v \<Rightarrow> fst v) (map amount (filter (\<lambda>p. key p = k) ps)),
        (case jm_get m k of None \<Rightarrow> 0 | Some v \<Rightarrow> snd v) + length (filter (\<lambda>p. key p = k) ps)))"
  by (induction ps arbitrary: m) (auto simp: tally_get split: option.splits)

text \<open>The figures per kind of pattern are the number of patterns of the kind and the sum of their profits in
  the order of the patterns.\<close>

theorem landscape_counts_exact:
  "jm_get (ml_byType (computeMevLandscape ps)) t =
     (let own = filter (\<lambda>p. sp_type p = t) ps
      in if own = [] then None else Some (sum_usd (map sp_profit own), length own))"
  by (simp add: computeMevLandscape_def Let_def tallies_def tallies_get sum_usd_def)

lemma fl_small: "fl_round 40 = 40" "fl_round 10 = 10" "fl_round 100 = 100"
  by (simp_all add: fl_numeral)

text \<open>The score of a protocol never falls below 10, however often its users are attacked.\<close>

lemma fairness_at_least_10: "10 \<le> fs_score (computeFairnessScore protocol txs patterns others)"
proof -
  have a: "40 \<le> fl_sub 100 (rate_penalty r)" for r
    using fl_round_mono [of 40 "100 - rate_penalty r"] by (simp add: fl_sub_def rate_penalty_def fl_small)
  have "10 \<le> fl_sub (fl_sub 100 (rate_penalty r)) (min 30 m)" for r m
  proof -
    have "10 \<le> fl_sub 100 (rate_penalty r) - min 30 m" using a [of r] min.cobounded1 [of 30 m] by linarith
    then show ?thesis using fl_round_mono [of 10] by (fastforce simp: fl_sub_def fl_small)
  qed
  then show ?thesis by (simp add: computeFairnessScore_def Let_def le_max_iff_disj)
qed

lemma risk_values:
  "sr_probability (estimateSandwichRisk a c ps) \<in> {0, 15, 20, 30, 35, 45, 50, 65}"
  "sr_slippage (estimateSandwichRisk a c ps) = 50 + 5 * sr_probability (estimateSandwichRisk a c ps)"
  "sr_deadline (estimateSandwichRisk a c ps) = (if sr_probability (estimateSandwichRisk a c ps) = 65 then 30 else 60)"
  by (auto simp: estimateSandwichRisk_def Let_def)

section \<open>Every pattern is well formed\<close>

lemma amount_nonneg: "0 \<le> amountToNumber s"
proof -
  let ?t = "filter (\<lambda>c. is_digit c \<or> c = CHR ''.'') (or_empty s)"
  have "set ?t \<subseteq> {c. is_digit c \<or> c = CHR ''.''}" by auto
  then have "set (dropWhile is_space ?t) \<subseteq> {c. is_digit c \<or> c = CHR ''.''}" by (meson set_dropWhileD subset_iff)
  moreover have "fst (parse_sign u) = 1" if "set u \<subseteq> {c. is_digit c \<or> c = CHR ''.''}" for u
    using that by (cases u) (auto simp: parse_sign_def is_digit_def)
  ultimately have "fst (parse_sign (dropWhile is_space ?t)) = 1" by blast
  then obtain u where "parse_sign (dropWhile is_space ?t) = (1, u)" by (metis prod.collapse)
  then show ?thesis
    by (simp add: amountToNumber_def parseFloat_def to_double_def Let_def round_pos_nonneg split: option.splits)
qed

lemma price_nonneg: "0 \<le> priceUsd t"
  by (simp add: priceUsd_def Let_def round_pos_nonneg)

lemma usd_nonneg [simp]: "0 \<le> in_usd tx"
  by (simp add: in_usd_def estimateAmountUsd_def fl_mul_def fl_round_nonneg amount_nonneg price_nonneg)

lemma fl_mul_nonneg: "0 \<le> x \<Longrightarrow> 0 \<le> y \<Longrightarrow> 0 \<le> fl_mul x y"
  by (simp add: fl_mul_def fl_round_nonneg)

lemma ratio_nonneg: "0 \<le> x \<Longrightarrow> 0 \<le> ratio x y"
  by (simp add: ratio_def fl_div_def fl_round_nonneg)

lemma confidence_upper: "computeConfidence a b c g r \<le> 100"
  by (simp add: computeConfidence_def Let_def)

definition pattern_ok :: "sandwich \<Rightarrow> bool" where
  "pattern_ok p = (sp_attacker p \<noteq> sp_victim p \<and> 25 \<le> sp_confidence p \<and> sp_confidence p \<le> 100
     \<and> 0 \<le> sp_profit p \<and> 0 \<le> sp_loss p)"

lemma simple_pattern_ok:
  assumes "lt_source v \<noteq> lt_source f" shows "pattern_ok (simple_pattern f v b)"
proof -
  have "0 \<le> fl_add 1 (fl_mul (ratio (max 0 x) y) 10)" for x y
    using fl_mul_nonneg [OF ratio_nonneg, of "max 0 x" 10 y] by (simp add: fl_add_def fl_round_nonneg)
  then show ?thesis
    using assms simple_confidence_bounds [of f v b]
    by (simp add: pattern_ok_def simple_pattern_def Let_def fl_mul_nonneg round_pos_nonneg)
qed

lemma simple_ok: "list_all pattern_ok (detectSimpleSandwiches txs)"
proof -
  have b: "lt_source v \<noteq> lt_source f \<Longrightarrow> list_all pattern_ok (simple_backs f v bs)" for f v bs
    by (induction bs) (simp_all add: simple_pattern_ok)
  have "list_all pattern_ok (simple_victims f vs)" for f vs
    by (induction vs) (simp_all add: b)
  then have "list_all pattern_ok (simple_fronts fs)" for fs
    by (induction fs) simp_all
  then show ?thesis by (simp add: detectSimpleSandwiches_def)
qed

lemma between_source: "between swaps a f b \<noteq> [] \<Longrightarrow> lt_source (hd (between swaps a f b)) \<noteq> a"
  using hd_in_set [of "between swaps a f b"] by (auto simp: between_def)

lemma multi_hop_ok: "list_all pattern_ok (detectMultiHopSandwiches txs)"
proof -
  have p: "pattern_ok p" if "multi_hop_pattern a f v bc = Some p" "lt_source v \<noteq> a" for a f v bc p
    using that by (auto simp: multi_hop_pattern_def pattern_ok_def Let_def split: if_splits)
  have "list_all pattern_ok (multi_hop_fronts swaps a aTxs)" for swaps a aTxs
    by (induction swaps a aTxs rule: multi_hop_fronts.induct) (auto simp: Let_def between_source dest: p split: option.splits)
  then show ?thesis by (auto simp: detectMultiHopSandwiches_def list_all_iff Let_def)
qed

lemma cross_pool_ok: "list_all pattern_ok (detectCrossPoolSandwiches txs)"
proof -
  have p: "pattern_ok p" if "cross_pool_pattern f v b = Some p" for f v b p
    using that by (auto simp: cross_pool_pattern_def pattern_ok_def Let_def fl_mul_nonneg round_pos_nonneg split: if_splits)
  have "list_all pattern_ok (cross_pool_triples ts)" for ts
    by (induction ts rule: cross_pool_triples.induct) (auto dest: p split: option.splits)
  then show ?thesis by (auto simp: detectCrossPoolSandwiches_def list_all_iff)
qed

lemma pairs_ok: "list_all pattern_ok (detectFrontrunBackrunPairs txs)"
proof -
  have p: "pattern_ok p" if "pair_pattern swaps a f b = Some p" for swaps a f b p
    using that between_source [of swaps a f b] confidence_upper
    by (auto simp: pair_pattern_def pattern_ok_def Let_def fl_mul_nonneg round_pos_nonneg not_less split: if_splits)
  have "list_all pattern_ok (frontrun_pairs swaps a aTxs)" for swaps a aTxs
    by (induction swaps a aTxs rule: frontrun_pairs.induct) (auto dest: p split: option.splits)
  then show ?thesis by (auto simp: detectFrontrunBackrunPairs_def list_all_iff Let_def)
qed

text \<open>C37: Every reported pattern names two different accounts, has a confidence between 25 and 100, and an
  estimated profit and loss that are not negative; no triple of transactions is reported twice.\<close>

theorem patterns_well_formed:
  "list_all pattern_ok (detectAllSandwiches txs) \<and> distinct (map pattern_key (detectAllSandwiches txs))"
proof -
  have "list_all pattern_ok (detectSimpleSandwiches txs @ detectMultiHopSandwiches txs @ detectCrossPoolSandwiches txs
       @ detectFrontrunBackrunPairs txs)"
    using simple_ok multi_hop_ok cross_pool_ok pairs_ok by (simp add: list_all_append)
  then have "list_all pattern_ok (detectAllSandwiches txs)"
    using first_of_key_spec [of "[]"] unfolding detectAllSandwiches_def list_all_iff by blast
  then show ?thesis using first_of_key_spec [of "[]"] by (simp add: detectAllSandwiches_def)
qed

section \<open>Concrete ledgers\<close>

definition demo_tx :: "string \<Rightarrow> int \<Rightarrow> string \<Rightarrow> string \<Rightarrow> ledger_tx" where
  "demo_tx h n source c = \<lparr>lt_hash = h, lt_position = n, lt_source = source, lt_contract = Some c, lt_function = Some ''swap'',
     lt_readable = None, lt_ledger = 7, lt_close = 0, lt_amountIn = None, lt_amountOut = None, lt_tokenIn = None,
     lt_tokenOut = None\<rparr>"

lemma demo_swap: "isSwapTx (demo_tx h n source c)"
  by (simp add: isSwapTx_def demo_tx_def or_empty_def SWAP_KEYWORDS_def to_lower_def lower_char_def starts_with_def Let_def)

text \<open>The transaction between the outer two is taken for a victim although it goes to another contract, whose
  price they do not touch.\<close>

lemma victim_pool_ignored:
  "simple_pattern (demo_tx ''f'' 1 ''A'' ''P'') (demo_tx ''v'' 2 ''V'' ''Q'') (demo_tx ''b'' 3 ''A'' ''P'')
    \<in> set (detectSimpleSandwiches [demo_tx ''f'' 1 ''A'' ''P'', demo_tx ''v'' 2 ''V'' ''Q'', demo_tx ''b'' 3 ''A'' ''P''])"
  using simple_confidence_bounds(1) [of "demo_tx ''f'' 1 ''A'' ''P''" "demo_tx ''v'' 2 ''V'' ''Q''" "demo_tx ''b'' 3 ''A'' ''P''"]
  by (simp add: detectSimpleSandwiches_def demo_swap) (simp add: demo_tx_def or_empty_def)

lemma simple_sandwiches_exact_witness:
  "simple_pattern (demo_tx ''f'' 1 ''A'' ''P'') (demo_tx ''v'' 2 ''V'' ''P'') (demo_tx ''b'' 3 ''A'' ''P'')
    \<in> set (detectSimpleSandwiches [demo_tx ''f'' 1 ''A'' ''P'', demo_tx ''v'' 2 ''V'' ''P'', demo_tx ''b'' 3 ''A'' ''P''])"
proof -
  let ?s = "[demo_tx ''f'' 1 ''A'' ''P'', demo_tx ''v'' 2 ''V'' ''P'', demo_tx ''b'' 3 ''A'' ''P'']"
  have "?s = filter isSwapTx ?s" by (simp add: demo_swap)
  moreover have "sorted_wrt (\<lambda>x y. lt_position x < lt_position y) ?s" by (simp add: demo_tx_def)
  moreover have "(0 :: nat) < 1 \<and> (1 :: nat) < 2 \<and> 2 < length ?s \<and> lt_source (?s ! 1) \<noteq> lt_source (?s ! 0) \<and> bracket (?s ! 0) (?s ! 2)"
    by (simp add: bracket_def demo_tx_def or_empty_def)
  moreover have "?s ! 0 = demo_tx ''f'' 1 ''A'' ''P''" "?s ! 1 = demo_tx ''v'' 2 ''V'' ''P''" "?s ! 2 = demo_tx ''b'' 3 ''A'' ''P''"
    by simp_all
  ultimately show ?thesis using simple_sandwiches_exact [of ?s ?s] by metis
qed

text \<open>Transactions without known tokens are all filed under one key, the colon: the check for the text
  \<open>undefined\<close> does not see them.\<close>

lemma tokenless_share_key: "token_key None None = '':''" "\<not> includes_str ''undefined'' (token_key None None)"
  by (simp_all add: token_key_def starts_with_def)

end
