(* ===== verification/Mev_Classifier.thy ===== *)
theory Mev_Classifier
  imports Sandwich_Detector
begin

text \<open>
  \<open>src/indexer/mev-classifier.ts\<close>: the classification of the transactions of a ledger and the
  tables of victims, attackers and events, and the handler of \<open>api/mev.ts\<close> that runs both. The order
  and details of a pattern are left out; sums are doubles that stay finite.
  The tables are those of the schema, with the identifier of a row (which has no default there) filled in.
\<close>

section \<open>Classification of a ledger\<close>

datatype mev_type = Mev_sandwich | Mev_flash_loan

record mev_tx =
  mt_hash :: string
  mt_close :: int
  mt_source :: string
  mt_contract :: "string option"
  mt_function :: "string option"
  mt_readable :: "string option"
  mt_flash :: "bool option"

record mev_class =
  mc_tx :: string
  mc_ledger :: int
  mc_time :: int
  mc_type :: mev_type
  mc_victim :: "string option"
  mc_attacker :: "string option"
  mc_protocol :: "string option"
  mc_profitUsd :: "rat option"
  mc_lossUsd :: "rat option"
  mc_confidence :: rat

text \<open>The comparison with \<open>swap\<close> is part of the search for it.\<close>

definition is_swap :: "mev_tx \<Rightarrow> bool" where
  "is_swap tx =
     (mt_function tx = Some ''swap''
      \<or> (case mt_function tx of None \<Rightarrow> False | Some f \<Rightarrow> includes_str ''swap'' f)
      \<or> (case mt_readable tx of None \<Rightarrow> False | Some h \<Rightarrow> includes_str ''swap'' (to_lower h)))"

definition file_swap :: "mev_tx \<Rightarrow> (string, mev_tx list) jsmap \<Rightarrow> (string, mev_tx list) jsmap" where
  "file_swap tx m = (case mt_contract tx of None \<Rightarrow> m | Some c \<Rightarrow> if c = [] then m else add_to_list c tx m)"

definition by_contract :: "mev_tx list \<Rightarrow> (string, mev_tx list) jsmap" where
  "by_contract swapTxs = fold file_swap swapTxs []"

definition sandwich_class :: "int \<Rightarrow> string \<Rightarrow> mev_tx \<Rightarrow> mev_tx \<Rightarrow> mev_class" where
  "sandwich_class ledgerSeq contract front victim =
     \<lparr>mc_tx = mt_hash victim, mc_ledger = ledgerSeq, mc_time = mt_close victim, mc_type = Mev_sandwich,
      mc_victim = Some (mt_source victim), mc_attacker = Some (mt_source front), mc_protocol = Some contract,
      mc_profitUsd = None, mc_lossUsd = None, mc_confidence = round_pos (85 / 100)\<rparr>"

fun contract_sandwiches :: "int \<Rightarrow> string \<Rightarrow> mev_tx list \<Rightarrow> mev_class list" where
  "contract_sandwiches n c (front # victim # last3 # rest) =
     (if mt_source front = mt_source last3 \<and> mt_source front \<noteq> mt_source victim then [sandwich_class n c front victim] else [])
      @ contract_sandwiches n c (victim # last3 # rest)"
| "contract_sandwiches n c txs = []"

definition flash_class :: "int \<Rightarrow> mev_tx \<Rightarrow> mev_class" where
  "flash_class ledgerSeq tx =
     \<lparr>mc_tx = mt_hash tx, mc_ledger = ledgerSeq, mc_time = mt_close tx, mc_type = Mev_flash_loan, mc_victim = None,
      mc_attacker = Some (mt_source tx), mc_protocol = mt_contract tx, mc_profitUsd = None, mc_lossUsd = None,
      mc_confidence = round_pos (9 / 10)\<rparr>"

text \<open>The transactions of the ledger in the order of their row identifiers.\<close>

definition classifyLedger :: "int \<Rightarrow> mev_tx list \<Rightarrow> mev_class list" where
  "classifyLedger ledgerSeq transactions =
     (let byContract = by_contract (filter is_swap transactions)
      in concat (map (\<lambda>(c, txs). if length txs < 3 then [] else contract_sandwiches ledgerSeq c txs) byContract)
         @ map (flash_class ledgerSeq) (filter (\<lambda>tx. mt_flash tx = Some True) transactions))"

section \<open>The tables\<close>

record victim_row =
  vr_loss :: rat
  vr_count :: nat
  vr_first :: int
  vr_last :: int

record attacker_row =
  ar_profit :: rat
  ar_count :: nat
  ar_favorite :: mev_type
  ar_first :: int
  ar_last :: int

record mev_db =
  md_victims :: "(string, victim_row) jsmap"
  md_attackers :: "(string, attacker_row) jsmap"
  md_events :: "(string, mev_class) jsmap"

definition zero_if_none :: "rat option \<Rightarrow> rat" where
  "zero_if_none x = (case x of None \<Rightarrow> 0 | Some v \<Rightarrow> v)"

definition upsert_victim :: "mev_class \<Rightarrow> mev_db \<Rightarrow> mev_db" where
  "upsert_victim c db =
     (if or_empty (mc_victim c) = [] then db
      else
        (let a = or_empty (mc_victim c); loss = zero_if_none (mc_lossUsd c) in
         db\<lparr>md_victims := jm_set a
            (case jm_get (md_victims db) a of
               None \<Rightarrow> \<lparr>vr_loss = loss, vr_count = 1, vr_first = mc_time c, vr_last = mc_time c\<rparr>
             | Some r \<Rightarrow> r\<lparr>vr_loss := fl_add (vr_loss r) loss, vr_count := vr_count r + 1, vr_last := mc_time c\<rparr>)
            (md_victims db)\<rparr>))"

definition upsert_attacker :: "mev_class \<Rightarrow> mev_db \<Rightarrow> mev_db" where
  "upsert_attacker c db =
     (if or_empty (mc_attacker c) = [] then db
      else
        (let a = or_empty (mc_attacker c); profit = zero_if_none (mc_profitUsd c) in
         db\<lparr>md_attackers := jm_set a
            (case jm_get (md_attackers db) a of
               None \<Rightarrow> \<lparr>ar_profit = profit, ar_count = 1, ar_favorite = mc_type c, ar_first = mc_time c, ar_last = mc_time c\<rparr>
             | Some r \<Rightarrow> r\<lparr>ar_profit := fl_add (ar_profit r) profit, ar_count := ar_count r + 1, ar_last := mc_time c\<rparr>)
            (md_attackers db)\<rparr>))"

definition upsert_event :: "mev_class \<Rightarrow> mev_db \<Rightarrow> mev_db" where
  "upsert_event c db =
     (case jm_get (md_events db) (mc_tx c) of
        None \<Rightarrow> db\<lparr>md_events := jm_set (mc_tx c) c (md_events db)\<rparr>
      | Some _ \<Rightarrow> db)"

definition classifyAndStore :: "mev_class \<Rightarrow> mev_db \<Rightarrow> mev_db" where
  "classifyAndStore c db = upsert_event c (upsert_attacker c (upsert_victim c db))"

text \<open>The handler. The stores of a ledger run at the same time; each of their upserts is one statement of the
  database, and the model takes them in the order of the list.\<close>

definition classify_ledger_handler :: "int \<Rightarrow> mev_tx list \<Rightarrow> mev_db \<Rightarrow> mev_db" where
  "classify_ledger_handler ledgerSeq transactions db = fold classifyAndStore (classifyLedger ledgerSeq transactions) db"

section \<open>What is classified\<close>

definition swaps_of :: "string \<Rightarrow> mev_tx list \<Rightarrow> mev_tx list" where
  "swaps_of c txs = filter (\<lambda>tx. is_swap tx \<and> mt_contract tx = Some c) txs"

lemma add_to_list_get:
  "jm_get (add_to_list k v m) k' =
    (if k' = k then Some ((case jm_get m k of None \<Rightarrow> [] | Some vs \<Rightarrow> vs) @ [v]) else jm_get m k')"
  by (auto simp: add_to_list_def)

lemma file_swaps_get:
  "jm_get (fold file_swap txs m) c =
    (if c = [] \<or> filter (\<lambda>tx. mt_contract tx = Some c) txs = [] then jm_get m c
     else Some ((case jm_get m c of None \<Rightarrow> [] | Some vs \<Rightarrow> vs) @ filter (\<lambda>tx. mt_contract tx = Some c) txs))"
  by (induction txs arbitrary: m) (auto simp: file_swap_def add_to_list_get split: option.splits)

lemma file_swaps_ok: "jm_ok m \<Longrightarrow> jm_ok (fold file_swap txs m)"
  by (induction txs arbitrary: m) (auto simp: file_swap_def add_to_list_def split: option.splits)

lemma by_contract_members:
  "(c, L) \<in> set (by_contract (filter is_swap txs)) \<longleftrightarrow> c \<noteq> [] \<and> L \<noteq> [] \<and> L = swaps_of c txs"
proof -
  have ok: "jm_ok (by_contract (filter is_swap txs))" unfolding by_contract_def by (rule file_swaps_ok) simp
  have "(c, L) \<in> set (by_contract (filter is_swap txs)) \<longleftrightarrow> jm_get (by_contract (filter is_swap txs)) c = Some L"
    using jm_ok_get_eq [OF ok] jm_get_in_set by fast
  also have "\<dots> \<longleftrightarrow> c \<noteq> [] \<and> L \<noteq> [] \<and> L = swaps_of c txs"
    by (auto simp: by_contract_def file_swaps_get swaps_of_def conj_commute)
  finally show ?thesis .
qed

lemma contract_sandwiches_iff:
  "r \<in> set (contract_sandwiches n c L) \<longleftrightarrow>
    (\<exists>i. i + 2 < length L \<and> mt_source (L ! i) = mt_source (L ! (i + 2)) \<and> mt_source (L ! i) \<noteq> mt_source (L ! (i + 1))
       \<and> r = sandwich_class n c (L ! i) (L ! (i + 1)))"
proof (induction n c L rule: contract_sandwiches.induct)
  case (1 n c f v b L)
  have s: "(\<exists>i. Q i) \<longleftrightarrow> Q 0 \<or> (\<exists>i. Q (Suc i))" for Q :: "nat \<Rightarrow> bool" by (metis not0_implies_Suc)
  show ?case using 1 by (subst s) auto
qed auto

lemma sandwiches_type: "r \<in> set (contract_sandwiches n c L) \<Longrightarrow> mc_type r = Mev_sandwich"
  by (auto simp: contract_sandwiches_iff sandwich_class_def)

lemma short_sandwiches: "length L < 3 \<Longrightarrow> contract_sandwiches n c L = []"
  by (cases "(n, c, L)" rule: contract_sandwiches.cases) auto

lemma all_lengths:
  "(\<lambda>(c, txs). if length txs < 3 then [] else contract_sandwiches n c txs) = (\<lambda>(c, txs). contract_sandwiches n c txs)"
  by (auto simp: short_sandwiches)

text \<open>The sandwiches that are classified are exactly the triples of consecutive swaps of one contract whose
  outer two come from one account and the inner one from another.\<close>

theorem classified_sandwiches_exact:
  "r \<in> set (classifyLedger n txs) \<and> mc_type r = Mev_sandwich \<longleftrightarrow>
    (\<exists>c i. c \<noteq> [] \<and> i + 2 < length (swaps_of c txs)
       \<and> mt_source (swaps_of c txs ! i) = mt_source (swaps_of c txs ! (i + 2))
       \<and> mt_source (swaps_of c txs ! i) \<noteq> mt_source (swaps_of c txs ! (i + 1))
       \<and> r = sandwich_class n c (swaps_of c txs ! i) (swaps_of c txs ! (i + 1)))"
    (is "?l \<longleftrightarrow> ?r")
proof -
  have "?l \<longleftrightarrow> (\<exists>c L. (c, L) \<in> set (by_contract (filter is_swap txs)) \<and> r \<in> set (contract_sandwiches n c L))"
    unfolding classifyLedger_def Let_def all_lengths using sandwiches_type by (auto simp: flash_class_def)
  also have "\<dots> \<longleftrightarrow> ?r"
    by (auto simp: by_contract_members contract_sandwiches_iff)
  finally show ?thesis .
qed

section \<open>What the tables count\<close>

lemma victims_store:
  "jm_get (md_victims (classifyAndStore c db)) a =
    (if a = or_empty (mc_victim c) \<and> a \<noteq> [] then
       Some (case jm_get (md_victims db) a of
           None \<Rightarrow> \<lparr>vr_loss = zero_if_none (mc_lossUsd c), vr_count = 1, vr_first = mc_time c, vr_last = mc_time c\<rparr>
         | Some r \<Rightarrow> r\<lparr>vr_loss := fl_add (vr_loss r) (zero_if_none (mc_lossUsd c)), vr_count := vr_count r + 1, vr_last := mc_time c\<rparr>)
     else jm_get (md_victims db) a)"
  by (auto simp: classifyAndStore_def upsert_event_def upsert_attacker_def upsert_victim_def Let_def split: option.splits)

lemma events_store:
  "jm_get (md_events (classifyAndStore c db)) h =
    (if h = mc_tx c \<and> jm_get (md_events db) h = None then Some c else jm_get (md_events db) h)"
  by (auto simp: classifyAndStore_def upsert_event_def upsert_attacker_def upsert_victim_def Let_def split: option.splits)

definition victim_count :: "string \<Rightarrow> mev_db \<Rightarrow> nat" where
  "victim_count a db = (case jm_get (md_victims db) a of None \<Rightarrow> 0 | Some r \<Rightarrow> vr_count r)"

definition names_victim :: "string \<Rightarrow> mev_class \<Rightarrow> bool" where
  "names_victim a c = (mc_victim c = Some a)"

lemma victim_count_fold:
  "a \<noteq> [] \<Longrightarrow> victim_count a (fold classifyAndStore cs db) = victim_count a db + length (filter (names_victim a) cs)"
  by (induction cs arbitrary: db)
    (auto simp: victim_count_def victims_store names_victim_def or_empty_def split: option.splits)

lemma events_fold:
  "jm_get (md_events (fold classifyAndStore cs db)) h =
    (case jm_get (md_events db) h of Some e \<Rightarrow> Some e | None \<Rightarrow> List.find (\<lambda>c. mc_tx c = h) cs)"
  by (induction cs arbitrary: db) (auto simp: events_store split: option.splits)

definition no_mev :: mev_db where
  "no_mev = \<lparr>md_victims = [], md_attackers = [], md_events = []\<rparr>"


text \<open>No classification carries an amount, so the recorded losses never leave zero.\<close>

lemma no_loss: "c \<in> set (classifyLedger l txs) \<Longrightarrow> mc_lossUsd c = None \<and> mc_profitUsd c = None"
  by (auto simp: classifyLedger_def Let_def flash_class_def sandwich_class_def contract_sandwiches_iff split: if_splits)

definition losses_zero :: "mev_db \<Rightarrow> bool" where
  "losses_zero db = (\<forall>a r. jm_get (md_victims db) a = Some r \<longrightarrow> vr_loss r = 0)"

lemma losses_stay_zero: "losses_zero db \<Longrightarrow> losses_zero (classify_ledger_handler l txs db)"
proof -
  have "losses_zero db \<Longrightarrow> \<forall>c \<in> set cs. mc_lossUsd c = None \<Longrightarrow> losses_zero (fold classifyAndStore cs db)" for cs
  proof (induction cs arbitrary: db)
    case (Cons c cs)
    have "losses_zero (classifyAndStore c db)"
      using Cons.prems by (auto simp: losses_zero_def victims_store zero_if_none_def fl_add_def split: option.splits if_splits)
    then show ?case using Cons by simp
  qed simp
  then show "losses_zero db \<Longrightarrow> losses_zero (classify_ledger_handler l txs db)"
    using no_loss by (simp add: classify_ledger_handler_def)
qed

section \<open>A concrete ledger\<close>

definition demo_mev :: "string \<Rightarrow> string \<Rightarrow> mev_tx" where
  "demo_mev h source = \<lparr>mt_hash = h, mt_close = 5, mt_source = source, mt_contract = Some ''P'', mt_function = Some ''swap'',
     mt_readable = None, mt_flash = Some (h = ''v'')\<rparr>"

definition demo_ledger :: "mev_tx list" where
  "demo_ledger = [demo_mev ''f'' ''A'', demo_mev ''v'' ''V'', demo_mev ''b'' ''A'']"

lemma demo_ledger_swaps: "swaps_of ''P'' demo_ledger = demo_ledger"
  by (simp add: swaps_of_def demo_ledger_def demo_mev_def is_swap_def)

lemma classified_sandwiches_exact_witness:
  "sandwich_class 9 ''P'' (demo_mev ''f'' ''A'') (demo_mev ''v'' ''V'') \<in> set (classifyLedger 9 demo_ledger)"
proof -
  have "''P'' \<noteq> [] \<and> 0 + 2 < length (swaps_of ''P'' demo_ledger)
       \<and> mt_source (swaps_of ''P'' demo_ledger ! 0) = mt_source (swaps_of ''P'' demo_ledger ! (0 + 2))
       \<and> mt_source (swaps_of ''P'' demo_ledger ! 0) \<noteq> mt_source (swaps_of ''P'' demo_ledger ! (0 + 1))
       \<and> sandwich_class 9 ''P'' (demo_mev ''f'' ''A'') (demo_mev ''v'' ''V'')
         = sandwich_class 9 ''P'' (swaps_of ''P'' demo_ledger ! 0) (swaps_of ''P'' demo_ledger ! (0 + 1))"
    unfolding demo_ledger_swaps by (simp add: demo_ledger_def demo_mev_def)
  then show ?thesis using classified_sandwiches_exact by blast
qed

lemma demo_classes:
  "classifyLedger 9 demo_ledger = [sandwich_class 9 ''P'' (demo_mev ''f'' ''A'') (demo_mev ''v'' ''V''), flash_class 9 (demo_mev ''v'' ''V'')]"
  by (simp add: classifyLedger_def by_contract_def demo_ledger_def demo_mev_def is_swap_def file_swap_def add_to_list_def
      jm_get_def jm_set_def Let_def)


text \<open>The second classification of a transaction is counted but has no event.\<close>

lemma second_class_lost:
  "jm_get (md_events (classify_ledger_handler 9 demo_ledger no_mev)) ''v''
     = Some (sandwich_class 9 ''P'' (demo_mev ''f'' ''A'') (demo_mev ''v'' ''V''))"
  unfolding classify_ledger_handler_def events_fold demo_classes
  by (simp add: no_mev_def sandwich_class_def demo_mev_def)

end
