(* ===== verification/Failed_Items.thy ===== *)
theory Failed_Items
  imports Octra_Prelude
begin

text \<open>
  \<open>src/indexer/errorQueue.ts\<close> and the clean-up of \<open>dataPruner.ts\<close>: the table of items that could
  not be decoded, its retries, and the removal of what is old. A retry pass calls a handler that is a
  parameter: it says of an item whether it fails, and with which error.
\<close>

section \<open>The queue\<close>

definition MAX_ITEM_RETRIES :: nat where
  "MAX_ITEM_RETRIES = 3"

datatype item_type = Item_transaction | Item_event

record failed_input =
  fx_type :: item_type
  fx_item :: string
  fx_ledger :: int
  fx_xdr :: "string option"
  fx_error :: "string \<times> string option"
  fx_context :: "string option"

record failed_item =
  fi_id :: nat
  fi_type :: item_type
  fi_item :: string
  fi_ledger :: int
  fi_xdr :: "string option"
  fi_error :: "string \<times> string option"
  fi_context :: "string option"
  fi_retries :: nat
  fi_dead :: bool
  fi_created :: int
  fi_tried :: int

record failed_db =
  fd_items :: "failed_item list"
  fd_next :: nat

definition find_item :: "item_type \<Rightarrow> string \<Rightarrow> failed_db \<Rightarrow> failed_item option" where
  "find_item t i db = List.find (\<lambda>r. fi_item r = i \<and> fi_type r = t) (fd_items db)"

definition failed_again :: "int \<Rightarrow> string \<times> string option \<Rightarrow> failed_item \<Rightarrow> failed_item" where
  "failed_again now err r =
     (let retryCount = fi_retries r + 1
      in r\<lparr>fi_error := err, fi_retries := retryCount, fi_dead := (MAX_ITEM_RETRIES \<le> retryCount), fi_tried := now\<rparr>)"

definition new_item :: "nat \<Rightarrow> int \<Rightarrow> failed_input \<Rightarrow> failed_item" where
  "new_item i now item =
     \<lparr>fi_id = i, fi_type = fx_type item, fi_item = fx_item item, fi_ledger = fx_ledger item, fi_xdr = fx_xdr item,
      fi_error = fx_error item, fi_context = fx_context item, fi_retries = 0, fi_dead = False, fi_created = now, fi_tried = now\<rparr>"

definition enqueueFailure :: "int \<Rightarrow> failed_input \<Rightarrow> failed_db \<Rightarrow> failed_db" where
  "enqueueFailure now item db =
     (case find_item (fx_type item) (fx_item item) db of
        Some existing \<Rightarrow> db\<lparr>fd_items := tbl_update fi_id (fi_id existing) (failed_again now (fx_error item)) (fd_items db)\<rparr>
      | None \<Rightarrow> db\<lparr>fd_items := fd_items db @ [new_item (fd_next db) now item], fd_next := Suc (fd_next db)\<rparr>)"

text \<open>The handler's answer for an item: \<open>None\<close> when it succeeds.\<close>

type_synonym item_handler = "failed_item \<Rightarrow> (string \<times> string option) option"

definition input_of :: "failed_item \<Rightarrow> string \<times> string option \<Rightarrow> failed_input" where
  "input_of r err = \<lparr>fx_type = fi_type r, fx_item = fi_item r, fx_ledger = fi_ledger r, fx_xdr = fi_xdr r,
     fx_error = err, fx_context = fi_context r\<rparr>"

definition retry_item :: "int \<Rightarrow> item_handler \<Rightarrow> failed_item \<Rightarrow> failed_db \<Rightarrow> failed_db" where
  "retry_item now h r db =
     (case h r of
        None \<Rightarrow> db\<lparr>fd_items := filter (\<lambda>x. fi_id x \<noteq> fi_id r) (fd_items db)\<rparr>
      | Some err \<Rightarrow> enqueueFailure now (input_of r err) db)"

text \<open>The rows that are not dead, oldest first.\<close>

definition pending_items :: "failed_db \<Rightarrow> failed_item list" where
  "pending_items db = sort_key fi_created (filter (\<lambda>r. \<not> fi_dead r) (fd_items db))"

definition retryFailures :: "int \<Rightarrow> item_handler \<Rightarrow> failed_db \<Rightarrow> failed_db" where
  "retryFailures now h db = fold (retry_item now h) (pending_items db) db"

section \<open>The clean-up\<close>

definition DAY_MS :: int where
  "DAY_MS = 24 * 60 * 60 * 1000"

definition prune_items :: "int \<Rightarrow> int \<Rightarrow> failed_db \<Rightarrow> failed_db" where
  "prune_items now retentionDays db =
     db\<lparr>fd_items := filter (\<lambda>r. \<not> (fi_dead r \<and> fi_created r < now - retentionDays * DAY_MS)) (fd_items db)\<rparr>"

record verification_job =
  vj_id :: nat
  vj_status :: string
  vj_created :: int

definition prune_jobs :: "int \<Rightarrow> verification_job list \<Rightarrow> verification_job list" where
  "prune_jobs now jobs =
     filter (\<lambda>j. \<not> (vj_status j \<in> {''verified'', ''failed''} \<and> vj_created j < now - 90 * DAY_MS)) jobs"

text \<open>One pass: the archive step, when a bucket is configured, comes first, and its failure ends the pass.\<close>

definition pruneExpiredData ::
  "bool \<Rightarrow> bool \<Rightarrow> int \<Rightarrow> int \<Rightarrow> failed_db \<times> verification_job list \<Rightarrow> (failed_db \<times> verification_job list) option" where
  "pruneExpiredData bucket archived now retentionDays s =
     (if bucket \<and> \<not> archived then None
      else Some (prune_items now retentionDays (fst s), prune_jobs now (snd s)))"

section \<open>Invariant\<close>

text \<open>Identifiers are unique and used up in order, an item has one row, and a row is dead exactly from the
  third retry on.\<close>

definition queue_ok :: "failed_db \<Rightarrow> bool" where
  "queue_ok db =
     (distinct (map fi_id (fd_items db)) \<and> (\<forall>r \<in> set (fd_items db). fi_id r < fd_next db)
      \<and> distinct (map (\<lambda>r. (fi_type r, fi_item r)) (fd_items db))
      \<and> (\<forall>r \<in> set (fd_items db). fi_dead r = (MAX_ITEM_RETRIES \<le> fi_retries r)))"

inductive queue_step :: "failed_db \<Rightarrow> failed_db \<Rightarrow> bool" where
  step_fail: "queue_step db (enqueueFailure now item db)"
| step_retry: "queue_step db (retryFailures now h db)"
| step_prune: "queue_step db (prune_items now days db)"

definition queue_init :: "failed_db \<Rightarrow> bool" where
  "queue_init db = (db = \<lparr>fd_items = [], fd_next = 0\<rparr>)"

lemma failed_again_keys [simp]:
  "fi_id (failed_again now e r) = fi_id r" "fi_type (failed_again now e r) = fi_type r" "fi_item (failed_again now e r) = fi_item r"
  "fi_created (failed_again now e r) = fi_created r" "fi_retries (failed_again now e r) = Suc (fi_retries r)"
  "fi_dead (failed_again now e r) = (MAX_ITEM_RETRIES \<le> Suc (fi_retries r))"
  by (simp_all add: failed_again_def)

lemma find_item_Some: "find_item t i db = Some r \<Longrightarrow> r \<in> set (fd_items db) \<and> fi_item r = i \<and> fi_type r = t"
  unfolding find_item_def by (auto simp: find_Some_iff)

lemma find_item_None: "find_item t i db = None \<longleftrightarrow> (t, i) \<notin> (\<lambda>r. (fi_type r, fi_item r)) ` set (fd_items db)"
  by (auto simp: find_item_def find_None_iff)

lemma enqueue_ok:
  assumes "queue_ok db" shows "queue_ok (enqueueFailure now item db)"
proof (cases "find_item (fx_type item) (fx_item item) db")
  case None
  then have "(fx_type item, fx_item item) \<notin> (\<lambda>r. (fi_type r, fi_item r)) ` set (fd_items db)" by (simp add: find_item_None)
  then show ?thesis
    using assms by (auto simp: enqueueFailure_def None queue_ok_def new_item_def MAX_ITEM_RETRIES_def less_Suc_eq)
next
  case (Some e)
  then show ?thesis
    using assms by (auto simp: enqueueFailure_def queue_ok_def map_tbl_update set_tbl_update)
qed

lemma filter_ok:
  assumes "queue_ok db" shows "queue_ok (db\<lparr>fd_items := filter P (fd_items db)\<rparr>)"
  using assms by (auto simp: queue_ok_def distinct_map_filter)

lemma retry_item_ok: "queue_ok db \<Longrightarrow> queue_ok (retry_item now h r db)"
  by (simp add: retry_item_def filter_ok enqueue_ok split: option.split)

lemma retries_ok: "queue_ok db \<Longrightarrow> queue_ok (fold (retry_item now h) rs db)"
  by (induction rs arbitrary: db) (simp_all add: retry_item_ok)

interpretation failed_queue: invariant_system queue_init queue_step queue_ok
proof unfold_locales
  show "queue_init s \<Longrightarrow> queue_ok s" for s by (simp add: queue_init_def queue_ok_def)
  show "queue_ok s \<Longrightarrow> queue_step s t \<Longrightarrow> queue_ok t" for s t
    by (auto simp: enqueue_ok retries_ok filter_ok retryFailures_def prune_items_def elim!: queue_step.cases)
qed

section \<open>What a retry pass does to each row\<close>

lemma row_by_key:
  assumes "queue_ok db" "r \<in> set (fd_items db)" shows "find_item (fi_type r) (fi_item r) db = Some r"
proof -
  have "find_item (fi_type r) (fi_item r) db \<noteq> None" using assms(2) by (auto simp: find_item_None)
  then obtain x where x: "find_item (fi_type r) (fi_item r) db = Some x" by blast
  then have "x = r"
    using find_item_Some [OF x] assms by (auto simp: queue_ok_def distinct_map inj_on_def)
  with x show ?thesis by simp
qed

lemma find_item_Cons:
  "find_item t i (db\<lparr>fd_items := r # rs\<rparr>) = (if fi_type r = t \<and> fi_item r = i then Some r else find_item t i (db\<lparr>fd_items := rs\<rparr>))"
  by (auto simp: find_item_def)

lemma find_removed:
  assumes "queue_ok db" "r \<in> set (fd_items db)"
  shows "find_item t i (db\<lparr>fd_items := filter (\<lambda>x. fi_id x \<noteq> fi_id r) (fd_items db)\<rparr>) =
    (if fi_type r = t \<and> fi_item r = i then None else find_item t i db)"
proof -
  have id: "x = r" if "x \<in> set (fd_items db)" "fi_id x = fi_id r" for x
    using assms that by (auto simp: queue_ok_def distinct_map inj_on_def)
  have key: "x = r" if "x \<in> set (fd_items db)" "fi_type x = fi_type r" "fi_item x = fi_item r" for x
    using assms that by (auto simp: queue_ok_def distinct_map inj_on_def)
  have "find_item t i (db\<lparr>fd_items := filter (\<lambda>x. fi_id x \<noteq> fi_id r) xs\<rparr>) =
    (if fi_type r = t \<and> fi_item r = i then None else find_item t i (db\<lparr>fd_items := xs\<rparr>))"
    if "set xs \<subseteq> set (fd_items db)" for xs
    using that
  proof (induction xs)
    case (Cons x xs)
    then show ?case using id [of x] key [of x] by (auto simp: find_item_Cons)
  qed (simp add: find_item_def)
  then show ?thesis by simp
qed

lemma find_updated:
  assumes "queue_ok db" "find_item (fx_type item) (fx_item item) db = Some e"
  shows "find_item t i (enqueueFailure now item db) =
    (if fx_type item = t \<and> fx_item item = i then Some (failed_again now (fx_error item) e) else find_item t i db)"
proof -
  have e: "e \<in> set (fd_items db)" "fi_item e = fx_item item" "fi_type e = fx_type item" using find_item_Some [OF assms(2)] by auto
  have id: "x = e" if "x \<in> set (fd_items db)" "fi_id x = fi_id e" for x
    using assms(1) e(1) that by (auto simp: queue_ok_def distinct_map inj_on_def)
  have key: "x = e" if "x \<in> set (fd_items db)" "fi_type x = fi_type e" "fi_item x = fi_item e" for x
    using assms(1) e(1) that by (auto simp: queue_ok_def distinct_map inj_on_def)
  have "find_item t i (db\<lparr>fd_items := tbl_update fi_id (fi_id e) (failed_again now (fx_error item)) xs\<rparr>) =
    (if fi_type e = t \<and> fi_item e = i \<and> e \<in> set xs then Some (failed_again now (fx_error item) e) else find_item t i (db\<lparr>fd_items := xs\<rparr>))"
    if "set xs \<subseteq> set (fd_items db)" for xs
    using that
  proof (induction xs)
    case (Cons x xs)
    have "tbl_update fi_id (fi_id e) g (x # xs) = (if fi_id x = fi_id e then g x else x) # tbl_update fi_id (fi_id e) g xs" for g
      by (simp add: tbl_update_def)
    then show ?case using Cons id [of x] key [of x] by (auto simp: find_item_Cons)
  qed (simp add: find_item_def tbl_update_def)
  then show ?thesis using e assms(2) by (simp add: enqueueFailure_def)
qed

lemma find_after_retry:
  assumes "queue_ok db" "find_item (fi_type r) (fi_item r) db = Some r"
  shows "find_item t i (retry_item now h r db) =
    (if fi_type r = t \<and> fi_item r = i then (case h r of None \<Rightarrow> None | Some e \<Rightarrow> Some (failed_again now e r)) else find_item t i db)"
proof (cases "h r")
  case None
  then show ?thesis using find_removed [OF assms(1)] find_item_Some [OF assms(2)] by (simp add: retry_item_def)
next
  case (Some e)
  then show ?thesis using find_updated [OF assms(1), of "input_of r e" r] assms(2) by (simp add: retry_item_def input_of_def)
qed

lemma find_after_retries:
  assumes "queue_ok db" "\<forall>r \<in> set rs. find_item (fi_type r) (fi_item r) db = Some r"
    "distinct (map (\<lambda>r. (fi_type r, fi_item r)) rs)"
  shows "find_item t i (fold (retry_item now h) rs db) =
    (case find_item t i db of None \<Rightarrow> None
     | Some r \<Rightarrow> if r \<in> set rs then (case h r of None \<Rightarrow> None | Some e \<Rightarrow> Some (failed_again now e r)) else Some r)"
  using assms
proof (induction rs arbitrary: db)
  case (Cons r rs)
  let ?db = "retry_item now h r db"
  have r: "find_item (fi_type r) (fi_item r) db = Some r" using Cons.prems(2) by simp
  note step = find_after_retry [OF Cons.prems(1) r, of _ _ now h]
  have other: "x \<in> set rs \<Longrightarrow> \<not> (fi_type r = fi_type x \<and> fi_item r = fi_item x)" for x using Cons.prems(3) by force
  then have "\<forall>x \<in> set rs. find_item (fi_type x) (fi_item x) ?db = Some x"
    using Cons.prems(2) by (auto simp: step)
  then have ih: "find_item t i (fold (retry_item now h) rs ?db) =
    (case find_item t i ?db of None \<Rightarrow> None
     | Some r \<Rightarrow> if r \<in> set rs then (case h r of None \<Rightarrow> None | Some e \<Rightarrow> Some (failed_again now e r)) else Some r)"
    using Cons.IH [OF retry_item_ok [OF Cons.prems(1)]] Cons.prems(3) by simp
  show ?case
  proof (cases "fi_type r = t \<and> fi_item r = i")
    case True
    have "failed_again now e r \<notin> set rs" for e using other by force
    then show ?thesis using ih step [of t i] True r by (simp split: option.split)
  next
    case False
    then have "x \<noteq> r" if "find_item t i db = Some x" for x using find_item_Some [OF that] by auto
    then show ?thesis using ih step [of t i] False by (simp split: option.split)
  qed
qed (simp split: option.split)

lemma pass_exact:
  assumes "queue_ok db"
  shows "find_item t i (retryFailures now h db) =
    (case find_item t i db of None \<Rightarrow> None
     | Some r \<Rightarrow> if fi_dead r then Some r
         else (case h r of None \<Rightarrow> None | Some e \<Rightarrow> Some (failed_again now e r)))"
proof -
  have "distinct (map (\<lambda>r. (fi_type r, fi_item r)) (pending_items db))"
    using assms unfolding pending_items_def queue_ok_def by (simp add: distinct_map inj_on_def)
  then have "find_item t i (retryFailures now h db) =
    (case find_item t i db of None \<Rightarrow> None
     | Some r \<Rightarrow> if r \<in> set (pending_items db) then (case h r of None \<Rightarrow> None | Some e \<Rightarrow> Some (failed_again now e r)) else Some r)"
    unfolding retryFailures_def using row_by_key [OF assms]
    by (intro find_after_retries [OF assms]) (auto simp: pending_items_def)
  then show ?thesis using find_item_Some by (fastforce simp: pending_items_def split: option.split)
qed

text \<open>A retry pass calls the handler once for every row that is not dead and treats each on its own: the row
  goes away when the handler succeeds, and otherwise counts one more failure, the third of which kills
  it. Dead rows are left alone.\<close>

theorem retry_pass_exact:
  assumes "reachable queue_init queue_step db"
  shows "find_item t i (retryFailures now h db) =
    (case find_item t i db of None \<Rightarrow> None
     | Some r \<Rightarrow> if fi_dead r then Some r
         else (case h r of None \<Rightarrow> None | Some e \<Rightarrow> Some (failed_again now e r)))"
  using failed_queue.reachable_inv [OF assms] by (rule pass_exact)

text \<open>The passes at the given times.\<close>

fun retry_passes :: "int list \<Rightarrow> item_handler \<Rightarrow> failed_db \<Rightarrow> failed_db" where
  "retry_passes [] h db = db"
| "retry_passes (t # ts) h db = retry_passes ts h (retryFailures t h db)"

lemma retry_passes_ok: "queue_ok db \<Longrightarrow> queue_ok (retry_passes ts h db)"
  by (induction ts arbitrary: db) (simp_all add: retryFailures_def retries_ok)

lemma passes_count:
  assumes "queue_ok db" "find_item t i db = Some r" "\<forall>x. fi_type x = t \<and> fi_item x = i \<longrightarrow> h x \<noteq> None"
  shows "\<exists>r'. find_item t i (retry_passes ts h db) = Some r' \<and>
    fi_retries r' = (if fi_dead r then fi_retries r else min (fi_retries r + length ts) MAX_ITEM_RETRIES)"
  using assms(1,2)
proof (induction ts arbitrary: db r)
  case (Cons s ts)
  have ok: "queue_ok (retryFailures s h db)" using Cons.prems(1) by (simp add: retryFailures_def retries_ok)
  have d: "fi_dead r = (MAX_ITEM_RETRIES \<le> fi_retries r)"
    using Cons.prems find_item_Some [OF Cons.prems(2)] by (simp add: queue_ok_def)
  show ?case
  proof (cases "fi_dead r")
    case True
    then have "find_item t i (retryFailures s h db) = Some r" using pass_exact [OF Cons.prems(1)] Cons.prems(2) by simp
    then show ?thesis using Cons.IH [OF ok] True by simp
  next
    case False
    then obtain e where "h r = Some e" using assms(3) find_item_Some [OF Cons.prems(2)] by blast
    then have "find_item t i (retryFailures s h db) = Some (failed_again s e r)"
      using pass_exact [OF Cons.prems(1)] Cons.prems(2) False by simp
    from Cons.IH [OF ok this] obtain r' where r': "find_item t i (retry_passes ts h (retryFailures s h db)) = Some r'"
        "fi_retries r' = (if MAX_ITEM_RETRIES \<le> Suc (fi_retries r) then Suc (fi_retries r) else min (Suc (fi_retries r) + length ts) MAX_ITEM_RETRIES)"
      by auto
    have lt: "fi_retries r < MAX_ITEM_RETRIES" using False d by simp
    have "fi_retries r' = min (fi_retries r + length (s # ts)) MAX_ITEM_RETRIES" using r'(2) lt by (cases ts) (auto simp: min_def split: if_splits)
    then show ?thesis using r'(1) False by simp
  qed
next
  case Nil
  then have "fi_dead r = (MAX_ITEM_RETRIES \<le> fi_retries r)" using find_item_Some [OF Nil(2)] by (simp add: queue_ok_def)
  then show ?case using Nil by (simp add: min_def)
qed

text \<open>C26: An item that fails whenever it is tried is tried in exactly three passes: after any number of passes its
  row is there, has counted the passes up to three, and is dead from the third one on.\<close>

theorem failing_item_gives_up:
  assumes "reachable queue_init queue_step db" "find_item t i db = None"
    and "\<forall>x. fi_type x = t \<and> fi_item x = i \<longrightarrow> h x \<noteq> None" "fx_type item = t" "fx_item item = i"
  shows "\<exists>r. find_item t i (retry_passes ts h (enqueueFailure now item db)) = Some r
    \<and> fi_retries r = min (length ts) 3 \<and> fi_dead r = (3 \<le> length ts)"
proof -
  let ?db = "enqueueFailure now item db"
  have ok: "queue_ok ?db" using failed_queue.reachable_inv [OF assms(1)] by (rule enqueue_ok)
  have n: "find_item t i ?db = Some (new_item (fd_next db) now item)"
  proof -
    have "find_item t i (db\<lparr>fd_items := xs @ [x], fd_next := n\<rparr>) = Some x"
      if "find_item t i (db\<lparr>fd_items := xs\<rparr>) = None" "fi_type x = t" "fi_item x = i" for xs x n
      using that by (induction xs) (auto simp: find_item_def)
    moreover have "find_item t i (db\<lparr>fd_items := fd_items db\<rparr>) = None" using assms(2) by simp
    ultimately show ?thesis using assms(2,4,5) by (simp add: enqueueFailure_def new_item_def)
  qed
  obtain r where r: "find_item t i (retry_passes ts h ?db) = Some r" "fi_retries r = min (length ts) MAX_ITEM_RETRIES"
    using passes_count [OF ok n assms(3), of ts] by (auto simp: new_item_def)
  have "queue_ok (retry_passes ts h ?db)"
    using ok by (rule retry_passes_ok)
  then show ?thesis
    using r find_item_Some [OF r(1)] by (auto simp: queue_ok_def MAX_ITEM_RETRIES_def)
qed

section \<open>Concrete runs\<close>

definition demo_input :: failed_input where
  "demo_input = \<lparr>fx_type = Item_event, fx_item = ''e1'', fx_ledger = 7, fx_xdr = None, fx_error = (''bad xdr'', None), fx_context = None\<rparr>"

definition empty_queue :: failed_db where
  "empty_queue = \<lparr>fd_items = [], fd_next = 0\<rparr>"

lemma reach_empty: "reachable queue_init queue_step empty_queue"
  by (rule reach_init) (simp add: queue_init_def empty_queue_def)

lemma retry_pass_exact_witness:
  "find_item Item_event ''e1'' (retryFailures 9 (\<lambda>r. Some (''again'', None)) (enqueueFailure 5 demo_input empty_queue))
    = Some (failed_again 9 (''again'', None) (new_item 0 5 demo_input))"
proof -
  have "reachable queue_init queue_step (enqueueFailure 5 demo_input empty_queue)"
    by (rule reach_step [OF reach_empty step_fail])
  moreover have "find_item Item_event ''e1'' (enqueueFailure 5 demo_input empty_queue) = Some (new_item 0 5 demo_input)"
    by (simp add: enqueueFailure_def find_item_def demo_input_def empty_queue_def new_item_def)
  moreover have "\<not> fi_dead (new_item 0 5 demo_input)" by (simp add: new_item_def)
  ultimately show ?thesis using retry_pass_exact by simp
qed

lemma failing_item_gives_up_witness:
  "\<exists>r. find_item Item_event ''e1'' (retry_passes [1, 2, 3, 4] (\<lambda>r. Some (''again'', None)) (enqueueFailure 0 demo_input empty_queue)) = Some r
    \<and> fi_retries r = 3 \<and> fi_dead r"
  using failing_item_gives_up [OF reach_empty, of Item_event "''e1''" "\<lambda>r. Some (''again'', None)" demo_input "[1, 2, 3, 4]" 0]
  by (simp add: find_item_def empty_queue_def demo_input_def numeral_3_eq_3)

text \<open>The retention of dead rows counts from their creation, not from their death: a row that is older than the
  retention goes with the first clean-up after its last retry.\<close>

lemma dies_and_is_pruned:
  assumes "queue_ok db" "find_item t i db = Some r" "\<not> fi_dead r" "fi_retries r = 2" "h r = Some e"
    and "fi_created r < now - days * DAY_MS"
  shows "(\<exists>r'. find_item t i (retryFailures now h db) = Some r' \<and> fi_dead r' \<and> fi_tried r' = now)
    \<and> find_item t i (prune_items now days (retryFailures now h db)) = None"
proof -
  have f: "find_item t i (retryFailures now h db) = Some (failed_again now e r)"
    using pass_exact [OF assms(1)] assms(2,3,5) by simp
  have ok: "queue_ok (retryFailures now h db)" using assms(1) by (simp add: retryFailures_def retries_ok)
  have "fi_dead x \<and> fi_created x < now - days * DAY_MS"
    if "x \<in> set (fd_items (retryFailures now h db))" "fi_type x = t" "fi_item x = i" for x
  proof -
    have "x = failed_again now e r" using row_by_key [OF ok that(1)] that f by simp
    then show ?thesis using assms(4,6) by (simp add: MAX_ITEM_RETRIES_def)
  qed
  then have "find_item t i (prune_items now days (retryFailures now h db)) = None"
    by (auto simp: find_item_None prune_items_def)
  then show ?thesis using f assms(4) by (simp add: MAX_ITEM_RETRIES_def failed_again_def Let_def)
qed

end
