(* ===== verification/Protocol_Guard.thy ===== *)
theory Protocol_Guard
  imports Octra_Prelude
begin

text \<open>
  \<open>src/indexer/protocol-guard.ts\<close>: the cached protocol version, the features and the status that
  follow from it, and the two wrappers that replace failures by a fallback. The answer of the RPC node is a
  parameter, \<open>None\<close> when the call fails; versions are integers.
\<close>

section \<open>The version\<close>

definition PROTOCOL_FEATURES :: "(int \<times> string list) list" where
  "PROTOCOL_FEATURES =
    [(20, [''soroban_v1'', ''invoke_host_function'']),
     (21, [''soroban_v2'', ''transaction_meta_v3'', ''diagnostic_events'']),
     (22, [''soroban_v3'', ''parallel_soroban''])]"

definition MIN_SOROBAN_PROTOCOL :: int where
  "MIN_SOROBAN_PROTOCOL = 20"

definition VERSION_CACHE_TTL_MS :: int where
  "VERSION_CACHE_TTL_MS = 5 * 60 * 1000"

record version_cache =
  vc_version :: "int option"
  vc_checked :: int

record ledger_info =
  li_camel :: "int option"
  li_snake :: "int option"

definition reported_version :: "ledger_info \<Rightarrow> int" where
  "reported_version info =
     (case li_camel info of Some v \<Rightarrow> v | None \<Rightarrow> (case li_snake info of Some v \<Rightarrow> v | None \<Rightarrow> 0))"

text \<open>The version, whether the node was asked, and the cache afterwards.\<close>

definition getProtocolVersion :: "ledger_info option \<Rightarrow> int \<Rightarrow> version_cache \<Rightarrow> int \<times> bool \<times> version_cache" where
  "getProtocolVersion rpc now c =
     (case vc_version c of
        Some v \<Rightarrow> if now - vc_checked c < VERSION_CACHE_TTL_MS then (v, False, c) else
          (case rpc of None \<Rightarrow> (v, True, c)
           | Some info \<Rightarrow> (reported_version info, True,
               if 0 < reported_version info then \<lparr>vc_version = Some (reported_version info), vc_checked = now\<rparr> else c))
      | None \<Rightarrow>
          (case rpc of None \<Rightarrow> (0, True, c)
           | Some info \<Rightarrow> (reported_version info, True,
               if 0 < reported_version info then \<lparr>vc_version = Some (reported_version info), vc_checked = now\<rparr> else c)))"

definition feature_available :: "int \<Rightarrow> string \<Rightarrow> bool" where
  "feature_available version feature = list_ex (\<lambda>(v, fs). v \<le> version \<and> feature \<in> set fs) PROTOCOL_FEATURES"

definition isFeatureAvailable :: "string \<Rightarrow> ledger_info option \<Rightarrow> int \<Rightarrow> version_cache \<Rightarrow> bool \<times> version_cache" where
  "isFeatureAvailable feature rpc now c =
     (case getProtocolVersion rpc now c of (version, asked, c') \<Rightarrow> (feature_available version feature, c'))"

datatype version_warning = Newer_than_known int | Below_minimum int

record protocol_status =
  st_current :: int
  st_min :: int
  st_supported :: bool
  st_features :: "string list"
  st_warning :: "version_warning option"

definition max_known :: int where
  "max_known = Max (set (map fst PROTOCOL_FEATURES))"

definition status_of :: "int \<Rightarrow> protocol_status" where
  "status_of currentVersion =
     (let isSupported = (MIN_SOROBAN_PROTOCOL \<le> currentVersion);
          knownFeatures = concat (map (\<lambda>(v, fs). if v \<le> currentVersion then fs else []) PROTOCOL_FEATURES)
      in \<lparr>st_current = currentVersion, st_min = MIN_SOROBAN_PROTOCOL, st_supported = isSupported, st_features = knownFeatures,
          st_warning = (if max_known < currentVersion then Some (Newer_than_known currentVersion)
            else if \<not> isSupported then Some (Below_minimum currentVersion) else None)\<rparr>)"

definition getProtocolStatus :: "ledger_info option \<Rightarrow> int \<Rightarrow> version_cache \<Rightarrow> protocol_status \<times> version_cache" where
  "getProtocolStatus rpc now c = (case getProtocolVersion rpc now c of (version, asked, c') \<Rightarrow> (status_of version, c'))"

section \<open>The wrappers\<close>

datatype parse_log = No_log | Structural_warning | Parse_error

text \<open>The wrapped function returns, or throws with a message.\<close>

definition safeXdrParse :: "string + 'a \<Rightarrow> 'a \<Rightarrow> 'a \<times> parse_log" where
  "safeXdrParse result fallback =
     (case result of
        Inr x \<Rightarrow> (x, No_log)
      | Inl msg \<Rightarrow>
          (fallback,
           if list_ex (\<lambda>p. includes_str p msg) [''unknown arm'', ''invalid switch'', ''XDR'', ''decode'', ''switch'']
           then Structural_warning else Parse_error))"

record http_error =
  he_response :: "int option"
  he_status :: "int option"

definition horizonGuard :: "http_error + 'a \<Rightarrow> 'a \<Rightarrow> http_error + 'a" where
  "horizonGuard result fallback =
     (case result of
        Inr x \<Rightarrow> Inr x
      | Inl err \<Rightarrow>
          (let status = (case he_response err of Some s \<Rightarrow> Some s | None \<Rightarrow> he_status err) in
           if status = Some 410 \<or> status = Some 404 \<or> status = Some 501 then Inr fallback else Inl err))"

section \<open>Status and features\<close>

lemma max_known_value: "max_known = 22"
  by (simp add: max_known_def PROTOCOL_FEATURES_def)

text \<open>There is no warning exactly for the versions 20 to 22; a feature is available exactly when the status
  lists it, and stays available in every later version.\<close>

theorem status_exact:
  "(st_warning (status_of v) = None \<longleftrightarrow> 20 \<le> v \<and> v \<le> 22)
   \<and> (st_supported (status_of v) \<longleftrightarrow> 20 \<le> v)
   \<and> (feature_available v f \<longleftrightarrow> f \<in> set (st_features (status_of v)))
   \<and> (feature_available v f \<longrightarrow> feature_available (v + int n) f)"
  by (auto simp: status_of_def Let_def max_known_value MIN_SOROBAN_PROTOCOL_def feature_available_def PROTOCOL_FEATURES_def)

lemma status_exact_witness:
  "feature_available 21 ''transaction_meta_v3'' \<and> feature_available (21 + int 5) ''transaction_meta_v3''"
proof -
  have "feature_available 21 ''transaction_meta_v3''" by (simp add: feature_available_def PROTOCOL_FEATURES_def)
  then show ?thesis using status_exact [of 21 "''transaction_meta_v3''" 5] by blast
qed

section \<open>The cache\<close>

text \<open>The cache holds a positive version that the node reported at the recorded time.\<close>

definition cache_ok :: "(int \<Rightarrow> ledger_info option) \<Rightarrow> version_cache \<Rightarrow> bool" where
  "cache_ok rpc c =
     (case vc_version c of None \<Rightarrow> True
      | Some v \<Rightarrow> 0 < v \<and> (\<exists>info. rpc (vc_checked c) = Some info \<and> reported_version info = v))"

text \<open>The calls at the given times, against a node that answers by \<open>rpc\<close>.\<close>

fun version_calls :: "(int \<Rightarrow> ledger_info option) \<Rightarrow> int list \<Rightarrow> version_cache \<Rightarrow> version_cache" where
  "version_calls rpc [] c = c"
| "version_calls rpc (t # ts) c = version_calls rpc ts (snd (snd (getProtocolVersion (rpc t) t c)))"

lemma call_cache_ok: "cache_ok rpc c \<Longrightarrow> cache_ok rpc (snd (snd (getProtocolVersion (rpc t) t c)))"
  by (auto simp: getProtocolVersion_def cache_ok_def split: option.splits)

lemma calls_cache_ok: "cache_ok rpc c \<Longrightarrow> cache_ok rpc (version_calls rpc ts c)"
  by (induction ts arbitrary: c) (simp_all add: call_cache_ok)

definition no_version :: version_cache where
  "no_version = \<lparr>vc_version = None, vc_checked = 0\<rparr>"

text \<open>While the node answers with a positive version, the version that is returned is one that the node
  reported, at most five minutes ago; the node is asked only when the cached one is older.\<close>

theorem version_is_recent:
  assumes "getProtocolVersion (rpc t) t (version_calls rpc ts no_version) = (v, asked, c)"
    and "rpc t = Some info" "0 < reported_version info" "\<forall>u \<in> set ts. u \<le> t"
  shows "\<exists>u info'. rpc u = Some info' \<and> v = reported_version info' \<and> u \<le> t \<and> t - u < VERSION_CACHE_TTL_MS \<and> (asked \<longrightarrow> u = t)"
proof -
  let ?c = "version_calls rpc ts no_version"
  have ok: "cache_ok rpc ?c" by (rule calls_cache_ok) (simp add: cache_ok_def no_version_def)
  have le: "vc_version (version_calls rpc ts c0) = None \<or> vc_checked (version_calls rpc ts c0) \<le> t"
    if "vc_version c0 = None \<or> vc_checked c0 \<le> t" for c0
    using that assms(4)
  proof (induction ts arbitrary: c0)
    case (Cons s ts)
    have "vc_version (snd (snd (getProtocolVersion (rpc s) s c0))) = None \<or> vc_checked (snd (snd (getProtocolVersion (rpc s) s c0))) \<le> t"
      using Cons.prems by (auto simp: getProtocolVersion_def split: option.splits)
    then show ?case using Cons by simp
  qed simp
  have "0 < VERSION_CACHE_TTL_MS" by (simp add: VERSION_CACHE_TTL_MS_def)
  then show ?thesis
    using assms(1-3) ok le [of no_version]
    by (auto simp: getProtocolVersion_def cache_ok_def no_version_def split: option.splits if_splits)
qed

definition node_20 :: "int \<Rightarrow> ledger_info option" where
  "node_20 t = (if t < 1000 then Some \<lparr>li_camel = Some 20, li_snake = None\<rparr> else Some \<lparr>li_camel = Some 21, li_snake = None\<rparr>)"

lemma version_is_recent_witness:
  "\<exists>u info'. node_20 u = Some info' \<and> fst (getProtocolVersion (node_20 2000) 2000 (version_calls node_20 [500] no_version)) = reported_version info'
    \<and> u \<le> 2000 \<and> 2000 - u < VERSION_CACHE_TTL_MS"
proof -
  obtain v asked c where r: "getProtocolVersion (node_20 2000) 2000 (version_calls node_20 [500] no_version) = (v, asked, c)"
    by (cases "getProtocolVersion (node_20 2000) 2000 (version_calls node_20 [500] no_version)") auto
  have "node_20 2000 = Some \<lparr>li_camel = Some 21, li_snake = None\<rparr>" by (simp add: node_20_def)
  moreover have "0 < reported_version \<lparr>li_camel = Some 21, li_snake = None\<rparr>" "\<forall>u \<in> set [500]. u \<le> (2000 :: int)"
    by (simp_all add: reported_version_def)
  ultimately show ?thesis using version_is_recent [OF r] unfolding r by force
qed

text \<open>A failing node does not move the time of the last check: during an outage every call asks it, and an old
  version is returned for ever.\<close>

lemma outage_asks_every_time:
  assumes "vc_version c = Some v" "VERSION_CACHE_TTL_MS \<le> now - vc_checked c"
  shows "getProtocolVersion None now c = (v, True, c)"
  using assms by (simp add: getProtocolVersion_def)

text \<open>A node that reports no version overrules the cached one.\<close>

lemma missing_version_is_zero:
  assumes "vc_version c = Some v" "VERSION_CACHE_TTL_MS \<le> now - vc_checked c"
  shows "getProtocolVersion (Some \<lparr>li_camel = None, li_snake = None\<rparr>) now c = (0, True, c)"
  using assms by (simp add: getProtocolVersion_def reported_version_def)

text \<open>The Horizon wrapper throws only errors that are no sign of a removed endpoint.\<close>

lemma horizon_throws:
  "horizonGuard r fallback = Inl err \<Longrightarrow> r = Inl err \<and> he_response err \<notin> {Some 410, Some 404, Some 501}"
  by (auto simp: horizonGuard_def Let_def split: sum.splits if_splits)

end
