(* ===== verification/Auth_Core.thy ===== *)
theory Auth_Core
  imports Octra_Prelude
begin

text \<open>
  \<open>src/auth/challenge.ts\<close>, \<open>tokens.ts\<close>, \<open>rbac.ts\<close>, \<open>middleware.ts\<close> and the handlers of
  \<open>src/api/auth.ts\<close>, \<open>authMultisig.ts\<close> and \<open>authOAuth2.ts\<close> that write: logging in with a wallet
  signature, with several signatures, or with an authorization code; sessions, their tokens and
  their revocation. Parameters are the hash, the JSON web tokens and the signatures of the
  Stellar SDK. The random values of a request are arguments. The cache returns what was stored
  until its time is over, or loses it earlier; a search of a table takes its first row. Times are milliseconds; a handler runs at one
  instant. Weights are integers; device data, metadata and displayed texts are left out.
\<close>

section \<open>State\<close>

record token_payload =
  tk_sub :: string
  tk_userId :: string
  tk_role :: string
  tk_tier :: string
  tk_session :: string
  tk_app :: string
  tk_jti :: string

record token_pair =
  tp_token :: string
  tp_refresh :: string
  tp_refreshHash :: string
  tp_tokenHash :: string
  tp_session :: string
  tp_expires :: int

text \<open>The signing of a payload with a key at a time, the check of a token (\<open>None\<close>: it is refused), the
  hash, the check of a signature (address, message, signature; \<open>None\<close>: the SDK throws), and the
  printing of times.\<close>

record auth_env =
  ae_sign :: "string \<Rightarrow> int \<Rightarrow> token_payload \<Rightarrow> string"
  ae_jwt :: "string \<Rightarrow> int \<Rightarrow> string \<Rightarrow> token_payload option"
  ae_sha :: "string \<Rightarrow> string"
  ae_verify :: "string \<Rightarrow> string \<Rightarrow> string \<Rightarrow> bool option"
  ae_iso :: "int \<Rightarrow> string"

record wallet_user =
  wu_id :: string
  wu_address :: string
  wu_role :: string
  wu_tier :: string
  wu_name :: "string option"
  wu_email :: "string option"
  wu_avatar :: "string option"
  wu_active :: bool
  wu_multi :: bool
  wu_login :: "int option"

record session_row =
  se_id :: string
  se_user :: string
  se_tokenHash :: string
  se_refreshHash :: string
  se_app :: "string option"
  se_active :: bool
  se_revoked :: "int option"
  se_reason :: "string option"
  se_last :: int
  se_expires :: int

record auth_event =
  av_user :: string
  av_session :: "string option"
  av_type :: string

record challenge =
  ch_id :: string
  ch_address :: string
  ch_network :: string
  ch_app :: string
  ch_nonce :: string
  ch_message :: string
  ch_expires :: int
  ch_attempts :: nat

record signer_status =
  sg_address :: string
  sg_weight :: int
  sg_signed :: bool
  sg_signature :: "string option"

record multisig_flow =
  mf_id :: string
  mf_address :: string
  mf_challenge :: string
  mf_signers :: "signer_status list"
  mf_threshold :: int
  mf_expires :: int
  mf_completed :: bool
  mf_app :: string

record oauth_app =
  oa_client :: string
  oa_secret :: string
  oa_uris :: "string list"
  oa_scopes :: "string list"
  oa_owner :: string
  oa_active :: bool

record oauth_code =
  oc_code :: string
  oc_client :: string
  oc_user :: string
  oc_uri :: string
  oc_scopes :: "string list"
  oc_used :: bool
  oc_expires :: int

record multisig_wallet =
  mw_address :: string
  mw_signers :: "(string \<times> int) list"
  mw_threshold :: int

type_synonym 'v ttl_map = "(string, 'v \<times> int) jsmap"

text \<open>The key pair in use, the tables, and the entries of the cache by kind of key.\<close>

record auth_state =
  as_key :: string
  as_users :: "wallet_user list"
  as_sessions :: "session_row list"
  as_events :: "auth_event list"
  as_apps :: "oauth_app list"
  as_codes :: "oauth_code list"
  as_wallets :: "multisig_wallet list"
  as_challenges :: "challenge ttl_map"
  as_tries :: "nat ttl_map"
  as_flows :: "multisig_flow ttl_map"

definition cache_read :: "int \<Rightarrow> string \<Rightarrow> 'v ttl_map \<Rightarrow> 'v option" where
  "cache_read now k m = (case jm_get m k of None \<Rightarrow> None | Some (v, e) \<Rightarrow> if now < e then Some v else None)"

definition cache_write :: "int \<Rightarrow> int \<Rightarrow> string \<Rightarrow> 'v \<Rightarrow> 'v ttl_map \<Rightarrow> 'v ttl_map" where
  "cache_write now ttl k v m = jm_set k (v, now + ttl * 1000) m"

definition blank :: "string option \<Rightarrow> bool" where
  "blank s = (s = None \<or> s = Some [])"

definition text_of :: "string option \<Rightarrow> string" where
  "text_of s = (case s of None \<Rightarrow> [] | Some t \<Rightarrow> t)"

section \<open>Challenges\<close>

definition CHALLENGE_TTL :: int where
  "CHALLENGE_TTL = 300"

definition buildChallengeMessage :: "auth_env \<Rightarrow> int \<Rightarrow> string \<Rightarrow> string \<Rightarrow> string \<Rightarrow> string" where
  "buildChallengeMessage env now nonce appId domain =
     ''Sign this message to authenticate with Octraban: '' @ domain @ '' '' @ ae_iso env now @ '' [nonce: '' @ nonce
       @ ''] [appId: '' @ appId @ '']''"

definition createChallenge ::
  "auth_env \<Rightarrow> int \<Rightarrow> string \<Rightarrow> string \<Rightarrow> string \<Rightarrow> string \<Rightarrow> string \<Rightarrow> auth_state \<Rightarrow> challenge \<times> auth_state" where
  "createChallenge env now nonce challengeId address network appId s =
     (let data = \<lparr>ch_id = challengeId, ch_address = address, ch_network = network, ch_app = appId, ch_nonce = nonce,
        ch_message = buildChallengeMessage env now nonce appId ''explorer.stellar.org'',
        ch_expires = now + CHALLENGE_TTL * 1000, ch_attempts = 0\<rparr>
      in (data, s\<lparr>as_challenges := cache_write now CHALLENGE_TTL challengeId data (as_challenges s)\<rparr>))"

definition getChallenge :: "int \<Rightarrow> string \<Rightarrow> auth_state \<Rightarrow> challenge option" where
  "getChallenge now challengeId s = cache_read now challengeId (as_challenges s)"

definition consumeChallenge :: "int \<Rightarrow> string \<Rightarrow> auth_state \<Rightarrow> challenge option \<times> auth_state" where
  "consumeChallenge now challengeId s =
     (case getChallenge now challengeId s of
        None \<Rightarrow> (None, s)
      | Some data \<Rightarrow> (Some data, s\<lparr>as_challenges := jm_delete challengeId (as_challenges s)\<rparr>))"

definition incrementAttempts :: "int \<Rightarrow> string \<Rightarrow> auth_state \<Rightarrow> nat \<times> auth_state" where
  "incrementAttempts now challengeId s =
     (case getChallenge now challengeId s of
        None \<Rightarrow> (0, s)
      | Some data \<Rightarrow>
          (let data' = data\<lparr>ch_attempts := ch_attempts data + 1\<rparr>
           in (ch_attempts data', s\<lparr>as_challenges := cache_write now CHALLENGE_TTL challengeId data' (as_challenges s)\<rparr>)))"

definition checkChallengeRateLimit :: "int \<Rightarrow> string \<Rightarrow> auth_state \<Rightarrow> bool \<times> auth_state" where
  "checkChallengeRateLimit now ip s =
     (let count = (case cache_read now ip (as_tries s) of None \<Rightarrow> 0 | Some n \<Rightarrow> n)
      in if 5 \<le> count then (False, s) else (True, s\<lparr>as_tries := cache_write now 60 ip (count + 1) (as_tries s)\<rparr>))"

section \<open>Tokens\<close>

definition ACCESS_TOKEN_TTL :: int where
  "ACCESS_TOKEN_TTL = 24 * 3600"

definition REFRESH_TOKEN_TTL :: int where
  "REFRESH_TOKEN_TTL = 30 * 24 * 3600"

text \<open>The caller always passes a session id; \<open>jti\<close> and \<open>rnd\<close> are the random values.\<close>

definition issueTokens :: "auth_env \<Rightarrow> string \<Rightarrow> int \<Rightarrow> string \<Rightarrow> string \<Rightarrow> token_payload \<Rightarrow> token_pair" where
  "issueTokens env key now jti rnd payload =
     (let token = ae_sign env key now (payload\<lparr>tk_jti := jti\<rparr>)
      in \<lparr>tp_token = token, tp_refresh = rnd, tp_refreshHash = ae_sha env rnd, tp_tokenHash = ae_sha env token,
          tp_session = tk_session payload, tp_expires = now + ACCESS_TOKEN_TTL * 1000\<rparr>)"

section \<open>Roles and tiers\<close>

definition role_rank :: "string \<Rightarrow> nat" where
  "role_rank r =
     (if r = ''developer'' then 1 else if r = ''premium'' then 2 else if r = ''admin'' then 3
      else if r = ''super_admin'' then 4 else 0)"

definition hasRole :: "string \<Rightarrow> string \<Rightarrow> bool" where
  "hasRole userRole required = (role_rank required \<le> role_rank userRole)"

datatype wallet_tier = Tier_free | Tier_developer | Tier_premium | Tier_enterprise

datatype quota = Quota nat | Unlimited

record wallet_tier_config =
  tc_perMinute :: nat
  tc_burst :: nat
  tc_webhooks :: quota
  tc_dashboards :: quota
  tc_export :: "string list"
  tc_multiSig :: bool
  tc_branding :: bool
  tc_priority :: bool
  tc_threshold :: nat

fun TIER_CONFIG :: "wallet_tier \<Rightarrow> wallet_tier_config" where
  "TIER_CONFIG Tier_free = \<lparr>tc_perMinute = 10, tc_burst = 20, tc_webhooks = Quota 0, tc_dashboards = Quota 1, tc_export = [],
     tc_multiSig = False, tc_branding = False, tc_priority = False, tc_threshold = 0\<rparr>"
| "TIER_CONFIG Tier_developer = \<lparr>tc_perMinute = 100, tc_burst = 200, tc_webhooks = Quota 3, tc_dashboards = Quota 3,
     tc_export = [''csv''], tc_multiSig = True, tc_branding = False, tc_priority = False, tc_threshold = 100\<rparr>"
| "TIER_CONFIG Tier_premium = \<lparr>tc_perMinute = 1000, tc_burst = 2000, tc_webhooks = Quota 10, tc_dashboards = Quota 10,
     tc_export = [''csv'', ''json''], tc_multiSig = True, tc_branding = False, tc_priority = True, tc_threshold = 1000\<rparr>"
| "TIER_CONFIG Tier_enterprise = \<lparr>tc_perMinute = 10000, tc_burst = 20000, tc_webhooks = Unlimited, tc_dashboards = Unlimited,
     tc_export = [''csv'', ''json'', ''all''], tc_multiSig = True, tc_branding = True, tc_priority = True, tc_threshold = 10000\<rparr>"

definition tierFromTokenHolding :: "int \<Rightarrow> wallet_tier" where
  "tierFromTokenHolding tokenBalance =
     (if 10000 \<le> tokenBalance then Tier_enterprise else if 1000 \<le> tokenBalance then Tier_premium
      else if 100 \<le> tokenBalance then Tier_developer else Tier_free)"

definition featureList :: "wallet_tier \<Rightarrow> string list" where
  "featureList tier =
     (let cfg = TIER_CONFIG tier
      in (if tc_webhooks cfg \<noteq> Quota 0 then [''webhooks''] else []) @ (if tc_multiSig cfg then [''multi_sig_auth''] else [])
         @ (if tc_export cfg \<noteq> [] then [''data_export''] else []) @ (if tc_branding cfg then [''custom_branding''] else [])
         @ (if tc_priority cfg then [''priority_rate_limit''] else []))"

section \<open>Middleware\<close>

record auth_user =
  au_id :: string
  au_address :: string
  au_role :: string
  au_tier :: string
  au_session :: string
  au_app :: string

definition bearer_token :: "string option \<Rightarrow> string option" where
  "bearer_token header =
     (case header of None \<Rightarrow> None
      | Some h \<Rightarrow> if starts_with ''Bearer '' h \<and> drop 7 h \<noteq> [] then Some (drop 7 h) else None)"

definition find_user :: "string \<Rightarrow> auth_state \<Rightarrow> wallet_user option" where
  "find_user i s = tbl_find wu_id i (as_users s)"

definition active_session :: "auth_env \<Rightarrow> token_payload \<Rightarrow> string \<Rightarrow> auth_state \<Rightarrow> session_row option" where
  "active_session env payload token s =
     List.find (\<lambda>r. se_id r = tk_session payload \<and> se_tokenHash r = ae_sha env token \<and> se_active r) (as_sessions s)"

definition user_context :: "wallet_user \<Rightarrow> token_payload \<Rightarrow> auth_user" where
  "user_context u payload = \<lparr>au_id = wu_id u, au_address = wu_address u, au_role = wu_role u, au_tier = wu_tier u,
     au_session = tk_session payload, au_app = tk_app payload\<rparr>"

text \<open>A request with this header is let through with a context, or refused (401). The update of the last
  activity runs in the background.\<close>

definition requireAuth :: "auth_env \<Rightarrow> int \<Rightarrow> string option \<Rightarrow> auth_state \<Rightarrow> auth_user option \<times> auth_state" where
  "requireAuth env now header s =
     (case bearer_token header of
        None \<Rightarrow> (None, s)
      | Some token \<Rightarrow>
          (case ae_jwt env (as_key s) now token of
             None \<Rightarrow> (None, s)
           | Some payload \<Rightarrow>
               (case active_session env payload token s of
                  None \<Rightarrow> (None, s)
                | Some session \<Rightarrow>
                    (case find_user (se_user session) s of
                       None \<Rightarrow> (None, s)
                     | Some u \<Rightarrow>
                         if \<not> wu_active u then (None, s)
                         else (Some (user_context u payload),
                           s\<lparr>as_sessions := tbl_update se_id (se_id session) (\<lambda>r. r\<lparr>se_last := now\<rparr>) (as_sessions s)\<rparr>)))))"

text \<open>\<open>optionalAuth\<close> never refuses and writes nothing.\<close>

definition optionalAuth :: "auth_env \<Rightarrow> int \<Rightarrow> string option \<Rightarrow> auth_state \<Rightarrow> auth_user option" where
  "optionalAuth env now header s =
     (case bearer_token header of
        None \<Rightarrow> None
      | Some token \<Rightarrow>
          (case ae_jwt env (as_key s) now token of
             None \<Rightarrow> None
           | Some payload \<Rightarrow>
               (case active_session env payload token s of
                  None \<Rightarrow> None
                | Some session \<Rightarrow>
                    (case find_user (se_user session) s of
                       None \<Rightarrow> None
                     | Some u \<Rightarrow> if wu_active u then Some (user_context u payload) else None))))"

text \<open>The status of a refusal, \<open>None\<close> when the request goes on.\<close>

definition requireRole :: "string \<Rightarrow> auth_user option \<Rightarrow> nat option" where
  "requireRole role user =
     (case user of None \<Rightarrow> Some 401 | Some u \<Rightarrow> if hasRole (au_role u) role then None else Some 403)"

fun tier_index :: "string \<Rightarrow> string list \<Rightarrow> int" where
  "tier_index t [] = -1"
| "tier_index t (x # xs) = (if t = x then 0 else if tier_index t xs = -1 then -1 else tier_index t xs + 1)"

definition tier_names :: "string list" where
  "tier_names = [''free'', ''developer'', ''premium'', ''enterprise'']"

definition requireTier :: "string \<Rightarrow> auth_user option \<Rightarrow> nat option" where
  "requireTier tier user =
     (case user of None \<Rightarrow> Some 401
      | Some u \<Rightarrow> if tier_index (au_tier u) tier_names < tier_index tier tier_names then Some 403 else None)"

section \<open>Logging in with a signature\<close>

datatype auth_answer =
    A_error nat
  | A_challenge string string
  | A_tokens string string string
  | A_ok
  | A_flow string string
  | A_progress int int bool
  | A_redirect string string
  | A_app string string

text \<open>Random values of a request that logs in.\<close>

record auth_random =
  rn_user :: string
  rn_session :: string
  rn_jti :: string
  rn_refresh :: string

definition postChallenge ::
  "auth_env \<Rightarrow> int \<Rightarrow> string \<Rightarrow> string \<Rightarrow> string \<Rightarrow> string option \<Rightarrow> string \<Rightarrow> string \<Rightarrow> auth_state \<Rightarrow> auth_answer \<times> auth_state" where
  "postChallenge env now nonce challengeId ip address network appId s =
     (if blank address then (A_error 400, s)
      else (case checkChallengeRateLimit now ip s of
          (allowed, s1) \<Rightarrow>
            if \<not> allowed then (A_error 429, s1)
            else (case createChallenge env now nonce challengeId (the address) network appId s1 of
               (ch, s2) \<Rightarrow> (A_challenge (ch_message ch) (ch_id ch), s2))))"

definition new_user :: "string \<Rightarrow> string \<Rightarrow> string \<Rightarrow> bool \<Rightarrow> wallet_user" where
  "new_user i address tier multi = \<lparr>wu_id = i, wu_address = address, wu_role = ''user'', wu_tier = tier, wu_name = None,
     wu_email = None, wu_avatar = None, wu_active = True, wu_multi = multi, wu_login = None\<rparr>"

text \<open>A row with an identifier that is taken is refused by the database (\<open>None\<close>).\<close>

definition create_user :: "wallet_user \<Rightarrow> auth_state \<Rightarrow> auth_state option" where
  "create_user u s =
     (if wu_id u \<in> wu_id ` set (as_users s) \<or> wu_address u \<in> wu_address ` set (as_users s) then None
      else Some (s\<lparr>as_users := as_users s @ [u]\<rparr>))"

definition create_session :: "session_row \<Rightarrow> auth_state \<Rightarrow> auth_state option" where
  "create_session r s =
     (if se_id r \<in> se_id ` set (as_sessions s) then None else Some (s\<lparr>as_sessions := as_sessions s @ [r]\<rparr>))"

definition add_event :: "string \<Rightarrow> string option \<Rightarrow> string \<Rightarrow> auth_state \<Rightarrow> auth_state" where
  "add_event u sid t s = s\<lparr>as_events := as_events s @ [\<lparr>av_user = u, av_session = sid, av_type = t\<rparr>]\<rparr>"

definition new_session :: "int \<Rightarrow> string \<Rightarrow> string \<Rightarrow> token_pair \<Rightarrow> string option \<Rightarrow> session_row" where
  "new_session now sid userId tokens appId =
     \<lparr>se_id = sid, se_user = userId, se_tokenHash = tp_tokenHash tokens, se_refreshHash = tp_refreshHash tokens,
      se_app = appId, se_active = True, se_revoked = None, se_reason = None, se_last = now,
      se_expires = now + REFRESH_TOKEN_TTL * 1000\<rparr>"

text \<open>What the three ways to log in share: tokens for the user, and the row of the session.\<close>

definition open_session ::
  "auth_env \<Rightarrow> int \<Rightarrow> auth_random \<Rightarrow> wallet_user \<Rightarrow> string option \<Rightarrow> auth_state \<Rightarrow> (token_pair \<times> auth_state) option" where
  "open_session env now rnd u appId s =
     (let tokens = issueTokens env (as_key s) now (rn_jti rnd) (rn_refresh rnd)
            \<lparr>tk_sub = wu_address u, tk_userId = wu_id u, tk_role = wu_role u, tk_tier = wu_tier u,
             tk_session = rn_session rnd, tk_app = text_of appId, tk_jti = []\<rparr>
      in (case create_session (new_session now (rn_session rnd) (wu_id u) tokens appId) s of
            None \<Rightarrow> None
          | Some s' \<Rightarrow> Some (tokens, s')))"

definition tokens_answer :: "token_pair \<Rightarrow> auth_answer" where
  "tokens_answer t = A_tokens (tp_token t) (tp_refresh t) (tp_session t)"

definition login_user :: "int \<Rightarrow> string \<Rightarrow> string \<Rightarrow> auth_state \<Rightarrow> (wallet_user \<times> auth_state) option" where
  "login_user now i address s =
     (case tbl_find wu_address address (as_users s) of
        None \<Rightarrow> map_option (\<lambda>s'. (new_user i address ''free'' False, s')) (create_user (new_user i address ''free'' False) s)
      | Some u \<Rightarrow> Some (u, s\<lparr>as_users := tbl_update wu_id (wu_id u) (\<lambda>x. x\<lparr>wu_login := Some now\<rparr>) (as_users s)\<rparr>))"

definition finish_verify :: "auth_env \<Rightarrow> int \<Rightarrow> auth_random \<Rightarrow> string \<Rightarrow> challenge \<Rightarrow> auth_state \<Rightarrow> auth_answer \<times> auth_state" where
  "finish_verify env now rnd address ch s =
     (case login_user now (rn_user rnd) address s of
        None \<Rightarrow> (A_error 500, s)
      | Some (u, s1) \<Rightarrow>
          (case open_session env now rnd u (Some (ch_app ch)) s1 of
             None \<Rightarrow> (A_error 500, s1)
           | Some (tokens, s2) \<Rightarrow> (tokens_answer tokens, add_event (wu_id u) (Some (rn_session rnd)) ''login'' s2)))"

definition postVerify ::
  "auth_env \<Rightarrow> int \<Rightarrow> auth_random \<Rightarrow> string option \<Rightarrow> string option \<Rightarrow> string option \<Rightarrow> auth_state \<Rightarrow> auth_answer \<times> auth_state" where
  "postVerify env now rnd address challengeId signature s =
     (if blank address \<or> blank challengeId \<or> blank signature then (A_error 400, s)
      else (case getChallenge now (the challengeId) s of
          None \<Rightarrow> (A_error 400, s)
        | Some ch \<Rightarrow>
            if ch_address ch \<noteq> the address then (A_error 400, s)
            else (case incrementAttempts now (the challengeId) s of
                (attempts, s1) \<Rightarrow>
                  if 3 < attempts then (A_error 429, snd (consumeChallenge now (the challengeId) s1))
                  else if ae_verify env (the address) (ch_message ch) (the signature) \<noteq> Some True then (A_error 401, s1)
                  else finish_verify env now rnd (the address) ch (snd (consumeChallenge now (the challengeId) s1)))))"

section \<open>Refresh and revocation\<close>

definition find_refresh :: "string \<Rightarrow> auth_state \<Rightarrow> session_row option" where
  "find_refresh h s = List.find (\<lambda>r. se_refreshHash r = h \<and> se_active r) (as_sessions s)"

definition rotate_row :: "int \<Rightarrow> token_pair \<Rightarrow> session_row \<Rightarrow> session_row" where
  "rotate_row now t r = r\<lparr>se_tokenHash := tp_tokenHash t, se_refreshHash := tp_refreshHash t, se_last := now\<rparr>"

text \<open>The part of the refresh after the session and its user are read.\<close>

definition finish_refresh :: "auth_env \<Rightarrow> int \<Rightarrow> auth_random \<Rightarrow> session_row \<Rightarrow> wallet_user \<Rightarrow> auth_state \<Rightarrow> auth_answer \<times> auth_state" where
  "finish_refresh env now rnd session u s =
     (let tokens = issueTokens env (as_key s) now (rn_jti rnd) (rn_refresh rnd)
            \<lparr>tk_sub = wu_address u, tk_userId = wu_id u, tk_role = wu_role u, tk_tier = wu_tier u, tk_session = se_id session,
             tk_app = (case se_app session of None \<Rightarrow> ''explorer-web'' | Some a \<Rightarrow> a), tk_jti = []\<rparr>
      in (tokens_answer tokens,
          add_event (wu_id u) (Some (se_id session)) ''token_rotated''
            (s\<lparr>as_sessions := tbl_update se_id (se_id session) (rotate_row now tokens) (as_sessions s)\<rparr>)))"

definition postRefresh :: "auth_env \<Rightarrow> int \<Rightarrow> auth_random \<Rightarrow> string option \<Rightarrow> auth_state \<Rightarrow> auth_answer \<times> auth_state" where
  "postRefresh env now rnd refreshToken s =
     (if blank refreshToken then (A_error 400, s)
      else (case find_refresh (ae_sha env (the refreshToken)) s of
          None \<Rightarrow> (A_error 401, s)
        | Some session \<Rightarrow>
            if se_expires session < now then (A_error 401, s)
            else (case find_user (se_user session) s of
                None \<Rightarrow> (A_error 500, s)
              | Some u \<Rightarrow> finish_refresh env now rnd session u s)))"

definition revoke :: "int \<Rightarrow> string \<Rightarrow> session_row \<Rightarrow> session_row" where
  "revoke now reason r = r\<lparr>se_active := False, se_revoked := Some now, se_reason := Some reason\<rparr>"

definition postLogout :: "int \<Rightarrow> auth_user \<Rightarrow> auth_state \<Rightarrow> auth_answer \<times> auth_state" where
  "postLogout now u s =
     (A_ok, add_event (au_id u) (Some (au_session u)) ''logout''
        (s\<lparr>as_sessions := tbl_update se_id (au_session u) (revoke now ''logout'') (as_sessions s)\<rparr>))"

definition postLogoutAll :: "int \<Rightarrow> auth_user \<Rightarrow> auth_state \<Rightarrow> auth_answer \<times> auth_state" where
  "postLogoutAll now u s =
     (A_ok, add_event (au_id u) None ''logout''
        (s\<lparr>as_sessions := map (\<lambda>r. if se_user r = au_id u \<and> se_active r then revoke now ''logout'' r else r) (as_sessions s)\<rparr>))"

definition deleteMe :: "int \<Rightarrow> auth_user \<Rightarrow> auth_state \<Rightarrow> auth_answer \<times> auth_state" where
  "deleteMe now u s =
     (A_ok, s\<lparr>as_sessions := map (\<lambda>r. if se_user r = au_id u then revoke now ''admin'' r else r) (as_sessions s),
        as_users := tbl_update wu_id (au_id u) (\<lambda>x. x\<lparr>wu_active := False\<rparr>) (as_users s)\<rparr>)"

definition deleteSession :: "int \<Rightarrow> auth_user \<Rightarrow> string \<Rightarrow> auth_state \<Rightarrow> auth_answer \<times> auth_state" where
  "deleteSession now u i s =
     (case List.find (\<lambda>r. se_id r = i \<and> se_user r = au_id u) (as_sessions s) of
        None \<Rightarrow> (A_error 404, s)
      | Some session \<Rightarrow> (A_ok, s\<lparr>as_sessions := tbl_update se_id (se_id session) (revoke now ''logout'') (as_sessions s)\<rparr>))"

text \<open>A field that the body leaves out (\<open>None\<close>) is kept; it may be set to \<open>null\<close>.\<close>

record profile_patch =
  pp_name :: "string option option"
  pp_email :: "string option option"
  pp_avatar :: "string option option"

definition patchMe :: "profile_patch \<Rightarrow> auth_user \<Rightarrow> auth_state \<Rightarrow> auth_answer \<times> auth_state" where
  "patchMe p u s =
     (A_ok, s\<lparr>as_users := tbl_update wu_id (au_id u)
        (\<lambda>x. x\<lparr>wu_name := set_if (pp_name p) (wu_name x), wu_email := set_if (pp_email p) (wu_email x),
               wu_avatar := set_if (pp_avatar p) (wu_avatar x)\<rparr>) (as_users s)\<rparr>)"

definition rotateKeys :: "string \<Rightarrow> auth_state \<Rightarrow> auth_answer \<times> auth_state" where
  "rotateKeys key s = (A_ok, s\<lparr>as_key := key\<rparr>)"

section \<open>Several signatures\<close>

definition FLOW_TTL :: int where
  "FLOW_TTL = 600"

definition flow_text :: "string \<Rightarrow> string \<Rightarrow> string \<Rightarrow> string" where
  "flow_text address nonce flowId =
     ''Authenticate multi-sig wallet '' @ address @ '' [nonce: '' @ nonce @ ''] [flow: '' @ flowId @ '']''"

definition postInitiate ::
  "int \<Rightarrow> string \<Rightarrow> string \<Rightarrow> string option \<Rightarrow> (string \<times> int) list option \<Rightarrow> int option \<Rightarrow> string \<Rightarrow> auth_state
    \<Rightarrow> auth_answer \<times> auth_state" where
  "postInitiate now nonce flowId multisigAddress signers threshold appId s =
     (if blank multisigAddress \<or> signers = None \<or> threshold = None \<or> threshold = Some 0 then (A_error 400, s)
      else
        (let flow = \<lparr>mf_id = flowId, mf_address = the multisigAddress, mf_challenge = flow_text (the multisigAddress) nonce flowId,
               mf_signers = map (\<lambda>(a, w). \<lparr>sg_address = a, sg_weight = w, sg_signed = False, sg_signature = None\<rparr>) (the signers),
               mf_threshold = the threshold, mf_expires = now + FLOW_TTL * 1000, mf_completed = False, mf_app = appId\<rparr>
         in (A_flow flowId (mf_challenge flow), s\<lparr>as_flows := cache_write now FLOW_TTL flowId flow (as_flows s)\<rparr>)))"

definition signed_weight :: "multisig_flow \<Rightarrow> int" where
  "signed_weight flow = sum_list (map sg_weight (filter sg_signed (mf_signers flow)))"

text \<open>\<open>find\<close> returns the first signer with the address, which is then changed in place.\<close>

fun sign_first :: "string \<Rightarrow> string \<Rightarrow> signer_status list \<Rightarrow> signer_status list" where
  "sign_first a sig [] = []"
| "sign_first a sig (x # xs) =
     (if sg_address x = a then x\<lparr>sg_signed := True, sg_signature := Some sig\<rparr> # xs else x # sign_first a sig xs)"

definition contributed :: "string \<Rightarrow> string \<Rightarrow> multisig_flow \<Rightarrow> multisig_flow" where
  "contributed a sig flow = flow\<lparr>mf_signers := sign_first a sig (mf_signers flow)\<rparr>"

text \<open>The part of a contribution after the flow is read.\<close>

definition finish_contribute ::
  "auth_env \<Rightarrow> int \<Rightarrow> string \<Rightarrow> string \<Rightarrow> string \<Rightarrow> multisig_flow \<Rightarrow> auth_state \<Rightarrow> auth_answer \<times> auth_state" where
  "finish_contribute env now flowId a sig flow s =
     (if mf_completed flow then (A_error 400, s)
      else (case List.find (\<lambda>x. sg_address x = a) (mf_signers flow) of
          None \<Rightarrow> (A_error 400, s)
        | Some signer \<Rightarrow>
            if sg_signed signer then (A_error 400, s)
            else if ae_verify env a (mf_challenge flow) sig \<noteq> Some True then (A_error 401, s)
            else
              (let flow' = contributed a sig flow
               in (A_progress (signed_weight flow') (mf_threshold flow') (mf_threshold flow' \<le> signed_weight flow'),
                   s\<lparr>as_flows := cache_write now FLOW_TTL flowId flow' (as_flows s)\<rparr>))))"

definition postContribute ::
  "auth_env \<Rightarrow> int \<Rightarrow> string option \<Rightarrow> string option \<Rightarrow> string option \<Rightarrow> auth_state \<Rightarrow> auth_answer \<times> auth_state" where
  "postContribute env now flowId a sig s =
     (if blank flowId \<or> blank a \<or> blank sig then (A_error 400, s)
      else (case cache_read now (the flowId) (as_flows s) of
          None \<Rightarrow> (A_error 404, s)
        | Some flow \<Rightarrow> finish_contribute env now (the flowId) (the a) (the sig) flow s))"

definition multisig_user :: "string \<Rightarrow> string \<Rightarrow> auth_state \<Rightarrow> (wallet_user \<times> auth_state) option" where
  "multisig_user i address s =
     (case tbl_find wu_address address (as_users s) of
        None \<Rightarrow> map_option (\<lambda>s'. (new_user i address ''developer'' True, s')) (create_user (new_user i address ''developer'' True) s)
      | Some u \<Rightarrow> Some (u, s))"

definition postComplete :: "auth_env \<Rightarrow> int \<Rightarrow> auth_random \<Rightarrow> string option \<Rightarrow> auth_state \<Rightarrow> auth_answer \<times> auth_state" where
  "postComplete env now rnd flowId s =
     (if blank flowId then (A_error 400, s)
      else (case cache_read now (the flowId) (as_flows s) of
          None \<Rightarrow> (A_error 404, s)
        | Some flow \<Rightarrow>
            if mf_completed flow then (A_error 400, s)
            else if signed_weight flow < mf_threshold flow then (A_error 400, s)
            else
              (let s1 = s\<lparr>as_flows := cache_write now 60 (the flowId) (flow\<lparr>mf_completed := True\<rparr>) (as_flows s)\<rparr>
               in (case multisig_user (rn_user rnd) (mf_address flow) s1 of
                     None \<Rightarrow> (A_error 500, s1)
                   | Some (u, s2) \<Rightarrow>
                       (case open_session env now rnd u (Some (mf_app flow)) s2 of
                          None \<Rightarrow> (A_error 500, s2)
                        | Some (tokens, s3) \<Rightarrow> (tokens_answer tokens, s3))))))"

definition upsert_wallet :: "multisig_wallet \<Rightarrow> multisig_wallet list \<Rightarrow> multisig_wallet list" where
  "upsert_wallet w ws =
     (if mw_address w \<in> mw_address ` set ws then tbl_update mw_address (mw_address w) (\<lambda>_. w) ws else ws @ [w])"

definition postWallet :: "string option \<Rightarrow> (string \<times> int) list option \<Rightarrow> int option \<Rightarrow> auth_state \<Rightarrow> auth_answer \<times> auth_state" where
  "postWallet a signers threshold s =
     (if blank a \<or> signers = None \<or> threshold = None \<or> threshold = Some 0 then (A_error 400, s)
      else (A_ok, s\<lparr>as_wallets :=
        upsert_wallet \<lparr>mw_address = the a, mw_signers = the signers, mw_threshold = the threshold\<rparr> (as_wallets s)\<rparr>))"

section \<open>Authorization codes\<close>

definition postApp :: "auth_env \<Rightarrow> string \<Rightarrow> string \<Rightarrow> string option \<Rightarrow> string list option \<Rightarrow> string list \<Rightarrow> auth_user \<Rightarrow> auth_state
    \<Rightarrow> auth_answer \<times> auth_state" where
  "postApp env clientId clientSecret name uris scopes u s =
     (if blank name \<or> uris = None then (A_error 400, s)
      else if clientId \<in> oa_client ` set (as_apps s) then (A_error 500, s)
      else (A_app clientId clientSecret, s\<lparr>as_apps := as_apps s @
        [\<lparr>oa_client = clientId, oa_secret = ae_sha env clientSecret, oa_uris = the uris, oa_scopes = scopes,
          oa_owner = au_id u, oa_active = True\<rparr>]\<rparr>))"

definition deleteApp :: "string \<Rightarrow> auth_user \<Rightarrow> auth_state \<Rightarrow> auth_answer \<times> auth_state" where
  "deleteApp clientId u s =
     (case List.find (\<lambda>a. oa_client a = clientId \<and> oa_owner a = au_id u) (as_apps s) of
        None \<Rightarrow> (A_error 404, s)
      | Some app \<Rightarrow> (A_ok, s\<lparr>as_apps := tbl_update oa_client (oa_client app) (\<lambda>a. a\<lparr>oa_active := False\<rparr>) (as_apps s)\<rparr>))"

text \<open>A condition on a column whose value is left out (\<open>None\<close>, JavaScript's \<open>undefined\<close>) is not applied by
  the database client.\<close>

definition matches_if :: "'a option \<Rightarrow> 'a \<Rightarrow> bool" where
  "matches_if v x = (case v of None \<Rightarrow> True | Some y \<Rightarrow> x = y)"

definition find_app :: "string option \<Rightarrow> auth_state \<Rightarrow> oauth_app option" where
  "find_app clientId s = List.find (\<lambda>a. matches_if clientId (oa_client a) \<and> oa_active a) (as_apps s)"

definition query_scopes :: "string \<Rightarrow> string list" where
  "query_scopes scope = filter (\<lambda>x. x \<noteq> []) (split_on CHR '' '' scope)"

record authorize_query =
  aq_client :: "string option"
  aq_uri :: "string option"
  aq_type :: "string option"
  aq_scope :: string
  aq_state :: "string option"

text \<open>Without a client id the row of the code cannot be created: the column is required.\<close>

definition getAuthorize :: "int \<Rightarrow> string \<Rightarrow> authorize_query \<Rightarrow> auth_user \<Rightarrow> auth_state \<Rightarrow> auth_answer \<times> auth_state" where
  "getAuthorize now code q u s =
     (if aq_type q \<noteq> Some ''code'' then (A_error 400, s)
      else (case find_app (aq_client q) s of
          None \<Rightarrow> (A_error 400, s)
        | Some app \<Rightarrow>
            if aq_uri q = None \<or> the (aq_uri q) \<notin> set (oa_uris app) then (A_error 400, s)
            else if aq_client q = None \<or> code \<in> oc_code ` set (as_codes s) then (A_error 500, s)
            else (A_redirect (the (aq_uri q)) (''?code='' @ code @
                (case aq_state q of None \<Rightarrow> [] | Some st \<Rightarrow> if st = [] then [] else ''&state='' @ st)),
              s\<lparr>as_codes := as_codes s @ [\<lparr>oc_code = code, oc_client = the (aq_client q), oc_user = au_id u,
                oc_uri = the (aq_uri q), oc_scopes = query_scopes (aq_scope q), oc_used = False, oc_expires = now + 600000\<rparr>]\<rparr>)))"

record token_query =
  tq_grant :: "string option"
  tq_code :: "string option"
  tq_client :: "string option"
  tq_secret :: "string option"
  tq_uri :: "string option"

definition find_code :: "token_query \<Rightarrow> auth_state \<Rightarrow> oauth_code option" where
  "find_code q s =
     List.find (\<lambda>c. matches_if (tq_code q) (oc_code c) \<and> matches_if (tq_client q) (oc_client c) \<and> \<not> oc_used c) (as_codes s)"

definition postToken :: "auth_env \<Rightarrow> int \<Rightarrow> auth_random \<Rightarrow> token_query \<Rightarrow> auth_state \<Rightarrow> auth_answer \<times> auth_state" where
  "postToken env now rnd q s =
     (if tq_grant q \<noteq> Some ''authorization_code'' then (A_error 400, s)
      else (case find_app (tq_client q) s of
          None \<Rightarrow> (A_error 401, s)
        | Some app \<Rightarrow>
            if ae_sha env (text_of (tq_secret q)) \<noteq> oa_secret app then (A_error 401, s)
            else (case find_code q s of
                None \<Rightarrow> (A_error 400, s)
              | Some c \<Rightarrow>
                  if oc_expires c < now \<or> tq_uri q \<noteq> Some (oc_uri c) then (A_error 400, s)
                  else
                    (let s1 = s\<lparr>as_codes := tbl_update oc_code (oc_code c) (\<lambda>c. c\<lparr>oc_used := True\<rparr>) (as_codes s)\<rparr>
                     in (case find_user (oc_user c) s1 of
                           None \<Rightarrow> (A_error 400, s1)
                         | Some u \<Rightarrow>
                             (case open_session env now rnd u (tq_client q) s1 of
                                None \<Rightarrow> (A_error 500, s1)
                              | Some (tokens, s2) \<Rightarrow> (tokens_answer tokens, s2)))))))"

end
