(* ===== verification/Auth_Props.thy ===== *)
theory Auth_Props
  imports Auth_Core
begin

text \<open>
  Requests against the authentication service as the step relation \<open>auth_step\<close>, its invariant,
  and what the service promises: which requests log in, that a revoked session and a deleted account
  stay out, that a challenge and an authorization code are used once, how many challenges an address
  gets. Also where it does not: sessions for wallets of others.
\<close>

section \<open>Requests\<close>

text \<open>A handler behind \<open>requireAuth\<close>.\<close>

definition guarded ::
  "auth_env \<Rightarrow> int \<Rightarrow> string option \<Rightarrow> (auth_user \<Rightarrow> auth_state \<Rightarrow> auth_answer \<times> auth_state) \<Rightarrow> auth_state \<Rightarrow> auth_answer \<times> auth_state" where
  "guarded env now header f s =
     (case requireAuth env now header s of (None, s1) \<Rightarrow> (A_error 401, s1) | (Some u, s1) \<Rightarrow> f u s1)"

definition rotate_handler :: "string \<Rightarrow> auth_user \<Rightarrow> auth_state \<Rightarrow> auth_answer \<times> auth_state" where
  "rotate_handler key u s =
     (case requireRole ''admin'' (Some u) of None \<Rightarrow> rotateKeys key s | Some n \<Rightarrow> (A_error n, s))"

text \<open>\<open>late_refresh\<close>: a refresh that read a session and its user some time ago. \<open>forget\<close>: the cache loses an
  entry.\<close>

inductive auth_step :: "auth_env \<Rightarrow> auth_state \<Rightarrow> auth_state \<Rightarrow> bool" for env where
  challenge: "auth_step env s (snd (postChallenge env now nonce i ip address network app s))"
| verify: "auth_step env s (snd (postVerify env now rnd address i sig s))"
| refresh: "auth_step env s (snd (postRefresh env now rnd token s))"
| late_refresh: "auth_step env s (snd (finish_refresh env now rnd session u s))"
| logout: "auth_step env s (snd (guarded env now h (postLogout now) s))"
| logout_all: "auth_step env s (snd (guarded env now h (postLogoutAll now) s))"
| delete_me: "auth_step env s (snd (guarded env now h (deleteMe now) s))"
| delete_session: "auth_step env s (snd (guarded env now h (\<lambda>u. deleteSession now u i) s))"
| patch_me: "auth_step env s (snd (guarded env now h (patchMe p) s))"
| rotate: "auth_step env s (snd (guarded env now h (rotate_handler key) s))"
| initiate: "auth_step env s (snd (postInitiate now nonce i a signers t app s))"
| contribute: "auth_step env s (snd (postContribute env now i a sig s))"
| complete: "auth_step env s (snd (postComplete env now rnd i s))"
| wallet: "auth_step env s (snd (guarded env now h (\<lambda>u. postWallet a ws t) s))"
| app: "auth_step env s (snd (guarded env now h (postApp env i secret name uris scopes) s))"
| delete_app: "auth_step env s (snd (guarded env now h (deleteApp i) s))"
| authorize: "auth_step env s (snd (guarded env now h (getAuthorize now code q) s))"
| token: "auth_step env s (snd (postToken env now rnd tq s))"
| forget: "auth_step env s (s\<lparr>as_challenges := jm_delete k (as_challenges s), as_tries := jm_delete k (as_tries s),
    as_flows := jm_delete k (as_flows s)\<rparr>)"

section \<open>Tables that grow\<close>

text \<open>Rows keep their place and key and change only as \<open>keep\<close> allows; new rows have new keys.\<close>

definition grown :: "('r \<Rightarrow> 'k) \<Rightarrow> ('r \<Rightarrow> 'r \<Rightarrow> bool) \<Rightarrow> 'r list \<Rightarrow> 'r list \<Rightarrow> bool" where
  "grown key keep old new =
     (\<exists>old' rest. new = old' @ rest \<and> list_all2 (\<lambda>r r'. key r' = key r \<and> keep r r') old old'
        \<and> distinct (map key rest) \<and> key ` set rest \<inter> key ` set old = {})"

lemma kept_keys: "list_all2 (\<lambda>r r'. key r' = key r \<and> keep r r') old old' \<Longrightarrow> map key old' = map key old"
  by (induction rule: list_all2_induct) auto

lemma grown_refl: "(\<And>r. keep r r) \<Longrightarrow> grown key keep L L"
  unfolding grown_def by (rule exI [of _ L], rule exI [of _ "[]"]) (simp add: list_all2_refl)

lemma grown_map: "(\<And>r. key (f r) = key r \<and> keep r (f r)) \<Longrightarrow> grown key keep L (map f L)"
  unfolding grown_def
  by (rule exI [of _ "map f L"], rule exI [of _ "[]"]) (simp add: list_all2_conv_all_nth)

lemma grown_add: "(\<And>r. keep r r) \<Longrightarrow> key r \<notin> key ` set L \<Longrightarrow> grown key keep L (L @ [r])"
  unfolding grown_def by (rule exI [of _ L], rule exI [of _ "[r]"]) (simp add: list_all2_refl)

lemma grown_trans:
  assumes tr: "\<And>x y z. keep x y \<Longrightarrow> keep y z \<Longrightarrow> keep x z" and 1: "grown key keep A B" and 2: "grown key keep B C"
  shows "grown key keep A C"
proof -
  let ?R = "\<lambda>r r'. key r' = key r \<and> keep r r'"
  obtain A' F where a: "B = A' @ F" "list_all2 ?R A A'" "distinct (map key F)" "key ` set F \<inter> key ` set A = {}"
    using 1 by (auto simp: grown_def)
  obtain B' G where b: "C = B' @ G" "list_all2 ?R B B'" "distinct (map key G)" "key ` set G \<inter> key ` set B = {}"
    using 2 by (auto simp: grown_def)
  obtain A'' F' where c: "B' = A'' @ F'" "list_all2 ?R A' A''" "list_all2 ?R F F'"
    using a(1) b(2) by (auto simp: list_all2_append1)
  have "list_all2 ?R A A''" by (rule list_all2_trans [OF _ a(2) c(2)]) (auto intro: tr)
  moreover have F': "map key F' = map key F" by (rule kept_keys [OF c(3)])
  moreover have "key ` set F' = key ` set F" using F' by (metis list.set_map)
  moreover have "key ` set A' = key ` set A" using kept_keys [OF a(2)] by (metis list.set_map)
  moreover have "key ` set B = key ` set A \<union> key ` set F" using a(1) \<open>key ` set A' = key ` set A\<close> by (simp add: image_Un)
  ultimately have k: "distinct (map key (F' @ G))" "key ` set (F' @ G) \<inter> key ` set A = {}" "list_all2 ?R A A''"
    using a(3,4) b(3,4) by (auto simp: image_Un)
  show ?thesis unfolding grown_def by (rule exI [of _ A''], rule exI [of _ "F' @ G"]) (use k b(1) c(1) in simp)
qed

lemma grown_distinct:
  assumes "grown key keep old new" "distinct (map key old)" shows "distinct (map key new)"
proof -
  obtain old' rest where g: "new = old' @ rest" "list_all2 (\<lambda>r r'. key r' = key r \<and> keep r r') old old'"
    "distinct (map key rest)" "key ` set rest \<inter> key ` set old = {}" using assms(1) by (auto simp: grown_def)
  have k: "map key old' = map key old" by (rule kept_keys [OF g(2)])
  then have "key ` set old' = key ` set old" by (metis list.set_map)
  then show ?thesis using g(1,3,4) k assms(2) by (auto simp: distinct_append)
qed

lemma grown_row:
  assumes "grown key keep old new" "r \<in> set old"
  shows "\<exists>r' \<in> set new. key r' = key r \<and> keep r r'"
proof -
  obtain old' rest where g: "new = old' @ rest" "list_all2 (\<lambda>r r'. key r' = key r \<and> keep r r') old old'"
    using assms(1) by (auto simp: grown_def)
  obtain i where i: "i < length old" "old ! i = r" using assms(2) by (auto simp: in_set_conv_nth)
  then have "old' ! i \<in> set new" "key (old' ! i) = key r \<and> keep r (old' ! i)"
    using g by (auto simp: list_all2_conv_all_nth)
  then show ?thesis by blast
qed

lemma grown_back:
  assumes "grown key keep old new" "r' \<in> set new" "key r' \<in> key ` set old"
  shows "\<exists>r \<in> set old. key r' = key r \<and> keep r r'"
proof -
  obtain old' rest where g: "new = old' @ rest" "list_all2 (\<lambda>r r'. key r' = key r \<and> keep r r') old old'"
    "key ` set rest \<inter> key ` set old = {}" using assms(1) by (auto simp: grown_def)
  then have "r' \<in> set old'" using assms(2,3) by auto
  then obtain i where i: "i < length old'" "old' ! i = r'" by (auto simp: in_set_conv_nth)
  then have "old ! i \<in> set old" "key r' = key (old ! i) \<and> keep (old ! i) r'" using g(2) by (auto simp: list_all2_conv_all_nth)
  then show ?thesis by blast
qed

section \<open>What a step may do to the tables\<close>

text \<open>A revoked session, an inactive user and a used code stay so.\<close>

definition session_kept :: "session_row \<Rightarrow> session_row \<Rightarrow> bool" where
  "session_kept r r' = (se_user r' = se_user r \<and> (se_active r' \<longrightarrow> se_active r))"

definition user_kept :: "wallet_user \<Rightarrow> wallet_user \<Rightarrow> bool" where
  "user_kept u u' = (wu_id u' = wu_id u \<and> wu_address u' = wu_address u \<and> wu_role u' = wu_role u \<and> (wu_active u' \<longrightarrow> wu_active u))"

definition code_kept :: "oauth_code \<Rightarrow> oauth_code \<Rightarrow> bool" where
  "code_kept c c' = (oc_user c' = oc_user c \<and> (oc_used c \<longrightarrow> oc_used c'))"

definition sessions_grown :: "auth_state \<Rightarrow> auth_state \<Rightarrow> bool" where
  "sessions_grown s s' = grown se_id session_kept (as_sessions s) (as_sessions s')"

definition users_grown :: "auth_state \<Rightarrow> auth_state \<Rightarrow> bool" where
  "users_grown s s' = (grown wu_id user_kept (as_users s) (as_users s') \<and> grown wu_address user_kept (as_users s) (as_users s'))"

definition codes_grown :: "auth_state \<Rightarrow> auth_state \<Rightarrow> bool" where
  "codes_grown s s' = grown oc_code code_kept (as_codes s) (as_codes s')"

definition tables_grown :: "auth_state \<Rightarrow> auth_state \<Rightarrow> bool" where
  "tables_grown s s' = (sessions_grown s s' \<and> users_grown s s' \<and> codes_grown s s')"

lemma kept_refl [simp]: "session_kept r r" "user_kept u u" "code_kept c c"
  by (simp_all add: session_kept_def user_kept_def code_kept_def)

lemma tables_refl [simp]: "tables_grown s s"
  by (simp add: tables_grown_def sessions_grown_def users_grown_def codes_grown_def grown_refl)

lemma tables_trans: "tables_grown a b \<Longrightarrow> tables_grown b c \<Longrightarrow> tables_grown a c"
  unfolding tables_grown_def sessions_grown_def users_grown_def codes_grown_def
  by (auto elim!: grown_trans [rotated] simp: session_kept_def user_kept_def code_kept_def)

lemma same_tables: "as_sessions s' = as_sessions s \<Longrightarrow> as_users s' = as_users s \<Longrightarrow> as_codes s' = as_codes s \<Longrightarrow> tables_grown s s'"
  by (simp add: tables_grown_def sessions_grown_def users_grown_def codes_grown_def grown_refl)

lemma sessions_mapped:
  assumes "\<And>r. se_id (f r) = se_id r \<and> session_kept r (f r)"
  shows "tables_grown s (s\<lparr>as_sessions := map f (as_sessions s)\<rparr>)"
  using assms by (simp add: tables_grown_def sessions_grown_def users_grown_def codes_grown_def grown_refl grown_map)

lemma users_mapped:
  assumes "\<And>u. user_kept u (f u)"
  shows "tables_grown s (s\<lparr>as_users := map f (as_users s)\<rparr>)"
proof -
  have "grown wu_id user_kept (as_users s) (map f (as_users s))" "grown wu_address user_kept (as_users s) (map f (as_users s))"
    using assms by (auto intro!: grown_map simp: user_kept_def)
  then show ?thesis by (simp add: tables_grown_def sessions_grown_def users_grown_def codes_grown_def grown_refl)
qed

lemma codes_mapped:
  assumes "\<And>r. oc_code (f r) = oc_code r \<and> code_kept r (f r)"
  shows "tables_grown s (s\<lparr>as_codes := map f (as_codes s)\<rparr>)"
  using assms by (simp add: tables_grown_def sessions_grown_def users_grown_def codes_grown_def grown_refl grown_map)

lemma create_session_grown: "create_session r s = Some s' \<Longrightarrow> tables_grown s s'"
  by (auto simp: create_session_def tables_grown_def sessions_grown_def users_grown_def codes_grown_def grown_refl
      intro!: grown_add split: if_splits)

lemma create_user_grown: "create_user u s = Some s' \<Longrightarrow> tables_grown s s'"
  by (auto simp: create_user_def tables_grown_def sessions_grown_def users_grown_def codes_grown_def grown_refl
      intro!: grown_add split: if_splits)

lemma session_kept_same: "se_user r' = se_user r \<Longrightarrow> se_active r' = se_active r \<Longrightarrow> session_kept r r'"
  by (simp add: session_kept_def)

lemma requireAuth_grown: "tables_grown s (snd (requireAuth env now h s))"
  by (auto simp: requireAuth_def tbl_update_def session_kept_def split: option.splits intro!: sessions_mapped)

lemma login_user_grown: "login_user now i a s = Some (u, s') \<Longrightarrow> tables_grown s s'"
  by (auto simp: login_user_def tbl_update_def user_kept_def split: option.splits intro: create_user_grown intro!: users_mapped)

lemma multisig_user_grown: "multisig_user i a s = Some (u, s') \<Longrightarrow> tables_grown s s'"
  by (auto simp: multisig_user_def split: option.splits intro: create_user_grown)

lemma open_session_grown: "open_session env now rnd u app s = Some (t, s') \<Longrightarrow> tables_grown s s'"
  by (auto simp: open_session_def Let_def split: option.splits intro: create_session_grown)

lemma add_event_grown: "tables_grown s t \<Longrightarrow> tables_grown s (add_event u i x t)"
  by (rule tables_trans) (auto simp: add_event_def intro: same_tables)

lemma consume_grown: "tables_grown s (snd (consumeChallenge now i s))"
  by (auto simp: consumeChallenge_def split: option.splits intro: same_tables)

lemma increment_grown: "tables_grown s (snd (incrementAttempts now i s))"
  by (auto simp: incrementAttempts_def Let_def split: option.splits intro: same_tables)

lemma finish_verify_grown: "tables_grown s (snd (finish_verify env now rnd a ch s))"
  by (auto simp: finish_verify_def split: option.splits intro: login_user_grown
      intro!: add_event_grown dest!: login_user_grown open_session_grown elim: tables_trans)

lemma challenge_grown: "tables_grown s (snd (postChallenge env now nonce i ip address network app s))"
  by (auto simp: postChallenge_def checkChallengeRateLimit_def createChallenge_def Let_def split: prod.splits if_splits option.splits intro: same_tables)

lemma verify_grown: "tables_grown s (snd (postVerify env now rnd address i sig s))"
proof -
  obtain n s1 where inc: "incrementAttempts now (the i) s = (n, s1)" by (cases "incrementAttempts now (the i) s")
  have 1: "tables_grown s s1" using increment_grown [of s now "the i"] inc by simp
  have 2: "tables_grown s (snd (consumeChallenge now (the i) s1))" by (rule tables_trans [OF 1 consume_grown])
  then show ?thesis
    by (auto simp: postVerify_def inc 1 split: option.splits intro: tables_trans [OF 2 finish_verify_grown])
qed

lemma rotate_row_grown: "tables_grown s (s\<lparr>as_sessions := tbl_update se_id i (rotate_row now t) (as_sessions s)\<rparr>)"
  by (auto simp: tbl_update_def rotate_row_def session_kept_def intro!: sessions_mapped)

lemma finish_refresh_grown: "tables_grown s (snd (finish_refresh env now rnd session u s))"
  by (simp add: finish_refresh_def Let_def add_event_grown rotate_row_grown)

lemma refresh_grown: "tables_grown s (snd (postRefresh env now rnd token s))"
  by (auto simp: postRefresh_def finish_refresh_grown split: option.splits)

lemma revoke_grown: "tables_grown s (s\<lparr>as_sessions := tbl_update se_id i (revoke now x) (as_sessions s)\<rparr>)"
  by (auto simp: tbl_update_def revoke_def session_kept_def intro!: sessions_mapped)

lemma guarded_grown:
  "(\<And>u s1. tables_grown s1 (snd (f u s1))) \<Longrightarrow> tables_grown s (snd (guarded env now h f s))"
  using requireAuth_grown [of s env now h]
  by (auto simp: guarded_def split: prod.splits option.splits intro: tables_trans)

lemma complete_grown: "tables_grown s (snd (postComplete env now rnd i s))"
proof -
  have start: "tables_grown s (s\<lparr>as_flows := m\<rparr>)" for m by (rule same_tables) simp_all
  show ?thesis
    by (auto simp: postComplete_def Let_def start split: option.splits
        intro: tables_trans [OF start multisig_user_grown] tables_trans [OF tables_trans [OF start multisig_user_grown] open_session_grown])
qed

lemma token_grown: "tables_grown s (snd (postToken env now rnd q s))"
proof -
  have start: "tables_grown s (s\<lparr>as_codes := tbl_update oc_code i (\<lambda>c. c\<lparr>oc_used := True\<rparr>) (as_codes s)\<rparr>)" for i
    by (auto simp: tbl_update_def code_kept_def intro!: codes_mapped)
  show ?thesis
    by (auto simp: postToken_def Let_def start split: option.splits intro: tables_trans [OF start open_session_grown])
qed

lemma authorize_grown: "tables_grown s (snd (getAuthorize now code q u s))"
  by (auto simp: getAuthorize_def tables_grown_def sessions_grown_def users_grown_def codes_grown_def grown_refl
      split: option.splits intro!: grown_add)

lemma delete_me_grown: "tables_grown s (snd (deleteMe now u s))"
proof -
  have a: "tables_grown s (s\<lparr>as_sessions := map (\<lambda>r. if se_user r = au_id u then revoke now ''admin'' r else r) (as_sessions s)\<rparr>)"
    by (auto simp: revoke_def session_kept_def intro!: sessions_mapped)
  have b: "tables_grown t (t\<lparr>as_users := map (\<lambda>x. if wu_id x = au_id u then x\<lparr>wu_active := False\<rparr> else x) (as_users t)\<rparr>)" for t
    by (rule users_mapped) (simp add: user_kept_def)
  show ?thesis using tables_trans [OF a b] by (simp add: deleteMe_def tbl_update_def)
qed

lemma step_grown: "auth_step env s t \<Longrightarrow> tables_grown s t"
proof (induction rule: auth_step.induct)
  case (logout s now h)
  show ?case by (rule guarded_grown) (simp add: postLogout_def add_event_grown revoke_grown)
next
  case (logout_all s now h)
  show ?case
    by (rule guarded_grown)
      (auto simp: postLogoutAll_def revoke_def session_kept_def intro!: add_event_grown sessions_mapped)
next
  case (delete_session s now h i)
  show ?case by (rule guarded_grown) (auto simp: deleteSession_def revoke_grown split: option.splits)
next
  case (patch_me s now h p)
  show ?case by (rule guarded_grown) (auto simp: patchMe_def tbl_update_def user_kept_def intro!: users_mapped)
next
  case (rotate s now h key)
  show ?case by (rule guarded_grown) (auto simp: rotate_handler_def rotateKeys_def split: option.splits intro: same_tables)
next
  case (initiate s now nonce i a signers t app)
  show ?case by (auto simp: postInitiate_def Let_def intro: same_tables)
next
  case (contribute s now i a sig)
  show ?case by (auto simp: postContribute_def finish_contribute_def Let_def split: option.splits intro: same_tables)
next
  case (wallet s now h a ws t)
  show ?case by (rule guarded_grown) (auto simp: postWallet_def intro: same_tables)
next
  case (app s now h i secret name uris scopes)
  show ?case by (rule guarded_grown) (auto simp: postApp_def intro: same_tables)
next
  case (delete_app s now h i)
  show ?case by (rule guarded_grown) (auto simp: deleteApp_def split: option.splits intro: same_tables)
qed (auto simp: challenge_grown verify_grown refresh_grown finish_refresh_grown complete_grown token_grown
      intro: guarded_grown authorize_grown delete_me_grown same_tables)

lemma steps_grown: "(auth_step env)\<^sup>*\<^sup>* s t \<Longrightarrow> tables_grown s t"
  by (induction rule: rtranclp_induct) (auto intro: tables_trans step_grown)

section \<open>The invariant\<close>

definition signer_ok :: "auth_env \<Rightarrow> string \<Rightarrow> signer_status \<Rightarrow> bool" where
  "signer_ok env text x =
     (sg_signed x \<longrightarrow> (case sg_signature x of None \<Rightarrow> False | Some sig \<Rightarrow> ae_verify env (sg_address x) text sig = Some True))"

definition flows_ok :: "auth_env \<Rightarrow> auth_state \<Rightarrow> bool" where
  "flows_ok env s = (\<forall>(k, f, e) \<in> set (as_flows s). \<forall>x \<in> set (mf_signers f). signer_ok env (mf_challenge f) x)"

definition auth_ok :: "auth_env \<Rightarrow> auth_state \<Rightarrow> bool" where
  "auth_ok env s =
     (distinct (map se_id (as_sessions s)) \<and> distinct (map wu_id (as_users s)) \<and> distinct (map wu_address (as_users s))
      \<and> distinct (map oc_code (as_codes s)) \<and> flows_ok env s)"

definition auth_init :: "auth_state \<Rightarrow> bool" where
  "auth_init s = (as_users s = [] \<and> as_sessions s = [] \<and> as_codes s = [] \<and> as_flows s = [])"

lemma update_subset: "set (AList.update k v m) \<subseteq> insert (k, v) (set m)"
  by (induction m) auto

lemma flows_set:
  assumes "flows_ok env s" "\<forall>x \<in> set (mf_signers f). signer_ok env (mf_challenge f) x"
  shows "flows_ok env (s\<lparr>as_flows := cache_write now ttl k f (as_flows s)\<rparr>)"
  using assms update_subset [of k "(f, now + ttl * 1000)" "as_flows s"]
  by (fastforce simp: flows_ok_def cache_write_def jm_set_def)

lemma flows_same: "as_flows t = as_flows s \<Longrightarrow> flows_ok env t = flows_ok env s"
  by (simp add: flows_ok_def)

lemma flows_read:
  assumes "flows_ok env s" "cache_read now k (as_flows s) = Some f"
  shows "\<forall>x \<in> set (mf_signers f). signer_ok env (mf_challenge f) x"
  using assms by (fastforce simp: flows_ok_def cache_read_def split: option.splits if_splits dest: jm_get_in_set)

lemma sign_first_ok:
  assumes "\<forall>x \<in> set xs. signer_ok env text x" "ae_verify env a text sig = Some True"
  shows "\<forall>x \<in> set (sign_first a sig xs). signer_ok env text x"
  using assms by (induction xs) (auto simp: signer_ok_def)

text \<open>Only the three requests about flows write them.\<close>

named_theorems flows_kept

lemma flows_kept_basic [flows_kept]:
  "as_flows (snd (requireAuth env now h s)) = as_flows s"
  "as_flows (snd (consumeChallenge now i s)) = as_flows s"
  "as_flows (snd (incrementAttempts now i s)) = as_flows s"
  "as_flows (add_event u j x s) = as_flows s"
  by (auto simp: requireAuth_def consumeChallenge_def incrementAttempts_def add_event_def Let_def split: option.splits)

lemma flows_kept_session [flows_kept]:
  "create_session r s = Some s' \<Longrightarrow> as_flows s' = as_flows s"
  "create_user u s = Some s' \<Longrightarrow> as_flows s' = as_flows s"
  by (auto simp: create_session_def create_user_def split: if_splits)

lemma flows_kept_login [flows_kept]:
  "login_user now i a s = Some (u, s') \<Longrightarrow> as_flows s' = as_flows s"
  "multisig_user i a s = Some (u, s') \<Longrightarrow> as_flows s' = as_flows s"
  "open_session env now rnd u0 app s = Some (t, s') \<Longrightarrow> as_flows s' = as_flows s"
  by (auto simp: login_user_def multisig_user_def open_session_def Let_def flows_kept split: option.splits)

lemma flows_kept_finish [flows_kept]:
  "as_flows (snd (finish_verify env now rnd a ch s)) = as_flows s"
  "as_flows (snd (finish_refresh env now rnd session u s)) = as_flows s"
  by (auto simp: finish_verify_def finish_refresh_def Let_def flows_kept split: option.splits)

lemma flows_kept_requests [flows_kept]:
  "as_flows (snd (postChallenge env now nonce j ip address network app s)) = as_flows s"
  "as_flows (snd (postVerify env now rnd address i sig s)) = as_flows s"
  "as_flows (snd (postRefresh env now rnd token s)) = as_flows s"
  "as_flows (snd (postToken env now rnd q s)) = as_flows s"
proof -
  show "as_flows (snd (postChallenge env now nonce j ip address network app s)) = as_flows s"
    by (auto simp: postChallenge_def checkChallengeRateLimit_def createChallenge_def Let_def split: prod.splits)
  obtain n s1 where inc: "incrementAttempts now (the i) s = (n, s1)" by (cases "incrementAttempts now (the i) s")
  have "as_flows s1 = as_flows s" using flows_kept_basic(3) [of now "the i" s] inc by simp
  then show "as_flows (snd (postVerify env now rnd address i sig s)) = as_flows s"
    by (auto simp: postVerify_def inc flows_kept split: option.splits)
  show "as_flows (snd (postRefresh env now rnd token s)) = as_flows s"
    by (auto simp: postRefresh_def flows_kept split: option.splits)
  show "as_flows (snd (postToken env now rnd q s)) = as_flows s"
    by (auto simp: postToken_def Let_def flows_kept split: option.splits)
qed

lemma flows_kept_guarded:
  "(\<And>u s1. as_flows (snd (f u s1)) = as_flows s1) \<Longrightarrow> as_flows (snd (guarded env now h f s)) = as_flows s"
  using flows_kept_basic(1) [of env now h s] by (auto simp: guarded_def split: prod.splits option.splits)

lemma initiate_flows: "flows_ok env s \<Longrightarrow> flows_ok env (snd (postInitiate now nonce i a signers t app s))"
  by (auto simp: postInitiate_def Let_def signer_ok_def intro!: flows_set)

lemma contribute_flows:
  assumes "flows_ok env s" shows "flows_ok env (snd (postContribute env now i a sig s))"
proof -
  have "flows_ok env (s\<lparr>as_flows := cache_write now FLOW_TTL k (contributed x y f) (as_flows s)\<rparr>)"
    if "cache_read now k (as_flows s) = Some f" "ae_verify env x (mf_challenge f) y = Some True" for k x y f
    using sign_first_ok [OF flows_read [OF assms that(1)] that(2)] by (auto simp: contributed_def intro!: flows_set [OF assms])
  then show ?thesis using assms
    by (auto simp: postContribute_def finish_contribute_def Let_def split: option.splits)
qed

lemma complete_writes:
  "as_flows (snd (postComplete env now rnd i s)) = as_flows s
    \<or> (\<exists>f. cache_read now (the i) (as_flows s) = Some f
        \<and> as_flows (snd (postComplete env now rnd i s)) = cache_write now 60 (the i) (f\<lparr>mf_completed := True\<rparr>) (as_flows s))"
  by (auto simp: postComplete_def Let_def flows_kept split: option.splits)

lemma complete_flows:
  assumes "flows_ok env s" shows "flows_ok env (snd (postComplete env now rnd i s))"
proof -
  have "flows_ok env (s\<lparr>as_flows := cache_write now 60 (the i) (f\<lparr>mf_completed := True\<rparr>) (as_flows s)\<rparr>)"
    if "cache_read now (the i) (as_flows s) = Some f" for f
    using flows_read [OF assms that] by (auto intro!: flows_set [OF assms])
  then show ?thesis using assms complete_writes [of env now rnd i s] by (fastforce simp: flows_ok_def)
qed

lemma step_flows: "flows_ok env s \<Longrightarrow> auth_step env s t \<Longrightarrow> flows_ok env t"
proof (rotate_tac 1, induction rule: auth_step.induct)
  case (forget s k)
  then show ?case by (auto simp: flows_ok_def jm_delete_filter)
next
  case (initiate s now nonce i a signers t app)
  then show ?case by (rule initiate_flows)
next
  case (contribute s now i a sig)
  then show ?case by (rule contribute_flows)
next
  case (complete s now rnd i)
  then show ?case by (rule complete_flows)
qed (auto elim!: flows_same [THEN iffD2, rotated] simp: flows_kept postLogout_def postLogoutAll_def deleteMe_def deleteSession_def patchMe_def
    rotate_handler_def rotateKeys_def postWallet_def postApp_def deleteApp_def getAuthorize_def
    intro!: flows_kept_guarded split: option.splits)

interpretation auth: invariant_system auth_init "auth_step env" "auth_ok env"
proof unfold_locales
  fix s assume "auth_init s"
  then show "auth_ok env s" by (simp add: auth_init_def auth_ok_def flows_ok_def)
next
  fix s t assume ok: "auth_ok env s" and step: "auth_step env s t"
  have "tables_grown s t" by (rule step_grown [OF step])
  then show "auth_ok env t" using ok step_flows [OF _ step]
    by (auto simp: auth_ok_def tables_grown_def sessions_grown_def users_grown_def codes_grown_def intro: grown_distinct)
qed

section \<open>Who is let through\<close>

lemma find_SomeD: "List.find P xs = Some x \<Longrightarrow> x \<in> set xs \<and> P x"
  by (induction xs) (auto split: if_splits)

lemma admitted:
  assumes "fst (requireAuth env now h s) = Some u"
  shows "\<exists>r \<in> set (as_sessions s). \<exists>w \<in> set (as_users s). se_id r = au_session u \<and> se_active r \<and> se_user r = wu_id w
    \<and> wu_active w \<and> au_id u = wu_id w \<and> au_address u = wu_address w \<and> au_role u = wu_role w"
  using assms
  by (auto simp: requireAuth_def active_session_def find_user_def tbl_find_def user_context_def
      split: option.splits if_splits dest!: find_SomeD) metis

lemma key_unique: "distinct (map key xs) \<Longrightarrow> x \<in> set xs \<Longrightarrow> y \<in> set xs \<Longrightarrow> key x = key y \<Longrightarrow> x = y"
  by (simp add: distinct_map inj_on_def)


text \<open>A deleted account stays out: once the row of a user is inactive no later request is let through as that
  user or with that address, though the owner can still log in and is given tokens.\<close>

theorem deleted_account_stays_out:
  assumes reach: "reachable auth_init (auth_step env) s" and w: "w \<in> set (as_users s)" "\<not> wu_active w"
    and steps: "(auth_step env)\<^sup>*\<^sup>* s t" and pass: "fst (requireAuth env now h t) = Some u"
  shows "au_id u \<noteq> wu_id w \<and> au_address u \<noteq> wu_address w"
proof -
  obtain x where x: "x \<in> set (as_users t)" "wu_active x" "au_id u = wu_id x" "au_address u = wu_address x"
    using admitted [OF pass] by auto
  have g: "grown wu_id user_kept (as_users s) (as_users t)" "grown wu_address user_kept (as_users s) (as_users t)"
    using steps_grown [OF steps] by (auto simp: tables_grown_def users_grown_def)
  have d: "distinct (map wu_id (as_users s))" "distinct (map wu_address (as_users s))"
    using auth.reachable_inv [OF reach] by (auto simp: auth_ok_def)
  have "wu_id x \<noteq> wu_id w"
  proof
    assume eq: "wu_id x = wu_id w"
    obtain w0 where "w0 \<in> set (as_users s)" "wu_id x = wu_id w0" "user_kept w0 x" using grown_back [OF g(1) x(1)] w(1) eq by auto
    then show False using key_unique [OF d(1)] w x(2) eq by (metis user_kept_def)
  qed
  moreover have "wu_address x \<noteq> wu_address w"
  proof
    assume eq: "wu_address x = wu_address w"
    obtain w0 where "w0 \<in> set (as_users s)" "wu_address x = wu_address w0" "user_kept w0 x"
      using grown_back [OF g(2) x(1)] w(1) eq by auto
    then show False using key_unique [OF d(2)] w x(2) eq by (metis user_kept_def)
  qed
  ultimately show ?thesis using x by simp
qed

definition is_tokens :: "auth_answer \<Rightarrow> bool" where
  "is_tokens a = (case a of A_tokens x y z \<Rightarrow> True | _ \<Rightarrow> False)"

lemma opened_codes: "open_session env now rnd u app s = Some (t, s') \<Longrightarrow> as_codes s' = as_codes s"
  by (auto simp: open_session_def create_session_def Let_def split: option.splits if_splits)

lemma token_writes:
  assumes "is_tokens (fst (postToken env now rnd q s))"
  shows "\<exists>x. find_code q s = Some x
    \<and> as_codes (snd (postToken env now rnd q s)) = tbl_update oc_code (oc_code x) (\<lambda>c. c\<lparr>oc_used := True\<rparr>) (as_codes s)"
  using assms
  by (auto simp: postToken_def is_tokens_def Let_def opened_codes split: option.splits if_splits)

lemma token_uses_code:
  assumes "is_tokens (fst (postToken env now rnd q s))" "tq_code q = Some c"
  shows "\<exists>x \<in> set (as_codes (snd (postToken env now rnd q s))). oc_code x = c \<and> oc_used x"
    "\<exists>x \<in> set (as_codes s). oc_code x = c \<and> \<not> oc_used x"
proof -
  obtain x where x: "find_code q s = Some x"
    "as_codes (snd (postToken env now rnd q s)) = tbl_update oc_code (oc_code x) (\<lambda>c. c\<lparr>oc_used := True\<rparr>) (as_codes s)"
    using token_writes [OF assms(1)] by blast
  then have y: "x \<in> set (as_codes s)" "oc_code x = c" "\<not> oc_used x"
    using assms(2) by (auto simp: find_code_def matches_if_def dest: find_SomeD)
  have "x\<lparr>oc_used := True\<rparr> \<in> set (as_codes (snd (postToken env now rnd q s)))"
    unfolding x(2) tbl_update_def set_map by (rule image_eqI [OF _ y(1)]) simp
  then show "\<exists>x \<in> set (as_codes (snd (postToken env now rnd q s))). oc_code x = c \<and> oc_used x"
    by (rule bexI [rotated]) (simp add: y(2))
  show "\<exists>x \<in> set (as_codes s). oc_code x = c \<and> \<not> oc_used x" using y by blast
qed


section \<open>Logging in with a wallet\<close>

lemma challenge_kept_tables:
  "as_sessions (snd (incrementAttempts now i s)) = as_sessions s" "as_users (snd (incrementAttempts now i s)) = as_users s"
  "as_sessions (snd (consumeChallenge now i s)) = as_sessions s" "as_users (snd (consumeChallenge now i s)) = as_users s"
  by (auto simp: incrementAttempts_def consumeChallenge_def Let_def split: option.splits)

lemma attempts_counted:
  "getChallenge now i s = Some ch \<Longrightarrow> fst (incrementAttempts now i s) = ch_attempts ch + 1"
  by (simp add: incrementAttempts_def Let_def)

lemma login_user_None:
  "login_user now i a s = None \<longleftrightarrow> a \<notin> wu_address ` set (as_users s) \<and> i \<in> wu_id ` set (as_users s)"
proof -
  have "tbl_find wu_address a (as_users s) = None \<longleftrightarrow> a \<notin> wu_address ` set (as_users s)"
    by (force simp: tbl_find_def find_None_iff)
  then show ?thesis
    by (auto simp: login_user_def create_user_def new_user_def split: option.splits)
qed

lemma login_user_sessions: "login_user now i a s = Some (u, s') \<Longrightarrow> as_sessions s' = as_sessions s"
  by (auto simp: login_user_def create_user_def split: option.splits if_splits)

lemma open_session_None: "open_session env now rnd u app s = None \<longleftrightarrow> rn_session rnd \<in> se_id ` set (as_sessions s)"
  by (auto simp: open_session_def create_session_def new_session_def Let_def split: option.splits)

lemma finish_verify_tokens:
  "is_tokens (fst (finish_verify env now rnd a ch s)) \<longleftrightarrow>
     rn_session rnd \<notin> se_id ` set (as_sessions s) \<and> (a \<in> wu_address ` set (as_users s) \<or> rn_user rnd \<notin> wu_id ` set (as_users s))"
proof (cases "login_user now (rn_user rnd) a s")
  case None
  then show ?thesis using login_user_None [of now "rn_user rnd" a s] by (auto simp: finish_verify_def is_tokens_def)
next
  case (Some p)
  obtain u s' where p: "p = (u, s')" by (cases p)
  have "open_session env now rnd u (Some (ch_app ch)) s' = None \<longleftrightarrow> rn_session rnd \<in> se_id ` set (as_sessions s)"
    using open_session_None login_user_sessions Some p by metis
  moreover have "a \<in> wu_address ` set (as_users s) \<or> rn_user rnd \<notin> wu_id ` set (as_users s)"
    using login_user_None [of now "rn_user rnd" a s] Some by auto
  ultimately show ?thesis using Some p
    by (cases "open_session env now rnd u (Some (ch_app ch)) s'") (auto simp: finish_verify_def is_tokens_def tokens_answer_def)
qed

text \<open>C4: A login succeeds exactly for a challenge that is still in the cache, was made for the address, has been
  tried fewer than three times and whose text is signed by the address (and when the random identifiers of the
  new rows are not taken).\<close>

theorem verify_grants_iff:
  "is_tokens (fst (postVerify env now rnd (Some a) (Some i) (Some sig) s)) \<longleftrightarrow>
     a \<noteq> [] \<and> i \<noteq> [] \<and> sig \<noteq> []
     \<and> (\<exists>ch. getChallenge now i s = Some ch \<and> ch_address ch = a \<and> ch_attempts ch < 3
          \<and> ae_verify env a (ch_message ch) sig = Some True)
     \<and> rn_session rnd \<notin> se_id ` set (as_sessions s)
     \<and> \<not> (a \<notin> wu_address ` set (as_users s) \<and> rn_user rnd \<in> wu_id ` set (as_users s))"
proof (cases "getChallenge now i s")
  case None
  then show ?thesis by (auto simp: postVerify_def is_tokens_def)
next
  case (Some ch)
  obtain n s1 where inc: "incrementAttempts now i s = (n, s1)" by (cases "incrementAttempts now i s")
  have n: "n = ch_attempts ch + 1" using attempts_counted [OF Some] inc by simp
  have t: "as_sessions s1 = as_sessions s" "as_users s1 = as_users s" using challenge_kept_tables(1,2) [of now i s] inc by auto
  show ?thesis
    using finish_verify_tokens [of env now rnd a ch "snd (consumeChallenge now i s1)"]
    by (simp add: postVerify_def blank_def inc Some n t challenge_kept_tables) (auto simp: is_tokens_def)
qed

text \<open>The signatures that are still checked for a challenge, and whether it has been used.\<close>

definition tries_left :: "string \<Rightarrow> auth_state \<Rightarrow> nat" where
  "tries_left i s = (case jm_get (as_challenges s) i of None \<Rightarrow> 0 | Some (ch, e) \<Rightarrow> 3 - ch_attempts ch)"

definition challenge_alive :: "string \<Rightarrow> auth_state \<Rightarrow> nat" where
  "challenge_alive i s = (if jm_get (as_challenges s) i = None then 0 else 1)"

record verify_call =
  vf_now :: int
  vf_random :: auth_random
  vf_address :: "string option"
  vf_signature :: "string option"

definition call_verify :: "auth_env \<Rightarrow> string \<Rightarrow> verify_call \<Rightarrow> auth_state \<Rightarrow> auth_answer \<times> auth_state" where
  "call_verify env i c s = postVerify env (vf_now c) (vf_random c) (vf_address c) (Some i) (vf_signature c) s"

fun verify_answers :: "auth_env \<Rightarrow> string \<Rightarrow> verify_call list \<Rightarrow> auth_state \<Rightarrow> auth_answer list" where
  "verify_answers env i [] s = []"
| "verify_answers env i (c # cs) s =
     fst (call_verify env i c s) # verify_answers env i cs (snd (call_verify env i c s))"

definition signature_checked :: "auth_answer \<Rightarrow> bool" where
  "signature_checked a = (is_tokens a \<or> a = A_error 401)"

lemma challenges_after_finish: "as_challenges (snd (finish_verify env now rnd a ch s)) = as_challenges s"
proof -
  have 1: "login_user now i a s = Some (u, s') \<Longrightarrow> as_challenges s' = as_challenges s" for i u s' s
    by (auto simp: login_user_def create_user_def split: option.splits if_splits)
  have 2: "open_session env now rnd u app s = Some (t, s') \<Longrightarrow> as_challenges s' = as_challenges s" for u app t s' s
    by (auto simp: open_session_def create_session_def Let_def split: option.splits if_splits)
  show ?thesis by (auto simp: finish_verify_def add_event_def split: option.splits dest!: 1 2)
qed

lemma finish_not_401: "fst (finish_verify env now rnd a ch s) \<noteq> A_error 401"
  by (auto simp: finish_verify_def tokens_answer_def split: option.splits)

lemma one_call:
  fixes c env i s defines "r \<equiv> call_verify env i c s"
  shows "tries_left i (snd r) + (if signature_checked (fst r) then 1 else 0) \<le> tries_left i s"
    "challenge_alive i (snd r) + (if is_tokens (fst r) then 1 else 0) \<le> challenge_alive i s"
proof -
  let ?now = "vf_now c"
  have *: "tries_left i (snd r) + (if signature_checked (fst r) then 1 else 0) \<le> tries_left i s
    \<and> challenge_alive i (snd r) + (if is_tokens (fst r) then 1 else 0) \<le> challenge_alive i s"
  proof (cases "blank (vf_address c) \<or> blank (Some i) \<or> blank (vf_signature c) \<or> getChallenge ?now i s = None")
    case True
    then show ?thesis
      by (auto simp: r_def call_verify_def postVerify_def signature_checked_def is_tokens_def)
  next
    case False
    then obtain ch where ch: "getChallenge ?now i s = Some ch" by auto
    then obtain e where e: "jm_get (as_challenges s) i = Some (ch, e)" "?now < e"
      by (auto simp: getChallenge_def cache_read_def split: option.splits if_splits)
    let ?ch = "ch\<lparr>ch_attempts := ch_attempts ch + 1\<rparr>"
    let ?s = "s\<lparr>as_challenges := cache_write ?now CHALLENGE_TTL i ?ch (as_challenges s)\<rparr>"
    have inc: "incrementAttempts ?now i s = (ch_attempts ch + 1, ?s)" using ch by (simp add: incrementAttempts_def Let_def)
    have live: "getChallenge ?now i ?s = Some ?ch" by (simp add: getChallenge_def cache_read_def cache_write_def CHALLENGE_TTL_def)
    have cons: "as_challenges (snd (consumeChallenge ?now i ?s)) = jm_delete i (as_challenges ?s)"
      using live by (simp add: consumeChallenge_def)
    show ?thesis
      using False ch e cons
      by (auto simp: r_def call_verify_def postVerify_def inc signature_checked_def is_tokens_def tries_left_def
          challenge_alive_def cache_write_def challenges_after_finish finish_not_401 split: auth_answer.splits)
  qed
  then show "tries_left i (snd r) + (if signature_checked (fst r) then 1 else 0) \<le> tries_left i s"
    "challenge_alive i (snd r) + (if is_tokens (fst r) then 1 else 0) \<le> challenge_alive i s" by auto
qed

text \<open>C28: Whatever is sent for a challenge, one request after the other: at most three signatures are checked, and at most
  one login succeeds.\<close>

theorem challenge_tried_three_times:
  "length (filter signature_checked (verify_answers env i calls s)) \<le> 3
     \<and> length (filter is_tokens (verify_answers env i calls s)) \<le> 1"
proof -
  have "length (filter signature_checked (verify_answers env i calls s)) \<le> tries_left i s
     \<and> length (filter is_tokens (verify_answers env i calls s)) \<le> challenge_alive i s"
  proof (induction calls arbitrary: s)
    case (Cons c cs)
    show ?case using one_call [where c = c and env = env and i = i and s = s] Cons [of "snd (call_verify env i c s)"]
      by (auto split: if_splits)
  qed simp
  then show ?thesis by (auto simp: tries_left_def challenge_alive_def split: option.splits if_splits)
qed

section \<open>Challenges per address\<close>

record challenge_call =
  vc_now :: int
  vc_nonce :: string
  vc_id :: string
  vc_address :: "string option"

definition call_challenge :: "auth_env \<Rightarrow> string \<Rightarrow> challenge_call \<Rightarrow> auth_state \<Rightarrow> auth_answer \<times> auth_state" where
  "call_challenge env ip c s =
     postChallenge env (vc_now c) (vc_nonce c) (vc_id c) ip (vc_address c) ''testnet'' ''explorer-web'' s"

fun challenge_answers :: "auth_env \<Rightarrow> string \<Rightarrow> challenge_call list \<Rightarrow> auth_state \<Rightarrow> auth_answer list" where
  "challenge_answers env ip [] s = []"
| "challenge_answers env ip (c # cs) s =
     fst (call_challenge env ip c s) # challenge_answers env ip cs (snd (call_challenge env ip c s))"

definition is_challenge :: "auth_answer \<Rightarrow> bool" where
  "is_challenge a = (case a of A_challenge x y \<Rightarrow> True | _ \<Rightarrow> False)"

text \<open>What is left in a window that ends at \<open>e\<close>.\<close>

definition rate_left :: "int \<Rightarrow> string \<Rightarrow> auth_state \<Rightarrow> nat" where
  "rate_left e ip s = (case jm_get (as_tries s) ip of None \<Rightarrow> 5 | Some (n, x) \<Rightarrow> if e \<le> x then 5 - n else 5)"

lemma one_challenge:
  assumes "t0 \<le> vc_now c" "vc_now c < t0 + 60000"
  shows "rate_left (t0 + 60000) ip (snd (call_challenge env ip c s)) + (if is_challenge (fst (call_challenge env ip c s)) then 1 else 0)
    \<le> rate_left (t0 + 60000) ip s"
proof (cases "blank (vc_address c)")
  case True
  then show ?thesis by (simp add: call_challenge_def postChallenge_def is_challenge_def)
next
  case False
  show ?thesis using assms False
    by (auto simp: call_challenge_def postChallenge_def checkChallengeRateLimit_def createChallenge_def cache_read_def cache_write_def
        rate_left_def is_challenge_def Let_def split: option.splits prod.splits if_splits)
qed

text \<open>Within any minute an address gets at most five challenges.\<close>

theorem challenge_rate_bound:
  assumes "\<forall>c \<in> set calls. t0 \<le> vc_now c \<and> vc_now c < t0 + 60000"
  shows "length (filter is_challenge (challenge_answers env ip calls s)) \<le> 5"
proof -
  have "length (filter is_challenge (challenge_answers env ip calls s)) \<le> rate_left (t0 + 60000) ip s"
    using assms
  proof (induction calls arbitrary: s)
    case (Cons c cs)
    have "t0 \<le> vc_now c" "vc_now c < t0 + 60000" using Cons.prems by auto
    from one_challenge [OF this, of ip env s] show ?case
      using Cons.IH [of "snd (call_challenge env ip c s)"] Cons.prems by (auto split: if_splits)
  qed simp
  then show ?thesis by (auto simp: rate_left_def split: option.splits if_splits)
qed

section \<open>Refresh\<close>

lemma find_unique:
  assumes "x \<in> set xs" "P x" "\<And>y. y \<in> set xs \<Longrightarrow> P y \<Longrightarrow> y = x"
  shows "List.find P xs = Some x"
proof (cases "List.find P xs")
  case None
  then show ?thesis using assms(1,2) by (auto simp: find_None_iff)
next
  case (Some y)
  then show ?thesis using assms(3) [of y] find_SomeD [OF Some] by simp
qed

lemma finish_refresh_sessions:
  "\<exists>t. tp_refreshHash t = ae_sha env (rn_refresh rnd)
     \<and> as_sessions (snd (finish_refresh env now rnd r u s)) = tbl_update se_id (se_id r) (rotate_row now t) (as_sessions s)"
  by (rule exI [of _ "issueTokens env (as_key s) now (rn_jti rnd) (rn_refresh rnd)
    \<lparr>tk_sub = wu_address u, tk_userId = wu_id u, tk_role = wu_role u, tk_tier = wu_tier u, tk_session = se_id r,
     tk_app = (case se_app r of None \<Rightarrow> ''explorer-web'' | Some a \<Rightarrow> a), tk_jti = []\<rparr>"])
    (simp add: finish_refresh_def add_event_def issueTokens_def Let_def)

text \<open>A refresh replaces the refresh token: the old one is refused afterwards (the hashes of the sessions
  and of the new token being different), and the new one finds the session, whose end does not move.\<close>

theorem refresh_replaces_token:
  assumes ok: "distinct (map se_id (as_sessions s))" and r: "find_refresh (ae_sha env tok) s = Some r"
    and hashes: "\<forall>x \<in> set (as_sessions s). se_refreshHash x = ae_sha env tok \<longrightarrow> x = r"
    and fresh: "\<forall>x \<in> set (as_sessions s). se_refreshHash x \<noteq> ae_sha env (rn_refresh rnd)"
    and ans: "is_tokens (fst (postRefresh env now rnd (Some tok) s))"
  shows "fst (postRefresh env now' rnd' (Some tok) (snd (postRefresh env now rnd (Some tok) s))) = A_error 401
    \<and> (\<exists>x. find_refresh (ae_sha env (rn_refresh rnd)) (snd (postRefresh env now rnd (Some tok) s)) = Some x
         \<and> se_id x = se_id r \<and> se_expires x = se_expires r)"
proof -
  let ?t = "snd (postRefresh env now rnd (Some tok) s)"
  have rr: "r \<in> set (as_sessions s)" "se_refreshHash r = ae_sha env tok" "se_active r"
    using find_SomeD [of _ "as_sessions s" r] r by (auto simp: find_refresh_def)
  obtain u where "find_user (se_user r) s = Some u" "\<not> blank (Some tok)" "\<not> se_expires r < now"
    using ans r by (auto simp: postRefresh_def is_tokens_def split: option.splits if_splits)
  then obtain f where t: "as_sessions ?t = tbl_update se_id (se_id r) f (as_sessions s)"
    and f: "\<And>x. se_id (f x) = se_id x \<and> se_refreshHash (f x) = ae_sha env (rn_refresh rnd) \<and> se_active (f x) = se_active x
      \<and> se_expires (f x) = se_expires x"
    using finish_refresh_sessions [of env rnd now r u s] r by (auto simp: postRefresh_def rotate_row_def)
  have only: "x = r" if "x \<in> set (as_sessions s)" "se_id x = se_id r" for x
    using key_unique [OF ok that(1) rr(1) that(2)] .
  have new: "ae_sha env (rn_refresh rnd) \<noteq> ae_sha env tok" using fresh rr by metis
  have old: "se_refreshHash x \<noteq> ae_sha env tok" if "x \<in> set (as_sessions ?t)" for x
    using that f new hashes by (auto simp: t tbl_update_def split: if_splits)
  then have "find_refresh (ae_sha env tok) ?t = None"
    by (auto simp: find_refresh_def find_None_iff)
  then have 1: "fst (postRefresh env now' rnd' (Some tok) ?t) = A_error 401"
    using \<open>\<not> blank (Some tok)\<close> by (simp add: postRefresh_def)
  have m: "f r \<in> set (as_sessions ?t)" using rr(1) by (force simp: t tbl_update_def)
  have only_new: "y = f r" if "y \<in> set (as_sessions ?t)" "se_refreshHash y = ae_sha env (rn_refresh rnd)" for y
    using that fresh only by (auto simp: t tbl_update_def split: if_splits)
  have "find_refresh (ae_sha env (rn_refresh rnd)) ?t = Some (f r)"
    unfolding find_refresh_def
  proof (rule find_unique [OF m])
    show "se_refreshHash (f r) = ae_sha env (rn_refresh rnd) \<and> se_active (f r)" using f [of r] rr(3) by simp
  qed (blast intro: only_new)
  then show ?thesis using 1 f [of r] by auto
qed

text \<open>Two refreshes that have both read the session each give tokens; those of the first are dead at once.\<close>

lemma refresh_race:
  assumes "distinct (map se_id (as_sessions s))" "r \<in> set (as_sessions s)"
    "ae_sha env (rn_refresh rnd1) \<noteq> ae_sha env (rn_refresh rnd2)"
    "\<forall>x \<in> set (as_sessions s). se_refreshHash x \<noteq> ae_sha env (rn_refresh rnd1)"
  shows "is_tokens (fst (finish_refresh env now rnd1 r u s))"
    "is_tokens (fst (finish_refresh env now rnd2 r u (snd (finish_refresh env now rnd1 r u s))))"
    "find_refresh (ae_sha env (rn_refresh rnd1))
       (snd (finish_refresh env now rnd2 r u (snd (finish_refresh env now rnd1 r u s)))) = None"
proof -
  show "is_tokens (fst (finish_refresh env now rnd1 r u s))"
    "is_tokens (fst (finish_refresh env now rnd2 r u (snd (finish_refresh env now rnd1 r u s))))"
    by (simp_all add: finish_refresh_def Let_def is_tokens_def tokens_answer_def)
  show "find_refresh (ae_sha env (rn_refresh rnd1))
       (snd (finish_refresh env now rnd2 r u (snd (finish_refresh env now rnd1 r u s)))) = None"
  proof -
    let ?s1 = "snd (finish_refresh env now rnd1 r u s)"
    obtain t1 where 1: "tp_refreshHash t1 = ae_sha env (rn_refresh rnd1)"
      "as_sessions ?s1 = tbl_update se_id (se_id r) (rotate_row now t1) (as_sessions s)" using finish_refresh_sessions by blast
    obtain t2 where 2: "tp_refreshHash t2 = ae_sha env (rn_refresh rnd2)"
      "as_sessions (snd (finish_refresh env now rnd2 r u ?s1)) = tbl_update se_id (se_id r) (rotate_row now t2) (as_sessions ?s1)"
      using finish_refresh_sessions by blast
    show ?thesis using assms(3,4) 1 2 by (auto simp: find_refresh_def find_None_iff tbl_update_def rotate_row_def)
  qed
qed

section \<open>Several signatures\<close>

text \<open>A login with several signatures needs the threshold of the flow: in every reachable state the weights of the
  signers whose signature of the flow's text was checked reach it.\<close>

theorem complete_needs_signatures:
  assumes "reachable auth_init (auth_step env) s" "is_tokens (fst (postComplete env now rnd (Some i) s))"
  shows "\<exists>f. cache_read now i (as_flows s) = Some f \<and> mf_threshold f \<le> signed_weight f
    \<and> (\<forall>x \<in> set (mf_signers f). sg_signed x \<longrightarrow> (\<exists>sig. ae_verify env (sg_address x) (mf_challenge f) sig = Some True))"
proof -
  obtain f where f: "cache_read now i (as_flows s) = Some f" "mf_threshold f \<le> signed_weight f"
    using assms(2) by (auto simp: postComplete_def is_tokens_def Let_def split: option.splits if_splits)
  have "flows_ok env s" using auth.reachable_inv [OF assms(1)] by (simp add: auth_ok_def)
  from flows_read [OF this f(1)] show ?thesis using f by (fastforce simp: signer_ok_def split: option.splits)
qed

text \<open>C9: But the signers are those that the first request names, and nobody checks that they are signers of the wallet: with a
  key of his own anyone is given a session of any wallet, with the role of its user.\<close>

theorem multisig_for_anyone:
  fixes env K A nonce i sig s rnd now app
  assumes key: "ae_verify env K (flow_text A nonce i) sig = Some True"
    and given: "A \<noteq> []" "K \<noteq> []" "i \<noteq> []" "sig \<noteq> []" and w: "tbl_find wu_address A (as_users s) = Some w"
    and free: "rn_session rnd \<notin> se_id ` set (as_sessions s)"
  defines "s1 \<equiv> snd (postInitiate now nonce i (Some A) (Some [(K, 1)]) (Some 1) app s)"
  defines "s2 \<equiv> snd (postContribute env now (Some i) (Some K) (Some sig) s1)"
  shows "is_tokens (fst (postComplete env now rnd (Some i) s2))
    \<and> (\<exists>r \<in> set (as_sessions (snd (postComplete env now rnd (Some i) s2))).
         se_id r = rn_session rnd \<and> se_user r = wu_id w \<and> se_active r)"
proof -
  let ?f = "\<lparr>mf_id = i, mf_address = A, mf_challenge = flow_text A nonce i,
    mf_signers = [\<lparr>sg_address = K, sg_weight = 1, sg_signed = True, sg_signature = Some sig\<rparr>],
    mf_threshold = 1, mf_expires = now + FLOW_TTL * 1000, mf_completed = False, mf_app = app\<rparr>"
  have s2: "cache_read now i (as_flows s2) = Some ?f" "as_users s2 = as_users s" "as_sessions s2 = as_sessions s"
    using key given
    by (simp_all add: s2_def s1_def postInitiate_def postContribute_def finish_contribute_def contributed_def blank_def
        cache_read_def cache_write_def FLOW_TTL_def Let_def)
  have "signed_weight ?f = 1" by (simp add: signed_weight_def)
  then show ?thesis using s2 given w free
    by (simp add: postComplete_def blank_def multisig_user_def open_session_def create_session_def new_session_def issueTokens_def
        is_tokens_def tokens_answer_def Let_def)
qed

text \<open>A contribution that read the flow before another one was stored overwrites it: one of two signatures is lost.\<close>

lemma contribution_lost:
  assumes "\<not> mf_completed f"
    "List.find (\<lambda>x. sg_address x = a) (mf_signers f) = Some x" "\<not> sg_signed x" "ae_verify env a (mf_challenge f) sig1 = Some True"
    "List.find (\<lambda>x. sg_address x = b) (mf_signers f) = Some y" "\<not> sg_signed y" "ae_verify env b (mf_challenge f) sig2 = Some True"
  shows "cache_read now i
    (as_flows (snd (finish_contribute env now i b sig2 f (snd (finish_contribute env now i a sig1 f s))))) = Some (contributed b sig2 f)"
  using assms by (simp add: finish_contribute_def cache_read_def cache_write_def FLOW_TTL_def Let_def)

section \<open>Examples\<close>

text \<open>Tokens are the identifiers of their sessions, a signature is the address that signs.\<close>

definition demo_env :: auth_env where
  "demo_env = \<lparr>ae_sign = (\<lambda>k t p. tk_session p),
     ae_jwt = (\<lambda>k t x. Some \<lparr>tk_sub = [], tk_userId = [], tk_role = [], tk_tier = [], tk_session = x, tk_app = [], tk_jti = []\<rparr>),
     ae_sha = (\<lambda>x. x), ae_verify = (\<lambda>a m sig. Some (sig = a)), ae_iso = (\<lambda>t. [])\<rparr>"

definition no_auth :: auth_state where
  "no_auth = \<lparr>as_key = [], as_users = [], as_sessions = [], as_events = [], as_apps = [], as_codes = [], as_wallets = [],
     as_challenges = [], as_tries = [], as_flows = []\<rparr>"

definition demo_random :: "string \<Rightarrow> string \<Rightarrow> auth_random" where
  "demo_random u i = \<lparr>rn_user = u, rn_session = i, rn_jti = [], rn_refresh = CHR ''r'' # i\<rparr>"

definition demo_login :: "string \<Rightarrow> string \<Rightarrow> auth_state \<Rightarrow> auth_state" where
  "demo_login a i s =
     snd (postVerify demo_env 0 (demo_random a i) (Some a) (Some ''c'') (Some a)
       (snd (postChallenge demo_env 0 ''n'' ''c'' ''ip'' (Some a) ''testnet'' ''web'' s)))"

lemma demo_sha: "ae_sha demo_env x = x" "rn_refresh (demo_random u i) = CHR ''r'' # i" "rn_session (demo_random u i) = i"
  by (simp_all add: demo_env_def demo_random_def)

lemma login_steps: "(auth_step demo_env)\<^sup>*\<^sup>* s (demo_login a i s)"
  unfolding demo_login_def
  by (rule converse_rtranclp_into_rtranclp, rule auth_step.challenge, rule r_into_rtranclp, rule auth_step.verify)

lemma no_auth_reach: "reachable auth_init (auth_step demo_env) no_auth"
  by (rule reach_init) (simp add: auth_init_def no_auth_def)

lemma reach_steps: "reachable init step s \<Longrightarrow> step\<^sup>*\<^sup>* s t \<Longrightarrow> reachable init step t"
  by (rotate_tac 1, induction rule: rtranclp_induct) (auto intro: reach_step)

definition two_sessions :: auth_state where
  "two_sessions = demo_login ''A'' ''s2'' (demo_login ''A'' ''s1'' no_auth)"

lemma two_reach: "reachable auth_init (auth_step demo_env) two_sessions"
  unfolding two_sessions_def by (intro reach_steps [OF _ login_steps] no_auth_reach)

definition one_revoked :: auth_state where
  "one_revoked = snd (guarded demo_env 5 (Some ''Bearer s1'') (postLogout 5) two_sessions)"

lemma revoked_reach: "reachable auth_init (auth_step demo_env) one_revoked"
  unfolding one_revoked_def by (rule reach_step [OF two_reach]) (rule auth_step.logout)

lemma one_revoked_rows: "map (\<lambda>r. (se_id r, se_active r)) (as_sessions one_revoked) = [(''s1'', False), (''s2'', True)]"
  by code_simp

lemma one_revoked_pass: "map_option au_session (fst (requireAuth demo_env 6 (Some ''Bearer s2'') one_revoked)) = Some ''s2''"
  by code_simp


definition one_deleted :: auth_state where
  "one_deleted = demo_login ''B'' ''s2'' (snd (guarded demo_env 5 (Some ''Bearer s1'') (deleteMe 5) (demo_login ''A'' ''s1'' no_auth)))"

lemma deleted_reach: "reachable auth_init (auth_step demo_env) one_deleted"
  unfolding one_deleted_def
  by (rule reach_steps [OF _ login_steps], rule reach_step [rotated], rule auth_step.delete_me,
      rule reach_steps [OF _ login_steps], rule no_auth_reach)

lemma one_deleted_rows: "map (\<lambda>w. (wu_id w, wu_active w)) (as_users one_deleted) = [(''A'', False), (''B'', True)]"
  by code_simp

lemma one_deleted_pass: "map_option au_id (fst (requireAuth demo_env 6 (Some ''Bearer s2'') one_deleted)) = Some ''B''"
  by code_simp

lemma deleted_account_stays_out_witness:
  "\<exists>w u. w \<in> set (as_users one_deleted) \<and> wu_id w = ''A'' \<and> fst (requireAuth demo_env 6 (Some ''Bearer s2'') one_deleted) = Some u
     \<and> au_id u \<noteq> wu_id w"
proof -
  obtain w w' where ws: "as_users one_deleted = [w, w']" "wu_id w = ''A''" "\<not> wu_active w" using one_deleted_rows by auto
  obtain u where u: "fst (requireAuth demo_env 6 (Some ''Bearer s2'') one_deleted) = Some u" using one_deleted_pass by auto
  have "w \<in> set (as_users one_deleted)" using ws by simp
  from deleted_account_stays_out [OF deleted_reach this ws(3) rtranclp.rtrancl_refl u] show ?thesis using ws u by auto
qed

text \<open>A client with a code for the account.\<close>

definition with_code :: auth_state where
  "with_code = snd (guarded demo_env 7 (Some ''Bearer s1'')
     (getAuthorize 7 ''k'' \<lparr>aq_client = Some ''app'', aq_uri = Some ''u'', aq_type = Some ''code'', aq_scope = [], aq_state = None\<rparr>)
     (snd (guarded demo_env 6 (Some ''Bearer s1'') (postApp demo_env ''app'' ''pw'' (Some ''n'') (Some [''u'']) [])
       (demo_login ''A'' ''s1'' no_auth))))"

definition demo_query :: "string option \<Rightarrow> token_query" where
  "demo_query c = \<lparr>tq_grant = Some ''authorization_code'', tq_code = c, tq_client = Some ''app'', tq_secret = Some ''pw'',
     tq_uri = Some ''u''\<rparr>"

lemma code_reach: "reachable auth_init (auth_step demo_env) with_code"
  unfolding with_code_def
  by (rule reach_step [rotated], rule auth_step.authorize, rule reach_step [rotated], rule auth_step.app,
      rule reach_steps [OF _ login_steps], rule no_auth_reach)

lemma code_gives_tokens: "is_tokens (fst (postToken demo_env 8 (demo_random ''Z'' ''s2'') (demo_query (Some ''k'')) with_code))"
  by code_simp


text \<open>A request that leaves the code out is given the first code of the client that is not used.\<close>

lemma code_omitted_redeems: "is_tokens (fst (postToken demo_env 8 (demo_random ''Z'' ''s2'') (demo_query None) with_code))"
  by code_simp

definition demo_calls :: "challenge_call list" where
  "demo_calls = map (\<lambda>n. \<lparr>vc_now = int n, vc_nonce = [], vc_id = [], vc_address = Some ''A''\<rparr>) [0..<7]"

lemma challenge_rate_bound_witness: "length (filter is_challenge (challenge_answers demo_env ''ip'' demo_calls no_auth)) \<le> 5"
  by (rule challenge_rate_bound [where ?t0.0 = 0]) (auto simp: demo_calls_def)

text \<open>Every challenge starts the minute again: of one challenge in 59 seconds the sixth is refused.\<close>

lemma slow_client_blocked:
  "map is_challenge (challenge_answers demo_env ''ip''
     (map (\<lambda>n. \<lparr>vc_now = int n * 59000, vc_nonce = [], vc_id = [], vc_address = Some ''A''\<rparr>) [0..<6]) no_auth)
    = [True, True, True, True, True, False]"
  by code_simp

text \<open>Every try starts the lifetime of its challenge again, and nothing reads \<open>expiresAt\<close>: a challenge is accepted
  after it.\<close>

lemma tries_extend_challenge:
  "map is_tokens (verify_answers demo_env ''c''
     [\<lparr>vf_now = 299000, vf_random = demo_random ''A'' ''s1'', vf_address = Some ''A'', vf_signature = Some ''x''\<rparr>,
      \<lparr>vf_now = 598000, vf_random = demo_random ''A'' ''s1'', vf_address = Some ''A'', vf_signature = Some ''A''\<rparr>]
     (snd (postChallenge demo_env 0 ''n'' ''c'' ''ip'' (Some ''A'') ''testnet'' ''web'' no_auth))) = [False, True]"
  by code_simp

lemma refresh_replaces_token_witness:
  "fst (postRefresh demo_env 2 (demo_random ''Z'' ''y'') (Some ''rs1'')
     (snd (postRefresh demo_env 1 (demo_random ''Z'' ''x'') (Some ''rs1'') (demo_login ''A'' ''s1'' no_auth)))) = A_error 401"
proof -
  let ?s = "demo_login ''A'' ''s1'' no_auth"
  have rows: "map (\<lambda>r. (se_id r, se_refreshHash r, se_active r, se_expires r)) (as_sessions ?s) = [(''s1'', ''rs1'', True, 2592000000)]"
    by code_simp
  then obtain r where r: "as_sessions ?s = [r]" "se_refreshHash r = ''rs1''" "se_active r" by auto
  have ans: "is_tokens (fst (postRefresh demo_env 1 (demo_random ''Z'' ''x'') (Some ''rs1'') ?s))" by code_simp
  show ?thesis
  proof (rule refresh_replaces_token [OF _ _ _ _ ans, THEN conjunct1])
    show "find_refresh (ae_sha demo_env ''rs1'') ?s = Some r" using r by (simp add: find_refresh_def demo_sha)
  qed (use r in \<open>simp_all add: demo_sha\<close>)
qed

definition signed_flow :: auth_state where
  "signed_flow = snd (postContribute demo_env 1 (Some ''f'') (Some ''K'') (Some ''K'')
     (snd (postInitiate 0 ''n'' ''f'' (Some ''A'') (Some [(''K'', 1)]) (Some 1) ''web'' (demo_login ''A'' ''s1'' no_auth))))"

lemma complete_needs_signatures_witness:
  "\<exists>f. cache_read 2 ''f'' (as_flows signed_flow) = Some f \<and> mf_threshold f \<le> signed_weight f"
proof -
  have "reachable auth_init (auth_step demo_env) signed_flow" unfolding signed_flow_def
    by (rule reach_step [rotated], rule auth_step.contribute, rule reach_step [rotated], rule auth_step.initiate,
        rule reach_steps [OF _ login_steps], rule no_auth_reach)
  moreover have "is_tokens (fst (postComplete demo_env 2 (demo_random ''Z'' ''s9'') (Some ''f'') signed_flow))" by code_simp
  ultimately show ?thesis using complete_needs_signatures by blast
qed

lemma multisig_for_anyone_witness:
  "is_tokens (fst (postComplete demo_env 1 (demo_random ''Z'' ''s9'') (Some ''f'')
    (snd (postContribute demo_env 1 (Some ''f'') (Some ''K'') (Some ''K'')
      (snd (postInitiate 1 ''n'' ''f'' (Some ''A'') (Some [(''K'', 1)]) (Some 1) ''web'' (demo_login ''A'' ''s1'' no_auth)))))))"
proof -
  let ?s = "demo_login ''A'' ''s1'' no_auth"
  have "map wu_address (as_users ?s) = [''A'']" "map se_id (as_sessions ?s) = [''s1'']" by code_simp+
  then obtain w r where w: "as_users ?s = [w]" "wu_address w = ''A''" "as_sessions ?s = [r]" "se_id r = ''s1''" by auto
  have "tbl_find wu_address ''A'' (as_users ?s) = Some w" using w by (simp add: tbl_find_def)
  from multisig_for_anyone [OF _ _ _ _ _ this, where env = demo_env and K = "''K''" and nonce = "''n''" and i = "''f''"
      and sig = "''K''" and rnd = "demo_random ''Z'' ''s9''" and now = 1 and app = "''web''"] show ?thesis
    using w by (simp add: demo_env_def demo_random_def)
qed

end
