(* ===== verification/Auth_Keys.thy ===== *)
theory Auth_Keys
  imports Auth_Core
begin

text \<open>
  \<open>src/auth/keys.ts\<close>: the key pair that signs tokens, in the memory of a process, in the shared
  cache and in the environment. Parsing and generating keys are parameters (\<open>gen\<close> is the pair
  that would be generated); the JWKS text is left out.
\<close>

record key_pair =
  kp_kid :: string
  kp_private :: string
  kp_public :: string
  kp_created :: int

record key_env =
  ke_production :: bool
  ke_private :: "string option"
  ke_public :: "string option"
  ke_id :: "string option"

definition KEY_TTL :: int where
  "KEY_TTL = 7 * 24 * 3600"

text \<open>\<open>replace(/\\n/g, newline)\<close>: a backslash and an n become a newline.\<close>

fun unescape_newlines :: "string \<Rightarrow> string" where
  "unescape_newlines (c # d # cs) =
     (if c = CHR 92 \<and> d = CHR ''n'' then CHR 10 # unescape_newlines cs else c # unescape_newlines (d # cs))"
| "unescape_newlines cs = cs"

datatype key_error = Missing_in_production | Only_one | Unparsable

definition validateJwtKeysAtStartup :: "(string \<Rightarrow> bool) \<Rightarrow> (string \<Rightarrow> bool) \<Rightarrow> key_env \<Rightarrow> key_error + unit" where
  "validateJwtKeysAtStartup parse_private parse_public env =
     (let hasPrivate = \<not> blank (ke_private env); hasPublic = \<not> blank (ke_public env) in
      if ke_production env \<and> (\<not> hasPrivate \<or> \<not> hasPublic) then Inl Missing_in_production
      else if hasPrivate \<or> hasPublic then
        (if \<not> hasPrivate \<or> \<not> hasPublic then Inl Only_one
         else if parse_private (unescape_newlines (the (ke_private env))) \<and> parse_public (unescape_newlines (the (ke_public env)))
         then Inr () else Inl Unparsable)
      else Inr ())"

text \<open>The pair of this process, and the one in the cache with the end of its life.\<close>

record key_ring =
  kr_current :: "key_pair option"
  kr_cached :: "(key_pair \<times> int) option"

definition cached_pair :: "int \<Rightarrow> key_ring \<Rightarrow> key_pair option" where
  "cached_pair now r = (case kr_cached r of None \<Rightarrow> None | Some (k, e) \<Rightarrow> if now < e then Some k else None)"

definition adopt :: "int \<Rightarrow> key_pair \<Rightarrow> key_ring \<Rightarrow> key_ring" where
  "adopt now k r = r\<lparr>kr_current := Some k, kr_cached := Some (k, now + KEY_TTL * 1000)\<rparr>"

definition env_pair :: "int \<Rightarrow> key_env \<Rightarrow> key_pair" where
  "env_pair now env = \<lparr>kp_kid = (case ke_id env of None \<Rightarrow> ''env_key'' | Some i \<Rightarrow> i),
     kp_private = unescape_newlines (the (ke_private env)), kp_public = unescape_newlines (the (ke_public env)), kp_created = now\<rparr>"

text \<open>\<open>None\<close>: the call throws.\<close>

definition getOrCreateKeyPair :: "key_env \<Rightarrow> int \<Rightarrow> key_pair \<Rightarrow> key_ring \<Rightarrow> (key_pair \<times> key_ring) option" where
  "getOrCreateKeyPair env now gen r =
     (case kr_current r of
        Some k \<Rightarrow> Some (k, r)
      | None \<Rightarrow>
          (case cached_pair now r of
             Some k \<Rightarrow> Some (k, r\<lparr>kr_current := Some k\<rparr>)
           | None \<Rightarrow>
               if \<not> blank (ke_private env) \<and> \<not> blank (ke_public env) then Some (env_pair now env, adopt now (env_pair now env) r)
               else if ke_production env then None
               else Some (gen, adopt now gen r)))"

definition rotate_pair :: "int \<Rightarrow> key_pair \<Rightarrow> key_ring \<Rightarrow> key_pair \<times> key_ring" where
  "rotate_pair now gen r = (gen, adopt now gen r)"

text \<open>Another process, with the same cache.\<close>

definition other_process :: "key_pair option \<Rightarrow> key_ring \<Rightarrow> key_ring" where
  "other_process k r = r\<lparr>kr_current := k\<rparr>"

text \<open>When the check at start-up passes, the service always has a key pair, and in production it is never one that
  was generated in passing: it is the pair of the process, of the cache, or of the environment.\<close>

theorem startup_check_suffices:
  assumes "validateJwtKeysAtStartup pp pb env = Inr ()"
  shows "\<exists>k r'. getOrCreateKeyPair env now gen r = Some (k, r') \<and> kr_current r' = Some k
    \<and> (ke_production env \<longrightarrow> kr_current r = Some k \<or> cached_pair now r = Some k \<or> k = env_pair now env)"
  using assms
  by (auto simp: validateJwtKeysAtStartup_def getOrCreateKeyPair_def adopt_def Let_def split: if_splits option.splits)

lemma startup_check_suffices_witness:
  "\<exists>k r'. getOrCreateKeyPair \<lparr>ke_production = True, ke_private = Some ''a'', ke_public = Some ''b'', ke_id = None\<rparr> 0 gen
      \<lparr>kr_current = None, kr_cached = None\<rparr> = Some (k, r') \<and> kr_current r' = Some k"
  using startup_check_suffices [of "\<lambda>x. True" "\<lambda>x. True"
      "\<lparr>ke_production = True, ke_private = Some ''a'', ke_public = Some ''b'', ke_id = None\<rparr>" 0 gen
      "\<lparr>kr_current = None, kr_cached = None\<rparr>"]
  by (auto simp: validateJwtKeysAtStartup_def blank_def)

text \<open>A rotation is not seen by a process that has a pair already: it goes on signing and checking with the old one, and
  refuses the tokens of the process that rotated.\<close>

lemma rotation_unseen:
  assumes "kr_current r = Some k"
  shows "getOrCreateKeyPair env t gen' (other_process (Some k) (snd (rotate_pair now gen r))) = Some (k, other_process (Some k) (snd (rotate_pair now gen r)))"
  by (simp add: getOrCreateKeyPair_def other_process_def)

text \<open>And it ends with the cache entry: a process that starts later than a week after it takes the pair of the environment
  again.\<close>

lemma rotation_forgotten:
  assumes "\<not> blank (ke_private env)" "\<not> blank (ke_public env)" "now + KEY_TTL * 1000 \<le> t"
  shows "map_option fst (getOrCreateKeyPair env t gen' (other_process None (snd (rotate_pair now gen r)))) = Some (env_pair t env)"
  using assms by (simp add: getOrCreateKeyPair_def other_process_def rotate_pair_def adopt_def cached_pair_def)

end
