(* ===== verification/Ws_Broadcaster.thy ===== *)
theory Ws_Broadcaster
  imports Api_Keys
begin

text \<open>
  \<open>src/ws/eventBroadcaster.ts\<close>: the connections of the event stream, their limits, the
  heartbeat and the delivery of an event. An upgrade calls \<open>authenticate\<close> and \<open>validateOrigin\<close>
  of the WebSocket check. A socket is a number; the sockets that are open at a moment are a
  parameter of the broadcast. Between the answer of the check and the entry of the client
  nothing else runs. Log lines and the payload text are left out.
\<close>

section \<open>State\<close>

record ws_client =
  wc_id :: nat
  wc_contract :: "string option"
  wc_type :: "string option"
  wc_ip :: string
  wc_alive :: bool
  wc_identity :: ws_identity

record ws_state =
  wb_clients :: "ws_client list"
  wb_ips :: "(string, int) jsmap"

record ws_config =
  wg_origins :: string
  wg_global :: nat
  wg_per_ip :: int
  wg_filters :: nat

text \<open>The headers and the address of a request, and the query parameters.\<close>

record upgrade_request =
  ur_auth :: ws_request
  ur_path :: string
  ur_forwarded :: "string option"
  ur_remote :: "string option"
  ur_contract :: "string option"
  ur_type :: "string option"

definition remoteIp :: "upgrade_request \<Rightarrow> string" where
  "remoteIp rq =
     (let first = (case ur_forwarded rq of None \<Rightarrow> [] | Some h \<Rightarrow> js_trim (hd (split_on (CHR '','') h)))
      in if first \<noteq> [] then first else (case ur_remote rq of None \<Rightarrow> ''unknown'' | Some a \<Rightarrow> a))"

definition ip_count :: "string \<Rightarrow> ws_state \<Rightarrow> int" where
  "ip_count ip s = (case jm_get (wb_ips s) ip of None \<Rightarrow> 0 | Some n \<Rightarrow> n)"

definition incIp :: "string \<Rightarrow> (string, int) jsmap \<Rightarrow> (string, int) jsmap" where
  "incIp ip m = jm_set ip ((case jm_get m ip of None \<Rightarrow> 0 | Some n \<Rightarrow> n) + 1) m"

definition decIp :: "string \<Rightarrow> (string, int) jsmap \<Rightarrow> (string, int) jsmap" where
  "decIp ip m =
     (let n = (case jm_get m ip of None \<Rightarrow> 1 | Some n \<Rightarrow> n) - 1
      in if n \<le> 0 then jm_delete ip m else jm_set ip n m)"

text \<open>\<open>clients.delete\<close> tells whether the client was there.\<close>

definition removeClient :: "nat \<Rightarrow> ws_state \<Rightarrow> ws_state" where
  "removeClient i s =
     (case List.find (\<lambda>c. wc_id c = i) (wb_clients s) of
        None \<Rightarrow> s
      | Some c \<Rightarrow> s\<lparr>wb_clients := filter (\<lambda>c. wc_id c \<noteq> i) (wb_clients s), wb_ips := decIp (wc_ip c) (wb_ips s)\<rparr>)"

section \<open>Connecting\<close>

datatype upgrade_answer = Not_ours | Rejected nat | Accepted

definition filter_count :: "upgrade_request \<Rightarrow> nat" where
  "filter_count rq = length (filter (\<lambda>f. f \<noteq> None \<and> f \<noteq> Some []) [ur_contract rq, ur_type rq])"

definition add_client :: "nat \<Rightarrow> ws_identity \<Rightarrow> upgrade_request \<Rightarrow> ws_state \<Rightarrow> ws_state" where
  "add_client i who rq s =
     s\<lparr>wb_clients := wb_clients s @ [\<lparr>wc_id = i, wc_contract = ur_contract rq, wc_type = ur_type rq, wc_ip = remoteIp rq,
         wc_alive = True, wc_identity = who\<rparr>],
       wb_ips := incIp (remoteIp rq) (wb_ips s)\<rparr>"

text \<open>The upgrade on the new socket \<open>i\<close>; \<open>auth\<close> is what \<open>authenticate\<close> answers.\<close>

definition upgrade :: "ws_config \<Rightarrow> nat \<Rightarrow> upgrade_request \<Rightarrow> (nat \<times> string) + ws_identity \<Rightarrow> ws_state \<Rightarrow> upgrade_answer \<times> ws_state" where
  "upgrade cfg i rq auth s =
     (if ur_path rq \<noteq> ''/ws/events'' then (Not_ours, s)
      else (case auth of
          Inl err \<Rightarrow> (Rejected (fst err), s)
        | Inr who \<Rightarrow>
            if \<not> validateOrigin (ur_auth rq) (wg_origins cfg) then (Rejected 4403, s)
            else if wg_global cfg \<le> length (wb_clients s) then (Rejected 4429, s)
            else if wg_per_ip cfg \<le> ip_count (remoteIp rq) s then (Rejected 4429, s)
            else if wg_filters cfg < filter_count rq then (Rejected 4429, s)
            else (Accepted, add_client i who rq s)))"

definition upgrade_handler ::
  "ws_config \<Rightarrow> (string \<Rightarrow> string) \<Rightarrow> (string \<Rightarrow> string option) \<Rightarrow> int \<Rightarrow> key_row list \<Rightarrow> nat \<Rightarrow> upgrade_request \<Rightarrow> ws_state
    \<Rightarrow> upgrade_answer \<times> ws_state" where
  "upgrade_handler cfg sha verifyToken now rows i rq s =
     upgrade cfg i rq (authenticate sha verifyToken now (ur_auth rq) rows) s"

section \<open>Heartbeat, delivery, shutdown\<close>

definition pong :: "nat \<Rightarrow> ws_state \<Rightarrow> ws_state" where
  "pong i s = s\<lparr>wb_clients := map (\<lambda>c. if wc_id c = i then c\<lparr>wc_alive := True\<rparr> else c) (wb_clients s)\<rparr>"

definition beat_client :: "ws_client \<Rightarrow> ws_state \<Rightarrow> ws_state" where
  "beat_client c s =
     (if \<not> wc_alive c then removeClient (wc_id c) s
      else s\<lparr>wb_clients := map (\<lambda>x. if wc_id x = wc_id c then x\<lparr>wc_alive := False\<rparr> else x) (wb_clients s)\<rparr>)"

definition heartbeat :: "ws_state \<Rightarrow> ws_state" where
  "heartbeat s = fold beat_client (wb_clients s) s"

record stream_event =
  sv_contract :: string
  sv_type :: string

definition wants :: "stream_event \<Rightarrow> ws_client \<Rightarrow> bool" where
  "wants ev c =
     ((wc_contract c = None \<or> wc_contract c = Some [] \<or> wc_contract c = Some (sv_contract ev))
      \<and> (wc_type c = None \<or> wc_type c = Some [] \<or> wc_type c = Some (sv_type ev)))"

text \<open>The sockets that an event is sent to.\<close>

definition broadcastEvent :: "(nat \<Rightarrow> bool) \<Rightarrow> stream_event \<Rightarrow> ws_state \<Rightarrow> nat list" where
  "broadcastEvent open_socket ev s = map wc_id (filter (\<lambda>c. open_socket (wc_id c) \<and> wants ev c) (wb_clients s))"

definition broadcastEmergencyEvent :: "(nat \<Rightarrow> bool) \<Rightarrow> ws_state \<Rightarrow> nat list" where
  "broadcastEmergencyEvent open_socket s = map wc_id (filter (\<lambda>c. open_socket (wc_id c)) (wb_clients s))"

definition shutdownWebSocketServer :: "ws_state \<Rightarrow> ws_state" where
  "shutdownWebSocketServer s = \<lparr>wb_clients = [], wb_ips = []\<rparr>"

section \<open>The service as a state machine\<close>

text \<open>A socket may close, fail or answer at any time, also after the client was removed; a new socket has a new
  number.\<close>

datatype ws_event =
    Upgrade nat upgrade_request "(nat \<times> string) + ws_identity"
  | Pong nat
  | Closed nat
  | Beat
  | Shutdown

fun ws_run :: "ws_config \<Rightarrow> ws_event \<Rightarrow> ws_state \<Rightarrow> ws_state" where
  "ws_run cfg (Upgrade i rq auth) s = snd (upgrade cfg i rq auth s)"
| "ws_run cfg (Pong i) s = pong i s"
| "ws_run cfg (Closed i) s = removeClient i s"
| "ws_run cfg Beat s = heartbeat s"
| "ws_run cfg Shutdown s = shutdownWebSocketServer s"

inductive ws_step :: "ws_config \<Rightarrow> ws_state \<Rightarrow> ws_state \<Rightarrow> bool" for cfg where
  ws_event: "(\<forall>i rq auth. ev = Upgrade i rq auth \<longrightarrow> i \<notin> wc_id ` set (wb_clients s)) \<Longrightarrow> ws_step cfg s (ws_run cfg ev s)"

definition ws_init :: "ws_state \<Rightarrow> bool" where
  "ws_init s = (s = \<lparr>wb_clients = [], wb_ips = []\<rparr>)"

definition of_ip :: "string \<Rightarrow> ws_state \<Rightarrow> ws_client list" where
  "of_ip ip s = filter (\<lambda>c. wc_ip c = ip) (wb_clients s)"

text \<open>Sockets are distinct, the counters are those of the clients (and positive), and the limits hold.\<close>

definition counts_ok :: "ws_state \<Rightarrow> bool" where
  "counts_ok s = (distinct (map wc_id (wb_clients s))
     \<and> (\<forall>ip. jm_get (wb_ips s) ip = (if of_ip ip s = [] then None else Some (int (length (of_ip ip s))))))"

definition caps_ok :: "ws_config \<Rightarrow> ws_state \<Rightarrow> bool" where
  "caps_ok cfg s = (length (wb_clients s) \<le> wg_global cfg
     \<and> (\<forall>ip. of_ip ip s \<noteq> [] \<longrightarrow> int (length (of_ip ip s)) \<le> wg_per_ip cfg))"

section \<open>The limits hold\<close>

lemma remove_clients: "wb_clients (removeClient i s) = filter (\<lambda>c. wc_id c \<noteq> i) (wb_clients s)"
proof (cases "List.find (\<lambda>c. wc_id c = i) (wb_clients s)")
  case None
  then have "filter (\<lambda>c. wc_id c \<noteq> i) (wb_clients s) = wb_clients s" by (auto simp: find_None_iff filter_id_conv)
  then show ?thesis using None by (simp add: removeClient_def)
qed (simp add: removeClient_def)

lemma found_client: "List.find (\<lambda>c. wc_id c = i) L = Some c \<Longrightarrow> c \<in> set L \<and> wc_id c = i"
  by (induction L) (auto split: if_splits)

lemma remove_one:
  "distinct (map wc_id L) \<Longrightarrow> c \<in> set L \<Longrightarrow> filter (\<lambda>x. wc_ip x = ip) (filter (\<lambda>x. wc_id x \<noteq> wc_id c) L)
    = (if wc_ip c = ip then removeAll c (filter (\<lambda>x. wc_ip x = ip) L) else filter (\<lambda>x. wc_ip x = ip) L)"
proof (induction L)
  case (Cons x xs)
  show ?case
  proof (cases "x = c")
    case True
    then have n: "wc_id c \<notin> wc_id ` set xs" "c \<notin> set xs" using Cons.prems by auto
    then have "\<forall>y \<in> set xs. wc_id y \<noteq> wc_id c" by (metis image_eqI)
    then have "filter (\<lambda>y. wc_id y \<noteq> wc_id c) xs = xs" by (simp add: filter_id_conv)
    then show ?thesis using True n by (auto simp: removeAll_id)
  next
    case False
    then have "wc_id x \<noteq> wc_id c" using Cons.prems by auto
    then show ?thesis using Cons False by auto
  qed
qed simp

lemma length_removeAll: "distinct L \<Longrightarrow> c \<in> set L \<Longrightarrow> Suc (length (removeAll c L)) = length L"
  using length_pos_if_in_set [of c L] by (simp add: distinct_remove1_removeAll [symmetric] length_remove1)

lemma remove_counts:
  assumes "counts_ok s" shows "counts_ok (removeClient i s)"
proof (cases "List.find (\<lambda>c. wc_id c = i) (wb_clients s)")
  case None
  then show ?thesis using assms by (simp add: removeClient_def)
next
  case (Some c)
  then have c: "c \<in> set (wb_clients s)" "wc_id c = i" using found_client by blast+
  have d: "distinct (map wc_id (wb_clients s))" and n: "\<And>ip. jm_get (wb_ips s) ip = (if of_ip ip s = [] then None else Some (int (length (of_ip ip s))))"
    using assms by (auto simp: counts_ok_def)
  let ?s = "removeClient i s"
  have of: "of_ip ip ?s = (if wc_ip c = ip then removeAll c (of_ip ip s) else of_ip ip s)" for ip
    using remove_one [OF d c(1), of ip] c(2) by (simp add: of_ip_def remove_clients)
  have m: "c \<in> set (of_ip (wc_ip c) s)" using c(1) by (simp add: of_ip_def)
  have dd: "distinct (of_ip (wc_ip c) s)" using d by (simp add: of_ip_def distinct_map)
  have len: "Suc (length (removeAll c (of_ip (wc_ip c) s))) = length (of_ip (wc_ip c) s)" by (rule length_removeAll [OF dd m])
  have "jm_get (wb_ips ?s) ip = (if of_ip ip ?s = [] then None else Some (int (length (of_ip ip ?s))))" for ip
  proof (cases "ip = wc_ip c")
    case True
    have ne: "of_ip ip s \<noteq> []" using m True by auto
    have ips: "wb_ips ?s = decIp (wc_ip c) (wb_ips s)" using Some by (simp add: removeClient_def)
    have "int (length (of_ip ip s)) - 1 = int (length (of_ip ip ?s))" using len True of [of ip] by simp
    then show ?thesis using True ne n [of ip] ips by (auto simp: decIp_def Let_def)
  next
    case False
    have "wb_ips ?s = decIp (wc_ip c) (wb_ips s)" using Some by (simp add: removeClient_def)
    then show ?thesis using False n [of ip] of [of ip] by (auto simp: decIp_def Let_def)
  qed
  moreover have "distinct (map wc_id (wb_clients ?s))" using d by (simp add: remove_clients distinct_map_filter)
  ultimately show ?thesis by (simp add: counts_ok_def)
qed

lemma remove_caps: "caps_ok cfg s \<Longrightarrow> caps_ok cfg (removeClient i s)"
proof -
  assume a: "caps_ok cfg s"
  have of: "of_ip ip (removeClient i s) = filter (\<lambda>c. wc_id c \<noteq> i) (of_ip ip s)" for ip
    by (simp add: of_ip_def remove_clients conj_commute)
  have "int (length (of_ip ip (removeClient i s))) \<le> wg_per_ip cfg" if "of_ip ip (removeClient i s) \<noteq> []" for ip
  proof -
    have "of_ip ip s \<noteq> []" using that of [of ip] by auto
    then have "int (length (of_ip ip s)) \<le> wg_per_ip cfg" using a by (simp add: caps_ok_def)
    moreover have "length (of_ip ip (removeClient i s)) \<le> length (of_ip ip s)" by (simp add: of)
    ultimately show ?thesis by linarith
  qed
  moreover have "length (wb_clients (removeClient i s)) \<le> wg_global cfg"
    using a le_trans [OF length_filter_le] by (fastforce simp: caps_ok_def remove_clients)
  ultimately show ?thesis by (simp add: caps_ok_def)
qed

lemma alive_same:
  assumes "\<And>c. wc_id (f c) = wc_id c \<and> wc_ip (f c) = wc_ip c"
  shows "counts_ok (s\<lparr>wb_clients := map f (wb_clients s)\<rparr>) = counts_ok s" "caps_ok cfg (s\<lparr>wb_clients := map f (wb_clients s)\<rparr>) = caps_ok cfg s"
proof -
  have "wc_id \<circ> f = wc_id" using assms by auto
  moreover have of: "of_ip ip (s\<lparr>wb_clients := map f (wb_clients s)\<rparr>) = map f (of_ip ip s)" for ip
    using assms by (simp add: of_ip_def filter_map comp_def)
  ultimately show "counts_ok (s\<lparr>wb_clients := map f (wb_clients s)\<rparr>) = counts_ok s"
    "caps_ok cfg (s\<lparr>wb_clients := map f (wb_clients s)\<rparr>) = caps_ok cfg s"
    by (auto simp: counts_ok_def caps_ok_def)
qed

lemma beat_ok: "counts_ok s \<and> caps_ok cfg s \<Longrightarrow> counts_ok (beat_client c s) \<and> caps_ok cfg (beat_client c s)"
  by (simp add: beat_client_def remove_counts remove_caps alive_same)

lemma beats_ok: "counts_ok s \<and> caps_ok cfg s \<Longrightarrow> counts_ok (fold beat_client cs s) \<and> caps_ok cfg (fold beat_client cs s)"
proof (induction cs arbitrary: s)
  case (Cons c cs)
  then show ?case using beat_ok [of s cfg c] by simp
qed simp

lemma add_ok:
  assumes "counts_ok s" "caps_ok cfg s" "i \<notin> wc_id ` set (wb_clients s)" "length (wb_clients s) < wg_global cfg"
    "ip_count (remoteIp rq) s < wg_per_ip cfg"
  shows "counts_ok (add_client i who rq s) \<and> caps_ok cfg (add_client i who rq s)"
proof -
  let ?s = "add_client i who rq s" and ?ip = "remoteIp rq"
  have n: "jm_get (wb_ips s) ip = (if of_ip ip s = [] then None else Some (int (length (of_ip ip s))))" for ip
    using assms(1) by (simp add: counts_ok_def)
  have len: "length (of_ip ip ?s) = length (of_ip ip s) + (if ip = ?ip then 1 else 0)" for ip
    by (simp add: of_ip_def add_client_def)
  have cnt: "ip_count ip s = int (length (of_ip ip s))" for ip using n [of ip] by (simp add: ip_count_def)
  have "jm_get (wb_ips ?s) ip = (if of_ip ip ?s = [] then None else Some (int (length (of_ip ip ?s))))" for ip
    using n [of ip] len [of ip] by (auto simp: add_client_def incIp_def of_ip_def)
  moreover have "int (length (of_ip ip ?s)) \<le> wg_per_ip cfg" if "of_ip ip ?s \<noteq> []" for ip
  proof (cases "ip = ?ip")
    case True
    then show ?thesis using len [of ip] cnt [of ip] assms(5) by simp
  next
    case False
    then have "length (of_ip ip ?s) = length (of_ip ip s)" using len [of ip] by simp
    moreover from this have "of_ip ip s \<noteq> []" using that by (metis length_0_conv)
    ultimately show ?thesis using assms(2) by (simp add: caps_ok_def)
  qed
  ultimately show ?thesis using assms by (auto simp: counts_ok_def caps_ok_def add_client_def)
qed

interpretation ws: invariant_system ws_init "ws_step cfg" "\<lambda>s. counts_ok s \<and> caps_ok cfg s"
proof unfold_locales
  fix s assume "ws_init s"
  then show "counts_ok s \<and> caps_ok cfg s" by (simp add: ws_init_def counts_ok_def caps_ok_def of_ip_def)
next
  fix s t assume ok: "counts_ok s \<and> caps_ok cfg s" and "ws_step cfg s t"
  then obtain ev where ev: "t = ws_run cfg ev s" "\<forall>i rq auth. ev = Upgrade i rq auth \<longrightarrow> i \<notin> wc_id ` set (wb_clients s)"
    by (auto elim: ws_step.cases)
  show "counts_ok t \<and> caps_ok cfg t"
  proof (cases ev)
    case (Upgrade i rq auth)
    then show ?thesis using ok ev add_ok [of s cfg i rq] by (auto simp: upgrade_def split: sum.splits)
  next
    case (Pong i)
    then show ?thesis using ok ev by (simp add: pong_def alive_same)
  next
    case (Closed i)
    then show ?thesis using ok ev by (simp add: remove_counts remove_caps)
  next
    case Beat
    then show ?thesis using ok ev beats_ok [of s cfg "wb_clients s"] by (simp add: heartbeat_def)
  next
    case Shutdown
    then show ?thesis using ev by (simp add: shutdownWebSocketServer_def counts_ok_def caps_ok_def of_ip_def)
  qed
qed

text \<open>C15: In every reachable state, whatever sockets do, there are no more connections than allowed, in all and from any one
  address; the counter of an address is the number of its connections, and an address without any has no counter.\<close>

theorem connection_limits_hold:
  assumes "reachable ws_init (ws_step cfg) s"
  shows "length (wb_clients s) \<le> wg_global cfg \<and> distinct (map wc_id (wb_clients s))
    \<and> (\<forall>ip. jm_get (wb_ips s) ip = (if of_ip ip s = [] then None else Some (int (length (of_ip ip s))))
         \<and> (of_ip ip s \<noteq> [] \<longrightarrow> int (length (of_ip ip s)) \<le> wg_per_ip cfg))"
  using ws.reachable_inv [OF assms] by (simp add: counts_ok_def caps_ok_def)

section \<open>The heartbeat\<close>

definition with_ids :: "ws_client list \<Rightarrow> nat set" where
  "with_ids cs = wc_id ` set cs"

lemma beat_clients:
  "wb_clients (beat_client c s) =
     (if wc_alive c then map (\<lambda>x. if wc_id x = wc_id c then x\<lparr>wc_alive := False\<rparr> else x) (wb_clients s)
      else filter (\<lambda>x. wc_id x \<noteq> wc_id c) (wb_clients s))"
  by (simp add: beat_client_def remove_clients)

lemma beats_clients:
  "wb_clients (fold beat_client cs s) =
     map (\<lambda>x. if \<exists>c \<in> set cs. wc_alive c \<and> wc_id c = wc_id x then x\<lparr>wc_alive := False\<rparr> else x)
       (filter (\<lambda>x. \<not> (\<exists>c \<in> set cs. \<not> wc_alive c \<and> wc_id c = wc_id x)) (wb_clients s))"
proof (induction cs arbitrary: s)
  case (Cons c cs)
  have f: "filter P (map g L) = map g (filter P L)" if "\<And>x. P (g x) = P x" for P g and L :: "ws_client list"
    using that by (induction L) auto
  show ?case
  proof (cases "wc_alive c")
    case True
    let ?off = "\<lambda>x. if wc_id x = wc_id c then x\<lparr>wc_alive := False\<rparr> else x"
    show ?thesis using True Cons [of "beat_client c s"]
      by (simp add: beat_clients f) (auto intro!: map_cong filter_cong)
  next
    case False
    then show ?thesis using Cons [of "beat_client c s"]
      by (simp add: beat_clients) (auto intro!: map_cong filter_cong)
  qed
qed simp

lemma heartbeat_clients:
  assumes "distinct (map wc_id (wb_clients s))"
  shows "wb_clients (heartbeat s) = map (\<lambda>c. c\<lparr>wc_alive := False\<rparr>) (filter wc_alive (wb_clients s))"
proof -
  have same: "x = c" if "c \<in> set (wb_clients s)" "x \<in> set (wb_clients s)" "wc_id c = wc_id x" for c x
    using assms that by (metis distinct_map inj_onD)
  have "filter (\<lambda>x. \<not> (\<exists>c \<in> set (wb_clients s). \<not> wc_alive c \<and> wc_id c = wc_id x)) (wb_clients s) = filter wc_alive (wb_clients s)"
    by (rule filter_cong [OF refl]) (use same in blast)
  moreover have "map (\<lambda>x. if \<exists>c \<in> set (wb_clients s). wc_alive c \<and> wc_id c = wc_id x then x\<lparr>wc_alive := False\<rparr> else x)
      (filter wc_alive (wb_clients s)) = map (\<lambda>c. c\<lparr>wc_alive := False\<rparr>) (filter wc_alive (wb_clients s))"
    by (rule map_cong [OF refl]) auto
  ultimately show ?thesis by (simp add: heartbeat_def beats_clients)
qed

text \<open>Runs, in which a new socket has a number that is not in use.\<close>

fun ws_runs :: "ws_config \<Rightarrow> ws_event list \<Rightarrow> ws_state \<Rightarrow> ws_state" where
  "ws_runs cfg [] s = s"
| "ws_runs cfg (ev # evs) s = ws_runs cfg evs (ws_run cfg ev s)"

fun fresh_run :: "ws_config \<Rightarrow> ws_event list \<Rightarrow> ws_state \<Rightarrow> bool" where
  "fresh_run cfg [] s = True"
| "fresh_run cfg (ev # evs) s =
     ((case ev of Upgrade i rq auth \<Rightarrow> i \<notin> wc_id ` set (wb_clients s) | _ \<Rightarrow> True) \<and> fresh_run cfg evs (ws_run cfg ev s))"

definition mentions :: "nat \<Rightarrow> ws_event \<Rightarrow> bool" where
  "mentions i ev = (case ev of Upgrade j rq auth \<Rightarrow> j = i | Pong j \<Rightarrow> j = i | _ \<Rightarrow> False)"

lemma fresh_counts: "counts_ok s \<and> caps_ok cfg s \<Longrightarrow> fresh_run cfg evs s \<Longrightarrow> counts_ok (ws_runs cfg evs s) \<and> caps_ok cfg (ws_runs cfg evs s)"
proof (induction evs arbitrary: s)
  case (Cons ev evs)
  have "ws_step cfg s (ws_run cfg ev s)" by (rule ws_event) (use Cons.prems(2) in auto)
  then have "counts_ok (ws_run cfg ev s) \<and> caps_ok cfg (ws_run cfg ev s)" by (rule ws.inv_step [OF Cons.prems(1)])
  then show ?case using Cons by simp
qed simp

definition silent :: "nat \<Rightarrow> ws_state \<Rightarrow> bool" where
  "silent i s = (\<forall>c \<in> set (wb_clients s). wc_id c = i \<longrightarrow> \<not> wc_alive c)"

lemma silent_run:
  assumes "counts_ok s" "silent i s" "\<not> mentions i ev"
  shows "silent i (ws_run cfg ev s)"
proof (cases ev)
  case (Upgrade j rq auth)
  then show ?thesis using assms by (auto simp: silent_def upgrade_def add_client_def mentions_def split: sum.splits)
next
  case (Pong j)
  then show ?thesis using assms by (auto simp: silent_def pong_def mentions_def)
next
  case (Closed j)
  then show ?thesis using assms by (auto simp: silent_def remove_clients)
next
  case Beat
  then show ?thesis using assms by (auto simp: silent_def heartbeat_clients counts_ok_def)
qed (simp add: silent_def shutdownWebSocketServer_def)

lemma silent_runs:
  "counts_ok s \<and> caps_ok cfg s \<Longrightarrow> silent i s \<Longrightarrow> fresh_run cfg evs s \<Longrightarrow> \<forall>ev \<in> set evs. \<not> mentions i ev \<Longrightarrow> silent i (ws_runs cfg evs s)"
proof (induction evs arbitrary: s)
  case (Cons ev evs)
  have "counts_ok (ws_run cfg ev s) \<and> caps_ok cfg (ws_run cfg ev s)"
    using fresh_counts [OF Cons.prems(1), of "[ev]"] Cons.prems(3) by simp
  moreover have "silent i (ws_run cfg ev s)" using silent_run Cons.prems by simp
  ultimately show ?case using Cons by simp
qed simp

text \<open>C23: A client that does not answer between two heartbeats is gone after the second, whatever else happens in between.\<close>

theorem silent_client_reaped:
  assumes reach: "reachable ws_init (ws_step cfg) s" and fresh: "fresh_run cfg evs (heartbeat s)"
    and quiet: "\<forall>ev \<in> set evs. \<not> mentions i ev"
  shows "i \<notin> wc_id ` set (wb_clients (heartbeat (ws_runs cfg evs (heartbeat s))))"
proof -
  have ok: "counts_ok s \<and> caps_ok cfg s" by (rule ws.reachable_inv [OF reach])
  have ok1: "counts_ok (heartbeat s) \<and> caps_ok cfg (heartbeat s)" using beats_ok [OF ok] by (simp add: heartbeat_def)
  have "silent i (heartbeat s)" using ok by (auto simp: silent_def heartbeat_clients counts_ok_def)
  then have "silent i (ws_runs cfg evs (heartbeat s))" by (rule silent_runs [OF ok1 _ fresh quiet])
  moreover have "counts_ok (ws_runs cfg evs (heartbeat s))" using fresh_counts [OF ok1 fresh] by simp
  ultimately show ?thesis by (auto simp: heartbeat_clients counts_ok_def silent_def)
qed

text \<open>One that has answered stays.\<close>

lemma answering_client_stays:
  assumes "counts_ok s" "i \<in> wc_id ` set (wb_clients s)"
  shows "i \<in> wc_id ` set (wb_clients (heartbeat (pong i s)))"
proof -
  have "map wc_id (wb_clients (pong i s)) = map wc_id (wb_clients s)" by (simp add: pong_def)
  then have "distinct (map wc_id (wb_clients (pong i s)))" using assms(1) by (simp add: counts_ok_def)
  then have beat: "wb_clients (heartbeat (pong i s)) = map (\<lambda>c. c\<lparr>wc_alive := False\<rparr>) (filter wc_alive (wb_clients (pong i s)))"
    by (rule heartbeat_clients)
  obtain c where c: "c \<in> set (wb_clients s)" "wc_id c = i" using assms(2) by auto
  have "c\<lparr>wc_alive := True\<rparr> \<in> set (wb_clients (pong i s))"
    unfolding pong_def using c by (auto intro!: image_eqI [of _ _ c])
  then have "c\<lparr>wc_alive := True\<rparr> \<in> set (filter wc_alive (wb_clients (pong i s)))" by simp
  then have "wc_id (c\<lparr>wc_alive := True, wc_alive := False\<rparr>) \<in> wc_id ` set (wb_clients (heartbeat (pong i s)))"
    unfolding beat by (metis (no_types, lifting) image_eqI list.set_map)
  then show ?thesis using c by simp
qed

text \<open>The address of a client is what its request says in a header: with ever new headers one host opens connections
  up to the global limit.\<close>

lemma header_decides_address:
  "js_trim (hd (split_on (CHR '','') h)) \<noteq> [] \<Longrightarrow> remoteIp (rq\<lparr>ur_forwarded := Some h\<rparr>) = js_trim (hd (split_on (CHR '','') h))"
  by (simp add: remoteIp_def)

section \<open>Examples\<close>

definition demo_config :: ws_config where
  "demo_config = \<lparr>wg_origins = [], wg_global = 2, wg_per_ip = 1, wg_filters = 2\<rparr>"

definition demo_upgrade :: "string \<Rightarrow> upgrade_request" where
  "demo_upgrade h = \<lparr>ur_auth = \<lparr>wr_token = None, wr_key = [], wr_authorization = [], wr_origin = []\<rparr>, ur_path = ''/ws/events'',
     ur_forwarded = Some h, ur_remote = Some ''host'', ur_contract = None, ur_type = None\<rparr>"

definition demo_ws :: ws_state where
  "demo_ws = ws_runs demo_config [Upgrade 1 (demo_upgrade ''a'') (Inr (Ws_jwt ''u'')), Upgrade 2 (demo_upgrade ''b'') (Inr (Ws_jwt ''u''))]
     \<lparr>wb_clients = [], wb_ips = []\<rparr>"

lemma run_reach: "reachable ws_init (ws_step cfg) s \<Longrightarrow> fresh_run cfg evs s \<Longrightarrow> reachable ws_init (ws_step cfg) (ws_runs cfg evs s)"
proof (induction evs arbitrary: s)
  case (Cons ev evs)
  have "ws_step cfg s (ws_run cfg ev s)" by (rule ws_event) (use Cons.prems(2) in auto)
  then have "reachable ws_init (ws_step cfg) (ws_run cfg ev s)" by (rule reach_step [OF Cons.prems(1)])
  then show ?case using Cons by simp
qed simp

lemma demo_ws_reach: "reachable ws_init (ws_step demo_config) demo_ws"
proof -
  have "fresh_run demo_config [Upgrade 1 (demo_upgrade ''a'') (Inr (Ws_jwt ''u'')), Upgrade 2 (demo_upgrade ''b'') (Inr (Ws_jwt ''u''))]
     \<lparr>wb_clients = [], wb_ips = []\<rparr>" by code_simp
  then show ?thesis unfolding demo_ws_def by (intro run_reach reach_init) (simp_all add: ws_init_def)
qed

lemma connection_limits_hold_witness:
  "length (wb_clients demo_ws) = 2 \<and> length (wb_clients demo_ws) \<le> wg_global demo_config"
proof -
  have "length (wb_clients demo_ws) = 2" by code_simp
  then show ?thesis using connection_limits_hold [OF demo_ws_reach] by simp
qed

lemma silent_client_reaped_witness:
  "1 \<notin> wc_id ` set (wb_clients (heartbeat (ws_runs demo_config [Pong 2] (heartbeat demo_ws))))"
  by (rule silent_client_reaped [OF demo_ws_reach]) (simp_all add: mentions_def)

end
