(* ===== verification/Csv_Exporter.thy ===== *)
theory Csv_Exporter
  imports Octra_Prelude
begin

text \<open>
  \<open>src/indexer/csv-exporter.ts\<close> with \<open>src/exports/resolve-path.ts\<close> and the download handler of
  \<open>src/api/exports.ts\<close>: the text of a CSV file, the loops that read a table page by page, the
  export jobs, and the path of a file below the export directory. A table is the list of its rows in
  the order of the query. A loop that does not end has the value \<open>None\<close>. Writing a file either
  succeeds or throws with a text, which is an argument.
\<close>

section \<open>Text of a file\<close>

text \<open>A value of a column: \<open>null\<close> or \<open>undefined\<close>, a value that is no object with its \<open>String\<close>, an object with its
  JSON text.\<close>

datatype csv_value = C_null | C_text string | C_json string

definition value_text :: "csv_value \<Rightarrow> string" where
  "value_text v = (case v of C_null \<Rightarrow> [] | C_text s \<Rightarrow> s | C_json s \<Rightarrow> s)"

fun double_quotes :: "string \<Rightarrow> string" where
  "double_quotes [] = []"
| "double_quotes (c # cs) = (if c = CHR 34 then CHR 34 # CHR 34 # double_quotes cs else c # double_quotes cs)"

definition escapeCsv :: "csv_value \<Rightarrow> string" where
  "escapeCsv v =
     (case v of C_null \<Rightarrow> []
      | _ \<Rightarrow>
          (let s = value_text v in
           if CHR '','' \<in> set s \<or> CHR 34 \<in> set s \<or> CHR 10 \<in> set s then CHR 34 # double_quotes s @ [CHR 34] else s))"

text \<open>A row: its identifier and its columns.\<close>

record export_row =
  er_id :: string
  er_ledger :: int
  er_cols :: "(string \<times> csv_value) list"

definition column :: "export_row \<Rightarrow> string \<Rightarrow> csv_value" where
  "column r h = (case map_of (er_cols r) h of None \<Rightarrow> C_null | Some v \<Rightarrow> v)"

definition rowToCsv :: "string list \<Rightarrow> export_row \<Rightarrow> string" where
  "rowToCsv headers obj = join_with '','' (map (\<lambda>h. escapeCsv (column obj h)) headers)"

definition TX_HEADERS :: "string list" where
  "TX_HEADERS = [''hash'', ''ledgerSequence'', ''ledgerCloseTime'', ''sourceAccount'', ''contractAddress'', ''functionName'',
     ''status'', ''humanReadable'', ''feeCharged'', ''createdAt'']"

definition EVENT_HEADERS :: "string list" where
  "EVENT_HEADERS = [''id'', ''transactionHash'', ''contractAddress'', ''eventType'', ''topics'', ''data'', ''decoded'',
     ''ledgerSequence'', ''ledgerCloseTime'', ''createdAt'']"

definition WALLET_HISTORY_HEADERS :: "string list" where
  "WALLET_HISTORY_HEADERS = [''type'', ''hash'', ''ledgerSequence'', ''ledgerCloseTime'', ''contractAddress'', ''functionName'',
     ''status'', ''humanReadable'', ''feeCharged'', ''createdAt'']"

definition file_text :: "string list \<Rightarrow> export_row list \<Rightarrow> string" where
  "file_text headers rows = join_with '','' headers @ [CHR 10] @ concat (map (\<lambda>r. rowToCsv headers r @ [CHR 10]) rows)"

section \<open>Filters\<close>

record export_filters =
  ef_contract :: "string option"
  ef_account :: "string option"
  ef_status :: "string option"
  ef_eventType :: "string option"
  ef_min :: "int option"
  ef_max :: "int option"

definition column_is :: "string \<Rightarrow> string option \<Rightarrow> export_row \<Rightarrow> bool" where
  "column_is h v r = (case v of None \<Rightarrow> True | Some x \<Rightarrow> x = [] \<or> column r h = C_text x)"

definition ledger_in :: "export_filters \<Rightarrow> export_row \<Rightarrow> bool" where
  "ledger_in f r = ((case ef_min f of None \<Rightarrow> True | Some a \<Rightarrow> a \<le> er_ledger r)
     \<and> (case ef_max f of None \<Rightarrow> True | Some b \<Rightarrow> er_ledger r \<le> b))"

definition buildTxWhere :: "export_filters \<Rightarrow> export_row \<Rightarrow> bool" where
  "buildTxWhere f r = (column_is ''contractAddress'' (ef_contract f) r \<and> column_is ''sourceAccount'' (ef_account f) r
     \<and> column_is ''status'' (ef_status f) r \<and> ledger_in f r)"

definition buildEventWhere :: "export_filters \<Rightarrow> export_row \<Rightarrow> bool" where
  "buildEventWhere f r =
     (column_is ''contractAddress'' (ef_contract f) r \<and> column_is ''eventType'' (ef_eventType f) r \<and> ledger_in f r)"

section \<open>Reading page by page\<close>

definition BATCH_SIZE :: nat where
  "BATCH_SIZE = 500"

text \<open>A query with \<open>cursor\<close> and \<open>skip: 1\<close> starts after the row of the cursor.\<close>

definition page :: "export_row list \<Rightarrow> string option \<Rightarrow> export_row list" where
  "page rows cursor =
     take BATCH_SIZE (case cursor of None \<Rightarrow> rows | Some c \<Rightarrow> drop 1 (dropWhile (\<lambda>r. er_id r \<noteq> c) rows))"

text \<open>The loop that the three exports share; \<open>fetch\<close> is their query.\<close>

partial_function (option) stream_loop ::
  "(string option \<Rightarrow> export_row list) \<Rightarrow> string option \<Rightarrow> export_row list \<Rightarrow> export_row list option" where
  "stream_loop fetch cursor written =
     (let rows = fetch cursor in
      if rows = [] then Some written
      else if length rows < BATCH_SIZE then Some (written @ rows)
      else stream_loop fetch (Some (er_id (last rows))) (written @ rows))"

declare stream_loop.simps [code]

text \<open>The file and the number of rows.\<close>

definition streamed :: "string list \<Rightarrow> export_row list option \<Rightarrow> (string \<times> nat) option" where
  "streamed headers r = map_option (\<lambda>rows. (file_text headers rows, length rows)) r"

definition streamTransactions :: "export_filters \<Rightarrow> export_row list \<Rightarrow> (string \<times> nat) option" where
  "streamTransactions f table = streamed TX_HEADERS (stream_loop (page (filter (buildTxWhere f) table)) None [])"

definition streamEvents :: "export_filters \<Rightarrow> export_row list \<Rightarrow> (string \<times> nat) option" where
  "streamEvents f table = streamed EVENT_HEADERS (stream_loop (page (filter (buildEventWhere f) table)) None [])"

text \<open>The wallet history: every row gets the type \<open>soroban\<close>; its query has no cursor. \<open>Inl\<close>: it throws.\<close>

definition wallet_rows :: "string \<Rightarrow> export_filters \<Rightarrow> export_row list \<Rightarrow> export_row list" where
  "wallet_rows address f table =
     map (\<lambda>r. r\<lparr>er_cols := (''type'', C_text ''soroban'') # er_cols r\<rparr>)
       (filter (\<lambda>r. column r ''sourceAccount'' = C_text address \<and> ledger_in f r) table)"

definition streamWalletHistory :: "export_filters \<Rightarrow> export_row list \<Rightarrow> string + (string \<times> nat) option" where
  "streamWalletHistory f table =
     (let address = (case ef_account f of None \<Rightarrow> [] | Some a \<Rightarrow> a) in
      if address = [] then Inl ''account filter is required for wallet history export''
      else Inr (streamed WALLET_HISTORY_HEADERS
        (stream_loop (\<lambda>cursor. take BATCH_SIZE (wallet_rows address f table)) None [])))"

section \<open>Jobs\<close>

datatype export_type = Export_transactions | Export_events | Export_wallet

datatype job_status = Job_pending | Job_running | Job_done | Job_failed

record export_job =
  ej_id :: string
  ej_type :: export_type
  ej_filters :: export_filters
  ej_developer :: string
  ej_status :: job_status
  ej_file :: "string option"
  ej_count :: "nat option"
  ej_error :: "string option"

record export_state =
  ex_jobs :: "export_job list"
  ex_files :: "(string, string) jsmap"
  ex_transactions :: "export_row list"
  ex_events :: "export_row list"

definition type_name :: "export_type \<Rightarrow> string" where
  "type_name t = (case t of Export_transactions \<Rightarrow> ''transactions'' | Export_events \<Rightarrow> ''events'' | Export_wallet \<Rightarrow> ''wallet_history'')"

definition file_name :: "export_job \<Rightarrow> string" where
  "file_name j = type_name (ej_type j) @ ''-'' @ ej_id j @ ''.csv''"

definition set_job :: "string \<Rightarrow> (export_job \<Rightarrow> export_job) \<Rightarrow> export_state \<Rightarrow> export_state" where
  "set_job i f s = s\<lparr>ex_jobs := tbl_update ej_id i f (ex_jobs s)\<rparr>"

definition run_stream :: "export_job \<Rightarrow> export_state \<Rightarrow> string + (string \<times> nat) option" where
  "run_stream j s =
     (case ej_type j of
        Export_transactions \<Rightarrow> Inr (streamTransactions (ej_filters j) (ex_transactions s))
      | Export_wallet \<Rightarrow> streamWalletHistory (ej_filters j) (ex_transactions s)
      | Export_events \<Rightarrow> Inr (streamEvents (ej_filters j) (ex_events s)))"

definition job_failed :: "string \<Rightarrow> export_job \<Rightarrow> export_job" where
  "job_failed err j = j\<lparr>ej_status := Job_failed, ej_error := Some err\<rparr>"

text \<open>\<open>disk\<close>: the text of the error when the file cannot be written. \<open>None\<close>: the call does not return; the job
  is then \<open>running\<close>.\<close>

definition runExportJob :: "string option \<Rightarrow> string \<Rightarrow> export_state \<Rightarrow> export_state option" where
  "runExportJob disk i s =
     (case tbl_find ej_id i (ex_jobs s) of
        None \<Rightarrow> Some s
      | Some j \<Rightarrow>
          if ej_status j \<noteq> Job_pending then Some s
          else
            (let s1 = set_job i (\<lambda>j. j\<lparr>ej_status := Job_running\<rparr>) s in
             (case run_stream j s of
                Inl err \<Rightarrow> Some (set_job i (job_failed err) s1)
              | Inr None \<Rightarrow> None
              | Inr (Some (txt, n)) \<Rightarrow>
                  (case disk of
                     Some err \<Rightarrow> Some (set_job i (job_failed err) s1)
                   | None \<Rightarrow> Some (set_job i (\<lambda>x. x\<lparr>ej_status := Job_done, ej_file := Some (file_name j), ej_count := Some n\<rparr>)
                       (s1\<lparr>ex_files := jm_set (file_name j) txt (ex_files s1)\<rparr>))))))"

definition enqueueExport :: "string \<Rightarrow> export_type \<Rightarrow> export_filters \<Rightarrow> string \<Rightarrow> export_state \<Rightarrow> export_state" where
  "enqueueExport i t f developer s =
     s\<lparr>ex_jobs := ex_jobs s @ [\<lparr>ej_id = i, ej_type = t, ej_filters = f, ej_developer = developer, ej_status = Job_pending,
        ej_file = None, ej_count = None, ej_error = None\<rparr>]\<rparr>"

section \<open>Paths\<close>

text \<open>Absolute paths are lists of segments; \<open>path.resolve\<close> of POSIX appends a relative path and resolves dots.\<close>

fun resolve_segments :: "string list \<Rightarrow> string list \<Rightarrow> string list" where
  "resolve_segments base [] = base"
| "resolve_segments base (seg # segs) =
     (if seg = [] \<or> seg = ''.'' then resolve_segments base segs
      else if seg = ''..'' then resolve_segments (butlast base) segs
      else resolve_segments (base @ [seg]) segs)"

definition path_text :: "string list \<Rightarrow> string" where
  "path_text segs = CHR ''/'' # join_with ''/'' segs"

fun split_slashes :: "string \<Rightarrow> string list" where
  "split_slashes [] = [[]]"
| "split_slashes (c # cs) =
     (if c = CHR ''/'' \<or> c = CHR 92 then [] # split_slashes cs
      else (case split_slashes cs of [] \<Rightarrow> [[c]] | p # ps \<Rightarrow> (c # p) # ps))"

datatype export_path_error = Invalid_path | Escapes_directory

definition resolveExportFilePath :: "string list \<Rightarrow> string \<Rightarrow> export_path_error + string list" where
  "resolveExportFilePath base relativePath =
     (if relativePath = [] \<or> starts_with ''/'' relativePath \<or> CHR 0x00 \<in> set relativePath then Inl Invalid_path
      else if ''..'' \<in> set (split_slashes relativePath) then Inl Escapes_directory
      else
        (let resolved = resolve_segments base (split_on (CHR ''/'') relativePath)
         in if path_text resolved \<noteq> path_text base \<and> \<not> starts_with (path_text base @ ''/'') (path_text resolved)
            then Inl Escapes_directory else Inr resolved))"

text \<open>The download: a status, or the file.\<close>

definition getFile :: "string list \<Rightarrow> (string list \<Rightarrow> string option) \<Rightarrow> string \<Rightarrow> string \<Rightarrow> export_state \<Rightarrow> nat + string" where
  "getFile base disk developer i s =
     (case List.find (\<lambda>j. ej_developer j = developer \<and> ej_id j = i) (ex_jobs s) of
        None \<Rightarrow> Inl 404
      | Some j \<Rightarrow>
          if ej_status j \<noteq> Job_done \<or> ej_file j = None \<or> ej_file j = Some [] then Inl 409
          else (case resolveExportFilePath base (the (ej_file j)) of
              Inl err \<Rightarrow> Inl 400
            | Inr p \<Rightarrow> (case disk p of None \<Rightarrow> Inl 410 | Some txt \<Rightarrow> Inr txt)))"

section \<open>Reading a file back\<close>

text \<open>The reference reader: fields are separated by commas, records end with a newline, a field that starts with a
  quotation mark runs to the next single one, and two of them stand for one.\<close>

datatype csv_mode = At_start | In_plain | In_quoted | Quote_seen

record csv_reader =
  cr_mode :: csv_mode
  cr_field :: string
  cr_row :: "string list"
  cr_rows :: "string list list"

definition end_field :: "csv_reader \<Rightarrow> csv_reader" where
  "end_field r = r\<lparr>cr_mode := At_start, cr_field := [], cr_row := cr_row r @ [cr_field r]\<rparr>"

definition end_record :: "csv_reader \<Rightarrow> csv_reader" where
  "end_record r = r\<lparr>cr_mode := At_start, cr_field := [], cr_row := [], cr_rows := cr_rows r @ [cr_row r @ [cr_field r]]\<rparr>"

definition take_char :: "csv_mode \<Rightarrow> char \<Rightarrow> csv_reader \<Rightarrow> csv_reader" where
  "take_char m c r = r\<lparr>cr_mode := m, cr_field := cr_field r @ [c]\<rparr>"

definition read_char :: "char \<Rightarrow> csv_reader \<Rightarrow> csv_reader" where
  "read_char c r =
     (if cr_mode r = In_quoted then (if c = CHR 34 then r\<lparr>cr_mode := Quote_seen\<rparr> else take_char In_quoted c r)
      else if c = CHR '','' then end_field r
      else if c = CHR 10 then end_record r
      else if c = CHR 34 \<and> cr_mode r = At_start then r\<lparr>cr_mode := In_quoted\<rparr>
      else if c = CHR 34 \<and> cr_mode r = Quote_seen then take_char In_quoted c r
      else take_char In_plain c r)"

definition read_csv :: "string \<Rightarrow> string list list" where
  "read_csv s = cr_rows (fold read_char s \<lparr>cr_mode = At_start, cr_field = [], cr_row = [], cr_rows = []\<rparr>)"

lemma read_doubled:
  "cr_mode r = In_quoted \<Longrightarrow> fold read_char (double_quotes s) r = r\<lparr>cr_field := cr_field r @ s\<rparr>"
proof (induction s arbitrary: r)
  case (Cons c s)
  then show ?case by (cases "c = CHR 34") (simp_all add: read_char_def take_char_def)
qed simp

lemma read_plain:
  "cr_mode r = In_plain \<Longrightarrow> CHR '','' \<notin> set s \<Longrightarrow> CHR 10 \<notin> set s \<Longrightarrow> CHR 34 \<notin> set s \<Longrightarrow>
    fold read_char s r = r\<lparr>cr_field := cr_field r @ s\<rparr>"
proof (induction s arbitrary: r)
  case (Cons c s)
  then have "read_char c r = r\<lparr>cr_field := cr_field r @ [c]\<rparr>" by (cases r) (auto simp: read_char_def take_char_def)
  then show ?case using Cons by simp
qed simp

text \<open>After an escaped field only a comma or a newline may follow.\<close>

definition field_done :: "string \<Rightarrow> csv_reader \<Rightarrow> csv_reader \<Rightarrow> bool" where
  "field_done s r r' = (cr_mode r' \<noteq> In_quoted \<and> cr_field r' = s \<and> cr_row r' = cr_row r \<and> cr_rows r' = cr_rows r)"

lemma read_field:
  assumes "cr_mode r = At_start" "cr_field r = []"
  shows "field_done (value_text v) r (fold read_char (escapeCsv v) r)"
proof (cases "v = C_null")
  case True
  then show ?thesis using assms by (simp add: escapeCsv_def value_text_def field_done_def)
next
  case False
  let ?s = "value_text v"
  show ?thesis
  proof (cases "CHR '','' \<in> set ?s \<or> CHR 34 \<in> set ?s \<or> CHR 10 \<in> set ?s")
    case True
    then have e: "escapeCsv v = CHR 34 # double_quotes ?s @ [CHR 34]" using False by (cases v) (simp_all add: escapeCsv_def Let_def)
    have "read_char (CHR 34) r = r\<lparr>cr_mode := In_quoted\<rparr>" using assms by (simp add: read_char_def)
    then have "fold read_char (escapeCsv v) r = read_char (CHR 34) (r\<lparr>cr_mode := In_quoted, cr_field := ?s\<rparr>)"
      using assms by (simp add: e read_doubled)
    then show ?thesis by (simp add: read_char_def field_done_def)
  next
    case plain: False
    then have e: "escapeCsv v = ?s" using False by (cases v) (simp_all add: escapeCsv_def Let_def)
    show ?thesis
    proof (cases ?s)
      case Nil
      then show ?thesis using assms e by (simp add: field_done_def)
    next
      case (Cons c cs)
      have "read_char c r = r\<lparr>cr_mode := In_plain, cr_field := [c]\<rparr>"
        using assms plain Cons by (auto simp: read_char_def take_char_def)
      then show ?thesis using plain Cons e by (simp add: read_plain field_done_def)
    qed
  qed
qed

lemma read_fields:
  assumes "vs \<noteq> []" "cr_mode r = At_start" "cr_field r = []"
  shows "fold read_char (join_with '','' (map escapeCsv vs) @ [CHR 10]) r
    = r\<lparr>cr_row := [], cr_rows := cr_rows r @ [cr_row r @ map value_text vs]\<rparr>"
  using assms
proof (induction vs arbitrary: r)
  case (Cons v vs)
  let ?r = "fold read_char (escapeCsv v) r"
  have d: "field_done (value_text v) r ?r" by (rule read_field [OF Cons.prems(2,3)])
  show ?case
  proof (cases vs)
    case Nil
    have "read_char (CHR 10) ?r = r\<lparr>cr_row := [], cr_rows := cr_rows r @ [cr_row r @ [value_text v]]\<rparr>"
      using d Cons.prems(2,3) by (cases r) (simp add: read_char_def field_done_def end_record_def)
    then show ?thesis using Nil by simp
  next
    case (Cons w ws)
    have comma: "read_char (CHR '','') ?r = r\<lparr>cr_row := cr_row r @ [value_text v]\<rparr>"
      using d Cons.prems(2,3) by (cases r) (simp add: read_char_def field_done_def end_field_def)
    show ?thesis using Cons.IH [of "r\<lparr>cr_row := cr_row r @ [value_text v]\<rparr>"] Cons Cons.prems comma by simp
  qed
qed simp

text \<open>Reading an exported file gives back the header and the text of every value of every row, whatever
  commas, quotation marks and newlines the values contain.\<close>

theorem export_round_trip:
  assumes "headers \<noteq> []" "\<forall>h \<in> set headers. CHR '','' \<notin> set h \<and> CHR 34 \<notin> set h \<and> CHR 10 \<notin> set h"
  shows "read_csv (file_text headers rows) = headers # map (\<lambda>r. map (\<lambda>h. value_text (column r h)) headers) rows"
proof -
  have start: "fold read_char (concat (map (\<lambda>r. rowToCsv headers r @ [CHR 10]) rows))
      \<lparr>cr_mode = At_start, cr_field = [], cr_row = [], cr_rows = R\<rparr>
    = \<lparr>cr_mode = At_start, cr_field = [], cr_row = [], cr_rows = R @ map (\<lambda>r. map (\<lambda>h. value_text (column r h)) headers) rows\<rparr>" for R
  proof (induction rows arbitrary: R)
    case (Cons x xs)
    have "fold read_char (rowToCsv headers x @ [CHR 10]) \<lparr>cr_mode = At_start, cr_field = [], cr_row = [], cr_rows = R\<rparr>
      = \<lparr>cr_mode = At_start, cr_field = [], cr_row = [], cr_rows = R @ [map (\<lambda>h. value_text (column x h)) headers]\<rparr>"
      using read_fields [of "map (column x) headers"] assms(1) by (simp add: rowToCsv_def comp_def)
    then show ?case using Cons by simp
  qed simp
  have "map escapeCsv (map C_text headers) = headers"
    using assms(2) by (induction headers) (simp_all add: escapeCsv_def value_text_def Let_def)
  then have head: "fold read_char (join_with '','' headers @ [CHR 10]) \<lparr>cr_mode = At_start, cr_field = [], cr_row = [], cr_rows = []\<rparr>
    = \<lparr>cr_mode = At_start, cr_field = [], cr_row = [], cr_rows = [headers]\<rparr>"
    using read_fields [of "map C_text headers"] assms(1) by (simp add: value_text_def comp_def)
  show ?thesis using start [of "[headers]"] head by (simp add: read_csv_def file_text_def)
qed

lemma export_round_trip_witness:
  "read_csv (file_text [''a'', ''b''] [\<lparr>er_id = [], er_ledger = 0, er_cols = [(''a'', C_text [CHR 34, CHR '','']), (''b'', C_null)]\<rparr>])
    = [[''a'', ''b''], [[CHR 34, CHR '',''], []]]"
  by (subst export_round_trip) (simp_all add: column_def value_text_def)

text \<open>A carriage return alone is not quoted, so a reader that ends records there splits the field. A date is an object, whose
  JSON text has quotation marks of its own: they end up in the field. A missing value and an empty text look the same.\<close>

lemma carriage_return_not_quoted: "escapeCsv (C_text [CHR ''a'', CHR 13, CHR ''b'']) = [CHR ''a'', CHR 13, CHR ''b'']"
  by (simp add: escapeCsv_def value_text_def)

lemma date_keeps_quotes: "escapeCsv (C_json (CHR 34 # d @ [CHR 34])) = CHR 34 # CHR 34 # CHR 34 # double_quotes d @ [CHR 34, CHR 34, CHR 34]"
proof -
  have "double_quotes (x @ y) = double_quotes x @ double_quotes y" for x y by (induction x) auto
  then show ?thesis by (simp add: escapeCsv_def value_text_def Let_def)
qed

lemma missing_looks_empty: "escapeCsv C_null = escapeCsv (C_text [])"
  by (simp add: escapeCsv_def value_text_def)

section \<open>Pages\<close>

lemma dropWhile_cursor:
  "distinct (map er_id (pre @ r # post)) \<Longrightarrow> dropWhile (\<lambda>x. er_id x \<noteq> er_id r) (pre @ r # post) = r # post"
  by (induction pre) auto

lemma page_after:
  assumes "distinct (map er_id (pre @ rest))" "pre \<noteq> []"
  shows "page (pre @ rest) (Some (er_id (last pre))) = take BATCH_SIZE rest"
proof -
  have "pre @ rest = butlast pre @ last pre # rest" using assms(2) by simp
  then have "dropWhile (\<lambda>x. er_id x \<noteq> er_id (last pre)) (pre @ rest) = last pre # rest"
    using dropWhile_cursor [of "butlast pre" "last pre" rest] assms(1) by metis
  then show ?thesis by (simp add: page_def)
qed

definition cursor_of :: "export_row list \<Rightarrow> string option" where
  "cursor_of pre = (if pre = [] then None else Some (er_id (last pre)))"

lemma stream_from:
  "distinct (map er_id (pre @ rest)) \<Longrightarrow> stream_loop (page (pre @ rest)) (cursor_of pre) pre = Some (pre @ rest)"
proof (induction "length rest" arbitrary: pre rest rule: less_induct)
  case less
  have fetch: "page (pre @ rest) (cursor_of pre) = take BATCH_SIZE rest"
    using page_after [OF less.prems] by (cases "pre = []") (simp_all add: cursor_of_def page_def)
  let ?p = "take BATCH_SIZE rest" and ?q = "drop BATCH_SIZE rest"
  show ?case
  proof (cases "length ?p < BATCH_SIZE")
    case True
    then have "?p = rest" by simp
    then show ?thesis using True by (subst stream_loop.simps) (auto simp: fetch)
  next
    case False
    then have ne: "?p \<noteq> []" "length ?q < length rest" by (auto simp: BATCH_SIZE_def)
    have IH: "stream_loop (page ((pre @ ?p) @ ?q)) (cursor_of (pre @ ?p)) (pre @ ?p) = Some ((pre @ ?p) @ ?q)"
      by (rule less.hyps [OF ne(2)]) (use less.prems in simp)
    have "cursor_of (pre @ ?p) = Some (er_id (last ?p))" using ne(1) by (simp add: cursor_of_def)
    then show ?thesis using IH False ne(1) by (subst stream_loop.simps) (simp add: fetch Let_def)
  qed
qed

text \<open>The exports of transactions and events read every row of their query exactly once, in its order, however many
  pages it takes, and end.\<close>

theorem pages_cover_table:
  assumes "distinct (map er_id table)"
  shows "streamTransactions f table = Some (file_text TX_HEADERS (filter (buildTxWhere f) table), length (filter (buildTxWhere f) table))
    \<and> streamEvents f table = Some (file_text EVENT_HEADERS (filter (buildEventWhere f) table), length (filter (buildEventWhere f) table))"
proof -
  have "stream_loop (page (filter P table)) None [] = Some (filter P table)" for P
    using stream_from [of "[]" "filter P table"] assms by (simp add: cursor_of_def distinct_map_filter)
  then show ?thesis by (simp add: streamTransactions_def streamEvents_def streamed_def)
qed

definition numbered_row :: "nat \<Rightarrow> export_row" where
  "numbered_row n = \<lparr>er_id = dec_nat n, er_ledger = int n, er_cols = []\<rparr>"

lemma numbered_distinct: "distinct (map er_id (map numbered_row [0..<n]))"
  by (simp add: numbered_row_def comp_def distinct_map inj_on_def dec_nat_inj)

definition no_filters :: export_filters where
  "no_filters = \<lparr>ef_contract = None, ef_account = None, ef_status = None, ef_eventType = None, ef_min = None, ef_max = None\<rparr>"

lemma pages_cover_table_witness:
  "map_option snd (streamEvents no_filters (map numbered_row [0..<1200])) = Some 1200"
proof -
  have "filter (buildEventWhere no_filters) xs = xs" for xs
    by (simp add: buildEventWhere_def no_filters_def column_is_def ledger_in_def)
  then show ?thesis using pages_cover_table [OF numbered_distinct, of no_filters 1200] by simp
qed

section \<open>The wallet history\<close>

lemma same_page_for_ever:
  assumes "BATCH_SIZE \<le> length rows"
  shows "stream_loop (\<lambda>c. take BATCH_SIZE rows) cursor written = None"
proof (rule ccontr)
  assume "stream_loop (\<lambda>c. take BATCH_SIZE rows) cursor written \<noteq> None"
  then obtain y where y: "stream_loop (\<lambda>c. take BATCH_SIZE rows) cursor written = Some y" by auto
  have "(\<lambda>c. take BATCH_SIZE rows) = (\<lambda>c :: string option. take BATCH_SIZE rows) \<longrightarrow> False"
    by (rule stream_loop.raw_induct [where P = "\<lambda>fetch c w y. fetch = (\<lambda>c. take BATCH_SIZE rows) \<longrightarrow> False", OF _ y])
      (use assms in \<open>auto simp: BATCH_SIZE_def Let_def split: if_splits\<close>)
  then show False by simp
qed

text \<open>C27: The wallet history never moves its query on: with fewer than 500 rows it is complete, from 500 rows on
  the loop writes the same rows for ever and the export does not return.\<close>

theorem wallet_history_exact:
  "streamWalletHistory f table =
     (let address = (case ef_account f of None \<Rightarrow> [] | Some a \<Rightarrow> a); rows = wallet_rows address f table in
      if address = [] then Inl ''account filter is required for wallet history export''
      else Inr (if length rows < BATCH_SIZE then Some (file_text WALLET_HISTORY_HEADERS rows, length rows) else None))"
proof -
  let ?a = "case ef_account f of None \<Rightarrow> [] | Some a \<Rightarrow> a"
  let ?rows = "wallet_rows ?a f table"
  have "stream_loop (\<lambda>c. take BATCH_SIZE ?rows) None [] = (if length ?rows < BATCH_SIZE then Some ?rows else None)"
  proof (cases "length ?rows < BATCH_SIZE")
    case True
    then show ?thesis by (subst stream_loop.simps) (simp add: Let_def)
  next
    case False
    then show ?thesis using same_page_for_ever [of ?rows None "[]"] by simp
  qed
  then show ?thesis by (simp add: streamWalletHistory_def streamed_def Let_def)
qed

section \<open>A job from the request to the download\<close>

lemma set_job_find:
  "tbl_find ej_id i (ex_jobs s) = Some j \<Longrightarrow> (\<And>x. ej_id (f x) = ej_id x) \<Longrightarrow> tbl_find ej_id i (ex_jobs (set_job i f s)) = Some (f j)"
proof -
  assume a: "tbl_find ej_id i (ex_jobs s) = Some j" and f: "\<And>x. ej_id (f x) = ej_id x"
  have "List.find (\<lambda>r. ej_id r = i) (map (\<lambda>r. if ej_id r = i then f r else r) L) = map_option f (List.find (\<lambda>r. ej_id r = i) L)" for L
    using f by (induction L) auto
  then show ?thesis using a by (simp add: set_job_def tbl_update_def tbl_find_def)
qed

text \<open>C16: A pending export of transactions, run with a disk that works, ends as done with the number of the rows
  that match its filters; its file holds their texts.\<close>

theorem transaction_export_complete:
  assumes j: "tbl_find ej_id i (ex_jobs s) = Some j" "ej_status j = Job_pending" "ej_type j = Export_transactions"
    and d: "distinct (map er_id (ex_transactions s))"
  defines "rows \<equiv> filter (buildTxWhere (ej_filters j)) (ex_transactions s)"
  shows "\<exists>t j'. runExportJob None i s = Some t \<and> tbl_find ej_id i (ex_jobs t) = Some j' \<and> ej_status j' = Job_done
    \<and> ej_count j' = Some (length rows) \<and> ej_file j' = Some (file_name j)
    \<and> (\<exists>txt. jm_get (ex_files t) (file_name j) = Some txt
         \<and> read_csv txt = TX_HEADERS # map (\<lambda>r. map (\<lambda>h. value_text (column r h)) TX_HEADERS) rows)"
proof -
  let ?run = "\<lambda>j :: export_job. j\<lparr>ej_status := Job_running\<rparr>"
  let ?done = "\<lambda>j. j\<lparr>ej_status := Job_done, ej_file := Some (file_name j), ej_count := Some (length rows)\<rparr>"
  let ?s1 = "set_job i ?run s"
  let ?s2 = "?s1\<lparr>ex_files := jm_set (file_name j) (file_text TX_HEADERS rows) (ex_files ?s1)\<rparr>"
  have str: "run_stream j s = Inr (Some (file_text TX_HEADERS rows, length rows))"
    using pages_cover_table [OF d, of "ej_filters j"] j(3) by (simp add: run_stream_def rows_def)
  have fn: "file_name (?run j) = file_name j" by (simp add: file_name_def)
  have "runExportJob None i s = Some (set_job i (\<lambda>x. x\<lparr>ej_status := Job_done, ej_file := Some (file_name j), ej_count := Some (length rows)\<rparr>) ?s2)"
    using j str by (simp add: runExportJob_def Let_def)
  moreover have "tbl_find ej_id i (ex_jobs ?s2) = Some (?run j)" using set_job_find [OF j(1), of ?run] by simp
  then have "tbl_find ej_id i (ex_jobs (set_job i (\<lambda>x. x\<lparr>ej_status := Job_done, ej_file := Some (file_name j), ej_count := Some (length rows)\<rparr>) ?s2))
      = Some ((?run j)\<lparr>ej_status := Job_done, ej_file := Some (file_name j), ej_count := Some (length rows)\<rparr>)"
    by (rule set_job_find) simp
  moreover have "read_csv (file_text TX_HEADERS rows) = TX_HEADERS # map (\<lambda>r. map (\<lambda>h. value_text (column r h)) TX_HEADERS) rows"
    by (rule export_round_trip) (simp_all add: TX_HEADERS_def)
  ultimately show ?thesis by (simp add: set_job_def)
qed

definition demo_exports :: export_state where
  "demo_exports = enqueueExport ''j'' Export_transactions no_filters ''dev''
     \<lparr>ex_jobs = [], ex_files = [], ex_transactions = map numbered_row [0..<3], ex_events = []\<rparr>"

lemma transaction_export_complete_witness:
  "\<exists>t j'. runExportJob None ''j'' demo_exports = Some t \<and> tbl_find ej_id ''j'' (ex_jobs t) = Some j' \<and> ej_status j' = Job_done"
proof -
  have "distinct (map er_id (ex_transactions demo_exports))" using numbered_distinct [of 3] by (simp add: demo_exports_def enqueueExport_def)
  moreover obtain j where "tbl_find ej_id ''j'' (ex_jobs demo_exports) = Some j" "ej_status j = Job_pending" "ej_type j = Export_transactions"
    by (simp add: demo_exports_def enqueueExport_def tbl_find_def)
  ultimately show ?thesis using transaction_export_complete [of "''j''" demo_exports] by blast
qed

section \<open>Paths below the directory\<close>

definition clean :: "string list \<Rightarrow> bool" where
  "clean segs = (\<forall>s \<in> set segs. s \<noteq> [] \<and> s \<noteq> ''.'' \<and> s \<noteq> ''..'' \<and> CHR ''/'' \<notin> set s)"

lemma resolve_no_dots:
  "''..'' \<notin> set segs \<Longrightarrow> resolve_segments base segs = base @ filter (\<lambda>s. s \<noteq> [] \<and> s \<noteq> ''.'') segs"
  by (induction base segs rule: resolve_segments.induct) auto

lemma split_slash_segments: "p \<in> set (split_on (CHR ''/'') s) \<Longrightarrow> CHR ''/'' \<notin> set p"
proof (induction s arbitrary: p)
  case (Cons c s)
  then show ?case by (cases "split_on (CHR ''/'') s") (auto split: if_splits)
qed simp

lemma split_both:
  "(CHR 92 \<notin> set (hd (split_on (CHR ''/'') s)) \<longrightarrow> hd (split_slashes s) = hd (split_on (CHR ''/'') s))
    \<and> (\<forall>p \<in> set (tl (split_on (CHR ''/'') s)). CHR 92 \<notin> set p \<longrightarrow> p \<in> set (tl (split_slashes s))) \<and> split_slashes s \<noteq> []"
proof (induction s)
  case (Cons c s)
  obtain h t where a: "split_on (CHR ''/'') s = h # t" by (cases "split_on (CHR ''/'') s") auto
  obtain h' t' where b: "split_slashes s = h' # t'" using Cons by (cases "split_slashes s") auto
  show ?case using Cons a b by auto
qed simp

lemma dots_seen:
  assumes "''..'' \<notin> set (split_slashes s)" shows "''..'' \<notin> set (split_on (CHR ''/'') s)"
proof
  assume d: "''..'' \<in> set (split_on (CHR ''/'') s)"
  obtain h t where a: "split_on (CHR ''/'') s = h # t" by (cases "split_on (CHR ''/'') s") auto
  have "''..'' \<in> set (split_slashes s)"
    using split_both [of s] a d by (cases "split_slashes s") auto
  then show False using assms by simp
qed

lemma join_append: "xs \<noteq> [] \<Longrightarrow> ys \<noteq> [] \<Longrightarrow> join_with sep (xs @ ys) = join_with sep xs @ sep @ join_with sep ys"
proof (induction sep xs rule: join_with.induct)
  case (2 sep x)
  then show ?case by (cases ys) simp_all
qed simp_all

text \<open>A path that is accepted lies below the export directory: it is the directory followed by names, none of them
  empty, a dot, two dots, or with a slash; and a relative path without NUL and without two dots as a name is always
  accepted.\<close>

theorem export_path_inside:
  assumes "base \<noteq> []"
  shows "resolveExportFilePath base rel =
    (if rel = [] \<or> starts_with ''/'' rel \<or> CHR 0x00 \<in> set rel then Inl Invalid_path
     else if ''..'' \<in> set (split_slashes rel) then Inl Escapes_directory
     else Inr (base @ filter (\<lambda>s. s \<noteq> [] \<and> s \<noteq> ''.'') (split_on (CHR ''/'') rel)))
   \<and> (\<forall>p. resolveExportFilePath base rel = Inr p \<longrightarrow> (\<exists>rest. p = base @ rest \<and> clean rest))"
proof -
  let ?rest = "filter (\<lambda>s. s \<noteq> [] \<and> s \<noteq> ''.'') (split_on (CHR ''/'') rel)"
  have r: "resolve_segments base (split_on (CHR ''/'') rel) = base @ ?rest" "clean ?rest" if "''..'' \<notin> set (split_slashes rel)"
  proof -
    show "resolve_segments base (split_on (CHR ''/'') rel) = base @ ?rest" by (rule resolve_no_dots [OF dots_seen [OF that]])
    show "clean ?rest" using dots_seen [OF that] split_slash_segments by (auto simp: clean_def)
  qed
  have inside: "path_text (base @ R) = path_text base \<or> starts_with (path_text base @ ''/'') (path_text (base @ R))" for R
    using join_append [OF assms, of R "''/''"] by (cases "R = []") (auto simp: path_text_def starts_with_def)
  have main: "resolveExportFilePath base rel =
    (if rel = [] \<or> starts_with ''/'' rel \<or> CHR 0x00 \<in> set rel then Inl Invalid_path
     else if ''..'' \<in> set (split_slashes rel) then Inl Escapes_directory else Inr (base @ ?rest))"
    using r inside [of ?rest] by (auto simp: resolveExportFilePath_def Let_def)
  then show ?thesis using r(2) by (auto split: if_splits)
qed

lemma export_path_inside_witness:
  "resolveExportFilePath [''exports''] ''a/./b.csv'' = Inr [''exports'', ''a'', ''b.csv'']"
  by (subst export_path_inside [THEN conjunct1]) (simp_all add: starts_with_def)

end
