(* ===== verification/Reputation_Graph.thy ===== *)
theory Reputation_Graph
  imports Pool_Math "HOL-Library.List_Lexorder" "HOL-Library.Char_ord" "HOL-Library.Product_Lexorder"
begin

text \<open>
  \<open>src/reputation/trustGraph.ts\<close>, \<open>governance.ts\<close>, \<open>arbitration.ts\<close> and the small functions of
  \<open>score.ts\<close> they use: the graph of trust edges and the search of a path in it, weights of endorsements,
  voting power, and the result of a vote. Numbers are doubles that stay finite; names of chains and
  accounts are compared by their characters; the hash is a parameter.
\<close>

section \<open>Numbers and addresses\<close>

text \<open>A value that the code expects to be a number: a finite number, a \<open>BigInt\<close>, a text, or something else.\<close>

datatype js_value = V_number rat | V_big int | V_text string | V_other

text \<open>\<open>Number(text)\<close> with a sign.\<close>

definition signed_number :: "string \<Rightarrow> rat option" where
  "signed_number s =
     (let t = js_trim s in
      case (if take 1 t = ''-'' then decimal_number (drop 1 t) else js_number t) of
        Fin q \<Rightarrow> Some (fl_round (if take 1 t = ''-'' then - q else q))
      | _ \<Rightarrow> None)"

definition toNumber :: "js_value \<Rightarrow> rat \<Rightarrow> rat" where
  "toNumber v fallback =
     (case v of
        V_number q \<Rightarrow> q
      | V_big n \<Rightarrow> fl_round (of_int n)
      | V_text s \<Rightarrow> if js_trim s = [] then fallback else (case signed_number s of None \<Rightarrow> fallback | Some q \<Rightarrow> q)
      | V_other \<Rightarrow> fallback)"

definition clamp :: "rat \<Rightarrow> rat \<Rightarrow> rat \<Rightarrow> rat" where
  "clamp v lo hi = min hi (max lo v)"

text \<open>\<open>Math.round(value * 100) / 100\<close>\<close>

definition round2 :: "rat \<Rightarrow> rat" where
  "round2 v = fl_div (of_int (js_round (fl_mul v 100))) 100"

definition canonicalAddress :: "string \<Rightarrow> string" where
  "canonicalAddress address =
     (let trimmed = js_trim address in
      if length trimmed = 42 \<and> starts_with ''0x'' trimmed \<and> list_all is_hex_char (drop 2 trimmed) then to_lower trimmed else trimmed)"

section \<open>The trust graph\<close>

record trust_edge_input =
  ti_from :: string
  ti_to :: string
  ti_weight :: js_value

record chain_edges =
  ce_chain :: string
  ce_edges :: "trust_edge_input list"

record trust_edge =
  te_from :: string
  te_to :: string
  te_chain :: string
  te_weight :: rat

record trust_graph =
  tg_nodes :: "string list"
  tg_edges :: "trust_edge list"

definition normalizeEdgeWeight :: "js_value \<Rightarrow> rat" where
  "normalizeEdgeWeight v = max (round_pos (1 / 10000)) (toNumber v 1)"

definition edge_of :: "string \<Rightarrow> trust_edge_input \<Rightarrow> trust_edge" where
  "edge_of chain e = \<lparr>te_from = canonicalAddress (ti_from e), te_to = canonicalAddress (ti_to e), te_chain = chain,
     te_weight = normalizeEdgeWeight (ti_weight e)\<rparr>"

definition buildTrustGraph :: "chain_edges list \<Rightarrow> trust_graph" where
  "buildTrustGraph chainData =
     (let edges = concat (map (\<lambda>item. map (edge_of (ce_chain item)) (ce_edges item)) (sort_key ce_chain chainData))
      in \<lparr>tg_nodes = sort (js_set_of (concat (map (\<lambda>e. [te_from e, te_to e]) edges))), tg_edges = edges\<rparr>)"

record queue_item =
  qi_address :: string
  qi_path :: "string list"
  qi_distance :: rat
  qi_chains :: "string list"

record trust_path =
  tp_from :: string
  tp_to :: string
  tp_path :: "string list"
  tp_distance :: rat
  tp_chains :: "string list"

definition out_edges :: "trust_edge list \<Rightarrow> string \<Rightarrow> trust_edge list" where
  "out_edges es a = filter (\<lambda>e. te_from e = a) es"

definition extend_item :: "queue_item \<Rightarrow> trust_edge \<Rightarrow> queue_item" where
  "extend_item cur e =
     \<lparr>qi_address = te_to e, qi_path = qi_path cur @ [te_to e],
      qi_distance = fl_add (qi_distance cur) (fl_div 1 (max (te_weight e) (round_pos (1 / 10000)))),
      qi_chains = sort (js_set_of (qi_chains cur @ [te_chain e]))\<rparr>"

text \<open>The keys that a search can visit.\<close>

definition search_keys :: "trust_edge list \<Rightarrow> nat \<Rightarrow> (string \<times> nat) set" where
  "search_keys es maxDepth = te_from ` set es \<times> {0..maxDepth}"

lemma finite_keys [simp]: "finite (search_keys es maxDepth)"
  by (simp add: search_keys_def)

text \<open>The loop over the queue; \<open>visited\<close> holds the address and the length of the path of every expanded item.\<close>

function search_loop ::
  "trust_edge list \<Rightarrow> nat \<Rightarrow> string \<Rightarrow> queue_item list \<Rightarrow> (string \<times> nat) list \<Rightarrow> queue_item option" where
  "search_loop es maxDepth end [] visited = None"
| "search_loop es maxDepth end (cur # queue) visited =
     (if (qi_address cur, length (qi_path cur)) \<in> set visited \<or> maxDepth < length (qi_path cur)
      then search_loop es maxDepth end queue visited
      else
        (let next_edges = out_edges es (qi_address cur) in
         case List.find (\<lambda>e. te_to e = end) next_edges of
           Some e \<Rightarrow> Some (extend_item cur e)
         | None \<Rightarrow> search_loop es maxDepth end (queue @ map (extend_item cur) next_edges)
             ((qi_address cur, length (qi_path cur)) # visited)))"
  by pat_completeness auto

definition keys_left :: "trust_edge list \<Rightarrow> nat \<Rightarrow> (string \<times> nat) list \<Rightarrow> nat" where
  "keys_left es maxDepth visited = card (search_keys es maxDepth - set visited)"

lemma keys_left_visit:
  assumes "k \<in> search_keys es d" "k \<notin> set visited" shows "keys_left es d (k # visited) < keys_left es d visited"
proof -
  have "search_keys es d - set (k # visited) = (search_keys es d - set visited) - {k}" by auto
  then show ?thesis using assms unfolding keys_left_def by (metis DiffI card_Diff1_less finite_Diff finite_keys)
qed

lemma keys_left_other: "k \<notin> search_keys es d \<Longrightarrow> keys_left es d (k # visited) = keys_left es d visited"
proof -
  assume "k \<notin> search_keys es d"
  then have "search_keys es d - set (k # visited) = search_keys es d - set visited" by auto
  then show ?thesis by (simp add: keys_left_def)
qed

termination search_loop
proof (relation "measures [\<lambda>(es, d, en, q, v). keys_left es d v, \<lambda>(es, d, en, q, v). length q]", goal_cases)
  case 1
  then show ?case by simp
next
  case (2 es d en cur queue visited)
  then show ?case by simp
next
  case (3 es d en cur queue visited nexts)
  let ?k = "(qi_address cur, length (qi_path cur))"
  show ?case
  proof (cases "?k \<in> search_keys es d")
    case True
    then show ?thesis using 3 keys_left_visit [of ?k es d visited] by simp
  next
    case False
    then have "out_edges es (qi_address cur) = []" using 3 by (auto simp: search_keys_def out_edges_def filter_empty_conv image_iff)
    then show ?thesis using False 3 by (simp add: keys_left_other)
  qed
qed

definition findTrustPath :: "trust_graph \<Rightarrow> string \<Rightarrow> string \<Rightarrow> nat \<Rightarrow> trust_path option" where
  "findTrustPath graph from to maxDepth =
     (let start = canonicalAddress from; end = canonicalAddress to in
      if start = end then Some \<lparr>tp_from = start, tp_to = end, tp_path = [start], tp_distance = 0, tp_chains = []\<rparr>
      else map_option (\<lambda>q. \<lparr>tp_from = start, tp_to = end, tp_path = qi_path q, tp_distance = round2 (qi_distance q), tp_chains = qi_chains q\<rparr>)
        (search_loop (tg_edges graph) maxDepth end
          [\<lparr>qi_address = start, qi_path = [start], qi_distance = 0, qi_chains = []\<rparr>] []))"

section \<open>Endorsements\<close>

record endorsement =
  en_endorser :: string
  en_subject :: string
  en_weight :: js_value

definition weightEndorsement :: "endorsement \<Rightarrow> rat \<Rightarrow> rat" where
  "weightEndorsement e endorserScore =
     (let base = normalizeEdgeWeight (en_weight e);
          reputationFactor = fl_add (round_pos (35 / 100)) (fl_div (fl_mul (round_pos (65 / 100)) (max 0 (min endorserScore 100))) 100)
      in round2 (fl_mul base reputationFactor))"

definition weightedEndorsements :: "endorsement list \<Rightarrow> (string \<Rightarrow> rat option) \<Rightarrow> (string \<times> string \<times> rat) list" where
  "weightedEndorsements es scores =
     sort_key (\<lambda>(a, subject, w). (- w, subject))
       (map (\<lambda>e. (en_endorser e, en_subject e, weightEndorsement e
          (case scores (canonicalAddress (en_endorser e)) of None \<Rightarrow> 0 | Some x \<Rightarrow> x))) es)"

section \<open>The search finds a shortest path\<close>

definition edge :: "trust_edge list \<Rightarrow> string \<Rightarrow> string \<Rightarrow> bool" where
  "edge es a b = (\<exists>e \<in> set es. te_from e = a \<and> te_to e = b)"

definition walk :: "trust_edge list \<Rightarrow> string \<Rightarrow> string \<Rightarrow> string list \<Rightarrow> bool" where
  "walk es a b p = (p \<noteq> [] \<and> hd p = a \<and> last p = b \<and> (\<forall>i. Suc i < length p \<longrightarrow> edge es (p ! i) (p ! Suc i)))"

lemma walk_extend: "walk es a b p \<Longrightarrow> edge es b c \<Longrightarrow> walk es a c (p @ [c])"
  by (auto simp: walk_def nth_append last_conv_nth less_Suc_eq) (metis One_nat_def Suc_pred length_greater_0_conv nat.inject)

definition key_of :: "queue_item \<Rightarrow> string \<times> nat" where
  "key_of q = (qi_address q, length (qi_path q))"

definition covered :: "nat \<Rightarrow> queue_item list \<Rightarrow> (string \<times> nat) list \<Rightarrow> string \<times> nat \<Rightarrow> bool" where
  "covered d queue visited k = (k \<in> set visited \<or> k \<in> key_of ` set queue \<or> d < snd k)"

definition search_ok :: "trust_edge list \<Rightarrow> nat \<Rightarrow> string \<Rightarrow> string \<Rightarrow> queue_item list \<Rightarrow> (string \<times> nat) list \<Rightarrow> bool" where
  "search_ok es d start en queue visited =
     ((\<forall>q \<in> set queue. walk es start (qi_address q) (qi_path q))
      \<and> (\<forall>(a, l) \<in> set visited. \<forall>e \<in> set (out_edges es a). te_to e \<noteq> en \<and> covered d queue visited (te_to e, Suc l))
      \<and> covered d queue visited (start, 1)
      \<and> sorted (map (\<lambda>q. length (qi_path q)) queue)
      \<and> (\<forall>q \<in> set queue. length (qi_path q) \<le> Suc (length (qi_path (hd queue)))))"

lemma prefix_visited:
  assumes ok: "search_ok es d start en queue visited" and long: "\<forall>q \<in> set queue. L \<le> length (qi_path q)"
    and w: "walk es start b p" and i: "i < length p" "Suc i < L" "Suc i \<le> d"
  shows "(p ! i, Suc i) \<in> set visited"
  using i
proof (induction i)
  case 0
  have "p ! 0 = start" using w hd_conv_nth [of p] by (auto simp: walk_def)
  then show ?case using ok long 0 by (fastforce simp: search_ok_def covered_def key_of_def)
next
  case (Suc i)
  then have v: "(p ! i, Suc i) \<in> set visited" by simp
  have "edge es (p ! i) (p ! Suc i)" using w Suc by (simp add: walk_def)
  then obtain e where e: "e \<in> set (out_edges es (p ! i))" "te_to e = p ! Suc i" by (auto simp: edge_def out_edges_def)
  have "covered d queue visited (p ! Suc i, Suc (Suc i))" using ok v e by (fastforce simp: search_ok_def)
  then show ?case using long Suc by (fastforce simp: covered_def key_of_def)
qed

lemma walk_bound:
  assumes ok: "search_ok es d start en queue visited" and long: "\<forall>q \<in> set queue. L \<le> length (qi_path q)"
    and w: "walk es start en p" "2 \<le> length p"
  shows "L < length p \<or> Suc d < length p"
proof (rule ccontr)
  assume a: "\<not> (L < length p \<or> Suc d < length p)"
  let ?i = "length p - 2"
  have i: "Suc (Suc ?i) = length p" using w(2) by simp
  have v: "(p ! ?i, Suc ?i) \<in> set visited" by (rule prefix_visited [OF ok long w(1)]) (use a w(2) in auto)
  have "edge es (p ! ?i) (p ! Suc ?i)" using w i by (simp add: walk_def)
  moreover have "Suc ?i = length p - 1" using i by simp
  then have "p ! Suc ?i = en" using w last_conv_nth [of p] by (simp add: walk_def)
  ultimately obtain e where "e \<in> set (out_edges es (p ! ?i))" "te_to e = en" by (auto simp: edge_def out_edges_def)
  then show False using ok v by (fastforce simp: search_ok_def)
qed

lemma skip_ok:
  assumes "search_ok es d start en (cur # queue) visited" "key_of cur \<in> set visited \<or> d < length (qi_path cur)"
  shows "search_ok es d start en queue visited"
proof -
  have c: "covered d queue visited k" if "covered d (cur # queue) visited k" for k
    using that assms(2) by (auto simp: covered_def key_of_def)
  show ?thesis unfolding search_ok_def
  proof (intro conjI)
    show "\<forall>q \<in> set queue. length (qi_path q) \<le> Suc (length (qi_path (hd queue)))"
      using assms(1) by (cases queue) (auto simp: search_ok_def)
  qed (use assms(1) c in \<open>auto simp: search_ok_def\<close>)
qed

lemma expand_ok:
  assumes ok: "search_ok es d start en (cur # queue) visited" and none: "\<forall>e \<in> set (out_edges es (qi_address cur)). te_to e \<noteq> en"
  shows "search_ok es d start en (queue @ map (extend_item cur) (out_edges es (qi_address cur))) (key_of cur # visited)"
proof -
  let ?new = "map (extend_item cur) (out_edges es (qi_address cur))"
  have c: "covered d (queue @ ?new) (key_of cur # visited) k" if "covered d (cur # queue) visited k" for k
    using that by (auto simp: covered_def)
  have w: "walk es start (qi_address cur) (qi_path cur)" using ok by (simp add: search_ok_def)
  have lens: "\<forall>q \<in> set queue. length (qi_path cur) \<le> length (qi_path q) \<and> length (qi_path q) \<le> Suc (length (qi_path cur))"
    using ok by (auto simp: search_ok_def)
  have new_len: "\<forall>q \<in> set ?new. length (qi_path q) = Suc (length (qi_path cur))" by (simp add: extend_item_def)
  show ?thesis unfolding search_ok_def
  proof (intro conjI)
    show "\<forall>q \<in> set (queue @ ?new). walk es start (qi_address q) (qi_path q)"
      using ok w by (auto simp: search_ok_def extend_item_def out_edges_def intro!: walk_extend) (auto simp: edge_def)
    show "\<forall>(a, l) \<in> set (key_of cur # visited). \<forall>e \<in> set (out_edges es a). te_to e \<noteq> en
        \<and> covered d (queue @ ?new) (key_of cur # visited) (te_to e, Suc l)"
    proof -
      have "covered d (queue @ ?new) (key_of cur # visited) (te_to e, Suc (length (qi_path cur)))"
        if "e \<in> set (out_edges es (qi_address cur))" for e
      proof -
        have "key_of (extend_item cur e) \<in> key_of ` set (queue @ ?new)" using that by auto
        moreover have "key_of (extend_item cur e) = (te_to e, Suc (length (qi_path cur)))" by (simp add: key_of_def extend_item_def)
        ultimately show ?thesis by (simp add: covered_def)
      qed
      moreover have "te_to e \<noteq> en \<and> covered d (queue @ ?new) (key_of cur # visited) (te_to e, Suc l)"
        if "(a, l) \<in> set visited" "e \<in> set (out_edges es a)" for a l e
        using ok c that by (fastforce simp: search_ok_def)
      ultimately show ?thesis using none by (auto simp: key_of_def)
    qed
    show "covered d (queue @ ?new) (key_of cur # visited) (start, 1)" using ok c by (simp add: search_ok_def)
    show "sorted (map (\<lambda>q. length (qi_path q)) (queue @ ?new))"
    proof -
      have "sorted (map (\<lambda>q. length (qi_path q)) ?new)" by (simp add: extend_item_def comp_def sorted_iff_nth_mono)
      moreover have "sorted (map (\<lambda>q. length (qi_path q)) queue)" using ok by (simp add: search_ok_def)
      moreover have "\<forall>x \<in> set queue. \<forall>y \<in> set ?new. length (qi_path x) \<le> length (qi_path y)" using lens new_len by simp
      ultimately show ?thesis by (simp add: sorted_append)
    qed
    show "\<forall>q \<in> set (queue @ ?new). length (qi_path q) \<le> Suc (length (qi_path (hd (queue @ ?new))))"
    proof (cases queue)
      case Nil
      then show ?thesis by (cases "out_edges es (qi_address cur)") (auto simp: extend_item_def)
    next
      case (Cons q qs)
      have "length (qi_path cur) \<le> length (qi_path q)" using lens Cons by simp
      then show ?thesis using lens new_len Cons by fastforce
    qed
  qed
qed

lemma search_loop_shortest:
  "search_ok es d start en queue visited \<Longrightarrow>
    (case search_loop es d en queue visited of
       None \<Rightarrow> \<forall>p. walk es start en p \<and> 2 \<le> length p \<longrightarrow> Suc d < length p
     | Some q \<Rightarrow> walk es start en (qi_path q) \<and> length (qi_path q) \<le> Suc d
         \<and> (\<forall>p. walk es start en p \<and> 2 \<le> length p \<longrightarrow> length (qi_path q) \<le> length p))"
proof (induction es d en queue visited rule: search_loop.induct)
  case (1 es d en visited)
  show ?case using walk_bound [OF 1, of "Suc d"] by auto
next
  case (2 es d en cur queue visited)
  let ?k = "(qi_address cur, length (qi_path cur))"
  show ?case
  proof (cases "?k \<in> set visited \<or> d < length (qi_path cur)")
    case True
    then have "search_ok es d start en queue visited" using skip_ok 2(3) by (auto simp: key_of_def)
    then show ?thesis using 2(1) [OF True] True by simp
  next
    case False
    show ?thesis
    proof (cases "List.find (\<lambda>e. te_to e = en) (out_edges es (qi_address cur))")
      case None
      then have "search_ok es d start en (queue @ map (extend_item cur) (out_edges es (qi_address cur))) (key_of cur # visited)"
        by (intro expand_ok [OF 2(3)]) (auto simp: find_None_iff)
      then show ?thesis using 2(2) [OF False refl None] False None by (simp add: key_of_def)
    next
      case (Some e)
      then have e: "e \<in> set (out_edges es (qi_address cur))" "te_to e = en" by (auto simp: find_Some_iff)
      have w: "walk es start (qi_address cur) (qi_path cur)" using 2(3) by (simp add: search_ok_def)
      have "walk es start en (qi_path cur @ [en])"
        by (rule walk_extend [OF w]) (use e in \<open>auto simp: edge_def out_edges_def\<close>)
      moreover have "length (qi_path cur) < length p \<or> Suc d < length p" if "walk es start en p" "2 \<le> length p" for p
        by (rule walk_bound [OF 2(3) _ that]) (use 2(3) in \<open>auto simp: search_ok_def\<close>)
      then have "length (qi_path cur @ [en]) \<le> length p" if "walk es start en p" "2 \<le> length p" for p
        using that False by fastforce
      ultimately show ?thesis using False Some e by (simp add: extend_item_def)
    qed
  qed
qed

text \<open>C19: The search for a trust path finds one exactly when there is one of at most \<open>maxDepth\<close> edges, and then one with
  the fewest edges: every edge of it is in the graph, it starts and ends at the two addresses, and no path is
  shorter.\<close>

theorem trust_path_shortest:
  "case findTrustPath g a b d of
     None \<Rightarrow> \<forall>p. walk (tg_edges g) (canonicalAddress a) (canonicalAddress b) p \<longrightarrow> Suc d < length p
   | Some t \<Rightarrow> walk (tg_edges g) (canonicalAddress a) (canonicalAddress b) (tp_path t) \<and> length (tp_path t) \<le> Suc d
       \<and> (\<forall>p. walk (tg_edges g) (canonicalAddress a) (canonicalAddress b) p \<longrightarrow> length (tp_path t) \<le> length p)"
proof (cases "canonicalAddress a = canonicalAddress b")
  case True
  then show ?thesis by (auto simp: findTrustPath_def walk_def Let_def Suc_le_eq)
next
  case False
  let ?q = "\<lparr>qi_address = canonicalAddress a, qi_path = [canonicalAddress a], qi_distance = 0, qi_chains = []\<rparr>"
  have "search_ok (tg_edges g) d (canonicalAddress a) (canonicalAddress b) [?q] []"
    by (simp add: search_ok_def walk_def covered_def key_of_def)
  note s = search_loop_shortest [OF this]
  have two: "2 \<le> length p" if "walk (tg_edges g) (canonicalAddress a) (canonicalAddress b) p" for p
    using that False by (cases p; cases "tl p") (auto simp: walk_def)
  show ?thesis using s False two by (auto simp: findTrustPath_def Let_def split: option.splits)
qed

section \<open>Voting power\<close>

record voting_account =
  va_address :: string
  va_balance :: js_value

record delegation =
  dl_delegator :: string
  dl_delegatee :: string
  dl_amount :: "js_value option"

record voting_power =
  vp_address :: string
  vp_own :: rat
  vp_in :: rat
  vp_out :: rat
  vp_effective :: rat

definition calculateQuadraticVotingPower :: "js_value \<Rightarrow> rat" where
  "calculateQuadraticVotingPower balance = round2 (js_sqrt (max 0 (toNumber balance 0)))"

text \<open>\<open>map.get(address) ?? 0\<close>, and the map with \<open>amount\<close> added at an address.\<close>

definition power_at :: "(string, rat) jsmap \<Rightarrow> string \<Rightarrow> rat" where
  "power_at m a = (case jm_get m a of None \<Rightarrow> 0 | Some x \<Rightarrow> x)"

definition add_power :: "string \<Rightarrow> rat \<Rightarrow> (string, rat) jsmap \<Rightarrow> (string, rat) jsmap" where
  "add_power a x m = jm_set a (fl_add (power_at m a) x) m"

definition own_powers :: "voting_account list \<Rightarrow> (string, rat) jsmap" where
  "own_powers accounts = fold (\<lambda>a. jm_set (va_address a) (calculateQuadraticVotingPower (va_balance a))) accounts []"

definition delegated_amount :: "(string, rat) jsmap \<Rightarrow> delegation \<Rightarrow> rat" where
  "delegated_amount own d = (case dl_amount d of None \<Rightarrow> power_at own (dl_delegator d) | Some v \<Rightarrow> toNumber v 0)"

definition voting_row :: "(string, rat) jsmap \<Rightarrow> (string, rat) jsmap \<Rightarrow> (string, rat) jsmap \<Rightarrow> string \<Rightarrow> voting_power" where
  "voting_row own incoming outgoing a =
     \<lparr>vp_address = a, vp_own = round2 (power_at own a), vp_in = round2 (power_at incoming a), vp_out = round2 (power_at outgoing a),
      vp_effective = round2 (fl_sub (fl_add (power_at own a) (power_at incoming a)) (power_at outgoing a))\<rparr>"

definition calculateDelegatedVotingPower :: "voting_account list \<Rightarrow> delegation list \<Rightarrow> voting_power list" where
  "calculateDelegatedVotingPower accounts delegations =
     (let own = own_powers accounts;
          incoming = fold (\<lambda>d. add_power (dl_delegatee d) (delegated_amount own d)) delegations [];
          outgoing = fold (\<lambda>d. add_power (dl_delegator d) (delegated_amount own d)) delegations [];
          addresses = sort (js_set_of (map va_address accounts @ concat (map (\<lambda>d. [dl_delegator d, dl_delegatee d]) delegations)))
      in sort_key (\<lambda>v. (- vp_effective v, vp_address v)) (map (voting_row own incoming outgoing) addresses))"

section \<open>Arbitration\<close>

datatype case_status = C_open | C_resolved

datatype case_vote = Uphold | Reject | Abstain

datatype case_outcome = Upheld | Rejected

record arbitration_input =
  ac_challenger :: string
  ac_respondent :: string
  ac_challenge :: string
  ac_evidenceHash :: string
  ac_quorumVotes :: rat

record arbitration_case = arbitration_input +
  ac_id :: string
  ac_status :: case_status

record arbitration_vote =
  av_caseId :: string
  av_voter :: string
  av_vote :: case_vote
  av_weight :: rat

record arbitration_result =
  ar_caseId :: string
  ar_status :: case_status
  ar_outcome :: "case_outcome option"
  ar_votesFor :: rat
  ar_votesAgainst :: rat
  ar_votesAbstain :: rat
  ar_quorumVotes :: rat
  ar_quorumReached :: bool
  ar_winner :: string

text \<open>The hash of the five fields of the input is the parameter.\<close>

definition createArbitrationCase :: "(arbitration_input \<Rightarrow> string) \<Rightarrow> arbitration_input \<Rightarrow> arbitration_case" where
  "createArbitrationCase deterministicHash i =
     arbitration_input.extend i (arbitration_case.fields (take 16 (deterministicHash i)) C_open)"

definition castArbitrationVote :: "string \<Rightarrow> string \<Rightarrow> case_vote \<Rightarrow> rat \<Rightarrow> arbitration_vote" where
  "castArbitrationVote caseId voter vote weight = \<lparr>av_caseId = caseId, av_voter = voter, av_vote = vote, av_weight = max 0 weight\<rparr>"

definition vote_sum :: "case_vote \<Rightarrow> arbitration_vote list \<Rightarrow> rat" where
  "vote_sum kind vs = foldl (\<lambda>total v. fl_add total (av_weight v)) 0 (filter (\<lambda>v. av_vote v = kind) vs)"

definition resolveArbitrationCase :: "arbitration_case \<Rightarrow> arbitration_vote list \<Rightarrow> arbitration_result" where
  "resolveArbitrationCase c votes =
     (let caseVotes = filter (\<lambda>v. av_caseId v = ac_id c) votes;
          votesFor = vote_sum Uphold caseVotes;
          votesAgainst = vote_sum Reject caseVotes;
          votesAbstain = vote_sum Abstain caseVotes;
          quorumReached = (ac_quorumVotes c \<le> fl_add votesFor votesAgainst);
          resolved = (if quorumReached then Some (if votesAgainst < votesFor then Upheld else Rejected) else None)
      in \<lparr>ar_caseId = ac_id c, ar_status = (if resolved = None then C_open else C_resolved), ar_outcome = resolved,
          ar_votesFor = votesFor, ar_votesAgainst = votesAgainst, ar_votesAbstain = votesAbstain,
          ar_quorumVotes = ac_quorumVotes c, ar_quorumReached = quorumReached,
          ar_winner = (case resolved of None \<Rightarrow> ''none'' | Some Upheld \<Rightarrow> ''challenger'' | Some Rejected \<Rightarrow> ''respondent'')\<rparr>)"

text \<open>A delegation without an amount is the whole power of the delegator, and each of them is: two of them
  double it and leave the delegator below zero.\<close>

lemma double_delegation:
  "map (\<lambda>v. (vp_address v, vp_effective v))
     (calculateDelegatedVotingPower [\<lparr>va_address = ''a'', va_balance = V_number 100\<rparr>]
       [\<lparr>dl_delegator = ''a'', dl_delegatee = ''b'', dl_amount = None\<rparr>, \<lparr>dl_delegator = ''a'', dl_delegatee = ''c'', dl_amount = None\<rparr>])
   = [(''b'', 10), (''c'', 10), (''a'', - 10)]"
proof -
  have root: "js_sqrt 100 = 10" using js_sqrt_square [of 10] by simp
  have r: "fl_round 1000 = 1000" "fl_round 10 = 10" "fl_round 20 = 20" "fl_round (- 1000) = - 1000" "fl_round (- 10) = - 10"
    using fl_round_nat [of 1000] fl_round_nat [of 10] fl_round_nat [of 20] by (simp_all add: fl_round_def)
  have jr: "js_round 1000 = 1000" "js_round (- 1000) = - 1000" by (simp_all add: js_round_def floor_eq_iff)
  have own: "calculateQuadraticVotingPower (V_number 100) = 10"
    by (simp add: calculateQuadraticVotingPower_def toNumber_def root round2_def jr fl_mul_def fl_div_def r)
  show ?thesis
    by (simp add: calculateDelegatedVotingPower_def own_powers_def own delegated_amount_def power_at_def add_power_def jm_get_def jm_set_def
      voting_row_def js_set_of_def js_add_def Let_def round2_def jr fl_mul_def fl_div_def fl_add_def fl_sub_def r
      sort_key_def insort_key_def)
qed

text \<open>The sum of votes grows with a vote of its kind, and no other sum changes.\<close>

lemma vote_sum_snoc:
  "vote_sum k (vs @ [v]) = (if av_vote v = k then fl_add (vote_sum k vs) (av_weight v) else vote_sum k vs)"
  by (simp add: vote_sum_def)

lemma pow2_above: "\<exists>k. 0 \<le> k \<and> x \<le> pow2 k"
proof -
  obtain m :: nat where "x < of_nat m" using reals_Archimedean2 by blast
  moreover have "of_nat m < (2 :: rat) ^ m" by (rule of_nat_less_two_power)
  ultimately have "x < 2 ^ m" by (rule less_trans)
  then show ?thesis by (intro exI [of _ "int m"]) (simp add: pow2_def less_imp_le)
qed

lemma fl_round_pow2: "0 \<le> k \<Longrightarrow> fl_round (pow2 k) = pow2 k"
  using round_pos_multiple [of 1 k] by (simp add: fl_round_def less_not_sym [OF pow2_pos])

text \<open>Nothing bounds the weight of a vote and nothing asks whether the voter has voted: for every case with a whole
  quorum, whatever has been voted, one more vote of any voter upholds it, also after it was resolved
  otherwise.\<close>

lemma one_vote_decides:
  assumes q: "fl_round (ac_quorumVotes c) = ac_quorumVotes c"
  shows "\<exists>w. ar_outcome (resolveArbitrationCase c (votes @ [castArbitrationVote (ac_id c) voter Uphold w])) = Some Upheld"
proof -
  let ?cv = "filter (\<lambda>v. av_caseId v = ac_id c) votes"
  let ?f = "vote_sum Uphold ?cv" and ?a = "vote_sum Reject ?cv"
  obtain k where k: "0 \<le> k" "max (?a + 1) (ac_quorumVotes c - ?a) \<le> pow2 k" using pow2_above by blast
  define w where "w = max 0 (pow2 k - ?f)"
  have "fl_round (pow2 k) \<le> fl_add ?f w" unfolding fl_add_def by (rule fl_round_mono) (simp add: w_def)
  then have big: "pow2 k \<le> fl_add ?f w" using k by (simp add: fl_round_pow2)
  then have "ac_quorumVotes c \<le> fl_add ?f w + ?a" using k by simp
  then have "fl_round (ac_quorumVotes c) \<le> fl_add (fl_add ?f w) ?a" unfolding fl_add_def [of "fl_add ?f w"] by (rule fl_round_mono)
  then have quorum: "ac_quorumVotes c \<le> fl_add (fl_add ?f w) ?a" using q by simp
  have "0 \<le> w" by (simp add: w_def)
  then have "ar_outcome (resolveArbitrationCase c (votes @ [castArbitrationVote (ac_id c) voter Uphold w])) = Some Upheld"
    using big quorum k by (simp add: resolveArbitrationCase_def castArbitrationVote_def vote_sum_snoc Let_def)
  then show ?thesis ..
qed

text \<open>The vote on a case resolves it exactly when the weights for and against reach the quorum; an abstention never
  counts; the challenger wins only with more weight than the respondent, and a draw goes to the
  respondent.\<close>

theorem arbitration_exact:
  "ar_winner (resolveArbitrationCase c votes) =
     (let f = ar_votesFor (resolveArbitrationCase c votes); a = ar_votesAgainst (resolveArbitrationCase c votes) in
      if fl_add f a < ac_quorumVotes c then ''none'' else if a < f then ''challenger'' else ''respondent'')
   \<and> (ar_status (resolveArbitrationCase c votes) = C_resolved \<longleftrightarrow> ar_winner (resolveArbitrationCase c votes) \<noteq> ''none'')
   \<and> ar_winner (resolveArbitrationCase c (filter (\<lambda>v. av_vote v \<noteq> Abstain) votes)) = ar_winner (resolveArbitrationCase c votes)"
proof -
  have "vote_sum k (filter (\<lambda>v. av_caseId v = ac_id c) (filter (\<lambda>v. av_vote v \<noteq> Abstain) votes))
      = vote_sum k (filter (\<lambda>v. av_caseId v = ac_id c) votes)" if "k \<noteq> Abstain" for k
  proof -
    have "filter (\<lambda>v. av_vote v = k) (filter (\<lambda>v. av_caseId v = ac_id c) (filter (\<lambda>v. av_vote v \<noteq> Abstain) votes))
        = filter (\<lambda>v. av_vote v = k) (filter (\<lambda>v. av_caseId v = ac_id c) votes)"
      using that by (induction votes) auto
    then show ?thesis by (simp only: vote_sum_def)
  qed
  note drop = this [OF case_vote.distinct(3)] this [OF case_vote.distinct(5)]
  show ?thesis by (simp add: resolveArbitrationCase_def Let_def drop not_less del: filter_filter)
qed

definition demo_graph :: trust_graph where
  "demo_graph = \<lparr>tg_nodes = [''a'', ''b'', ''c''], tg_edges = map (\<lambda>(x, y). \<lparr>te_from = x, te_to = y, te_chain = ''s'', te_weight = 1\<rparr>)
     [(''a'', ''b''), (''b'', ''c''), (''a'', ''c'')]\<rparr>"

lemma trust_path_shortest_witness:
  "(\<exists>t. findTrustPath demo_graph ''a'' ''c'' 6 = Some t \<and> length (tp_path t) \<le> 2) \<and> findTrustPath demo_graph ''c'' ''a'' 6 = None"
proof -
  have c: "canonicalAddress ''a'' = ''a''" "canonicalAddress ''c'' = ''c''" by code_simp+
  have w: "walk (tg_edges demo_graph) ''a'' ''c'' [''a'', ''c'']" by (simp add: walk_def edge_def demo_graph_def)
  have "\<exists>t. findTrustPath demo_graph ''a'' ''c'' 6 = Some t \<and> length (tp_path t) \<le> 2"
    using trust_path_shortest [of demo_graph "''a''" "''c''" 6] w c by (force split: option.splits)
  moreover have "\<not> walk (tg_edges demo_graph) ''c'' ''a'' p" for p
  proof
    assume a: "walk (tg_edges demo_graph) ''c'' ''a'' p"
    then have "1 < length p" by (cases p; cases "tl p") (auto simp: walk_def)
    then have "edge (tg_edges demo_graph) (p ! 0) (p ! 1)" using a by (simp add: walk_def)
    moreover have "p ! 0 = ''c''" using a hd_conv_nth [of p] by (auto simp: walk_def)
    ultimately show False by (auto simp: edge_def demo_graph_def)
  qed
  then have "findTrustPath demo_graph ''c'' ''a'' 6 = None"
    using trust_path_shortest [of demo_graph "''c''" "''a''" 6] c by (auto split: option.splits)
  ultimately show ?thesis by blast
qed

end
