(* ===== verification/Spec2Isabelle.thy ===== *)
theory Spec2Isabelle
  imports Ssrf_Guard Webhook_Workers Lru_Cache Ledger_Repair Call_Graph Wasm_Templates Wasm_Analysis Upgrade_Props Cron_Props
    Settlement_Compactor Upgrade_Invariant Feed_Publisher Bridge_Worker Rate_Limits Call_Traces Dex_Arbitrage
    Mev_Classifier Failed_Items Protocol_Guard Auth_Props Auth_Keys Ws_Broadcaster Csv_Exporter Reputation_Graph
begin

text \<open>
  A verification library for the backend of a Soroban explorer: a TypeScript service under \<open>src/src\<close>
  that indexes ledgers, decompiles contracts, watches their upgrades, runs scheduled contract
  calls, follows transfers over bridges and the pools of exchanges, looks for sandwiches and
  re-entrant calls, pushes what it sees to webhooks and to live feeds, and lets users log in with
  the keys of their wallets.

  \<^bold>\<open>Parts and theories.\<close> Each theory translates the files that it names; a record is a row of a
  table, a class or the closure of a module, a definition is a function, and functions that
  change state return the changed state. Names follow the source.

    \<^item> \<open>Octra_Prelude\<close>: insertion-ordered maps and sets, row tables, decimal text, the locales
      \<open>keyed_store\<close> (laws of a map; interpreted on the JavaScript map) and \<open>invariant_system\<close> (a step
      relation with an invariant; interpreted by every component that has one).
      \<open>Js_Int32\<close>, \<open>Js_Number\<close>, \<open>Js_Double\<close>: bitwise operators on 32 bits, \<open>Number(text)\<close>, doubles with their
      rounding and \<open>parseFloat\<close>; \<open>Js_Sqrt\<close>: the square root of a double.
    \<^item> Outbound webhooks: \<open>Ssrf_Guard\<close> (\<open>webhooks/ssrf-guard.ts\<close>) checks addresses, URLs and redirects;
      \<open>Webhook_Delivery\<close> and \<open>Webhook_Workers\<close> (\<open>webhooks/dispatcher.ts\<close>, \<open>retention.ts\<close>, \<open>redaction.ts\<close>,
      parts of \<open>api/webhooks.ts\<close>) hold the delivery table, the attempts that call the guard, leases,
      retries, and several replicas as the step relation \<open>wh_step\<close>.
    \<^item> \<open>Lru_Cache\<close> (\<open>cache.ts\<close>): local LRU cache in front of Redis, refined by a bounded recency list.
    \<^item> \<open>Ledger_Repair\<close> (\<open>indexer/reconciliation.ts\<close>, \<open>repair.ts\<close>): gaps, health report, repair sweep and loop.
    \<^item> \<open>Dfs_Cycles\<close>, \<open>Call_Graph\<close> (\<open>indexer/reentrancy-fortress/call-graph.ts\<close>): trees of calls, cycles.
    \<^item> The Wasm decompiler (\<open>indexer/wasm-decompiler.ts\<close>): \<open>Leb128\<close>, \<open>Wasm_Opcodes\<close>, \<open>Wasm_Index\<close> (opcode
      index and templates), \<open>Wasm_Module\<close> (module reader), \<open>Wasm_Functions\<close> (function analysis); their
      properties are in \<open>Wasm_Index_Props\<close>, \<open>Wasm_Templates\<close> and \<open>Wasm_Analysis\<close>.
    \<^item> Upgrades: \<open>Wasm_Spec\<close> (\<open>wasm-spec.ts\<close>), \<open>Wasm_Diff\<close> (\<open>wasm-diff.ts\<close>, on the opcode index and the
      function list), \<open>Upgrade_Governance\<close> (\<open>upgrade-governance.ts\<close>, \<open>wasm-upgrade-collector.ts\<close>),
      \<open>Upgrade_Detector\<close> (\<open>upgrade-detector.ts\<close>, which calls the former); \<open>Upgrade_Props\<close>.
      \<open>Upgrade_Invariant\<close> (\<open>upgrade-invariant.ts\<close>): the gate for protocol versions.
    \<^item> Scheduling: \<open>Cron_Engine\<close>, \<open>Cron_Jobs\<close> (\<open>indexer/cron-engine.ts\<close>), \<open>Cron_Api\<close> (the writing handlers of
      \<open>api/schedule.ts\<close>), with the step relation \<open>cron_step\<close> over both; \<open>Cron_Props\<close>.
    \<^item> \<open>Settlement_Compactor\<close> (\<open>indexer/settlement-compactor.ts\<close>).
    \<^item> Live feed: \<open>Feed_Delivery\<close> (\<open>feed/subscriptionManager.ts\<close>, \<open>deliveryService.ts\<close>) with the step relation
      \<open>feed_step\<close>, \<open>Feed_Props\<close>, \<open>Feed_Publisher\<close> (\<open>feed/publisher.ts\<close>, the distribution of \<open>orchestrator.ts\<close>).
    \<^item> Bridge tracker (\<open>bridge-tracker\<close>): \<open>Bridge_Detector\<close> reads transfers out of contract logs
      (\<open>detector.ts\<close>), \<open>Bridge_Resolver\<close> holds the row of a transfer, the state of a transaction on its chain and
      the two routines that decide the status (\<open>chain-providers/index.ts\<close>, \<open>resolver.ts\<close>, \<open>finality.ts\<close>),
      \<open>Bridge_Worker\<close> the alerts and the poll cycle (\<open>alerts.ts\<close>, \<open>worker.ts\<close>) with the step relation
      \<open>bridge_step\<close> over all three tables.
    \<^item> Access: \<open>Api_Keys\<close> (\<open>middleware/apiKeyAuth.ts\<close>, \<open>wsAuth.ts\<close>, \<open>api/developer/keys.ts\<close>, the tier update of
      \<open>services/stripe-billing.ts\<close>) and \<open>Rate_Limits\<close> (\<open>middleware/tokenBucket.ts\<close>, \<open>rateLimit.ts\<close>).
    \<^item> Authentication: \<open>Auth_Core\<close> (\<open>auth/challenge.ts\<close>, \<open>tokens.ts\<close>, \<open>rbac.ts\<close>, \<open>middleware.ts\<close> and the writing
      handlers of \<open>api/auth.ts\<close>, \<open>authMultisig.ts\<close>, \<open>authOAuth2.ts\<close>), \<open>Auth_Props\<close> with the step relation
      \<open>auth_step\<close> over all of them, \<open>Auth_Keys\<close> (\<open>auth/keys.ts\<close>).
    \<^item> \<open>Ws_Broadcaster\<close> (\<open>ws/eventBroadcaster.ts\<close>): connections of the event stream, their limits and the
      heartbeat, with the step relation \<open>ws_step\<close>; it calls the check of \<open>Api_Keys\<close>.
    \<^item> \<open>Csv_Exporter\<close> (\<open>indexer/csv-exporter.ts\<close>, \<open>exports/resolve-path.ts\<close>, the download of \<open>api/exports.ts\<close>).
    \<^item> \<open>Reputation_Graph\<close> (\<open>reputation/trustGraph.ts\<close>, \<open>governance.ts\<close>, \<open>arbitration.ts\<close>): trust paths,
      voting power, the result of a vote.
    \<^item> \<open>Call_Traces\<close> (\<open>indexer/call-trace.ts\<close>, \<open>trace-engine.ts\<close>, \<open>reentrancy-detector.ts\<close>): readers of diagnostic
      events, the trace levels, the detector of re-entrant calls.
    \<^item> Exchanges (\<open>indexer/dex\<close>): \<open>Pool_Math\<close> (\<open>pool-math.ts\<close>), \<open>Dex_Pools\<close> (\<open>pool-detector.ts\<close>: pools and their
      reserves by event sourcing), \<open>Dex_Pricing\<close> (\<open>pricing.ts\<close>, metrics of \<open>pool-processor.ts\<close>),
      \<open>Dex_Arbitrage\<close> (\<open>arbitrage.ts\<close>: the search and the stored opportunities).
    \<^item> Extracted value: \<open>Sandwich_Detector\<close> (\<open>indexer/sandwich-detector.ts\<close>), \<open>Mev_Classifier\<close>
      (\<open>mev-classifier.ts\<close> and the handler that runs it).
    \<^item> Housekeeping of the indexer: \<open>Failed_Items\<close> (\<open>errorQueue.ts\<close>, \<open>dataPruner.ts\<close>) with the step relation
      \<open>queue_step\<close>, \<open>Protocol_Guard\<close> (\<open>protocol-guard.ts\<close>).

  \<^bold>\<open>What the lemmas show.\<close> Safety of outbound requests, of claims, of API keys, of sessions and
  authorization codes, of export paths and of derived prices; exactly when a login succeeds; invariants of all reachable states (delivery rows, cache bound, upgrade chain, cron
  counters, feed conservation and order, sequence numbers, one alert per failed transfer, open
  arbitrage rows, failed items, connection counts); exact functional behaviour against reference definitions (gap
  search, opcode index, function difference, cron fields and next run, compaction, fan-out, gate
  verdict, finality, rate window, cyclic calls, simple sandwiches, shortest trust paths, exported files); refinement of the cache by a
  recency list and of the reserves of a pool by the balances of its events; the product and the
  rounding of swaps; round trip of LEB128; and, where the code does not do what it says, theorems
  that state precisely what it does instead.

  \<^bold>\<open>Loops.\<close> Loops that always end are total functions with a measure. A loop that may run for ever
  either is a \<open>partial_function\<close> whose value \<open>None\<close> means that it does not return (the step loop of a
  cron field, the pages of an export), or takes fuel. The section loops of the Wasm readers need one unit per section,
  which the decoding theorems assume and show to be enough; on a binary whose section size is
  negative no amount is. The depth-first search gets \<open>dfs_fuel\<close>, the number of mentioned nodes, which
  is proved to suffice; the search of a trust path ends since no address is expanded twice at one depth. Redirects, retries, repair rounds and the passes of the price derivation have
  the bounds of the source.

  \<^bold>\<open>Numbers.\<close> Bitwise operators act on 32 bits; \<open>BigInt\<close> and counters are integers. Prices and scores
  are doubles: a finite double is the rational it stands for, and every operation rounds to the
  nearest one, ties to even (\<open>Js_Double\<close>). Where a theory says that doubles stay finite, the results
  of its operations lie below the overflow threshold.

  \<^bold>\<open>Concurrency.\<close> Interleavings are steps: replicas that claim and send, publishes that wait for the
  database, timers that fire, polls and user requests between them, events and polls of the bridge
  tracker, requests of users and connections of clients. A handler that writes several rows is one step unless its theory says otherwise.

  \<^bold>\<open>Not modelled.\<close> Code outside \<open>src/\<close> (Prisma, Redis, axios, DNS, the Stellar SDK, hash functions)
  appears as tables or as parameters with hypotheses on documented behaviour. Handlers that only
  read tables, payload builders, timers, logging and metrics are left out, as are the analytics
  that are database queries with free-form scores (reputation scores, privacy, composability, yield), the sandbox runtime, which drives containers, and the indexer
  loop, which walks XDR objects of the SDK.
\<close>

end
